(* ===== verification/Prelude.thy ===== *)
theory Prelude
  imports Main "HOL-Library.Word"
begin

text \<open>
  Shared material of the development: the machine integer types of the C++ sources, the fault
  value that stands for an unrecoverable abort, and the lemmas on words, lists and address
  ranges that the component theories rely on. The collection \<open>word_nat\<close> moves order and
  equality of words to the natural numbers; together with \<open>unat_add_nowrap\<close> and
  \<open>unat_sub_nowrap\<close> it carries most of the address arithmetic.
\<close>

unbundle bit_operations_syntax

section \<open>Machine integers and faults\<close>

type_synonym u8 = "8 word"
type_synonym u16 = "16 word"
type_synonym u32 = "32 word"
type_synonym u64 = "64 word"

text \<open>
  \<open>UNRECOVERABLE_IF\<close> and \<open>abortExecution\<close> end the process: the value \<open>Inl\<close> of a result.
\<close>

datatype fault = Unrecoverable | AbortExecution

type_synonym 'a result = "fault + 'a"

text \<open>The rest of a call sequence runs when the call before it returned.\<close>

definition andThen :: "'a result \<Rightarrow> ('a \<Rightarrow> 'b result) \<Rightarrow> 'b result" where
  "andThen r f = (case r of Inl e \<Rightarrow> Inl e | Inr x \<Rightarrow> f x)"

lemma andThen_simps [simp]: "andThen (Inl e) f = Inl e" "andThen (Inr x) f = f x"
  by (simp_all add: andThen_def)

lemma andThen_InrE:
  assumes "andThen r f = Inr y"
  obtains x where "r = Inr x" "f x = Inr y"
  using assms by (cases r) auto

named_theorems word_nat "order and equality of words as order and equality of natural numbers"

lemmas [word_nat] = word_le_nat_alt word_less_nat_alt word_unat_eq_iff

section \<open>Words without wrap-around\<close>

lemma unat_add_nowrap:
  fixes a b :: "'a::len word"
  shows "unat a + unat b < 2 ^ LENGTH('a) \<Longrightarrow> unat (a + b) = unat a + unat b"
  by (simp add: unat_word_ariths)

lemma unat_sub_nowrap:
  fixes a b :: "'a::len word"
  shows "unat b \<le> unat a \<Longrightarrow> unat (a - b) = unat a - unat b"
  by (simp add: unat_sub word_le_nat_alt)

lemma unat_mult_nowrap:
  fixes a b :: "'a::len word"
  shows "unat a * unat b < 2 ^ LENGTH('a) \<Longrightarrow> unat (a * b) = unat a * unat b"
  by (simp add: unat_word_ariths)

lemma unat_lt64 [simp]: "unat (a :: u64) < 18446744073709551616"
  using unsigned_less [of a] by simp

lemma unat_pow2:
  "k < LENGTH('a::len) \<Longrightarrow> unat (2 ^ k :: 'a word) = 2 ^ k"
  by (metis Suc_1 mod_less of_nat_numeral of_nat_power power_strict_increasing_iff unat_of_nat lessI)

section \<open>Masks and powers of two\<close>

lemma word_and_not_mask:
  fixes x :: "'a::len word"
  shows "x AND NOT (mask k) = x - take_bit k x"
proof -
  have "x = (x AND mask k) + (x AND NOT (mask k))"
    by (subst disjunctive_add) (auto simp: bit_eq_iff bit_simps)
  then show ?thesis by (simp add: take_bit_eq_mask algebra_simps)
qed

lemma unat_take_bit:
  fixes x :: "'a::len word"
  shows "unat (take_bit k x) = unat x mod 2 ^ k"
  by (metis unsigned_take_bit_eq take_bit_eq_mod)

lemma unat_and_not_mask:
  fixes x :: "'a::len word"
  shows "unat (x AND NOT (mask k)) = unat x - unat x mod 2 ^ k"
proof -
  have "take_bit k x \<le> x"
    by (simp only: word_le_nat_alt unat_take_bit mod_less_eq_dividend)
  then show ?thesis by (simp only: word_and_not_mask unat_sub unat_take_bit)
qed

lemma pow2_minus_1_mask: "(2 ^ k - 1 :: 'a::len word) = mask k"
  by (simp add: mask_eq_exp_minus_1)

lemma nat_pow2_iff: "(n::nat) AND (n - 1) = 0 \<and> n \<noteq> 0 \<longleftrightarrow> (\<exists>k. n = 2 ^ k)"
proof (induction n rule: less_induct)
  case (less n)
  consider "n = 0 \<or> n = 1" | m where "n = 2 * m" "m \<noteq> 0" | m where "n = 2 * m + 1" "m \<noteq> 0"
    by (metis evenE oddE mult_0_right add_0)
  then show ?case
  proof cases
    case 1
    then show ?thesis by (auto intro: exI [of _ 0])
  next
    case (2 m)
    have e: "(n - 1) div 2 = m - 1" "odd (n - 1)" "m < n" using 2 by auto
    have "n AND (n - 1) = 2 * (m AND (m - 1))"
      using e 2 by (subst and_nat_rec) simp
    moreover have "(\<exists>k. n = 2 ^ k) = (\<exists>k. m = 2 ^ k)"
    proof
      assume "\<exists>k. n = 2 ^ k"
      then obtain k where k: "n = 2 ^ k" by blast
      then obtain j where "k = Suc j" using 2 by (cases k) auto
      then show "\<exists>k. m = 2 ^ k" using k 2 by auto
    qed (metis power_Suc 2(1))
    ultimately show ?thesis using less.IH [OF e(3)] 2 by auto
  next
    case (3 m)
    have "n AND (n - 1) = 2 * m"
      by (subst and_nat_rec) (simp add: 3)
    moreover have "n \<noteq> 2 ^ k" for k using 3 by (cases k) (simp_all, presburger)
    ultimately show ?thesis using 3 by auto
  qed
qed

lemma word_pow2_iff:
  fixes w :: "'a::len word"
  shows "w \<noteq> 0 \<and> w AND (w - 1) = 0 \<longleftrightarrow> (\<exists>k < LENGTH('a). w = 2 ^ k)"
proof -
  have "(w \<noteq> 0 \<and> w AND (w - 1) = 0) = (unat w AND (unat w - 1) = 0 \<and> unat w \<noteq> 0)"
  proof (cases "w = 0")
    case False
    then have "unat (w - 1) = unat w - 1"
      by (simp add: unat_sub word_le_nat_alt unat_gt_0 Suc_leI)
    then show ?thesis using False
      by (metis unat_eq_zero unsigned_and_eq)
  qed simp
  also have "\<dots> = (\<exists>k. unat w = 2 ^ k)" by (rule nat_pow2_iff)
  also have "\<dots> = (\<exists>k < LENGTH('a). w = 2 ^ k)"
  proof
    assume "\<exists>k. unat w = 2 ^ k"
    then obtain k where k: "unat w = 2 ^ k" by blast
    then have "(2::nat) ^ k < 2 ^ LENGTH('a)" by (metis unsigned_less)
    then have "k < LENGTH('a)" by simp
    moreover from this have "w = 2 ^ k" using k by (simp add: word_unat_eq_iff unat_pow2)
    ultimately show "\<exists>k < LENGTH('a). w = 2 ^ k" by blast
  qed (auto simp: unat_pow2)
  finally show ?thesis .
qed

text \<open>
  \<open>smears k x y\<close>: every set bit of \<open>x\<close> has been copied to the \<open>k - 1\<close> positions below it.
  The power-of-two helpers double \<open>k\<close> with every shift-and-or step.
\<close>

definition smears :: "nat \<Rightarrow> 'a::len word \<Rightarrow> 'a word \<Rightarrow> bool" where
  "smears k x y \<longleftrightarrow> (\<forall>n. bit y n \<longleftrightarrow> (\<exists>j<k. bit x (n + j)))"

lemma smears_refl: "k = 1 \<Longrightarrow> smears k x x"
  by (simp add: smears_def)

lemma smears_step: "smears k x y \<Longrightarrow> smears (2 * k) x (y OR drop_bit k y)"
proof -
  assume s: "smears k x y"
  have "(\<exists>j<k. bit x (n + j)) \<or> (\<exists>j<k. bit x (k + n + j)) \<longleftrightarrow> (\<exists>j<2*k. bit x (n + j))" for n
  proof
    assume "\<exists>j<2*k. bit x (n + j)"
    then obtain j where j: "j < 2 * k" "bit x (n + j)" by blast
    show "(\<exists>j<k. bit x (n + j)) \<or> (\<exists>j<k. bit x (k + n + j))"
    proof (cases "j < k")
      case False
      then have "j - k < k \<and> bit x (k + n + (j - k))" using j by (simp add: algebra_simps)
      then show ?thesis by blast
    qed (use j in blast)
  next
    assume "(\<exists>j<k. bit x (n + j)) \<or> (\<exists>j<k. bit x (k + n + j))"
    then show "\<exists>j<2*k. bit x (n + j)"
    proof (elim disjE exE conjE)
      fix j assume "j < k" "bit x (k + n + j)"
      then have "k + j < 2 * k \<and> bit x (n + (k + j))" by (simp add: algebra_simps)
      then show ?thesis by blast
    next
      fix j assume "j < k" "bit x (n + j)"
      then show ?thesis by (intro exI [of _ j]) auto
    qed
  qed
  then show ?thesis using s by (simp add: smears_def bit_simps)
qed

lemma smears_doubles: "smears k x y \<Longrightarrow> m = 2 * k \<Longrightarrow> smears m x (y OR drop_bit k y)"
  using smears_step by blast

text \<open>A word has a highest set bit, which brackets its value between two powers of two.\<close>

lemma highest_bit:
  fixes x :: "'a::len word"
  assumes "x \<noteq> 0"
  obtains h where "h < LENGTH('a)" "bit x h" "\<And>n. bit x n \<Longrightarrow> n \<le> h"
    "2 ^ h \<le> unat x" "unat x < 2 ^ Suc h"
proof -
  define h where "h = Max {n. bit x n}"
  have fin: "finite {n. bit x n}"
    by (rule finite_subset [of _ "{..<LENGTH('a)}"]) (auto dest: bit_imp_le_length)
  have ne: "{n. bit x n} \<noteq> {}" using assms by (auto simp: bit_eq_iff)
  have b: "bit x h" and m: "\<And>n. bit x n \<Longrightarrow> n \<le> h"
    using Max_in [OF fin ne] Max_ge [OF fin] by (auto simp: h_def)
  have "take_bit (Suc h) x = x"
    using m by (auto simp: bit_eq_iff bit_simps less_Suc_eq_le)
  then have "unat x mod 2 ^ Suc h = unat x" by (metis unat_take_bit)
  then have up: "unat x < 2 ^ Suc h" by (metis mod_less_divisor zero_less_numeral zero_less_power)
  have "bit (unat x) h" using b by (simp add: bit_unsigned_iff)
  then have "odd (unat x div 2 ^ h)" by (simp add: bit_iff_odd)
  then have "unat x div 2 ^ h \<noteq> 0" by (metis even_zero)
  then have "2 ^ h \<le> unat x" by (simp add: div_eq_0_iff)
  then show ?thesis using that [of h] b m up bit_imp_le_length by blast
qed

lemma smears_mask:
  fixes x :: "'a::len word"
  assumes "smears k x y" "LENGTH('a) \<le> k" "bit x h" "\<And>n. bit x n \<Longrightarrow> n \<le> h"
  shows "y = mask (Suc h)"
proof (rule bit_word_eqI)
  fix n assume n: "n < LENGTH('a)"
  have "bit y n \<longleftrightarrow> (\<exists>j<k. bit x (n + j))" using assms(1) by (simp add: smears_def)
  also have "\<dots> \<longleftrightarrow> n \<le> h"
  proof
    assume "n \<le> h"
    moreover have "h < LENGTH('a)" using assms(3) by (rule bit_imp_le_length)
    ultimately show "\<exists>j<k. bit x (n + j)"
      using assms(2,3) by (intro exI [of _ "h - n"]) auto
  qed (use assms(4) in force)
  finally show "bit y n = bit (mask (Suc h) :: 'a word) n"
    using n by (simp add: bit_mask_iff less_Suc_eq_le)
qed

section \<open>Lists\<close>

text \<open>\<open>std::vector::erase\<close> at one position.\<close>

definition eraseAt :: "nat \<Rightarrow> 'a list \<Rightarrow> 'a list" where
  "eraseAt i xs = take i xs @ drop (Suc i) xs"

lemma eraseAt_Cons_0 [simp]: "eraseAt 0 (x # xs) = xs"
  by (simp add: eraseAt_def)

lemma eraseAt_Cons_Suc [simp]: "eraseAt (Suc i) (x # xs) = x # eraseAt i xs"
  by (simp add: eraseAt_def)

lemma list_split_at: "i < length xs \<Longrightarrow> xs = take i xs @ xs ! i # drop (Suc i) xs"
  by (simp add: id_take_nth_drop)

lemma eraseAt_length [simp]: "i < length xs \<Longrightarrow> length (eraseAt i xs) = length xs - 1"
  by (simp add: eraseAt_def)

end
