(* ===== verification/Math_Helpers.thy ===== *)
theory Math_Helpers
  imports Prelude
begin

text \<open>
  The arithmetic helpers every other component calls: \<open>helpers/constants.h\<close>,
  \<open>helpers/basic_math.h\<close>, \<open>helpers/bit_helpers.h\<close>, \<open>helpers/aligned_memory.h\<close> and
  \<open>helpers/ptr_math.h\<close>. A 64-bit release build is modelled: \<open>size_t\<close> and \<open>uintptr_t\<close> are
  64 bits wide, \<open>DEBUG_BREAK_IF\<close> and \<open>OPTIONAL_UNRECOVERABLE_IF\<close> are empty. The lemmas give
  the arithmetic meaning of the bit tricks.
\<close>

section \<open>Constants\<close>

definition maxNBitValue :: "u64 \<Rightarrow> u64" where
  "maxNBitValue n = (if n = 64 then - 1 else push_bit (unat n) 1 - 1)"

definition kiloByte :: u64 where "kiloByte = 1024"
definition megaByte :: u64 where "megaByte = 1024 * kiloByte"
definition gigaByte :: u64 where "gigaByte = 1024 * megaByte"
definition teraByte :: u64 where "teraByte = 1024 * gigaByte"
definition pageSize :: u64 where "pageSize = 4 * kiloByte"
definition pageSize64k :: u64 where "pageSize64k = 64 * kiloByte"
definition pageMask :: u64 where "pageMask = pageSize - 1"

lemma memory_constants [simp]:
  "kiloByte = 1024" "megaByte = 1048576" "gigaByte = 1073741824" "teraByte = 1099511627776"
  "pageSize = 4096" "pageSize64k = 65536" "pageMask = 4095"
  by (simp_all add: kiloByte_def megaByte_def gigaByte_def teraByte_def pageSize_def
      pageSize64k_def pageMask_def)

section \<open>Powers of two and logarithms (basic\_math.h)\<close>

definition nextPowerOfTwo32 :: "u32 \<Rightarrow> u32" where
  "nextPowerOfTwo32 value =
     (let value = value - 1;
          value = value OR drop_bit 1 value;
          value = value OR drop_bit 2 value;
          value = value OR drop_bit 4 value;
          value = value OR drop_bit 8 value;
          value = value OR drop_bit 16 value
      in value + 1)"

definition nextPowerOfTwo64 :: "u64 \<Rightarrow> u64" where
  "nextPowerOfTwo64 value =
     (let value = value - 1;
          value = value OR drop_bit 1 value;
          value = value OR drop_bit 2 value;
          value = value OR drop_bit 4 value;
          value = value OR drop_bit 8 value;
          value = value OR drop_bit 16 value;
          value = value OR drop_bit 32 value
      in value + 1)"

definition prevPowerOfTwo32 :: "u32 \<Rightarrow> u32" where
  "prevPowerOfTwo32 value =
     (let value = value OR drop_bit 1 value;
          value = value OR drop_bit 2 value;
          value = value OR drop_bit 4 value;
          value = value OR drop_bit 8 value;
          value = value OR drop_bit 16 value
      in value - drop_bit 1 value)"

definition prevPowerOfTwo64 :: "u64 \<Rightarrow> u64" where
  "prevPowerOfTwo64 value =
     (let value = value OR drop_bit 1 value;
          value = value OR drop_bit 2 value;
          value = value OR drop_bit 4 value;
          value = value OR drop_bit 8 value;
          value = value OR drop_bit 16 value;
          value = value OR drop_bit 32 value
      in value - drop_bit 1 value)"

text \<open>The de Bruijn table of \<open>getMinLsbSet\<close>.\<close>

definition multiplyDeBruijnBitPosition :: "u8 list" where
  "multiplyDeBruijnBitPosition =
     [0, 1, 28, 2, 29, 14, 24, 3, 30, 22, 20, 15, 25, 17, 4, 8,
      31, 27, 13, 23, 21, 19, 16, 7, 26, 12, 18, 6, 11, 5, 10, 9]"

definition getMinLsbSet :: "u32 \<Rightarrow> u32" where
  "getMinLsbSet value =
     (let invert = - (ucast value :: u64);
          value = value AND ucast invert
      in ucast (multiplyDeBruijnBitPosition ! unat (drop_bit 27 (value * 0x077CB531))))"

text \<open>\<open>while (value >>= 1) exponent++;\<close>\<close>

function log2Loop :: "'a::len word \<Rightarrow> u32 \<Rightarrow> u32" where
  "log2Loop value exponent =
     (let value' = drop_bit 1 value
      in if value' \<noteq> 0 then log2Loop value' (exponent + 1) else exponent)"
  by pat_completeness auto
termination
proof (relation "measure (\<lambda>(v, _). unat v)")
  fix v :: "'a::len word" and e :: u32 and x
  assume x: "x = drop_bit 1 v" "x \<noteq> 0"
  have "unat v \<noteq> 0" using x by (metis unat_eq_zero drop_bit_of_0)
  moreover have "unat x = drop_bit 1 (unat v)" using x(1) by (simp only: unat_drop_bit_eq)
  ultimately show "((x, e + 1), v, e) \<in> measure (\<lambda>(v, _). unat v)" by (simp add: drop_bit_Suc)
qed simp

declare log2Loop.simps [simp del]

definition log2_32 :: "u32 \<Rightarrow> u32" where
  "log2_32 value = (if value = 0 then 32 else log2Loop value 0)"

definition log2_64 :: "u64 \<Rightarrow> u32" where
  "log2_64 value = (if value = 0 then 64 else log2Loop value 0)"

definition isDivisibleByPowerOfTwoDivisor :: "u32 \<Rightarrow> u32 \<Rightarrow> bool" where
  "isDivisibleByPowerOfTwoDivisor number divisor \<longleftrightarrow> number AND (divisor - 1) = 0"

definition computeTotalElementsCount :: "u64 \<times> u64 \<times> u64 \<Rightarrow> u64" where
  "computeTotalElementsCount v =
     (case v of (x, y, z) \<Rightarrow>
        let minElementCount = 1;
            xDim = max minElementCount x;
            yDim = max minElementCount y;
            zDim = max minElementCount z
        in xDim * yDim * zDim)"

definition isPow2 :: "'a::len word \<Rightarrow> bool" where
  "isPow2 val \<longleftrightarrow> val \<noteq> 0 \<and> val AND (val - 1) = 0"

text \<open>
  \<open>ffs\<close>: the loop tests \<open>1ULL << i\<close> for growing \<open>i\<close>; leaving the loop aborts.
\<close>

function ffsLoop :: "'a::len word \<Rightarrow> nat \<Rightarrow> 'a word result" where
  "ffsLoop v i =
     (if i < LENGTH('a) then
        (if (ucast v :: u64) AND push_bit i 1 \<noteq> 0 then Inr (of_nat i) else ffsLoop v (Suc i))
      else Inl AbortExecution)"
  by pat_completeness auto
termination
  by (relation "measure (\<lambda>(v :: 'a::len word, i). LENGTH('a) - i)") auto

declare ffsLoop.simps [simp del]

definition ffs :: "'a::len word \<Rightarrow> 'a word result" where
  "ffs v = (if v = 0 then Inr (- 1) else ffsLoop v 0)"

definition divideAndRoundUp :: "u64 \<Rightarrow> u64 \<Rightarrow> u64" where
  "divideAndRoundUp dividend divisor = (dividend + divisor - 1) div divisor"

section \<open>Bit fields (bit\_helpers.h)\<close>

definition isBitSet :: "u64 \<Rightarrow> u64 \<Rightarrow> bool" where
  "isBitSet field bitPosition \<longleftrightarrow> field AND push_bit (unat bitPosition) 1 \<noteq> 0"

definition isAnyBitSet :: "u64 \<Rightarrow> u64 \<Rightarrow> bool" where
  "isAnyBitSet field checkedBits \<longleftrightarrow> field AND checkedBits \<noteq> 0"

definition isValueSet :: "u64 \<Rightarrow> u64 \<Rightarrow> bool" where
  "isValueSet field value \<longleftrightarrow> field AND value = value"

definition isFieldValid :: "u64 \<Rightarrow> u64 \<Rightarrow> bool" where
  "isFieldValid field acceptedBits \<longleftrightarrow> field AND NOT acceptedBits = 0"

definition setBits :: "u64 \<Rightarrow> bool \<Rightarrow> u64 \<Rightarrow> u64" where
  "setBits field newValue bitsToModify =
     (if newValue then field OR bitsToModify else field AND NOT bitsToModify)"

definition shiftLeftBy :: "u64 \<Rightarrow> u64" where
  "shiftLeftBy bitPosition = push_bit (unat bitPosition) 1"

definition getMostSignificantSetBitIndex :: "u64 \<Rightarrow> u32" where
  "getMostSignificantSetBitIndex field = log2Loop field 0"

section \<open>Alignment (aligned\_memory.h)\<close>

definition alignUp :: "'a::len word \<Rightarrow> u64 \<Rightarrow> 'a word" where
  "alignUp val alignment =
     (let mask = ucast (alignment - 1) in (val + mask) AND NOT mask)"

definition alignUpNonZero :: "u64 \<Rightarrow> u64 \<Rightarrow> u64" where
  "alignUpNonZero val alignment = (if val = 0 then alignment else alignUp val alignment)"

definition alignDown :: "'a::len word \<Rightarrow> u64 \<Rightarrow> 'a word" where
  "alignDown val alignment = (let mask = ucast (alignment - 1) in val AND NOT mask)"

definition isAligned :: "u64 \<Rightarrow> u64 \<Rightarrow> bool" where
  "isAligned ptr alignment \<longleftrightarrow> ptr AND (alignment - 1) = 0"

definition isAlignedStatic :: "u64 \<Rightarrow> u64 \<Rightarrow> bool" where
  "isAlignedStatic alignment val \<longleftrightarrow> val mod alignment = 0"

definition alignSizeWholePage :: "u64 \<Rightarrow> u64 \<Rightarrow> u64" where
  "alignSizeWholePage ptr sz =
     (let startPageMisalignedAddressOffset = ptr AND pageMask
      in alignUp (startPageMisalignedAddressOffset + sz) pageSize)"

text \<open>
  \<open>alignedMalloc\<close>: \<open>new (std::nothrow) char[n]\<close> is the parameter \<open>newChar\<close> (0 on failure); the
  pointer slot in front of the returned address is a cell of \<open>slots\<close>.
\<close>

definition alignedMalloc ::
  "(u64 \<Rightarrow> u64) \<Rightarrow> u64 \<Rightarrow> u64 \<Rightarrow> (u64 \<rightharpoonup> u64) \<Rightarrow> u64 \<times> (u64 \<rightharpoonup> u64)" where
  "alignedMalloc newChar bytes alignment slots =
     (let bytes = (if bytes = 0 then 8 else bytes);
          alignment = max alignment 8;
          sizeToAlloc = bytes + alignment;
          pOriginalMemory = newChar sizeToAlloc;
          pAlignedMemory = pOriginalMemory
      in if pAlignedMemory \<noteq> 0 then
           let pAlignedMemory = pAlignedMemory + alignment;
               pAlignedMemory = pAlignedMemory - pAlignedMemory mod alignment
           in (pAlignedMemory, slots(pAlignedMemory - 8 \<mapsto> pOriginalMemory))
         else (pAlignedMemory, slots))"

text \<open>\<open>alignedFree\<close>: the pointer handed to \<open>delete[]\<close>, if any.\<close>

definition alignedFree :: "u64 \<Rightarrow> (u64 \<rightharpoonup> u64) \<Rightarrow> u64 option" where
  "alignedFree ptr slots = (if ptr \<noteq> 0 then slots (ptr - 8) else None)"

section \<open>Pointers (ptr\_math.h)\<close>

definition ptrOffset :: "u64 \<Rightarrow> u64 \<Rightarrow> u64" where
  "ptrOffset ptrBefore offset = ptrBefore + offset"

definition ptrDiff :: "u64 \<Rightarrow> u64 \<Rightarrow> u64" where
  "ptrDiff ptrAfter ptrBefore = ptrAfter - ptrBefore"

definition byteRangeContains :: "u64 \<Rightarrow> u64 \<Rightarrow> u64 \<Rightarrow> bool" where
  "byteRangeContains rangeBase rangeSizeInBytes ptr =
     (let begin' = rangeBase; end' = begin' + rangeSizeInBytes; p = ptr
      in p \<ge> begin' \<and> p < end')"

definition getLowPart :: "u64 \<Rightarrow> u32" where
  "getLowPart value = ucast (value AND 0xFFFFFFFF)"

definition getHighPart :: "u64 \<Rightarrow> u32" where
  "getHighPart value = ucast (drop_bit 32 value)"

text \<open>
  Byte-addressed memory. The 8-byte patch writes through a \<open>uint64_t\<close> pointer when the target is
  aligned and through \<open>memcpy_s\<close> otherwise: both store the same bytes. The store is a little-endian one of \<open>n\<close> bytes, as on the supported hosts.
\<close>

fun storeLE :: "u64 \<Rightarrow> nat \<Rightarrow> u64 \<Rightarrow> (u64 \<Rightarrow> u8) \<Rightarrow> (u64 \<Rightarrow> u8)" where
  "storeLE addr 0 v mem = mem"
| "storeLE addr (Suc n) v mem = storeLE (addr + 1) n (drop_bit 8 v) (mem(addr := ucast v))"

definition patchWithRequiredSize ::
  "u64 \<Rightarrow> u32 \<Rightarrow> u64 \<Rightarrow> (u64 \<Rightarrow> u8) \<Rightarrow> (u64 \<Rightarrow> u8) result" where
  "patchWithRequiredSize memoryToBePatched patchSize patchValue mem =
     (if patchSize = 8 then Inr (storeLE memoryToBePatched 8 patchValue mem)
      else if patchSize = 4 then Inr (storeLE memoryToBePatched 4 patchValue mem)
      else if patchSize \<noteq> 0 then Inl Unrecoverable
      else Inr mem)"


section \<open>Meaning of the bit tricks\<close>

lemma isPow2_iff: "isPow2 (w :: 'a::len word) \<longleftrightarrow> (\<exists>k < LENGTH('a). w = 2 ^ k)"
  by (simp add: isPow2_def word_pow2_iff)

lemma isPow2_unat:
  assumes "isPow2 (w :: 'a::len word)"
  obtains k where "k < LENGTH('a)" "w = 2 ^ k" "unat w = 2 ^ k" "w - 1 = mask k"
  using assms by (auto simp: isPow2_iff unat_pow2 pow2_minus_1_mask)

lemma alignDown_unat:
  assumes "isPow2 a"
  shows "unat (alignDown (x :: u64) a) = unat x - unat x mod unat a"
  using assms by (elim isPow2_unat) (simp add: alignDown_def unat_and_not_mask Let_def)

lemma alignUp_unat:
  assumes "isPow2 a" "unat x + (unat a - 1) < 2 ^ 64"
  shows "unat (alignUp (x :: u64) a) = (unat x + (unat a - 1)) div unat a * unat a"
proof -
  from assms(1) obtain k where k: "k < 64" "unat a = 2 ^ k" "a - 1 = mask k"
    by (auto elim: isPow2_unat)
  have "unat (mask k :: u64) = 2 ^ k - 1"
    using k by (metis One_nat_def Suc_leI unat_1 unat_sub_nowrap zero_less_numeral zero_less_power)
  then have "unat (x + mask k) = unat x + (2 ^ k - 1)"
    using assms(2) k by (simp add: unat_add_nowrap)
  then show ?thesis
    using k by (simp add: alignUp_def unat_and_not_mask Let_def minus_mod_eq_div_mult)
qed

lemma isAligned_iff:
  assumes "isPow2 a"
  shows "isAligned x a \<longleftrightarrow> unat a dvd unat x"
proof -
  from assms obtain k where k: "k < 64" "unat a = 2 ^ k" "a - 1 = mask k"
    by (auto elim: isPow2_unat)
  have "x AND mask k = take_bit k x" by (simp add: take_bit_eq_mask)
  then have "isAligned x a \<longleftrightarrow> unat (take_bit k x) = 0"
    by (simp add: isAligned_def k unat_eq_zero)
  also have "\<dots> \<longleftrightarrow> unat a dvd unat x"
    by (simp only: unat_take_bit k dvd_eq_mod_eq_0)
  finally show ?thesis .
qed

lemma alignDown_le: "isPow2 a \<Longrightarrow> unat (alignDown x a) \<le> unat (x :: u64)"
  by (simp add: alignDown_unat)

lemma alignDown_dvd: "isPow2 a \<Longrightarrow> unat a dvd unat (alignDown (x :: u64) a)"
  by (simp add: alignDown_unat minus_mod_eq_div_mult)

lemma alignDown_greatest:
  assumes pow: "isPow2 a" and m: "unat a dvd m" "m \<le> unat (x :: u64)"
  shows "m \<le> unat (alignDown x a)"
proof -
  have pos: "0 < unat a" using pow by (auto elim: isPow2_unat)
  from m obtain c where c: "m = unat a * c" by blast
  then have "c \<le> unat x div unat a" using m pos
    by (metis div_le_mono nonzero_mult_div_cancel_left less_numeral_extra(3))
  then show ?thesis using c pow by (simp add: alignDown_unat minus_mod_eq_mult_div)
qed

lemma alignUp_dvd:
  "isPow2 a \<Longrightarrow> unat x + (unat a - 1) < 2 ^ 64 \<Longrightarrow> unat a dvd unat (alignUp (x :: u64) a)"
  by (simp add: alignUp_unat)

lemma ceil_div_bounds:
  fixes x a :: nat
  assumes "0 < a"
  shows "x \<le> (x + (a - 1)) div a * a" "(x + (a - 1)) div a * a < x + a"
proof -
  have "(x + (a - 1)) div a * a = x + (a - 1) - (x + (a - 1)) mod a"
    by (simp add: minus_mod_eq_div_mult)
  moreover have "(x + (a - 1)) mod a \<le> a - 1" using assms by (metis Suc_pred' mod_less_divisor less_Suc_eq_le)
  ultimately show "x \<le> (x + (a - 1)) div a * a" "(x + (a - 1)) div a * a < x + a"
    using assms by auto
qed

lemma alignUp_bounds:
  assumes "isPow2 a" "unat x + (unat a - 1) < 2 ^ 64"
  shows "unat x \<le> unat (alignUp (x :: u64) a)" "unat (alignUp x a) < unat x + unat a"
proof -
  have "0 < unat a" using assms(1) by (auto elim: isPow2_unat)
  then show "unat x \<le> unat (alignUp x a)" "unat (alignUp x a) < unat x + unat a"
    using ceil_div_bounds assms by (simp_all add: alignUp_unat)
qed

lemma alignUp_aligned:
  assumes "isPow2 a" "unat a dvd unat x"
  shows "alignUp (x :: u64) a = x"
proof -
  from assms(1) obtain k where k: "k < 64" "unat a = 2 ^ k" "a - 1 = mask k"
    by (auto elim: isPow2_unat)
  have "take_bit k x = 0"
    using assms(2) k by (metis dvd_imp_mod_0 unat_eq_zero unat_take_bit)
  then have "x AND mask k = 0" by (simp add: take_bit_eq_mask)
  then have "x + mask k = x OR mask k" by (rule disjunctive_add_eq_or)
  then have "(x + mask k) AND NOT (mask k) = x AND NOT (mask k)"
    by (simp add: bit_eq_iff bit_simps) blast
  also have "\<dots> = x" using \<open>take_bit k x = 0\<close> by (simp add: word_and_not_mask)
  finally show ?thesis by (simp add: alignUp_def k Let_def)
qed

lemma smear_cascade64:
  fixes v :: u64
  assumes "bit v h" "\<And>n. bit v n \<Longrightarrow> n \<le> h"
  shows "(let w = v OR drop_bit 1 v; w = w OR drop_bit 2 w; w = w OR drop_bit 4 w;
      w = w OR drop_bit 8 w; w = w OR drop_bit 16 w in w OR drop_bit 32 w) = mask (Suc h)"
  unfolding Let_def
  by (rule smears_mask [where k = 64 and x = v], (intro smears_doubles smears_refl; simp))
     (use assms in auto)

lemma smear_cascade32:
  fixes v :: u32
  assumes "bit v h" "\<And>n. bit v n \<Longrightarrow> n \<le> h"
  shows "(let w = v OR drop_bit 1 v; w = w OR drop_bit 2 w; w = w OR drop_bit 4 w;
      w = w OR drop_bit 8 w in w OR drop_bit 16 w) = mask (Suc h)"
  unfolding Let_def
  by (rule smears_mask [where k = 32 and x = v], (intro smears_doubles smears_refl; simp))
     (use assms in auto)

lemma mask_minus_half:
  "h < LENGTH('a::len) \<Longrightarrow> (mask (Suc h) :: 'a word) - drop_bit 1 (mask (Suc h)) = 2 ^ h"
proof -
  assume "h < LENGTH('a)"
  then have "drop_bit 1 (mask (Suc h) :: 'a word) = mask h"
    by (intro bit_word_eqI) (auto simp: bit_simps)
  then show ?thesis by (simp add: mask_eq_exp_minus_1)
qed

lemma prevPowerOfTwo64_highest:
  assumes "bit v h" "\<And>n. bit v n \<Longrightarrow> n \<le> h"
  shows "prevPowerOfTwo64 v = 2 ^ h"
proof -
  have "h < 64" using bit_imp_le_length [OF assms(1)] by simp
  then show ?thesis
    using smear_cascade64 [OF assms] mask_minus_half [of h, where 'a = 64]
    by (simp add: prevPowerOfTwo64_def Let_def del: drop_bit_or)
qed

lemma prevPowerOfTwo32_highest:
  assumes "bit v h" "\<And>n. bit v n \<Longrightarrow> n \<le> h"
  shows "prevPowerOfTwo32 v = 2 ^ h"
proof -
  have "h < 32" using bit_imp_le_length [OF assms(1)] by simp
  then show ?thesis
    using smear_cascade32 [OF assms] mask_minus_half [of h, where 'a = 32]
    by (simp add: prevPowerOfTwo32_def Let_def del: drop_bit_or)
qed

lemma nextPowerOfTwo64_highest:
  assumes "bit (v - 1) h" "\<And>n. bit (v - 1) n \<Longrightarrow> n \<le> h"
  shows "nextPowerOfTwo64 v = 2 ^ Suc h"
  using smear_cascade64 [OF assms]
  by (simp add: nextPowerOfTwo64_def Let_def mask_eq_exp_minus_1 del: drop_bit_or)

lemma nextPowerOfTwo32_highest:
  assumes "bit (v - 1) h" "\<And>n. bit (v - 1) n \<Longrightarrow> n \<le> h"
  shows "nextPowerOfTwo32 v = 2 ^ Suc h"
  using smear_cascade32 [OF assms]
  by (simp add: nextPowerOfTwo32_def Let_def mask_eq_exp_minus_1 del: drop_bit_or)

text \<open>The lowest set bit.\<close>

lemma word_and_uminus_odd:
  fixes u :: "'a::len word"
  assumes "odd u"
  shows "u AND - u = 1"
proof -
  have "- u = NOT (u - 1)" by (simp add: minus_eq_not_minus_1 [of "- (u - 1)"] minus_eq_not_minus_1)
  moreover have "u - 1 = u AND NOT 1"
    using assms by (intro disjunctive_diff) (auto simp: bit_simps bit_0)
  ultimately have "u AND - u = u AND (NOT u OR 1)" by simp
  also have "\<dots> = u AND 1" by (simp add: bit.conj_disj_distrib)
  also have "\<dots> = 1" using assms by (simp add: and_one_eq odd_iff_mod_2_eq_one)
  finally show ?thesis .
qed

lemma word_and_uminus_lowest:
  fixes v :: "'a::len word"
  assumes "bit v k" "\<And>n. n < k \<Longrightarrow> \<not> bit v n"
  shows "v AND - v = 2 ^ k"
proof -
  define u where "u = drop_bit k v"
  have v: "v = push_bit k u"
  proof (rule bit_word_eqI)
    fix n assume "n < LENGTH('a)"
    then show "bit v n = bit (push_bit k u) n"
      using assms(2) by (cases "n < k") (auto simp: u_def bit_simps)
  qed
  have "odd u" using assms(1) by (simp add: u_def bit_simps flip: bit_0)
  have "- v = push_bit k (- u)" by (simp add: v push_bit_eq_mult)
  then have "v AND - v = push_bit k (u AND - u)" using v by simp
  then show ?thesis using word_and_uminus_odd [OF \<open>odd u\<close>] by (simp add: push_bit_eq_mult)
qed

lemma ucast_uminus: "(ucast (- (ucast v :: u64)) :: u32) = - v"
  by transfer (simp add: take_bit_minus)

lemma deBruijn_table:
  "\<forall>k \<in> set [0..<32]. multiplyDeBruijnBitPosition ! unat (drop_bit 27 (2 ^ k * 0x077CB531 :: u32)) = of_nat k"
  by code_simp

lemma getMinLsbSet_lowest:
  assumes "bit v k" "\<And>n. n < k \<Longrightarrow> \<not> bit v n"
  shows "unat (getMinLsbSet v) = k"
proof -
  have k: "k < 32" using bit_imp_le_length [OF assms(1)] by simp
  have "v AND ucast (- (ucast v :: u64)) = 2 ^ k"
    using word_and_uminus_lowest [OF assms] by (simp only: ucast_uminus)
  then have "getMinLsbSet v = ucast (of_nat k :: u8)"
    using deBruijn_table k by (simp only: getMinLsbSet_def Let_def set_upt atLeastLessThan_iff le0 simp_thms Ball_def)
  then show ?thesis using k by (simp add: unat_of_nat unsigned_ucast_eq take_bit_eq_mod)
qed

text \<open>The logarithm loop counts up to the highest set bit.\<close>

lemma log2Loop_highest:
  fixes v :: "'a::len word"
  assumes "bit v h" "\<And>n. bit v n \<Longrightarrow> n \<le> h"
  shows "log2Loop v e = e + of_nat h"
  using assms
proof (induction h arbitrary: v e)
  case 0
  then have "drop_bit 1 v = 0" by (intro bit_word_eqI) (fastforce simp: bit_simps)
  then show ?case by (subst log2Loop.simps) (simp add: Let_def)
next
  case (Suc h)
  have b: "bit (drop_bit 1 v) h" "\<And>n. bit (drop_bit 1 v) n \<Longrightarrow> n \<le> h"
    using Suc.prems by (auto simp: bit_simps)
  from b(1) have "drop_bit 1 v \<noteq> 0" by (metis bit_0_eq bot_fun_def bot_bool_def)
  then show ?case using Suc.IH [OF b] by (subst log2Loop.simps) (simp add: Let_def add_ac)
qed

lemma ucast_bit_test:
  fixes v :: "'a::len word"
  assumes "LENGTH('a) \<le> 64" "i < LENGTH('a)"
  shows "(ucast v :: u64) AND 2 ^ i = 0 \<longleftrightarrow> \<not> bit v i"
proof -
  have "(ucast v :: u64) AND 2 ^ i = (if bit v i then 2 ^ i else 0)"
    using assms by (intro bit_word_eqI) (auto simp: bit_simps)
  moreover have "(2 ^ i :: u64) \<noteq> 0"
    using assms by (simp add: unat_pow2 word_unat_eq_iff)
  ultimately show ?thesis by simp
qed

lemma ffsLoop_lowest:
  fixes v :: "'a::len word"
  assumes "LENGTH('a) \<le> 64" "bit v k" "\<And>n. n < k \<Longrightarrow> \<not> bit v n" "i \<le> k"
  shows "ffsLoop v i = Inr (of_nat k)"
  using assms(4)
proof (induction "k - i" arbitrary: i)
  case 0
  have "k < LENGTH('a)" using assms(2) by (rule bit_imp_le_length)
  then show ?case using 0 assms by (subst ffsLoop.simps) (simp add: ucast_bit_test)
next
  case (Suc d)
  have "k < LENGTH('a)" using assms(2) by (rule bit_imp_le_length)
  moreover from Suc have "i < k" "ffsLoop v (Suc i) = Inr (of_nat k)" by auto
  ultimately show ?case
    using assms by (subst ffsLoop.simps) (simp add: ucast_bit_test)
qed

lemma storeLE_frame:
  "(\<And>i. i < n \<Longrightarrow> x \<noteq> addr + of_nat i) \<Longrightarrow> storeLE addr n v mem x = mem x"
proof (induction n arbitrary: addr v mem)
  case (Suc n)
  have "x \<noteq> addr" using Suc.prems [of 0] by simp
  moreover have "x \<noteq> addr + 1 + of_nat i" if "i < n" for i
    using Suc.prems [of "Suc i"] that by (simp add: add_ac)
  ultimately show ?case using Suc.IH by simp
qed simp

lemma of_nat_Suc_neq_0: "Suc j < 2 ^ LENGTH('a::len) \<Longrightarrow> (of_nat (Suc j) :: 'a word) \<noteq> 0"
  by (metis mod_less nat.distinct(1) unat_0 unat_of_nat)

lemma storeLE_byte:
  "n \<le> 8 \<Longrightarrow> i < n \<Longrightarrow> storeLE addr n v mem (addr + of_nat i) = ucast (drop_bit (8 * i) v)"
proof (induction n arbitrary: addr v mem i)
  case (Suc n)
  show ?case
  proof (cases i)
    case 0
    have "addr \<noteq> addr + 1 + of_nat j" if "j < n" for j
      using that Suc.prems(1) of_nat_Suc_neq_0 [of j, where 'a = 64] by (auto simp: add.assoc)
    then show ?thesis using 0 Suc.prems by (simp add: storeLE_frame)
  next
    case (Suc j)
    then show ?thesis using Suc.IH [of j "addr + 1" "drop_bit 8 v"] Suc.prems by (simp add: add_ac)
  qed
qed simp

lemma unat_max: "unat (max a b) = max (unat a) (unat b)"
  by (auto simp: max_def word_le_nat_alt)

lemma alignedMalloc_block:
  assumes n: "n = (if bytes = 0 then 8 else bytes)" and a: "a = max alignment 8"
    and pow: "isPow2 alignment"
    and p: "newChar (n + a) = p" "p \<noteq> 0" "8 dvd unat p"
    and room: "unat p + unat n + unat a < 2 ^ 64"
    and q: "alignedMalloc newChar bytes alignment slots = (q, slots')"
  shows "unat a dvd unat q" "unat p + 8 \<le> unat q" "unat q + unat n \<le> unat p + unat (n + a)"
    and "alignedFree q slots' = Some p"
proof -
  from pow obtain k where k: "k < 64" "unat alignment = 2 ^ k" by (elim isPow2_unat) auto
  have a8: "8 dvd unat a \<and> 0 < unat a"
  proof (cases "3 \<le> k")
    case True
    then have "(2::nat) ^ 3 dvd 2 ^ k" by (rule le_imp_power_dvd)
    then show ?thesis using k by (simp add: a unat_max max_def)
  next
    case False
    then have "k = 0 \<or> k = 1 \<or> k = 2" by auto
    then show ?thesis using k by (auto simp: a unat_max)
  qed
  let ?s = "unat p + unat a"
  have s: "unat (p + a) = ?s" using room by (simp add: unat_add_nowrap)
  have q': "q = p + a - (p + a) mod a" "slots' = slots(q - 8 \<mapsto> p)"
    using q p n a by (auto simp: alignedMalloc_def Let_def)
  have uq: "unat q = ?s - ?s mod unat a"
    by (simp only: q' unat_sub_nowrap unat_mod s mod_less_eq_dividend)
  then show d: "unat a dvd unat q" by (simp only: minus_mod_eq_div_mult dvd_triv_right)
  have m: "?s mod unat a < unat a" using a8 by simp
  have gt: "unat p < unat q" using uq m by linarith
  have "8 dvd unat q" using d a8 by (meson dvd_trans)
  then have "8 dvd unat q - unat p" using p(3) by simp
  then show ge: "unat p + 8 \<le> unat q" using gt by (auto dest: dvd_imp_le)
  have "unat (n + a) = unat n + unat a" using room by (simp add: unat_add_nowrap)
  then show "unat q + unat n \<le> unat p + unat (n + a)" using uq by linarith
  show "alignedFree q slots' = Some p"
    using q' ge by (simp add: alignedFree_def word_unat_eq_iff)
qed
section \<open>Properties\<close>

text \<open>
  For a power-of-two alignment, \<open>alignDown\<close> returns the largest multiple of it that is not
  above the address and \<open>alignUp\<close>, as long as the next boundary is representable, the smallest one
  that is not below it.
\<close>

theorem align_nearest_multiple:
  fixes x a :: u64
  assumes pow: "isPow2 a" and room: "unat x + (unat a - 1) < 2 ^ 64"
  shows "unat a dvd unat (alignDown x a) \<and> unat (alignDown x a) \<le> unat x \<and>
    (\<forall>m. unat a dvd m \<longrightarrow> m \<le> unat x \<longrightarrow> m \<le> unat (alignDown x a)) \<and>
    unat a dvd unat (alignUp x a) \<and> unat x \<le> unat (alignUp x a) \<and>
    (\<forall>m. unat a dvd m \<longrightarrow> unat x \<le> m \<longrightarrow> unat (alignUp x a) \<le> m)"
proof -
  have down: "m \<le> unat (alignDown x a)" if "unat a dvd m" "m \<le> unat x" for m
    using alignDown_greatest [OF pow that] .
  have up: "unat (alignUp x a) \<le> m" if m: "unat a dvd m" "unat x \<le> m" for m
  proof (rule ccontr)
    assume "\<not> unat (alignUp x a) \<le> m"
    then have "m < unat (alignUp x a)" by simp
    moreover have "unat a dvd unat (alignUp x a) - m"
      using m alignUp_dvd [OF pow room] by simp
    ultimately have "unat a \<le> unat (alignUp x a) - m" by (intro dvd_imp_le) auto
    then show False using alignUp_bounds(2) [OF pow room] m \<open>m < _\<close> by linarith
  qed
  show ?thesis
    using alignDown_dvd [OF pow] alignDown_le [OF pow] alignUp_dvd [OF pow room]
      alignUp_bounds(1) [OF pow room] down up by blast
qed

theorem align_nearest_multiple_witness:
  "isPow2 (4096 :: u64) \<and> unat (alignUp (12345 :: u64) 4096) = 16384 \<and>
   4096 dvd unat (alignDown (12345 :: u64) 4096)"
  using align_nearest_multiple [of 4096 12345] by (simp add: isPow2_def alignUp_def)

text \<open>
  The shift-and-or cascades compute powers of two: \<open>prevPowerOfTwo\<close> the largest power of two
  not above a non-zero value, \<open>nextPowerOfTwo\<close> the smallest one not below a value in
  \<open>1 .. 2 ^ 63\<close>.
\<close>

theorem powerOfTwo_brackets:
  fixes v :: u64
  assumes "v \<noteq> 0" "unat v \<le> 2 ^ 63"
  shows "\<exists>lo hi. unat (prevPowerOfTwo64 v) = 2 ^ lo \<and> 2 ^ lo \<le> unat v \<and> unat v < 2 ^ Suc lo \<and>
    unat (nextPowerOfTwo64 v) = 2 ^ hi \<and> unat v \<le> 2 ^ hi \<and> (\<forall>j. unat v \<le> 2 ^ j \<longrightarrow> hi \<le> j)"
proof -
  from assms(1) obtain lo where lo: "lo < 64" "bit v lo" "\<And>n. bit v n \<Longrightarrow> n \<le> lo"
    "2 ^ lo \<le> unat v" "unat v < 2 ^ Suc lo" by (elim highest_bit) auto
  then have prev: "unat (prevPowerOfTwo64 v) = 2 ^ lo"
    by (simp add: prevPowerOfTwo64_highest unat_pow2)
  have "\<exists>hi. unat (nextPowerOfTwo64 v) = 2 ^ hi \<and> unat v \<le> 2 ^ hi \<and> (\<forall>j. unat v \<le> 2 ^ j \<longrightarrow> hi \<le> j)"
  proof (cases "v = 1")
    case True
    then have "nextPowerOfTwo64 v = 1" by (simp add: nextPowerOfTwo64_def Let_def)
    then show ?thesis using True by (intro exI [of _ 0]) auto
  next
    case False
    then have "v - 1 \<noteq> 0" by auto
    then obtain h where h: "h < 64" "bit (v - 1) h" "\<And>n. bit (v - 1) n \<Longrightarrow> n \<le> h"
      "2 ^ h \<le> unat (v - 1)" "unat (v - 1) < 2 ^ Suc h" by (elim highest_bit) auto
    have v1: "unat (v - 1) = unat v - 1" "0 < unat v"
      using assms(1) by (auto simp: unat_sub_nowrap unat_gt_0 Suc_leI)
    have "h < 63"
    proof (rule ccontr)
      assume "\<not> h < 63"
      then have "(2::nat) ^ 63 \<le> 2 ^ h" by (intro power_increasing) auto
      then show False using h(4) v1 assms(2) by linarith
    qed
    then have next': "unat (nextPowerOfTwo64 v) = 2 ^ Suc h"
      using nextPowerOfTwo64_highest [OF h(2,3)] unat_pow2 [of "Suc h", where 'a = 64] by simp
    have "Suc h \<le> j" if "unat v \<le> 2 ^ j" for j
    proof (rule ccontr)
      assume "\<not> Suc h \<le> j"
      then have "(2::nat) ^ j \<le> 2 ^ h" by (intro power_increasing) auto
      then show False using h(4) v1 that by linarith
    qed
    moreover have "unat v \<le> 2 ^ Suc h" using h(5) v1 by linarith
    ultimately show ?thesis using next' by blast
  qed
  then show ?thesis using lo prev by blast
qed

theorem powerOfTwo_brackets_witness:
  "(5 :: u64) \<noteq> 0 \<and> unat (5 :: u64) \<le> 2 ^ 63 \<and> (\<exists>hi. unat (nextPowerOfTwo64 5) = 2 ^ hi)"
  using powerOfTwo_brackets [of 5] by auto

text \<open>
  The de Bruijn multiplication of \<open>getMinLsbSet\<close>, the scan of \<open>ffs\<close> and the shift loop of
  \<open>log2\<close> agree with the bit pattern: the first two return the index of the lowest set bit, the
  last one the index of the highest.
\<close>

theorem bit_scans_agree:
  fixes v :: u32
  assumes "bit v lo" "\<And>n. n < lo \<Longrightarrow> \<not> bit v n" "bit v hi" "\<And>n. bit v n \<Longrightarrow> n \<le> hi"
  shows "unat (getMinLsbSet v) = lo \<and> ffs v = Inr (of_nat lo) \<and> log2_32 v = of_nat hi"
proof -
  have "v \<noteq> 0" using assms(1) by auto
  then show ?thesis
    using getMinLsbSet_lowest [OF assms(1,2)] ffsLoop_lowest [OF _ assms(1,2), of 0]
      log2Loop_highest [OF assms(3,4), of 0] by (simp add: ffs_def log2_32_def)
qed

lemma bits_12: "bit (12 :: u32) n \<longleftrightarrow> n = 2 \<or> n = 3"
proof (cases "n < 32")
  case True
  have "\<forall>n \<in> set [0..<32]. bit (12 :: u32) n \<longleftrightarrow> n = 2 \<or> n = 3" by code_simp
  then show ?thesis using True by simp
qed (auto dest: bit_imp_le_length)

theorem bit_scans_agree_witness:
  "unat (getMinLsbSet 12) = 2 \<and> ffs (12 :: u32) = Inr 2 \<and> log2_32 12 = 3"
proof -
  have "unat (getMinLsbSet 12) = 2 \<and> ffs (12 :: u32) = Inr (of_nat 2) \<and> log2_32 12 = of_nat 3"
    by (rule bit_scans_agree) (auto simp only: bits_12)
  then show ?thesis by simp
qed

text \<open>
  \<open>alignedMalloc\<close> returns an address of the requested alignment inside the block it
  obtained, with room for the saved pointer in front and for the requested bytes behind, and
  \<open>alignedFree\<close> gives exactly the original block back. The block \<open>newChar\<close> returns is 8-byte
  aligned and ends below the top of the address space, as the C++ allocation functions guarantee.
\<close>

theorem alignedMalloc_roundtrip:
  assumes "n = (if bytes = 0 then 8 else bytes)" "a = max alignment 8" "isPow2 alignment"
    and "newChar (n + a) = p" "p \<noteq> 0" "8 dvd unat p" "unat p + unat n + unat a < 2 ^ 64"
    and "alignedMalloc newChar bytes alignment slots = (q, slots')"
  shows "unat a dvd unat q \<and> unat p + 8 \<le> unat q \<and> unat q + unat n \<le> unat p + unat (n + a) \<and>
    alignedFree q slots' = Some p"
  using alignedMalloc_block [OF assms] by blast

theorem alignedMalloc_roundtrip_witness:
  "alignedFree (fst (alignedMalloc (\<lambda>_. 1000) 100 4096 Map.empty))
     (snd (alignedMalloc (\<lambda>_. 1000) 100 4096 Map.empty)) = Some 1000 \<and>
   4096 dvd unat (fst (alignedMalloc (\<lambda>_. 1000) 100 4096 Map.empty))"
  using alignedMalloc_roundtrip [of 100 100 4096 4096 "\<lambda>_. 1000" 1000 Map.empty
      "fst (alignedMalloc (\<lambda>_. 1000) 100 4096 Map.empty)"
      "snd (alignedMalloc (\<lambda>_. 1000) 100 4096 Map.empty)"]
  by (simp add: isPow2_def)

text \<open>
  \<open>patchWithRequiredSize\<close> writes exactly the little-endian bytes of the value at the
  patched location, leaves every other byte alone, and aborts for a size other than 0, 4 and 8.
\<close>

theorem patchWithRequiredSize_bytes:
  "(patchWithRequiredSize p sz v mem = Inl Unrecoverable \<longleftrightarrow> sz \<notin> {0, 4, 8}) \<and>
   (\<forall>mem'. patchWithRequiredSize p sz v mem = Inr mem' \<longrightarrow>
      (\<forall>i < unat sz. mem' (p + of_nat i) = ucast (drop_bit (8 * i) v)) \<and>
      (\<forall>x. (\<forall>i < unat sz. x \<noteq> p + of_nat i) \<longrightarrow> mem' x = mem x))"
  by (auto simp: patchWithRequiredSize_def storeLE_byte storeLE_frame)

theorem patchWithRequiredSize_bytes_witness:
  "\<exists>mem'. patchWithRequiredSize 100 4 0x11223344 (\<lambda>_. 0) = Inr mem' \<and>
     mem' (100 + of_nat 1) = 0x33 \<and> mem' 99 = 0"
proof -
  obtain mem' where m: "patchWithRequiredSize 100 4 0x11223344 (\<lambda>_. 0) = Inr mem'"
    by (simp add: patchWithRequiredSize_def)
  note P = patchWithRequiredSize_bytes [of 100 4 "0x11223344" "\<lambda>_. 0", THEN conjunct2, rule_format, OF m]
  have "\<forall>i \<in> set [0..<4]. (99 :: u64) \<noteq> 100 + of_nat i" by code_simp
  then have "mem' 99 = 0" using P by simp
  moreover have "mem' (100 + of_nat 1) = ucast (drop_bit (8 * 1) (0x11223344 :: u64))"
    by (rule P [THEN conjunct1, rule_format]) simp
  ultimately show ?thesis using m by simp
qed

end
