(* ===== verification/Address_Ranges.thy ===== *)
theory Address_Ranges
  imports Prelude "HOL-Library.Multiset"
begin

text \<open>
  Address ranges, counted: \<open>cov a b x\<close> is 1 when \<open>x\<close> lies in \<open>[a, b)\<close> and 0 otherwise, so that
  "these ranges partition that one" is an equation between sums and splitting or merging
  adjacent ranges is additive. On top of it, the contract of an allocator of address ranges as
  the locale \<open>range_allocator\<close>: what every provider of GPU addresses promises to its clients.
\<close>

section \<open>Counting coverage\<close>

type_synonym block = "u64 \<times> u64" \<comment> \<open>start and length\<close>

definition cov :: "nat \<Rightarrow> nat \<Rightarrow> nat \<Rightarrow> nat" where
  "cov a b x = of_bool (a \<le> x \<and> x < b)"

definition blockCov :: "block \<Rightarrow> nat \<Rightarrow> nat" where
  "blockCov b x = cov (unat (fst b)) (unat (fst b) + unat (snd b)) x"

definition liveCov :: "block multiset \<Rightarrow> nat \<Rightarrow> nat" where
  "liveCov live x = (\<Sum>b \<in># live. blockCov b x)"

definition liveTotal :: "block multiset \<Rightarrow> nat" where
  "liveTotal live = (\<Sum>b \<in># live. unat (snd b))"

lemma cov_split: "a \<le> b \<Longrightarrow> b \<le> c \<Longrightarrow> cov a c x = cov a b x + cov b c x"
  by (auto simp: cov_def)

lemma cov_empty [simp]: "cov a a x = 0"
  by (simp add: cov_def)

lemma liveCov_empty [simp]: "liveCov {#} x = 0"
  by (simp add: liveCov_def)

lemma liveCov_add [simp]: "liveCov (add_mset b live) x = blockCov b x + liveCov live x"
  by (simp add: liveCov_def)

lemma liveTotal_empty [simp]: "liveTotal {#} = 0"
  by (simp add: liveTotal_def)

lemma liveTotal_add [simp]: "liveTotal (add_mset b live) = unat (snd b) + liveTotal live"
  by (simp add: liveTotal_def)

text \<open>Two ranges are apart when one ends before the other starts.\<close>

definition apart :: "block \<Rightarrow> block \<Rightarrow> bool" where
  "apart b c \<longleftrightarrow>
     unat (fst b) + unat (snd b) \<le> unat (fst c) \<or> unat (fst c) + unat (snd c) \<le> unat (fst b) \<or>
     snd b = 0 \<or> snd c = 0"

lemma apart_if_covered_once:
  assumes "\<And>x. blockCov b x + blockCov c x \<le> 1"
  shows "apart b c"
proof (rule ccontr)
  assume n: "\<not> apart b c"
  let ?x = "max (unat (fst b)) (unat (fst c))"
  have "0 < unat (snd b)" "0 < unat (snd c)" using n by (auto simp: apart_def unat_gt_0)
  then have "blockCov b ?x = 1" "blockCov c ?x = 1"
    using n by (auto simp: apart_def blockCov_def cov_def)
  then show False using assms [of ?x] by simp
qed

section \<open>The contract of a range allocator\<close>

text \<open>
  \<open>inv h live\<close>: the heap \<open>h\<close> is consistent and \<open>live\<close> are the ranges it has handed out. A client
  may allocate with a valid request, which may be refused (the heap can change then too), and
  release what it holds.
\<close>

fun granted :: "block option \<Rightarrow> block multiset \<Rightarrow> block multiset" where
  "granted None live = live"
| "granted (Some b) live = add_mset b live"

locale range_allocator =
  fixes inv :: "'h \<Rightarrow> block multiset \<Rightarrow> bool"
    and lo hi :: "'h \<Rightarrow> nat"
    and valid_request :: "'h \<Rightarrow> 'req \<Rightarrow> bool"
    and alloc :: "'h \<Rightarrow> 'req \<Rightarrow> block option \<times> 'h"
    and release :: "block \<Rightarrow> 'h \<Rightarrow> 'h"
  assumes alloc_inv: "inv h live \<Longrightarrow> valid_request h r \<Longrightarrow> alloc h r = (res, h') \<Longrightarrow>
      inv h' (granted res live)"
    and alloc_bounds: "inv h live \<Longrightarrow> valid_request h r \<Longrightarrow> alloc h r = (res, h') \<Longrightarrow>
      lo h' = lo h \<and> hi h' = hi h"
    and release_inv: "inv h (add_mset b live) \<Longrightarrow> inv (release b h) live"
    and release_bounds: "inv h (add_mset b live) \<Longrightarrow> lo (release b h) = lo h \<and> hi (release b h) = hi h"
    and live_within: "inv h live \<Longrightarrow> liveCov live x \<le> cov (lo h) (hi h) x"
begin

text \<open>The histories of a heap: any interleaving of requests, granted or refused, and releases.\<close>

inductive history :: "'h \<Rightarrow> block multiset \<Rightarrow> 'h \<Rightarrow> block multiset \<Rightarrow> bool" where
  start: "history h live h live"
| requested: "history h0 live0 h live \<Longrightarrow> valid_request h r \<Longrightarrow> alloc h r = (res, h') \<Longrightarrow>
    history h0 live0 h' (granted res live)"
| released: "history h0 live0 h (add_mset b live) \<Longrightarrow> history h0 live0 (release b h) live"

lemma history_inv: "history h0 live0 h live \<Longrightarrow> inv h0 live0 \<Longrightarrow> inv h live"
  by (induction rule: history.induct) (auto intro: alloc_inv release_inv)

lemma history_bounds:
  "history h0 live0 h live \<Longrightarrow> inv h0 live0 \<Longrightarrow> lo h = lo h0 \<and> hi h = hi h0"
  by (induction rule: history.induct)
     (auto simp: alloc_bounds release_bounds dest: history_inv)

lemma inv_apart:
  assumes "inv h (add_mset b (add_mset c live))"
  shows "apart b c"
proof (rule apart_if_covered_once)
  fix x
  have "blockCov b x + blockCov c x + liveCov live x \<le> cov (lo h) (hi h) x"
    using live_within [OF assms, of x] by simp
  moreover have "cov (lo h) (hi h) x \<le> 1" by (simp add: cov_def)
  ultimately show "blockCov b x + blockCov c x \<le> 1" by linarith
qed

lemma inv_inside:
  assumes "inv h (add_mset b live)" "unat (fst b) \<le> x" "x < unat (fst b) + unat (snd b)"
  shows "lo h \<le> x \<and> x < hi h"
  using live_within [OF assms(1), of x] assms(2,3)
  by (cases "lo h \<le> x \<and> x < hi h") (auto simp: blockCov_def cov_def)

text \<open>Whatever the order of the calls, a new range is apart from every range still held.\<close>

lemma history_safe:
  assumes "history h0 live0 h (add_mset b live)" "inv h0 live0" "c \<in># live"
  shows "apart b c"
proof -
  from assms(3) obtain rest where "live = add_mset c rest" by (metis mset_add)
  then show ?thesis using history_inv [OF assms(1,2)] inv_apart by blast
qed

end

end
