(* ===== verification/Heap_Allocator.thy ===== *)
theory Heap_Allocator
  imports Math_Helpers Address_Ranges
begin

text \<open>
  \<open>utilities/heap_allocator.{h,cpp}\<close>: the allocator of GPU virtual addresses. Big requests are
  cut from the left end of the untouched gap \<open>[pLeftBound, pRightBound)\<close>, small ones from its
  right end; freed ranges go back to the gap or to two lists of freed chunks. The main results
  are that the gap, the freed chunks and the live allocations always partition the heap, and
  when the retry loop of \<open>allocateWithCustomAlignment\<close> ends.
\<close>

section \<open>Data\<close>

record HeapChunk =
  chunkPtr :: u64
  chunkSize :: u64

record HeapAllocator =
  baseAddress :: u64
  heapSize :: u64
  availableSize :: u64
  pLeftBound :: u64
  pRightBound :: u64
  allocationAlignment :: u64
  sizeThreshold :: u64
  freedChunksSmall :: "HeapChunk list"
  freedChunksBig :: "HeapChunk list"

definition mkChunk :: "u64 \<Rightarrow> u64 \<Rightarrow> HeapChunk" where
  "mkChunk p s = \<lparr>chunkPtr = p, chunkSize = s\<rparr>"

definition newHeapAllocator :: "u64 \<Rightarrow> u64 \<Rightarrow> u64 \<Rightarrow> u64 \<Rightarrow> HeapAllocator" where
  "newHeapAllocator address sz alignment threshold =
     \<lparr>baseAddress = address, heapSize = sz, availableSize = sz,
      pLeftBound = address, pRightBound = address + sz,
      allocationAlignment = alignment, sizeThreshold = threshold,
      freedChunksSmall = [], freedChunksBig = []\<rparr>"

definition newHeapAllocatorDefaultThreshold :: "u64 \<Rightarrow> u64 \<Rightarrow> u64 \<Rightarrow> HeapAllocator" where
  "newHeapAllocatorDefaultThreshold address sz alignment =
     newHeapAllocator address sz alignment (4 * megaByte)"

definition getLeftSize :: "HeapAllocator \<Rightarrow> u64" where
  "getLeftSize h = availableSize h"

definition getUsedSize :: "HeapAllocator \<Rightarrow> u64" where
  "getUsedSize h = heapSize h - availableSize h"

definition getBaseAddress :: "HeapAllocator \<Rightarrow> u64" where
  "getBaseAddress h = baseAddress h"

section \<open>Freed chunks\<close>

fun storeInFreedChunks :: "u64 \<Rightarrow> u64 \<Rightarrow> HeapChunk list \<Rightarrow> HeapChunk list" where
  "storeInFreedChunks p s [] = [mkChunk p s]"
| "storeInFreedChunks p s (c # cs) =
     (if chunkPtr c = p + s then c\<lparr>chunkPtr := p, chunkSize := chunkSize c + s\<rparr> # cs
      else if chunkPtr c + chunkSize c = p then c\<lparr>chunkSize := chunkSize c + s\<rparr> # cs
      else c # storeInFreedChunks p s cs)"

definition mergeLastFreedSmall :: "HeapAllocator \<Rightarrow> HeapAllocator" where
  "mergeLastFreedSmall h =
     (if freedChunksSmall h \<noteq> [] then
        let c = last (freedChunksSmall h) in
        if chunkPtr c = pRightBound h then
          h\<lparr>pRightBound := chunkPtr c + chunkSize c,
            freedChunksSmall := butlast (freedChunksSmall h)\<rparr>
        else h
      else h)"

definition mergeLastFreedBig :: "HeapAllocator \<Rightarrow> HeapAllocator" where
  "mergeLastFreedBig h =
     (if freedChunksBig h \<noteq> [] then
        let c = last (freedChunksBig h) in
        if chunkPtr c = pLeftBound h - chunkSize c then
          h\<lparr>pLeftBound := chunkPtr c, freedChunksBig := butlast (freedChunksBig h)\<rparr>
        else h
      else h)"

text \<open>
  The scan of \<open>getFromFreedChunks\<close> from index \<open>i\<close>: \<open>Inl j\<close> when the aligned chunk \<open>j\<close> has exactly
  the requested size, otherwise \<open>Inr\<close> of the best fit. The best fit is the pair of
  \<open>bestFitIndex\<close> and \<open>bestFitSize\<close>; their initial values \<open>-1\<close> and \<open>0\<close> are \<open>None\<close> (a recorded
  best-fit size exceeds the requested size, so it is never 0).
\<close>

fun scanFreedChunks ::
  "u64 \<Rightarrow> u64 \<Rightarrow> HeapChunk list \<Rightarrow> nat \<Rightarrow> (nat \<times> u64) option \<Rightarrow> nat + (nat \<times> u64) option" where
  "scanFreedChunks s requiredAlignment [] i bestFit = Inr bestFit"
| "scanFreedChunks s requiredAlignment (c # cs) i bestFit =
     (if \<not> isAligned (chunkPtr c) requiredAlignment
      then scanFreedChunks s requiredAlignment cs (Suc i) bestFit
      else if chunkSize c = s then Inl i
      else if chunkSize c > s \<and>
              (case bestFit of None \<Rightarrow> True | Some (_, bestFitSize) \<Rightarrow> chunkSize c < bestFitSize)
      then scanFreedChunks s requiredAlignment cs (Suc i) (Some (i, chunkSize c))
      else scanFreedChunks s requiredAlignment cs (Suc i) bestFit)"

text \<open>Result: the pointer (0 for none), \<open>sizeOfFreedChunk\<close> and the chunks left.\<close>

definition getFromFreedChunks ::
  "u64 \<Rightarrow> HeapChunk list \<Rightarrow> u64 \<Rightarrow> u64 \<times> u64 \<times> HeapChunk list" where
  "getFromFreedChunks s freedChunks requiredAlignment =
     (case scanFreedChunks s requiredAlignment freedChunks 0 None of
        Inl i \<Rightarrow> (chunkPtr (freedChunks ! i), 0, eraseAt i freedChunks)
      | Inr (Some (bestFitIndex, bestFitSize)) \<Rightarrow>
            let c = freedChunks ! bestFitIndex in
            if bestFitSize < push_bit 1 s then
              (chunkPtr c, chunkSize c, eraseAt bestFitIndex freedChunks)
            else
              let sizeDelta = chunkSize c - s;
                  p = chunkPtr c + sizeDelta
              in if \<not> isAligned p requiredAlignment then
                   let alignedPtr = alignDown p requiredAlignment;
                       alignedDelta = p - alignedPtr;
                       newSize = sizeDelta - alignedDelta;
                       chunks = freedChunks[bestFitIndex := c\<lparr>chunkSize := newSize\<rparr>]
                   in (alignedPtr, s + alignedDelta,
                       if newSize = 0 then eraseAt bestFitIndex chunks else chunks)
                 else (p, 0, freedChunks[bestFitIndex := c\<lparr>chunkSize := sizeDelta\<rparr>])
      | Inr None \<Rightarrow> (0, 0, freedChunks))"

text \<open>
  The two coalescing loops of \<open>defragment\<close>, for \<open>i\<close> counting down to 1. Small chunks are sorted
  by descending address, big ones by ascending address.
\<close>

fun coalesceSmall :: "nat \<Rightarrow> HeapChunk list \<Rightarrow> HeapChunk list" where
  "coalesceSmall 0 cs = cs"
| "coalesceSmall (Suc i) cs =
     (let c = cs ! Suc i; prev = cs ! i in
      if chunkPtr prev = chunkPtr c + chunkSize c then
        coalesceSmall i (eraseAt (Suc i)
          (cs[i := prev\<lparr>chunkPtr := chunkPtr c, chunkSize := chunkSize prev + chunkSize c\<rparr>]))
      else coalesceSmall i cs)"

fun coalesceBig :: "nat \<Rightarrow> HeapChunk list \<Rightarrow> HeapChunk list" where
  "coalesceBig 0 cs = cs"
| "coalesceBig (Suc i) cs =
     (let c = cs ! Suc i; prev = cs ! i in
      if chunkPtr prev + chunkSize prev = chunkPtr c then
        coalesceBig i (eraseAt (Suc i)
          (cs[i := prev\<lparr>chunkSize := chunkSize prev + chunkSize c\<rparr>]))
      else coalesceBig i cs)"

definition defragment :: "HeapAllocator \<Rightarrow> HeapAllocator" where
  "defragment h =
     (let h = (if length (freedChunksSmall h) > 1 then
                 let cs = rev (sort_key chunkPtr (freedChunksSmall h))
                 in h\<lparr>freedChunksSmall := coalesceSmall (length cs - 1) cs\<rparr>
               else h);
          h = mergeLastFreedSmall h;
          h = (if length (freedChunksBig h) > 1 then
                 let cs = sort_key chunkPtr (freedChunksBig h)
                 in h\<lparr>freedChunksBig := coalesceBig (length cs - 1) cs\<rparr>
               else h)
      in mergeLastFreedBig h)"

section \<open>Allocation and release\<close>

text \<open>
  \<open>freedChunks\<close> is a reference to one of the two lists, chosen by the size once before the loop.
\<close>

definition freedChunksFor :: "HeapAllocator \<Rightarrow> u64 \<Rightarrow> HeapChunk list" where
  "freedChunksFor h s = (if s > sizeThreshold h then freedChunksBig h else freedChunksSmall h)"

definition setFreedChunksFor :: "u64 \<Rightarrow> HeapChunk list \<Rightarrow> HeapAllocator \<Rightarrow> HeapAllocator" where
  "setFreedChunksFor s cs h =
     (if s > sizeThreshold h then h\<lparr>freedChunksBig := cs\<rparr> else h\<lparr>freedChunksSmall := cs\<rparr>)"

text \<open>The first half of a loop iteration: cut the request from the gap, 0 if it does not fit.\<close>

definition allocFromBounds :: "HeapAllocator \<Rightarrow> u64 \<Rightarrow> u64 \<Rightarrow> u64 \<times> HeapAllocator" where
  "allocFromBounds h sizeToAllocate alignment =
     (if sizeToAllocate > sizeThreshold h then
        let misalignment = alignUp (pLeftBound h) alignment - pLeftBound h in
        if pLeftBound h + misalignment + sizeToAllocate \<le> pRightBound h then
          let h = (if misalignment \<noteq> 0
                   then (setFreedChunksFor sizeToAllocate
                          (storeInFreedChunks (pLeftBound h) misalignment
                             (freedChunksFor h sizeToAllocate)) h)
                        \<lparr>pLeftBound := pLeftBound h + misalignment\<rparr>
                   else h)
          in (pLeftBound h, h\<lparr>pLeftBound := pLeftBound h + sizeToAllocate\<rparr>)
        else (0, h)
      else
        let pStart = pRightBound h - sizeToAllocate;
            misalignment = pStart - alignDown pStart alignment in
        if pLeftBound h + sizeToAllocate + misalignment \<le> pRightBound h then
          let h = (if misalignment \<noteq> 0
                   then let r = pRightBound h - misalignment in
                        (setFreedChunksFor sizeToAllocate
                          (storeInFreedChunks r misalignment
                             (freedChunksFor h sizeToAllocate)) h)
                        \<lparr>pRightBound := r\<rparr>
                   else h);
              r = pRightBound h - sizeToAllocate
          in (r, h\<lparr>pRightBound := r\<rparr>)
        else (0, h))"

text \<open>
  One iteration up to the successful return: \<open>Some\<close> of the pointer and the size handed out, with
  the updated heap.
\<close>

definition allocAttempt ::
  "HeapAllocator \<Rightarrow> u64 \<Rightarrow> u64 \<Rightarrow> (u64 \<times> u64) option \<times> HeapAllocator" where
  "allocAttempt h sizeToAllocate alignment =
     (let (ptrReturn, h) = allocFromBounds h sizeToAllocate alignment;
          (ptrReturn, sizeOfFreedChunk, h) =
            (if ptrReturn = 0 then
               (case getFromFreedChunks sizeToAllocate (freedChunksFor h sizeToAllocate) alignment of
                  (p, s, cs) \<Rightarrow> (p, s, setFreedChunksFor sizeToAllocate cs h))
             else (ptrReturn, 0, h))
      in if ptrReturn \<noteq> 0 then
           if sizeOfFreedChunk > 0
           then (Some (ptrReturn, sizeOfFreedChunk),
                 h\<lparr>availableSize := availableSize h - sizeOfFreedChunk\<rparr>)
           else (Some (ptrReturn, sizeToAllocate),
                 h\<lparr>availableSize := availableSize h - sizeToAllocate\<rparr>)
         else (None, h))"

text \<open>
  The retry loop with the value of \<open>defragmentCount\<close>. It need not end: \<open>None\<close> means that the fuel
  was used up. \<open>Some (p, s, h)\<close> is the returned pointer (0 on failure), the final value of
  \<open>sizeToAllocate\<close> and the heap.
\<close>

fun allocLoop ::
  "nat \<Rightarrow> HeapAllocator \<Rightarrow> u64 \<Rightarrow> u64 \<Rightarrow> u32 \<Rightarrow> (u64 \<times> u64 \<times> HeapAllocator) option" where
  "allocLoop 0 h sizeToAllocate alignment defragmentCount = None"
| "allocLoop (Suc fuel) h sizeToAllocate alignment defragmentCount =
     (case allocAttempt h sizeToAllocate alignment of
        (Some (p, s), h) \<Rightarrow> Some (p, s, h)
      | (None, h) \<Rightarrow>
          if defragmentCount = 0
          then allocLoop fuel (defragment h) sizeToAllocate alignment (defragmentCount + 1)
          else if alignment > 2 * megaByte \<and> pRightBound h - pLeftBound h \<ge> sizeToAllocate
          then allocLoop fuel h sizeToAllocate
                 (prevPowerOfTwo64 (pRightBound h - pLeftBound h - 1 - sizeToAllocate
                    + 2 * pageSize64k)) defragmentCount
          else Some (0, sizeToAllocate, h))"

definition allocateWithCustomAlignment ::
  "nat \<Rightarrow> HeapAllocator \<Rightarrow> u64 \<Rightarrow> u64 \<Rightarrow> (u64 \<times> u64 \<times> HeapAllocator) option result" where
  "allocateWithCustomAlignment fuel h sizeToAllocate alignment =
     (let alignment = (if alignment < allocationAlignment h then allocationAlignment h else alignment)
      in if alignment mod allocationAlignment h \<noteq> 0 then Inl Unrecoverable
         else
           let sizeToAllocate = alignUp sizeToAllocate (allocationAlignment h)
           in if availableSize h < sizeToAllocate then Inr (Some (0, sizeToAllocate, h))
              else Inr (allocLoop fuel h sizeToAllocate alignment 0))"

definition allocate ::
  "nat \<Rightarrow> HeapAllocator \<Rightarrow> u64 \<Rightarrow> (u64 \<times> u64 \<times> HeapAllocator) option result" where
  "allocate fuel h sizeToAllocate = allocateWithCustomAlignment fuel h sizeToAllocate 0"

definition heapFree :: "u64 \<Rightarrow> u64 \<Rightarrow> HeapAllocator \<Rightarrow> HeapAllocator" where
  "heapFree p s h =
     (if p = 0 then h
      else
        let h = (if p = pRightBound h then mergeLastFreedSmall (h\<lparr>pRightBound := p + s\<rparr>)
                 else if p = pLeftBound h - s then mergeLastFreedBig (h\<lparr>pLeftBound := p\<rparr>)
                 else if p < pLeftBound h
                 then h\<lparr>freedChunksBig := storeInFreedChunks p s (freedChunksBig h)\<rparr>
                 else h\<lparr>freedChunksSmall := storeInFreedChunks p s (freedChunksSmall h)\<rparr>)
        in h\<lparr>availableSize := availableSize h + s\<rparr>)"

section \<open>The space described by a chunk list\<close>

abbreviation chunkStart :: "HeapChunk \<Rightarrow> nat" where "chunkStart c \<equiv> unat (chunkPtr c)"
abbreviation chunkLen :: "HeapChunk \<Rightarrow> nat" where "chunkLen c \<equiv> unat (chunkSize c)"

definition covs :: "HeapChunk list \<Rightarrow> nat \<Rightarrow> nat" where
  "covs cs x = (\<Sum>c \<leftarrow> cs. cov (chunkStart c) (chunkStart c + chunkLen c) x)"

definition total :: "HeapChunk list \<Rightarrow> nat" where
  "total cs = (\<Sum>c \<leftarrow> cs. chunkLen c)"

definition chunkOk :: "nat \<Rightarrow> nat \<Rightarrow> nat \<Rightarrow> HeapChunk \<Rightarrow> bool" where
  "chunkOk lo hi g c \<longleftrightarrow> lo \<le> chunkStart c \<and> chunkStart c + chunkLen c \<le> hi \<and>
     g dvd chunkStart c \<and> g dvd chunkLen c"

lemma covs_simps [simp]:
  "covs [] x = 0"
  "covs (c # cs) x = cov (chunkStart c) (chunkStart c + chunkLen c) x + covs cs x"
  "covs (cs @ ds) x = covs cs x + covs ds x"
  by (simp_all add: covs_def)

lemma total_simps [simp]:
  "total [] = 0" "total (c # cs) = chunkLen c + total cs" "total (cs @ ds) = total cs + total ds"
  by (simp_all add: total_def)

lemma covs_mset: "mset cs = mset ds \<Longrightarrow> covs cs x = covs ds x"
proof -
  have "covs cs x = (\<Sum>c \<in># mset cs. cov (chunkStart c) (chunkStart c + chunkLen c) x)" for cs
    by (simp add: covs_def flip: mset_map sum_mset_sum_list)
  then show "mset cs = mset ds \<Longrightarrow> covs cs x = covs ds x" by simp
qed

lemma total_mset: "mset cs = mset ds \<Longrightarrow> total cs = total ds"
proof -
  have "total cs = (\<Sum>c \<in># mset cs. chunkLen c)" for cs
    by (simp add: total_def flip: mset_map sum_mset_sum_list)
  then show "mset cs = mset ds \<Longrightarrow> total cs = total ds" by simp
qed

text \<open>\<open>adds cs p s cs'\<close>: the list \<open>cs'\<close> describes the space of \<open>cs\<close> and the range \<open>[p, p + s)\<close>.\<close>

definition adds :: "HeapChunk list \<Rightarrow> nat \<Rightarrow> nat \<Rightarrow> HeapChunk list \<Rightarrow> bool" where
  "adds cs p s cs' \<longleftrightarrow> (\<forall>x. covs cs' x = covs cs x + cov p (p + s) x) \<and> total cs' = total cs + s"

lemma adds_refl [simp]: "adds cs p 0 cs"
  by (simp add: adds_def)

lemma adds_replace:
  assumes "\<And>x. covs ds' x = covs ds x + cov p (p + s) x" "total ds' = total ds + s"
  shows "adds (as @ ds @ bs) p s (as @ ds' @ bs)"
  using assms by (simp add: adds_def)

lemma storeInFreedChunks_space:
  assumes "\<forall>c \<in> set cs. chunkOk lo hi g c" "chunkOk lo hi g (mkChunk p s)" "hi < 2 ^ 64"
  shows "adds cs (unat p) (unat s) (storeInFreedChunks p s cs) \<and>
    (\<forall>c \<in> set (storeInFreedChunks p s cs). chunkOk lo hi g c)"
  using assms(1)
proof (induction cs)
  case Nil
  then show ?case using assms(2) by (simp add: adds_def mkChunk_def)
next
  case (Cons c cs)
  have ps: "unat (p + s) = unat p + unat s"
    using assms(2,3) by (simp add: chunkOk_def mkChunk_def unat_add_nowrap)
  have c: "chunkOk lo hi g c" using Cons.prems by simp
  then have ce: "unat (chunkPtr c + chunkSize c) = chunkStart c + chunkLen c"
    using assms(3) by (simp add: chunkOk_def unat_add_nowrap)
  consider "chunkPtr c = p + s" | "chunkPtr c \<noteq> p + s" "chunkPtr c + chunkSize c = p"
    | "chunkPtr c \<noteq> p + s" "chunkPtr c + chunkSize c \<noteq> p" by blast
  then show ?case
  proof cases
    case 1
    then have "chunkStart c = unat p + unat s" using ps by simp
    moreover from this have "unat (chunkSize c + s) = chunkLen c + unat s"
      using c assms(2,3) by (simp add: chunkOk_def mkChunk_def unat_add_nowrap)
    ultimately show ?thesis
      using 1 c assms(2) Cons.prems
        cov_split [of "unat p" "unat p + unat s" "unat p + (chunkLen c + unat s)"]
      by (auto simp: adds_def chunkOk_def mkChunk_def ac_simps)
  next
    case 2
    then have "unat p = chunkStart c + chunkLen c" using ce by simp
    moreover from this have "unat (chunkSize c + s) = chunkLen c + unat s"
      using c assms(2,3) by (simp add: chunkOk_def mkChunk_def unat_add_nowrap)
    ultimately show ?thesis
      using 2 c assms(2) Cons.prems
        cov_split [of "chunkStart c" "chunkStart c + chunkLen c" "chunkStart c + (chunkLen c + unat s)"]
      by (auto simp: adds_def chunkOk_def mkChunk_def ac_simps)
  next
    case 3
    then show ?thesis using Cons by (auto simp: adds_def)
  qed
qed

lemma eraseAt_adds:
  assumes "i < length cs"
  shows "adds (eraseAt i cs) (chunkStart (cs ! i)) (chunkLen (cs ! i)) cs"
proof -
  have "adds (take i cs @ [] @ drop (Suc i) cs) (chunkStart (cs ! i)) (chunkLen (cs ! i))
      (take i cs @ [cs ! i] @ drop (Suc i) cs)"
    by (rule adds_replace) simp_all
  then show ?thesis using assms by (simp add: eraseAt_def flip: list_split_at)
qed

lemma update_adds:
  assumes "i < length cs" "chunkStart c = chunkStart (cs ! i)"
    "chunkLen (cs ! i) = chunkLen c + s"
  shows "adds (cs[i := c]) (chunkStart c + chunkLen c) s cs"
proof -
  have "adds (take i cs @ [c] @ drop (Suc i) cs) (chunkStart c + chunkLen c) s
      (take i cs @ [cs ! i] @ drop (Suc i) cs)"
    using assms cov_split [of "chunkStart c" "chunkStart c + chunkLen c" "chunkStart c + chunkLen (cs ! i)"]
    by (intro adds_replace) (simp_all add: ac_simps)
  then show ?thesis using assms(1) by (simp add: upd_conv_take_nth_drop flip: list_split_at)
qed

lemma eraseAt_set: "set (eraseAt i cs) \<subseteq> set cs"
  by (auto simp: eraseAt_def dest: in_set_takeD in_set_dropD)

lemma eraseAt_update: "eraseAt i (cs[i := c]) = eraseAt i cs"
  by (simp add: eraseAt_def)

text \<open>What the scan returns is an aligned chunk that is large enough.\<close>

definition scanOk :: "u64 \<Rightarrow> u64 \<Rightarrow> HeapChunk list \<Rightarrow> nat + (nat \<times> u64) option \<Rightarrow> bool" where
  "scanOk s a cs r \<longleftrightarrow>
     (case r of
        Inl k \<Rightarrow> k < length cs \<and> isAligned (chunkPtr (cs ! k)) a \<and> chunkSize (cs ! k) = s
      | Inr None \<Rightarrow> True
      | Inr (Some (k, b)) \<Rightarrow>
          k < length cs \<and> isAligned (chunkPtr (cs ! k)) a \<and> chunkSize (cs ! k) = b \<and> b > s)"

lemma scanOk_append: "scanOk s a pre (Inr best) \<Longrightarrow> scanOk s a (pre @ cs) (Inr best)"
  by (auto simp: scanOk_def nth_append split: option.splits)

lemma scanFreedChunks_ok:
  "scanOk s a pre (Inr best) \<Longrightarrow> scanOk s a (pre @ cs) (scanFreedChunks s a cs (length pre) best)"
proof (induction cs arbitrary: pre best)
  case (Cons c cs)
  show ?case
  proof (cases "isAligned (chunkPtr c) a \<and> chunkSize c > s \<and>
      (case best of None \<Rightarrow> True | Some (_, b) \<Rightarrow> chunkSize c < b)")
    case True
    then have "scanOk s a (pre @ [c]) (Inr (Some (length pre, chunkSize c)))"
      by (simp add: scanOk_def)
    then show ?thesis using Cons.IH True by fastforce
  next
    case False
    have "scanOk s a (pre @ c # cs) (scanFreedChunks s a cs (Suc (length pre)) best)"
      using Cons.IH [OF scanOk_append [OF Cons.prems, of "[c]"]] by simp
    moreover have "scanOk s a (pre @ c # cs) (Inl (length pre))"
      if "isAligned (chunkPtr c) a" "chunkSize c = s"
      using that by (simp add: scanOk_def)
    ultimately show ?thesis using False by (auto split: if_splits)
  qed
qed simp

lemma pow2_dvd_linear:
  fixes a b :: u64
  assumes "isPow2 a" "isPow2 b"
  shows "unat a dvd unat b \<or> unat b dvd unat a"
  using assms by (auto elim!: isPow2_unat simp: le_imp_power_dvd) (meson le_imp_power_dvd nle_le)

definition takenFrom :: "HeapChunk list \<Rightarrow> nat \<Rightarrow> nat \<Rightarrow> nat \<Rightarrow> u64 \<Rightarrow> u64 \<Rightarrow> u64 \<Rightarrow> u64 \<Rightarrow> HeapChunk list \<Rightarrow> bool" where
  "takenFrom cs lo hi g s a p t cs' \<longleftrightarrow>
     adds cs' (unat p) (unat t) cs \<and> (\<forall>c \<in> set cs'. chunkOk lo hi g c) \<and>
     unat a dvd unat p \<and> unat s \<le> unat t \<and> chunkOk lo hi g (mkChunk p t)"

lemma takenFrom_erase:
  assumes "\<forall>c \<in> set cs. chunkOk lo hi g c" "i < length cs" "isPow2 a"
    "isAligned (chunkPtr (cs ! i)) a" "s \<le> chunkSize (cs ! i)"
  shows "takenFrom cs lo hi g s a (chunkPtr (cs ! i)) (chunkSize (cs ! i)) (eraseAt i cs)"
  using assms eraseAt_adds [OF assms(2)] eraseAt_set [of i cs]
  by (auto simp: takenFrom_def chunkOk_def mkChunk_def isAligned_iff word_le_nat_alt)

text \<open>Cutting the tail from \<open>al\<close> on out of chunk \<open>i\<close>; what is left in front has size \<open>n\<close>.\<close>

lemma takenFrom_carve:
  assumes ok: "\<forall>c \<in> set cs. chunkOk lo hi g c" and i: "i < length cs"
    and a: "isPow2 a" "isAligned (chunkPtr (cs ! i)) a" "g dvd unat p" "unat a dvd unat p"
    and n: "unat p = chunkStart (cs ! i) + unat n" and t: "chunkLen (cs ! i) = unat n + unat t"
    and s: "unat s \<le> unat t"
  shows "takenFrom cs lo hi g s a p t
    (if n = 0 then eraseAt i cs else cs[i := (cs ! i)\<lparr>chunkSize := n\<rparr>])"
proof (cases "n = 0")
  case True
  then have "p = chunkPtr (cs ! i)" "t = chunkSize (cs ! i)" "s \<le> chunkSize (cs ! i)"
    using n t s by (auto simp: word_unat_eq_iff word_le_nat_alt)
  then show ?thesis using takenFrom_erase [OF ok i a(1,2)] True by simp
next
  case False
  have c: "chunkOk lo hi g (cs ! i)" using ok i by simp
  then have cd: "g dvd chunkStart (cs ! i)" "g dvd chunkLen (cs ! i)" by (simp_all add: chunkOk_def)
  have "g dvd chunkStart (cs ! i) + unat n" using a(3) n by simp
  then have gn: "g dvd unat n" using cd(1) by (simp add: dvd_add_right_iff)
  then have gt: "g dvd unat t" using t cd(2) by (simp add: dvd_add_right_iff)
  have "chunkOk lo hi g ((cs ! i)\<lparr>chunkSize := n\<rparr>)" using c gn t by (simp add: chunkOk_def)
  then have "\<forall>c \<in> set (cs[i := (cs ! i)\<lparr>chunkSize := n\<rparr>]). chunkOk lo hi g c"
    using ok set_update_subset_insert [of cs i] by blast
  moreover have "adds (cs[i := (cs ! i)\<lparr>chunkSize := n\<rparr>]) (unat p) (unat t) cs"
    using update_adds [OF i, of "(cs ! i)\<lparr>chunkSize := n\<rparr>" "unat t"] t n by simp
  moreover have "chunkOk lo hi g (mkChunk p t)"
    using c t n gn gt by (simp add: chunkOk_def mkChunk_def)
  ultimately show ?thesis using False a(4) s by (simp add: takenFrom_def)
qed

lemma bestFit_space:
  assumes ok: "\<forall>c \<in> set cs. chunkOk lo hi g c" and hi: "0 < lo" "hi < 2 ^ 63"
    and a: "isPow2 a" "g dvd unat a \<or> unat a dvd g" and s: "g dvd unat s"
    and i: "i < length cs" "isAligned (chunkPtr (cs ! i)) a" "chunkSize (cs ! i) = b" "b > s"
  defines "q \<equiv> chunkPtr (cs ! i) + (b - s)" and "al \<equiv> alignDown (chunkPtr (cs ! i) + (b - s)) a"
  shows "takenFrom cs lo hi g s a al (s + (q - al))
    (if b - s - (q - al) = 0 then eraseAt i cs
     else cs[i := (cs ! i)\<lparr>chunkSize := b - s - (q - al)\<rparr>])"
proof -
  have c: "lo \<le> chunkStart (cs ! i)" "chunkStart (cs ! i) + unat b \<le> hi"
    using ok i by (auto simp: chunkOk_def)
  have b: "unat s < unat b" using i by (auto simp: word_less_nat_alt)
  then have delta: "unat (b - s) = unat b - unat s" by (simp add: unat_sub_nowrap)
  then have q: "unat q = chunkStart (cs ! i) + (unat b - unat s)"
    using c b hi unfolding q_def by (subst unat_add_nowrap) auto
  have al: "unat al \<le> unat q" "unat a dvd unat al"
    using alignDown_le alignDown_dvd a by (auto simp: al_def q_def)
  have "unat a dvd chunkStart (cs ! i)" using i(2) a by (simp add: isAligned_iff)
  then have ge: "chunkStart (cs ! i) \<le> unat al"
    unfolding al_def by (rule alignDown_greatest [OF a(1)]) (simp add: q flip: q_def)
  have qal: "unat (q - al) = unat q - unat al" using al by (simp add: unat_sub_nowrap)
  have n: "unat (b - s - (q - al)) = unat al - chunkStart (cs ! i)"
    using qal ge delta q al(1) by (simp add: unat_sub_nowrap)
  have t: "unat (s + (q - al)) = unat s + (unat q - unat al)"
    using qal q ge b c hi by (subst unat_add_nowrap) auto
  have "g dvd unat q" using q s ok i by (auto simp: chunkOk_def)
  then have gal: "g dvd unat al"
    using a(2) al alignDown_greatest [OF a(1), of "unat q" q, folded q_def]
    by (metis al_def dvd_trans le_antisym order_refl q_def)
  show ?thesis
    using takenFrom_carve [OF ok i(1) a(1) i(2) gal al(2), of "b - s - (q - al)" "s + (q - al)" s]
      n t q ge al(1) b i(3) by simp
qed

lemma getFromFreedChunks_space:
  assumes ok: "\<forall>c \<in> set cs. chunkOk lo hi g c" and hi: "0 < lo" "hi < 2 ^ 63"
    and a: "isPow2 a" "g dvd unat a \<or> unat a dvd g" and s: "g dvd unat s"
    and get: "getFromFreedChunks s cs a = (p, fs, cs')"
  defines "t \<equiv> (if fs > 0 then fs else s)"
  shows "(p = 0 \<and> cs' = cs) \<or> takenFrom cs lo hi g s a p t cs'"
proof -
  have scan: "scanOk s a cs (scanFreedChunks s a cs 0 None)"
    using scanFreedChunks_ok [of s a "[]" None cs] by (simp add: scanOk_def)
  consider (exact) i where "scanFreedChunks s a cs 0 None = Inl i"
    | (none) "scanFreedChunks s a cs 0 None = Inr None"
    | (best) i b where "scanFreedChunks s a cs 0 None = Inr (Some (i, b))"
    by (metis obj_sumE option.exhaust surj_pair)
  then show ?thesis
  proof cases
    case (exact i)
    then have "i < length cs" "isAligned (chunkPtr (cs ! i)) a" "chunkSize (cs ! i) = s"
      using scan by (auto simp: scanOk_def)
    then show ?thesis
      using get exact takenFrom_erase [OF ok _ a(1), of i s]
      by (auto simp: getFromFreedChunks_def t_def)
  next
    case none
    then show ?thesis using get by (auto simp: getFromFreedChunks_def)
  next
    case (best i b)
    then have i: "i < length cs" "isAligned (chunkPtr (cs ! i)) a" "chunkSize (cs ! i) = b" "b > s"
      using scan by (auto simp: scanOk_def)
    define q where "q = chunkPtr (cs ! i) + (b - s)"
    note space = bestFit_space [OF ok hi a s i, folded q_def]
    consider "b < push_bit 1 s" | "\<not> b < push_bit 1 s" "isAligned q a"
      | "\<not> b < push_bit 1 s" "\<not> isAligned q a" by blast
    then show ?thesis
    proof cases
      case 1
      then have "p = chunkPtr (cs ! i)" "fs = b" "cs' = eraseAt i cs" "fs > 0"
        using get best i by (auto simp: getFromFreedChunks_def Let_def intro: le_less_trans)
      then show ?thesis using takenFrom_erase [OF ok i(1) a(1) i(2), of s] i by (auto simp: t_def)
    next
      case 2
      then have r: "p = q" "fs = 0" "cs' = cs[i := (cs ! i)\<lparr>chunkSize := b - s\<rparr>]"
        using get best i by (auto simp: getFromFreedChunks_def Let_def q_def)
      have "alignDown q a = q" using 2 a by (simp add: isAligned_iff alignDown_unat word_unat_eq_iff)
      moreover have "b - s \<noteq> 0" using i(4) by auto
      ultimately show ?thesis using space r by (simp add: t_def)
    next
      case 3
      have "q \<noteq> alignDown q a" using 3 a alignDown_dvd [OF a(1)] by (metis isAligned_iff)
      have "s + (q - alignDown q a) \<noteq> 0"
        using space \<open>q \<noteq> _\<close> by (cases "s = 0") (auto simp: takenFrom_def unat_eq_0)
      moreover have r: "fs = s + (q - alignDown q a)" "p = alignDown q a"
          "cs' = (if b - s - (q - alignDown q a) = 0 then eraseAt i cs
            else cs[i := (cs ! i)\<lparr>chunkSize := b - s - (q - alignDown q a)\<rparr>])"
        using get best i 3 by (auto simp: getFromFreedChunks_def Let_def q_def eraseAt_update)
      ultimately have "t = s + (q - alignDown q a)" by (simp add: t_def word_gt_0)
      then show ?thesis unfolding r(2,3) using space by (intro disjI2) (simp only:)
    qed
  qed
qed

lemma coalesce_pair:
  assumes i: "Suc i < length cs" and ok: "\<forall>c \<in> set cs. chunkOk lo hi g c"
    and m: "chunkOk lo hi g m" "\<And>x. covs [m] x = covs [cs ! i, cs ! Suc i] x"
      "chunkLen m = chunkLen (cs ! i) + chunkLen (cs ! Suc i)"
  defines "cs' \<equiv> eraseAt (Suc i) (cs[i := m])"
  shows "covs cs' x = covs cs x" "total cs' = total cs" "\<forall>c \<in> set cs'. chunkOk lo hi g c"
    "i < length cs'"
proof -
  have cs': "cs' = take i cs @ [m] @ drop (Suc (Suc i)) cs"
    using i by (simp add: cs'_def eraseAt_def take_Suc_conv_app_nth)
  have cs: "cs = take i cs @ [cs ! i, cs ! Suc i] @ drop (Suc (Suc i)) cs"
    using i by (simp add: Cons_nth_drop_Suc)
  have "covs cs x = covs (take i cs) x + covs [cs ! i, cs ! Suc i] x + covs (drop (Suc (Suc i)) cs) x"
    by (subst cs) simp
  then show "covs cs' x = covs cs x" using m(2) [of x] by (simp add: cs')
  have "total cs = total (take i cs) + total [cs ! i, cs ! Suc i] + total (drop (Suc (Suc i)) cs)"
    by (subst cs) simp
  then show "total cs' = total cs" using m(3) by (simp add: cs')
  show "\<forall>c \<in> set cs'. chunkOk lo hi g c" using m(1) ok
    by (auto simp: cs' dest: in_set_takeD in_set_dropD)
  show "i < length cs'" using i by (simp add: cs')
qed

lemma adjacent_merge:
  assumes "chunkOk lo hi g a" "chunkOk lo hi g b" "hi < 2 ^ 63" "chunkPtr a + chunkSize a = chunkPtr b"
  defines "m \<equiv> mkChunk (chunkPtr a) (chunkSize a + chunkSize b)"
  shows "chunkOk lo hi g m" "\<And>x. covs [m] x = covs [a, b] x" "chunkLen m = chunkLen a + chunkLen b"
proof -
  have b: "chunkStart b = chunkStart a + chunkLen a"
    using assms(1,3) unfolding assms(4) [symmetric] by (subst unat_add_nowrap) (auto simp: chunkOk_def)
  then have l: "unat (chunkSize a + chunkSize b) = chunkLen a + chunkLen b"
    using assms(2,3) by (subst unat_add_nowrap) (auto simp: chunkOk_def)
  then show "chunkLen m = chunkLen a + chunkLen b" by (simp add: m_def mkChunk_def)
  show "chunkOk lo hi g m" using assms(1,2) b l by (auto simp: chunkOk_def m_def mkChunk_def)
  show "covs [m] x = covs [a, b] x" for x
    using b l cov_split [of "chunkStart a" "chunkStart a + chunkLen a"
        "chunkStart a + (chunkLen a + chunkLen b)" x]
    by (simp add: m_def mkChunk_def ac_simps)
qed

lemma coalesceSmall_space:
  assumes "\<forall>c \<in> set cs. chunkOk lo hi g c" "hi < 2 ^ 63" "i < length cs"
  shows "covs (coalesceSmall i cs) x = covs cs x \<and> total (coalesceSmall i cs) = total cs \<and>
    (\<forall>c \<in> set (coalesceSmall i cs). chunkOk lo hi g c)"
  using assms
proof (induction i arbitrary: cs)
  case (Suc i)
  define c prev where "c = cs ! Suc i" "prev = cs ! i"
  have ok: "chunkOk lo hi g c" "chunkOk lo hi g prev" using Suc.prems by (auto simp: c_prev_def)
  show ?case
  proof (cases "chunkPtr c + chunkSize c = chunkPtr prev")
    case True
    note m = adjacent_merge [OF ok Suc.prems(2) True]
    have eq: "prev\<lparr>chunkPtr := chunkPtr c, chunkSize := chunkSize prev + chunkSize c\<rparr> =
        mkChunk (chunkPtr c) (chunkSize c + chunkSize prev)"
      by (simp add: mkChunk_def add.commute)
    have "chunkLen (mkChunk (chunkPtr c) (chunkSize c + chunkSize prev)) = chunkLen (cs ! i) + chunkLen (cs ! Suc i)"
      "covs [mkChunk (chunkPtr c) (chunkSize c + chunkSize prev)] x = covs [cs ! i, cs ! Suc i] x" for x
      using m(2) [of x] m(3) by (auto simp: c_prev_def)
    note p = coalesce_pair [OF Suc.prems(3,1) m(1) this(2,1)]
    show ?thesis
      using Suc.IH [OF p(3) Suc.prems(2) p(4)] p(1) [of x] p(2) True eq
      by (simp add: c_prev_def Let_def)
  next
    case False
    then show ?thesis using Suc by (auto simp: c_prev_def Let_def)
  qed
qed simp

lemma coalesceBig_space:
  assumes "\<forall>c \<in> set cs. chunkOk lo hi g c" "hi < 2 ^ 63" "i < length cs"
  shows "covs (coalesceBig i cs) x = covs cs x \<and> total (coalesceBig i cs) = total cs \<and>
    (\<forall>c \<in> set (coalesceBig i cs). chunkOk lo hi g c)"
  using assms
proof (induction i arbitrary: cs)
  case (Suc i)
  define c prev where "c = cs ! Suc i" "prev = cs ! i"
  have ok: "chunkOk lo hi g prev" "chunkOk lo hi g c" using Suc.prems by (auto simp: c_prev_def)
  show ?case
  proof (cases "chunkPtr prev + chunkSize prev = chunkPtr c")
    case True
    note m = adjacent_merge [OF ok Suc.prems(2) True]
    have eq: "prev\<lparr>chunkSize := chunkSize prev + chunkSize c\<rparr> =
        mkChunk (chunkPtr prev) (chunkSize prev + chunkSize c)"
      by (simp add: mkChunk_def)
    note p = coalesce_pair [OF Suc.prems(3,1) m [unfolded c_prev_def]]
    show ?thesis
      using Suc.IH [OF p(3) Suc.prems(2) p(4)] p(1) [of x] p(2) True eq
      by (simp add: c_prev_def Let_def)
  next
    case False
    then show ?thesis using Suc by (auto simp: c_prev_def Let_def)
  qed
qed simp


section \<open>The invariant\<close>

abbreviation heapLo :: "HeapAllocator \<Rightarrow> nat" where "heapLo h \<equiv> unat (baseAddress h)"
abbreviation heapHi :: "HeapAllocator \<Rightarrow> nat" where "heapHi h \<equiv> unat (baseAddress h) + unat (heapSize h)"
abbreviation gran :: "HeapAllocator \<Rightarrow> nat" where "gran h \<equiv> unat (allocationAlignment h)"

definition chunksOk :: "HeapAllocator \<Rightarrow> HeapChunk list \<Rightarrow> bool" where
  "chunksOk h cs \<longleftrightarrow> (\<forall>c \<in> set cs. chunkOk (heapLo h) (heapHi h) (gran h) c)"

text \<open>The bounds, the gap and the chunks lie inside the heap and are multiples of its granularity.\<close>

definition heapShape :: "HeapAllocator \<Rightarrow> bool" where
  "heapShape h \<longleftrightarrow>
     0 < heapLo h \<and> heapHi h < 2 ^ 62 \<and> isPow2 (allocationAlignment h) \<and>
     gran h dvd unat (pLeftBound h) \<and> gran h dvd unat (pRightBound h) \<and>
     heapLo h \<le> unat (pLeftBound h) \<and> unat (pLeftBound h) \<le> unat (pRightBound h) \<and>
     unat (pRightBound h) \<le> heapHi h \<and>
     chunksOk h (freedChunksSmall h) \<and> chunksOk h (freedChunksBig h)"

definition heapSpace :: "HeapAllocator \<Rightarrow> nat \<Rightarrow> nat" where
  "heapSpace h x = cov (unat (pLeftBound h)) (unat (pRightBound h)) x +
     covs (freedChunksSmall h) x + covs (freedChunksBig h) x"

definition heapTotal :: "HeapAllocator \<Rightarrow> nat" where
  "heapTotal h = (unat (pRightBound h) - unat (pLeftBound h)) +
     total (freedChunksSmall h) + total (freedChunksBig h)"

definition blockOk :: "HeapAllocator \<Rightarrow> block \<Rightarrow> bool" where
  "blockOk h b \<longleftrightarrow> chunkOk (heapLo h) (heapHi h) (gran h) (mkChunk (fst b) (snd b))"

definition heapInv :: "HeapAllocator \<Rightarrow> block multiset \<Rightarrow> bool" where
  "heapInv h live \<longleftrightarrow> heapShape h \<and> (\<forall>b \<in># live. blockOk h b) \<and>
     (\<forall>x. heapSpace h x + liveCov live x = cov (heapLo h) (heapHi h) x) \<and>
     unat (availableSize h) = heapTotal h \<and> heapTotal h + liveTotal live = unat (heapSize h)"

text \<open>
  \<open>yields h p t h'\<close>: a step from \<open>h\<close> to \<open>h'\<close> takes exactly the range \<open>[p, p + t)\<close> out of the
  free space; the constants and the counter of free bytes stay.
\<close>

definition sameHeap :: "HeapAllocator \<Rightarrow> HeapAllocator \<Rightarrow> bool" where
  "sameHeap h h' \<longleftrightarrow> baseAddress h' = baseAddress h \<and> heapSize h' = heapSize h \<and>
     allocationAlignment h' = allocationAlignment h \<and> sizeThreshold h' = sizeThreshold h"

definition yields :: "HeapAllocator \<Rightarrow> nat \<Rightarrow> nat \<Rightarrow> HeapAllocator \<Rightarrow> bool" where
  "yields h p t h' \<longleftrightarrow> heapShape h' \<and> sameHeap h h' \<and>
     (\<forall>x. heapSpace h x = heapSpace h' x + cov p (p + t) x) \<and> heapTotal h = heapTotal h' + t \<and>
     availableSize h' = availableSize h"

lemma yields_refl: "heapShape h \<Longrightarrow> yields h p 0 h"
  by (simp add: yields_def sameHeap_def)

lemma yields_trans:
  assumes "yields h 0 0 h1" "yields h1 p t h2"
  shows "yields h p t h2"
  using assms by (simp add: yields_def sameHeap_def)

lemma sameHeap_ok [simp]:
  "sameHeap h h' \<Longrightarrow> chunksOk h' cs = chunksOk h cs" "sameHeap h h' \<Longrightarrow> blockOk h' b = blockOk h b"
  by (simp_all add: sameHeap_def chunksOk_def blockOk_def)

lemma chunksOk_simps [simp]:
  "chunksOk h []" "chunksOk h (c # cs) \<longleftrightarrow> chunkOk (heapLo h) (heapHi h) (gran h) c \<and> chunksOk h cs"
  "chunksOk h (cs @ ds) \<longleftrightarrow> chunksOk h cs \<and> chunksOk h ds" "chunksOk h (rev cs) = chunksOk h cs"
  "chunksOk h (sort_key f cs) = chunksOk h cs"
  by (auto simp: chunksOk_def)

lemma chunksOk_upd [simp]:
  "chunksOk (h\<lparr>pLeftBound := l\<rparr>) cs = chunksOk h cs" "chunksOk (h\<lparr>pRightBound := l\<rparr>) cs = chunksOk h cs"
  "chunksOk (h\<lparr>freedChunksSmall := ds\<rparr>) cs = chunksOk h cs"
  "chunksOk (h\<lparr>freedChunksBig := ds\<rparr>) cs = chunksOk h cs"
  "chunksOk (h\<lparr>availableSize := n\<rparr>) cs = chunksOk h cs"
  by (simp_all add: chunksOk_def)

lemma chunk_end:
  assumes "heapShape h" "chunkOk (heapLo h) (heapHi h) (gran h) c"
  shows "unat (chunkPtr c + chunkSize c) = chunkStart c + chunkLen c"
  using assms by (intro unat_add_nowrap) (auto simp: heapShape_def chunkOk_def)

lemma yieldsI:
  assumes "heapShape h"
    and "h' = h\<lparr>pLeftBound := l, pRightBound := r, freedChunksSmall := s, freedChunksBig := b\<rparr>"
    and "gran h dvd unat l" "gran h dvd unat r"
    and "heapLo h \<le> unat l" "unat l \<le> unat r" "unat r \<le> heapHi h"
    and "chunksOk h s" "chunksOk h b"
    and "\<And>x. heapSpace h x = cov (unat l) (unat r) x + covs s x + covs b x + cov p (p + t) x"
    and "heapTotal h = (unat r - unat l) + total s + total b + t"
  shows "yields h p t h'"
  unfolding yields_def
proof (intro conjI allI)
  show "heapShape h'" using assms(1,3-9) unfolding assms(2) by (simp add: heapShape_def)
  show "heapSpace h x = heapSpace h' x + cov p (p + t) x" for x
    unfolding assms(10) unfolding assms(2) by (simp add: heapSpace_def)
  show "heapTotal h = heapTotal h' + t"
    unfolding assms(11) unfolding assms(2) by (simp add: heapTotal_def)
qed (simp_all add: assms(2) sameHeap_def)

lemma mergeLastFreedSmall_yields:
  assumes "heapShape h"
  shows "yields h 0 0 (mergeLastFreedSmall h)"
proof (cases "freedChunksSmall h \<noteq> [] \<and> chunkPtr (last (freedChunksSmall h)) = pRightBound h")
  case True
  define cs c where "cs = butlast (freedChunksSmall h)" "c = last (freedChunksSmall h)"
  have s: "freedChunksSmall h = cs @ [c]" using True by (simp add: cs_c_def)
  have ok: "chunkOk (heapLo h) (heapHi h) (gran h) c" "chunksOk h cs" "chunksOk h (freedChunksBig h)"
    using assms s by (auto simp: heapShape_def)
  have m: "mergeLastFreedSmall h = h\<lparr>pRightBound := chunkPtr c + chunkSize c, freedChunksSmall := cs\<rparr>"
    using True by (simp add: mergeLastFreedSmall_def cs_c_def Let_def)
  have c: "chunkPtr c = pRightBound h" using True by (simp add: cs_c_def)
  have e: "unat (chunkPtr c + chunkSize c) = unat (pRightBound h) + chunkLen c"
    using chunk_end [OF assms ok(1)] c by simp
  show ?thesis
    using assms ok e c s cov_split [of "unat (pLeftBound h)" "unat (pRightBound h)"
        "unat (pRightBound h) + chunkLen c"]
    by (intro yieldsI [OF assms, where l = "pLeftBound h" and r = "chunkPtr c + chunkSize c" and
          s = cs and b = "freedChunksBig h"])
       (simp_all add: m heapSpace_def heapTotal_def heapShape_def chunkOk_def)
qed (auto simp: mergeLastFreedSmall_def Let_def intro: yields_refl assms)

lemma word_eq_minus_iff: "(p :: 'a::len word) = l - s \<longleftrightarrow> p + s = l"
  by (auto simp: algebra_simps)

lemma mergeLastFreedBig_yields:
  assumes "heapShape h"
  shows "yields h 0 0 (mergeLastFreedBig h)"
proof (cases "freedChunksBig h \<noteq> [] \<and>
    chunkPtr (last (freedChunksBig h)) = pLeftBound h - chunkSize (last (freedChunksBig h))")
  case True
  define cs c where "cs = butlast (freedChunksBig h)" "c = last (freedChunksBig h)"
  have s: "freedChunksBig h = cs @ [c]" using True by (simp add: cs_c_def)
  have ok: "chunkOk (heapLo h) (heapHi h) (gran h) c" "chunksOk h cs" "chunksOk h (freedChunksSmall h)"
    using assms s by (auto simp: heapShape_def)
  have m: "mergeLastFreedBig h = h\<lparr>pLeftBound := chunkPtr c, freedChunksBig := cs\<rparr>"
    using True by (simp add: mergeLastFreedBig_def cs_c_def Let_def)
  have c: "unat (pLeftBound h) = chunkStart c + chunkLen c"
    using True chunk_end [OF assms ok(1)] by (simp add: cs_c_def word_eq_minus_iff)
  show ?thesis
    using assms ok c s cov_split [of "chunkStart c" "chunkStart c + chunkLen c" "unat (pRightBound h)"]
    by (intro yieldsI [OF assms, where l = "chunkPtr c" and r = "pRightBound h" and
          s = "freedChunksSmall h" and b = cs])
       (simp_all add: m heapSpace_def heapTotal_def heapShape_def chunkOk_def)
qed (auto simp: mergeLastFreedBig_def Let_def intro: yields_refl assms)

lemma defragment_yields:
  assumes "heapShape h"
  shows "yields h 0 0 (defragment h)"
proof -
  define h1 where "h1 = (if length (freedChunksSmall h) > 1 then
      h\<lparr>freedChunksSmall := coalesceSmall (length (freedChunksSmall h) - 1)
          (rev (sort_key chunkPtr (freedChunksSmall h)))\<rparr> else h)"
  define h2 where "h2 = mergeLastFreedSmall h1"
  define h3 where "h3 = (if length (freedChunksBig h2) > 1 then
      h2\<lparr>freedChunksBig := coalesceBig (length (freedChunksBig h2) - 1)
          (sort_key chunkPtr (freedChunksBig h2))\<rparr> else h2)"
  have d: "defragment h = mergeLastFreedBig h3"
    by (simp add: defragment_def h1_def h2_def h3_def Let_def)
  have hi: "heapHi h < 2 ^ 63" if "heapShape h" for h using that by (simp add: heapShape_def)
  have "yields h 0 0 h1"
  proof (cases "length (freedChunksSmall h) > 1")
    case True
    define cs where "cs = rev (sort_key chunkPtr (freedChunksSmall h))"
    have cs: "mset cs = mset (freedChunksSmall h)" by (simp add: cs_def)
    have "\<forall>c \<in> set cs. chunkOk (heapLo h) (heapHi h) (gran h) c" "length (freedChunksSmall h) - 1 < length cs"
      using assms True by (auto simp: cs_def heapShape_def chunksOk_def)
    from coalesceSmall_space [OF this(1) hi [OF assms] this(2)]
    show ?thesis using assms covs_mset [OF cs] total_mset [OF cs]
      by (auto simp: h1_def yields_def sameHeap_def heapShape_def heapSpace_def heapTotal_def
          chunksOk_def simp flip: cs_def)
  qed (simp add: h1_def yields_refl assms)
  moreover from this have "yields h1 0 0 h2"
    unfolding h2_def by (intro mergeLastFreedSmall_yields) (simp add: yields_def)
  moreover from this have s2: "heapShape h2" by (simp add: yields_def)
  have "yields h2 0 0 h3"
  proof (cases "length (freedChunksBig h2) > 1")
    case True
    define cs where "cs = sort_key chunkPtr (freedChunksBig h2)"
    have cs: "mset cs = mset (freedChunksBig h2)" by (simp add: cs_def)
    have "\<forall>c \<in> set cs. chunkOk (heapLo h2) (heapHi h2) (gran h2) c" "length (freedChunksBig h2) - 1 < length cs"
      using s2 True by (auto simp: cs_def heapShape_def chunksOk_def)
    from coalesceBig_space [OF this(1) hi [OF s2] this(2)]
    show ?thesis using s2 covs_mset [OF cs] total_mset [OF cs]
      by (auto simp: h3_def yields_def sameHeap_def heapShape_def heapSpace_def heapTotal_def
          chunksOk_def simp flip: cs_def)
  qed (simp add: h3_def yields_refl s2)
  moreover from this have "yields h3 0 0 (defragment h)"
    unfolding d by (intro mergeLastFreedBig_yields) (simp add: yields_def)
  ultimately show ?thesis by (blast intro: yields_trans)
qed


lemma alignDown_gran:
  fixes x a g :: u64
  assumes "isPow2 a" "isPow2 g" "unat g dvd unat x"
  shows "unat g dvd unat (alignDown (x :: u64) a)"
  using pow2_dvd_linear [OF assms(1,2)]
proof
  assume "unat a dvd unat g"
  then have "unat x \<le> unat (alignDown x a)"
    using assms alignDown_greatest [OF assms(1), of "unat x" x] dvd_trans by blast
  then have "alignDown x a = x" using alignDown_le [OF assms(1), of x] by (simp add: word_unat_eq_iff)
  then show ?thesis using assms(3) by simp
qed (use alignDown_dvd [OF assms(1)] dvd_trans in blast)

lemma alignUp_gran:
  fixes x a g :: u64
  assumes "isPow2 a" "isPow2 g" "unat g dvd unat x" "unat x + (unat a - 1) < 2 ^ 64"
  shows "unat g dvd unat (alignUp (x :: u64) a)"
  using pow2_dvd_linear [OF assms(1,2)]
proof
  assume "unat a dvd unat g"
  then have d: "unat a dvd unat x" using assms(3) by (rule dvd_trans)
  have "unat (alignUp x a) \<le> unat x"
  proof (rule ccontr)
    assume n: "\<not> unat (alignUp x a) \<le> unat x"
    then have "unat a dvd unat (alignUp x a) - unat x"
      using d alignUp_dvd [OF assms(1,4)] by simp
    then have "unat a \<le> unat (alignUp x a) - unat x" using n by (intro dvd_imp_le) auto
    then show False using alignUp_bounds(2) [OF assms(1,4)] n by linarith
  qed
  then have "unat (alignUp x a) = unat x" using alignUp_bounds(1) [OF assms(1,4)] by linarith
  then show ?thesis using assms(3) by simp
qed (use alignUp_dvd [OF assms(1,4)] dvd_trans in blast)

definition handsOut :: "HeapAllocator \<Rightarrow> u64 \<Rightarrow> u64 \<Rightarrow> u64 \<Rightarrow> u64 \<Rightarrow> HeapAllocator \<Rightarrow> bool" where
  "handsOut h s a p t h' \<longleftrightarrow> yields h (unat p) (unat t) h' \<and> p \<noteq> 0 \<and> unat a dvd unat p \<and>
     unat s \<le> unat t \<and> blockOk h (p, t)"

definition stored :: "u64 \<Rightarrow> u64 \<Rightarrow> HeapChunk list \<Rightarrow> HeapChunk list" where
  "stored p m cs = (if m \<noteq> 0 then storeInFreedChunks p m cs else cs)"

lemma stored_space:
  assumes "chunksOk h cs" "blockOk h (p, m)" "heapShape h"
  shows "chunksOk h (stored p m cs)" "covs (stored p m cs) x = covs cs x + cov (unat p) (unat p + unat m) x"
    "total (stored p m cs) = total cs + unat m"
proof -
  have "heapHi h < 2 ^ 64" using assms(3) by (simp add: heapShape_def)
  note s = storeInFreedChunks_space [OF assms(1) [unfolded chunksOk_def] _ this, of p m]
  have "adds cs (unat p) (unat m) (stored p m cs) \<and> chunksOk h (stored p m cs)"
    using s assms(1,2) by (auto simp: stored_def chunksOk_def blockOk_def)
  then show "chunksOk h (stored p m cs)" "covs (stored p m cs) x = covs cs x + cov (unat p) (unat p + unat m) x"
    "total (stored p m cs) = total cs + unat m" by (auto simp: adds_def)
qed

lemma left_yields:
  assumes sh: "heapShape h" and al: "unat (pLeftBound h) \<le> unat al" "gran h dvd unat al"
    and s: "gran h dvd unat s" "unat al + unat s \<le> unat (pRightBound h)"
  shows "yields h (unat al) (unat s)
    (h\<lparr>freedChunksBig := stored (pLeftBound h) (al - pLeftBound h) (freedChunksBig h),
       pLeftBound := al + s\<rparr>)" (is "yields _ _ _ (h\<lparr>freedChunksBig := ?b, pLeftBound := _\<rparr>)")
    and "blockOk h (al, s)"
proof -
  have m: "unat (al - pLeftBound h) = unat al - unat (pLeftBound h)"
    using al by (simp add: unat_sub_nowrap)
  have shape: "heapHi h < 2 ^ 62" "heapLo h \<le> unat (pLeftBound h)" "unat (pRightBound h) \<le> heapHi h"
    "gran h dvd unat (pLeftBound h)" "gran h dvd unat (pRightBound h)"
    "chunksOk h (freedChunksBig h)" "chunksOk h (freedChunksSmall h)"
    using sh by (simp_all add: heapShape_def)
  have "blockOk h (pLeftBound h, al - pLeftBound h)"
    using shape al s by (simp add: blockOk_def chunkOk_def mkChunk_def m)
  note st = stored_space [OF shape(6) this sh]
  have e: "unat (al + s) = unat al + unat s" using s shape by (intro unat_add_nowrap) simp
  show "yields h (unat al) (unat s) (h\<lparr>freedChunksBig := ?b, pLeftBound := al + s\<rparr>)"
  proof (rule yieldsI [OF sh, where l = "al + s" and r = "pRightBound h" and
        s = "freedChunksSmall h" and b = ?b])
    show "heapSpace h x = cov (unat (al + s)) (unat (pRightBound h)) x + covs (freedChunksSmall h) x +
        covs ?b x + cov (unat al) (unat al + unat s) x" for x
      using al s m cov_split [of "unat (pLeftBound h)" "unat al" "unat (pRightBound h)" x]
        cov_split [of "unat al" "unat al + unat s" "unat (pRightBound h)" x]
      by (simp add: heapSpace_def st(2) e)
    show "heapTotal h = unat (pRightBound h) - unat (al + s) + total (freedChunksSmall h) + total ?b + unat s"
      using al s m by (simp add: heapTotal_def st(3) e)
  qed (use shape al s e st(1) in simp_all)
  show "blockOk h (al, s)" using shape al s by (simp add: blockOk_def chunkOk_def mkChunk_def)
qed

lemma right_yields:
  assumes sh: "heapShape h" and dn: "unat (pLeftBound h) \<le> unat dn" "gran h dvd unat dn"
    and s: "gran h dvd unat s" "unat dn + unat s \<le> unat (pRightBound h)"
  shows "yields h (unat dn) (unat s)
    (h\<lparr>freedChunksSmall := stored (dn + s) (pRightBound h - (dn + s)) (freedChunksSmall h),
       pRightBound := dn\<rparr>)" (is "yields _ _ _ (h\<lparr>freedChunksSmall := ?b, pRightBound := _\<rparr>)")
    and "blockOk h (dn, s)"
proof -
  have shape: "heapHi h < 2 ^ 62" "heapLo h \<le> unat (pLeftBound h)" "unat (pRightBound h) \<le> heapHi h"
    "gran h dvd unat (pLeftBound h)" "gran h dvd unat (pRightBound h)"
    "chunksOk h (freedChunksBig h)" "chunksOk h (freedChunksSmall h)"
    using sh by (simp_all add: heapShape_def)
  have e: "unat (dn + s) = unat dn + unat s" using s shape by (intro unat_add_nowrap) simp
  then have m: "unat (pRightBound h - (dn + s)) = unat (pRightBound h) - (unat dn + unat s)"
    using s by (simp add: unat_sub_nowrap)
  have "blockOk h (dn + s, pRightBound h - (dn + s))"
    using shape dn s by (simp add: blockOk_def chunkOk_def mkChunk_def m e)
  note st = stored_space [OF shape(7) this sh]
  show "yields h (unat dn) (unat s) (h\<lparr>freedChunksSmall := ?b, pRightBound := dn\<rparr>)"
  proof (rule yieldsI [OF sh, where l = "pLeftBound h" and r = dn and
        s = ?b and b = "freedChunksBig h"])
    show "heapSpace h x = cov (unat (pLeftBound h)) (unat dn) x + covs ?b x +
        covs (freedChunksBig h) x + cov (unat dn) (unat dn + unat s) x" for x
      using dn s m cov_split [of "unat (pLeftBound h)" "unat dn" "unat (pRightBound h)" x]
        cov_split [of "unat dn" "unat dn + unat s" "unat (pRightBound h)" x]
      by (simp add: heapSpace_def st(2) e)
    show "heapTotal h = unat dn - unat (pLeftBound h) + total ?b + total (freedChunksBig h) + unat s"
      using dn s m by (simp add: heapTotal_def st(3) e)
  qed (use shape dn s e st(1) in simp_all)
  show "blockOk h (dn, s)" using shape dn s by (simp add: blockOk_def chunkOk_def mkChunk_def)
qed


definition requestOk :: "HeapAllocator \<Rightarrow> u64 \<Rightarrow> u64 \<Rightarrow> bool" where
  "requestOk h s a \<longleftrightarrow> isPow2 a \<and> unat a \<le> 2 ^ 62 \<and> gran h dvd unat s \<and> unat s < 2 ^ 62"

lemma allocFromBounds_left:
  assumes sh: "heapShape h" and rq: "requestOk h s a" and big: "s > sizeThreshold h"
    and r: "allocFromBounds h s a = (p, h')"
  shows "(p = 0 \<and> h' = h) \<or> handsOut h s a p s h'"
proof -
  define al where "al = alignUp (pLeftBound h) a"
  have rq': "isPow2 a" "unat a \<le> 2 ^ 62" "gran h dvd unat s" "unat s < 2 ^ 62"
    using rq by (simp_all add: requestOk_def)
  have L: "unat (pLeftBound h) < 2 ^ 62" "0 < unat (pLeftBound h)" "gran h dvd unat (pLeftBound h)"
    "isPow2 (allocationAlignment h)"
    using sh by (auto simp: heapShape_def)
  then have room: "unat (pLeftBound h) + (unat a - 1) < 2 ^ 64" using rq' by simp
  note b = alignUp_bounds [OF rq'(1) room, folded al_def]
  have g: "gran h dvd unat al" "unat a dvd unat al"
    using alignUp_gran [OF rq'(1) L(4,3) room] alignUp_dvd [OF rq'(1) room] by (auto simp: al_def)
  have e: "unat (al + s) = unat al + unat s" using rq' b L by (intro unat_add_nowrap) simp
  show ?thesis
  proof (cases "al + s \<le> pRightBound h")
    case True
    then have "unat al + unat s \<le> unat (pRightBound h)" using e by (simp add: word_le_nat_alt)
    note y = left_yields [OF sh b(1) g(1) rq'(3) this]
    have "p = al" "h' = h\<lparr>freedChunksBig := stored (pLeftBound h) (al - pLeftBound h) (freedChunksBig h),
       pLeftBound := al + s\<rparr>"
      using r big True by (auto simp: allocFromBounds_def Let_def stored_def setFreedChunksFor_def
          freedChunksFor_def split: if_splits simp flip: al_def)
    then show ?thesis using y g b L by (auto simp: handsOut_def)
  next
    case False
    then show ?thesis using r big by (auto simp: allocFromBounds_def Let_def simp flip: al_def)
  qed
qed

lemma allocFromBounds_right:
  assumes sh: "heapShape h" and rq: "requestOk h s a" and small: "\<not> s > sizeThreshold h"
    and r: "allocFromBounds h s a = (p, h')"
  shows "(p = 0 \<and> h' = h) \<or> handsOut h s a p s h'"
proof -
  define st where "st = pRightBound h - s"
  define dn where "dn = alignDown st a"
  have rq': "isPow2 a" "unat a \<le> 2 ^ 62" "gran h dvd unat s" "unat s < 2 ^ 62"
    using rq by (simp_all add: requestOk_def)
  have L: "unat (pLeftBound h) < 2 ^ 62" "0 < unat (pLeftBound h)" "gran h dvd unat (pRightBound h)"
    "isPow2 (allocationAlignment h)"
    using sh by (auto simp: heapShape_def)
  have "0 < unat a" using rq'(1) by (auto elim: isPow2_unat)
  then have dn: "unat dn \<le> unat st" "unat a dvd unat dn" "unat st - unat dn < unat a"
    using alignDown_le [OF rq'(1)] alignDown_dvd [OF rq'(1)] alignDown_unat [OF rq'(1), of st]
    by (auto simp: dn_def)
  have m: "unat (st - dn) = unat st - unat dn" using dn by (simp add: unat_sub_nowrap)
  have e: "unat (pLeftBound h + s + (st - dn)) = unat (pLeftBound h) + unat s + (unat st - unat dn)"
  proof -
    have "unat (pLeftBound h + s) = unat (pLeftBound h) + unat s"
      using L rq' by (intro unat_add_nowrap) simp
    then show ?thesis using L rq' dn m by (subst unat_add_nowrap) simp_all
  qed
  show ?thesis
  proof (cases "pLeftBound h + s + (st - dn) \<le> pRightBound h")
    case True
    then have c: "unat (pLeftBound h) + unat s + (unat st - unat dn) \<le> unat (pRightBound h)"
      using e by (simp add: word_le_nat_alt)
    then have st: "unat st = unat (pRightBound h) - unat s" by (simp add: st_def unat_sub_nowrap)
    then have lo: "unat (pLeftBound h) \<le> unat dn" "unat dn + unat s \<le> unat (pRightBound h)"
      using c dn by linarith+
    have "gran h dvd unat st" using st L rq' by simp
    then have g: "gran h dvd unat dn" unfolding dn_def by (rule alignDown_gran [OF rq'(1) L(4)])
    note y = right_yields [OF sh lo(1) g rq'(3) lo(2)]
    have eq: "pRightBound h - (st - dn) = dn + s" "st - dn = pRightBound h - (dn + s)"
      by (simp_all add: st_def)
    have "p = dn" "h' = h\<lparr>freedChunksSmall := stored (dn + s) (pRightBound h - (dn + s)) (freedChunksSmall h),
       pRightBound := dn\<rparr>"
      using r small True
      by (auto simp: allocFromBounds_def Let_def stored_def setFreedChunksFor_def
          freedChunksFor_def eq split: if_splits simp flip: st_def dn_def)
    then show ?thesis using y dn lo L by (auto simp: handsOut_def)
  next
    case False
    then show ?thesis using r small
      by (auto simp: allocFromBounds_def Let_def simp flip: st_def dn_def)
  qed
qed

lemma getFrom_handsOut:
  assumes sh: "heapShape h" and rq: "requestOk h s a"
    and g: "getFromFreedChunks s (freedChunksFor h s) a = (p, fs, cs)"
  shows "(p = 0 \<and> setFreedChunksFor s cs h = h) \<or>
    handsOut h s a p (if fs > 0 then fs else s) (setFreedChunksFor s cs h)"
proof -
  have ok: "\<forall>c \<in> set (freedChunksFor h s). chunkOk (heapLo h) (heapHi h) (gran h) c"
    "0 < heapLo h" "heapHi h < 2 ^ 63" "isPow2 a" "gran h dvd unat s"
    "chunksOk h (freedChunksSmall h)" "chunksOk h (freedChunksBig h)"
    using sh rq by (auto simp: heapShape_def requestOk_def freedChunksFor_def chunksOk_def)
  have "gran h dvd unat a \<or> unat a dvd gran h"
    using pow2_dvd_linear sh rq by (auto simp: heapShape_def requestOk_def)
  from getFromFreedChunks_space [OF ok(1-4) this ok(5) g] show ?thesis
  proof
    assume "p = 0 \<and> cs = freedChunksFor h s"
    then show ?thesis by (simp add: setFreedChunksFor_def freedChunksFor_def)
  next
    let ?t = "if fs > 0 then fs else s"
    assume t: "takenFrom (freedChunksFor h s) (heapLo h) (heapHi h) (gran h) s a p ?t cs"
    then have cs: "chunksOk h cs" "total (freedChunksFor h s) = total cs + unat ?t"
      "\<And>x. covs (freedChunksFor h s) x = covs cs x + cov (unat p) (unat p + unat ?t) x"
      by (auto simp: takenFrom_def chunksOk_def adds_def)
    have "yields h (unat p) (unat ?t) (setFreedChunksFor s cs h)"
      using sh cs ok(6,7)
      by (intro yieldsI [OF sh, where l = "pLeftBound h" and r = "pRightBound h" and
            s = "if s > sizeThreshold h then freedChunksSmall h else cs" and
            b = "if s > sizeThreshold h then cs else freedChunksBig h"])
         (simp_all add: heapShape_def heapSpace_def heapTotal_def setFreedChunksFor_def
            freedChunksFor_def split: if_splits)
    moreover have "p \<noteq> 0" using t ok(2) by (auto simp: takenFrom_def chunkOk_def mkChunk_def)
    ultimately show ?thesis using t by (simp add: handsOut_def takenFrom_def blockOk_def)
  qed
qed


lemma allocAttempt_handsOut:
  assumes sh: "heapShape h" and rq: "requestOk h s a" and r: "allocAttempt h s a = (res, h')"
  shows "(res = None \<and> h' = h) \<or>
    (\<exists>p t h1. res = Some (p, t) \<and> handsOut h s a p t h1 \<and>
       h' = h1\<lparr>availableSize := availableSize h1 - t\<rparr>)"
proof -
  obtain p h1 where b: "allocFromBounds h s a = (p, h1)" by fastforce
  then have b': "(p = 0 \<and> h1 = h) \<or> handsOut h s a p s h1"
    using allocFromBounds_left [OF sh rq] allocFromBounds_right [OF sh rq] by blast
  show ?thesis
  proof (cases "p = 0")
    case False
    then have "res = Some (p, s)" "h' = h1\<lparr>availableSize := availableSize h1 - s\<rparr>"
      using r b by (auto simp: allocAttempt_def)
    then show ?thesis using b' False by blast
  next
    case True
    then have "h1 = h" using b' by (auto simp: handsOut_def)
    obtain q fs cs where g: "getFromFreedChunks s (freedChunksFor h s) a = (q, fs, cs)"
      by (metis prod_cases3)
    let ?h = "setFreedChunksFor s cs h" and ?t = "if fs > 0 then fs else s"
    have r': "(res, h') = (if q \<noteq> 0
        then (Some (q, ?t), ?h\<lparr>availableSize := availableSize ?h - ?t\<rparr>) else (None, ?h))"
      using r b g True \<open>h1 = h\<close> by (auto simp: allocAttempt_def)
    from getFrom_handsOut [OF sh rq g] show ?thesis
    proof
      assume "q = 0 \<and> ?h = h"
      then show ?thesis using r' by simp
    next
      assume "handsOut h s a q ?t ?h"
      then show ?thesis using r' by (auto simp: handsOut_def)
    qed
  qed
qed

lemma avail_upd:
  "heapShape (h\<lparr>availableSize := n\<rparr>) = heapShape h" "heapSpace (h\<lparr>availableSize := n\<rparr>) = heapSpace h"
  "heapTotal (h\<lparr>availableSize := n\<rparr>) = heapTotal h"
  by (simp_all add: heapShape_def heapSpace_def heapTotal_def fun_eq_iff)

text \<open>Taking a range out of the free space and counting it as live keeps the invariant.\<close>

lemma heapInv_take:
  assumes inv: "heapInv h live" and out: "handsOut h s a p t h1"
  shows "heapInv (h1\<lparr>availableSize := availableSize h1 - t\<rparr>) (add_mset (p, t) live)"
proof -
  have y: "heapShape h1" "sameHeap h h1" "\<And>x. heapSpace h x = heapSpace h1 x + cov (unat p) (unat p + unat t) x"
    "heapTotal h = heapTotal h1 + unat t" "availableSize h1 = availableSize h" "blockOk h (p, t)"
    using out by (auto simp: handsOut_def yields_def)
  have i: "\<forall>b \<in># live. blockOk h b" "unat (availableSize h) = heapTotal h"
    "heapTotal h + liveTotal live = unat (heapSize h)"
    "\<And>x. heapSpace h x + liveCov live x = cov (heapLo h) (heapHi h) x"
    using inv by (auto simp: heapInv_def)
  let ?h = "h1\<lparr>availableSize := availableSize h1 - t\<rparr>"
  have ok: "blockOk ?h b = blockOk h b" for b
    using y(2) by (simp add: blockOk_def sameHeap_def)
  have avail: "unat (availableSize h1 - t) = heapTotal h1"
    using y(4,5) i(2) by (simp add: unat_sub_nowrap)
  have space: "heapSpace h1 x + liveCov (add_mset (p, t) live) x = cov (heapLo h) (heapHi h) x" for x
    using y(3) [of x] i(4) [of x] by (simp add: blockCov_def)
  have total: "heapTotal h1 + liveTotal (add_mset (p, t) live) = unat (heapSize h)"
    using y(4) i(3) by simp
  have cst: "heapLo ?h = heapLo h" "heapHi ?h = heapHi h" "heapSize ?h = heapSize h"
    using y(2) by (simp_all add: sameHeap_def)
  show ?thesis
    unfolding heapInv_def avail_upd cst ok using y(1,6) i(1) avail space total by simp
qed

lemma yields_inv:
  assumes inv: "heapInv h live" and y: "yields h 0 0 h1"
  shows "heapInv h1 live"
proof -
  have "sameHeap h h1" using y by (simp add: yields_def)
  then have "blockOk h1 = blockOk h" "heapLo h1 = heapLo h" "heapHi h1 = heapHi h" "heapSize h1 = heapSize h"
    by (auto simp: sameHeap_def blockOk_def)
  then show ?thesis using inv y unfolding heapInv_def yields_def by simp
qed


lemma heapInv_shape: "heapInv h live \<Longrightarrow> heapShape h"
  unfolding heapInv_def by blast

lemma yields_same: "yields h p t h' \<Longrightarrow> sameHeap h h'"
  unfolding yields_def by blast

lemma handsOutD:
  assumes "handsOut h s a p t h'"
  shows "sameHeap h h'" "p \<noteq> 0" "unat a dvd unat p" "unat s \<le> unat t"
  using assms yields_same unfolding handsOut_def by blast+

lemma sameHeap_avail [simp]: "sameHeap h (h'\<lparr>availableSize := n\<rparr>) = sameHeap h h'"
  by (simp add: sameHeap_def)

lemma retry_alignment:
  assumes sh: "heapShape h" and rq: "requestOk h s a" and fits: "pRightBound h - pLeftBound h \<ge> s"
  defines "v \<equiv> pRightBound h - pLeftBound h - 1 - s + 2 * pageSize64k"
  shows "requestOk h s (prevPowerOfTwo64 v)" "unat (prevPowerOfTwo64 v) \<le> unat v"
    "unat v = unat (pRightBound h) - unat (pLeftBound h) - unat s + 131071"
    "65536 dvd unat (prevPowerOfTwo64 v)"
proof -
  have b: "unat (pLeftBound h) \<le> unat (pRightBound h)" "unat (pRightBound h) < 2 ^ 62"
    using sh by (auto simp: heapShape_def)
  have d: "unat (pRightBound h - pLeftBound h) = unat (pRightBound h) - unat (pLeftBound h)"
    using b by (simp add: unat_sub_nowrap)
  then have s: "unat s \<le> unat (pRightBound h) - unat (pLeftBound h)"
    using fits by (simp add: word_le_nat_alt)
  have v: "v = (pRightBound h - pLeftBound h - s) + 131071" by (simp add: v_def)
  have "unat (pRightBound h - pLeftBound h - s) = unat (pRightBound h) - unat (pLeftBound h) - unat s"
    using d s by (simp add: unat_sub_nowrap)
  then show u: "unat v = unat (pRightBound h) - unat (pLeftBound h) - unat s + 131071"
    using b unfolding v by (subst unat_add_nowrap) simp_all
  then have "v \<noteq> 0" by auto
  then obtain k where k: "k < 64" "bit v k" "\<And>n. bit v n \<Longrightarrow> n \<le> k"
    "2 ^ k \<le> unat v" "unat v < 2 ^ Suc k" by (elim highest_bit) auto
  have p: "prevPowerOfTwo64 v = 2 ^ k" using prevPowerOfTwo64_highest [OF k(2,3)] .
  have up: "unat (prevPowerOfTwo64 v) = 2 ^ k" using k(1) unat_pow2 [of k, where 'a = 64] by (simp add: p)
  then show "unat (prevPowerOfTwo64 v) \<le> unat v" using k by simp
  have "k \<le> 62"
  proof (rule ccontr)
    assume "\<not> k \<le> 62"
    then have "(2::nat) ^ 63 \<le> 2 ^ k" by (intro power_increasing) auto
    then show False using k(4) u b by simp
  qed
  then have "(2::nat) ^ k \<le> 2 ^ 62" by (intro power_increasing) auto
  moreover have "isPow2 (prevPowerOfTwo64 v)" using p k(1) by (auto simp: isPow2_iff)
  ultimately show "requestOk h s (prevPowerOfTwo64 v)" using up rq by (simp add: requestOk_def)
  have "16 \<le> k"
  proof (rule ccontr)
    assume "\<not> 16 \<le> k"
    then have "(2::nat) ^ Suc k \<le> 2 ^ 16" by (intro power_increasing) auto
    then show False using k(5) u by simp
  qed
  then show "65536 dvd unat (prevPowerOfTwo64 v)"
    using up le_imp_power_dvd [of 16 k "2 :: nat"] by simp
qed

lemma allocLoop_sound:
  assumes "heapInv h live" "requestOk h s a" "allocLoop fuel h s a n = Some (p, t, h')"
  shows "sameHeap h h' \<and> (if p = 0 then t = s \<and> heapInv h' live
    else heapInv h' (add_mset (p, t) live) \<and> unat s \<le> unat t \<and>
      (a \<le> 2 * megaByte \<longrightarrow> unat a dvd unat p))"
  using assms
proof (induction fuel arbitrary: h a n)
  case (Suc fuel)
  have sh: "heapShape h" using heapInv_shape [OF Suc.prems(1)] .
  obtain res h1 where r: "allocAttempt h s a = (res, h1)" by fastforce
  from allocAttempt_handsOut [OF sh Suc.prems(2) r] show ?case
  proof (elim disjE exE conjE)
    fix q u h2
    assume o: "res = Some (q, u)" "handsOut h s a q u h2" "h1 = h2\<lparr>availableSize := availableSize h2 - u\<rparr>"
    then have "p = q" "t = u" "h' = h1" using Suc.prems(3) r by auto
    then show ?thesis using heapInv_take [OF Suc.prems(1) o(2)] o(3) handsOutD [OF o(2)] by simp
  next
    assume o: "res = None" "h1 = h"
    have D: "yields h 0 0 (defragment h)" using defragment_yields [OF sh] .
    consider "n = 0" | "n \<noteq> 0" "a > 2 * megaByte \<and> pRightBound h - pLeftBound h \<ge> s"
      | "n \<noteq> 0" "\<not> (a > 2 * megaByte \<and> pRightBound h - pLeftBound h \<ge> s)" by blast
    then show ?thesis
    proof cases
      case 1
      have "requestOk (defragment h) s a" "sameHeap h (defragment h)"
        using yields_same [OF D] Suc.prems(2) by (simp_all add: requestOk_def sameHeap_def)
      then show ?thesis
        using Suc.IH [OF yields_inv [OF Suc.prems(1) D], of a "n + 1"] Suc.prems(3) r o 1
        by (simp add: sameHeap_def)
    next
      case 2
      then show ?thesis
        using Suc.IH [OF Suc.prems(1) retry_alignment(1) [OF sh Suc.prems(2)]] Suc.prems(3) r o
        by (auto simp: linorder_not_le)
    next
      case 3
      then show ?thesis using Suc.prems r o by (auto simp: sameHeap_def)
    qed
  qed
qed simp


section \<open>The retry loop returns\<close>

lemma allocAttempt_bounds:
  "fst (allocFromBounds h s a) \<noteq> 0 \<Longrightarrow> fst (allocAttempt h s a) \<noteq> None"
  by (auto simp: allocAttempt_def split: prod.splits if_splits)

text \<open>
  On a heap whose granularity is a multiple of 64 KB, a gap of at least the requested size fits
  the request at the reduced alignment.
\<close>

lemma multiple_below:
  fixes g :: nat
  assumes "g dvd m" "g dvd n" "m < n"
  shows "m + g \<le> n"
  using assms dvd_imp_le [of g "n - m"] by simp

lemma retry_fits_left:
  assumes sh: "heapShape h" and rq: "requestOk h s a" and g: "65536 dvd gran h"
    and fits: "pRightBound h - pLeftBound h \<ge> s" and big: "s > sizeThreshold h"
  defines "b \<equiv> prevPowerOfTwo64 (pRightBound h - pLeftBound h - 1 - s + 2 * pageSize64k)"
  shows "fst (allocFromBounds h s b) \<noteq> 0"
proof -
  note v = retry_alignment [OF sh rq fits, folded b_def]
  have b: "isPow2 b" "unat b \<le> 2 ^ 62" "unat s < 2 ^ 62" "gran h dvd unat s"
    using v(1) by (auto simp: requestOk_def)
  have L: "unat (pLeftBound h) \<le> unat (pRightBound h)" "unat (pRightBound h) < 2 ^ 62"
    "0 < unat (pLeftBound h)" "gran h dvd unat (pLeftBound h)" "gran h dvd unat (pRightBound h)"
    using sh by (auto simp: heapShape_def)
  have room: "unat (pLeftBound h) + (unat b - 1) < 2 ^ 64" using b L by simp
  let ?al = "alignUp (pLeftBound h) b"
  have al: "unat (pLeftBound h) \<le> unat ?al" "unat ?al < unat (pLeftBound h) + unat b" "unat b dvd unat ?al"
    using alignUp_bounds [OF b(1) room] alignUp_dvd [OF b(1) room] by auto
  have "unat (pRightBound h - pLeftBound h) = unat (pRightBound h) - unat (pLeftBound h)"
    using L by (simp add: unat_sub_nowrap)
  then have s: "unat s \<le> unat (pRightBound h) - unat (pLeftBound h)"
    using fits by (simp add: word_le_nat_alt)
  have d: "65536 dvd unat (pRightBound h) - unat (pLeftBound h) - unat s"
    "65536 dvd unat ?al" "65536 dvd unat (pLeftBound h)"
    using g L b(4) v(4) al(3) by (meson dvd_trans dvd_diff_nat)+
  have "unat ?al + 65536 \<le> unat (pLeftBound h) + unat b"
    by (rule multiple_below) (use d v(4) al in auto)
  moreover have "unat b + 65536 \<le> unat (pRightBound h) - unat (pLeftBound h) - unat s + 131072"
    by (rule multiple_below) (use d v in auto)
  ultimately have "unat ?al + unat s \<le> unat (pRightBound h)" using s L(1) by linarith
  moreover from this have "unat (?al + s) = unat ?al + unat s"
    using L by (intro unat_add_nowrap) simp
  ultimately have "?al + s \<le> pRightBound h" by (simp add: word_le_nat_alt)
  moreover have "?al \<noteq> 0" using al(1) L(3) by auto
  ultimately show ?thesis
    using big L(3) by (auto simp: allocFromBounds_def Let_def)
qed

lemma retry_fits_right:
  assumes sh: "heapShape h" and rq: "requestOk h s a" and g: "65536 dvd gran h"
    and fits: "pRightBound h - pLeftBound h \<ge> s" and small: "\<not> s > sizeThreshold h"
  defines "b \<equiv> prevPowerOfTwo64 (pRightBound h - pLeftBound h - 1 - s + 2 * pageSize64k)"
  shows "fst (allocFromBounds h s b) \<noteq> 0"
proof -
  note v = retry_alignment [OF sh rq fits, folded b_def]
  have b: "isPow2 b" "unat b \<le> 2 ^ 62" "unat s < 2 ^ 62" "gran h dvd unat s"
    using v(1) by (auto simp: requestOk_def)
  have L: "unat (pLeftBound h) \<le> unat (pRightBound h)" "unat (pRightBound h) < 2 ^ 62"
    "0 < unat (pLeftBound h)" "gran h dvd unat (pLeftBound h)" "gran h dvd unat (pRightBound h)"
    using sh by (auto simp: heapShape_def)
  have "unat (pRightBound h - pLeftBound h) = unat (pRightBound h) - unat (pLeftBound h)"
    using L by (simp add: unat_sub_nowrap)
  then have s: "unat s \<le> unat (pRightBound h) - unat (pLeftBound h)"
    using fits by (simp add: word_le_nat_alt)
  define st where "st = pRightBound h - s"
  have st: "unat st = unat (pRightBound h) - unat s" using s by (simp add: st_def unat_sub_nowrap)
  define dn where "dn = alignDown st b"
  have "0 < unat b" using b(1) by (auto elim: isPow2_unat)
  then have dn: "unat dn \<le> unat st" "unat st < unat dn + unat b" "unat b dvd unat dn"
    using alignDown_le [OF b(1)] alignDown_dvd [OF b(1)] alignDown_unat [OF b(1), of st]
    by (auto simp: dn_def less_diff_conv)
  have d: "65536 dvd unat (pRightBound h) - unat (pLeftBound h) - unat s" "65536 dvd unat dn" "65536 dvd unat st"
    using g L b(4) v(4) dn(3) unfolding st by (meson dvd_trans dvd_diff_nat)+
  have "unat st + 65536 \<le> unat dn + unat b"
    by (rule multiple_below) (use d v(4) dn in auto)
  moreover have "unat b + 65536 \<le> unat (pRightBound h) - unat (pLeftBound h) - unat s + 131072"
    by (rule multiple_below) (use d v in auto)
  ultimately have fit: "unat (pLeftBound h) \<le> unat dn" using s st L(1) by linarith
  have m: "unat (st - dn) = unat st - unat dn" using dn by (simp add: unat_sub_nowrap)
  have "unat (pLeftBound h + s) = unat (pLeftBound h) + unat s"
    using L s by (intro unat_add_nowrap) simp
  moreover from this have "unat (pLeftBound h + s + (st - dn)) = unat (pLeftBound h) + unat s + (unat st - unat dn)"
    using L s m fit st dn by (subst unat_add_nowrap) simp_all
  ultimately have "pLeftBound h + s + (st - dn) \<le> pRightBound h"
    using fit st s dn by (simp add: word_le_nat_alt)
  moreover have "dn \<noteq> 0" using fit L(3) by auto
  moreover have "pRightBound h - (st - dn) - s = dn" "pRightBound h - s = st" by (simp_all add: st_def)
  ultimately show ?thesis
    using small by (auto simp: allocFromBounds_def Let_def simp flip: dn_def)
qed

lemma retry_succeeds:
  assumes "heapShape h" "requestOk h s a" "65536 dvd gran h" "pRightBound h - pLeftBound h \<ge> s"
  shows "fst (allocAttempt h s (prevPowerOfTwo64
    (pRightBound h - pLeftBound h - 1 - s + 2 * pageSize64k))) \<noteq> None"
  using retry_fits_left [OF assms] retry_fits_right [OF assms] by (intro allocAttempt_bounds) blast

lemma attempt_shape:
  assumes "heapShape h" "requestOk h s a" "allocAttempt h s a = (None, h')"
  shows "h' = h"
  using allocAttempt_handsOut [OF assms] by auto

lemma allocLoop_retried:
  assumes "heapShape h" "requestOk h s a" "65536 dvd gran h \<or> a \<le> 2 * megaByte" "n \<noteq> 0"
  shows "\<exists>r. allocLoop (Suc (Suc fuel)) h s a n = Some r"
proof -
  obtain res h1 where r: "allocAttempt h s a = (res, h1)" by fastforce
  show ?thesis
  proof (cases "res = None \<and> a > 2 * megaByte \<and> pRightBound h1 - pLeftBound h1 \<ge> s")
    case True
    then have "h1 = h" using r attempt_shape [OF assms(1,2)] by blast
    have "65536 dvd gran h" using assms(3) True by auto
    then have "fst (allocAttempt h s (prevPowerOfTwo64
        (pRightBound h - pLeftBound h - 1 - s + 2 * pageSize64k))) \<noteq> None"
      using True \<open>h1 = h\<close> by (intro retry_succeeds [OF assms(1,2)]) auto
    then show ?thesis using r True assms(4) \<open>h1 = h\<close> by (auto split: prod.splits option.splits)
  next
    case False
    then show ?thesis using r assms(4) by (auto split: option.splits)
  qed
qed

lemma allocLoop_returns:
  assumes sh: "heapShape h" and rq: "requestOk h s a"
    and g: "65536 dvd gran h \<or> a \<le> 2 * megaByte" and fuel: "3 \<le> fuel"
  shows "\<exists>r. allocLoop fuel h s a n = Some r"
proof -
  obtain k where k: "fuel = Suc (Suc (Suc k))" using fuel by (auto simp: eval_nat_numeral dest!: le_Suc_ex)
  show ?thesis
  proof (cases "n = 0")
    case False
    then show ?thesis using allocLoop_retried [OF sh rq g False] k by blast
  next
    case True
    obtain res h1 where r: "allocAttempt h s a = (res, h1)" by fastforce
    show ?thesis
    proof (cases res)
      case None
      then have "h1 = h" using r attempt_shape [OF sh rq] by blast
      have D: "heapShape (defragment h)" "sameHeap h (defragment h)"
        using defragment_yields [OF sh] unfolding yields_def by blast+
      then have "requestOk (defragment h) s a" "65536 dvd gran (defragment h) \<or> a \<le> 2 * megaByte"
        using rq g by (simp_all add: requestOk_def sameHeap_def)
      from allocLoop_retried [OF D(1) this, of 1 k] obtain p t h' where
        "allocLoop (Suc (Suc k)) (defragment h) s a 1 = Some (p, t, h')"
        by (metis prod_cases3 one_neq_zero)
      then show ?thesis using r None \<open>h1 = h\<close> True k by simp
    next
      case (Some x)
      then show ?thesis using r k by (cases x) simp
    qed
  qed
qed


section \<open>Release\<close>

definition absorbs :: "HeapAllocator \<Rightarrow> nat \<Rightarrow> nat \<Rightarrow> HeapAllocator \<Rightarrow> bool" where
  "absorbs h p t h' \<longleftrightarrow> heapShape h' \<and> sameHeap h h' \<and>
     (\<forall>x. heapSpace h' x = heapSpace h x + cov p (p + t) x) \<and> heapTotal h' = heapTotal h + t \<and>
     availableSize h' = availableSize h"

lemma absorbsI:
  assumes "heapShape h"
    and "h' = h\<lparr>pLeftBound := l, pRightBound := r, freedChunksSmall := s, freedChunksBig := b\<rparr>"
    and "gran h dvd unat l" "gran h dvd unat r"
    and "heapLo h \<le> unat l" "unat l \<le> unat r" "unat r \<le> heapHi h"
    and "chunksOk h s" "chunksOk h b"
    and "\<And>x. cov (unat l) (unat r) x + covs s x + covs b x = heapSpace h x + cov p (p + t) x"
    and "(unat r - unat l) + total s + total b = heapTotal h + t"
  shows "absorbs h p t h'"
  unfolding absorbs_def
proof (intro conjI allI)
  show "heapShape h'" using assms(1,3-9) unfolding assms(2) by (simp add: heapShape_def)
  show "heapSpace h' x = heapSpace h x + cov p (p + t) x" for x
    unfolding assms(10) [symmetric] unfolding assms(2) by (simp add: heapSpace_def)
  show "heapTotal h' = heapTotal h + t"
    unfolding assms(11) [symmetric] unfolding assms(2) by (simp add: heapTotal_def)
qed (simp_all add: assms(2) sameHeap_def)

lemma absorbs_trans:
  assumes "absorbs h p t h1" "yields h1 0 0 h2"
  shows "absorbs h p t h2"
  using assms by (simp add: absorbs_def yields_def sameHeap_def)

lemma absorbs_shape: "absorbs h p t h1 \<Longrightarrow> heapShape h1"
  unfolding absorbs_def by blast

text \<open>The heap after \<open>free\<close>, before its byte counter is updated.\<close>

lemma heapFree_absorbs:
  assumes sh: "heapShape h" and ok: "blockOk h (p, s)"
  shows "\<exists>h1. absorbs h (unat p) (unat s) h1 \<and> heapFree p s h = h1\<lparr>availableSize := availableSize h1 + s\<rparr>"
proof -
  have b: "heapLo h \<le> unat p" "unat p + unat s \<le> heapHi h" "gran h dvd unat p" "gran h dvd unat s"
    using ok by (auto simp: blockOk_def chunkOk_def mkChunk_def)
  have shape: "0 < heapLo h" "heapHi h < 2 ^ 62" "heapLo h \<le> unat (pLeftBound h)"
    "unat (pLeftBound h) \<le> unat (pRightBound h)" "unat (pRightBound h) \<le> heapHi h"
    "gran h dvd unat (pLeftBound h)" "gran h dvd unat (pRightBound h)"
    "chunksOk h (freedChunksBig h)" "chunksOk h (freedChunksSmall h)"
    using sh by (simp_all add: heapShape_def)
  have e: "unat (p + s) = unat p + unat s" using b shape by (intro unat_add_nowrap) simp
  have "p \<noteq> 0" using b shape by auto
  have store: "chunksOk h (storeInFreedChunks p s cs)"
    "covs (storeInFreedChunks p s cs) x = covs cs x + cov (unat p) (unat p + unat s) x"
    "total (storeInFreedChunks p s cs) = total cs + unat s" if "chunksOk h cs" for cs x
  proof -
    have "heapHi h < 2 ^ 64" using shape by simp
    from storeInFreedChunks_space [OF that [unfolded chunksOk_def] _ this, of p s]
    have "adds cs (unat p) (unat s) (storeInFreedChunks p s cs) \<and> chunksOk h (storeInFreedChunks p s cs)"
      using ok by (simp add: blockOk_def chunksOk_def)
    then show "chunksOk h (storeInFreedChunks p s cs)"
      "covs (storeInFreedChunks p s cs) x = covs cs x + cov (unat p) (unat p + unat s) x"
      "total (storeInFreedChunks p s cs) = total cs + unat s" by (auto simp: adds_def)
  qed
  consider (right) "p = pRightBound h" | (left) "p \<noteq> pRightBound h" "p = pLeftBound h - s"
    | (big) "p \<noteq> pRightBound h" "p \<noteq> pLeftBound h - s" "p < pLeftBound h"
    | (small) "p \<noteq> pRightBound h" "p \<noteq> pLeftBound h - s" "\<not> p < pLeftBound h" by blast
  then show ?thesis
  proof cases
    case right
    have "absorbs h (unat p) (unat s) (h\<lparr>pRightBound := p + s\<rparr>)"
      using b shape e right cov_split [of "unat (pLeftBound h)" "unat p" "unat p + unat s"]
      by (intro absorbsI [OF sh, where l = "pLeftBound h" and r = "p + s" and
            s = "freedChunksSmall h" and b = "freedChunksBig h"])
         (simp_all add: heapSpace_def heapTotal_def)
    from absorbs_trans [OF this mergeLastFreedSmall_yields [OF absorbs_shape [OF this]]]
    show ?thesis using right \<open>p \<noteq> 0\<close> by (auto simp: heapFree_def Let_def)
  next
    case left
    then have L: "unat (pLeftBound h) = unat p + unat s" using e by (simp add: word_eq_minus_iff)
    have "absorbs h (unat p) (unat s) (h\<lparr>pLeftBound := p\<rparr>)"
      using b shape L cov_split [of "unat p" "unat p + unat s" "unat (pRightBound h)"]
      by (intro absorbsI [OF sh, where l = p and r = "pRightBound h" and
            s = "freedChunksSmall h" and b = "freedChunksBig h"])
         (simp_all add: heapSpace_def heapTotal_def)
    from absorbs_trans [OF this mergeLastFreedBig_yields [OF absorbs_shape [OF this]]]
    show ?thesis using left \<open>p \<noteq> 0\<close> by (auto simp: heapFree_def Let_def)
  next
    case big
    have "absorbs h (unat p) (unat s) (h\<lparr>freedChunksBig := storeInFreedChunks p s (freedChunksBig h)\<rparr>)"
      using shape store [OF shape(8)]
      by (intro absorbsI [OF sh, where l = "pLeftBound h" and r = "pRightBound h" and
            s = "freedChunksSmall h" and b = "storeInFreedChunks p s (freedChunksBig h)"])
         (simp_all add: heapSpace_def heapTotal_def)
    then show ?thesis using big \<open>p \<noteq> 0\<close> by (auto simp: heapFree_def Let_def)
  next
    case small
    have "absorbs h (unat p) (unat s) (h\<lparr>freedChunksSmall := storeInFreedChunks p s (freedChunksSmall h)\<rparr>)"
      using shape store [OF shape(9)]
      by (intro absorbsI [OF sh, where l = "pLeftBound h" and r = "pRightBound h" and
            s = "storeInFreedChunks p s (freedChunksSmall h)" and b = "freedChunksBig h"])
         (simp_all add: heapSpace_def heapTotal_def)
    then show ?thesis using small \<open>p \<noteq> 0\<close> by (auto simp: heapFree_def Let_def)
  qed
qed

lemma heapFree_inv:
  assumes inv: "heapInv h (add_mset (p, s) live)"
  shows "heapInv (heapFree p s h) live" "sameHeap h (heapFree p s h)"
proof -
  have i: "\<forall>b \<in># live. blockOk h b" "blockOk h (p, s)" "unat (availableSize h) = heapTotal h"
    "heapTotal h + liveTotal (add_mset (p, s) live) = unat (heapSize h)"
    "\<And>x. heapSpace h x + liveCov (add_mset (p, s) live) x = cov (heapLo h) (heapHi h) x"
    using inv unfolding heapInv_def by auto
  obtain h1 where h1: "absorbs h (unat p) (unat s) h1" "heapFree p s h = h1\<lparr>availableSize := availableSize h1 + s\<rparr>"
    using heapFree_absorbs [OF heapInv_shape [OF inv] i(2)] by blast
  then have a: "heapShape h1" "sameHeap h h1" "availableSize h1 = availableSize h"
    "\<And>x. heapSpace h1 x = heapSpace h x + cov (unat p) (unat p + unat s) x"
    "heapTotal h1 = heapTotal h + unat s"
    unfolding absorbs_def by blast+
  then have cst: "heapLo (heapFree p s h) = heapLo h" "heapHi (heapFree p s h) = heapHi h"
    "heapSize (heapFree p s h) = heapSize h" "blockOk (heapFree p s h) b = blockOk h b" for b
    unfolding h1(2) by (simp_all add: sameHeap_def blockOk_def)
  have space: "heapSpace h1 x + liveCov live x = cov (heapLo h) (heapHi h) x" for x
    using a(4) [of x] i(5) [of x] by (simp add: blockCov_def)
  have total: "heapTotal h1 + liveTotal live = unat (heapSize h)" using a(5) i(4) by simp
  then have "heapTotal h + unat s < 18446744073709551616" using a(5) unat_lt64 [of "heapSize h"] by linarith
  then have avail: "unat (availableSize h1 + s) = heapTotal h1"
    using a(3,5) i(3) by (subst unat_add_nowrap) simp_all
  show "heapInv (heapFree p s h) live"
    unfolding heapInv_def cst unfolding h1(2) avail_upd using a(1) i(1) avail space total by simp
  show "sameHeap h (heapFree p s h)" using a(2) by (simp add: h1(2))
qed


section \<open>The whole operation\<close>

text \<open>A request of size \<open>s\<close> at alignment \<open>a\<close>; rounding the size up must not wrap around.\<close>

definition validRequest :: "HeapAllocator \<Rightarrow> u64 \<times> u64 \<Rightarrow> bool" where
  "validRequest h r \<longleftrightarrow> (snd r = 0 \<or> isPow2 (snd r) \<and> unat (snd r) \<le> 2 ^ 62) \<and>
     unat (fst r) + (gran h - 1) < 2 ^ 64 \<and>
     (65536 dvd gran h \<or> max (snd r) (allocationAlignment h) \<le> 2 * megaByte)"

lemma gran_bound:
  assumes "heapShape h"
  shows "gran h \<le> 2 ^ 62" "isPow2 (allocationAlignment h)"
proof -
  have "gran h dvd unat (pLeftBound h)" "0 < unat (pLeftBound h)" "unat (pLeftBound h) < 2 ^ 62"
    using assms by (auto simp: heapShape_def)
  then show "gran h \<le> 2 ^ 62" by (meson dvd_imp_le le_trans less_imp_le)
  show "isPow2 (allocationAlignment h)" using assms by (simp add: heapShape_def)
qed

lemma available_bound:
  assumes "heapInv h live"
  shows "unat (availableSize h) \<le> unat (heapSize h)" "unat (availableSize h) < 2 ^ 62"
proof -
  have "unat (availableSize h) = heapTotal h" "heapTotal h + liveTotal live = unat (heapSize h)"
    "heapHi h < 2 ^ 62"
    using assms heapInv_shape [OF assms] unfolding heapInv_def by (auto simp: heapShape_def)
  then show "unat (availableSize h) \<le> unat (heapSize h)" "unat (availableSize h) < 2 ^ 62" by linarith+
qed

lemma validRequest_ok:
  assumes inv: "heapInv h live" and v: "validRequest h (s, a)"
  defines "al \<equiv> max a (allocationAlignment h)" and "sz \<equiv> alignUp s (allocationAlignment h)"
  shows "al mod allocationAlignment h = 0" "unat s \<le> unat sz"
    "\<not> availableSize h < sz \<Longrightarrow> requestOk h sz al" "gran h dvd unat al"
proof -
  note g = gran_bound [OF heapInv_shape [OF inv]]
  have room: "unat s + (gran h - 1) < 2 ^ 64" and a: "a = 0 \<or> isPow2 a \<and> unat a \<le> 2 ^ 62"
    using v by (auto simp: validRequest_def)
  have "a = 0 \<Longrightarrow> al = allocationAlignment h" by (simp add: al_def max_def)
  then have al: "isPow2 al" "unat al \<le> 2 ^ 62" "gran h \<le> unat al"
    using a g by (auto simp: al_def max_def word_le_nat_alt)
  show d: "gran h dvd unat al"
    using pow2_dvd_linear [OF al(1) g(2)] al(3)
    by (metis dvd_imp_le g(2) isPow2_unat le_antisym zero_less_numeral zero_less_power)
  then show "al mod allocationAlignment h = 0"
    by (simp add: word_unat_eq_iff unat_mod)
  show "unat s \<le> unat sz" using alignUp_bounds(1) [OF g(2) room] by (simp add: sz_def)
  show "requestOk h sz al" if "\<not> availableSize h < sz"
    using that al available_bound(2) [OF inv] alignUp_dvd [OF g(2) room]
    by (auto simp: requestOk_def sz_def word_less_nat_alt)
qed

definition allocated :: "HeapAllocator \<Rightarrow> block multiset \<Rightarrow> u64 \<Rightarrow> u64 \<Rightarrow> u64 \<Rightarrow> u64 \<Rightarrow> HeapAllocator \<Rightarrow> bool" where
  "allocated h live s a p t h' \<longleftrightarrow> heapInv h' (add_mset (p, t) live) \<and> unat s \<le> unat t \<and>
     gran h dvd unat p \<and>
     (max a (allocationAlignment h) \<le> 2 * megaByte \<longrightarrow> unat (max a (allocationAlignment h)) dvd unat p)"

lemma allocate_outcome:
  assumes inv: "heapInv h live" and v: "validRequest h (s, a)" and fuel: "3 \<le> fuel"
  shows "\<exists>p t h'. allocateWithCustomAlignment fuel h s a = Inr (Some (p, t, h')) \<and> sameHeap h h' \<and>
    (if p = 0 then heapInv h' live else allocated h live s a p t h')"
proof -
  define al sz where "al = max a (allocationAlignment h)" "sz = alignUp s (allocationAlignment h)"
  note ok = validRequest_ok [OF inv v, folded al_sz_def]
  have al: "(if a < allocationAlignment h then allocationAlignment h else a) = al"
    by (auto simp: al_sz_def max_def)
  show ?thesis
  proof (cases "availableSize h < sz")
    case True
    then show ?thesis
      using inv ok(1) by (simp add: allocateWithCustomAlignment_def al sameHeap_def flip: al_sz_def)
  next
    case False
    note rq = ok(3) [OF False]
    have "65536 dvd gran h \<or> al \<le> 2 * megaByte" using v by (auto simp: validRequest_def al_sz_def)
    from allocLoop_returns [OF heapInv_shape [OF inv] rq this fuel]
    obtain p t h' where l: "allocLoop fuel h sz al 0 = Some (p, t, h')" by (metis prod_cases3)
    then have eq: "allocateWithCustomAlignment fuel h s a = Inr (Some (p, t, h'))"
      using False ok(1) by (simp add: allocateWithCustomAlignment_def al flip: al_sz_def)
    note S = allocLoop_sound [OF inv rq l]
    have "gran h dvd unat p" if "p \<noteq> 0"
    proof -
      have "blockOk h' (p, t)" using S that unfolding heapInv_def by auto
      then show ?thesis using S by (simp add: blockOk_def chunkOk_def mkChunk_def sameHeap_def)
    qed
    then show ?thesis using S eq ok(2) by (auto simp: allocated_def al_sz_def)
  qed
qed

section \<open>The allocator implements the contract of a range allocator\<close>

definition heapRequest :: "HeapAllocator \<Rightarrow> u64 \<times> u64 \<Rightarrow> block option \<times> HeapAllocator" where
  "heapRequest h r = (case allocateWithCustomAlignment 3 h (fst r) (snd r) of
       Inr (Some (p, t, h')) \<Rightarrow> (if p = 0 then None else Some (p, t), h')
     | _ \<Rightarrow> (None, h))"

definition heapRelease :: "block \<Rightarrow> HeapAllocator \<Rightarrow> HeapAllocator" where
  "heapRelease b h = heapFree (fst b) (snd b) h"

lemma heapRequest_inv:
  assumes "heapInv h live" "validRequest h r" "heapRequest h r = (res, h')"
  shows "heapInv h' (granted res live)" "sameHeap h h'"
proof -
  obtain s a where r: "r = (s, a)" by fastforce
  obtain p t h1 where o: "allocateWithCustomAlignment 3 h s a = Inr (Some (p, t, h1))" "sameHeap h h1"
    "if p = 0 then heapInv h1 live else allocated h live s a p t h1"
    using allocate_outcome [OF assms(1), of s a 3] assms(2) r by auto
  have "h' = h1" "res = (if p = 0 then None else Some (p, t))"
    using assms(3) o(1) by (auto simp: heapRequest_def r)
  then show "heapInv h' (granted res live)" "sameHeap h h'"
    using o(2,3) by (simp_all add: allocated_def split: if_splits)
qed

interpretation heap: range_allocator heapInv heapLo heapHi validRequest heapRequest heapRelease
proof unfold_locales
  show "heapInv h' (granted res live)"
    if "heapInv h live" "validRequest h r" "heapRequest h r = (res, h')" for h live r res h'
    using heapRequest_inv that by blast
  show "heapLo h' = heapLo h \<and> heapHi h' = heapHi h"
    if "heapInv h live" "validRequest h r" "heapRequest h r = (res, h')" for h live r res h'
    using heapRequest_inv(2) [OF that] by (simp add: sameHeap_def)
  show "heapInv (heapRelease b h) live" if "heapInv h (add_mset b live)" for b h live
    using heapFree_inv(1) [of h "fst b" "snd b" live] that by (simp add: heapRelease_def)
  show "heapLo (heapRelease b h) = heapLo h \<and> heapHi (heapRelease b h) = heapHi h"
    if "heapInv h (add_mset b live)" for b h live
    using heapFree_inv(2) [of h "fst b" "snd b" live] that by (simp add: heapRelease_def sameHeap_def)
  show "liveCov live x \<le> cov (heapLo h) (heapHi h) x" if "heapInv h live" for h live x
    using that unfolding heapInv_def by (metis le_add2)
qed

lemma newHeapAllocator_inv:
  assumes "b \<noteq> 0" "unat b + unat s < 2 ^ 62" "isPow2 g" "unat g dvd unat b" "unat g dvd unat s"
  shows "heapInv (newHeapAllocator b s g th) {#}"
proof -
  have "unat (b + s) = unat b + unat s" using assms(2) by (intro unat_add_nowrap) simp
  then show ?thesis using assms
    unfolding heapInv_def newHeapAllocator_def heapShape_def heapSpace_def heapTotal_def
    by (simp add: unat_gt_0)
qed


text \<open>A request that fits in the gap at the granularity of the heap is cut from it.\<close>

lemma allocFromBounds_fits:
  assumes sh: "heapShape h" and s: "gran h dvd unat s" "unat s \<le> unat (pRightBound h) - unat (pLeftBound h)"
  shows "fst (allocFromBounds h s (allocationAlignment h)) \<noteq> 0"
proof -
  let ?L = "pLeftBound h" and ?R = "pRightBound h" and ?g = "allocationAlignment h"
  have L: "unat ?L \<le> unat ?R" "unat ?R < 2 ^ 62" "0 < unat ?L" "gran h dvd unat ?L" "gran h dvd unat ?R"
    using sh by (auto simp: heapShape_def)
  note g = gran_bound [OF sh]
  have e: "unat (?L + s) = unat ?L + unat s" using L s by (intro unat_add_nowrap) simp
  then have fits: "?L + s \<le> ?R" using L(1) s(2) by (simp add: word_le_nat_alt)
  have down: "alignDown x ?g = x" if "gran h dvd unat x" for x :: u64
    using that g(2) by (simp add: word_unat_eq_iff alignDown_unat)
  have up: "alignUp ?L ?g = ?L"
    using L g alignUp_aligned [OF g(2), of ?L] by (simp add: alignUp_unat)
  have R: "unat (?R - s) = unat ?R - unat s" using s by (simp add: unat_sub_nowrap)
  then have "alignDown (?R - s) ?g = ?R - s" using down [of "?R - s"] L s by simp
  moreover have "?R - s \<noteq> 0" using R L s by (auto simp: word_unat_eq_iff)
  moreover have "?L \<noteq> 0" using L(3) by auto
  ultimately show ?thesis using fits up by (simp add: allocFromBounds_def Let_def add.commute)
qed


section \<open>Properties\<close>

text \<open>
  C1: an allocation from a consistent heap whose granularity is a multiple of 64 KB, or whose request is aligned to at most
  2 MB, with a power of two as alignment and a size that can be rounded up without wrapping around
  (\<open>validRequest\<close>; \<open>allocate_retries_forever\<close> shows what happens on a heap of finer granularity), returns: within three iterations of the retry loop it
  either reports failure with the heap still consistent, or hands out a range at least as large
  as requested, aligned to the granularity of the heap (to the requested alignment too, unless
  the request exceeds 2 MB alignment, which the loop may lower), inside the heap and apart from
  every range handed out before.
\<close>

theorem allocate_fresh_range:
  assumes inv: "heapInv h live" and v: "validRequest h (s, a)" and fuel: "3 \<le> fuel"
  shows "\<exists>p t h'. allocateWithCustomAlignment fuel h s a = Inr (Some (p, t, h')) \<and>
    (if p = 0 then heapInv h' live
     else heapInv h' (add_mset (p, t) live) \<and> unat s \<le> unat t \<and> gran h dvd unat p \<and>
       (max a (allocationAlignment h) \<le> 2 * megaByte \<longrightarrow>
          unat (max a (allocationAlignment h)) dvd unat p) \<and>
       heapLo h \<le> unat p \<and> unat p + unat t \<le> heapHi h \<and>
       (\<forall>b \<in># live. apart (p, t) b))"
proof -
  obtain p t h' where o: "allocateWithCustomAlignment fuel h s a = Inr (Some (p, t, h'))" "sameHeap h h'"
    "if p = 0 then heapInv h' live else allocated h live s a p t h'"
    using allocate_outcome [OF assms] by blast
  have "(heapLo h \<le> unat p \<and> unat p + unat t \<le> heapHi h) \<and> (\<forall>b \<in># live. apart (p, t) b)"
    if "heapInv h' (add_mset (p, t) live)"
  proof (intro conjI ballI)
    have "blockOk h' (p, t)" using that unfolding heapInv_def by simp
    then show "heapLo h \<le> unat p" "unat p + unat t \<le> heapHi h"
      using o(2) by (simp_all add: blockOk_def chunkOk_def mkChunk_def sameHeap_def)
    show "apart (p, t) b" if "b \<in># live" for b
      using heap.inv_apart \<open>heapInv h' _\<close> that by (metis mset_add)
  qed
  then show ?thesis using o by (auto simp: allocated_def)
qed

theorem allocate_fresh_range_witness:
  "\<exists>p t h'. allocateWithCustomAlignment 3 (newHeapAllocator 0x10000 0x100000 0x10000 0x400000) 5 0 =
     Inr (Some (p, t, h')) \<and> (p = 0 \<or> 65536 dvd unat p)"
proof -
  have "heapInv (newHeapAllocator 0x10000 0x100000 0x10000 0x400000) {#}"
    by (rule newHeapAllocator_inv) (simp_all add: isPow2_def)
  moreover have "validRequest (newHeapAllocator 0x10000 0x100000 0x10000 0x400000) (5, 0)"
    by (simp add: validRequest_def newHeapAllocator_def)
  moreover have "gran (newHeapAllocator 0x10000 0x100000 0x10000 0x400000) = 65536"
    by (simp add: newHeapAllocator_def)
  ultimately show ?thesis
    using allocate_fresh_range [of "newHeapAllocator 0x10000 0x100000 0x10000 0x400000" "{#}" 5 0 3]
    by (smt (verit, best) order_refl)
qed

text \<open>
  C2: whatever sequence of allocations and releases a client runs on a new heap, two ranges it
  holds at the same time never overlap, each lies inside the heap, and \<open>getUsedSize\<close> is exactly
  the sum of the sizes held, so a client that releases everything gets the whole heap back.
\<close>

theorem heap_history_safe:
  assumes h: "heap.history (newHeapAllocator b s g th) {#} h live"
    and ok: "b \<noteq> 0" "unat b + unat s < 2 ^ 62" "isPow2 g" "unat g dvd unat b" "unat g dvd unat s"
  shows "(\<forall>c d rest. live = add_mset c (add_mset d rest) \<longrightarrow> apart c d) \<and>
    (\<forall>c \<in># live. unat b \<le> unat (fst c) \<and> unat (fst c) + unat (snd c) \<le> unat b + unat s) \<and>
    unat (getUsedSize h) = liveTotal live \<and> getLeftSize h + getUsedSize h = s"
proof -
  have "heapLo h = unat b \<and> heapHi h = unat b + unat s"
    using heap.history_bounds [OF h newHeapAllocator_inv [OF ok]] by (simp add: newHeapAllocator_def)
  then have c: "heapLo h = unat b" "heapSize h = s" by (auto simp: word_unat_eq_iff)
  have inv: "heapInv h live" using heap.history_inv [OF h newHeapAllocator_inv [OF ok]] .
  then have i: "\<forall>c \<in># live. blockOk h c" "unat (availableSize h) = heapTotal h"
    "heapTotal h + liveTotal live = unat (heapSize h)" unfolding heapInv_def by blast+
  have "apart x y" if "live = add_mset x (add_mset y rest)" for x y rest
    using inv that heap.inv_apart by blast
  moreover have "\<forall>c \<in># live. unat b \<le> unat (fst c) \<and> unat (fst c) + unat (snd c) \<le> unat b + unat s"
    using i(1) c by (simp add: blockOk_def chunkOk_def mkChunk_def)
  moreover have "unat (getUsedSize h) = liveTotal live"
    using i(2,3) by (simp add: getUsedSize_def unat_sub_nowrap)
  moreover have "getLeftSize h + getUsedSize h = s" using c by (simp add: getLeftSize_def getUsedSize_def)
  ultimately show ?thesis by blast
qed

theorem heap_history_safe_witness:
  "\<exists>h live. heap.history (newHeapAllocator 0x10000 0x100000 0x10000 0x400000) {#} h live \<and>
     live = {#(0x100000, 0x10000)#} \<and> unat (getUsedSize h) = 65536"
proof -
  let ?h = "newHeapAllocator 0x10000 0x100000 0x10000 0x400000"
  have v: "validRequest ?h (5, 0)" by (simp add: validRequest_def newHeapAllocator_def)
  have r: "fst (heapRequest ?h (5, 0)) = Some (0x100000, 0x10000)" by code_simp
  define h' where "h' = snd (heapRequest ?h (5, 0))"
  have "heapRequest ?h (5, 0) = (Some (0x100000, 0x10000), h')"
    using r by (metis h'_def prod.collapse)
  from heap.history.requested [OF heap.history.start v this]
  have "heap.history ?h {#} h' {#(0x100000, 0x10000)#}" by simp
  moreover from heap_history_safe [OF this] have "unat (getUsedSize h') = 65536"
    by (simp add: isPow2_def)
  ultimately show ?thesis by blast
qed

text \<open>
  C21: \<open>allocate\<close> does not refuse a request that fits in the untouched part of the heap.
\<close>

theorem allocate_fits_gap:
  assumes inv: "heapInv h live" and room: "unat s + (gran h - 1) < 2 ^ 64" and fuel: "0 < fuel"
    and fits: "unat (alignUp s (allocationAlignment h)) \<le> unat (pRightBound h) - unat (pLeftBound h)"
  shows "\<exists>p t h'. allocate fuel h s = Inr (Some (p, t, h')) \<and> p \<noteq> 0"
proof -
  let ?g = "allocationAlignment h" and ?s = "alignUp s (allocationAlignment h)"
  have sh: "heapShape h" using heapInv_shape [OF inv] .
  note g = gran_bound [OF sh]
  have d: "gran h dvd unat ?s" using alignUp_dvd [OF g(2) room] .
  have "heapTotal h = unat (availableSize h)" using inv unfolding heapInv_def by simp
  then have av: "\<not> availableSize h < ?s" using fits by (simp add: heapTotal_def word_less_nat_alt)
  have rq: "requestOk h ?s ?g"
    using d g available_bound(2) [OF inv] av by (simp add: requestOk_def word_less_nat_alt)
  obtain r h1 where r: "allocAttempt h ?s ?g = (r, h1)" by fastforce
  have "fst (allocAttempt h ?s ?g) \<noteq> None"
    by (rule allocAttempt_bounds [OF allocFromBounds_fits [OF sh d fits]])
  then obtain p t where p: "r = Some (p, t)" "p \<noteq> 0"
    using allocAttempt_handsOut [OF sh rq r] r by (auto dest: handsOutD)
  obtain k where "fuel = Suc k" using fuel by (cases fuel) auto
  moreover have "0 < ?g" using g(2) by (auto elim!: isPow2_unat simp: word_less_nat_alt)
  ultimately show ?thesis
    using p r av by (auto simp: allocate_def allocateWithCustomAlignment_def)
qed

theorem allocate_fits_gap_witness:
  "\<exists>p t h'. allocate 1 (newHeapAllocator 0x10000 0x100000 0x10000 0x400000) 0x100000 =
     Inr (Some (p, t, h')) \<and> p \<noteq> 0"
proof (rule allocate_fits_gap)
  show "heapInv (newHeapAllocator 0x10000 0x100000 0x10000 0x400000) {#}"
    by (rule newHeapAllocator_inv) (simp_all add: isPow2_def)
qed (simp_all add: newHeapAllocator_def alignUp_def)

text \<open>
  C32: the 64 KB granularity of the termination result is needed. On a 4 KB granular heap of
  12 MB less 64 KB a request of 8 MB aligned to 8 MB never returns: the reduced alignment is 4 MB
  on every retry, the request does not fit at that alignment, and the gap stays large enough for
  another retry.
\<close>

theorem allocate_retries_forever:
  "allocateWithCustomAlignment fuel (newHeapAllocator 0x401000 0xBF0000 0x1000 0x400000)
     0x800000 0x800000 = Inr None"
proof -
  let ?h = "newHeapAllocator 0x401000 0xBF0000 0x1000 0x400000"
  have a: "allocAttempt ?h 0x800000 0x800000 = (None, ?h)" "defragment ?h = ?h"
    "allocAttempt ?h 0x800000 0x400000 = (None, ?h)"
    "prevPowerOfTwo64 (pRightBound ?h - pLeftBound ?h - 1 - 0x800000 + 2 * pageSize64k) = 0x400000"
    "0x800000 > 2 * megaByte" "0x400000 > 2 * megaByte" "pRightBound ?h - pLeftBound ?h \<ge> 0x800000"
    by code_simp+
  have 1: "allocLoop k ?h 0x800000 0x400000 1 = None" for k
    by (induction k) (use a in simp_all)
  have 2: "allocLoop k ?h 0x800000 0x800000 1 = None" for k
    by (cases k) (use a 1 in simp_all)
  have "allocLoop fuel ?h 0x800000 0x800000 0 = None"
    by (cases fuel) (use a 2 in simp_all)
  moreover have "allocationAlignment ?h = 0x1000" "\<not> availableSize ?h < 0x800000"
    by (simp_all add: newHeapAllocator_def)
  ultimately show ?thesis by (simp add: allocateWithCustomAlignment_def alignUp_def)
qed


end
