(* ===== verification/Heap_Partition.thy ===== *)
theory Heap_Partition
  imports Heap_Allocator
begin

text \<open>
  \<open>memory_manager/gfx_partition.{h,cpp}\<close>, \<open>helpers/heap_assigner.cpp\<close> and
  \<open>os_interface/os_memory.{h,cpp}\<close>: the division of the GPU address space into heaps. The
  operating system (reserve, release, memory maps) and the CPU description are parameters of the
  model. The main results: the heaps a successful \<open>init\<close> creates satisfy the invariant of the
  range allocator, are pairwise disjoint and stay inside the reserved space, and the heaps of
  different root devices are disjoint.
\<close>

section \<open>Operating system memory\<close>

record ReservedCpuAddressRange =
  originalPtr :: u64
  alignedPtr :: u64
  sizeToReserve :: u64
  actualReservedSize :: u64

definition noReservedRange :: ReservedCpuAddressRange where
  "noReservedRange = \<lparr>originalPtr = 0, alignedPtr = 0, sizeToReserve = 0, actualReservedSize = 0\<rparr>"

record MappedRegion =
  regionStart :: u64
  regionEnd :: u64

text \<open>
  The virtual functions of \<open>OSMemory\<close> that each platform implements, on a state \<open>'o\<close> of the
  operating system: \<open>osReserve base size\<close> returns 0 on failure.
\<close>

record 'o OSMemory =
  osReserve :: "u64 \<Rightarrow> u64 \<Rightarrow> 'o \<Rightarrow> u64 \<times> 'o"
  osRelease :: "u64 \<Rightarrow> u64 \<Rightarrow> 'o \<Rightarrow> 'o"
  osMemoryMaps :: "'o \<Rightarrow> MappedRegion list"

definition reserveCpuAddressRange ::
  "'o OSMemory \<Rightarrow> u64 \<Rightarrow> u64 \<Rightarrow> u64 \<Rightarrow> 'o \<Rightarrow> (ReservedCpuAddressRange \<times> 'o) result" where
  "reserveCpuAddressRange os b sizeIn alignment o0 =
     (if alignment \<noteq> 0 \<and> alignment AND (alignment - 1) \<noteq> 0 then Inl Unrecoverable
      else let actual = sizeIn + alignment;
               (p, o1) = osReserve os b actual o0
           in Inr (\<lparr>originalPtr = p, alignedPtr = alignUp p alignment,
                    sizeToReserve = sizeIn, actualReservedSize = actual\<rparr>, o1))"

definition releaseCpuAddressRange :: "'o OSMemory \<Rightarrow> ReservedCpuAddressRange \<Rightarrow> 'o \<Rightarrow> 'o" where
  "releaseCpuAddressRange os r o0 =
     (if originalPtr r \<noteq> 0 then osRelease os (originalPtr r) (actualReservedSize r) o0 else o0)"

section \<open>Heaps\<close>

datatype HeapIndex =
    heapInternalDeviceMemory | heapInternal | heapExternalDeviceMemory | heapExternal
  | heapStandard | heapStandard64KB | heapStandard2MB | heapSvm | heapExtended
  | heapExternalFrontWindow | heapExternalDeviceFrontWindow
  | heapInternalFrontWindow | heapInternalDeviceFrontWindow | heapExtendedHost

definition heapGranularity :: u64 where "heapGranularity = pageSize64k"
definition heapGranularity2MB :: u64 where "heapGranularity2MB = 2 * megaByte"
definition externalFrontWindowPoolSize :: u64 where "externalFrontWindowPoolSize = 2 * pageSize64k"
definition internalFrontWindowPoolSize :: u64 where "internalFrontWindowPoolSize = 1 * megaByte"

lemma partition_constants [simp]:
  "heapGranularity = 65536" "heapGranularity2MB = 2097152"
  "externalFrontWindowPoolSize = 131072" "internalFrontWindowPoolSize = 1048576"
  by (simp_all add: heapGranularity_def heapGranularity2MB_def externalFrontWindowPoolSize_def
      internalFrontWindowPoolSize_def)

text \<open>\<open>GfxPartition::Heap\<close>; the allocator is a null pointer until the heap is initialised.\<close>

record Heap =
  gfxHeapBase :: u64
  gfxHeapSize :: u64
  gfxHeapAlloc :: "HeapAllocator option"

definition noHeap :: Heap where
  "noHeap = \<lparr>gfxHeapBase = 0, gfxHeapSize = 0, gfxHeapAlloc = None\<rparr>"

definition heapLimit :: "Heap \<Rightarrow> u64" where
  "heapLimit h = (if gfxHeapSize h \<noteq> 0 then gfxHeapBase h + gfxHeapSize h - 1 else 0)"

definition granularityFor :: "u64 \<Rightarrow> u64" where
  "granularityFor alignment =
     (if alignment > heapGranularity then heapGranularity2MB else heapGranularity)"

definition heapInit :: "u64 \<Rightarrow> u64 \<Rightarrow> u64 \<Rightarrow> Heap" where
  "heapInit b sz alignment =
     (let granularity = granularityFor alignment;
          inner = (if sz > 2 * granularity then sz - 2 * granularity else sz)
      in \<lparr>gfxHeapBase = b, gfxHeapSize = sz,
          gfxHeapAlloc = Some (newHeapAllocatorDefaultThreshold (b + granularity) inner alignment)\<rparr>)"

definition heapInitExternalWithFrontWindow :: "u64 \<Rightarrow> u64 \<Rightarrow> Heap" where
  "heapInitExternalWithFrontWindow b sz =
     \<lparr>gfxHeapBase = b, gfxHeapSize = sz,
      gfxHeapAlloc = Some (newHeapAllocator b (sz - heapGranularity) pageSize 0)\<rparr>"

definition heapInitWithFrontWindow :: "u64 \<Rightarrow> u64 \<Rightarrow> u64 \<Rightarrow> Heap" where
  "heapInitWithFrontWindow b sz frontWindowSize =
     \<lparr>gfxHeapBase = b, gfxHeapSize = sz,
      gfxHeapAlloc = Some (newHeapAllocatorDefaultThreshold (b + frontWindowSize)
        (sz - heapGranularity - frontWindowSize) pageSize)\<rparr>"

definition heapInitFrontWindow :: "u64 \<Rightarrow> u64 \<Rightarrow> Heap" where
  "heapInitFrontWindow b sz =
     \<lparr>gfxHeapBase = b, gfxHeapSize = sz, gfxHeapAlloc = Some (newHeapAllocator b sz pageSize 0)\<rparr>"

section \<open>Heap assigner\<close>

datatype AllocationType =
    unknown | buffer | bufferHostMemory | commandBuffer | constantSurface | externalHostPtr
  | fillPattern | globalSurface | image_ | indirectObjectHeap | instructionHeap | internalHeap
  | internalHostMemory | kernelArgsBuffer | kernelIsa | kernelIsaInternal | linearStream
  | mapAllocation | mcs | pipe | preemption | printfSurface | privateSurface | profilingTagBuffer
  | scratchSurface | sharedBuffer | sharedImage | sharedResourceCopy | surfaceStateHeap | svmCpu
  | svmGpu | svmZeroCopy | syncBuffer | tagBuffer | globalFence | timestampPacketTagBuffer
  | writeCombined | ringBuffer | semaphoreBuffer | debugContextSaveArea | debugSbaTrackingBuffer
  | debugModuleArea | unifiedSharedMemory | workPartitionSurface | gpuTimestampDeviceBuffer
  | swTagBuffer | deferredTasksList | assertBuffer | syncDispatchToken

definition isKernelIsaAllocationType :: "AllocationType \<Rightarrow> bool" where
  "isKernelIsaAllocationType t \<longleftrightarrow> t = kernelIsa \<or> t = kernelIsaInternal"

definition isIsaAllocationType :: "AllocationType \<Rightarrow> bool" where
  "isIsaAllocationType t \<longleftrightarrow> isKernelIsaAllocationType t \<or> t = debugModuleArea"

definition selectInternalHeap :: "bool \<Rightarrow> HeapIndex" where
  "selectInternalHeap useLocalMemory = (if useLocalMemory then heapInternalDeviceMemory else heapInternal)"

definition selectExternalHeap :: "bool \<Rightarrow> HeapIndex" where
  "selectExternalHeap useLocalMemory = (if useLocalMemory then heapExternalDeviceMemory else heapExternal)"

definition useInternal32BitHeap :: "AllocationType \<Rightarrow> bool" where
  "useInternal32BitHeap allocType \<longleftrightarrow> isIsaAllocationType allocType \<or> allocType = internalHeap"

definition useExternal32BitHeap :: "bool \<Rightarrow> AllocationType \<Rightarrow> bool" where
  "useExternal32BitHeap apiAllowExternalHeapForSshAndDsh allocType =
     (if apiAllowExternalHeapForSshAndDsh then allocType = linearStream else False)"

definition use32BitHeap :: "bool \<Rightarrow> AllocationType \<Rightarrow> bool" where
  "use32BitHeap apiAllow allocType \<longleftrightarrow> useExternal32BitHeap apiAllow allocType \<or> useInternal32BitHeap allocType"

definition heapTypeExternalWithFrontWindowPool :: "HeapIndex \<Rightarrow> bool" where
  "heapTypeExternalWithFrontWindowPool heap \<longleftrightarrow> heap = heapExternalDeviceMemory \<or> heap = heapExternal"

definition isInternalHeap :: "HeapIndex \<Rightarrow> bool" where
  "isInternalHeap heap \<longleftrightarrow> heap = heapInternalDeviceMemory \<or> heap = heapInternal"

fun mapExternalWindowIndex :: "HeapIndex \<Rightarrow> HeapIndex result" where
  "mapExternalWindowIndex heapExternal = Inr heapExternalFrontWindow"
| "mapExternalWindowIndex heapExternalDeviceMemory = Inr heapExternalDeviceFrontWindow"
| "mapExternalWindowIndex _ = Inl Unrecoverable"

fun mapInternalWindowIndex :: "HeapIndex \<Rightarrow> HeapIndex result" where
  "mapInternalWindowIndex heapInternal = Inr heapInternalFrontWindow"
| "mapInternalWindowIndex heapInternalDeviceMemory = Inr heapInternalDeviceFrontWindow"
| "mapInternalWindowIndex _ = Inl Unrecoverable"

definition get32BitHeapIndex :: "AllocationType \<Rightarrow> bool \<Rightarrow> bool \<Rightarrow> HeapIndex result" where
  "get32BitHeapIndex allocType useLocalMem useFrontWindow =
     (if useInternal32BitHeap allocType
      then if useFrontWindow then mapInternalWindowIndex (selectInternalHeap useLocalMem)
           else Inr (selectInternalHeap useLocalMem)
      else if useFrontWindow then mapExternalWindowIndex (selectExternalHeap useLocalMem)
           else Inr (selectExternalHeap useLocalMem))"

section \<open>The partition\<close>

record GfxPartition =
  heaps :: "HeapIndex \<Rightarrow> Heap"
  reservedForHeapSvm :: ReservedCpuAddressRange
  reservedForHeapExtended :: ReservedCpuAddressRange

definition heap32Names :: "HeapIndex list" where
  "heap32Names = [heapInternalDeviceMemory, heapInternal, heapExternalDeviceMemory, heapExternal]"

definition heapNonSvmNames :: "HeapIndex list" where
  "heapNonSvmNames = [heapInternalDeviceMemory, heapInternal, heapExternalDeviceMemory,
     heapExternal, heapStandard, heapStandard64KB, heapStandard2MB, heapExtended]"

definition setHeap :: "HeapIndex \<Rightarrow> Heap \<Rightarrow> GfxPartition \<Rightarrow> GfxPartition" where
  "setHeap i h g = g\<lparr>heaps := (heaps g)(i := h)\<rparr>"

definition newGfxPartition :: "ReservedCpuAddressRange \<Rightarrow> GfxPartition" where
  "newGfxPartition svmRange =
     \<lparr>heaps = (\<lambda>_. noHeap), reservedForHeapSvm = svmRange, reservedForHeapExtended = noReservedRange\<rparr>"

definition isLimitedRange :: "GfxPartition \<Rightarrow> bool" where
  "isLimitedRange g \<longleftrightarrow> gfxHeapSize (heaps g heapSvm) = 0"

fun isAnyHeap32 :: "HeapIndex \<Rightarrow> bool" where
  "isAnyHeap32 heapInternalDeviceMemory = True"
| "isAnyHeap32 heapInternal = True"
| "isAnyHeap32 heapExternalDeviceMemory = True"
| "isAnyHeap32 heapExternal = True"
| "isAnyHeap32 heapExternalFrontWindow = True"
| "isAnyHeap32 heapExternalDeviceFrontWindow = True"
| "isAnyHeap32 heapInternalFrontWindow = True"
| "isAnyHeap32 heapInternalDeviceFrontWindow = True"
| "isAnyHeap32 _ = False"

text \<open>
  Allocation and release through the partition. Calling them on a heap without an allocator
  dereferences a null pointer: \<open>AbortExecution\<close>. The inner option is the fuel of the retry loop.
\<close>

definition heapAllocateWithCustomAlignment ::
  "nat \<Rightarrow> HeapIndex \<Rightarrow> u64 \<Rightarrow> u64 \<Rightarrow> GfxPartition \<Rightarrow> (u64 \<times> u64 \<times> GfxPartition) option result" where
  "heapAllocateWithCustomAlignment fuel i sz alignment g =
     (case gfxHeapAlloc (heaps g i) of
        None \<Rightarrow> Inl AbortExecution
      | Some a \<Rightarrow>
          (case allocateWithCustomAlignment fuel a sz alignment of
             Inl f \<Rightarrow> Inl f
           | Inr None \<Rightarrow> Inr None
           | Inr (Some (p, t, a')) \<Rightarrow>
               Inr (Some (p, t, setHeap i ((heaps g i)\<lparr>gfxHeapAlloc := Some a'\<rparr>) g))))"

definition heapAllocate ::
  "nat \<Rightarrow> HeapIndex \<Rightarrow> u64 \<Rightarrow> GfxPartition \<Rightarrow> (u64 \<times> u64 \<times> GfxPartition) option result" where
  "heapAllocate fuel i sz g = heapAllocateWithCustomAlignment fuel i sz 0 g"

definition partitionHeapFree :: "HeapIndex \<Rightarrow> u64 \<Rightarrow> u64 \<Rightarrow> GfxPartition \<Rightarrow> GfxPartition result" where
  "partitionHeapFree i p sz g =
     (case gfxHeapAlloc (heaps g i) of
        None \<Rightarrow> Inl AbortExecution
      | Some a \<Rightarrow> Inr (setHeap i ((heaps g i)\<lparr>gfxHeapAlloc := Some (heapFree p sz a)\<rparr>) g))"

fun freeGpuAddressRangeIn ::
  "HeapIndex list \<Rightarrow> u64 \<Rightarrow> u64 \<Rightarrow> GfxPartition \<Rightarrow> GfxPartition result" where
  "freeGpuAddressRangeIn [] p sz g = Inr g"
| "freeGpuAddressRangeIn (i # is) p sz g =
     (if p > gfxHeapBase (heaps g i) \<and> p + sz < heapLimit (heaps g i)
      then partitionHeapFree i p sz g
      else freeGpuAddressRangeIn is p sz g)"

definition freeGpuAddressRange :: "u64 \<Rightarrow> u64 \<Rightarrow> GfxPartition \<Rightarrow> GfxPartition result" where
  "freeGpuAddressRange p sz g = freeGpuAddressRangeIn heapNonSvmNames p sz g"

definition getHeapMinimalAddress :: "HeapIndex \<Rightarrow> GfxPartition \<Rightarrow> u64 result" where
  "getHeapMinimalAddress i g =
     (if i = heapSvm \<or> i = heapExternalDeviceFrontWindow \<or> i = heapExternalFrontWindow \<or>
         i = heapInternalDeviceFrontWindow \<or> i = heapInternalFrontWindow
      then Inr (gfxHeapBase (heaps g i))
      else if i = heapExternal \<or> i = heapExternalDeviceMemory
      then (case mapExternalWindowIndex i of
              Inl f \<Rightarrow> Inl f
            | Inr w \<Rightarrow> if heapLimit (heaps g w) \<noteq> 0
                then Inr (gfxHeapBase (heaps g i) + externalFrontWindowPoolSize)
                else Inr (gfxHeapBase (heaps g i) + heapGranularity))
      else if i = heapInternal \<or> i = heapInternalDeviceMemory
      then Inr (gfxHeapBase (heaps g i) + internalFrontWindowPoolSize)
      else if i = heapStandard2MB then Inr (gfxHeapBase (heaps g i) + heapGranularity2MB)
      else Inr (gfxHeapBase (heaps g i) + heapGranularity))"

section \<open>Reservation of CPU address ranges\<close>

lemma reservation_shrinks:
  assumes "\<not> s < 32 * gigaByte"
  shows "unat (alignDown (of_nat (unat s * 9 div 10)) pageSize64k :: u64) < unat s"
proof -
  have s: "34359738368 \<le> unat s" using assms by (auto simp: word_less_nat_alt)
  then have "unat s * 9 div 10 < unat s" by simp
  moreover from this have "unat (of_nat (unat s * 9 div 10) :: u64) = unat s * 9 div 10"
    by (simp add: unsigned_of_nat take_bit_nat_eq_self less_trans [OF _ unat_lt64])
  ultimately show ?thesis using alignDown_le [of pageSize64k "of_nat (unat s * 9 div 10)"]
    by (simp add: isPow2_def)
qed

text \<open>
  \<open>reservationSize * 0.9\<close> is computed in double precision; for the multiples of 64 KB up to 256 GB
  that occur, the product aligned down to 64 KB is the one of exact arithmetic.
\<close>

function reserveLow48BitRangeWithRetryFrom ::
  "'o OSMemory \<Rightarrow> u64 \<Rightarrow> ReservedCpuAddressRange \<Rightarrow> 'o \<Rightarrow> (ReservedCpuAddressRange \<times> 'o) result" where
  "reserveLow48BitRangeWithRetryFrom os reservationSize r o0 =
     (if reservationSize < 32 * gigaByte then Inr (r, o0)
      else (case reserveCpuAddressRange os 0 reservationSize heapGranularity o0 of
              Inl f \<Rightarrow> Inl f
            | Inr (r, o1) \<Rightarrow>
                if alignedPtr r \<noteq> 0 then Inr (r, o1)
                else reserveLow48BitRangeWithRetryFrom os
                       (alignDown (of_nat (unat reservationSize * 9 div 10)) pageSize64k) r o1))"
  by pat_completeness auto

termination
  by (relation "measure (\<lambda>(os, s, r, o0). unat s)") (auto simp: reservation_shrinks simp del: memory_constants)

definition reserveLow48BitRangeWithRetry ::
  "'o OSMemory \<Rightarrow> ReservedCpuAddressRange \<Rightarrow> 'o \<Rightarrow> (ReservedCpuAddressRange \<times> 'o) result" where
  "reserveLow48BitRangeWithRetry os r o0 = reserveLow48BitRangeWithRetryFrom os (256 * gigaByte) r o0"

text \<open>The search for a hole in the memory maps; the subtraction wraps around.\<close>

fun findReservationBase :: "MappedRegion list \<Rightarrow> u64 \<Rightarrow> u64 \<Rightarrow> u64 \<Rightarrow> u64 \<Rightarrow> u64" where
  "findReservationBase [] areaBase areaTop reservationSize reservationBase = reservationBase"
| "findReservationBase (m # ms) areaBase areaTop reservationSize reservationBase =
     (if \<not> reservationBase < areaTop then reservationBase
      else if regionEnd m < areaBase
      then findReservationBase ms areaBase areaTop reservationSize reservationBase
      else if regionStart m - reservationBase \<ge> reservationSize then reservationBase
      else findReservationBase ms areaBase areaTop reservationSize (regionEnd m))"

definition reserveRangeWithMemoryMapsParse ::
  "'o OSMemory \<Rightarrow> u64 \<Rightarrow> u64 \<Rightarrow> u64 \<Rightarrow> 'o \<Rightarrow> (ReservedCpuAddressRange \<times> 'o) result" where
  "reserveRangeWithMemoryMapsParse os areaBase areaTop reservationSize o0 =
     (case reserveCpuAddressRange os areaBase reservationSize pageSize64k o0 of
        Inl f \<Rightarrow> Inl f
      | Inr (r, o1) \<Rightarrow>
          if alignedPtr r \<noteq> 0 \<and> alignedPtr r \<ge> areaBase \<and> alignedPtr r + reservationSize < areaTop
          then Inr (r, o1)
          else
            let (r, o2) = (if alignedPtr r \<noteq> 0
                           then (r\<lparr>alignedPtr := 0\<rparr>, releaseCpuAddressRange os r o1) else (r, o1));
                reservationBase = findReservationBase (osMemoryMaps os o2) areaBase areaTop
                                    reservationSize areaBase
            in if reservationBase + reservationSize < areaTop
               then reserveCpuAddressRange os reservationBase reservationSize pageSize64k o2
               else Inr (r, o2))"

definition reserveHigh48BitRangeWithMemoryMapsParse ::
  "'o OSMemory \<Rightarrow> 'o \<Rightarrow> (ReservedCpuAddressRange \<times> 'o) result" where
  "reserveHigh48BitRangeWithMemoryMapsParse os o0 =
     reserveRangeWithMemoryMapsParse os (maxNBitValue 47 + 1) (maxNBitValue 48) teraByte o0"

definition reserve57BitRangeWithMemoryMapsParse ::
  "'o OSMemory \<Rightarrow> u64 \<Rightarrow> 'o \<Rightarrow> (ReservedCpuAddressRange \<times> 'o) result" where
  "reserve57BitRangeWithMemoryMapsParse os reservationSize o0 =
     reserveRangeWithMemoryMapsParse os (maxNBitValue 48 + 1) (maxNBitValue 56) reservationSize o0"

text \<open>The destructor: what it returns to the operating system.\<close>

definition destroyGfxPartition :: "'o OSMemory \<Rightarrow> GfxPartition \<Rightarrow> 'o \<Rightarrow> 'o" where
  "destroyGfxPartition os g o0 =
     releaseCpuAddressRange os (reservedForHeapExtended g)
       (releaseCpuAddressRange os (reservedForHeapSvm g) o0)"


section \<open>Initialisation\<close>

text \<open>
  \<open>initAdditionalRange\<close>: the outcome with the values of \<open>gfxBase\<close> and \<open>gfxTop\<close>, which are
  reference parameters.
\<close>

definition initAdditionalRange ::
  "'o OSMemory \<Rightarrow> bool \<Rightarrow> u32 \<Rightarrow> u64 \<Rightarrow> u64 \<Rightarrow> u64 \<Rightarrow> u32 \<Rightarrow> u64 \<Rightarrow> GfxPartition \<Rightarrow> 'o \<Rightarrow>
     (bool \<times> u64 \<times> u64 \<times> GfxPartition \<times> 'o) result" where
  "initAdditionalRange os la57 cpuVirtualAddressSize gpuAddressSpace gfxBase gfxTop
       rootDeviceIndex systemMemorySize g o0 =
     (if cpuVirtualAddressSize \<noteq> 57 \<and> cpuVirtualAddressSize \<noteq> 48
      then Inr (False, gfxBase, gfxTop, g, o0)
      else if gpuAddressSpace \<noteq> maxNBitValue 57 \<and> gpuAddressSpace \<noteq> maxNBitValue 48
      then Inr (False, gfxBase, gfxTop, g, o0)
      else
        let reserve48 = (\<lambda>g o0.
              if alignedPtr (reservedForHeapSvm g) = 0 then
                (case reserveHigh48BitRangeWithMemoryMapsParse os o0 of
                   Inl f \<Rightarrow> Inl f
                 | Inr (r, o1) \<Rightarrow>
                     (case (if alignedPtr r = 0 then reserveLow48BitRangeWithRetry os r o1
                            else Inr (r, o1)) of
                        Inl f \<Rightarrow> Inl f
                      | Inr (r, o2) \<Rightarrow> Inr (g\<lparr>reservedForHeapSvm := r\<rparr>, o2)))
              else Inr (g, o0));
            initExtendedHost = (\<lambda>g o0.
              if gpuAddressSpace = maxNBitValue 57 then
                (case reserve57BitRangeWithMemoryMapsParse os (4 * systemMemorySize) o0 of
                   Inl f \<Rightarrow> Inl f
                 | Inr (r, o1) \<Rightarrow>
                     let g = g\<lparr>reservedForHeapExtended := r\<rparr> in
                     Inr (if alignedPtr r \<noteq> 0
                          then setHeap heapExtendedHost
                                 (heapInit (alignedPtr r) (4 * systemMemorySize) pageSize) g
                          else g, o1))
              else Inr (g, o0));
            initExtended = (\<lambda>g.
              if gpuAddressSpace = maxNBitValue 57 then
                let heapExtendedSize = alignDown (maxNBitValue 48 + 1) heapGranularity in
                setHeap heapExtended
                  (heapInit (maxNBitValue 56 + 1 + ucast rootDeviceIndex * heapExtendedSize)
                     heapExtendedSize pageSize) g
              else g)
        in if cpuVirtualAddressSize = 57 \<and> la57 then
             (case reserve48 g o0 of
                Inl f \<Rightarrow> Inl f
              | Inr (g, o1) \<Rightarrow>
                  if alignedPtr (reservedForHeapSvm g) = 0
                  then Inr (False, gfxBase, gfxTop, g, o1)
                  else
                    let gfxBase = alignedPtr (reservedForHeapSvm g);
                        gfxTop = gfxBase + sizeToReserve (reservedForHeapSvm g);
                        g = setHeap heapSvm (heapInit 0
                              (if gpuAddressSpace = maxNBitValue 57 then maxNBitValue 56 + 1
                               else maxNBitValue 48 + 1) pageSize) g
                    in (case initExtendedHost g o1 of
                          Inl f \<Rightarrow> Inl f
                        | Inr (g, o2) \<Rightarrow> Inr (True, gfxBase, gfxTop, initExtended g, o2)))
           else
             let gfxBase = maxNBitValue 47 + 1;
                 gfxTop = maxNBitValue 48 + 1
             in Inr (True, gfxBase, gfxTop,
                     initExtended (setHeap heapSvm (heapInit 0 gfxBase pageSize) g), o0))"

text \<open>The part of \<open>init\<close> that places the SVM heap and determines \<open>gfxBase\<close> and \<open>gfxTop\<close>.\<close>

definition initSvmRange ::
  "'o OSMemory \<Rightarrow> bool \<Rightarrow> u32 \<Rightarrow> u64 \<Rightarrow> u64 \<Rightarrow> u32 \<Rightarrow> u64 \<Rightarrow> u64 \<Rightarrow> GfxPartition \<Rightarrow> 'o \<Rightarrow>
     (bool \<times> u64 \<times> u64 \<times> GfxPartition \<times> 'o) result" where
  "initSvmRange os la57 cpuVirtualAddressSize gpuAddressSpace cpuAddressRangeSizeToReserve
       rootDeviceIndex systemMemorySize gfxTop g o0 =
     (if cpuVirtualAddressSize = 48 \<and> gpuAddressSpace = maxNBitValue 48 then
        let gfxBase = maxNBitValue 47 + 1
        in Inr (True, gfxBase, gfxTop, setHeap heapSvm (heapInit 0 gfxBase pageSize) g, o0)
      else if gpuAddressSpace = maxNBitValue 47 then
        (case (if alignedPtr (reservedForHeapSvm g) = 0 then
                 if cpuAddressRangeSizeToReserve = 0 then Inr (False, g, o0)
                 else
                   (case reserveCpuAddressRange os 0 cpuAddressRangeSizeToReserve heapGranularity o0 of
                      Inl f \<Rightarrow> Inl f
                    | Inr (r, o1) \<Rightarrow>
                        Inr (originalPtr r \<noteq> 0 \<and> isAlignedStatic heapGranularity (alignedPtr r),
                             g\<lparr>reservedForHeapSvm := r\<rparr>, o1))
               else Inr (True, g, o0)) of
           Inl f \<Rightarrow> Inl f
         | Inr (ok, g, o1) \<Rightarrow>
             if \<not> ok then Inr (False, 0, gfxTop, g, o1)
             else
               let gfxBase = alignedPtr (reservedForHeapSvm g)
               in Inr (True, gfxBase, gfxBase + cpuAddressRangeSizeToReserve,
                       setHeap heapSvm (heapInit 0 (gpuAddressSpace + 1) pageSize) g, o1))
      else if gpuAddressSpace < maxNBitValue 47 then
        Inr (True, 0, gfxTop, setHeap heapSvm (heapInit 0 0 pageSize) g, o0)
      else initAdditionalRange os la57 cpuVirtualAddressSize gpuAddressSpace 0 gfxTop
             rootDeviceIndex systemMemorySize g o0)"

text \<open>
  The loop over the 4 GB heaps. The allocation of the external front window gets three
  iterations of the retry loop; \<open>None\<close> when they are not enough.
\<close>

fun initHeap32 ::
  "HeapIndex list \<Rightarrow> bool \<Rightarrow> u64 \<Rightarrow> GfxPartition \<Rightarrow> (u64 \<times> GfxPartition) option result" where
  "initHeap32 [] useExternalFrontWindowPool gfxBase g = Inr (Some (gfxBase, g))"
| "initHeap32 (heap # names) useExternalFrontWindowPool gfxBase g =
     (let gfxHeap32Size = 4 * gigaByte in
      if useExternalFrontWindowPool \<and> heapTypeExternalWithFrontWindowPool heap then
        let g = setHeap heap (heapInitExternalWithFrontWindow gfxBase gfxHeap32Size) g in
        (case heapAllocate 3 heap externalFrontWindowPoolSize g of
           Inl f \<Rightarrow> Inl f
         | Inr None \<Rightarrow> Inr None
         | Inr (Some (allocation, externalFrontWindowSize, g)) \<Rightarrow>
             (case mapExternalWindowIndex heap of
                Inl f \<Rightarrow> Inl f
              | Inr w \<Rightarrow>
                  initHeap32 names useExternalFrontWindowPool (gfxBase + gfxHeap32Size)
                    (setHeap w (heapInitExternalWithFrontWindow allocation externalFrontWindowSize) g)))
      else if isInternalHeap heap then
        let g = setHeap heap (heapInitWithFrontWindow gfxBase gfxHeap32Size internalFrontWindowPoolSize) g in
        (case mapInternalWindowIndex heap of
           Inl f \<Rightarrow> Inl f
         | Inr w \<Rightarrow>
             initHeap32 names useExternalFrontWindowPool (gfxBase + gfxHeap32Size)
               (setHeap w (heapInitFrontWindow gfxBase internalFrontWindowPoolSize) g))
      else
        initHeap32 names useExternalFrontWindowPool (gfxBase + gfxHeap32Size)
          (setHeap heap (heapInit gfxBase gfxHeap32Size pageSize) g))"

text \<open>The three standard heaps; two of them are split among the root devices.\<close>

definition initStandardHeaps ::
  "u64 \<Rightarrow> u32 \<Rightarrow> u64 \<Rightarrow> u64 \<Rightarrow> u64 \<Rightarrow> GfxPartition \<Rightarrow> GfxPartition" where
  "initStandardHeaps gpuAddressSpace rootDeviceIndex numRootDevices gfxBase gfxTop g =
     (let gfxBase = alignUp gfxBase heapGranularity2MB;
          maxStandardHeapSize = alignDown ((gfxTop - gfxBase) div 3) heapGranularity2MB;
          wide = (gpuAddressSpace = maxNBitValue 57);
          maxStandard64HeapSize = (if wide then maxStandardHeapSize div 2 else maxStandardHeapSize);
          maxStandard2MBHeapSize = (if wide then maxStandardHeapSize div 2 else maxStandardHeapSize);
          maxStandardHeapSize = (if wide then maxStandardHeapSize * 2 else maxStandardHeapSize);
          g = setHeap heapStandard (heapInit gfxBase maxStandardHeapSize pageSize) g;
          gfxBase = gfxBase + maxStandardHeapSize;
          gfxStandard64KBSize = alignDown (maxStandard64HeapSize div numRootDevices) heapGranularity;
          g = setHeap heapStandard64KB
                (heapInit (gfxBase + ucast rootDeviceIndex * gfxStandard64KBSize)
                   gfxStandard64KBSize pageSize64k) g;
          gfxBase = gfxBase + maxStandard64HeapSize;
          gfxStandard2MBSize = alignDown (maxStandard2MBHeapSize div numRootDevices) heapGranularity2MB
      in setHeap heapStandard2MB
           (heapInit (gfxBase + ucast rootDeviceIndex * gfxStandard2MBSize)
              gfxStandard2MBSize (2 * megaByte)) g)"

definition initGfxPartition ::
  "'o OSMemory \<Rightarrow> bool \<Rightarrow> u32 \<Rightarrow> u64 \<Rightarrow> u64 \<Rightarrow> u32 \<Rightarrow> u64 \<Rightarrow> bool \<Rightarrow> u64 \<Rightarrow> u64 \<Rightarrow> GfxPartition \<Rightarrow> 'o \<Rightarrow>
     (bool \<times> GfxPartition \<times> 'o) option result" where
  "initGfxPartition os la57 cpuVirtualAddressSize gpuAddressSpace cpuAddressRangeSizeToReserve
       rootDeviceIndex numRootDevices useExternalFrontWindowPool systemMemorySize gfxTop g o0 =
     (case initSvmRange os la57 cpuVirtualAddressSize gpuAddressSpace cpuAddressRangeSizeToReserve
             rootDeviceIndex systemMemorySize gfxTop g o0 of
        Inl f \<Rightarrow> Inl f
      | Inr (ok, gfxBase, gfxTop, g, o1) \<Rightarrow>
          if \<not> ok then Inr (Some (False, g, o1))
          else
            (case initHeap32 heap32Names useExternalFrontWindowPool gfxBase g of
               Inl f \<Rightarrow> Inl f
             | Inr None \<Rightarrow> Inr None
             | Inr (Some (gfxBase, g)) \<Rightarrow>
                 Inr (Some (True, initStandardHeaps gpuAddressSpace rootDeviceIndex numRootDevices
                              gfxBase gfxTop g, o1))))"

section \<open>Where the heaps lie\<close>

abbreviation G4 :: nat where "G4 \<equiv> 4294967296"

definition heapSpan :: "Heap \<Rightarrow> (nat \<times> nat) option" where
  "heapSpan h = map_option (\<lambda>a. (heapLo a, heapHi a)) (gfxHeapAlloc h)"

text \<open>The heaps in the order of their addresses.\<close>

definition layoutOrder :: "HeapIndex list" where
  "layoutOrder = [heapInternalDeviceFrontWindow, heapInternalDeviceMemory, heapInternalFrontWindow,
     heapInternal, heapExternalDeviceMemory, heapExternal, heapStandard, heapStandard64KB,
     heapStandard2MB]"

lemma granularityFor_simps [simp]:
  "granularityFor 4096 = 65536" "granularityFor 65536 = 65536" "granularityFor 2097152 = 2097152"
  by (simp_all add: granularityFor_def)

lemma granularityFor_cases: "granularityFor al = 65536 \<or> granularityFor al = 2097152"
  by (simp add: granularityFor_def)

lemma heapInit_alloc:
  assumes "2 * unat (granularityFor al) < unat sz"
  shows "gfxHeapAlloc (heapInit b sz al) =
    Some (newHeapAllocatorDefaultThreshold (b + granularityFor al) (sz - 2 * granularityFor al) al)"
    "unat (sz - 2 * granularityFor al) = unat sz - 2 * unat (granularityFor al)"
proof -
  have gg: "unat (2 * granularityFor al) = 2 * unat (granularityFor al)"
    using granularityFor_cases [of al] by (subst unat_mult_nowrap) auto
  then have less: "2 * granularityFor al < sz" using assms(1) by (simp add: word_less_nat_alt)
  show "unat (sz - 2 * granularityFor al) = unat sz - 2 * unat (granularityFor al)"
    using gg assms(1) by (simp add: unat_sub_nowrap)
  show "gfxHeapAlloc (heapInit b sz al) =
      Some (newHeapAllocatorDefaultThreshold (b + granularityFor al) (sz - 2 * granularityFor al) al)"
    using less unfolding heapInit_def Let_def by simp
qed

lemma heapInit_span:
  assumes "unat b + unat sz < 2 ^ 62" "2 * unat (granularityFor al) < unat sz"
  shows "heapSpan (heapInit b sz al) =
    Some (unat b + unat (granularityFor al), unat b + unat sz - unat (granularityFor al))"
proof -
  note a = heapInit_alloc [OF assms(2)]
  have "unat (b + granularityFor al) = unat b + unat (granularityFor al)"
    using assms by (intro unat_add_nowrap) simp
  then show ?thesis using assms(2) a(2) unfolding heapSpan_def a(1)
    by (simp add: newHeapAllocatorDefaultThreshold_def newHeapAllocator_def)
qed

lemma heapInit_inv:
  assumes "unat b + unat sz < 2 ^ 62" "2 * unat (granularityFor al) < unat sz" "isPow2 al"
    and "unat al dvd unat b" "unat al dvd unat sz" "unat al dvd unat (granularityFor al)"
  shows "\<exists>a. gfxHeapAlloc (heapInit b sz al) = Some a \<and> heapInv a {#} \<and>
    allocationAlignment a = al \<and> pLeftBound a = b + granularityFor al"
proof -
  note a = heapInit_alloc [OF assms(2)]
  have bg: "unat (b + granularityFor al) = unat b + unat (granularityFor al)"
    using assms(1,2) by (intro unat_add_nowrap) simp
  then have nz: "b + granularityFor al \<noteq> 0" using granularityFor_cases [of al] by auto
  have "heapInv (newHeapAllocatorDefaultThreshold (b + granularityFor al) (sz - 2 * granularityFor al) al) {#}"
    unfolding newHeapAllocatorDefaultThreshold_def
    by (rule newHeapAllocator_inv) (use nz assms bg a(2) in auto)
  then show ?thesis unfolding a(1)
    by (simp add: newHeapAllocatorDefaultThreshold_def newHeapAllocator_def)
qed

lemma windows_span:
  assumes "unat b + G4 < 2 ^ 62"
  shows "heapSpan (heapInitFrontWindow b internalFrontWindowPoolSize) = Some (unat b, unat b + 1048576)"
    "heapSpan (heapInitWithFrontWindow b (4 * gigaByte) internalFrontWindowPoolSize) =
       Some (unat b + 1048576, unat b + G4 - 65536)"
    "heapSpan (heapInitExternalWithFrontWindow b (4 * gigaByte)) = Some (unat b, unat b + G4 - 65536)"
proof -
  have "unat (b + 1048576) = unat b + 1048576" using assms by (subst unat_add_nowrap) simp_all
  then show "heapSpan (heapInitFrontWindow b internalFrontWindowPoolSize) = Some (unat b, unat b + 1048576)"
    "heapSpan (heapInitWithFrontWindow b (4 * gigaByte) internalFrontWindowPoolSize) =
       Some (unat b + 1048576, unat b + G4 - 65536)"
    "heapSpan (heapInitExternalWithFrontWindow b (4 * gigaByte)) = Some (unat b, unat b + G4 - 65536)"
    by (simp_all add: heapSpan_def heapInitFrontWindow_def heapInitWithFrontWindow_def
        heapInitExternalWithFrontWindow_def newHeapAllocator_def newHeapAllocatorDefaultThreshold_def)
qed

text \<open>The external front window is the start of the external heap, taken out of its free space.\<close>

definition afterFrontWindow :: "u64 \<Rightarrow> HeapAllocator" where
  "afterFrontWindow b = (newHeapAllocator b (4 * gigaByte - heapGranularity) pageSize 0)
     \<lparr>pLeftBound := b + externalFrontWindowPoolSize,
      availableSize := 4 * gigaByte - heapGranularity - externalFrontWindowPoolSize\<rparr>"

lemma frontWindow_attempt:
  assumes "b \<noteq> 0" "4096 dvd unat b" "unat b + G4 < 2 ^ 62"
  shows "allocAttempt (newHeapAllocator b 4294901760 4096 0) 131072 4096 =
    (Some (b, 131072), afterFrontWindow b)"
proof -
  have up: "alignUp b 4096 = b" using assms(2) by (intro alignUp_aligned) (simp_all add: isPow2_def)
  have "unat (b + 131072) = unat b + 131072" "unat (b + 4294901760) = unat b + 4294901760"
    using assms(3) by (subst unat_add_nowrap; simp)+
  then have le: "b + 131072 \<le> b + 4294901760" by (simp add: word_le_nat_alt)
  have "allocFromBounds (newHeapAllocator b 4294901760 4096 0) 131072 4096 =
      (b, (newHeapAllocator b 4294901760 4096 0)\<lparr>pLeftBound := b + 131072\<rparr>)"
    unfolding allocFromBounds_def newHeapAllocator_def Let_def by (simp add: up le)
  then show ?thesis using assms(1)
    by (simp add: allocAttempt_def afterFrontWindow_def newHeapAllocator_def)
qed

lemma frontWindow_allocate:
  assumes "b \<noteq> 0" "4096 dvd unat b" "unat b + G4 < 2 ^ 62"
  shows "allocateWithCustomAlignment 3 (newHeapAllocator b (4 * gigaByte - heapGranularity) pageSize 0)
      externalFrontWindowPoolSize 0 = Inr (Some (b, externalFrontWindowPoolSize, afterFrontWindow b))"
proof -
  have "allocLoop 3 (newHeapAllocator b 4294901760 4096 0) 131072 4096 0 =
      Some (b, 131072, afterFrontWindow b)"
    by (simp add: numeral_3_eq_3 frontWindow_attempt [OF assms])
  moreover have "alignUp 131072 4096 = (131072 :: u64)" by (simp add: alignUp_def)
  ultimately show ?thesis
    by (simp add: allocateWithCustomAlignment_def) (simp add: newHeapAllocator_def)
qed

lemma setHeap_heaps [simp]: "heaps (setHeap i h g) = (heaps g)(i := h)"
  by (simp add: setHeap_def)

lemma setHeap_reserved [simp]:
  "reservedForHeapSvm (setHeap i h g) = reservedForHeapSvm g"
  "reservedForHeapExtended (setHeap i h g) = reservedForHeapExtended g"
  by (simp_all add: setHeap_def)

lemma frontWindow_heapAllocate:
  assumes "b \<noteq> 0" "4096 dvd unat b" "unat b + G4 < 2 ^ 62"
    "heaps g i = heapInitExternalWithFrontWindow b (4 * gigaByte)"
  shows "heapAllocate 3 i externalFrontWindowPoolSize g =
    Inr (Some (b, externalFrontWindowPoolSize,
      setHeap i ((heaps g i)\<lparr>gfxHeapAlloc := Some (afterFrontWindow b)\<rparr>) g))"
  using frontWindow_allocate [OF assms(1-3)]
  by (simp add: heapAllocate_def heapAllocateWithCustomAlignment_def assms(4)
      heapInitExternalWithFrontWindow_def)

definition externalHeap :: "bool \<Rightarrow> u64 \<Rightarrow> Heap" where
  "externalHeap useWindow b =
     (if useWindow
      then (heapInitExternalWithFrontWindow b (4 * gigaByte))\<lparr>gfxHeapAlloc := Some (afterFrontWindow b)\<rparr>
      else heapInit b (4 * gigaByte) pageSize)"

definition externalWindow :: "bool \<Rightarrow> u64 \<Rightarrow> Heap \<Rightarrow> Heap" where
  "externalWindow useWindow b h =
     (if useWindow then heapInitExternalWithFrontWindow b externalFrontWindowPoolSize else h)"

text \<open>What the loop over the 4 GB heaps leaves in the partition.\<close>

lemma initHeap32_layout:
  assumes "unat b + 4 * G4 < 2 ^ 62" "4096 dvd unat b"
  shows "\<exists>g'. initHeap32 heap32Names w b g = Inr (Some (b + 16 * gigaByte, g')) \<and>
    heaps g' heapInternalDeviceMemory = heapInitWithFrontWindow b (4 * gigaByte) internalFrontWindowPoolSize \<and>
    heaps g' heapInternalDeviceFrontWindow = heapInitFrontWindow b internalFrontWindowPoolSize \<and>
    heaps g' heapInternal =
      heapInitWithFrontWindow (b + 4 * gigaByte) (4 * gigaByte) internalFrontWindowPoolSize \<and>
    heaps g' heapInternalFrontWindow = heapInitFrontWindow (b + 4 * gigaByte) internalFrontWindowPoolSize \<and>
    heaps g' heapExternalDeviceMemory = externalHeap w (b + 8 * gigaByte) \<and>
    heaps g' heapExternalDeviceFrontWindow =
      externalWindow w (b + 8 * gigaByte) (heaps g heapExternalDeviceFrontWindow) \<and>
    heaps g' heapExternal = externalHeap w (b + 12 * gigaByte) \<and>
    heaps g' heapExternalFrontWindow =
      externalWindow w (b + 12 * gigaByte) (heaps g heapExternalFrontWindow) \<and>
    heaps g' heapSvm = heaps g heapSvm \<and> heaps g' heapExtended = heaps g heapExtended \<and>
    heaps g' heapExtendedHost = heaps g heapExtendedHost"
proof -
  have ok: "b + 8589934592 \<noteq> 0" "b + 12884901888 \<noteq> 0"
    "unat (b + 8589934592) = unat b + 8589934592" "unat (b + 12884901888) = unat b + 12884901888"
  proof -
    show u: "unat (b + 8589934592) = unat b + 8589934592" "unat (b + 12884901888) = unat b + 12884901888"
      using assms(1) by (subst unat_add_nowrap; simp)+
    show "b + 8589934592 \<noteq> 0" "b + 12884901888 \<noteq> 0" using u by (auto simp: word_unat_eq_iff)
  qed
  have d: "4096 dvd unat (b + 8589934592)" "4096 dvd unat (b + 12884901888)"
    using assms(2) ok(3,4) by (simp_all add: dvd_add)
  have l: "unat (b + 8589934592) + G4 < 2 ^ 62" "unat (b + 12884901888) + G4 < 2 ^ 62"
    using assms(1) ok(3,4) by simp_all
  note A = frontWindow_heapAllocate [OF ok(1) d(1) l(1), of _ heapExternalDeviceMemory]
    and B = frontWindow_heapAllocate [OF ok(2) d(2) l(2), of _ heapExternal]
  show ?thesis
  proof (cases w)
    case True
    then show ?thesis using A B
      by (simp add: heap32Names_def heapTypeExternalWithFrontWindowPool_def isInternalHeap_def Let_def
          add.assoc externalHeap_def externalWindow_def)
  next
    case False
    then show ?thesis
      by (simp add: heap32Names_def heapTypeExternalWithFrontWindowPool_def isInternalHeap_def Let_def
          add.assoc externalHeap_def externalWindow_def)
  qed
qed

lemma externalHeap_span:
  assumes "unat b + G4 < 2 ^ 62"
  shows "\<exists>lo hi. heapSpan (externalHeap w b) = Some (lo, hi) \<and> unat b \<le> lo \<and> lo \<le> hi \<and> hi \<le> unat b + G4 - 65536"
proof (cases w)
  case True
  have "heapSpan (externalHeap w b) = heapSpan (heapInitExternalWithFrontWindow b (4 * gigaByte))"
    using True by (simp add: externalHeap_def heapSpan_def heapInitExternalWithFrontWindow_def
        afterFrontWindow_def newHeapAllocator_def)
  then show ?thesis using windows_span(3) [OF assms] by simp
next
  case False
  have "heapSpan (heapInit b (4 * gigaByte) pageSize) = Some (unat b + 65536, unat b + G4 - 65536)"
    using heapInit_span [of b "4 * gigaByte" pageSize] assms by simp
  then show ?thesis using False by (simp add: externalHeap_def)
qed

text \<open>The sizes of the standard heaps, in the natural numbers.\<close>

definition stdUnit :: "u64 \<Rightarrow> u64 \<Rightarrow> u64" where
  "stdUnit b tp = alignDown ((tp - alignUp b heapGranularity2MB) div 3) heapGranularity2MB"

definition stdSize :: "u64 \<Rightarrow> u64 \<Rightarrow> u64 \<Rightarrow> nat" where
  "stdSize space b tp = (if space = maxNBitValue 57 then 2 else 1) * unat (stdUnit b tp)"

definition splitSize :: "u64 \<Rightarrow> u64 \<Rightarrow> u64 \<Rightarrow> nat" where
  "splitSize space b tp = unat (stdUnit b tp) div (if space = maxNBitValue 57 then 2 else 1)"

definition deviceShare :: "nat \<Rightarrow> nat \<Rightarrow> nat \<Rightarrow> nat" where
  "deviceShare h n g = h div n - h div n mod g"

definition roomFor :: "u64 \<Rightarrow> u64 \<Rightarrow> u64 \<Rightarrow> bool" where
  "roomFor n b tp \<longleftrightarrow> n \<noteq> 0 \<and> unat b + 8388608 + 37748736 * unat n \<le> unat tp \<and> unat tp < 2 ^ 62"

lemma stdUnit_bounds:
  assumes "roomFor n b tp"
  shows "unat b \<le> unat (alignUp b heapGranularity2MB)" "2097152 dvd unat (alignUp b heapGranularity2MB)"
    "2097152 dvd unat (stdUnit b tp)" "12582912 * unat n \<le> unat (stdUnit b tp)"
    "unat (alignUp b heapGranularity2MB) + 3 * unat (stdUnit b tp) \<le> unat tp"
proof -
  have p: "isPow2 (2097152 :: u64)" by (simp add: isPow2_def)
  have r: "unat b + 8388608 + 37748736 * unat n \<le> unat tp" "unat tp < 2 ^ 62"
    using assms by (auto simp: roomFor_def)
  have room: "unat b + (unat (2097152 :: u64) - 1) < 2 ^ 64" using r by simp
  let ?B = "alignUp b 2097152"
  have B: "unat b \<le> unat ?B" "unat ?B < unat b + 2097152" "2097152 dvd unat ?B"
    using alignUp_bounds [OF p room] alignUp_dvd [OF p room] by simp_all
  have d: "unat (tp - ?B) = unat tp - unat ?B" using B r by (simp add: unat_sub_nowrap)
  have u: "unat (stdUnit b tp) = (unat tp - unat ?B) div 3 - (unat tp - unat ?B) div 3 mod 2097152"
    using alignDown_unat [OF p, of "(tp - ?B) div 3"] d by (simp add: stdUnit_def unat_div)
  show "unat b \<le> unat (alignUp b heapGranularity2MB)" "2097152 dvd unat (alignUp b heapGranularity2MB)"
    using B by simp_all
  show "2097152 dvd unat (stdUnit b tp)" unfolding u by simp
  have "(unat tp - unat ?B) div 3 mod 2097152 < 2097152" by simp
  moreover have "12582912 * unat n + 2097152 \<le> (unat tp - unat ?B) div 3" using r B by linarith
  ultimately show "12582912 * unat n \<le> unat (stdUnit b tp)" unfolding u by linarith
  have "3 * ((unat tp - unat ?B) div 3) \<le> unat tp - unat ?B" by simp
  then show "unat (alignUp b heapGranularity2MB) + 3 * unat (stdUnit b tp) \<le> unat tp"
    unfolding u using B r by simp
qed

lemma split_bounds:
  assumes "roomFor n b tp"
  shows "stdSize space b tp + 2 * splitSize space b tp \<le> 3 * unat (stdUnit b tp)"
    "6291456 * unat n \<le> splitSize space b tp" "2097152 dvd stdSize space b tp"
    "12582912 \<le> stdSize space b tp" "1048576 dvd splitSize space b tp"
proof -
  note u = stdUnit_bounds [OF assms]
  have n: "0 < unat n" using assms by (auto simp: roomFor_def unat_gt_0)
  show "stdSize space b tp + 2 * splitSize space b tp \<le> 3 * unat (stdUnit b tp)"
    by (simp add: stdSize_def splitSize_def)
  show "6291456 * unat n \<le> splitSize space b tp" using u(4) by (auto simp: splitSize_def)
  show "2097152 dvd stdSize space b tp" using u(3) by (simp add: stdSize_def)
  show "12582912 \<le> stdSize space b tp" using u(4) n by (auto simp: stdSize_def)
  from u(3) obtain k where "unat (stdUnit b tp) = 2097152 * k" by blast
  then show "1048576 dvd splitSize space b tp" by (simp add: splitSize_def)
qed

lemma deviceShare_bounds:
  assumes "0 < n" "3 * g * n \<le> h" "r < n" "0 < g"
  shows "r * deviceShare h n g + deviceShare h n g \<le> h" "2 * g < deviceShare h n g"
proof -
  have "Suc r * deviceShare h n g \<le> n * (h div n)"
    using assms(3) by (intro mult_le_mono) (simp_all add: deviceShare_def)
  also have "\<dots> \<le> h" by simp
  finally show "r * deviceShare h n g + deviceShare h n g \<le> h" by simp
  have "3 * g \<le> h div n" using assms(1,2) by (simp add: less_eq_div_iff_mult_less_eq)
  then show "2 * g < deviceShare h n g" using mod_less_divisor [OF assms(4), of "h div n"]
    unfolding deviceShare_def by linarith
qed

lemma deviceShare_dvd: "g dvd deviceShare h n g"
  by (simp add: deviceShare_def)

text \<open>The value of \<open>alignDown(size / numRootDevices, granularity)\<close>.\<close>

lemma deviceShare_word:
  assumes "isPow2 g"
  shows "unat (alignDown (sz div n) g :: u64) = deviceShare (unat sz) (unat n) (unat g)"
  using alignDown_unat [OF assms, of "sz div n"] by (simp add: deviceShare_def unat_div)


definition stdBase :: "u64 \<Rightarrow> nat" where
  "stdBase b = unat (alignUp b heapGranularity2MB)"

definition base64KB :: "u64 \<Rightarrow> u64 \<Rightarrow> u64 \<Rightarrow> u64 \<Rightarrow> u32 \<Rightarrow> nat" where
  "base64KB space b tp n r = stdBase b + stdSize space b tp +
     unat r * deviceShare (splitSize space b tp) (unat n) 65536"

definition base2MB :: "u64 \<Rightarrow> u64 \<Rightarrow> u64 \<Rightarrow> u64 \<Rightarrow> u32 \<Rightarrow> nat" where
  "base2MB space b tp n r = stdBase b + stdSize space b tp + splitSize space b tp +
     unat r * deviceShare (splitSize space b tp) (unat n) 2097152"

text \<open>The heap of root device \<open>r\<close> in a region of \<open>splitSize\<close> bytes shared by \<open>n\<close> devices.\<close>

lemma deviceHeap:
  assumes room: "roomFor n b tp" and r: "unat r < unat n"
    and g: "isPow2 g" "0 < unat g" "unat g \<le> 2097152"
    and hw: "unat hw = splitSize space b tp"
    and bs: "unat bs + splitSize space b tp \<le> unat tp"
  defines "q \<equiv> alignDown (hw div n) g"
  shows "unat (bs + ucast (r :: u32) * q) = unat bs + unat r * deviceShare (splitSize space b tp) (unat n) (unat g)"
    "unat q = deviceShare (splitSize space b tp) (unat n) (unat g)"
    "unat (bs + ucast r * q) + unat q \<le> unat bs + splitSize space b tp" "2 * unat g < unat q" "unat g dvd unat q"
proof -
  let ?q = "deviceShare (splitSize space b tp) (unat n) (unat g)"
  show uq: "unat q = ?q" using deviceShare_word [OF g(1), of hw n] hw by (simp add: q_def)
  have n: "0 < unat n" and tp: "unat tp < 2 ^ 62" using room by (auto simp: roomFor_def unat_gt_0)
  have "3 * unat g * unat n \<le> 6291456 * unat n" using g(3) by simp
  also have "\<dots> \<le> splitSize space b tp" using split_bounds(2) [OF room] .
  finally have sz: "3 * unat g * unat n \<le> splitSize space b tp" .
  note d = deviceShare_bounds [OF n sz r g(2)]
  have rq: "unat (ucast r * q :: u64) = unat r * ?q"
  proof -
    have "unat r < 2 ^ LENGTH(32)" by (rule unsigned_less)
    then have "unat (ucast r :: u64) = unat r" by (simp add: unsigned_ucast_eq take_bit_nat_eq_self)
    then show ?thesis using d bs tp uq by (subst unat_mult_nowrap) simp_all
  qed
  then show e: "unat (bs + ucast r * q) = unat bs + unat r * ?q"
    using d bs tp by (subst unat_add_nowrap) simp_all
  show "unat (bs + ucast r * q) + unat q \<le> unat bs + splitSize space b tp" using e uq d by simp
  show "2 * unat g < unat q" using d(2) uq by simp
  show "unat g dvd unat q" using uq deviceShare_dvd by simp
qed


lemma standard_words:
  assumes room: "roomFor n b tp" and r: "unat r < unat n"
  obtains gb S c q c2 q2 where
    "heaps (initStandardHeaps space r n b tp g) = (heaps g)(heapStandard := heapInit gb S 4096,
       heapStandard64KB := heapInit c q 65536, heapStandard2MB := heapInit c2 q2 2097152)"
    "unat gb = stdBase b" "unat S = stdSize space b tp"
    "unat c = base64KB space b tp n r" "unat q = deviceShare (splitSize space b tp) (unat n) 65536"
    "unat c2 = base2MB space b tp n r" "unat q2 = deviceShare (splitSize space b tp) (unat n) 2097152"
    "unat c + unat q \<le> stdBase b + stdSize space b tp + splitSize space b tp"
    "unat c2 + unat q2 \<le> unat tp" "131072 < unat q" "4194304 < unat q2"
    "65536 dvd unat q" "2097152 dvd unat q2" "stdBase b + stdSize space b tp \<le> unat tp"
proof -
  let ?m = "stdUnit b tp" and ?gb = "alignUp b heapGranularity2MB"
  let ?S = "if space = maxNBitValue 57 then ?m * 2 else ?m"
  let ?H = "if space = maxNBitValue 57 then ?m div 2 else ?m"
  note u = stdUnit_bounds [OF room] and sp = split_bounds [OF room, of space]
  have tp: "unat tp < 2 ^ 62" using room by (simp add: roomFor_def)
  have B: "unat ?gb = stdBase b" by (simp add: stdBase_def)
  have "unat (?m * 2) = 2 * unat ?m" using u(5) tp by (subst unat_mult_nowrap) simp_all
  then have S: "unat ?S = stdSize space b tp" by (simp add: stdSize_def)
  have H: "unat ?H = splitSize space b tp" by (simp add: splitSize_def unat_div)
  have bound: "stdBase b + stdSize space b tp + 2 * splitSize space b tp \<le> unat tp"
    using u(5) sp(1) B by linarith
  have b1: "unat (?gb + ?S) = stdBase b + stdSize space b tp"
    using bound tp B S by (subst unat_add_nowrap) simp_all
  have b2: "unat (?gb + ?S + ?H) = stdBase b + stdSize space b tp + splitSize space b tp"
    using bound tp b1 H by (subst unat_add_nowrap) simp_all
  have p: "isPow2 (65536 :: u64)" "isPow2 (2097152 :: u64)" by (simp_all add: isPow2_def)
  have le: "unat (?gb + ?S) + splitSize space b tp \<le> unat tp"
    "unat (?gb + ?S + ?H) + splitSize space b tp \<le> unat tp" unfolding b1 b2 using bound by linarith+
  note D = deviceHeap [OF room r p(1) _ _ H le(1), simplified]
    and D2 = deviceHeap [OF room r p(2) _ _ H le(2), simplified]
  show thesis
  proof (rule that)
    show "heaps (initStandardHeaps space r n b tp g) = (heaps g)(heapStandard := heapInit ?gb ?S 4096,
       heapStandard64KB := heapInit (?gb + ?S + ucast r * alignDown (?H div n) 65536)
         (alignDown (?H div n) 65536) 65536,
       heapStandard2MB := heapInit (?gb + ?S + ?H + ucast r * alignDown (?H div n) 2097152)
         (alignDown (?H div n) 2097152) 2097152)"
      by (simp add: initStandardHeaps_def Let_def stdUnit_def)
  qed (use B S D D2 b1 b2 bound in \<open>simp_all add: base64KB_def base2MB_def\<close>)
qed


text \<open>
  What \<open>init\<close> is given after the SVM range is placed: a page-aligned base, room below the top for
  the 4 GB heaps and for the standard heaps of every root device.
\<close>

definition partitionRoom :: "u64 \<Rightarrow> u64 \<Rightarrow> u64 \<Rightarrow> u32 \<Rightarrow> bool" where
  "partitionRoom b tp n r \<longleftrightarrow> 4096 dvd unat b \<and> unat r < unat n \<and>
     unat b + 17179869184 + 8388608 + 37748736 * unat n \<le> unat tp \<and> unat tp < 2 ^ 62"

lemma partitionRoom_standard:
  assumes "partitionRoom b tp n r"
  shows "roomFor n (b + 16 * gigaByte) tp" "unat (b + 16 * gigaByte) = unat b + 17179869184"
    "unat b + 4 * G4 < 2 ^ 62" "4096 dvd unat b" "unat r < unat n"
proof -
  have a: "unat r < unat n" "unat b + 17179869184 + 8388608 + 37748736 * unat n \<le> unat tp"
    "unat tp < 2 ^ 62" "4096 dvd unat b"
    using assms by (auto simp: partitionRoom_def)
  show u: "unat (b + 16 * gigaByte) = unat b + 17179869184"
    using a by (subst unat_add_nowrap) simp_all
  then show "roomFor n (b + 16 * gigaByte) tp" using a by (auto simp: roomFor_def)
  show "unat b + 4 * G4 < 2 ^ 62" "4096 dvd unat b" "unat r < unat n" using a by auto
qed

lemma initGfxPartition_success:
  assumes svm: "initSvmRange os la57 cpu space reserve r mem tp0 g0 o0 = Inr (True, b, tp, g1, o1)"
    and room: "partitionRoom b tp n r"
  shows "\<exists>g2. initGfxPartition os la57 cpu space reserve r n w mem tp0 g0 o0 =
      Inr (Some (True, initStandardHeaps space r n (b + 16 * gigaByte) tp g2, o1)) \<and>
    initHeap32 heap32Names w b g1 = Inr (Some (b + 16 * gigaByte, g2))"
  using initHeap32_layout [OF partitionRoom_standard(3,4) [OF room], of w g1] svm
  by (auto simp: initGfxPartition_def)

text \<open>The range of addresses a heap occupies, including the parts it never hands out.\<close>

definition heapRange :: "Heap \<Rightarrow> nat \<times> nat" where
  "heapRange h = (unat (gfxHeapBase h), unat (gfxHeapBase h) + unat (gfxHeapSize h))"

lemma heapRange_simps [simp]:
  "heapRange (heapInit b sz al) = (unat b, unat b + unat sz)"
  "heapRange (heapInitWithFrontWindow b sz fw) = (unat b, unat b + unat sz)"
  "heapRange (externalHeap w b) = (unat b, unat b + G4)"
  by (simp_all add: heapRange_def heapInit_def Let_def heapInitWithFrontWindow_def externalHeap_def
      heapInitExternalWithFrontWindow_def)

abbreviation before_span :: "nat \<times> nat \<Rightarrow> nat \<times> nat \<Rightarrow> bool" where
  "before_span s t \<equiv> snd s \<le> fst t"

lemma unat_offsets:
  assumes "unat (b :: u64) + 4 * G4 < 2 ^ 62"
  shows "unat (b + 4 * gigaByte) = unat b + G4" "unat (b + 8 * gigaByte) = unat b + 2 * G4"
    "unat (b + 12 * gigaByte) = unat b + 3 * G4"
  using assms by (subst unat_add_nowrap; simp)+

text \<open>The spans of the heaps, ascending.\<close>

lemma partition_spans:
  fixes space :: u64
  assumes h32: "initHeap32 heap32Names w b g1 = Inr (Some (b + 16 * gigaByte, g2))"
    and room: "partitionRoom b tp n r"
  defines "g \<equiv> initStandardHeaps space r n (b + 16 * gigaByte) tp g2"
  shows "\<exists>spans. map (\<lambda>i. heapSpan (heaps g i)) layoutOrder = map Some spans \<and>
    sorted_wrt before_span spans \<and> (\<forall>s \<in> set spans. unat b \<le> fst s \<and> fst s \<le> snd s \<and> snd s \<le> unat tp)"
proof -
  note P = partitionRoom_standard [OF room]
  note U = unat_offsets [OF P(3)]
  obtain gb S c q c2 q2 where s: "heaps g = (heaps g2)(heapStandard := heapInit gb S 4096,
       heapStandard64KB := heapInit c q 65536, heapStandard2MB := heapInit c2 q2 2097152)"
    and v: "unat gb = stdBase (b + 16 * gigaByte)" "unat S = stdSize space (b + 16 * gigaByte) tp"
      "unat c = base64KB space (b + 16 * gigaByte) tp n r" "unat c2 = base2MB space (b + 16 * gigaByte) tp n r"
    and l: "unat c + unat q \<le> stdBase (b + 16 * gigaByte) + stdSize space (b + 16 * gigaByte) tp +
        splitSize space (b + 16 * gigaByte) tp"
      "unat c2 + unat q2 \<le> unat tp" "131072 < unat q" "4194304 < unat q2"
      "stdBase (b + 16 * gigaByte) + stdSize space (b + 16 * gigaByte) tp \<le> unat tp"
    unfolding g_def by (rule standard_words [OF P(1,5), of space g2]) blast
  have tp: "unat tp < 2 ^ 62" using room by (simp add: partitionRoom_def)
  have S: "12582912 \<le> unat S" using split_bounds(4) [OF P(1)] v(2) by simp
  have B: "unat b + 4 * G4 \<le> unat gb" using stdUnit_bounds(1) [OF P(1)] P(2) v(1) by (simp add: stdBase_def)
  have o: "unat gb + unat S \<le> unat c" "unat c + unat q \<le> unat c2"
    using v l(1) by (simp_all add: base64KB_def base2MB_def)
  obtain e1 e2 where e: "heapSpan (externalHeap w (b + 8 * gigaByte)) = Some e1"
      "unat b + 2 * G4 \<le> fst e1" "fst e1 \<le> snd e1" "snd e1 \<le> unat b + 3 * G4"
    and f: "heapSpan (externalHeap w (b + 12 * gigaByte)) = Some e2"
      "unat b + 3 * G4 \<le> fst e2" "fst e2 \<le> snd e2" "snd e2 \<le> unat b + 4 * G4"
    using externalHeap_span [of "b + 8 * gigaByte" w] externalHeap_span [of "b + 12 * gigaByte" w]
      U P(3) by fastforce
  have std: "heapSpan (heapInit gb S 4096) = Some (unat gb + 65536, unat gb + unat S - 65536)"
    "heapSpan (heapInit c q 65536) = Some (unat c + 65536, unat c + unat q - 65536)"
    "heapSpan (heapInit c2 q2 2097152) = Some (unat c2 + 2097152, unat c2 + unat q2 - 2097152)"
    using heapInit_span [of gb S 4096] heapInit_span [of c q 65536] heapInit_span [of c2 q2 2097152]
      S o l tp by simp_all
  have "unat b + G4 < 2 ^ 62" "unat (b + 4 * gigaByte) + G4 < 2 ^ 62" using P(3) U by simp_all
  note W = windows_span [OF this(1)] windows_span [OF this(2)]
  let ?spans = "[(unat b, unat b + 1048576), (unat b + 1048576, unat b + G4 - 65536),
      (unat b + G4, unat b + G4 + 1048576), (unat b + G4 + 1048576, unat b + 2 * G4 - 65536), e1, e2,
      (unat gb + 65536, unat gb + unat S - 65536), (unat c + 65536, unat c + unat q - 65536),
      (unat c2 + 2097152, unat c2 + unat q2 - 2097152)]"
  obtain g2' where "initHeap32 heap32Names w b g1 = Inr (Some (b + 16 * gigaByte, g2'))" and
    H: "heaps g2' heapInternalDeviceMemory = heapInitWithFrontWindow b (4 * gigaByte) internalFrontWindowPoolSize"
    "heaps g2' heapInternalDeviceFrontWindow = heapInitFrontWindow b internalFrontWindowPoolSize"
    "heaps g2' heapInternal = heapInitWithFrontWindow (b + 4 * gigaByte) (4 * gigaByte) internalFrontWindowPoolSize"
    "heaps g2' heapInternalFrontWindow = heapInitFrontWindow (b + 4 * gigaByte) internalFrontWindowPoolSize"
    "heaps g2' heapExternalDeviceMemory = externalHeap w (b + 8 * gigaByte)"
    "heaps g2' heapExternal = externalHeap w (b + 12 * gigaByte)"
    using initHeap32_layout [OF P(3,4), of w g1] by blast
  then have g2: "g2' = g2" using h32 by simp
  have "map (\<lambda>i. heapSpan (heaps g i)) layoutOrder = map Some ?spans"
    unfolding layoutOrder_def s using H [unfolded g2] e(1) f(1) std W U by simp
  moreover have "sorted_wrt before_span ?spans" using e f o l S B by auto
  moreover have "\<forall>s \<in> set ?spans. unat b \<le> fst s \<and> fst s \<le> snd s \<and> snd s \<le> unat tp"
    using e f o l S B by auto
  ultimately show ?thesis by blast
qed


text \<open>Every heap that clients allocate from starts with a consistent allocator.\<close>

lemma afterFrontWindow_inv:
  assumes "b \<noteq> 0" "4096 dvd unat b" "unat b + G4 < 2 ^ 62"
  shows "heapInv (afterFrontWindow b) {#(b, externalFrontWindowPoolSize)#}"
proof -
  let ?h = "newHeapAllocator b (4 * gigaByte - heapGranularity) pageSize 0"
  have inv: "heapInv ?h {#}"
    by (rule newHeapAllocator_inv) (use assms in \<open>simp_all add: isPow2_def\<close>)
  have "validRequest ?h (externalFrontWindowPoolSize, 0)"
    by (simp add: validRequest_def newHeapAllocator_def)
  from allocate_outcome [OF inv this, of 3] frontWindow_allocate [OF assms] assms(1)
  show ?thesis by (simp add: allocated_def)
qed

lemma initAdditionalRange_frame:
  assumes "initAdditionalRange os la57 cpu space b tp r mem g0 o0 = Inr (ok, b', tp', g1, o1)"
    "i \<notin> {heapSvm, heapExtended, heapExtendedHost}"
  shows "heaps g1 i = heaps g0 i"
  using assms unfolding initAdditionalRange_def Let_def
  by (auto split: if_splits sum.splits prod.splits)

lemma initSvmRange_frame:
  assumes "initSvmRange os la57 cpu space reserve r mem tp0 g0 o0 = Inr (ok, b, tp, g1, o1)"
    "i \<notin> {heapSvm, heapExtended, heapExtendedHost}"
  shows "heaps g1 i = heaps g0 i"
  using assms initAdditionalRange_frame [OF _ assms(2)] unfolding initSvmRange_def Let_def
  by (auto split: if_splits sum.splits prod.splits)

text \<open>An allocator whose lowest free address is \<open>m\<close>.\<close>

definition startsAt :: "Heap \<Rightarrow> u64 \<Rightarrow> bool" where
  "startsAt h m \<longleftrightarrow> (\<exists>a live. gfxHeapAlloc h = Some a \<and> heapInv a live \<and> pLeftBound a = m)"

lemma internalHeap_starts:
  assumes "unat b + G4 < 2 ^ 62" "4096 dvd unat b"
  shows "startsAt (heapInitWithFrontWindow b (4 * gigaByte) internalFrontWindowPoolSize) (b + 1048576)"
proof -
  have u: "unat (b + 1048576) = unat b + 1048576" using assms(1) by (subst unat_add_nowrap) simp_all
  then have nz: "b + 1048576 \<noteq> 0" by (auto simp: word_unat_eq_iff)
  have d: "4096 dvd unat (b + 1048576)" using u assms(2) by (simp add: dvd_add)
  have "heapInv (newHeapAllocatorDefaultThreshold (b + 1048576) 4293853184 4096) {#}"
    unfolding newHeapAllocatorDefaultThreshold_def
    by (rule newHeapAllocator_inv) (use nz u d assms in \<open>simp_all add: isPow2_def\<close>)
  then show ?thesis
    by (auto simp: startsAt_def heapInitWithFrontWindow_def newHeapAllocatorDefaultThreshold_def
        newHeapAllocator_def intro!: exI [of _ "{#}"])
qed

lemma heapInit_starts:
  assumes "unat b + unat sz < 2 ^ 62" "2 * unat (granularityFor al) < unat sz" "isPow2 al"
    and "unat al dvd unat b" "unat al dvd unat sz" "unat al dvd unat (granularityFor al)"
  shows "startsAt (heapInit b sz al) (b + granularityFor al)"
  using heapInit_inv [OF assms] by (auto simp: startsAt_def)

lemma externalHeap_starts:
  assumes "unat b + G4 < 2 ^ 62" "4096 dvd unat b" "b \<noteq> 0"
  shows "startsAt (externalHeap w b) (b + (if w then 131072 else 65536))"
proof (cases w)
  case True
  then show ?thesis using afterFrontWindow_inv [OF assms(3,2,1)]
    by (auto simp: startsAt_def externalHeap_def afterFrontWindow_def)
next
  case False
  have "startsAt (heapInit b (4 * gigaByte) pageSize) (b + granularityFor pageSize)"
    by (rule heapInit_starts) (use assms in \<open>simp_all add: isPow2_def\<close>)
  then show ?thesis using False by (simp add: externalHeap_def)
qed


definition clientHeaps :: "HeapIndex list" where
  "clientHeaps = [heapInternalDeviceMemory, heapInternal, heapExternalDeviceMemory, heapExternal,
     heapStandard, heapStandard64KB, heapStandard2MB]"

text \<open>The heaps of a successfully initialised partition, spelled out.\<close>

lemma partition_heaps:
  fixes space :: u64
  assumes svm: "initSvmRange os la57 cpu space reserve r mem tp0 (newGfxPartition v) o0 = Inr (True, b, tp, g1, o1)"
    and h32: "initHeap32 heap32Names w b g1 = Inr (Some (b + 16 * gigaByte, g2))"
    and room: "partitionRoom b tp n r"
  defines "g \<equiv> initStandardHeaps space r n (b + 16 * gigaByte) tp g2"
  obtains gb S c q c2 q2 where
    "map (heaps g) clientHeaps = [heapInitWithFrontWindow b (4 * gigaByte) internalFrontWindowPoolSize,
       heapInitWithFrontWindow (b + 4 * gigaByte) (4 * gigaByte) internalFrontWindowPoolSize,
       externalHeap w (b + 8 * gigaByte), externalHeap w (b + 12 * gigaByte),
       heapInit gb S 4096, heapInit c q 65536, heapInit c2 q2 2097152]"
    "heaps g heapExternalDeviceFrontWindow = externalWindow w (b + 8 * gigaByte) noHeap"
    "heaps g heapExternalFrontWindow = externalWindow w (b + 12 * gigaByte) noHeap"
    "unat b + 4 * G4 \<le> unat gb" "unat gb + unat S \<le> unat c" "unat c + unat q \<le> unat c2"
    "unat c2 + unat q2 \<le> unat tp" "131072 < unat S" "131072 < unat q" "4194304 < unat q2"
    "2097152 dvd unat gb" "2097152 dvd unat S" "65536 dvd unat c" "65536 dvd unat q" "2097152 dvd unat q2"
    "2097152 dvd splitSize space (b + 16 * gigaByte) tp \<longrightarrow> 2097152 dvd unat c2"
proof -
  note P = partitionRoom_standard [OF room]
  let ?b = "b + 16 * gigaByte"
  obtain gb S c q c2 q2 where s: "heaps g = (heaps g2)(heapStandard := heapInit gb S 4096,
       heapStandard64KB := heapInit c q 65536, heapStandard2MB := heapInit c2 q2 2097152)"
    and v: "unat gb = stdBase ?b" "unat S = stdSize space ?b tp" "unat c = base64KB space ?b tp n r"
      "unat q = deviceShare (splitSize space ?b tp) (unat n) 65536"
      "unat c2 = base2MB space ?b tp n r"
      "unat q2 = deviceShare (splitSize space ?b tp) (unat n) 2097152"
    and l: "unat c + unat q \<le> stdBase ?b + stdSize space ?b tp + splitSize space ?b tp"
      "unat c2 + unat q2 \<le> unat tp" "131072 < unat q" "4194304 < unat q2" "65536 dvd unat q" "2097152 dvd unat q2"
    unfolding g_def by (rule standard_words [OF P(1,5), of space g2]) blast
  obtain g2' where "initHeap32 heap32Names w b g1 = Inr (Some (b + 16 * gigaByte, g2'))" and
    H: "heaps g2' heapInternalDeviceMemory = heapInitWithFrontWindow b (4 * gigaByte) internalFrontWindowPoolSize"
    "heaps g2' heapInternal = heapInitWithFrontWindow (b + 4 * gigaByte) (4 * gigaByte) internalFrontWindowPoolSize"
    "heaps g2' heapExternalDeviceMemory = externalHeap w (b + 8 * gigaByte)"
    "heaps g2' heapExternal = externalHeap w (b + 12 * gigaByte)"
    "heaps g2' heapExternalDeviceFrontWindow = externalWindow w (b + 8 * gigaByte) (heaps g1 heapExternalDeviceFrontWindow)"
    "heaps g2' heapExternalFrontWindow = externalWindow w (b + 12 * gigaByte) (heaps g1 heapExternalFrontWindow)"
    using initHeap32_layout [OF P(3,4), of w g1] by blast
  then have g2: "g2' = g2" using h32 by simp
  have n: "heaps g1 heapExternalDeviceFrontWindow = noHeap" "heaps g1 heapExternalFrontWindow = noHeap"
    using initSvmRange_frame [OF svm] by (simp_all add: newGfxPartition_def)
  note sp = split_bounds [OF P(1), of space] and u = stdUnit_bounds [OF P(1)]
  have B: "2097152 dvd stdBase ?b" "unat b + 4 * G4 \<le> stdBase ?b" using u P(2) by (simp_all add: stdBase_def)
  have d: "65536 dvd (2097152 :: nat)" by simp
  show thesis
  proof (rule that)
    show "map (heaps g) clientHeaps = [heapInitWithFrontWindow b (4 * gigaByte) internalFrontWindowPoolSize,
       heapInitWithFrontWindow (b + 4 * gigaByte) (4 * gigaByte) internalFrontWindowPoolSize,
       externalHeap w (b + 8 * gigaByte), externalHeap w (b + 12 * gigaByte),
       heapInit gb S 4096, heapInit c q 65536, heapInit c2 q2 2097152]"
      using H [unfolded g2] by (simp add: clientHeaps_def s)
    show "heaps g heapExternalDeviceFrontWindow = externalWindow w (b + 8 * gigaByte) noHeap"
      "heaps g heapExternalFrontWindow = externalWindow w (b + 12 * gigaByte) noHeap"
      using H(5,6) [unfolded g2] n by (simp_all add: s)
    show "65536 dvd unat c"
      unfolding v base64KB_def
      by (intro dvd_add dvd_trans [OF d B(1)] dvd_trans [OF d sp(3)] dvd_mult deviceShare_dvd)
    show "2097152 dvd splitSize space ?b tp \<longrightarrow> 2097152 dvd unat c2"
      unfolding v base2MB_def by (intro impI dvd_add B sp(3) dvd_mult deviceShare_dvd)
  qed (use v l sp B in \<open>simp_all add: base64KB_def base2MB_def\<close>)
qed

lemma clientHeaps_starts:
  fixes space :: u64
  assumes svm: "initSvmRange os la57 cpu space reserve r mem tp0 (newGfxPartition v) o0 = Inr (True, b, tp, g1, o1)"
    and h32: "initHeap32 heap32Names w b g1 = Inr (Some (b + 16 * gigaByte, g2))"
    and room: "partitionRoom b tp n r" and i: "i \<in> set clientHeaps"
    and al: "i = heapStandard2MB \<Longrightarrow> 2097152 dvd splitSize space (b + 16 * gigaByte) tp"
  defines "g \<equiv> initStandardHeaps space r n (b + 16 * gigaByte) tp g2"
  shows "\<exists>m. startsAt (heaps g i) m \<and> getHeapMinimalAddress i g = Inr m"
proof -
  obtain gb S c q c2 q2 where
    H: "map (heaps g) clientHeaps = [heapInitWithFrontWindow b (4 * gigaByte) internalFrontWindowPoolSize,
       heapInitWithFrontWindow (b + 4 * gigaByte) (4 * gigaByte) internalFrontWindowPoolSize,
       externalHeap w (b + 8 * gigaByte), externalHeap w (b + 12 * gigaByte),
       heapInit gb S 4096, heapInit c q 65536, heapInit c2 q2 2097152]"
    and W: "heaps g heapExternalDeviceFrontWindow = externalWindow w (b + 8 * gigaByte) noHeap"
      "heaps g heapExternalFrontWindow = externalWindow w (b + 12 * gigaByte) noHeap"
    and o: "unat b + 4 * G4 \<le> unat gb" "unat gb + unat S \<le> unat c" "unat c + unat q \<le> unat c2"
      "unat c2 + unat q2 \<le> unat tp" "131072 < unat S" "131072 < unat q" "4194304 < unat q2"
    and d: "2097152 dvd unat gb" "2097152 dvd unat S" "65536 dvd unat c" "65536 dvd unat q" "2097152 dvd unat q2"
      "2097152 dvd splitSize space (b + 16 * gigaByte) tp \<longrightarrow> 2097152 dvd unat c2"
    by (rule partition_heaps [OF svm h32 room, folded g_def], rule that)
  note P = partitionRoom_standard [OF room]
  note U = unat_offsets [OF P(3)]
  have tp: "unat tp < 2 ^ 62" using room by (simp add: partitionRoom_def)
  have ofs: "4096 dvd unat (b + 4 * gigaByte)" "4096 dvd unat (b + 8 * gigaByte)" "4096 dvd unat (b + 12 * gigaByte)"
    using P(4) unfolding U by (simp_all add: dvd_add)
  have nz: "b + 8 * gigaByte \<noteq> 0" "b + 12 * gigaByte \<noteq> 0" using U(2,3) by (auto simp: word_unat_eq_iff)
  have lim: "unat b + G4 < 2 ^ 62" "unat (b + 4 * gigaByte) + G4 < 2 ^ 62"
    "unat (b + 8 * gigaByte) + G4 < 2 ^ 62" "unat (b + 12 * gigaByte) + G4 < 2 ^ 62"
    using P(3) unfolding U by simp_all
  have p: "isPow2 (65536 :: u64)" "isPow2 (2097152 :: u64)" "isPow2 (4096 :: u64)" by (simp_all add: isPow2_def)
  have d4: "4096 dvd unat gb" "4096 dvd unat S" using d(1,2) by (auto intro: dvd_trans [of 4096 2097152])
  have std: "startsAt (heapInit gb S 4096) (gb + 65536)" "startsAt (heapInit c q 65536) (c + 65536)"
    "2097152 dvd splitSize space (b + 16 * gigaByte) tp \<Longrightarrow> startsAt (heapInit c2 q2 2097152) (c2 + 2097152)"
    using heapInit_starts [of gb S 4096] heapInit_starts [of c q 65536] heapInit_starts [of c2 q2 2097152]
      p d d4 o tp by simp_all
  have win: "heapLimit (externalWindow w x noHeap) \<noteq> 0 \<longleftrightarrow> w" if "unat x + G4 < 2 ^ 62" for x
  proof -
    have "unat (x + 131071) = unat x + 131071" using that by (subst unat_add_nowrap) simp_all
    then have "131071 + x \<noteq> 0" by (auto simp: word_unat_eq_iff add.commute)
    then show ?thesis
      by (simp add: externalWindow_def heapLimit_def heapInitExternalWithFrontWindow_def noHeap_def add.assoc)
  qed
  have base: "gfxHeapBase (heapInitWithFrontWindow x s f) = x" "gfxHeapBase (externalHeap u x) = x"
    "gfxHeapBase (heapInit x s f) = x" for x s f u
    by (simp_all add: heapInitWithFrontWindow_def externalHeap_def heapInitExternalWithFrontWindow_def
        heapInit_def Let_def)
  have ext: "startsAt (externalHeap w (b + 8 * gigaByte)) (b + 8 * gigaByte + (if w then 131072 else 65536))"
    "startsAt (externalHeap w (b + 12 * gigaByte)) (b + 12 * gigaByte + (if w then 131072 else 65536))"
    using externalHeap_starts lim ofs nz by blast+
  note int = internalHeap_starts [OF lim(1) P(4)] internalHeap_starts [OF lim(2) ofs(1)]
  consider "i = heapInternalDeviceMemory" | "i = heapInternal" | "i = heapExternalDeviceMemory"
    | "i = heapExternal" | "i = heapStandard" | "i = heapStandard64KB" | "i = heapStandard2MB"
    using i by (auto simp: clientHeaps_def)
  then show ?thesis
    using H std int ext al win [OF lim(3)] win [OF lim(4)] W
    by cases (auto simp: clientHeaps_def getHeapMinimalAddress_def base split: if_splits)
qed


text \<open>The range of a heap, and that the ranges of the client heaps ascend.\<close>

lemma clientHeaps_ranges:
  fixes space :: u64
  assumes svm: "initSvmRange os la57 cpu space reserve r mem tp0 (newGfxPartition v) o0 = Inr (True, b, tp, g1, o1)"
    and h32: "initHeap32 heap32Names w b g1 = Inr (Some (b + 16 * gigaByte, g2))"
    and room: "partitionRoom b tp n r"
  defines "g \<equiv> initStandardHeaps space r n (b + 16 * gigaByte) tp g2"
  shows "sorted_wrt before_span (map (\<lambda>i. heapRange (heaps g i)) clientHeaps) \<and>
    (\<forall>i \<in> set clientHeaps. snd (heapRange (heaps g i)) \<le> unat tp \<and> 0 < gfxHeapSize (heaps g i))"
proof -
  obtain gb S c q c2 q2 where
    H: "map (heaps g) clientHeaps = [heapInitWithFrontWindow b (4 * gigaByte) internalFrontWindowPoolSize,
       heapInitWithFrontWindow (b + 4 * gigaByte) (4 * gigaByte) internalFrontWindowPoolSize,
       externalHeap w (b + 8 * gigaByte), externalHeap w (b + 12 * gigaByte),
       heapInit gb S 4096, heapInit c q 65536, heapInit c2 q2 2097152]"
    and o: "unat b + 4 * G4 \<le> unat gb" "unat gb + unat S \<le> unat c" "unat c + unat q \<le> unat c2"
      "unat c2 + unat q2 \<le> unat tp" "131072 < unat S" "131072 < unat q" "4194304 < unat q2"
    by (rule partition_heaps [OF svm h32 room, folded g_def], rule that)
  note U = unat_offsets [OF partitionRoom_standard(3) [OF room]]
  have "map heapRange (map (heaps g) clientHeaps) = [(unat b, unat b + G4), (unat b + G4, unat b + 2 * G4),
      (unat b + 2 * G4, unat b + 3 * G4), (unat b + 3 * G4, unat b + 4 * G4),
      (unat gb, unat gb + unat S), (unat c, unat c + unat q), (unat c2, unat c2 + unat q2)]"
    unfolding H using U by simp
  then have R: "map (\<lambda>i. heapRange (heaps g i)) clientHeaps = [(unat b, unat b + G4), (unat b + G4, unat b + 2 * G4),
      (unat b + 2 * G4, unat b + 3 * G4), (unat b + 3 * G4, unat b + 4 * G4),
      (unat gb, unat gb + unat S), (unat c, unat c + unat q), (unat c2, unat c2 + unat q2)]"
    by (simp add: comp_def)
  have "\<forall>i \<in> set clientHeaps. snd (heapRange (heaps g i)) \<le> unat tp \<and> 0 < unat (gfxHeapSize (heaps g i))"
    using R o by (auto simp: clientHeaps_def heapRange_def)
  then show ?thesis unfolding R using o by (auto simp: word_less_nat_alt)
qed

text \<open>\<open>freeGpuAddressRange\<close> stops at the first heap whose range contains the block.\<close>

lemma heapLimit_unat:
  assumes "snd (heapRange h) < 2 ^ 62" "0 < gfxHeapSize h"
  shows "unat (heapLimit h) = snd (heapRange h) - 1"
proof -
  have "0 < unat (gfxHeapSize h)" using assms(2) by (simp add: word_less_nat_alt)
  moreover have "unat (gfxHeapBase h + gfxHeapSize h) = unat (gfxHeapBase h) + unat (gfxHeapSize h)"
    using assms(1) by (intro unat_add_nowrap) (simp add: heapRange_def)
  ultimately show ?thesis using assms(2)
    by (auto simp: heapLimit_def heapRange_def unat_sub_nowrap)
qed

lemma freeGpuAddressRangeIn_finds:
  assumes "sorted_wrt before_span (map (\<lambda>i. heapRange (heaps g i)) is)"
    and "\<forall>i \<in> set is. snd (heapRange (heaps g i)) \<le> tp \<and> 0 < gfxHeapSize (heaps g i)" "tp < 2 ^ 62"
    and "i \<in> set is" "fst (heapRange (heaps g i)) < unat p"
    and "unat p + unat sz < snd (heapRange (heaps g i)) - 1"
  shows "freeGpuAddressRangeIn (is @ rest) p sz g = partitionHeapFree i p sz g"
  using assms
proof (induction "is")
  case (Cons j js)
  have e: "unat (p + sz) = unat p + unat sz"
    using Cons.prems(2-6) by (intro unat_add_nowrap) (auto dest!: bspec)
  have lim: "unat (heapLimit (heaps g k)) = snd (heapRange (heaps g k)) - 1" if "k \<in> set (j # js)" for k
    using Cons.prems(2,3) that by (intro heapLimit_unat) auto
  show ?case
  proof (cases "i = j")
    case True
    then show ?thesis using Cons.prems(5,6) lim [of j] e
      by (simp add: word_less_nat_alt heapRange_def)
  next
    case False
    then have "i \<in> set js" using Cons.prems(4) by simp
    then have "snd (heapRange (heaps g j)) \<le> fst (heapRange (heaps g i))" using Cons.prems(1) by auto
    then have "\<not> p + sz < heapLimit (heaps g j)"
      using Cons.prems(5) lim [of j] e by (auto simp: word_less_nat_alt)
    then show ?thesis using Cons \<open>i \<in> set js\<close> by simp
  qed
qed simp

section \<open>Properties\<close>

text \<open>
  C3: when the SVM range can be placed and there is room below the top, \<open>init\<close> succeeds and the
  ranges its heaps hand out are pairwise disjoint, in the fixed ascending order, and lie between
  the base and the top of the partition.
\<close>

theorem gfx_heaps_apart:
  assumes "initSvmRange os la57 cpu space reserve r mem tp0 g0 o0 = Inr (True, b, tp, g1, o1)"
    and "partitionRoom b tp n r"
  shows "\<exists>g spans. initGfxPartition os la57 cpu space reserve r n w mem tp0 g0 o0 = Inr (Some (True, g, o1)) \<and>
    map (\<lambda>i. heapSpan (heaps g i)) layoutOrder = map Some spans \<and>
    sorted_wrt (\<lambda>s t. snd s \<le> fst t) spans \<and>
    (\<forall>s \<in> set spans. unat b \<le> fst s \<and> fst s \<le> snd s \<and> snd s \<le> unat tp)"
  using initGfxPartition_success [OF assms, of w] partition_spans [OF _ assms(2)] by metis

definition silentOs :: "unit OSMemory" where
  "silentOs = \<lparr>osReserve = (\<lambda>_ _ u. (0, u)), osRelease = (\<lambda>_ _ u. u), osMemoryMaps = (\<lambda>_. [])\<rparr>"

lemma full_range_48:
  "initSvmRange silentOs False 48 (maxNBitValue 48) 0 0 0 0x1000000000000 (newGfxPartition noReservedRange) () =
     Inr (True, 0x800000000000, 0x1000000000000,
       setHeap heapSvm (heapInit 0 0x800000000000 4096) (newGfxPartition noReservedRange), ())"
  by (simp add: initSvmRange_def Let_def maxNBitValue_def push_bit_eq_mult)

lemma full_range_room: "partitionRoom 0x800000000000 0x1000000000000 2 1"
  by (simp add: partitionRoom_def)

theorem gfx_heaps_apart_witness:
  "\<exists>g spans. initGfxPartition silentOs False 48 (maxNBitValue 48) 0 1 2 True 0 0x1000000000000
     (newGfxPartition noReservedRange) () = Inr (Some (True, g, ())) \<and>
   map (\<lambda>i. heapSpan (heaps g i)) layoutOrder = map Some spans \<and>
   sorted_wrt (\<lambda>s t. snd s \<le> fst t) spans"
proof -
  have "initSvmRange silentOs False 48 (maxNBitValue 48) 0 1 0 0x1000000000000 (newGfxPartition noReservedRange) () =
     Inr (True, 0x800000000000, 0x1000000000000,
       setHeap heapSvm (heapInit 0 0x800000000000 4096) (newGfxPartition noReservedRange), ())"
    using full_range_48 by (simp add: initSvmRange_def maxNBitValue_def push_bit_eq_mult)
  from gfx_heaps_apart [OF this full_range_room, of True] show ?thesis by blast
qed

text \<open>
  C19: after \<open>init\<close> every heap the driver allocates from has an allocator in a consistent state, so
  the guarantees of \<open>HeapAllocator\<close> apply to it, and \<open>getHeapMinimalAddress\<close> returns the lowest
  address that allocator can hand out. The 2 MB heap is included only when the GPU address space is not 57 bits wide: it needs
  its share of the address space to be a multiple of 2 MB (\<open>standard2MB_base_misaligned\<close> shows a 57-bit space where it is not).
\<close>

theorem gfx_heaps_consistent:
  assumes svm: "initSvmRange os la57 cpu space reserve r mem tp0 (newGfxPartition v) o0 = Inr (True, b, tp, g1, o1)"
    and room: "partitionRoom b tp n r"
    and init: "initGfxPartition os la57 cpu space reserve r n w mem tp0 (newGfxPartition v) o0 = Inr (Some (True, g, o1))"
    and i: "i \<in> set clientHeaps" and al: "i = heapStandard2MB \<Longrightarrow> space \<noteq> maxNBitValue 57"
  shows "\<exists>a live. gfxHeapAlloc (heaps g i) = Some a \<and> heapInv a live \<and>
    getHeapMinimalAddress i g = Inr (pLeftBound a)"
proof -
  obtain g2 where g2: "g = initStandardHeaps space r n (b + 16 * gigaByte) tp g2"
    "initHeap32 heap32Names w b g1 = Inr (Some (b + 16 * gigaByte, g2))"
    using initGfxPartition_success [OF svm room, of w] init by auto
  have "2097152 dvd splitSize space (b + 16 * gigaByte) tp" if "i = heapStandard2MB"
    using al [OF that] stdUnit_bounds(3) [OF partitionRoom_standard(1) [OF room]]
    by (simp add: splitSize_def)
  from clientHeaps_starts [OF svm g2(2) room i this] show ?thesis
    unfolding g2(1) startsAt_def by blast
qed

theorem gfx_heaps_consistent_witness:
  "\<exists>g a live. initGfxPartition silentOs False 48 (maxNBitValue 48) 0 0 2 True 0 0x1000000000000
     (newGfxPartition noReservedRange) () = Inr (Some (True, g, ())) \<and>
   gfxHeapAlloc (heaps g heapExternal) = Some a \<and> heapInv a live"
proof -
  have room: "partitionRoom 0x800000000000 0x1000000000000 2 0" by (simp add: partitionRoom_def)
  from initGfxPartition_success [OF full_range_48 room, of True] obtain g where
    g: "initGfxPartition silentOs False 48 (maxNBitValue 48) 0 0 2 True 0 0x1000000000000
       (newGfxPartition noReservedRange) () = Inr (Some (True, g, ()))" by blast
  from gfx_heaps_consistent [OF full_range_48 room g, of heapExternal]
  show ?thesis using g by (auto simp: clientHeaps_def)
qed

text \<open>
  C20: root devices that share the address space get disjoint 64 KB and 2 MB heaps: initialised with
  the same parameters but different indices, the ranges of their heaps do not meet.
\<close>

theorem root_device_heaps_apart:
  assumes svm: "initSvmRange os la57 cpu space reserve r mem tp0 (newGfxPartition v) o0 = Inr (True, b, tp, g1, o1)"
    and svm': "initSvmRange os la57 cpu space reserve r' mem tp0 (newGfxPartition v') o0' = Inr (True, b, tp, g1', o1')"
    and room: "partitionRoom b tp n r" "partitionRoom b tp n r'" and less: "unat r < unat r'"
    and init: "initGfxPartition os la57 cpu space reserve r n w mem tp0 (newGfxPartition v) o0 = Inr (Some (True, g, o1))"
      "initGfxPartition os la57 cpu space reserve r' n w mem tp0 (newGfxPartition v') o0' = Inr (Some (True, g', o1'))"
    and i: "i = heapStandard64KB \<or> i = heapStandard2MB"
  shows "snd (heapRange (heaps g i)) \<le> fst (heapRange (heaps g' i))"
proof -
  let ?b = "b + 16 * gigaByte"
  obtain g2 g2' where g: "g = initStandardHeaps space r n ?b tp g2" "g' = initStandardHeaps space r' n ?b tp g2'"
    using initGfxPartition_success [OF svm room(1), of w] initGfxPartition_success [OF svm' room(2), of w] init
    by auto
  note P = partitionRoom_standard [OF room(1)] partitionRoom_standard(5) [OF room(2)]
  obtain gb S c q c2 q2 where 1: "heaps g = (heaps g2)(heapStandard := heapInit gb S 4096,
       heapStandard64KB := heapInit c q 65536, heapStandard2MB := heapInit c2 q2 2097152)"
    "unat c = base64KB space ?b tp n r" "unat q = deviceShare (splitSize space ?b tp) (unat n) 65536"
    "unat c2 = base2MB space ?b tp n r" "unat q2 = deviceShare (splitSize space ?b tp) (unat n) 2097152"
    unfolding g by (rule standard_words [OF P(1,5), of space g2]) blast
  obtain gb' S' c' q' c2' q2' where 2: "heaps g' = (heaps g2')(heapStandard := heapInit gb' S' 4096,
       heapStandard64KB := heapInit c' q' 65536, heapStandard2MB := heapInit c2' q2' 2097152)"
    "unat c' = base64KB space ?b tp n r'" "unat c2' = base2MB space ?b tp n r'"
    unfolding g by (rule standard_words [OF P(1,6), of space g2']) blast
  have m: "unat r * d + d \<le> unat r' * d" for d
    using mult_le_mono1 [OF Suc_leI [OF less], of d] by simp
  show ?thesis using i 1 2 m by (auto simp: base64KB_def base2MB_def)
qed


theorem root_device_heaps_apart_witness:
  "\<exists>g g'. initGfxPartition silentOs False 48 (maxNBitValue 48) 0 0 2 True 0 0x1000000000000
     (newGfxPartition noReservedRange) () = Inr (Some (True, g, ())) \<and>
   initGfxPartition silentOs False 48 (maxNBitValue 48) 0 1 2 True 0 0x1000000000000
     (newGfxPartition noReservedRange) () = Inr (Some (True, g', ())) \<and>
   snd (heapRange (heaps g heapStandard64KB)) \<le> fst (heapRange (heaps g' heapStandard64KB))"
proof -
  let ?g1 = "setHeap heapSvm (heapInit 0 0x800000000000 4096) (newGfxPartition noReservedRange)"
  have svm: "initSvmRange silentOs False 48 (maxNBitValue 48) 0 r 0 0x1000000000000
      (newGfxPartition noReservedRange) () = Inr (True, 0x800000000000, 0x1000000000000, ?g1, ())" for r
    using full_range_48 by (simp add: initSvmRange_def maxNBitValue_def push_bit_eq_mult)
  have room: "partitionRoom 0x800000000000 0x1000000000000 2 0" "partitionRoom 0x800000000000 0x1000000000000 2 1"
    by (simp_all add: partitionRoom_def)
  obtain g g' where g:
    "initGfxPartition silentOs False 48 (maxNBitValue 48) 0 0 2 True 0 0x1000000000000
       (newGfxPartition noReservedRange) () = Inr (Some (True, g, ()))"
    "initGfxPartition silentOs False 48 (maxNBitValue 48) 0 1 2 True 0 0x1000000000000
       (newGfxPartition noReservedRange) () = Inr (Some (True, g', ()))"
    using initGfxPartition_success [OF svm room(1), of True] initGfxPartition_success [OF svm room(2), of True]
    by blast
  from root_device_heaps_apart [OF svm svm room _ g, of heapStandard64KB] show ?thesis using g by auto
qed

text \<open>
  \<open>freeGpuAddressRange\<close> returns a block to the heap it came from: for a block strictly inside
  the range of a client heap of an initialised partition it is the release on that heap.
\<close>

theorem freeGpuAddressRange_dispatch:
  assumes svm: "initSvmRange os la57 cpu space reserve r mem tp0 (newGfxPartition v) o0 = Inr (True, b, tp, g1, o1)"
    and room: "partitionRoom b tp n r"
    and init: "initGfxPartition os la57 cpu space reserve r n w mem tp0 (newGfxPartition v) o0 = Inr (Some (True, g, o1))"
    and i: "i \<in> set clientHeaps"
    and p: "fst (heapRange (heaps g i)) < unat p" "unat p + unat sz < snd (heapRange (heaps g i)) - 1"
  shows "freeGpuAddressRange p sz g = partitionHeapFree i p sz g"
proof -
  obtain g2 where g2: "g = initStandardHeaps space r n (b + 16 * gigaByte) tp g2"
    "initHeap32 heap32Names w b g1 = Inr (Some (b + 16 * gigaByte, g2))"
    using initGfxPartition_success [OF svm room, of w] init by auto
  have R: "sorted_wrt before_span (map (\<lambda>i. heapRange (heaps g i)) clientHeaps)"
    "\<forall>i \<in> set clientHeaps. snd (heapRange (heaps g i)) \<le> unat tp \<and> 0 < gfxHeapSize (heaps g i)"
    using clientHeaps_ranges [OF svm g2(2) room] unfolding g2(1) by blast+
  have "unat tp < 2 ^ 62" using room by (simp add: partitionRoom_def)
  from freeGpuAddressRangeIn_finds [OF R this i p, of "[heapExtended]"] show ?thesis
    by (simp add: freeGpuAddressRange_def heapNonSvmNames_def clientHeaps_def)
qed

theorem freeGpuAddressRange_dispatch_witness:
  "\<exists>g. initGfxPartition silentOs False 48 (maxNBitValue 48) 0 0 2 False 0 0x1000000000000
     (newGfxPartition noReservedRange) () = Inr (Some (True, g, ())) \<and>
   freeGpuAddressRange 0x800100200000 0x10000 g = partitionHeapFree heapInternal 0x800100200000 0x10000 g"
proof -
  have room: "partitionRoom 0x800000000000 0x1000000000000 2 0" by (simp add: partitionRoom_def)
  let ?g1 = "setHeap heapSvm (heapInit 0 0x800000000000 4096) (newGfxPartition noReservedRange)"
  obtain g g2 where g: "initGfxPartition silentOs False 48 (maxNBitValue 48) 0 0 2 False 0 0x1000000000000
       (newGfxPartition noReservedRange) () = Inr (Some (True, g, ()))"
    "g = initStandardHeaps (maxNBitValue 48) 0 2 (0x800000000000 + 16 * gigaByte) 0x1000000000000 g2"
    "initHeap32 heap32Names False 0x800000000000 ?g1 = Inr (Some (0x800000000000 + 16 * gigaByte, g2))"
    using initGfxPartition_success [OF full_range_48 room, of False] by blast
  have "heaps g heapInternal = heaps g2 heapInternal"
    unfolding g(2) by (simp add: initStandardHeaps_def Let_def)
  also have "\<dots> = heapInitWithFrontWindow 0x800100000000 (4 * gigaByte) internalFrontWindowPoolSize"
    using initHeap32_layout [of "0x800000000000" False ?g1] g(3) by auto
  finally have h: "heaps g heapInternal = heapInitWithFrontWindow 0x800100000000 0x100000000 0x100000" by simp
  from freeGpuAddressRange_dispatch [OF full_range_48 room g(1), of heapInternal "0x800100200000" "0x10000"]
  show ?thesis using g(1) by (auto simp: h clientHeaps_def)
qed

text \<open>
  On a 57-bit GPU the base of the 2 MB heap need not be 2 MB aligned, which the debug check
  after its initialisation demands: when the reservation starts 64 KB after a 2 MB boundary, halving
  the share of the 2 MB heap leaves its base on an odd multiple of 1 MB.
\<close>

theorem standard2MB_base_misaligned:
  "\<not> isAlignedStatic heapGranularity2MB (gfxHeapBase (heaps
     (initStandardHeaps (maxNBitValue 57) 0 1 (0x900000010000 + 16 * gigaByte) (0x900000010000 + teraByte) g)
     heapStandard2MB))"
  by (simp add: initStandardHeaps_def Let_def maxNBitValue_def push_bit_eq_mult alignUp_def alignDown_def
      heapInit_def isAlignedStatic_def)

text \<open>
  C35: the front window of the internal heap starts at address 0 in the limited-range layout, and
  address 0 is also how \<open>HeapAllocator\<close> reports failure. The first request of a front window at 0, of whatever
  size \<open>s\<close>, therefore loses the first \<open>s\<close> bytes of the window: they are cut off but not handed out and still count as available. The
  retry serves the request behind them when twice its size fits into the window; otherwise the request is refused although the
  window was empty.
\<close>

theorem front_window_at_zero_lost:
  assumes "4096 dvd unat s" "4096 dvd unat n" "0 < s" "s \<le> n" "unat n < 2 ^ 62" "2 \<le> fuel"
    and h: "gfxHeapAlloc (heapInitFrontWindow 0 n) = Some h"
  shows "allocate fuel h s = Inr (Some
      (if unat s + unat s \<le> unat n then (s, s, h\<lparr>pLeftBound := s + s, availableSize := n - s\<rparr>)
       else (0, s, h\<lparr>pLeftBound := s\<rparr>))) \<and> getLeftSize (h\<lparr>pLeftBound := s\<rparr>) = n"
proof -
  obtain f where f: "fuel = Suc (Suc f)" using assms(6) by (metis add_2_eq_Suc le_Suc_ex)
  have hd: "h = newHeapAllocator 0 n 4096 0" using h by (simp add: heapInitFrontWindow_def)
  have up: "alignUp s 4096 = s" using alignUp_aligned [of "4096" s] assms(1) by (simp add: isPow2_def)
  have up0: "alignUp 0 4096 = (0 :: u64)" by (simp add: alignUp_def)
  have le: "unat s \<le> unat n" using assms(4) by (simp add: word_le_nat_alt)
  have "unat (s + s) = unat s + unat s" using le assms(5) by (intro unat_add_nowrap) simp
  then have twice: "s + s \<le> n \<longleftrightarrow> unat s + unat s \<le> unat n" unfolding word_le_nat_alt by (rule arg_cong)
  let ?h1 = "h\<lparr>pLeftBound := s\<rparr>"
  have 1: "allocAttempt h s 4096 = (None, ?h1)"
    using assms(3,4) by (simp add: allocAttempt_def allocFromBounds_def hd newHeapAllocator_def up0 getFromFreedChunks_def
        freedChunksFor_def setFreedChunksFor_def)
  have 2: "allocAttempt ?h1 s 4096 = (if s + s \<le> n then (Some (s, s), h\<lparr>pLeftBound := s + s, availableSize := n - s\<rparr>) else (None, ?h1))"
    using assms(3) by (simp add: allocAttempt_def allocFromBounds_def hd newHeapAllocator_def up getFromFreedChunks_def
        freedChunksFor_def setFreedChunksFor_def)
  have d: "defragment ?h1 = ?h1" by (simp add: defragment_def mergeLastFreedSmall_def mergeLastFreedBig_def hd newHeapAllocator_def)
  have "allocLoop fuel h s 4096 0 = Some (if s + s \<le> n then (s, s, h\<lparr>pLeftBound := s + s, availableSize := n - s\<rparr>) else (0, s, ?h1))"
    by (simp add: f 1 d 2 megaByte_def)
  moreover have "\<not> n < s" using assms(4) by simp
  ultimately show ?thesis
    using up twice by (simp add: allocate_def allocateWithCustomAlignment_def hd newHeapAllocator_def getLeftSize_def)
qed

theorem front_window_at_zero_lost_witness:
  "\<exists>h h'. gfxHeapAlloc (heapInitFrontWindow 0 internalFrontWindowPoolSize) = Some h \<and>
     allocate 3 h internalFrontWindowPoolSize = Inr (Some (0, internalFrontWindowPoolSize, h')) \<and> getLeftSize h' = internalFrontWindowPoolSize"
  using front_window_at_zero_lost [of internalFrontWindowPoolSize internalFrontWindowPoolSize 3
    "newHeapAllocator 0 internalFrontWindowPoolSize pageSize 0"]
  by (simp add: heapInitFrontWindow_def internalFrontWindowPoolSize_def megaByte_def)

section \<open>A reservation released twice\<close>

datatype osEvent = Reserved u64 | Released u64

text \<open>
  An operating system with one free spot outside the area that \<open>reserve57BitRangeWithMemoryMapsParse\<close>
  asks for, whose memory map fills that area. It grants the 48-bit reservation.
\<close>

definition crowdedOs :: "osEvent list OSMemory" where
  "crowdedOs = \<lparr>
     osReserve = (\<lambda>b s log. let p = (if b = 0x800000000000 then 0x900000000000 else 0x7000000)
                             in (p, log @ [Reserved p])),
     osRelease = (\<lambda>p s log. log @ [Released p]),
     osMemoryMaps = (\<lambda>_. [\<lparr>regionStart = 0x1000000000000, regionEnd = 0xFFFFFFFFFFFFFF\<rparr>])\<rparr>"

text \<open>
  A reservation that lies outside the wanted area is released at once, but only its aligned
  pointer is cleared. When the memory maps then show no hole, the original pointer stays in
  \<open>reservedCpuAddressRangeForHeapExtended\<close> and the destructor releases the range a second time.
\<close>

theorem stale_reservation_released_twice:
  "\<exists>g log. initGfxPartition crowdedOs True 57 (maxNBitValue 57) 0 0 1 False (16 * gigaByte) 0
     (newGfxPartition noReservedRange) [] = Inr (Some (True, g, log)) \<and>
   destroyGfxPartition crowdedOs g log =
     [Reserved 0x900000000000, Reserved 0x7000000, Released 0x7000000,
      Released 0x900000000000, Released 0x7000000]"
proof -
  let ?x = "initGfxPartition crowdedOs True 57 (maxNBitValue 57) 0 0 1 False (16 * gigaByte) 0
     (newGfxPartition noReservedRange) []"
  have "(case ?x of Inr (Some (True, g, log)) \<Rightarrow> destroyGfxPartition crowdedOs g log =
     [Reserved 0x900000000000, Reserved 0x7000000, Released 0x7000000,
      Released 0x900000000000, Released 0x7000000] | _ \<Rightarrow> False)"
    by code_simp
  then show ?thesis by (auto split: sum.splits option.splits prod.splits bool.splits)
qed

end
