(* ===== verification/Host_Ptr.thy ===== *)
theory Host_Ptr
  imports Math_Helpers
begin

text \<open>
  \<open>memory_manager/host_ptr_defines.h\<close> and \<open>memory_manager/host_ptr_manager.{h,cpp}\<close>: user memory is
  shared with the GPU in page-aligned fragments that overlapping allocations reuse and count. The
  \<open>std::map\<close> of fragments is a list of entries in ascending key order; the memory manager that
  cleans temporary allocations and creates OS handles is a parameter.
\<close>

section \<open>Data\<close>

datatype FragmentPosition = fragmentNone | leading | middle | trailing

datatype RequirementsStatus = requirementsSuccess | requirementsFatal

datatype OverlapStatus =
    FRAGMENT_NOT_OVERLAPING_WITH_ANY_OTHER
  | FRAGMENT_WITHIN_STORED_FRAGMENT
  | FRAGMENT_WITH_EXACT_SIZE_AS_STORED_FRAGMENT
  | FRAGMENT_OVERLAPING_AND_BIGGER_THEN_STORED_FRAGMENT
  | FRAGMENT_NOT_CHECKED

record PartialAllocation =
  fragmentPosition :: FragmentPosition
  allocationPtr :: u64
  allocationSize :: u64

text \<open>\<open>allocationFragments\<close> holds the first \<open>requiredFragmentsCount\<close> entries of the array.\<close>

record AllocationRequirements =
  allocationFragments :: "PartialAllocation list"
  totalRequiredSize :: u64
  reqRootDeviceIndex :: u32

record FragmentStorage =
  fragmentCpuPointer :: u64
  fragmentSize :: u64
  refCount :: int
  osInternalStorage :: u64
  fragmentResidency :: u64
  driverAllocation :: bool

record AllocationStorageData =
  osHandleStorage :: u64
  storageSize :: u64
  storageCpuPtr :: u64
  freeTheFragment :: bool
  storageResidency :: u64

definition noStorageData :: AllocationStorageData where
  "noStorageData = \<lparr>osHandleStorage = 0, storageSize = 0, storageCpuPtr = 0, freeTheFragment = False,
     storageResidency = 0\<rparr>"

record OsHandleStorage =
  fragmentStorageData :: "AllocationStorageData list"
  fragmentCount :: nat

definition maxFragmentsCount :: nat where "maxFragmentsCount = 3"

datatype HostPtrEntryKey = HostPtrEntryKey (keyPtr: u64) (keyRoot: u32)

instantiation HostPtrEntryKey :: linorder
begin

definition less_HostPtrEntryKey :: "HostPtrEntryKey \<Rightarrow> HostPtrEntryKey \<Rightarrow> bool" where
  "less_HostPtrEntryKey k l \<longleftrightarrow>
     keyRoot k < keyRoot l \<or> keyPtr k < keyPtr l \<and> keyRoot k = keyRoot l"

definition less_eq_HostPtrEntryKey :: "HostPtrEntryKey \<Rightarrow> HostPtrEntryKey \<Rightarrow> bool" where
  "less_eq_HostPtrEntryKey k l \<longleftrightarrow> k < l \<or> k = (l :: HostPtrEntryKey)"

instance
  by standard (auto simp: less_HostPtrEntryKey_def less_eq_HostPtrEntryKey_def
      intro: HostPtrEntryKey.expand)

end

type_synonym fragments = "(HostPtrEntryKey \<times> FragmentStorage) list"

section \<open>The ordered map\<close>

text \<open>\<open>lower_bound\<close> splits the map; the iterator is the head of the second part.\<close>

definition beforeKey :: "HostPtrEntryKey \<Rightarrow> fragments \<Rightarrow> fragments" where
  "beforeKey k m = takeWhile (\<lambda>e. fst e < k) m"

definition lowerBound :: "HostPtrEntryKey \<Rightarrow> fragments \<Rightarrow> fragments" where
  "lowerBound k m = dropWhile (\<lambda>e. fst e < k) m"

fun insertFragment :: "HostPtrEntryKey \<Rightarrow> FragmentStorage \<Rightarrow> fragments \<Rightarrow> fragments" where
  "insertFragment k f [] = [(k, f)]"
| "insertFragment k f ((l, h) # m) =
     (if k < l then (k, f) # (l, h) # m
      else if k = l then (l, h) # m
      else (l, h) # insertFragment k f m)"

definition changeRefCount :: "int \<Rightarrow> HostPtrEntryKey \<Rightarrow> fragments \<Rightarrow> fragments" where
  "changeRefCount d k m =
     map (\<lambda>(l, f). (l, if l = k then f\<lparr>refCount := refCount f + d\<rparr> else f)) m"

definition eraseFragment :: "HostPtrEntryKey \<Rightarrow> fragments \<Rightarrow> fragments" where
  "eraseFragment k m = filter (\<lambda>e. fst e \<noteq> k) m"

definition findElement :: "HostPtrEntryKey \<Rightarrow> fragments \<Rightarrow> (HostPtrEntryKey \<times> FragmentStorage) option" where
  "findElement key m =
     (let exact = (case lowerBound key m of
                     [] \<Rightarrow> None
                   | (k, f) # _ \<Rightarrow> if keyRoot k = keyRoot key \<and> fragmentCpuPointer f = keyPtr key
                                    then Some (k, f) else None)
      in case exact of
           Some e \<Rightarrow> Some e
         | None \<Rightarrow>
             if beforeKey key m \<noteq> [] then
               let (k, f) = last (beforeKey key m) in
               if keyRoot k \<noteq> keyRoot key then None
               else
                 let storedEndAddress = fragmentCpuPointer f + fragmentSize f;
                     storedEndAddress = (if fragmentSize f = 0 then storedEndAddress + 1
                                         else storedEndAddress)
                 in if keyPtr key < storedEndAddress then Some (k, f) else None
             else None)"

section \<open>Operations\<close>

definition getAllocationRequirements :: "u32 \<Rightarrow> u64 \<Rightarrow> u64 \<Rightarrow> AllocationRequirements" where
  "getAllocationRequirements rootDeviceIndex inputPtr sz =
     (let wholeAllocationSize = alignSizeWholePage inputPtr sz;
          alignedStartAddress = alignDown inputPtr pageSize;
          leadingNeeded = (alignedStartAddress \<noteq> inputPtr);
          endAddress = ptrOffset inputPtr sz;
          alignedEndAddress = alignDown endAddress pageSize;
          trailingNeeded = (alignedEndAddress \<noteq> endAddress \<and> alignedEndAddress \<noteq> alignedStartAddress);
          middleSize = wholeAllocationSize - (of_bool trailingNeeded + of_bool leadingNeeded) * pageSize
      in \<lparr>allocationFragments =
            (if leadingNeeded then [\<lparr>fragmentPosition = leading, allocationPtr = alignedStartAddress,
                                     allocationSize = pageSize\<rparr>] else []) @
            (if middleSize \<noteq> 0 then [\<lparr>fragmentPosition = middle, allocationPtr = alignUp inputPtr pageSize,
                                      allocationSize = middleSize\<rparr>] else []) @
            (if trailingNeeded then [\<lparr>fragmentPosition = trailing, allocationPtr = alignedEndAddress,
                                      allocationSize = pageSize\<rparr>] else []),
          totalRequiredSize = wholeAllocationSize,
          reqRootDeviceIndex = rootDeviceIndex\<rparr>)"

definition storeFragment :: "u32 \<Rightarrow> FragmentStorage \<Rightarrow> fragments \<Rightarrow> fragments" where
  "storeFragment rootDeviceIndex fragment m =
     (let key = HostPtrEntryKey (fragmentCpuPointer fragment) rootDeviceIndex in
      case findElement key m of
        Some (k, _) \<Rightarrow> changeRefCount 1 k m
      | None \<Rightarrow> insertFragment key (fragment\<lparr>refCount := refCount fragment + 1\<rparr>) m)"

definition storeFragmentData :: "u32 \<Rightarrow> AllocationStorageData \<Rightarrow> fragments \<Rightarrow> fragments" where
  "storeFragmentData rootDeviceIndex storageData m =
     storeFragment rootDeviceIndex
       \<lparr>fragmentCpuPointer = storageCpuPtr storageData, fragmentSize = storageSize storageData,
        refCount = 0, osInternalStorage = osHandleStorage storageData,
        fragmentResidency = storageResidency storageData, driverAllocation = False\<rparr> m"

text \<open>Releasing a pointer no fragment holds dereferences the end iterator: \<open>AbortExecution\<close>.\<close>

definition releaseHostPtr :: "u32 \<Rightarrow> u64 \<Rightarrow> fragments \<Rightarrow> (bool \<times> fragments) result" where
  "releaseHostPtr rootDeviceIndex p m =
     (case findElement (HostPtrEntryKey p rootDeviceIndex) m of
        None \<Rightarrow> Inl AbortExecution
      | Some (k, f) \<Rightarrow>
          if refCount f - 1 \<le> 0 then Inr (True, eraseFragment k m)
          else Inr (False, changeRefCount (- 1) k m))"

fun releaseStorageData ::
  "u32 \<Rightarrow> AllocationStorageData list \<Rightarrow> fragments \<Rightarrow> (AllocationStorageData list \<times> fragments) result" where
  "releaseStorageData rootDeviceIndex [] m = Inr ([], m)"
| "releaseStorageData rootDeviceIndex (d # ds) m =
     (if storageSize d \<noteq> 0 \<or> storageCpuPtr d \<noteq> 0 then
        (case releaseHostPtr rootDeviceIndex (storageCpuPtr d) m of
           Inl f \<Rightarrow> Inl f
         | Inr (ready, m) \<Rightarrow>
             (case releaseStorageData rootDeviceIndex ds m of
                Inl f \<Rightarrow> Inl f
              | Inr (ds, m) \<Rightarrow> Inr (d\<lparr>freeTheFragment := ready\<rparr> # ds, m)))
      else
        (case releaseStorageData rootDeviceIndex ds m of
           Inl f \<Rightarrow> Inl f
         | Inr (ds, m) \<Rightarrow> Inr (d # ds, m)))"

definition releaseHandleStorage ::
  "u32 \<Rightarrow> OsHandleStorage \<Rightarrow> fragments \<Rightarrow> (OsHandleStorage \<times> fragments) result" where
  "releaseHandleStorage rootDeviceIndex h m =
     (case releaseStorageData rootDeviceIndex (fragmentStorageData h) m of
        Inl f \<Rightarrow> Inl f
      | Inr (ds, m) \<Rightarrow> Inr (h\<lparr>fragmentStorageData := ds\<rparr>, m))"

definition getFragment :: "HostPtrEntryKey \<Rightarrow> fragments \<Rightarrow> FragmentStorage option" where
  "getFragment key m = map_option snd (findElement key m)"

definition getFragmentAndCheckForOverlaps ::
  "u32 \<Rightarrow> u64 \<Rightarrow> u64 \<Rightarrow> fragments \<Rightarrow> (HostPtrEntryKey \<times> FragmentStorage) option \<times> OverlapStatus" where
  "getFragmentAndCheckForOverlaps rootDeviceIndex inputPtr sz m =
     (let key = HostPtrEntryKey inputPtr rootDeviceIndex;
          next = lowerBound key m;
          element = (if beforeKey key m \<noteq> [] then Some (last (beforeKey key m))
                     else case next of [] \<Rightarrow> None | e # _ \<Rightarrow> Some e)
      in case element of
           None \<Rightarrow> (None, FRAGMENT_NOT_OVERLAPING_WITH_ANY_OTHER)
         | Some (k, storedFragment) \<Rightarrow>
             if keyRoot k \<noteq> rootDeviceIndex then (None, FRAGMENT_NOT_OVERLAPING_WITH_ANY_OTHER)
             else if fragmentCpuPointer storedFragment = inputPtr \<and> fragmentSize storedFragment = sz
             then (Some (k, storedFragment), FRAGMENT_WITH_EXACT_SIZE_AS_STORED_FRAGMENT)
             else
               let storedEndAddress = fragmentCpuPointer storedFragment + fragmentSize storedFragment;
                   inputEndAddress = inputPtr + sz
               in if inputPtr \<ge> fragmentCpuPointer storedFragment \<and> inputPtr < storedEndAddress then
                    if inputEndAddress \<le> storedEndAddress
                    then (Some (k, storedFragment), FRAGMENT_WITHIN_STORED_FRAGMENT)
                    else (None, FRAGMENT_OVERLAPING_AND_BIGGER_THEN_STORED_FRAGMENT)
                  else
                    (case next of
                       [] \<Rightarrow> (None, FRAGMENT_NOT_OVERLAPING_WITH_ANY_OTHER)
                     | (k', storedNextElement) # _ \<Rightarrow>
                         if keyRoot k' \<noteq> rootDeviceIndex
                         then (None, FRAGMENT_NOT_OVERLAPING_WITH_ANY_OTHER)
                         else
                           let storedNextStartAddress = fragmentCpuPointer storedNextElement;
                               storedNextEndAddress =
                                 fragmentCpuPointer storedNextElement + fragmentSize storedNextElement
                           in if inputPtr < storedNextStartAddress then
                                if inputEndAddress > storedNextStartAddress
                                then (None, FRAGMENT_OVERLAPING_AND_BIGGER_THEN_STORED_FRAGMENT)
                                else (None, FRAGMENT_NOT_OVERLAPING_WITH_ANY_OTHER)
                              else if inputEndAddress > storedNextEndAddress
                              then (None, FRAGMENT_OVERLAPING_AND_BIGGER_THEN_STORED_FRAGMENT)
                              else if inputEndAddress < storedNextEndAddress
                              then (Some (k', storedNextElement), FRAGMENT_WITHIN_STORED_FRAGMENT)
                              else (Some (k', storedNextElement),
                                    FRAGMENT_WITH_EXACT_SIZE_AS_STORED_FRAGMENT)))"

text \<open>One fragment of the loop of \<open>populateAlreadyAllocatedFragments\<close>.\<close>

definition populateFragment ::
  "u32 \<Rightarrow> PartialAllocation \<Rightarrow> fragments \<Rightarrow> (AllocationStorageData \<times> fragments) result" where
  "populateFragment rootDeviceIndex a m =
     (let d = noStorageData\<lparr>storageCpuPtr := allocationPtr a, storageSize := allocationSize a\<rparr> in
      case getFragmentAndCheckForOverlaps rootDeviceIndex (allocationPtr a) (allocationSize a) m of
        (found, overlapStatus) \<Rightarrow>
          if overlapStatus = FRAGMENT_WITHIN_STORED_FRAGMENT then
            (case found of
               None \<Rightarrow> Inl Unrecoverable
             | Some (k, f) \<Rightarrow>
                 Inr (d\<lparr>osHandleStorage := osInternalStorage f, storageResidency := fragmentResidency f\<rparr>,
                      changeRefCount 1 k m))
          else if overlapStatus \<noteq> FRAGMENT_OVERLAPING_AND_BIGGER_THEN_STORED_FRAGMENT then
            (case found of
               None \<Rightarrow> Inr (d, m)
             | Some (k, f) \<Rightarrow>
                 Inr (d\<lparr>osHandleStorage := osInternalStorage f, storageResidency := fragmentResidency f\<rparr>,
                      changeRefCount 1 k m))
          else Inl AbortExecution)"

fun populateFragments ::
  "u32 \<Rightarrow> PartialAllocation list \<Rightarrow> fragments \<Rightarrow> (AllocationStorageData list \<times> fragments) result" where
  "populateFragments rootDeviceIndex [] m = Inr ([], m)"
| "populateFragments rootDeviceIndex (a # as) m =
     (case populateFragment rootDeviceIndex a m of
        Inl f \<Rightarrow> Inl f
      | Inr (d, m) \<Rightarrow>
          (case populateFragments rootDeviceIndex as m of
             Inl f \<Rightarrow> Inl f
           | Inr (ds, m) \<Rightarrow> Inr (d # ds, m)))"

definition populateAlreadyAllocatedFragments ::
  "AllocationRequirements \<Rightarrow> fragments \<Rightarrow> (OsHandleStorage \<times> fragments) result" where
  "populateAlreadyAllocatedFragments requirements m =
     (case populateFragments (reqRootDeviceIndex requirements) (allocationFragments requirements) m of
        Inl f \<Rightarrow> Inl f
      | Inr (ds, m) \<Rightarrow>
          Inr (\<lparr>fragmentStorageData = ds @ replicate (maxFragmentsCount - length ds) noStorageData,
                fragmentCount = length (allocationFragments requirements)\<rparr>, m))"

text \<open>
  The memory manager: \<open>cleanTemporary waitForCompletion\<close> releases temporary allocations, whose
  fragments may disappear from the map; \<open>populateOsHandles\<close> reports success and fills in handles,
  storing the new fragments; \<open>cleanOsHandles\<close> undoes it.
\<close>

record MemoryManager =
  cleanTemporary :: "bool \<Rightarrow> fragments \<Rightarrow> fragments"
  populateOsHandles :: "u32 \<Rightarrow> OsHandleStorage \<Rightarrow> fragments \<Rightarrow> bool \<times> OsHandleStorage \<times> fragments"
  cleanOsHandles :: "u32 \<Rightarrow> OsHandleStorage \<Rightarrow> fragments \<Rightarrow> OsHandleStorage \<times> fragments"

definition overlapStatusOf :: "u32 \<Rightarrow> PartialAllocation \<Rightarrow> fragments \<Rightarrow> OverlapStatus" where
  "overlapStatusOf rootDeviceIndex a m =
     snd (getFragmentAndCheckForOverlaps rootDeviceIndex (allocationPtr a) (allocationSize a) m)"

fun checkFragments ::
  "MemoryManager \<Rightarrow> u32 \<Rightarrow> PartialAllocation list \<Rightarrow> fragments \<Rightarrow> RequirementsStatus \<times> fragments" where
  "checkFragments mm rootDeviceIndex [] m = (requirementsSuccess, m)"
| "checkFragments mm rootDeviceIndex (a # as) m =
     (if overlapStatusOf rootDeviceIndex a m = FRAGMENT_OVERLAPING_AND_BIGGER_THEN_STORED_FRAGMENT then
        let m = cleanTemporary mm False m in
        if overlapStatusOf rootDeviceIndex a m = FRAGMENT_OVERLAPING_AND_BIGGER_THEN_STORED_FRAGMENT then
          let m = cleanTemporary mm True m in
          if overlapStatusOf rootDeviceIndex a m = FRAGMENT_OVERLAPING_AND_BIGGER_THEN_STORED_FRAGMENT
          then (requirementsFatal, m)
          else checkFragments mm rootDeviceIndex as m
        else checkFragments mm rootDeviceIndex as m
      else checkFragments mm rootDeviceIndex as m)"

definition checkAllocationsForOverlapping ::
  "MemoryManager \<Rightarrow> AllocationRequirements \<Rightarrow> fragments \<Rightarrow> RequirementsStatus \<times> fragments" where
  "checkAllocationsForOverlapping mm requirements m =
     checkFragments mm (reqRootDeviceIndex requirements) (allocationFragments requirements) m"

definition prepareOsStorageForAllocation ::
  "MemoryManager \<Rightarrow> u64 \<Rightarrow> u64 \<Rightarrow> u32 \<Rightarrow> fragments \<Rightarrow> (OsHandleStorage \<times> fragments) result" where
  "prepareOsStorageForAllocation mm sz p rootDeviceIndex m =
     (let requirements = getAllocationRequirements rootDeviceIndex p sz in
      case checkAllocationsForOverlapping mm requirements m of
        (requirementsFatal, m) \<Rightarrow> Inl Unrecoverable
      | (requirementsSuccess, m) \<Rightarrow>
          (case populateAlreadyAllocatedFragments requirements m of
             Inl f \<Rightarrow> Inl f
           | Inr (osStorage, m) \<Rightarrow>
               if fragmentCount osStorage > 0 then
                 (case populateOsHandles mm rootDeviceIndex osStorage m of
                    (success, osStorage, m) \<Rightarrow>
                      if success then Inr (osStorage, m)
                      else (case cleanOsHandles mm rootDeviceIndex osStorage m of
                              (osStorage, m) \<Rightarrow> Inr (osStorage\<lparr>fragmentCount := 0\<rparr>, m)))
               else Inr (osStorage, m)))"

section \<open>Fragments tile the pages of the request\<close>

text \<open>\<open>tiles lo hi fs\<close>: the fragments follow each other without gaps from \<open>lo\<close> to \<open>hi\<close>.\<close>

fun tiles :: "nat \<Rightarrow> nat \<Rightarrow> PartialAllocation list \<Rightarrow> bool" where
  "tiles lo hi [] \<longleftrightarrow> lo = hi"
| "tiles lo hi (a # as) \<longleftrightarrow> unat (allocationPtr a) = lo \<and> allocationSize a \<noteq> 0 \<and>
     tiles (lo + unat (allocationSize a)) hi as"

definition pageFloor :: "nat \<Rightarrow> nat" where "pageFloor x = x div 4096 * 4096"
definition pageCeil :: "nat \<Rightarrow> nat" where "pageCeil x = (x + 4095) div 4096 * 4096"

lemma page_words:
  assumes "unat p + unat s + 8192 < 2 ^ 64"
  shows "unat (alignDown p pageSize) = pageFloor (unat p)" "unat (alignUp p pageSize) = pageCeil (unat p)"
    "unat (p + s) = unat p + unat s" "unat (alignDown (p + s) pageSize) = pageFloor (unat p + unat s)"
    "unat (alignSizeWholePage p s) = pageCeil (unat p + unat s) - pageFloor (unat p)"
proof -
  have pw: "isPow2 (4096 :: u64)" by (simp add: isPow2_def)
  show ps: "unat (p + s) = unat p + unat s" using assms by (intro unat_add_nowrap) simp
  have down: "unat (alignDown x pageSize) = pageFloor (unat x)" for x :: u64
    using alignDown_unat [OF pw, of x] by (simp add: pageFloor_def minus_mod_eq_div_mult)
  show "unat (alignDown p pageSize) = pageFloor (unat p)" "unat (alignDown (p + s) pageSize) = pageFloor (unat p + unat s)"
    using down [of p] down [of "p + s"] ps by simp_all
  show "unat (alignUp p pageSize) = pageCeil (unat p)"
    using alignUp_unat [OF pw, of p] assms by (simp add: pageCeil_def)
  have "p AND 4095 = take_bit 12 p" by (simp add: take_bit_eq_mask mask_eq_exp_minus_1)
  then have m: "unat (p AND 4095) = unat p mod 4096" by (simp add: unat_take_bit)
  have le: "unat p mod 4096 < 4096" by simp
  then have o: "unat ((p AND 4095) + s) = unat p mod 4096 + unat s"
    using assms m by (subst unat_add_nowrap) simp_all
  have "unat (alignUp ((p AND 4095) + s) 4096) = (unat p mod 4096 + unat s + 4095) div 4096 * 4096"
    using alignUp_unat [OF pw, of "(p AND 4095) + s"] o assms le by simp
  also have "\<dots> = pageCeil (unat p + unat s) - pageFloor (unat p)"
  proof -
    have "unat p + unat s + 4095 = (unat p mod 4096 + unat s + 4095) + unat p div 4096 * 4096"
      using div_mult_mod_eq [of "unat p" 4096] by linarith
    moreover have "((unat p mod 4096 + unat s + 4095) + unat p div 4096 * 4096) div 4096 =
        unat p div 4096 + (unat p mod 4096 + unat s + 4095) div 4096" by (rule div_mult_self1) simp
    ultimately have "(unat p + unat s + 4095) div 4096 =
        unat p div 4096 + (unat p mod 4096 + unat s + 4095) div 4096" by (simp only:)
    then show ?thesis by (simp add: pageCeil_def pageFloor_def add_mult_distrib)
  qed
  finally show "unat (alignSizeWholePage p s) = pageCeil (unat p + unat s) - pageFloor (unat p)"
    by (simp add: alignSizeWholePage_def)
qed

lemma page_round:
  obtains a r e q where "x = 4096 * a + r" "r < 4096" "x + n = 4096 * e + q" "q < 4096" "a \<le> e"
    "pageFloor x = 4096 * a" "pageFloor (x + n) = 4096 * e"
    "pageCeil x = 4096 * (if r = 0 then a else Suc a)" "pageCeil (x + n) = 4096 * (if q = 0 then e else Suc e)"
proof (rule that)
  have ceil: "pageCeil y = 4096 * (if y mod 4096 = 0 then y div 4096 else Suc (y div 4096))" for y
  proof -
    have "y + 4095 = 4096 * (y div 4096) + (y mod 4096 + 4095)" by simp
    then have "(y + 4095) div 4096 = y div 4096 + (y mod 4096 + 4095) div 4096"
      by (metis div_mult_self4 zero_neq_numeral add.commute)
    moreover have "(y mod 4096 + 4095) div 4096 = (if y mod 4096 = 0 then 0 else 1)"
    proof (cases "y mod 4096 = 0")
      case False
      moreover have "y mod 4096 < 4096" by simp
      ultimately have "4096 \<le> y mod 4096 + 4095" "y mod 4096 + 4095 < 2 * 4096" by linarith+
      then show ?thesis using False by (simp add: div_nat_eqI)
    qed simp
    ultimately show ?thesis by (simp add: pageCeil_def)
  qed
  show "pageCeil x = 4096 * (if x mod 4096 = 0 then x div 4096 else Suc (x div 4096))"
    "pageCeil (x + n) = 4096 * (if (x + n) mod 4096 = 0 then (x + n) div 4096 else Suc ((x + n) div 4096))"
    using ceil by blast+
qed (simp_all add: pageFloor_def div_le_mono)


lemma requirements_tile:
  fixes root :: u32
  assumes "unat p + unat s + 8192 < 2 ^ 64"
  defines "q \<equiv> getAllocationRequirements root p s"
  shows "tiles (pageFloor (unat p)) (pageCeil (unat p + unat s)) (allocationFragments q) \<and>
    length (allocationFragments q) \<le> 3 \<and>
    unat (totalRequiredSize q) = pageCeil (unat p + unat s) - pageFloor (unat p) \<and>
    (\<forall>a \<in> set (allocationFragments q). 4096 dvd unat (allocationPtr a))"
proof -
  note w = page_words [OF assms(1)]
  obtain a r e u where d: "unat p = 4096 * a + r" "r < 4096" "unat p + unat s = 4096 * e + u" "u < 4096" "a \<le> e"
    and c: "pageFloor (unat p) = 4096 * a" "pageFloor (unat p + unat s) = 4096 * e"
    "pageCeil (unat p) = 4096 * (if r = 0 then a else Suc a)"
    "pageCeil (unat p + unat s) = 4096 * (if u = 0 then e else Suc e)"
    using page_round [of "unat p" "unat s"] by blast
  define L where "L \<longleftrightarrow> alignDown p pageSize \<noteq> p"
  define T where "T \<longleftrightarrow> alignDown (p + s) pageSize \<noteq> p + s \<and> alignDown (p + s) pageSize \<noteq> alignDown p pageSize"
  have L: "L \<longleftrightarrow> r \<noteq> 0" using w(1) c(1) d(1) by (auto simp: L_def word_unat_eq_iff)
  have T: "T \<longleftrightarrow> u \<noteq> 0 \<and> e \<noteq> a"
    using w(1,3,4) c(1,2) d(3) by (auto simp: T_def word_unat_eq_iff)
  define M where "M = alignSizeWholePage p s - (of_bool T + of_bool L) * pageSize"
  have "unat ((of_bool T + of_bool L) * pageSize :: u64) = 4096 * (of_bool T + of_bool L)"
    by (cases T; cases L) simp_all
  moreover have whole: "unat (alignSizeWholePage p s) = 4096 * ((if u = 0 then e else Suc e) - a)"
    using w(5) c by (simp add: diff_mult_distrib2)
  moreover have le: "of_bool T + of_bool L \<le> (if u = 0 then e else Suc e) - a"
    using L T d by (auto split: if_splits)
  ultimately have M: "unat M = 4096 * ((if u = 0 then e else Suc e) - a - (of_bool T + of_bool L))"
    unfolding M_def by (subst unat_sub_nowrap) (simp_all add: diff_mult_distrib2 del: of_bool_eq_iff)
  have M0: "M \<noteq> 0 \<longleftrightarrow> (if u = 0 then e else Suc e) - a - (of_bool T + of_bool L) \<noteq> 0"
    using M by (auto simp: word_unat_eq_iff)
  have q: "allocationFragments q =
      (if L then [\<lparr>fragmentPosition = leading, allocationPtr = alignDown p pageSize, allocationSize = pageSize\<rparr>] else []) @
      (if M \<noteq> 0 then [\<lparr>fragmentPosition = middle, allocationPtr = alignUp p pageSize, allocationSize = M\<rparr>] else []) @
      (if T then [\<lparr>fragmentPosition = trailing, allocationPtr = alignDown (p + s) pageSize, allocationSize = pageSize\<rparr>] else [])"
    "totalRequiredSize q = alignSizeWholePage p s"
    unfolding q_def getAllocationRequirements_def Let_def ptrOffset_def L_def [symmetric] T_def [symmetric]
      M_def [symmetric] by simp_all
  show ?thesis
    unfolding q using w c M M0 L T d le
    by (auto split: if_splits)
qed

section \<open>The map of fragments\<close>

abbreviation fragStart :: "HostPtrEntryKey \<times> FragmentStorage \<Rightarrow> nat" where
  "fragStart e \<equiv> unat (keyPtr (fst e))"

abbreviation fragEnd :: "HostPtrEntryKey \<times> FragmentStorage \<Rightarrow> nat" where
  "fragEnd e \<equiv> unat (keyPtr (fst e)) + unat (fragmentSize (snd e))"

abbreviation fragRoot :: "HostPtrEntryKey \<times> FragmentStorage \<Rightarrow> u32" where
  "fragRoot e \<equiv> keyRoot (fst e)"

definition fragmentOk :: "HostPtrEntryKey \<times> FragmentStorage \<Rightarrow> bool" where
  "fragmentOk e \<longleftrightarrow> fragmentCpuPointer (snd e) = keyPtr (fst e) \<and> fragmentSize (snd e) \<noteq> 0 \<and>
     fragEnd e < 2 ^ 64 \<and> 1 \<le> refCount (snd e)"

text \<open>
  The entries ascend strictly by key, describe non-empty ranges that are in use, and the ranges of
  one device do not overlap.
\<close>

definition inOrder :: "HostPtrEntryKey \<times> FragmentStorage \<Rightarrow> HostPtrEntryKey \<times> FragmentStorage \<Rightarrow> bool" where
  "inOrder e e' \<longleftrightarrow> fst e < fst e' \<and> (fragRoot e = fragRoot e' \<longrightarrow> fragEnd e \<le> fragStart e')"

definition fragmentsOk :: "fragments \<Rightarrow> bool" where
  "fragmentsOk m \<longleftrightarrow> sorted_wrt inOrder m \<and> (\<forall>e \<in> set m. fragmentOk e)"

lemma map_split: "m = beforeKey k m @ lowerBound k m"
  by (simp add: beforeKey_def lowerBound_def)

lemma beforeKey_less: "e \<in> set (beforeKey k m) \<Longrightarrow> fst e < k"
  by (auto simp: beforeKey_def dest: set_takeWhileD)

lemma lowerBound_ge:
  assumes "sorted_wrt inOrder m" "e \<in> set (lowerBound k m)"
  shows "k \<le> fst e"
proof -
  have s: "sorted_wrt inOrder (lowerBound k m)"
    using assms(1) map_split [of m k] by (metis sorted_wrt_append)
  from assms(2) obtain h t where l: "lowerBound k m = h # t" by (cases "lowerBound k m") auto
  then have "\<not> fst h < k" by (metis hd_dropWhile list.discI list.sel(1) lowerBound_def)
  then show ?thesis using assms(2) s l by (fastforce simp: inOrder_def)
qed

lemma fragmentsOk_split:
  assumes "fragmentsOk m"
  shows "sorted_wrt inOrder (beforeKey k m)" "sorted_wrt inOrder (lowerBound k m)"
    "\<And>e e'. e \<in> set (beforeKey k m) \<Longrightarrow> e' \<in> set (lowerBound k m) \<Longrightarrow> inOrder e e'"
    "\<And>e. e \<in> set m \<longleftrightarrow> e \<in> set (beforeKey k m) \<or> e \<in> set (lowerBound k m)"
proof -
  have "sorted_wrt inOrder (beforeKey k m @ lowerBound k m)"
    using assms map_split [of m k] by (simp add: fragmentsOk_def)
  then show "sorted_wrt inOrder (beforeKey k m)" "sorted_wrt inOrder (lowerBound k m)"
    "\<And>e e'. e \<in> set (beforeKey k m) \<Longrightarrow> e' \<in> set (lowerBound k m) \<Longrightarrow> inOrder e e'"
    by (auto simp: sorted_wrt_append)
  show "\<And>e. e \<in> set m \<longleftrightarrow> e \<in> set (beforeKey k m) \<or> e \<in> set (lowerBound k m)"
    using map_split [of m k] by (metis Un_iff set_append)
qed

lemma last_inOrder:
  assumes "sorted_wrt inOrder b" "e \<in> set b" "e \<noteq> last b"
  shows "inOrder e (last b)"
  using assms by (induction b) (auto split: if_splits)

lemma fragmentOk_pos: "fragmentOk e \<Longrightarrow> fragStart e < fragEnd e"
  by (auto simp: fragmentOk_def unat_gt_0)

lemma key_less_iff: "k < l \<longleftrightarrow> keyRoot k < keyRoot l \<or> keyRoot k = keyRoot l \<and> unat (keyPtr k) < unat (keyPtr l)"
  by (auto simp: less_HostPtrEntryKey_def word_less_nat_alt)

text \<open>\<open>findElement\<close> returns the fragment of the device that contains the address.\<close>

lemma findElement_holds:
  assumes ok: "fragmentsOk m"
  shows "findElement (HostPtrEntryKey p r) m = Some e \<longleftrightarrow>
    e \<in> set m \<and> fragRoot e = r \<and> fragStart e \<le> unat p \<and> unat p < fragEnd e"
proof -
  define k b n where "k = HostPtrEntryKey p r" "b = beforeKey k m" "n = lowerBound k m"
  note S = fragmentsOk_split [OF ok, where k = k, folded k_b_n_def]
  have fok: "fragmentOk e" if "e \<in> set m" for e using ok that by (simp add: fragmentsOk_def)
  have bl: "fst e < k" if "e \<in> set b" for e using that beforeKey_less by (simp add: k_b_n_def)
  have nl: "k \<le> fst e" if "e \<in> set n" for e
    using that ok unfolding k_b_n_def fragmentsOk_def by (blast intro: lowerBound_ge)
  have inN: "fragStart e = unat p \<and> e = hd n"
    if "e \<in> set n" "fragRoot e = r" "fragStart e \<le> unat p" for e
  proof -
    have "fst e = k" using nl [OF that(1)] that(2,3)
      by (auto simp: less_eq_HostPtrEntryKey_def key_less_iff k_b_n_def)
    moreover have "e = hd n"
    proof (rule ccontr)
      assume "e \<noteq> hd n"
      then have "fst (hd n) < fst e" "hd n \<in> set n" using that(1) S(2) by (cases n; auto simp: inOrder_def)+
      then show False using nl \<open>fst e = k\<close> by (metis leD)
    qed
    ultimately show ?thesis by (simp add: k_b_n_def)
  qed
  have inB: "e = last b" if "e \<in> set b" "fragRoot e = r" "unat p < fragEnd e" for e
  proof (rule ccontr)
    assume "e \<noteq> last b"
    then have i: "inOrder e (last b)" "last b \<in> set b" using last_inOrder S(1) that(1) by (auto intro: last_in_set)
    then have "fst e < fst (last b)" "fst (last b) < k" using bl by (auto simp: inOrder_def)
    then have "fragRoot (last b) = r" "fragStart (last b) < unat p" using that(2) by (auto simp: key_less_iff k_b_n_def)
    then show False using i that by (auto simp: inOrder_def)
  qed
  have stored: "fragmentCpuPointer (snd e) = keyPtr (fst e)" "fragmentSize (snd e) \<noteq> 0"
    "unat (keyPtr (fst e) + fragmentSize (snd e)) = fragEnd e" if "e \<in> set m" for e
    using fok [OF that] by (auto simp: fragmentOk_def intro: unat_add_nowrap)
  show ?thesis
  proof (cases "n \<noteq> [] \<and> fragRoot (hd n) = r \<and> fragStart (hd n) = unat p")
    case True
    then have h: "hd n \<in> set n" "hd n \<in> set m" using S(4) by auto
    have "findElement k m = Some (hd n)"
      using True stored(1) [OF h(2)] unfolding findElement_def k_b_n_def(2,3) [symmetric]
      by (cases n) (auto simp: k_b_n_def(1) Let_def word_unat_eq_iff)
    moreover have "e = hd n" if "e \<in> set m" "fragRoot e = r" "fragStart e \<le> unat p" "unat p < fragEnd e"
      using that S(4) inN [of e] S(3) [of e "hd n"] h(1) True by (auto simp: inOrder_def)
    ultimately show ?thesis using True h fragmentOk_pos [OF fok [OF h(2)]] by (auto simp: k_b_n_def(1))
  next
    case False
    have exact: "(case n of [] \<Rightarrow> None | (k', f) # _ \<Rightarrow>
        if keyRoot k' = keyRoot k \<and> fragmentCpuPointer f = keyPtr k then Some (k', f) else None) = None"
    proof (cases n)
      case (Cons a list)
      then have "a \<in> set m" using S(4) by simp
      moreover obtain k' f where a: "a = (k', f)" by fastforce
      ultimately have "fragmentCpuPointer f = keyPtr k'" using stored(1) [of a] by simp
      then show ?thesis using False Cons a by (auto simp: k_b_n_def(1))
    qed simp
    have e: "e = last b \<and> b \<noteq> []"
      if "e \<in> set m" "fragRoot e = r" "fragStart e \<le> unat p" "unat p < fragEnd e"
      using that S(4) inN [of e] inB [of e] False by (auto dest: list.set_sel)
    show ?thesis
    proof (cases "b = []")
      case True
      then have "findElement k m = None"
        using exact unfolding findElement_def k_b_n_def(2,3) [symmetric] by simp
      then show ?thesis using e True by (auto simp: k_b_n_def(1))
    next
      case ne: False
      then have l: "last b \<in> set b" "last b \<in> set m" using S(4) by auto
      note st = stored [OF l(2)]
      have "findElement k m = (if fragRoot (last b) \<noteq> r then None
          else if unat p < fragEnd (last b) then Some (last b) else None)"
        using exact ne st unfolding findElement_def k_b_n_def(2,3) [symmetric]
        by (auto simp: k_b_n_def(1) Let_def word_less_nat_alt split: prod.splits)
      moreover have "fragStart (last b) < unat p" if "fragRoot (last b) = r"
        using bl [OF l(1)] that by (auto simp: key_less_iff k_b_n_def(1))
      ultimately show ?thesis using e l by (auto simp: k_b_n_def(1) split: if_splits)
    qed
  qed
qed


section \<open>The overlap check\<close>

text \<open>How a range of a device relates to the stored fragments, as a specification.\<close>

definition overlapsRange :: "u32 \<Rightarrow> nat \<Rightarrow> nat \<Rightarrow> HostPtrEntryKey \<times> FragmentStorage \<Rightarrow> bool" where
  "overlapsRange r p n e \<longleftrightarrow> fragRoot e = r \<and> p < fragEnd e \<and> fragStart e < p + n"

definition containsRange :: "u32 \<Rightarrow> nat \<Rightarrow> nat \<Rightarrow> HostPtrEntryKey \<times> FragmentStorage \<Rightarrow> bool" where
  "containsRange r p n e \<longleftrightarrow> fragRoot e = r \<and> fragStart e \<le> p \<and> p + n \<le> fragEnd e"

definition equalsRange :: "u32 \<Rightarrow> nat \<Rightarrow> nat \<Rightarrow> HostPtrEntryKey \<times> FragmentStorage \<Rightarrow> bool" where
  "equalsRange r p n e \<longleftrightarrow> fragRoot e = r \<and> fragStart e = p \<and> p + n = fragEnd e"

definition overlapSpec :: "u32 \<Rightarrow> nat \<Rightarrow> nat \<Rightarrow> fragments \<Rightarrow> OverlapStatus" where
  "overlapSpec r p n m =
     (if \<exists>e \<in> set m. equalsRange r p n e then FRAGMENT_WITH_EXACT_SIZE_AS_STORED_FRAGMENT
      else if \<exists>e \<in> set m. containsRange r p n e then FRAGMENT_WITHIN_STORED_FRAGMENT
      else if \<exists>e \<in> set m. overlapsRange r p n e then FRAGMENT_OVERLAPING_AND_BIGGER_THEN_STORED_FRAGMENT
      else FRAGMENT_NOT_OVERLAPING_WITH_ANY_OTHER)"

lemmas range_defs = overlapsRange_def containsRange_def equalsRange_def

text \<open>No device with a smaller index has a fragment in the map.\<close>

definition lowestRoot :: "u32 \<Rightarrow> fragments \<Rightarrow> bool" where
  "lowestRoot r m \<longleftrightarrow> (\<forall>e \<in> set m. r \<le> fragRoot e)"

text \<open>Only the last entry before the address and the first one from it on matter.\<close>

lemma neighbours:
  fixes p :: u64
  assumes ok: "fragmentsOk m" and low: "lowestRoot r m" and n: "0 < n"
  defines "k \<equiv> HostPtrEntryKey p r"
  defines "L \<equiv> (if beforeKey k m = [] then None else Some (last (beforeKey k m)))"
    and "N \<equiv> (case lowerBound k m of [] \<Rightarrow> None | e # _ \<Rightarrow> if fragRoot e = r then Some e else None)"
  shows "\<And>e. L = Some e \<Longrightarrow> e \<in> set m \<and> fragRoot e = r \<and> fragStart e < unat p"
    "\<And>e. N = Some e \<Longrightarrow> e \<in> set m \<and> fragRoot e = r \<and> unat p \<le> fragStart e"
    "\<And>e e'. L = Some e \<Longrightarrow> N = Some e' \<Longrightarrow> fragEnd e \<le> fragStart e'"
    "(\<exists>e \<in> set m. equalsRange r (unat p) n e) \<longleftrightarrow> (\<exists>e. N = Some e \<and> equalsRange r (unat p) n e)"
    "(\<exists>e \<in> set m. containsRange r (unat p) n e) \<longleftrightarrow>
       (\<exists>e. (L = Some e \<or> N = Some e) \<and> containsRange r (unat p) n e)"
    "(\<exists>e \<in> set m. overlapsRange r (unat p) n e) \<longleftrightarrow>
       (\<exists>e. (L = Some e \<or> N = Some e) \<and> overlapsRange r (unat p) n e)"
proof -
  define b u where "b = beforeKey k m" "u = lowerBound k m"
  note S = fragmentsOk_split [OF ok, where k = k, folded b_u_def]
  have pos: "fragStart e < fragEnd e" if "e \<in> set m" for e
    using ok that fragmentOk_pos by (auto simp: fragmentsOk_def)
  have bl: "fragRoot e = r \<and> fragStart e < unat p" if "e \<in> set b" for e
  proof -
    have "fst e < k" "r \<le> fragRoot e"
      using that beforeKey_less [of e k m] low S(4) [of e] by (auto simp: b_u_def lowestRoot_def)
    then show ?thesis by (auto simp: key_less_iff k_def)
  qed
  have ul: "unat p \<le> fragStart e" if "e \<in> set u" "fragRoot e = r" for e
  proof -
    have "k \<le> fst e" using that(1) ok unfolding b_u_def fragmentsOk_def by (blast intro: lowerBound_ge)
    then show ?thesis using that(2) by (cases "fst e") (auto simp: less_eq_HostPtrEntryKey_def key_less_iff k_def)
  qed
  have L: "L = (if b = [] then None else Some (last b))"
    and N: "N = (case u of [] \<Rightarrow> None | e # _ \<Rightarrow> if fragRoot e = r then Some e else None)"
    by (simp_all add: L_def N_def b_u_def)
  have Ls: "e \<in> set b" if "L = Some e" for e using that L by (auto split: if_splits)
  have Ns: "e \<in> set u \<and> fragRoot e = r" if "N = Some e" for e
    using that N by (auto split: if_splits list.splits)
  show 1: "e \<in> set m \<and> fragRoot e = r \<and> fragStart e < unat p" if "L = Some e" for e
    using Ls [OF that] bl S(4) by blast
  show 2: "e \<in> set m \<and> fragRoot e = r \<and> unat p \<le> fragStart e" if "N = Some e" for e
    using Ns [OF that] ul S(4) by blast
  show 3: "fragEnd e \<le> fragStart e'" if "L = Some e" "N = Some e'" for e e'
    using S(3) [of e e'] Ls [OF that(1)] Ns [OF that(2)] bl by (auto simp: inOrder_def)
  have B: "L = Some e \<or> fragEnd e \<le> unat p" if "e \<in> set b" for e
  proof (cases "e = last b")
    case True
    then show ?thesis using that L by auto
  next
    case False
    then have "inOrder e (last b)" "last b \<in> set b" using last_inOrder S(1) that by (auto intro: last_in_set)
    then show ?thesis using bl [of "last b"] bl [OF that] by (auto simp: inOrder_def)
  qed
  have U: "\<exists>e'. N = Some e' \<and> (e' = e \<or> fragStart e' < fragStart e)" if e: "e \<in> set u" "fragRoot e = r" for e
  proof (cases u)
    case (Cons h t)
    have "fragRoot h = r"
    proof (cases "e = h")
      case False
      then have "fst h < fst e" using S(2) Cons e(1) by (auto simp: inOrder_def)
      moreover have "r \<le> fragRoot h" using low S(4) Cons by (simp add: lowestRoot_def)
      ultimately show ?thesis using e(2) by (auto simp: key_less_iff)
    qed (use e in simp)
    then have "N = Some h" using N Cons by simp
    moreover have "fragStart h < fragStart e" if "e \<noteq> h"
      using S(2) Cons e that \<open>fragRoot h = r\<close> pos [of h] S(4) by (auto simp: inOrder_def)
    ultimately show ?thesis by auto
  qed (use e in simp)
  show "(\<exists>e \<in> set m. equalsRange r (unat p) n e) \<longleftrightarrow> (\<exists>e. N = Some e \<and> equalsRange r (unat p) n e)"
  proof
    assume "\<exists>e \<in> set m. equalsRange r (unat p) n e"
    then obtain e where e: "e \<in> set m" "fragRoot e = r" "fragStart e = unat p" "unat p + n = fragEnd e"
      by (auto simp: equalsRange_def)
    then have "e \<notin> set b" using bl [of e] by auto
    then have "e \<in> set u" using e(1) S(4) by blast
    then obtain e' where "N = Some e'" "e' = e \<or> fragStart e' < fragStart e" using U e(2) by blast
    then show "\<exists>e. N = Some e \<and> equalsRange r (unat p) n e" using 2 e by (auto simp: equalsRange_def)
  qed (use 2 in blast)
  show "(\<exists>e \<in> set m. containsRange r (unat p) n e) \<longleftrightarrow>
      (\<exists>e. (L = Some e \<or> N = Some e) \<and> containsRange r (unat p) n e)"
  proof
    assume "\<exists>e \<in> set m. containsRange r (unat p) n e"
    then obtain e where e: "e \<in> set m" "containsRange r (unat p) n e" by blast
    show "\<exists>e. (L = Some e \<or> N = Some e) \<and> containsRange r (unat p) n e"
    proof (cases "e \<in> set b")
      case True
      then have "L = Some e" using B [OF True] e(2) n by (auto simp: containsRange_def)
      then show ?thesis using e(2) by blast
    next
      case False
      then have "e \<in> set u" "fragRoot e = r" "fragStart e \<le> unat p" using e S(4) by (auto simp: containsRange_def)
      then show ?thesis using U [of e] 2 e by fastforce
    qed
  qed (use 1 2 in blast)
  show "(\<exists>e \<in> set m. overlapsRange r (unat p) n e) \<longleftrightarrow>
      (\<exists>e. (L = Some e \<or> N = Some e) \<and> overlapsRange r (unat p) n e)"
  proof
    assume "\<exists>e \<in> set m. overlapsRange r (unat p) n e"
    then obtain e where e: "e \<in> set m" "overlapsRange r (unat p) n e" by blast
    show "\<exists>e. (L = Some e \<or> N = Some e) \<and> overlapsRange r (unat p) n e"
    proof (cases "e \<in> set b")
      case True
      then have "L = Some e" using B [OF True] e(2) by (auto simp: overlapsRange_def)
      then show ?thesis using e(2) by blast
    next
      case False
      then have "e \<in> set u" "fragRoot e = r" using e S(4) by (auto simp: overlapsRange_def)
      then obtain e' where e': "N = Some e'" "e' = e \<or> fragStart e' < fragStart e" using U by blast
      then have "overlapsRange r (unat p) n e'" using 2 [OF e'(1)] pos [of e'] e(2) by (auto simp: overlapsRange_def)
      then show ?thesis using e' by blast
    qed
  qed (use 1 2 in blast)
qed


text \<open>The decision of the code, on natural numbers, from the two neighbours.\<close>

type_synonym entry = "HostPtrEntryKey \<times> FragmentStorage"

definition nextCheck :: "nat \<Rightarrow> nat \<Rightarrow> entry option \<Rightarrow> entry option \<times> OverlapStatus" where
  "nextCheck p n N = (case N of None \<Rightarrow> (None, FRAGMENT_NOT_OVERLAPING_WITH_ANY_OTHER)
     | Some e \<Rightarrow>
         if p < fragStart e then
           if fragStart e < p + n then (None, FRAGMENT_OVERLAPING_AND_BIGGER_THEN_STORED_FRAGMENT)
           else (None, FRAGMENT_NOT_OVERLAPING_WITH_ANY_OTHER)
         else if fragEnd e < p + n then (None, FRAGMENT_OVERLAPING_AND_BIGGER_THEN_STORED_FRAGMENT)
         else if p + n < fragEnd e then (Some e, FRAGMENT_WITHIN_STORED_FRAGMENT)
         else (Some e, FRAGMENT_WITH_EXACT_SIZE_AS_STORED_FRAGMENT))"

definition entryCheck :: "nat \<Rightarrow> nat \<Rightarrow> entry \<Rightarrow> entry option \<Rightarrow> entry option \<times> OverlapStatus" where
  "entryCheck p n e N =
     (if fragStart e = p \<and> fragEnd e = p + n then (Some e, FRAGMENT_WITH_EXACT_SIZE_AS_STORED_FRAGMENT)
      else if fragStart e \<le> p \<and> p < fragEnd e then
        if p + n \<le> fragEnd e then (Some e, FRAGMENT_WITHIN_STORED_FRAGMENT)
        else (None, FRAGMENT_OVERLAPING_AND_BIGGER_THEN_STORED_FRAGMENT)
      else nextCheck p n N)"

definition lastBefore :: "u32 \<Rightarrow> u64 \<Rightarrow> fragments \<Rightarrow> entry option" where
  "lastBefore r p m = (let b = beforeKey (HostPtrEntryKey p r) m in if b = [] then None else Some (last b))"

definition firstFrom :: "u32 \<Rightarrow> u64 \<Rightarrow> fragments \<Rightarrow> entry option" where
  "firstFrom r p m = (case lowerBound (HostPtrEntryKey p r) m of
     [] \<Rightarrow> None | e # _ \<Rightarrow> if fragRoot e = r then Some e else None)"

lemma overlap_check_decision:
  fixes p :: u64
  assumes ok: "fragmentsOk m" and low: "lowestRoot r m" and wrap: "unat p + unat s < 2 ^ 64"
  shows "getFragmentAndCheckForOverlaps r p s m =
    (case lastBefore r p m of
       Some l \<Rightarrow> entryCheck (unat p) (unat s) l (firstFrom r p m)
     | None \<Rightarrow> (case firstFrom r p m of
         None \<Rightarrow> (None, FRAGMENT_NOT_OVERLAPING_WITH_ANY_OTHER)
       | Some h \<Rightarrow> entryCheck (unat p) (unat s) h (firstFrom r p m)))"
proof -
  let ?k = "HostPtrEntryKey p r"
  have end': "unat (p + s) = unat p + unat s" using wrap by (intro unat_add_nowrap) simp
  have fok: "fragmentCpuPointer f = keyPtr k" "unat (keyPtr k + fragmentSize f) = unat (keyPtr k) + unat (fragmentSize f)"
    if "(k, f) \<in> set m" for k f
  proof -
    have "fragmentOk (k, f)" using ok that by (auto simp: fragmentsOk_def)
    then show "fragmentCpuPointer f = keyPtr k"
      "unat (keyPtr k + fragmentSize f) = unat (keyPtr k) + unat (fragmentSize f)"
      by (auto simp: fragmentOk_def intro: unat_add_nowrap)
  qed
  have mem: "e \<in> set m" if "e \<in> set (lowerBound ?k m)" for e using that fragmentsOk_split(4) [OF ok] by blast
  have nxt: "(case lowerBound ?k m of
       [] \<Rightarrow> (None, FRAGMENT_NOT_OVERLAPING_WITH_ANY_OTHER)
     | (k', f) # _ \<Rightarrow>
         if keyRoot k' \<noteq> r then (None, FRAGMENT_NOT_OVERLAPING_WITH_ANY_OTHER)
         else let start = fragmentCpuPointer f; fin = fragmentCpuPointer f + fragmentSize f
              in if p < start then
                   if p + s > start then (None, FRAGMENT_OVERLAPING_AND_BIGGER_THEN_STORED_FRAGMENT)
                   else (None, FRAGMENT_NOT_OVERLAPING_WITH_ANY_OTHER)
                 else if p + s > fin then (None, FRAGMENT_OVERLAPING_AND_BIGGER_THEN_STORED_FRAGMENT)
                 else if p + s < fin then (Some (k', f), FRAGMENT_WITHIN_STORED_FRAGMENT)
                 else (Some (k', f), FRAGMENT_WITH_EXACT_SIZE_AS_STORED_FRAGMENT)) =
      nextCheck (unat p) (unat s) (firstFrom r p m)"
  proof (cases "lowerBound ?k m")
    case (Cons e t)
    then show ?thesis using mem [of e] fok [of "fst e" "snd e"] end'
      by (cases e) (auto simp: nextCheck_def firstFrom_def Let_def word_less_nat_alt)
  qed (simp add: nextCheck_def firstFrom_def)
  have entry: "(if fragmentCpuPointer f = p \<and> fragmentSize f = s
        then (Some (k, f), FRAGMENT_WITH_EXACT_SIZE_AS_STORED_FRAGMENT)
        else if p \<ge> fragmentCpuPointer f \<and> p < fragmentCpuPointer f + fragmentSize f then
          if p + s \<le> fragmentCpuPointer f + fragmentSize f then (Some (k, f), FRAGMENT_WITHIN_STORED_FRAGMENT)
          else (None, FRAGMENT_OVERLAPING_AND_BIGGER_THEN_STORED_FRAGMENT)
        else nextCheck (unat p) (unat s) (firstFrom r p m)) =
      entryCheck (unat p) (unat s) (k, f) (firstFrom r p m)" if "(k, f) \<in> set m" for k f
    unfolding fok(1) [OF that]
    by (auto simp: entryCheck_def word_less_nat_alt word_le_nat_alt word_unat_eq_iff fok(2) [OF that] end')
  show ?thesis
  proof (cases "beforeKey ?k m = []")
    case False
    obtain k f where l: "last (beforeKey ?k m) = (k, f)" by fastforce
    then have "(k, f) \<in> set (beforeKey ?k m)" using False by (metis last_in_set)
    then have kf: "(k, f) \<in> set m" "(k, f) \<in> set (beforeKey ?k m)"
      using fragmentsOk_split(4) [OF ok] by blast+
    have "keyRoot k = r"
      using kf beforeKey_less [OF kf(2)] low by (force simp: lowestRoot_def key_less_iff)
    then show ?thesis using False l entry [OF kf(1)]
      unfolding getFragmentAndCheckForOverlaps_def Let_def nxt [unfolded Let_def]
      by (simp add: lastBefore_def Let_def)
  next
    case True
    show ?thesis
    proof (cases "lowerBound ?k m")
      case Nil
      then show ?thesis using True
        by (simp add: getFragmentAndCheckForOverlaps_def lastBefore_def firstFrom_def Let_def)
    next
      case (Cons h t)
      obtain k f where h: "h = (k, f)" by fastforce
      then have kf: "(k, f) \<in> set m" using Cons mem by simp
      show ?thesis using True Cons h entry [OF kf]
        unfolding getFragmentAndCheckForOverlaps_def Let_def nxt [unfolded Let_def]
        by (auto simp: lastBefore_def firstFrom_def Let_def)
    qed
  qed
qed


lemma overlap_check_spec:
  fixes p :: u64
  assumes ok: "fragmentsOk m" and low: "lowestRoot r m" and s: "s \<noteq> 0" and wrap: "unat p + unat s < 2 ^ 64"
  shows "snd (getFragmentAndCheckForOverlaps r p s m) = overlapSpec r (unat p) (unat s) m" (is ?status)
    and "fst (getFragmentAndCheckForOverlaps r p s m) = Some e \<Longrightarrow>
       e \<in> set m \<and> containsRange r (unat p) (unat s) e" (is "_ \<Longrightarrow> ?found")
    and "overlapSpec r (unat p) (unat s) m = FRAGMENT_WITHIN_STORED_FRAGMENT \<Longrightarrow>
       fst (getFragmentAndCheckForOverlaps r p s m) \<noteq> None"
proof -
  have n: "0 < unat s" using s by (simp add: unat_gt_0)
  have L: "(if beforeKey (HostPtrEntryKey p r) m = [] then None else Some (last (beforeKey (HostPtrEntryKey p r) m))) =
      lastBefore r p m" by (simp add: lastBefore_def Let_def)
  note nb = neighbours [OF ok low n, of p, unfolded L, folded firstFrom_def]
  have spec: "overlapSpec r (unat p) (unat s) m =
     (if \<exists>e. firstFrom r p m = Some e \<and> equalsRange r (unat p) (unat s) e
      then FRAGMENT_WITH_EXACT_SIZE_AS_STORED_FRAGMENT
      else if \<exists>e. (lastBefore r p m = Some e \<or> firstFrom r p m = Some e) \<and> containsRange r (unat p) (unat s) e
      then FRAGMENT_WITHIN_STORED_FRAGMENT
      else if \<exists>e. (lastBefore r p m = Some e \<or> firstFrom r p m = Some e) \<and> overlapsRange r (unat p) (unat s) e
      then FRAGMENT_OVERLAPING_AND_BIGGER_THEN_STORED_FRAGMENT
      else FRAGMENT_NOT_OVERLAPING_WITH_ANY_OTHER)"
    unfolding overlapSpec_def nb(4-6) ..
  have pos: "fragStart e < fragEnd e" if "e \<in> set m" for e
    using ok that fragmentOk_pos by (auto simp: fragmentsOk_def)
  note D = overlap_check_decision [OF ok low wrap]
  have all: "?status \<and> (\<forall>e. fst (getFragmentAndCheckForOverlaps r p s m) = Some e \<longrightarrow>
      e \<in> set m \<and> containsRange r (unat p) (unat s) e) \<and>
    (overlapSpec r (unat p) (unat s) m = FRAGMENT_WITHIN_STORED_FRAGMENT \<longrightarrow>
       fst (getFragmentAndCheckForOverlaps r p s m) \<noteq> None)"
  proof (cases "lastBefore r p m"; cases "firstFrom r p m")
    fix f assume LN: "lastBefore r p m = None" "firstFrom r p m = Some f"
    note f = nb(2) [OF LN(2)] pos [of f]
    have ex: "(\<exists>e. (None = Some e \<or> Some f = Some e) \<and> P e) \<longleftrightarrow> P f" for P :: "entry \<Rightarrow> bool" by auto
    show ?thesis unfolding D spec LN ex using f n
      by (simp add: entryCheck_def nextCheck_def range_defs) auto
  next
    fix l assume LN: "lastBefore r p m = Some l" "firstFrom r p m = None"
    note l = nb(1) [OF LN(1)] pos [of l]
    have ex: "(\<exists>e. (Some l = Some e \<or> None = Some e) \<and> P e) \<longleftrightarrow> P l" for P :: "entry \<Rightarrow> bool" by auto
    show ?thesis unfolding D spec LN ex using l n
      by (simp add: entryCheck_def nextCheck_def range_defs) auto
  next
    fix l f assume LN: "lastBefore r p m = Some l" "firstFrom r p m = Some f"
    note lf = nb(1) [OF LN(1)] nb(2) [OF LN(2)] nb(3) [OF LN] pos [of l] pos [of f]
    have ex: "(\<exists>e. (Some l = Some e \<or> Some f = Some e) \<and> P e) \<longleftrightarrow> P l \<or> P f" for P :: "entry \<Rightarrow> bool" by blast
    show ?thesis unfolding D spec LN ex using lf n
      by (simp add: entryCheck_def nextCheck_def range_defs) auto
  qed (simp add: D spec)
  then show ?status "fst (getFragmentAndCheckForOverlaps r p s m) = Some e \<Longrightarrow> ?found"
    "overlapSpec r (unat p) (unat s) m = FRAGMENT_WITHIN_STORED_FRAGMENT \<Longrightarrow>
       fst (getFragmentAndCheckForOverlaps r p s m) \<noteq> None" by blast+
qed


section \<open>Storing and releasing\<close>

lemma sorted_distinct_keys:
  assumes "sorted_wrt inOrder m" "(k, f) \<in> set m" "(k, f') \<in> set m"
  shows "f = f'"
  using assms by (induction m) (auto simp: inOrder_def)

lemma changeRefCount_inverse [simp]: "changeRefCount (- 1) k (changeRefCount 1 k m) = m"
  by (induction m) (auto simp: changeRefCount_def)

lemma changeRefCount_ok:
  assumes "fragmentsOk m" "\<forall>f. (k, f) \<in> set m \<longrightarrow> 1 \<le> refCount f + d"
  shows "fragmentsOk (changeRefCount d k m)"
proof -
  define g :: "entry \<Rightarrow> entry" where "g = (\<lambda>(l, f). (l, if l = k then f\<lparr>refCount := refCount f + d\<rparr> else f))"
  have "fst (g e) = fst e \<and> fragmentSize (snd (g e)) = fragmentSize (snd e)" for e
    by (cases e) (simp add: g_def)
  then have io: "inOrder (g e) (g e') = inOrder e e'" for e e' by (simp add: inOrder_def)
  have "fragmentOk (g e)" if "e \<in> set m" for e
  proof -
    have "fragmentOk e" using assms(1) that by (simp add: fragmentsOk_def)
    then show ?thesis using assms(2) that by (cases e) (auto simp: g_def fragmentOk_def)
  qed
  moreover have "sorted_wrt inOrder (map g m)"
    using assms(1) by (simp add: fragmentsOk_def sorted_wrt_map io)
  ultimately show ?thesis by (auto simp: fragmentsOk_def changeRefCount_def simp flip: g_def)
qed

lemma eraseFragment_ok: "fragmentsOk m \<Longrightarrow> fragmentsOk (eraseFragment k m)"
  by (auto simp: fragmentsOk_def eraseFragment_def sorted_wrt_filter)

lemma insertFragment_erase:
  assumes "sorted_wrt inOrder m" "\<forall>e \<in> set m. fst e \<noteq> k"
  shows "eraseFragment k (insertFragment k f m) = m"
  using assms by (induction k f m rule: insertFragment.induct) (auto simp: eraseFragment_def filter_id_conv)

lemma insertFragment_set:
  "(\<forall>e \<in> set m. fst e \<noteq> k) \<Longrightarrow> set (insertFragment k f m) = insert (k, f) (set m)"
  by (induction k f m rule: insertFragment.induct) auto

lemma insertFragment_sorted:
  assumes "sorted_wrt inOrder m" "\<forall>e \<in> set m. inOrder e (k, f) \<or> inOrder (k, f) e"
  shows "sorted_wrt inOrder (insertFragment k f m)"
  using assms
proof (induction k f m rule: insertFragment.induct)
  case (2 k f l h m)
  have ne: "\<forall>e \<in> set ((l, h) # m). fst e \<noteq> k" using "2.prems"(2) by (auto simp: inOrder_def)
  show ?case
  proof (cases "k < l")
    case True
    have "inOrder (k, f) e" if "e \<in> set ((l, h) # m)" for e
    proof (rule ccontr)
      assume "\<not> inOrder (k, f) e"
      then have "fst e < k" using "2.prems"(2) that by (auto simp: inOrder_def)
      moreover have "l \<le> fst e" using "2.prems"(1) that by (auto simp: inOrder_def)
      ultimately show False using True by simp
    qed
    then show ?thesis using True "2.prems"(1) by simp
  next
    case False
    then have "inOrder (l, h) (k, f)" using "2.prems"(2) by (auto simp: inOrder_def)
    then show ?thesis using False ne 2 by (auto simp: insertFragment_set)
  qed
qed simp

lemma stored_found:
  assumes ok: "fragmentsOk m" and new: "\<forall>e \<in> set m. fst e \<noteq> k" and k: "k = HostPtrEntryKey (fragmentCpuPointer f) r"
  shows "findElement k (insertFragment k f m) = Some (k, f)"
proof -
  have "lowerBound k (insertFragment k f m) = (k, f) # lowerBound k m"
    using ok new unfolding fragmentsOk_def lowerBound_def
    by (induction k f m rule: insertFragment.induct) (auto simp: inOrder_def)
  then show ?thesis by (simp add: findElement_def k)
qed

lemma store_release:
  fixes r :: u32
  assumes ok: "fragmentsOk m" and rc: "refCount fr = 0"
  defines "k \<equiv> HostPtrEntryKey (fragmentCpuPointer fr) r"
  shows "releaseHostPtr r (fragmentCpuPointer fr) (storeFragment r fr m) = Inr (findElement k m = None, m)"
proof (cases "findElement k m")
  case None
  have new: "\<forall>e \<in> set m. fst e \<noteq> k"
  proof (rule ballI, rule notI)
    fix e assume "e \<in> set m" "fst e = k"
    moreover from this have "fragmentOk e" using ok by (simp add: fragmentsOk_def)
    ultimately have "findElement k m = Some e"
      using findElement_holds [OF ok, of "fragmentCpuPointer fr" r e] fragmentOk_pos [of e] by (auto simp: k_def)
    then show False using None by simp
  qed
  have "findElement k (insertFragment k (fr\<lparr>refCount := 1\<rparr>) m) = Some (k, fr\<lparr>refCount := 1\<rparr>)"
    by (rule stored_found [OF ok new]) (simp add: k_def)
  moreover have "storeFragment r fr m = insertFragment k (fr\<lparr>refCount := 1\<rparr>) m"
    using None rc by (simp add: storeFragment_def k_def)
  ultimately show ?thesis
    using None insertFragment_erase [OF _ new] ok by (simp add: releaseHostPtr_def fragmentsOk_def flip: k_def)
next
  case (Some e)
  obtain l f where e: "e = (l, f)" by fastforce
  have h: "(l, f) \<in> set m" "keyRoot l = r" "unat (keyPtr l) \<le> unat (fragmentCpuPointer fr)"
    "unat (fragmentCpuPointer fr) < unat (keyPtr l) + unat (fragmentSize f)"
    using Some findElement_holds [OF ok, of "fragmentCpuPointer fr" r e] by (simp_all add: k_def e)
  have "1 \<le> refCount f" using ok h(1) by (force simp: fragmentsOk_def fragmentOk_def)
  have ok': "fragmentsOk (changeRefCount 1 l m)"
    using ok by (intro changeRefCount_ok) (auto simp: fragmentsOk_def fragmentOk_def)
  have "(l, f\<lparr>refCount := refCount f + 1\<rparr>) \<in> set (changeRefCount 1 l m)"
    using h(1) by (force simp: changeRefCount_def)
  then have "findElement k (changeRefCount 1 l m) = Some (l, f\<lparr>refCount := refCount f + 1\<rparr>)"
    using findElement_holds [OF ok', of "fragmentCpuPointer fr" r] h by (simp add: k_def)
  moreover have "storeFragment r fr m = changeRefCount 1 l m"
    using Some e by (simp add: storeFragment_def k_def)
  ultimately show ?thesis using Some \<open>1 \<le> refCount f\<close> by (simp add: releaseHostPtr_def flip: k_def)
qed

lemma release_ok:
  assumes ok: "fragmentsOk m" and rel: "releaseHostPtr r p m = Inr (freed, m')"
  shows "fragmentsOk m'"
proof -
  from rel obtain k f where e: "findElement (HostPtrEntryKey p r) m = Some (k, f)"
    and m': "m' = (if refCount f - 1 \<le> 0 then eraseFragment k m else changeRefCount (- 1) k m)"
    by (auto simp: releaseHostPtr_def split: option.splits if_splits)
  have kf: "(k, f) \<in> set m" using e findElement_holds [OF ok] by blast
  show ?thesis
  proof (cases "refCount f - 1 \<le> 0")
    case False
    have "f' = f" if "(k, f') \<in> set m" for f'
      using sorted_distinct_keys [of m k] ok kf that unfolding fragmentsOk_def by blast
    then have "fragmentsOk (changeRefCount (- 1) k m)"
      using False by (intro changeRefCount_ok [OF ok]) force
    then show ?thesis using m' False by simp
  qed (use m' eraseFragment_ok [OF ok] in simp)
qed

lemma store_ok:
  assumes ok: "fragmentsOk m" and rc: "refCount fr = 0" and sz: "fragmentSize fr \<noteq> 0"
    and wrap: "unat (fragmentCpuPointer fr) + unat (fragmentSize fr) < 2 ^ 64"
    and free: "\<forall>e \<in> set m. \<not> overlapsRange r (unat (fragmentCpuPointer fr)) (unat (fragmentSize fr)) e"
  shows "fragmentsOk (storeFragment r fr m)"
proof -
  define k where "k = HostPtrEntryKey (fragmentCpuPointer fr) r"
  have n: "0 < unat (fragmentSize fr)" using sz by (simp add: unat_gt_0)
  have None: "findElement k m = None"
  proof (rule ccontr)
    assume "findElement k m \<noteq> None"
    then obtain e where "e \<in> set m" "fragRoot e = r" "fragStart e \<le> unat (fragmentCpuPointer fr)"
      "unat (fragmentCpuPointer fr) < fragEnd e"
      using findElement_holds [OF ok, of "fragmentCpuPointer fr" r] by (auto simp: k_def)
    then show False using free n by (auto simp: overlapsRange_def)
  qed
  have pos: "fragStart e < fragEnd e" if "e \<in> set m" for e
    using ok that fragmentOk_pos by (auto simp: fragmentsOk_def)
  have ord: "inOrder e (k, fr\<lparr>refCount := 1\<rparr>) \<or> inOrder (k, fr\<lparr>refCount := 1\<rparr>) e" if "e \<in> set m" for e
    using free that pos [OF that] n
    by (auto simp: inOrder_def overlapsRange_def key_less_iff k_def)
  then have new: "\<forall>e \<in> set m. fst e \<noteq> k" by (auto simp: inOrder_def)
  have "sorted_wrt inOrder (insertFragment k (fr\<lparr>refCount := 1\<rparr>) m)"
    using ok ord by (intro insertFragment_sorted) (auto simp: fragmentsOk_def)
  moreover have "fragmentOk (k, fr\<lparr>refCount := 1\<rparr>)" using sz wrap by (simp add: fragmentOk_def k_def)
  ultimately have "fragmentsOk (insertFragment k (fr\<lparr>refCount := 1\<rparr>) m)"
    using ok insertFragment_set [OF new] by (simp add: fragmentsOk_def)
  then show ?thesis using None rc by (simp add: storeFragment_def k_def)
qed

section \<open>Preparing storage never aborts after the overlap check\<close>

text \<open>\<open>shrinks m m'\<close>: the ranges of \<open>m'\<close> are among those of \<open>m\<close>.\<close>

definition entrySpan :: "entry \<Rightarrow> HostPtrEntryKey \<times> u64" where
  "entrySpan e = (fst e, fragmentSize (snd e))"

definition shrinks :: "fragments \<Rightarrow> fragments \<Rightarrow> bool" where
  "shrinks m m' \<longleftrightarrow> fragmentsOk m' \<and> entrySpan ` set m' \<subseteq> entrySpan ` set m"

lemma shrinks_refl: "fragmentsOk m \<Longrightarrow> shrinks m m"
  by (simp add: shrinks_def)

lemma shrinks_trans: "shrinks m m1 \<Longrightarrow> shrinks m1 m2 \<Longrightarrow> shrinks m m2"
  unfolding shrinks_def by blast

lemma shrinks_entry:
  assumes "shrinks m m'" "e' \<in> set m'"
  obtains e where "e \<in> set m" "fst e = fst e'" "fragmentSize (snd e) = fragmentSize (snd e')"
  using assms unfolding shrinks_def entrySpan_def by (auto simp: image_subset_iff image_iff)

lemma shrinks_root: "shrinks m m' \<Longrightarrow> lowestRoot r m \<Longrightarrow> lowestRoot r m'"
  by (metis lowestRoot_def shrinks_entry)

lemma overlapping_equal:
  assumes "fragmentsOk m" "e \<in> set m" "e' \<in> set m" "containsRange r p n e" "overlapsRange r p n e'"
  shows "e = e'"
proof -
  have "inOrder e e' \<or> inOrder e' e \<or> e = e'"
    using assms(1-3) unfolding fragmentsOk_def
    by (metis in_set_conv_nth linorder_neqE_nat sorted_wrt_nth_less)
  then show ?thesis using assms(4,5) by (auto simp: inOrder_def range_defs)
qed

lemma bigger_antimono:
  assumes ok: "fragmentsOk m" and sh: "shrinks m m'"
    and big: "overlapSpec r p n m' = FRAGMENT_OVERLAPING_AND_BIGGER_THEN_STORED_FRAGMENT"
  shows "overlapSpec r p n m = FRAGMENT_OVERLAPING_AND_BIGGER_THEN_STORED_FRAGMENT"
proof -
  obtain e' where e': "e' \<in> set m'" "overlapsRange r p n e'" "\<forall>x \<in> set m'. \<not> containsRange r p n x"
    using big by (auto simp: overlapSpec_def split: if_splits)
  obtain e where e: "e \<in> set m" "fst e = fst e'" "fragmentSize (snd e) = fragmentSize (snd e')"
    using shrinks_entry [OF sh e'(1)] .
  then have ov: "overlapsRange r p n e" "\<not> containsRange r p n e" using e' by (simp_all add: range_defs)
  then have no: "\<forall>x \<in> set m. \<not> containsRange r p n x" using overlapping_equal [OF ok _ e(1)] by blast
  moreover have "equalsRange r p n x \<Longrightarrow> containsRange r p n x" for x by (simp add: range_defs)
  ultimately show ?thesis using e(1) ov(1) by (auto simp: overlapSpec_def)
qed

definition fragmentValid :: "PartialAllocation \<Rightarrow> bool" where
  "fragmentValid a \<longleftrightarrow> allocationSize a \<noteq> 0 \<and> unat (allocationPtr a) + unat (allocationSize a) < 2 ^ 64"

abbreviation tooBig :: "u32 \<Rightarrow> PartialAllocation \<Rightarrow> fragments \<Rightarrow> bool" where
  "tooBig r a m \<equiv> overlapStatusOf r a m = FRAGMENT_OVERLAPING_AND_BIGGER_THEN_STORED_FRAGMENT"

lemma status_spec:
  assumes "fragmentsOk m" "lowestRoot r m" "fragmentValid a"
  shows "overlapStatusOf r a m = overlapSpec r (unat (allocationPtr a)) (unat (allocationSize a)) m"
  using overlap_check_spec(1) [OF assms(1,2)] assms(3) by (simp add: overlapStatusOf_def fragmentValid_def)

lemma status_antimono:
  assumes "fragmentsOk m" "lowestRoot r m" "fragmentValid a" "shrinks m m'" "\<not> tooBig r a m"
  shows "\<not> tooBig r a m'"
proof -
  have "fragmentsOk m'" "lowestRoot r m'"
    using assms(4) shrinks_root [OF assms(4,2)] by (simp_all add: shrinks_def)
  then show ?thesis
    using assms bigger_antimono [OF assms(1,4)] by (auto simp: status_spec)
qed

lemma checkFragments_success:
  assumes clean: "\<And>b m. fragmentsOk m \<Longrightarrow> shrinks m (cleanTemporary mm b m)"
    and "fragmentsOk m" "lowestRoot r m" "\<forall>a \<in> set as. fragmentValid a"
    and "checkFragments mm r as m = (requirementsSuccess, m')"
  shows "shrinks m m' \<and> (\<forall>a \<in> set as. \<not> tooBig r a m')"
  using assms(2-)
proof (induction as arbitrary: m)
  case Nil
  then show ?case by (simp add: shrinks_refl)
next
  case (Cons a as)
  obtain m1 where m1: "shrinks m m1" "\<not> tooBig r a m1" "checkFragments mm r as m1 = (requirementsSuccess, m')"
  proof -
    define n where "n = cleanTemporary mm False m"
    have n: "shrinks m n" using clean [OF Cons.prems(1)] by (simp add: n_def)
    then have "shrinks n (cleanTemporary mm True n)" using clean by (simp add: shrinks_def)
    then show ?thesis
      using Cons.prems(4) that [OF shrinks_refl [OF Cons.prems(1)]] that [OF n] that [OF shrinks_trans [OF n]]
      by (simp add: Let_def flip: n_def split: if_splits)
  qed
  then have ok: "fragmentsOk m1" "lowestRoot r m1"
    using Cons.prems(2) shrinks_root by (auto simp: shrinks_def)
  then have "shrinks m1 m'" "\<forall>a \<in> set as. \<not> tooBig r a m'" using Cons.IH m1(3) Cons.prems(3) by auto
  moreover have "\<not> tooBig r a m'"
    using status_antimono [OF ok _ \<open>shrinks m1 m'\<close> m1(2)] Cons.prems(3) by simp
  ultimately show ?case using shrinks_trans [OF m1(1)] by simp
qed

lemma changeRefCount_shrinks:
  assumes "fragmentsOk m"
  shows "shrinks m (changeRefCount 1 k m)"
proof -
  have "fragmentsOk (changeRefCount 1 k m)"
    using assms by (intro changeRefCount_ok) (auto simp: fragmentsOk_def fragmentOk_def)
  then show ?thesis by (force simp: shrinks_def changeRefCount_def entrySpan_def)
qed

lemma populateFragment_ok:
  assumes "fragmentsOk m" "lowestRoot r m" "fragmentValid a" "\<not> tooBig r a m"
  shows "\<exists>d m'. populateFragment r a m = Inr (d, m') \<and> shrinks m m'"
proof -
  obtain found st where g: "getFragmentAndCheckForOverlaps r (allocationPtr a) (allocationSize a) m = (found, st)"
    by fastforce
  have st: "st \<noteq> FRAGMENT_OVERLAPING_AND_BIGGER_THEN_STORED_FRAGMENT" using assms(4) g by (simp add: overlapStatusOf_def)
  have "found \<noteq> None" if "st = FRAGMENT_WITHIN_STORED_FRAGMENT"
    using overlap_check_spec(1,3) [OF assms(1,2)] assms(3) g that by (fastforce simp: fragmentValid_def)
  then show ?thesis
    using g st shrinks_refl [OF assms(1)] changeRefCount_shrinks [OF assms(1)]
    by (cases found) (auto simp: populateFragment_def Let_def split: prod.splits)
qed

lemma populateFragments_ok:
  assumes "fragmentsOk m" "lowestRoot r m" "\<forall>a \<in> set as. fragmentValid a \<and> \<not> tooBig r a m"
  shows "\<exists>ds m'. populateFragments r as m = Inr (ds, m')"
  using assms
proof (induction as arbitrary: m)
  case (Cons a as)
  then obtain d m1 where p: "populateFragment r a m = Inr (d, m1)" "shrinks m m1"
    using populateFragment_ok [of m r a] by auto
  then have "fragmentsOk m1" "lowestRoot r m1" using shrinks_root Cons.prems(2) by (auto simp: shrinks_def)
  moreover have "\<forall>a \<in> set as. fragmentValid a \<and> \<not> tooBig r a m1"
    using Cons.prems status_antimono [OF Cons.prems(1,2) _ p(2)] by auto
  ultimately show ?case using Cons.IH p(1) by fastforce
qed simp

lemma tiles_valid:
  assumes "tiles lo hi as" "hi < 2 ^ 64" "a \<in> set as"
  shows "fragmentValid a"
proof -
  have le: "lo \<le> hi" if "tiles lo hi as" for lo hi as
    using that by (induction lo hi as rule: tiles.induct) auto
  show ?thesis using assms
    by (induction lo hi as rule: tiles.induct) (auto simp: fragmentValid_def dest!: le)
qed

section \<open>Properties\<close>

text \<open>
  C31: \<open>getAllocationRequirements\<close> splits a request that does not reach the end of the address
  space into at most three non-empty page-aligned fragments that follow each other without a gap,
  from the page holding the first byte up to the end of the page holding the last byte, and the
  total size is the size of that span.
\<close>

theorem requirements_cover_pages:
  assumes "unat p + unat s + 8192 < 2 ^ 64"
  shows "tiles (pageFloor (unat p)) (pageCeil (unat p + unat s))
      (allocationFragments (getAllocationRequirements r p s)) \<and>
    length (allocationFragments (getAllocationRequirements r p s)) \<le> maxFragmentsCount \<and>
    unat (totalRequiredSize (getAllocationRequirements r p s)) =
      pageCeil (unat p + unat s) - pageFloor (unat p) \<and>
    (\<forall>a \<in> set (allocationFragments (getAllocationRequirements r p s)). 4096 dvd unat (allocationPtr a))"
  using requirements_tile [OF assms, of r] by (simp add: maxFragmentsCount_def)

theorem requirements_cover_pages_witness:
  "tiles 4096 16384 (allocationFragments (getAllocationRequirements 0 5000 8192))"
  using requirements_cover_pages [of 5000 8192 0] by (simp add: pageFloor_def pageCeil_def)

text \<open>
  C22: the overlap check, which looks only at the two map entries next to the address, returns what
  a search of all fragments of the device would: exact match, contained in a stored fragment,
  overlapping one without being contained, or free. A returned fragment contains the range. This needs
  that the device has the lowest index of the map (\<open>lowestRoot\<close>), as on a system with one root device;
  \<open>overlap_check_misses_second_device\<close> shows the other case.
\<close>

theorem overlap_check_is_search:
  assumes "fragmentsOk m" "lowestRoot r m" "s \<noteq> 0" "unat p + unat s < 2 ^ 64"
  shows "snd (getFragmentAndCheckForOverlaps r p s m) = overlapSpec r (unat p) (unat s) m \<and>
    (\<forall>e. fst (getFragmentAndCheckForOverlaps r p s m) = Some e \<longrightarrow>
       e \<in> set m \<and> containsRange r (unat p) (unat s) e)"
  using overlap_check_spec(1,2) [OF assms] by blast

definition sampleFragment :: "u64 \<Rightarrow> u64 \<Rightarrow> int \<Rightarrow> FragmentStorage" where
  "sampleFragment p s n = \<lparr>fragmentCpuPointer = p, fragmentSize = s, refCount = n, osInternalStorage = 1,
     fragmentResidency = 2, driverAllocation = False\<rparr>"

definition sampleFragments :: fragments where
  "sampleFragments = [(HostPtrEntryKey 0x1000 0, sampleFragment 0x1000 0x2000 1),
     (HostPtrEntryKey 0x4000 0, sampleFragment 0x4000 0x1000 2)]"

lemma sampleFragments_ok: "fragmentsOk sampleFragments" "lowestRoot 0 sampleFragments"
  by (simp_all add: sampleFragments_def sampleFragment_def fragmentsOk_def inOrder_def fragmentOk_def
      less_HostPtrEntryKey_def lowestRoot_def)

theorem overlap_check_is_search_witness:
  "snd (getFragmentAndCheckForOverlaps 0 0x2000 0x1000 sampleFragments) =
     overlapSpec 0 0x2000 0x1000 sampleFragments"
  using overlap_check_is_search [OF sampleFragments_ok, of "0x1000" "0x2000"] by simp

text \<open>
  C24: releasing a pointer right after a fragment was stored for it restores the map, whether the
  store inserted the fragment or counted a reference to the one that holds the pointer, and reports
  the fragment ready for release exactly when the store had inserted it.
\<close>

theorem store_release_roundtrip:
  assumes "fragmentsOk m" "refCount fr = 0"
  shows "releaseHostPtr r (fragmentCpuPointer fr) (storeFragment r fr m) =
    Inr (findElement (HostPtrEntryKey (fragmentCpuPointer fr) r) m = None, m)"
  by (rule store_release [OF assms])

theorem store_release_roundtrip_witness:
  "releaseHostPtr 0 0x2000 (storeFragment 0 (sampleFragment 0x2000 0x1000 0) sampleFragments) =
     Inr (False, sampleFragments)"
  using store_release_roundtrip [OF sampleFragments_ok(1), of "sampleFragment 0x2000 0x1000 0" 0]
  by (simp add: sampleFragments_def sampleFragment_def findElement_def lowerBound_def beforeKey_def
      less_HostPtrEntryKey_def)

text \<open>
  C25: storing a fragment that overlaps no stored fragment of its device, and releasing any pointer,
  keep the map sorted, its ranges non-empty and disjoint per device, and its counts positive.
\<close>

theorem fragments_stay_ok:
  assumes "fragmentsOk m"
  shows "(refCount fr = 0 \<and> fragmentSize fr \<noteq> 0 \<and>
      unat (fragmentCpuPointer fr) + unat (fragmentSize fr) < 2 ^ 64 \<and>
      (\<forall>e \<in> set m. \<not> overlapsRange r (unat (fragmentCpuPointer fr)) (unat (fragmentSize fr)) e) \<longrightarrow>
      fragmentsOk (storeFragment r fr m)) \<and>
    (\<forall>p freed m'. releaseHostPtr r p m = Inr (freed, m') \<longrightarrow> fragmentsOk m')"
  using store_ok [OF assms] release_ok [OF assms] by blast

theorem fragments_stay_ok_witness:
  "fragmentsOk (storeFragment 0 (sampleFragment 0x6000 0x1000 0) sampleFragments) \<and>
   releaseHostPtr 0 0x4800 sampleFragments = Inr (False, changeRefCount (- 1) (HostPtrEntryKey 0x4000 0) sampleFragments) \<and>
   fragmentsOk (changeRefCount (- 1) (HostPtrEntryKey 0x4000 0) sampleFragments)"
proof -
  have "releaseHostPtr 0 0x4800 sampleFragments = Inr (False, changeRefCount (- 1) (HostPtrEntryKey 0x4000 0) sampleFragments)"
    by (simp add: sampleFragments_def sampleFragment_def releaseHostPtr_def findElement_def lowerBound_def
        beforeKey_def less_HostPtrEntryKey_def)
  then show ?thesis
    using fragments_stay_ok [OF sampleFragments_ok(1), of "sampleFragment 0x6000 0x1000 0" 0]
    by (simp add: sampleFragments_def sampleFragment_def overlapsRange_def)
qed

text \<open>
  C23: when \<open>prepareOsStorageForAllocation\<close> has passed its overlap check, populating the fragments
  meets neither of the abort paths: it fails exactly when the check stays fatal after both cleanups.
  Cleaning temporary allocations only removes fragments. This too is about the root device with the lowest index of
  the map (\<open>lowestRoot\<close>).
\<close>

theorem prepare_aborts_only_on_overlap:
  assumes "\<forall>b m. fragmentsOk m \<longrightarrow> shrinks m (cleanTemporary mm b m)"
    and "fragmentsOk m" "lowestRoot r m" "unat p + unat s + 8192 < 2 ^ 64"
  shows "(\<exists>f. prepareOsStorageForAllocation mm s p r m = Inl f) \<longleftrightarrow>
    fst (checkAllocationsForOverlapping mm (getAllocationRequirements r p s) m) = requirementsFatal"
proof -
  let ?q = "getAllocationRequirements r p s"
  have root: "reqRootDeviceIndex ?q = r" by (simp add: getAllocationRequirements_def Let_def)
  have "tiles (pageFloor (unat p)) (pageCeil (unat p + unat s)) (allocationFragments ?q)"
    using requirements_tile [OF assms(4), of r] by blast
  moreover have "pageCeil (unat p + unat s) < 2 ^ 64" using assms(4) by (simp add: pageCeil_def)
  ultimately have valid: "\<forall>a \<in> set (allocationFragments ?q). fragmentValid a" using tiles_valid by blast
  obtain st m1 where c: "checkAllocationsForOverlapping mm ?q m = (st, m1)" by fastforce
  show ?thesis
  proof (cases st)
    case requirementsFatal
    then show ?thesis using c by (simp add: prepareOsStorageForAllocation_def Let_def)
  next
    case requirementsSuccess
    then have "checkFragments mm r (allocationFragments ?q) m = (requirementsSuccess, m1)"
      using c root by (simp add: checkAllocationsForOverlapping_def)
    then have "shrinks m m1" and big: "\<forall>a \<in> set (allocationFragments ?q). \<not> tooBig r a m1"
      using checkFragments_success [of mm m r "allocationFragments ?q" m1] assms(1-3) valid by blast+
    then have "fragmentsOk m1" "lowestRoot r m1" using shrinks_root assms(3) by (auto simp: shrinks_def)
    then obtain ds m2 where "populateFragments r (allocationFragments ?q) m1 = Inr (ds, m2)"
      using populateFragments_ok big valid by blast
    then show ?thesis
      using c requirementsSuccess root
      by (simp add: prepareOsStorageForAllocation_def populateAlreadyAllocatedFragments_def Let_def split: prod.split)
  qed
qed

definition sampleManager :: MemoryManager where
  "sampleManager = \<lparr>cleanTemporary = \<lambda>b m. if b then [] else m,
     populateOsHandles = \<lambda>_ h m. (True, h, m), cleanOsHandles = \<lambda>_ h m. (h, m)\<rparr>"

theorem prepare_aborts_only_on_overlap_witness:
  "\<nexists>f. prepareOsStorageForAllocation sampleManager 0x4000 0x2000 0 sampleFragments = Inl f"
proof -
  have "\<forall>b m. fragmentsOk m \<longrightarrow> shrinks m (cleanTemporary sampleManager b m)"
    by (simp add: sampleManager_def shrinks_def fragmentsOk_def)
  moreover have "fst (checkAllocationsForOverlapping sampleManager (getAllocationRequirements 0 0x2000 0x4000) sampleFragments) \<noteq>
      requirementsFatal"
    by (simp add: checkAllocationsForOverlapping_def getAllocationRequirements_def Let_def sampleManager_def
        overlapStatusOf_def getFragmentAndCheckForOverlaps_def sampleFragments_def sampleFragment_def
        lowerBound_def beforeKey_def less_HostPtrEntryKey_def alignSizeWholePage_def alignDown_def alignUp_def
        ptrOffset_def)
  ultimately show ?thesis
    using prepare_aborts_only_on_overlap [of sampleManager sampleFragments 0 "0x2000" "0x4000"] sampleFragments_ok by simp
qed

text \<open>
  C37: for a root device that is not the lowest in the map the overlap check misses fragments. Whenever a device with a lower
  index has a fragment in the map and no fragment of the asked device starts below the address, the entry before the
  address belongs to another device and the check
  returns without looking at the next entry: it reports that nothing overlaps, for every size, although a
  fragment of the device overlaps the range or is the very range asked about.
\<close>

theorem overlap_check_misses_second_device:
  assumes "fragmentsOk m" "e \<in> set m" "fragRoot e < r" "\<forall>f \<in> set m. fragRoot f = r \<longrightarrow> unat p \<le> fragStart f"
    and "f \<in> set m" "overlapsRange r (unat p) (unat s) f"
  shows "getFragmentAndCheckForOverlaps r p s m = (None, FRAGMENT_NOT_OVERLAPING_WITH_ANY_OTHER) \<and>
    overlapSpec r (unat p) (unat s) m \<noteq> FRAGMENT_NOT_OVERLAPING_WITH_ANY_OTHER"
proof -
  let ?k = "HostPtrEntryKey p r"
  have ord: "sorted_wrt inOrder m" using assms(1) by (simp add: fragmentsOk_def)
  have "fst e < ?k" using assms(3) by (simp add: less_HostPtrEntryKey_def)
  then have "e \<notin> set (lowerBound ?k m)" using lowerBound_ge [OF ord] by fastforce
  then have before: "beforeKey ?k m \<noteq> []" using assms(2) map_split [of m ?k] by (metis Un_iff empty_iff empty_set set_append)
  let ?l = "last (beforeKey ?k m)"
  have l: "?l \<in> set (beforeKey ?k m)" using before by simp
  then have lm: "?l \<in> set m" by (auto simp: beforeKey_def dest: set_takeWhileD)
  have "keyRoot (fst ?l) \<noteq> r"
  proof
    assume r: "keyRoot (fst ?l) = r"
    then have "keyPtr (fst ?l) < p" using beforeKey_less [OF l] by (simp add: less_HostPtrEntryKey_def)
    moreover have "unat p \<le> unat (keyPtr (fst ?l))"
      using assms(1,4) lm r by (auto simp: fragmentsOk_def fragmentOk_def)
    ultimately show False by (simp add: word_less_nat_alt)
  qed
  then have "getFragmentAndCheckForOverlaps r p s m = (None, FRAGMENT_NOT_OVERLAPING_WITH_ANY_OTHER)"
    using before by (cases ?l) (simp add: getFragmentAndCheckForOverlaps_def)
  moreover have "overlapSpec r (unat p) (unat s) m \<noteq> FRAGMENT_NOT_OVERLAPING_WITH_ANY_OTHER"
    using assms(5,6) by (auto simp: overlapSpec_def)
  ultimately show ?thesis by simp
qed

text \<open>Device 1 holds the very range asked about, behind a fragment of device 0.\<close>

theorem overlap_check_misses_second_device_witness:
  "getFragmentAndCheckForOverlaps 1 0x4000 0x1000
     [(HostPtrEntryKey 0x1000 0, sampleFragment 0x1000 0x1000 1), (HostPtrEntryKey 0x4000 1, sampleFragment 0x4000 0x1000 1)] =
   (None, FRAGMENT_NOT_OVERLAPING_WITH_ANY_OTHER)"
proof -
  let ?m = "[(HostPtrEntryKey 0x1000 0, sampleFragment 0x1000 0x1000 1), (HostPtrEntryKey 0x4000 1, sampleFragment 0x4000 0x1000 1)]"
  have "fragmentsOk ?m" "\<forall>f \<in> set ?m. fragRoot f = 1 \<longrightarrow> unat (0x4000 :: u64) \<le> fragStart f"
    "overlapsRange 1 (unat (0x4000 :: u64)) (unat (0x1000 :: u64)) (HostPtrEntryKey 0x4000 1, sampleFragment 0x4000 0x1000 1)"
    by (simp_all add: fragmentsOk_def inOrder_def fragmentOk_def sampleFragment_def less_HostPtrEntryKey_def overlapsRange_def)
  then show ?thesis
    using overlap_check_misses_second_device [of ?m "(HostPtrEntryKey 0x1000 0, sampleFragment 0x1000 0x1000 1)" 1 "0x4000"
      "(HostPtrEntryKey 0x4000 1, sampleFragment 0x4000 0x1000 1)" "0x1000"] by simp
qed

end
