(* ===== verification/Stream_Properties.thy ===== *)
theory Stream_Properties
  imports Prelude
begin

text \<open>
  \<open>command_stream/stream_property.h\<close>, \<open>command_stream/stream_properties.{h,cpp}\<close>,
  \<open>command_stream/stream_properties_extra.cpp\<close> and \<open>command_stream/definitions/stream_properties.inl\<close>:
  the software copy of the GPU state that decides which state commands a submission has to repeat.
  Every property carries a dirty flag; a value of all ones means that nothing was requested. The
  product description and the debug variables are parameters. \<open>DEBUG_BREAK_IF\<close> has no effect in a
  release build and is left out.
\<close>

section \<open>One property\<close>

record 'v StreamPropertyType =
  propValue :: 'v
  isDirty :: bool

type_synonym StreamProperty32 = "u32 StreamPropertyType"
type_synonym StreamProperty64 = "u64 StreamPropertyType"
type_synonym StreamPropertySizeT = "u64 StreamPropertyType"

definition initValue :: "'w::len word" where "initValue = - 1"

definition newProperty :: "'w::len word StreamPropertyType" where
  "newProperty = \<lparr>propValue = initValue, isDirty = False\<rparr>"

text \<open>The template parameter \<open>fullStateProperty\<close> is the first argument.\<close>

definition setProperty ::
  "bool \<Rightarrow> 'w::len word \<Rightarrow> 'w word StreamPropertyType \<Rightarrow> 'w word StreamPropertyType" where
  "setProperty fullStateProperty newValue p =
     (if fullStateProperty then
        if propValue p \<noteq> newValue \<and> newValue \<noteq> initValue then p\<lparr>propValue := newValue, isDirty := True\<rparr> else p
      else
        if newValue \<noteq> initValue then p\<lparr>propValue := newValue\<rparr> else p)"

abbreviation set32 :: "u32 \<Rightarrow> StreamProperty32 \<Rightarrow> StreamProperty32" where "set32 \<equiv> setProperty True"
abbreviation set64 :: "u64 \<Rightarrow> StreamProperty64 \<Rightarrow> StreamProperty64" where "set64 \<equiv> setProperty True"
abbreviation setSizeT :: "u64 \<Rightarrow> StreamPropertySizeT \<Rightarrow> StreamPropertySizeT" where "setSizeT \<equiv> setProperty False"

definition cleared :: "'v StreamPropertyType \<Rightarrow> 'v StreamPropertyType" where
  "cleared p = p\<lparr>isDirty := False\<rparr>"

definition forgotten :: "'w::len word StreamPropertyType \<Rightarrow> 'w word StreamPropertyType" where
  "forgotten p = p\<lparr>propValue := initValue\<rparr>"

section \<open>Parameters\<close>

datatype PreemptionMode = PreemptionInitial | PreemptionDisabled | MidBatch | ThreadGroup | MidThread

primrec preemptionModeValue :: "PreemptionMode \<Rightarrow> u32" where
  "preemptionModeValue PreemptionInitial = 0"
| "preemptionModeValue PreemptionDisabled = 1"
| "preemptionModeValue MidBatch = 2"
| "preemptionModeValue ThreadGroup = 3"
| "preemptionModeValue MidThread = 4"

abbreviation grfNotApplicable :: u32 where "grfNotApplicable \<equiv> 0"
abbreviation largeGrfNumber :: u32 where "largeGrfNumber \<equiv> 256"
abbreviation policyNotPresent :: u32 where "policyNotPresent \<equiv> - 1"

record DebugFlags =
  ForceZPassAsyncComputeThreadLimit :: u32
  ForcePixelAsyncComputeThreadLimit :: u32
  ForceScratchAndMTPBufferSizeMode :: u32
  ForceDefaultThreadArbitrationPolicyIfNotSpecified :: bool
  OverrideThreadArbitrationPolicy :: u32

record StateComputeModePropertiesSupport =
  supCoherencyRequired :: bool
  supLargeGrfMode :: bool
  supZPassAsyncComputeThreadLimit :: bool
  supPixelAsyncComputeThreadLimit :: bool
  supThreadArbitrationPolicy :: bool
  supDevicePreemptionMode :: bool
  supAllocationForScratchAndMidthreadPreemption :: bool
  supEnableVariableRegisterSizeAllocation :: bool
  supPipelinedEuThreadArbitration :: bool

record FrontEndPropertiesSupport =
  supComputeDispatchAllWalker :: bool
  supDisableEuFusion :: bool
  supDisableOverdispatch :: bool
  supSingleSliceDispatchCcsMode :: bool

record PipelineSelectPropertiesSupport =
  supMediaSamplerDopClockGate :: bool
  supSystolicMode :: bool

record StateBaseAddressPropertiesSupport =
  supBindingTablePoolBaseAddress :: bool

text \<open>What the product and core helpers of a root device report.\<close>

record RootDeviceEnvironment =
  fillScmPropertiesSupportStructure :: "StateComputeModePropertiesSupport \<Rightarrow> StateComputeModePropertiesSupport"
  fillScmPropertiesSupportStructureExtra :: "StateComputeModePropertiesSupport \<Rightarrow> StateComputeModePropertiesSupport"
  getDefaultThreadArbitrationPolicy :: u32
  fillFrontEndPropertiesSupportStructure :: "FrontEndPropertiesSupport \<Rightarrow> FrontEndPropertiesSupport"
  fillPipelineSelectPropertiesSupportStructure :: "PipelineSelectPropertiesSupport \<Rightarrow> PipelineSelectPropertiesSupport"
  fillStateBaseAddressPropertiesSupportStructure :: "StateBaseAddressPropertiesSupport \<Rightarrow> StateBaseAddressPropertiesSupport"

section \<open>State compute mode\<close>

record StateComputeModeProperties =
  isCoherencyRequired :: StreamProperty32
  largeGrfMode :: StreamProperty32
  zPassAsyncComputeThreadLimit :: StreamProperty32
  pixelAsyncComputeThreadLimit :: StreamProperty32
  threadArbitrationPolicy :: StreamProperty32
  devicePreemptionMode :: StreamProperty32
  memoryAllocationForScratchAndMidthreadPreemptionBuffers :: StreamProperty32
  enableVariableRegisterSizeAllocation :: StreamProperty32
  scmPropertiesSupport :: StateComputeModePropertiesSupport
  defaultThreadArbitrationPolicy :: u32
  scmSupportLoaded :: bool
  pipelinedEuThreadArbitration :: bool

definition newStateComputeMode :: StateComputeModeProperties where
  "newStateComputeMode = \<lparr>isCoherencyRequired = newProperty, largeGrfMode = newProperty,
     zPassAsyncComputeThreadLimit = newProperty, pixelAsyncComputeThreadLimit = newProperty,
     threadArbitrationPolicy = newProperty, devicePreemptionMode = newProperty,
     memoryAllocationForScratchAndMidthreadPreemptionBuffers = newProperty,
     enableVariableRegisterSizeAllocation = newProperty,
     scmPropertiesSupport = \<lparr>supCoherencyRequired = False, supLargeGrfMode = False,
       supZPassAsyncComputeThreadLimit = False, supPixelAsyncComputeThreadLimit = False,
       supThreadArbitrationPolicy = False, supDevicePreemptionMode = False,
       supAllocationForScratchAndMidthreadPreemption = False, supEnableVariableRegisterSizeAllocation = False,
       supPipelinedEuThreadArbitration = False\<rparr>,
     defaultThreadArbitrationPolicy = 0, scmSupportLoaded = False, pipelinedEuThreadArbitration = False\<rparr>"

definition setPropertiesExtraPerContext :: "StateComputeModeProperties \<Rightarrow> StateComputeModeProperties" where
  "setPropertiesExtraPerContext s = s"

definition copyPropertiesExtra ::
  "StateComputeModeProperties \<Rightarrow> StateComputeModeProperties \<Rightarrow> StateComputeModeProperties" where
  "copyPropertiesExtra properties s = s"

definition isDirtyExtra :: "StateComputeModeProperties \<Rightarrow> bool" where
  "isDirtyExtra s = False"

definition clearIsDirtyExtraPerContext :: "StateComputeModeProperties \<Rightarrow> StateComputeModeProperties" where
  "clearIsDirtyExtraPerContext s = s"

definition resetStateExtra :: "StateComputeModeProperties \<Rightarrow> StateComputeModeProperties" where
  "resetStateExtra s = s"

definition clearIsDirtyPerContext :: "StateComputeModeProperties \<Rightarrow> StateComputeModeProperties" where
  "clearIsDirtyPerContext s =
     clearIsDirtyExtraPerContext
       (s\<lparr>isCoherencyRequired := cleared (isCoherencyRequired s),
          devicePreemptionMode := cleared (devicePreemptionMode s),
          enableVariableRegisterSizeAllocation := cleared (enableVariableRegisterSizeAllocation s)\<rparr>)"

definition scmClearIsDirty :: "StateComputeModeProperties \<Rightarrow> StateComputeModeProperties" where
  "scmClearIsDirty s =
     clearIsDirtyPerContext
       (s\<lparr>largeGrfMode := cleared (largeGrfMode s),
          zPassAsyncComputeThreadLimit := cleared (zPassAsyncComputeThreadLimit s),
          pixelAsyncComputeThreadLimit := cleared (pixelAsyncComputeThreadLimit s),
          threadArbitrationPolicy := cleared (threadArbitrationPolicy s),
          memoryAllocationForScratchAndMidthreadPreemptionBuffers :=
            cleared (memoryAllocationForScratchAndMidthreadPreemptionBuffers s)\<rparr>)"

definition scmIsDirty :: "StateComputeModeProperties \<Rightarrow> bool" where
  "scmIsDirty s \<longleftrightarrow>
     isDirty (isCoherencyRequired s) \<or> isDirty (largeGrfMode s) \<or>
     isDirty (zPassAsyncComputeThreadLimit s) \<or> isDirty (pixelAsyncComputeThreadLimit s) \<or>
     isDirty (threadArbitrationPolicy s) \<or> isDirty (devicePreemptionMode s) \<or>
     isDirty (memoryAllocationForScratchAndMidthreadPreemptionBuffers s) \<or>
     isDirty (enableVariableRegisterSizeAllocation s) \<or> isDirtyExtra s"

definition setCoherencyProperty :: "bool \<Rightarrow> StateComputeModeProperties \<Rightarrow> StateComputeModeProperties" where
  "setCoherencyProperty requiresCoherency s =
     (if supCoherencyRequired (scmPropertiesSupport s)
      then s\<lparr>isCoherencyRequired := set32 (of_bool requiresCoherency) (isCoherencyRequired s)\<rparr> else s)"

definition setDevicePreemptionProperty ::
  "PreemptionMode \<Rightarrow> StateComputeModeProperties \<Rightarrow> StateComputeModeProperties" where
  "setDevicePreemptionProperty mode s =
     (if supDevicePreemptionMode (scmPropertiesSupport s)
      then s\<lparr>devicePreemptionMode := set32 (preemptionModeValue mode) (devicePreemptionMode s)\<rparr> else s)"

definition setGrfNumberProperty :: "u32 \<Rightarrow> StateComputeModeProperties \<Rightarrow> StateComputeModeProperties" where
  "setGrfNumberProperty numGrfRequired s =
     (if supLargeGrfMode (scmPropertiesSupport s) \<and>
         (propValue (largeGrfMode s) = - 1 \<or> numGrfRequired \<noteq> grfNotApplicable)
      then s\<lparr>largeGrfMode := set32 (if numGrfRequired = largeGrfNumber then 1 else 0) (largeGrfMode s)\<rparr>
      else s)"

definition setThreadArbitrationProperty ::
  "DebugFlags \<Rightarrow> u32 \<Rightarrow> StateComputeModeProperties \<Rightarrow> StateComputeModeProperties" where
  "setThreadArbitrationProperty flags policy s =
     (let setDefaultThreadArbitrationPolicy =
            policy = policyNotPresent \<and>
            (ForceDefaultThreadArbitrationPolicyIfNotSpecified flags \<or>
             propValue (threadArbitrationPolicy s) = policyNotPresent);
          policy = (if setDefaultThreadArbitrationPolicy then defaultThreadArbitrationPolicy s else policy);
          policy = (if OverrideThreadArbitrationPolicy flags \<noteq> - 1 then OverrideThreadArbitrationPolicy flags
                    else policy)
      in if supThreadArbitrationPolicy (scmPropertiesSupport s)
         then s\<lparr>threadArbitrationPolicy := set32 policy (threadArbitrationPolicy s)\<rparr> else s)"

definition setPipelinedEuThreadArbitration :: "StateComputeModeProperties \<Rightarrow> StateComputeModeProperties" where
  "setPipelinedEuThreadArbitration s = s\<lparr>pipelinedEuThreadArbitration := True\<rparr>"

definition isPipelinedEuThreadArbitrationEnabled :: "StateComputeModeProperties \<Rightarrow> bool" where
  "isPipelinedEuThreadArbitrationEnabled s = pipelinedEuThreadArbitration s"

definition scmInitSupport :: "RootDeviceEnvironment \<Rightarrow> StateComputeModeProperties \<Rightarrow> StateComputeModeProperties" where
  "scmInitSupport env s =
     s\<lparr>scmPropertiesSupport := fillScmPropertiesSupportStructureExtra env
         (fillScmPropertiesSupportStructure env (scmPropertiesSupport s)),
       defaultThreadArbitrationPolicy := getDefaultThreadArbitrationPolicy env,
       scmSupportLoaded := True\<rparr>"

definition scmResetState :: "StateComputeModeProperties \<Rightarrow> StateComputeModeProperties" where
  "scmResetState s =
     (let s = scmClearIsDirty s in
      resetStateExtra
        (s\<lparr>isCoherencyRequired := forgotten (isCoherencyRequired s),
           largeGrfMode := forgotten (largeGrfMode s),
           zPassAsyncComputeThreadLimit := forgotten (zPassAsyncComputeThreadLimit s),
           pixelAsyncComputeThreadLimit := forgotten (pixelAsyncComputeThreadLimit s),
           threadArbitrationPolicy := forgotten (threadArbitrationPolicy s),
           devicePreemptionMode := forgotten (devicePreemptionMode s),
           memoryAllocationForScratchAndMidthreadPreemptionBuffers :=
             forgotten (memoryAllocationForScratchAndMidthreadPreemptionBuffers s),
           enableVariableRegisterSizeAllocation := forgotten (enableVariableRegisterSizeAllocation s)\<rparr>))"

definition setPropertiesPerContext ::
  "bool \<Rightarrow> PreemptionMode \<Rightarrow> bool \<Rightarrow> StateComputeModeProperties \<Rightarrow> StateComputeModeProperties" where
  "setPropertiesPerContext requiresCoherency mode clearDirtyState s =
     (let s = (if \<not> clearDirtyState then clearIsDirtyPerContext s else s);
          s = setDevicePreemptionProperty mode (setCoherencyProperty requiresCoherency s);
          s = (if supEnableVariableRegisterSizeAllocation (scmPropertiesSupport s)
               then s\<lparr>enableVariableRegisterSizeAllocation := set32 1 (enableVariableRegisterSizeAllocation s)\<rparr>
               else s);
          s = (if supPipelinedEuThreadArbitration (scmPropertiesSupport s)
               then setPipelinedEuThreadArbitration s else s);
          s = setPropertiesExtraPerContext s
      in if clearDirtyState then clearIsDirtyPerContext s else s)"

definition setPropertiesGrfNumberThreadArbitration ::
  "DebugFlags \<Rightarrow> u32 \<Rightarrow> u32 \<Rightarrow> StateComputeModeProperties \<Rightarrow> StateComputeModeProperties" where
  "setPropertiesGrfNumberThreadArbitration flags numGrfRequired policy s =
     setThreadArbitrationProperty flags policy
       (setGrfNumberProperty numGrfRequired
          (s\<lparr>threadArbitrationPolicy := cleared (threadArbitrationPolicy s),
             largeGrfMode := cleared (largeGrfMode s)\<rparr>))"

definition scmSetPropertiesAll ::
  "DebugFlags \<Rightarrow> bool \<Rightarrow> u32 \<Rightarrow> u32 \<Rightarrow> PreemptionMode \<Rightarrow> StateComputeModeProperties \<Rightarrow>
   StateComputeModeProperties" where
  "scmSetPropertiesAll flags requiresCoherency numGrfRequired policy mode s =
     (let s = setThreadArbitrationProperty flags policy (setGrfNumberProperty numGrfRequired (scmClearIsDirty s));
          zPass = ForceZPassAsyncComputeThreadLimit flags;
          s = (if zPass \<noteq> - 1 \<and> supZPassAsyncComputeThreadLimit (scmPropertiesSupport s)
               then s\<lparr>zPassAsyncComputeThreadLimit := set32 zPass (zPassAsyncComputeThreadLimit s)\<rparr> else s);
          pixel = ForcePixelAsyncComputeThreadLimit flags;
          s = (if pixel \<noteq> - 1 \<and> supPixelAsyncComputeThreadLimit (scmPropertiesSupport s)
               then s\<lparr>pixelAsyncComputeThreadLimit := set32 pixel (pixelAsyncComputeThreadLimit s)\<rparr> else s);
          s = (if supAllocationForScratchAndMidthreadPreemption (scmPropertiesSupport s)
               then s\<lparr>memoryAllocationForScratchAndMidthreadPreemptionBuffers :=
                        set32 (ForceScratchAndMTPBufferSizeMode flags)
                          (memoryAllocationForScratchAndMidthreadPreemptionBuffers s)\<rparr> else s)
      in setPropertiesPerContext requiresCoherency mode False s)"

definition scmCopyPropertiesAll ::
  "StateComputeModeProperties \<Rightarrow> StateComputeModeProperties \<Rightarrow> StateComputeModeProperties" where
  "scmCopyPropertiesAll properties s =
     (let s = scmClearIsDirty s in
      copyPropertiesExtra properties
        (s\<lparr>isCoherencyRequired := set32 (propValue (isCoherencyRequired properties)) (isCoherencyRequired s),
           largeGrfMode := set32 (propValue (largeGrfMode properties)) (largeGrfMode s),
           zPassAsyncComputeThreadLimit :=
             set32 (propValue (zPassAsyncComputeThreadLimit properties)) (zPassAsyncComputeThreadLimit s),
           pixelAsyncComputeThreadLimit :=
             set32 (propValue (pixelAsyncComputeThreadLimit properties)) (pixelAsyncComputeThreadLimit s),
           threadArbitrationPolicy :=
             set32 (propValue (threadArbitrationPolicy properties)) (threadArbitrationPolicy s),
           devicePreemptionMode := set32 (propValue (devicePreemptionMode properties)) (devicePreemptionMode s),
           memoryAllocationForScratchAndMidthreadPreemptionBuffers :=
             set32 (propValue (memoryAllocationForScratchAndMidthreadPreemptionBuffers properties))
               (memoryAllocationForScratchAndMidthreadPreemptionBuffers s),
           enableVariableRegisterSizeAllocation :=
             set32 (propValue (enableVariableRegisterSizeAllocation properties))
               (enableVariableRegisterSizeAllocation s)\<rparr>))"

definition copyPropertiesGrfNumberThreadArbitration ::
  "StateComputeModeProperties \<Rightarrow> StateComputeModeProperties \<Rightarrow> StateComputeModeProperties" where
  "copyPropertiesGrfNumberThreadArbitration properties s =
     copyPropertiesExtra properties
       (s\<lparr>largeGrfMode := set32 (propValue (largeGrfMode properties)) (cleared (largeGrfMode s)),
          threadArbitrationPolicy :=
            set32 (propValue (threadArbitrationPolicy properties)) (cleared (threadArbitrationPolicy s))\<rparr>)"

section \<open>Front end\<close>

record FrontEndProperties =
  computeDispatchAllWalkerEnable :: StreamProperty32
  disableEUFusion :: StreamProperty32
  disableOverdispatch :: StreamProperty32
  singleSliceDispatchCcsMode :: StreamProperty32
  frontEndPropertiesSupport :: FrontEndPropertiesSupport
  feSupportLoaded :: bool

definition newFrontEnd :: FrontEndProperties where
  "newFrontEnd = \<lparr>computeDispatchAllWalkerEnable = newProperty, disableEUFusion = newProperty,
     disableOverdispatch = newProperty, singleSliceDispatchCcsMode = newProperty,
     frontEndPropertiesSupport = \<lparr>supComputeDispatchAllWalker = False, supDisableEuFusion = False,
       supDisableOverdispatch = False, supSingleSliceDispatchCcsMode = False\<rparr>,
     feSupportLoaded = False\<rparr>"

definition feInitSupport :: "RootDeviceEnvironment \<Rightarrow> FrontEndProperties \<Rightarrow> FrontEndProperties" where
  "feInitSupport env s =
     s\<lparr>frontEndPropertiesSupport := fillFrontEndPropertiesSupportStructure env (frontEndPropertiesSupport s),
       feSupportLoaded := True\<rparr>"

definition feIsDirty :: "FrontEndProperties \<Rightarrow> bool" where
  "feIsDirty s \<longleftrightarrow> isDirty (disableOverdispatch s) \<or> isDirty (disableEUFusion s) \<or>
     isDirty (singleSliceDispatchCcsMode s) \<or> isDirty (computeDispatchAllWalkerEnable s)"

definition feClearIsDirty :: "FrontEndProperties \<Rightarrow> FrontEndProperties" where
  "feClearIsDirty s =
     s\<lparr>disableEUFusion := cleared (disableEUFusion s),
       disableOverdispatch := cleared (disableOverdispatch s),
       singleSliceDispatchCcsMode := cleared (singleSliceDispatchCcsMode s),
       computeDispatchAllWalkerEnable := cleared (computeDispatchAllWalkerEnable s)\<rparr>"

definition feResetState :: "FrontEndProperties \<Rightarrow> FrontEndProperties" where
  "feResetState s =
     (let s = feClearIsDirty s in
      s\<lparr>computeDispatchAllWalkerEnable := forgotten (computeDispatchAllWalkerEnable s),
        disableEUFusion := forgotten (disableEUFusion s),
        disableOverdispatch := forgotten (disableOverdispatch s),
        singleSliceDispatchCcsMode := forgotten (singleSliceDispatchCcsMode s)\<rparr>)"

definition setComputeDispatchAllWalker :: "bool \<Rightarrow> FrontEndProperties \<Rightarrow> FrontEndProperties" where
  "setComputeDispatchAllWalker isCooperativeKernel s =
     (if supComputeDispatchAllWalker (frontEndPropertiesSupport s)
      then s\<lparr>computeDispatchAllWalkerEnable :=
               set32 (of_bool isCooperativeKernel) (computeDispatchAllWalkerEnable s)\<rparr> else s)"

definition setDisableEuFusion :: "bool \<Rightarrow> FrontEndProperties \<Rightarrow> FrontEndProperties" where
  "setDisableEuFusion disableEuFusion s =
     (if supDisableEuFusion (frontEndPropertiesSupport s)
      then s\<lparr>disableEUFusion := set32 (of_bool disableEuFusion) (disableEUFusion s)\<rparr> else s)"

definition setDisableOverdispatch :: "bool \<Rightarrow> FrontEndProperties \<Rightarrow> FrontEndProperties" where
  "setDisableOverdispatch disable s =
     (if supDisableOverdispatch (frontEndPropertiesSupport s)
      then s\<lparr>disableOverdispatch := set32 (of_bool disable) (disableOverdispatch s)\<rparr> else s)"

definition feSetPropertiesAll :: "bool \<Rightarrow> bool \<Rightarrow> bool \<Rightarrow> FrontEndProperties \<Rightarrow> FrontEndProperties" where
  "feSetPropertiesAll isCooperativeKernel disableEuFusion disable s =
     setDisableOverdispatch disable
       (setDisableEuFusion disableEuFusion
          (setComputeDispatchAllWalker isCooperativeKernel (feClearIsDirty s)))"

definition setPropertySingleSliceDispatchCcsMode :: "FrontEndProperties \<Rightarrow> FrontEndProperties" where
  "setPropertySingleSliceDispatchCcsMode s =
     s\<lparr>singleSliceDispatchCcsMode := cleared (singleSliceDispatchCcsMode s)\<rparr>"

definition setPropertiesDisableOverdispatch :: "bool \<Rightarrow> bool \<Rightarrow> FrontEndProperties \<Rightarrow> FrontEndProperties" where
  "setPropertiesDisableOverdispatch disable clearDirtyState s =
     (let clear = (\<lambda>s. s\<lparr>disableOverdispatch := cleared (disableOverdispatch s),
                        singleSliceDispatchCcsMode := cleared (singleSliceDispatchCcsMode s)\<rparr>);
          s = (if \<not> clearDirtyState then clear s else s);
          s = setDisableOverdispatch disable s
      in if clearDirtyState then clear s else s)"

definition setPropertiesComputeDispatchAllWalkerEnableDisableEuFusion ::
  "bool \<Rightarrow> bool \<Rightarrow> FrontEndProperties \<Rightarrow> FrontEndProperties" where
  "setPropertiesComputeDispatchAllWalkerEnableDisableEuFusion isCooperativeKernel disableEuFusion s =
     setDisableEuFusion disableEuFusion
       (setComputeDispatchAllWalker isCooperativeKernel
          (s\<lparr>computeDispatchAllWalkerEnable := cleared (computeDispatchAllWalkerEnable s),
             disableEUFusion := cleared (disableEUFusion s)\<rparr>))"

definition feCopyPropertiesAll :: "FrontEndProperties \<Rightarrow> FrontEndProperties \<Rightarrow> FrontEndProperties" where
  "feCopyPropertiesAll properties s =
     (let s = feClearIsDirty s in
      s\<lparr>disableOverdispatch := set32 (propValue (disableOverdispatch properties)) (disableOverdispatch s),
        disableEUFusion := set32 (propValue (disableEUFusion properties)) (disableEUFusion s),
        singleSliceDispatchCcsMode :=
          set32 (propValue (singleSliceDispatchCcsMode properties)) (singleSliceDispatchCcsMode s),
        computeDispatchAllWalkerEnable :=
          set32 (propValue (computeDispatchAllWalkerEnable properties)) (computeDispatchAllWalkerEnable s)\<rparr>)"

definition copyPropertiesComputeDispatchAllWalkerEnableDisableEuFusion ::
  "FrontEndProperties \<Rightarrow> FrontEndProperties \<Rightarrow> FrontEndProperties" where
  "copyPropertiesComputeDispatchAllWalkerEnableDisableEuFusion properties s =
     s\<lparr>disableEUFusion := set32 (propValue (disableEUFusion properties)) (cleared (disableEUFusion s)),
       computeDispatchAllWalkerEnable :=
         set32 (propValue (computeDispatchAllWalkerEnable properties))
           (cleared (computeDispatchAllWalkerEnable s))\<rparr>"

section \<open>Pipeline select\<close>

record PipelineSelectProperties =
  modeSelected :: StreamProperty32
  mediaSamplerDopClockGate :: StreamProperty32
  systolicMode :: StreamProperty32
  pipelineSelectPropertiesSupport :: PipelineSelectPropertiesSupport
  psSupportLoaded :: bool

definition newPipelineSelect :: PipelineSelectProperties where
  "newPipelineSelect = \<lparr>modeSelected = newProperty, mediaSamplerDopClockGate = newProperty,
     systolicMode = newProperty,
     pipelineSelectPropertiesSupport = \<lparr>supMediaSamplerDopClockGate = False, supSystolicMode = False\<rparr>,
     psSupportLoaded = False\<rparr>"

definition psInitSupport :: "RootDeviceEnvironment \<Rightarrow> PipelineSelectProperties \<Rightarrow> PipelineSelectProperties" where
  "psInitSupport env s =
     s\<lparr>pipelineSelectPropertiesSupport :=
         fillPipelineSelectPropertiesSupportStructure env (pipelineSelectPropertiesSupport s),
       psSupportLoaded := True\<rparr>"

definition psIsDirty :: "PipelineSelectProperties \<Rightarrow> bool" where
  "psIsDirty s \<longleftrightarrow> isDirty (modeSelected s) \<or> isDirty (mediaSamplerDopClockGate s) \<or> isDirty (systolicMode s)"

definition psClearIsDirty :: "PipelineSelectProperties \<Rightarrow> PipelineSelectProperties" where
  "psClearIsDirty s =
     s\<lparr>modeSelected := cleared (modeSelected s),
       mediaSamplerDopClockGate := cleared (mediaSamplerDopClockGate s),
       systolicMode := cleared (systolicMode s)\<rparr>"

definition psResetState :: "PipelineSelectProperties \<Rightarrow> PipelineSelectProperties" where
  "psResetState s =
     (let s = psClearIsDirty s in
      s\<lparr>modeSelected := forgotten (modeSelected s),
        mediaSamplerDopClockGate := forgotten (mediaSamplerDopClockGate s),
        systolicMode := forgotten (systolicMode s)\<rparr>)"

definition setMediaSamplerDopClockGate :: "bool \<Rightarrow> PipelineSelectProperties \<Rightarrow> PipelineSelectProperties" where
  "setMediaSamplerDopClockGate gate s =
     (if supMediaSamplerDopClockGate (pipelineSelectPropertiesSupport s)
      then s\<lparr>mediaSamplerDopClockGate := set32 (of_bool gate) (mediaSamplerDopClockGate s)\<rparr> else s)"

definition setSystolicMode :: "bool \<Rightarrow> PipelineSelectProperties \<Rightarrow> PipelineSelectProperties" where
  "setSystolicMode systolic s =
     (if supSystolicMode (pipelineSelectPropertiesSupport s)
      then s\<lparr>systolicMode := set32 (of_bool systolic) (systolicMode s)\<rparr> else s)"

definition psSetPropertiesAll ::
  "bool \<Rightarrow> bool \<Rightarrow> bool \<Rightarrow> PipelineSelectProperties \<Rightarrow> PipelineSelectProperties" where
  "psSetPropertiesAll mode gate systolic s =
     (let s = psClearIsDirty s;
          s = s\<lparr>modeSelected := set32 (of_bool mode) (modeSelected s)\<rparr>
      in setSystolicMode systolic (setMediaSamplerDopClockGate gate s))"

definition setPropertiesModeSelectedMediaSamplerClockGate ::
  "bool \<Rightarrow> bool \<Rightarrow> bool \<Rightarrow> PipelineSelectProperties \<Rightarrow> PipelineSelectProperties" where
  "setPropertiesModeSelectedMediaSamplerClockGate mode gate clearDirtyState s =
     (let clear = (\<lambda>s. s\<lparr>modeSelected := cleared (modeSelected s),
                        mediaSamplerDopClockGate := cleared (mediaSamplerDopClockGate s)\<rparr>);
          s = (if \<not> clearDirtyState then clear s else s);
          s = s\<lparr>modeSelected := set32 (of_bool mode) (modeSelected s)\<rparr>;
          s = setMediaSamplerDopClockGate gate s
      in if clearDirtyState then clear s else s)"

definition setPropertySystolicMode :: "bool \<Rightarrow> PipelineSelectProperties \<Rightarrow> PipelineSelectProperties" where
  "setPropertySystolicMode systolic s = setSystolicMode systolic (s\<lparr>systolicMode := cleared (systolicMode s)\<rparr>)"

definition psCopyPropertiesAll ::
  "PipelineSelectProperties \<Rightarrow> PipelineSelectProperties \<Rightarrow> PipelineSelectProperties" where
  "psCopyPropertiesAll properties s =
     (let s = psClearIsDirty s in
      s\<lparr>modeSelected := set32 (propValue (modeSelected properties)) (modeSelected s),
        mediaSamplerDopClockGate :=
          set32 (propValue (mediaSamplerDopClockGate properties)) (mediaSamplerDopClockGate s),
        systolicMode := set32 (propValue (systolicMode properties)) (systolicMode s)\<rparr>)"

definition copyPropertiesSystolicMode ::
  "PipelineSelectProperties \<Rightarrow> PipelineSelectProperties \<Rightarrow> PipelineSelectProperties" where
  "copyPropertiesSystolicMode properties s =
     s\<lparr>systolicMode := set32 (propValue (systolicMode properties)) (cleared (systolicMode s))\<rparr>"

section \<open>State base address\<close>

record StateBaseAddressProperties =
  bindingTablePoolBaseAddress :: StreamProperty64
  surfaceStateBaseAddress :: StreamProperty64
  dynamicStateBaseAddress :: StreamProperty64
  indirectObjectBaseAddress :: StreamProperty64
  bindingTablePoolSize :: StreamPropertySizeT
  surfaceStateSize :: StreamPropertySizeT
  dynamicStateSize :: StreamPropertySizeT
  indirectObjectSize :: StreamPropertySizeT
  statelessMocs :: StreamProperty32
  stateBaseAddressPropertiesSupport :: StateBaseAddressPropertiesSupport
  sbaSupportLoaded :: bool

definition newStateBaseAddress :: StateBaseAddressProperties where
  "newStateBaseAddress = \<lparr>bindingTablePoolBaseAddress = newProperty, surfaceStateBaseAddress = newProperty,
     dynamicStateBaseAddress = newProperty, indirectObjectBaseAddress = newProperty,
     bindingTablePoolSize = newProperty, surfaceStateSize = newProperty, dynamicStateSize = newProperty,
     indirectObjectSize = newProperty, statelessMocs = newProperty,
     stateBaseAddressPropertiesSupport = \<lparr>supBindingTablePoolBaseAddress = False\<rparr>,
     sbaSupportLoaded = False\<rparr>"

definition sbaInitSupport :: "RootDeviceEnvironment \<Rightarrow> StateBaseAddressProperties \<Rightarrow> StateBaseAddressProperties" where
  "sbaInitSupport env s =
     s\<lparr>stateBaseAddressPropertiesSupport :=
         fillStateBaseAddressPropertiesSupportStructure env (stateBaseAddressPropertiesSupport s),
       sbaSupportLoaded := True\<rparr>"

definition sbaIsDirty :: "StateBaseAddressProperties \<Rightarrow> bool" where
  "sbaIsDirty s \<longleftrightarrow> isDirty (statelessMocs s) \<or> isDirty (bindingTablePoolBaseAddress s) \<or>
     isDirty (surfaceStateBaseAddress s) \<or> isDirty (dynamicStateBaseAddress s) \<or>
     isDirty (indirectObjectBaseAddress s)"

definition sbaClearIsDirty :: "StateBaseAddressProperties \<Rightarrow> StateBaseAddressProperties" where
  "sbaClearIsDirty s =
     s\<lparr>statelessMocs := cleared (statelessMocs s),
       bindingTablePoolBaseAddress := cleared (bindingTablePoolBaseAddress s),
       surfaceStateBaseAddress := cleared (surfaceStateBaseAddress s),
       dynamicStateBaseAddress := cleared (dynamicStateBaseAddress s),
       indirectObjectBaseAddress := cleared (indirectObjectBaseAddress s)\<rparr>"

definition sbaResetState :: "StateBaseAddressProperties \<Rightarrow> StateBaseAddressProperties" where
  "sbaResetState s =
     (let s = sbaClearIsDirty s in
      s\<lparr>statelessMocs := forgotten (statelessMocs s),
        bindingTablePoolBaseAddress := forgotten (bindingTablePoolBaseAddress s),
        bindingTablePoolSize := forgotten (bindingTablePoolSize s),
        surfaceStateBaseAddress := forgotten (surfaceStateBaseAddress s),
        surfaceStateSize := forgotten (surfaceStateSize s),
        indirectObjectBaseAddress := forgotten (indirectObjectBaseAddress s),
        indirectObjectSize := forgotten (indirectObjectSize s),
        dynamicStateBaseAddress := forgotten (dynamicStateBaseAddress s),
        dynamicStateSize := forgotten (dynamicStateSize s)\<rparr>)"

text \<open>The pairs of base address and size that the operations set together.\<close>

definition setBindingTablePool :: "u64 \<Rightarrow> u64 \<Rightarrow> StateBaseAddressProperties \<Rightarrow> StateBaseAddressProperties" where
  "setBindingTablePool address sz s =
     s\<lparr>bindingTablePoolBaseAddress := set64 address (bindingTablePoolBaseAddress s),
       bindingTablePoolSize := setSizeT sz (bindingTablePoolSize s)\<rparr>"

definition setSurfaceState :: "u64 \<Rightarrow> u64 \<Rightarrow> StateBaseAddressProperties \<Rightarrow> StateBaseAddressProperties" where
  "setSurfaceState address sz s =
     s\<lparr>surfaceStateBaseAddress := set64 address (surfaceStateBaseAddress s),
       surfaceStateSize := setSizeT sz (surfaceStateSize s)\<rparr>"

definition setDynamicState :: "u64 \<Rightarrow> u64 \<Rightarrow> StateBaseAddressProperties \<Rightarrow> StateBaseAddressProperties" where
  "setDynamicState address sz s =
     s\<lparr>dynamicStateBaseAddress := set64 address (dynamicStateBaseAddress s),
       dynamicStateSize := setSizeT sz (dynamicStateSize s)\<rparr>"

definition setIndirectState :: "u64 \<Rightarrow> u64 \<Rightarrow> StateBaseAddressProperties \<Rightarrow> StateBaseAddressProperties" where
  "setIndirectState address sz s =
     s\<lparr>indirectObjectBaseAddress := set64 address (indirectObjectBaseAddress s),
       indirectObjectSize := setSizeT sz (indirectObjectSize s)\<rparr>"

definition setStatelessMocs :: "u32 \<Rightarrow> StateBaseAddressProperties \<Rightarrow> StateBaseAddressProperties" where
  "setStatelessMocs mocs s = s\<lparr>statelessMocs := set32 mocs (statelessMocs s)\<rparr>"

definition setPropertiesBindingTableSurfaceState ::
  "u64 \<Rightarrow> u64 \<Rightarrow> u64 \<Rightarrow> u64 \<Rightarrow> StateBaseAddressProperties \<Rightarrow> StateBaseAddressProperties" where
  "setPropertiesBindingTableSurfaceState poolAddress poolSize surfaceAddress surfaceSize s =
     (let s = s\<lparr>bindingTablePoolBaseAddress := cleared (bindingTablePoolBaseAddress s),
                surfaceStateBaseAddress := cleared (surfaceStateBaseAddress s)\<rparr>;
          s = (if supBindingTablePoolBaseAddress (stateBaseAddressPropertiesSupport s)
               then setBindingTablePool poolAddress poolSize s else s)
      in setSurfaceState surfaceAddress surfaceSize s)"

definition setPropertiesSurfaceState ::
  "u64 \<Rightarrow> u64 \<Rightarrow> StateBaseAddressProperties \<Rightarrow> StateBaseAddressProperties" where
  "setPropertiesSurfaceState address sz s =
     setSurfaceState address sz (s\<lparr>surfaceStateBaseAddress := cleared (surfaceStateBaseAddress s)\<rparr>)"

definition setPropertiesDynamicState ::
  "u64 \<Rightarrow> u64 \<Rightarrow> StateBaseAddressProperties \<Rightarrow> StateBaseAddressProperties" where
  "setPropertiesDynamicState address sz s =
     setDynamicState address sz (s\<lparr>dynamicStateBaseAddress := cleared (dynamicStateBaseAddress s)\<rparr>)"

definition setPropertiesIndirectState ::
  "u64 \<Rightarrow> u64 \<Rightarrow> StateBaseAddressProperties \<Rightarrow> StateBaseAddressProperties" where
  "setPropertiesIndirectState address sz s =
     setIndirectState address sz (s\<lparr>indirectObjectBaseAddress := cleared (indirectObjectBaseAddress s)\<rparr>)"

definition setPropertyStatelessMocs :: "u32 \<Rightarrow> StateBaseAddressProperties \<Rightarrow> StateBaseAddressProperties" where
  "setPropertyStatelessMocs mocs s = setStatelessMocs mocs (s\<lparr>statelessMocs := cleared (statelessMocs s)\<rparr>)"

definition sbaSetPropertiesAll ::
  "u32 \<Rightarrow> u64 \<Rightarrow> u64 \<Rightarrow> u64 \<Rightarrow> u64 \<Rightarrow> u64 \<Rightarrow> u64 \<Rightarrow> u64 \<Rightarrow> u64 \<Rightarrow> StateBaseAddressProperties \<Rightarrow>
   StateBaseAddressProperties" where
  "sbaSetPropertiesAll mocs poolAddress poolSize surfaceAddress surfaceSize dynamicAddress dynamicSize
       indirectAddress indirectSize s =
     (let s = setStatelessMocs mocs (sbaClearIsDirty s);
          s = (if supBindingTablePoolBaseAddress (stateBaseAddressPropertiesSupport s)
               then setBindingTablePool poolAddress poolSize s else s)
      in setIndirectState indirectAddress indirectSize
           (setDynamicState dynamicAddress dynamicSize (setSurfaceState surfaceAddress surfaceSize s)))"

definition sbaCopyPropertiesAll ::
  "StateBaseAddressProperties \<Rightarrow> StateBaseAddressProperties \<Rightarrow> StateBaseAddressProperties" where
  "sbaCopyPropertiesAll r s =
     setIndirectState (propValue (indirectObjectBaseAddress r)) (propValue (indirectObjectSize r))
       (setDynamicState (propValue (dynamicStateBaseAddress r)) (propValue (dynamicStateSize r))
          (setSurfaceState (propValue (surfaceStateBaseAddress r)) (propValue (surfaceStateSize r))
             (setBindingTablePool (propValue (bindingTablePoolBaseAddress r)) (propValue (bindingTablePoolSize r))
                (setStatelessMocs (propValue (statelessMocs r)) (sbaClearIsDirty s)))))"

definition copyPropertiesStatelessMocs ::
  "StateBaseAddressProperties \<Rightarrow> StateBaseAddressProperties \<Rightarrow> StateBaseAddressProperties" where
  "copyPropertiesStatelessMocs r s =
     setStatelessMocs (propValue (statelessMocs r)) (s\<lparr>statelessMocs := cleared (statelessMocs s)\<rparr>)"

definition copyPropertiesStatelessMocsIndirectState ::
  "StateBaseAddressProperties \<Rightarrow> StateBaseAddressProperties \<Rightarrow> StateBaseAddressProperties" where
  "copyPropertiesStatelessMocsIndirectState r s =
     (let s = s\<lparr>statelessMocs := cleared (statelessMocs s),
                indirectObjectBaseAddress := cleared (indirectObjectBaseAddress s)\<rparr>
      in setIndirectState (propValue (indirectObjectBaseAddress r)) (propValue (indirectObjectSize r))
           (setStatelessMocs (propValue (statelessMocs r)) s))"

definition copyPropertiesBindingTableSurfaceState ::
  "StateBaseAddressProperties \<Rightarrow> StateBaseAddressProperties \<Rightarrow> StateBaseAddressProperties" where
  "copyPropertiesBindingTableSurfaceState r s =
     (let s = s\<lparr>bindingTablePoolBaseAddress := cleared (bindingTablePoolBaseAddress s),
                surfaceStateBaseAddress := cleared (surfaceStateBaseAddress s)\<rparr>
      in setSurfaceState (propValue (surfaceStateBaseAddress r)) (propValue (surfaceStateSize r))
           (setBindingTablePool (propValue (bindingTablePoolBaseAddress r)) (propValue (bindingTablePoolSize r)) s))"

definition copyPropertiesSurfaceState ::
  "StateBaseAddressProperties \<Rightarrow> StateBaseAddressProperties \<Rightarrow> StateBaseAddressProperties" where
  "copyPropertiesSurfaceState r s =
     setSurfaceState (propValue (surfaceStateBaseAddress r)) (propValue (surfaceStateSize r))
       (s\<lparr>surfaceStateBaseAddress := cleared (surfaceStateBaseAddress s)\<rparr>)"

definition copyPropertiesDynamicState ::
  "StateBaseAddressProperties \<Rightarrow> StateBaseAddressProperties \<Rightarrow> StateBaseAddressProperties" where
  "copyPropertiesDynamicState r s =
     setDynamicState (propValue (dynamicStateBaseAddress r)) (propValue (dynamicStateSize r))
       (s\<lparr>dynamicStateBaseAddress := cleared (dynamicStateBaseAddress s)\<rparr>)"

section \<open>All properties of a stream\<close>

record StreamProperties =
  stateComputeMode :: StateComputeModeProperties
  frontEndState :: FrontEndProperties
  pipelineSelect :: PipelineSelectProperties
  stateBaseAddress :: StateBaseAddressProperties

definition newStreamProperties :: StreamProperties where
  "newStreamProperties = \<lparr>stateComputeMode = newStateComputeMode, frontEndState = newFrontEnd,
     pipelineSelect = newPipelineSelect, stateBaseAddress = newStateBaseAddress\<rparr>"

definition initSupport :: "RootDeviceEnvironment \<Rightarrow> StreamProperties \<Rightarrow> StreamProperties" where
  "initSupport env s =
     \<lparr>stateComputeMode = scmInitSupport env (stateComputeMode s), frontEndState = feInitSupport env (frontEndState s),
      pipelineSelect = psInitSupport env (pipelineSelect s), stateBaseAddress = sbaInitSupport env (stateBaseAddress s)\<rparr>"

definition resetState :: "StreamProperties \<Rightarrow> StreamProperties" where
  "resetState s =
     \<lparr>stateComputeMode = scmResetState (stateComputeMode s), frontEndState = feResetState (frontEndState s),
      pipelineSelect = psResetState (pipelineSelect s), stateBaseAddress = sbaResetState (stateBaseAddress s)\<rparr>"

section \<open>Contract of a tracked group of properties\<close>

text \<open>
  The contract that the submission code relies on, over the signed values of the properties of a
  group that take part in the dirty flag: requested values replace the old ones unless they are -1,
  and the group is dirty exactly when some value changed.
\<close>

definition overlay :: "int list \<Rightarrow> int list \<Rightarrow> int list" where
  "overlay new old = map2 (\<lambda>n x. if n = - 1 then x else n) new old"

definition restrictTo :: "bool list \<Rightarrow> int list \<Rightarrow> int list" where
  "restrictTo taken new = map2 (\<lambda>t n. if t then n else - 1) taken new"

lemma overlay_simps [simp]:
  "overlay [] old = []" "overlay new [] = []"
  "overlay (n # new) (x # old) = (if n = - 1 then x else n) # overlay new old"
  by (simp_all add: overlay_def)

lemma restrictTo_simps [simp]:
  "restrictTo [] new = []" "restrictTo taken [] = []"
  "restrictTo (t # taken) (n # new) = (if t then n else - 1) # restrictTo taken new"
  by (simp_all add: restrictTo_def)

locale state_tracker =
  fixes tracked :: "'s \<Rightarrow> int list" and dirtyState :: "'s \<Rightarrow> bool" and clearDirty :: "'s \<Rightarrow> 's"
    and copyAll :: "'s \<Rightarrow> 's \<Rightarrow> 's"
  assumes clear_tracked [simp]: "tracked (clearDirty s) = tracked s"
    and clear_clean [simp]: "\<not> dirtyState (clearDirty s)"
    and copyAll_tracked: "tracked (copyAll r s) = overlay (tracked r) (tracked s)"
    and copyAll_dirty: "dirtyState (copyAll r s) \<longleftrightarrow> tracked (copyAll r s) \<noteq> tracked s"

locale partial_tracker = state_tracker +
  fixes copySome :: "'a \<Rightarrow> 'a \<Rightarrow> 'a" and taken :: "'a \<Rightarrow> bool list"
  assumes copySome_tracked: "tracked (copySome r s) = overlay (restrictTo (taken s) (tracked r)) (tracked s)"
    and copySome_dirty: "\<not> dirtyState s \<Longrightarrow> dirtyState (copySome r s) \<longleftrightarrow> tracked (copySome r s) \<noteq> tracked s"

context partial_tracker
begin

text \<open>
  The client: a submission copies everything when the group has to be programmed in full, else the
  part that a kernel may change, and programs the group when it is dirty. \<open>hw\<close> is what the GPU got
  last.
\<close>

lemma flush_keeps_sync:
  fixes full isKernel :: bool and r :: 'a
  assumes "\<not> dirtyState s" "\<not> full \<Longrightarrow> hw = tracked s"
  defines "s1 \<equiv> (if full then copyAll r s else if isKernel then copySome r s else s)"
  defines "d \<equiv> full \<or> isKernel \<and> dirtyState s1"
  shows "\<not> dirtyState (if d then clearDirty s1 else s1)"
    "(if d then tracked s1 else hw) = tracked (if d then clearDirty s1 else s1)"
  using assms(1,2) copySome_dirty by (auto simp: s1_def d_def)

lemma no_redundant_command:
  assumes "\<not> dirtyState s" "overlay (restrictTo (taken s) (tracked r)) (tracked s) = tracked s"
  shows "\<not> dirtyState (copySome r s)"
  using assms by (simp add: copySome_dirty copySome_tracked)

end

lemma sint_minus_one_iff: "sint (v :: 'w::len word) = - 1 \<longleftrightarrow> v = - 1"
  by (metis signed_word_eqI sint_n1)

lemma sint_set [simp]:
  "sint (propValue (setProperty full v p)) = (if sint v = - 1 then sint (propValue p) else sint v)"
  by (auto simp: setProperty_def initValue_def sint_minus_one_iff)

lemma dirty_set [simp]:
  "isDirty (setProperty True v p) \<longleftrightarrow> isDirty p \<or> sint v \<noteq> - 1 \<and> sint v \<noteq> sint (propValue p)"
  by (auto simp: setProperty_def initValue_def sint_minus_one_iff dest: signed_word_eqI)

lemma cleared_simps [simp]: "propValue (cleared p) = propValue p" "\<not> isDirty (cleared p)"
  by (simp_all add: cleared_def)

lemma forgotten_simps [simp]: "propValue (forgotten p) = - 1" "isDirty (forgotten p) = isDirty p"
  by (simp_all add: forgotten_def initValue_def)

definition scmTracked :: "StateComputeModeProperties \<Rightarrow> int list" where
  "scmTracked s = map (\<lambda>p. sint (propValue p))
     [isCoherencyRequired s, largeGrfMode s, zPassAsyncComputeThreadLimit s, pixelAsyncComputeThreadLimit s,
      threadArbitrationPolicy s, devicePreemptionMode s,
      memoryAllocationForScratchAndMidthreadPreemptionBuffers s, enableVariableRegisterSizeAllocation s]"

definition feTracked :: "FrontEndProperties \<Rightarrow> int list" where
  "feTracked s = map (\<lambda>p. sint (propValue p))
     [computeDispatchAllWalkerEnable s, disableEUFusion s, disableOverdispatch s, singleSliceDispatchCcsMode s]"

definition psTracked :: "PipelineSelectProperties \<Rightarrow> int list" where
  "psTracked s = map (\<lambda>p. sint (propValue p)) [modeSelected s, mediaSamplerDopClockGate s, systolicMode s]"

text \<open>The sizes of the heaps do not take part in the dirty flag.\<close>

definition sbaTracked :: "StateBaseAddressProperties \<Rightarrow> int list" where
  "sbaTracked s = sint (propValue (statelessMocs s)) # map (\<lambda>p. sint (propValue p))
     [bindingTablePoolBaseAddress s, surfaceStateBaseAddress s, dynamicStateBaseAddress s,
      indirectObjectBaseAddress s]"

lemmas scm_defs = scmTracked_def scmIsDirty_def scmClearIsDirty_def clearIsDirtyPerContext_def
  clearIsDirtyExtraPerContext_def isDirtyExtra_def scmCopyPropertiesAll_def copyPropertiesExtra_def
  copyPropertiesGrfNumberThreadArbitration_def

lemmas fe_defs = feTracked_def feIsDirty_def feClearIsDirty_def feCopyPropertiesAll_def
  copyPropertiesComputeDispatchAllWalkerEnableDisableEuFusion_def

lemmas ps_defs = psTracked_def psIsDirty_def psClearIsDirty_def psCopyPropertiesAll_def
  copyPropertiesSystolicMode_def

lemmas sba_defs = sbaTracked_def sbaIsDirty_def sbaClearIsDirty_def sbaCopyPropertiesAll_def
  setStatelessMocs_def setBindingTablePool_def setSurfaceState_def setDynamicState_def setIndirectState_def

interpretation scm: partial_tracker scmTracked scmIsDirty scmClearIsDirty scmCopyPropertiesAll
  copyPropertiesGrfNumberThreadArbitration "\<lambda>_. [False, True, False, False, True, False, False, False]"
  by unfold_locales (auto simp: scm_defs Let_def)

interpretation fe: partial_tracker feTracked feIsDirty feClearIsDirty feCopyPropertiesAll
  copyPropertiesComputeDispatchAllWalkerEnableDisableEuFusion "\<lambda>_. [True, True, False, False]"
  by unfold_locales (auto simp: fe_defs Let_def)

interpretation ps: partial_tracker psTracked psIsDirty psClearIsDirty psCopyPropertiesAll
  copyPropertiesSystolicMode "\<lambda>_. [False, False, True]"
  by unfold_locales (auto simp: ps_defs Let_def)

interpretation sba: state_tracker sbaTracked sbaIsDirty sbaClearIsDirty sbaCopyPropertiesAll
  by unfold_locales (auto simp: sba_defs Let_def)

section \<open>The setters of the state compute mode\<close>

lemma setCoherency_frame [simp]:
  "largeGrfMode (setCoherencyProperty c s) = largeGrfMode s"
  "zPassAsyncComputeThreadLimit (setCoherencyProperty c s) = zPassAsyncComputeThreadLimit s"
  "pixelAsyncComputeThreadLimit (setCoherencyProperty c s) = pixelAsyncComputeThreadLimit s"
  "threadArbitrationPolicy (setCoherencyProperty c s) = threadArbitrationPolicy s"
  "devicePreemptionMode (setCoherencyProperty c s) = devicePreemptionMode s"
  "memoryAllocationForScratchAndMidthreadPreemptionBuffers (setCoherencyProperty c s) = memoryAllocationForScratchAndMidthreadPreemptionBuffers s"
  "enableVariableRegisterSizeAllocation (setCoherencyProperty c s) = enableVariableRegisterSizeAllocation s"
  "scmPropertiesSupport (setCoherencyProperty c s) = scmPropertiesSupport s"
  "defaultThreadArbitrationPolicy (setCoherencyProperty c s) = defaultThreadArbitrationPolicy s"
  by (simp_all add: setCoherencyProperty_def)

lemma setPreemption_frame [simp]:
  "isCoherencyRequired (setDevicePreemptionProperty m s) = isCoherencyRequired s"
  "largeGrfMode (setDevicePreemptionProperty m s) = largeGrfMode s"
  "zPassAsyncComputeThreadLimit (setDevicePreemptionProperty m s) = zPassAsyncComputeThreadLimit s"
  "pixelAsyncComputeThreadLimit (setDevicePreemptionProperty m s) = pixelAsyncComputeThreadLimit s"
  "threadArbitrationPolicy (setDevicePreemptionProperty m s) = threadArbitrationPolicy s"
  "memoryAllocationForScratchAndMidthreadPreemptionBuffers (setDevicePreemptionProperty m s) = memoryAllocationForScratchAndMidthreadPreemptionBuffers s"
  "enableVariableRegisterSizeAllocation (setDevicePreemptionProperty m s) = enableVariableRegisterSizeAllocation s"
  "scmPropertiesSupport (setDevicePreemptionProperty m s) = scmPropertiesSupport s"
  "defaultThreadArbitrationPolicy (setDevicePreemptionProperty m s) = defaultThreadArbitrationPolicy s"
  by (simp_all add: setDevicePreemptionProperty_def)

lemma setGrf_frame [simp]:
  "isCoherencyRequired (setGrfNumberProperty g s) = isCoherencyRequired s"
  "zPassAsyncComputeThreadLimit (setGrfNumberProperty g s) = zPassAsyncComputeThreadLimit s"
  "pixelAsyncComputeThreadLimit (setGrfNumberProperty g s) = pixelAsyncComputeThreadLimit s"
  "threadArbitrationPolicy (setGrfNumberProperty g s) = threadArbitrationPolicy s"
  "devicePreemptionMode (setGrfNumberProperty g s) = devicePreemptionMode s"
  "memoryAllocationForScratchAndMidthreadPreemptionBuffers (setGrfNumberProperty g s) = memoryAllocationForScratchAndMidthreadPreemptionBuffers s"
  "enableVariableRegisterSizeAllocation (setGrfNumberProperty g s) = enableVariableRegisterSizeAllocation s"
  "scmPropertiesSupport (setGrfNumberProperty g s) = scmPropertiesSupport s"
  "defaultThreadArbitrationPolicy (setGrfNumberProperty g s) = defaultThreadArbitrationPolicy s"
  by (simp_all add: setGrfNumberProperty_def)

lemma setArbitration_frame [simp]:
  "isCoherencyRequired (setThreadArbitrationProperty flags p s) = isCoherencyRequired s"
  "largeGrfMode (setThreadArbitrationProperty flags p s) = largeGrfMode s"
  "zPassAsyncComputeThreadLimit (setThreadArbitrationProperty flags p s) = zPassAsyncComputeThreadLimit s"
  "pixelAsyncComputeThreadLimit (setThreadArbitrationProperty flags p s) = pixelAsyncComputeThreadLimit s"
  "devicePreemptionMode (setThreadArbitrationProperty flags p s) = devicePreemptionMode s"
  "memoryAllocationForScratchAndMidthreadPreemptionBuffers (setThreadArbitrationProperty flags p s) = memoryAllocationForScratchAndMidthreadPreemptionBuffers s"
  "enableVariableRegisterSizeAllocation (setThreadArbitrationProperty flags p s) = enableVariableRegisterSizeAllocation s"
  "scmPropertiesSupport (setThreadArbitrationProperty flags p s) = scmPropertiesSupport s"
  "defaultThreadArbitrationPolicy (setThreadArbitrationProperty flags p s) = defaultThreadArbitrationPolicy s"
  by (simp_all add: setThreadArbitrationProperty_def Let_def)

lemma perContext_fields:
  "isCoherencyRequired (setPropertiesPerContext c m False s) =
     (if supCoherencyRequired (scmPropertiesSupport s) then set32 (of_bool c) (cleared (isCoherencyRequired s))
      else cleared (isCoherencyRequired s))"
  "devicePreemptionMode (setPropertiesPerContext c m False s) =
     (if supDevicePreemptionMode (scmPropertiesSupport s)
      then set32 (preemptionModeValue m) (cleared (devicePreemptionMode s)) else cleared (devicePreemptionMode s))"
  "enableVariableRegisterSizeAllocation (setPropertiesPerContext c m False s) =
     (if supEnableVariableRegisterSizeAllocation (scmPropertiesSupport s)
      then set32 1 (cleared (enableVariableRegisterSizeAllocation s))
      else cleared (enableVariableRegisterSizeAllocation s))"
  "largeGrfMode (setPropertiesPerContext c m False s) = largeGrfMode s"
  "zPassAsyncComputeThreadLimit (setPropertiesPerContext c m False s) = zPassAsyncComputeThreadLimit s"
  "pixelAsyncComputeThreadLimit (setPropertiesPerContext c m False s) = pixelAsyncComputeThreadLimit s"
  "threadArbitrationPolicy (setPropertiesPerContext c m False s) = threadArbitrationPolicy s"
  "memoryAllocationForScratchAndMidthreadPreemptionBuffers (setPropertiesPerContext c m False s) =
     memoryAllocationForScratchAndMidthreadPreemptionBuffers s"
  by (simp_all add: setPropertiesPerContext_def Let_def setPipelinedEuThreadArbitration_def
      setPropertiesExtraPerContext_def clearIsDirtyPerContext_def clearIsDirtyExtraPerContext_def
      setCoherencyProperty_def setDevicePreemptionProperty_def)

text \<open>A property that was cleared and then set at most once.\<close>

definition setOnce :: "StreamProperty32 \<Rightarrow> StreamProperty32 \<Rightarrow> bool" where
  "setOnce p p' \<longleftrightarrow> p' = cleared p \<or> (\<exists>v. p' = set32 v (cleared p))"

lemma setOnce_intros [intro, simp]: "setOnce p (cleared p)" "setOnce p (set32 v (cleared p))"
  by (auto simp: setOnce_def)

lemma setOnce_dirty: "setOnce p p' \<Longrightarrow> isDirty p' \<longleftrightarrow> sint (propValue p') \<noteq> sint (propValue p)"
  by (auto simp: setOnce_def split: if_splits)

lemma cleared_twice [simp]: "cleared (cleared p) = cleared p"
  by (simp add: cleared_def)

lemmas scm_if = if_distrib [of scmPropertiesSupport] if_distrib [of "setOnce p" for p]

lemma scm_all_once:
  defines "t \<equiv> \<lambda>flags c g p m s. scmSetPropertiesAll flags c g p m s"
  shows "setOnce (isCoherencyRequired s) (isCoherencyRequired (t flags c g p m s))"
    "setOnce (largeGrfMode s) (largeGrfMode (t flags c g p m s))"
    "setOnce (zPassAsyncComputeThreadLimit s) (zPassAsyncComputeThreadLimit (t flags c g p m s))"
    "setOnce (pixelAsyncComputeThreadLimit s) (pixelAsyncComputeThreadLimit (t flags c g p m s))"
    "setOnce (threadArbitrationPolicy s) (threadArbitrationPolicy (t flags c g p m s))"
    "setOnce (devicePreemptionMode s) (devicePreemptionMode (t flags c g p m s))"
    "setOnce (memoryAllocationForScratchAndMidthreadPreemptionBuffers s)
       (memoryAllocationForScratchAndMidthreadPreemptionBuffers (t flags c g p m s))"
    "setOnce (enableVariableRegisterSizeAllocation s) (enableVariableRegisterSizeAllocation (t flags c g p m s))"
  unfolding t_def scmSetPropertiesAll_def Let_def perContext_fields
  by (simp_all add: scm_if if_distrib [of isCoherencyRequired] if_distrib [of largeGrfMode]
      if_distrib [of zPassAsyncComputeThreadLimit] if_distrib [of pixelAsyncComputeThreadLimit]
      if_distrib [of threadArbitrationPolicy] if_distrib [of devicePreemptionMode]
      if_distrib [of memoryAllocationForScratchAndMidthreadPreemptionBuffers]
      if_distrib [of enableVariableRegisterSizeAllocation] scmClearIsDirty_def clearIsDirtyPerContext_def
      clearIsDirtyExtraPerContext_def setGrfNumberProperty_def setThreadArbitrationProperty_def Let_def
      cong: if_weak_cong)

lemma scm_set_all:
  "scmIsDirty (scmSetPropertiesAll flags c g p m s) \<longleftrightarrow>
     scmTracked (scmSetPropertiesAll flags c g p m s) \<noteq> scmTracked s"
  unfolding scmIsDirty_def isDirtyExtra_def scmTracked_def
  by (simp add: setOnce_dirty [OF scm_all_once(1)] setOnce_dirty [OF scm_all_once(2)]
      setOnce_dirty [OF scm_all_once(3)] setOnce_dirty [OF scm_all_once(4)] setOnce_dirty [OF scm_all_once(5)]
      setOnce_dirty [OF scm_all_once(6)] setOnce_dirty [OF scm_all_once(7)] setOnce_dirty [OF scm_all_once(8)]
      del: not_iff)

lemma fe_set_all:
  "feIsDirty (feSetPropertiesAll a b c s) \<longleftrightarrow> feTracked (feSetPropertiesAll a b c s) \<noteq> feTracked s"
  by (auto simp: feSetPropertiesAll_def setComputeDispatchAllWalker_def setDisableEuFusion_def
      setDisableOverdispatch_def fe_defs)

lemma ps_set_all:
  "psIsDirty (psSetPropertiesAll a b c s) \<longleftrightarrow> psTracked (psSetPropertiesAll a b c s) \<noteq> psTracked s"
  by (auto simp: psSetPropertiesAll_def setMediaSamplerDopClockGate_def setSystolicMode_def ps_defs Let_def)

lemma sba_set_all:
  "sbaIsDirty (sbaSetPropertiesAll a b c d e f g h i s) \<longleftrightarrow>
     sbaTracked (sbaSetPropertiesAll a b c d e f g h i s) \<noteq> sbaTracked s"
  by (auto simp: sbaSetPropertiesAll_def sba_defs Let_def)

lemma reset_tracked:
  "scmTracked (scmResetState s) = replicate 8 (- 1) \<and> \<not> scmIsDirty (scmResetState s)"
  "feTracked (feResetState e) = replicate 4 (- 1) \<and> \<not> feIsDirty (feResetState e)"
  "psTracked (psResetState q) = replicate 3 (- 1) \<and> \<not> psIsDirty (psResetState q)"
  "sbaTracked (sbaResetState b) = replicate 5 (- 1) \<and> \<not> sbaIsDirty (sbaResetState b)"
  by (simp_all add: scmResetState_def feResetState_def psResetState_def sbaResetState_def resetStateExtra_def
      scm_defs fe_defs ps_defs sba_defs Let_def numeral_eq_Suc)

lemma overlay_fresh: "length vs = n \<Longrightarrow> overlay vs (replicate n (- 1)) = vs"
  by (induction vs arbitrary: n) auto

lemma tracked_length [simp]:
  "length (scmTracked s) = 8" "length (feTracked e) = 4" "length (psTracked q) = 3" "length (sbaTracked b) = 5"
  by (simp_all add: scmTracked_def feTracked_def psTracked_def sbaTracked_def)

section \<open>Properties\<close>

text \<open>
  C28: setting all properties of a group marks the group dirty exactly when the set call changed a
  value that takes part in the dirty flag, whatever the product supports and the debug variables say.
\<close>

theorem set_all_dirty_iff_changed:
  "(scmIsDirty (scmSetPropertiesAll flags coherency grf policy mode scm) \<longleftrightarrow>
     scmTracked (scmSetPropertiesAll flags coherency grf policy mode scm) \<noteq> scmTracked scm) \<and>
   (feIsDirty (feSetPropertiesAll cooperative noFusion noOverdispatch fe) \<longleftrightarrow>
     feTracked (feSetPropertiesAll cooperative noFusion noOverdispatch fe) \<noteq> feTracked fe) \<and>
   (psIsDirty (psSetPropertiesAll selected gate systolic ps) \<longleftrightarrow>
     psTracked (psSetPropertiesAll selected gate systolic ps) \<noteq> psTracked ps) \<and>
   (sbaIsDirty (sbaSetPropertiesAll mocs pb pz sb sz db dz ib iz sba) \<longleftrightarrow>
     sbaTracked (sbaSetPropertiesAll mocs pb pz sb sz db dz ib iz sba) \<noteq> sbaTracked sba)"
  by (intro conjI scm_set_all fe_set_all ps_set_all sba_set_all)

text \<open>The sizes that are stored beside the base addresses; they have no dirty marks.\<close>

definition sbaSizes :: "StateBaseAddressProperties \<Rightarrow> u64 list" where
  "sbaSizes s = map propValue [bindingTablePoolSize s, surfaceStateSize s, dynamicStateSize s, indirectObjectSize s]"

lemma sizes_reset: "sbaSizes (sbaResetState b) = replicate 4 initValue"
  by (simp add: sbaSizes_def sbaResetState_def sbaClearIsDirty_def forgotten_def Let_def numeral_eq_Suc)

lemma sizes_copied: "sbaSizes (sbaCopyPropertiesAll r s) = map2 (\<lambda>v w. if v = initValue then w else v) (sbaSizes r) (sbaSizes s)"
  by (simp add: sbaSizes_def sba_defs setProperty_def)

text \<open>
  C29: resetting a stream forgets all values, the sizes of the heaps included, and leaves nothing dirty; copying a saved set of
  properties into the reset stream restores every value of all four groups, the sizes included, and marks a group dirty exactly when the
  saved set held a tracked value for it.
\<close>

theorem reset_copy_restores:
  "scmTracked (scmCopyPropertiesAll scm (scmResetState s)) = scmTracked scm \<and>
   (scmIsDirty (scmCopyPropertiesAll scm (scmResetState s)) \<longleftrightarrow> scmTracked scm \<noteq> replicate 8 (- 1)) \<and>
   feTracked (feCopyPropertiesAll fe (feResetState e)) = feTracked fe \<and>
   (feIsDirty (feCopyPropertiesAll fe (feResetState e)) \<longleftrightarrow> feTracked fe \<noteq> replicate 4 (- 1)) \<and>
   psTracked (psCopyPropertiesAll ps (psResetState q)) = psTracked ps \<and>
   (psIsDirty (psCopyPropertiesAll ps (psResetState q)) \<longleftrightarrow> psTracked ps \<noteq> replicate 3 (- 1)) \<and>
   sbaTracked (sbaCopyPropertiesAll sba (sbaResetState b)) = sbaTracked sba \<and>
   sbaSizes (sbaCopyPropertiesAll sba (sbaResetState b)) = sbaSizes sba \<and>
   (sbaIsDirty (sbaCopyPropertiesAll sba (sbaResetState b)) \<longleftrightarrow> sbaTracked sba \<noteq> replicate 5 (- 1)) \<and>
   scmTracked (scmResetState s) = replicate 8 (- 1) \<and> \<not> scmIsDirty (scmResetState s) \<and>
   feTracked (feResetState e) = replicate 4 (- 1) \<and> \<not> feIsDirty (feResetState e) \<and>
   psTracked (psResetState q) = replicate 3 (- 1) \<and> \<not> psIsDirty (psResetState q) \<and>
   sbaTracked (sbaResetState b) = replicate 5 (- 1) \<and> sbaSizes (sbaResetState b) = replicate 4 (- 1) \<and> \<not> sbaIsDirty (sbaResetState b)"
proof -
  have "sbaSizes (sbaCopyPropertiesAll sba (sbaResetState b)) = sbaSizes sba"
    by (simp add: sizes_copied sizes_reset numeral_eq_Suc) (simp add: sbaSizes_def)
  moreover have "sbaSizes (sbaResetState b) = replicate 4 (- 1)" by (simp add: sizes_reset initValue_def)
  ultimately show ?thesis
    by (simp add: scm.copyAll_dirty scm.copyAll_tracked fe.copyAll_dirty fe.copyAll_tracked
      ps.copyAll_dirty ps.copyAll_tracked sba.copyAll_dirty sba.copyAll_tracked reset_tracked overlay_fresh)
qed

end
