(* ===== verification/Immediate_Flush.thy ===== *)
theory Immediate_Flush
  imports Stream_Properties Math_Helpers
begin

text \<open>
  \<open>CommandStreamReceiverHw::flushImmediateTask\<close> and its steps
  (\<open>command_stream/command_stream_receiver_hw_base.inl\<close>), \<open>command_stream/linear_stream.{h,cpp}\<close> and
  \<open>EncodeNoop::alignToCacheLine\<close>: a submission estimates the size of the state commands it needs,
  reserves that space in the stream of the command stream receiver, writes the commands, jumps to
  the task and hands the batch buffer over. What depends on the GPU family (the size of each command
  and of each group of commands), the scratch space controller and the operating system's flush are
  parameters. Every command written stays in the ghost field \<open>streamCommands\<close>.
\<close>

section \<open>Data\<close>

record PipelineSelectArgs =
  systolicPipelineSelectMode :: bool
  mediaSamplerRequired :: bool
  is3DPipelineRequired :: bool
  systolicPipelineSelectSupport :: bool

datatype GpuCommand =
    StateCacheFlush
  | InstructionCacheFlush
  | PipelineSelect PipelineSelectArgs
  | VfeState StreamProperties
  | ComputeMode StateComputeModeProperties PipelineSelectArgs
  | StateBaseAddressCmd StateBaseAddressProperties bool
  | PartitionConfig
  | EnableRayTracing
  | CsrBaseAddress
  | PreemptionLri PreemptionMode
  | StateSip
  | BatchBufferStart u64 bool
  | BatchBufferEnd
  | RelaxedOrderingReturn
  | BarrierWithPostSync u64 u64

record GraphicsAllocation =
  gpuAddress :: u64
  underlyingBuffer :: u64
  underlyingBufferSize :: u64

record LinearStream =
  sizeUsed :: u64
  maxAvailableSpace :: u64
  streamBuffer :: u64
  graphicsAllocation :: "GraphicsAllocation option"
  hasCmdContainer :: bool
  batchBufferEndSize :: u64
  gpuBase :: u64
  streamCommands :: "GpuCommand list"

section \<open>Linear stream\<close>

definition cacheLineSize :: u64 where "cacheLineSize = 64"

definition newLinearStream :: "GraphicsAllocation option \<Rightarrow> u64 \<Rightarrow> u64 \<Rightarrow> LinearStream" where
  "newLinearStream gfxAllocation buffer bufferSize =
     \<lparr>sizeUsed = 0, maxAvailableSpace = bufferSize, streamBuffer = buffer, graphicsAllocation = gfxAllocation,
      hasCmdContainer = False, batchBufferEndSize = 0, gpuBase = 0, streamCommands = []\<rparr>"

definition newLinearStreamOf :: "GraphicsAllocation option \<Rightarrow> LinearStream" where
  "newLinearStreamOf gfxAllocation =
     (case gfxAllocation of
        None \<Rightarrow> newLinearStream None 0 0
      | Some a \<Rightarrow> newLinearStream (Some a) (underlyingBuffer a) (underlyingBufferSize a))"

definition newLinearStreamFor :: "u64 \<Rightarrow> u64 \<Rightarrow> bool \<Rightarrow> u64 \<Rightarrow> LinearStream" where
  "newLinearStreamFor buffer bufferSize cmdContainer endSize =
     (newLinearStream None buffer bufferSize)\<lparr>hasCmdContainer := cmdContainer, batchBufferEndSize := endSize\<rparr>"

definition getAvailableSpace :: "LinearStream \<Rightarrow> u64" where
  "getAvailableSpace st = maxAvailableSpace st - sizeUsed st"

definition getGpuBase :: "LinearStream \<Rightarrow> u64" where
  "getGpuBase st = (case graphicsAllocation st of Some a \<Rightarrow> gpuAddress a | None \<Rightarrow> gpuBase st)"

definition setGpuBase :: "u64 \<Rightarrow> LinearStream \<Rightarrow> LinearStream" where
  "setGpuBase a st = st\<lparr>gpuBase := a\<rparr>"

definition getCurrentGpuAddressPosition :: "LinearStream \<Rightarrow> u64" where
  "getCurrentGpuAddressPosition st = getGpuBase st + sizeUsed st"

definition overrideMaxSize :: "u64 \<Rightarrow> LinearStream \<Rightarrow> LinearStream" where
  "overrideMaxSize newMaxSize st = st\<lparr>maxAvailableSpace := newMaxSize\<rparr>"

definition replaceBuffer :: "u64 \<Rightarrow> u64 \<Rightarrow> LinearStream \<Rightarrow> LinearStream" where
  "replaceBuffer buffer bufferSize st =
     st\<lparr>streamBuffer := buffer, maxAvailableSpace := bufferSize, sizeUsed := 0\<rparr>"

definition replaceGraphicsAllocation :: "GraphicsAllocation option \<Rightarrow> LinearStream \<Rightarrow> LinearStream" where
  "replaceGraphicsAllocation a st = st\<lparr>graphicsAllocation := a\<rparr>"

text \<open>The command container that opens the next command buffer is a parameter.\<close>

definition ensureContinuousSpace ::
  "(LinearStream \<Rightarrow> LinearStream) \<Rightarrow> u64 \<Rightarrow> LinearStream \<Rightarrow> LinearStream result" where
  "ensureContinuousSpace closeAndAllocateNextCommandBuffer sz st =
     (if hasCmdContainer st \<and> getAvailableSpace st < batchBufferEndSize st + sz then
        if sizeUsed st + batchBufferEndSize st > maxAvailableSpace st then Inl Unrecoverable
        else Inr (closeAndAllocateNextCommandBuffer st)
      else Inr st)"

definition getSpace ::
  "(LinearStream \<Rightarrow> LinearStream) \<Rightarrow> u64 \<Rightarrow> LinearStream \<Rightarrow> (u64 \<times> LinearStream) result" where
  "getSpace close sz st =
     (if sz = 0 then Inr (ptrOffset (streamBuffer st) (sizeUsed st), st)
      else case ensureContinuousSpace close sz st of
             Inl f \<Rightarrow> Inl f
           | Inr st \<Rightarrow>
               if sizeUsed st + sz > maxAvailableSpace st then Inl Unrecoverable
               else if streamBuffer st = 0 then Inl Unrecoverable
               else Inr (ptrOffset (streamBuffer st) (sizeUsed st), st\<lparr>sizeUsed := sizeUsed st + sz\<rparr>))"

definition alignToCacheLine :: "(LinearStream \<Rightarrow> LinearStream) \<Rightarrow> LinearStream \<Rightarrow> LinearStream result" where
  "alignToCacheLine close st =
     (let partialCacheline = sizeUsed st AND (cacheLineSize - 1) in
      if partialCacheline \<noteq> 0 then map_sum id snd (getSpace close (cacheLineSize - partialCacheline) st)
      else Inr st)"

section \<open>Command stream receiver\<close>

datatype AppendOperations = opNone | opKernel | opNonKernel | opCmdList

datatype SubmissionStatus = submitSuccess | submitFailed | submitOutOfMemory | submitOutOfHostMemory
  | submitUnsupported | submitDeviceUninitialized

record CompletionStamp =
  stampTaskCount :: u64
  stampTaskLevel :: u64
  stampFlush :: u64

definition getTaskCountFromSubmissionStatusError :: "SubmissionStatus \<Rightarrow> u64" where
  "getTaskCountFromSubmissionStatusError status =
     (case status of
        submitOutOfHostMemory \<Rightarrow> - 1 - 3
      | submitOutOfMemory \<Rightarrow> - 1 - 4
      | submitFailed \<Rightarrow> - 1 - 6
      | submitUnsupported \<Rightarrow> - 1 - 14
      | _ \<Rightarrow> 0)"

record ImmediateDispatchFlags =
  requiredState :: StreamProperties
  sshCpuBase :: u64
  optionalEpilogueCmdStream :: "LinearStream option"
  dispatchOperation :: AppendOperations
  blockingAppend :: bool
  requireTaskCountUpdate :: bool
  hasRelaxedOrderingDependencies :: bool
  hasStallingCmds :: bool

record ImmediateFlushData =
  pipelineSelectArgs :: PipelineSelectArgs
  estimatedSize :: u64
  csrStartOffset :: u64
  pipelineSelectFullConfigurationNeeded :: bool
  pipelineSelectDirty :: bool
  frontEndFullConfigurationNeeded :: bool
  frontEndDirty :: bool
  stateComputeModeFullConfigurationNeeded :: bool
  scmDirty :: bool
  stateBaseAddressFullConfigurationNeeded :: bool
  stateBaseAddressDirty :: bool
  contextOneTimeInit :: bool
  stateCacheFlushRequired :: bool

definition newImmediateFlushData :: ImmediateFlushData where
  "newImmediateFlushData =
     \<lparr>pipelineSelectArgs = \<lparr>systolicPipelineSelectMode = False, mediaSamplerRequired = False,
        is3DPipelineRequired = False, systolicPipelineSelectSupport = False\<rparr>,
      estimatedSize = 0, csrStartOffset = 0, pipelineSelectFullConfigurationNeeded = False,
      pipelineSelectDirty = False, frontEndFullConfigurationNeeded = False, frontEndDirty = False,
      stateComputeModeFullConfigurationNeeded = False, scmDirty = False,
      stateBaseAddressFullConfigurationNeeded = False, stateBaseAddressDirty = False,
      contextOneTimeInit = False, stateCacheFlushRequired = False\<rparr>"

text \<open>
  The members of \<open>CommandStreamReceiver\<close> that the flush reads or writes. \<open>residencyAllocations\<close>
  collects what was made resident; \<open>streamTaskCounts\<close> records \<open>updateStreamTaskCount\<close>.
  \<open>bindlessStateDirty\<close> is the flag of the bindless heaps helper, \<open>None\<close> without a helper.
\<close>

record CommandStreamReceiver =
  streamProperties :: StreamProperties
  isPreambleSent :: bool
  mediaVfeStateDirty :: bool
  stateComputeModeDirty :: bool
  gsbaStateDirty :: bool
  btdCommandDirty :: bool
  isStateSipSent :: bool
  csrSurfaceProgrammingDone :: bool
  lastPreemptionMode :: PreemptionMode
  requiresInstructionCacheFlush :: bool
  bindlessStateDirty :: "bool option"
  heaplessModeEnabled :: bool
  requiredScratchSlot0Size :: u32
  requiredScratchSlot1Size :: u32
  globalStatelessHeapAllocation :: bool
  dshSupported :: bool
  pipelineSupportSystolicMode :: bool
  directSubmissionEnabled :: bool
  directSubmissionRelaxedOrdering :: bool
  staticWorkPartitioningEnabled :: bool
  activePartitions :: u32
  activePartitionsConfig :: u32
  csrStream :: LinearStream
  tagAllocation :: GraphicsAllocation
  globalFenceAllocation :: "GraphicsAllocation option"
  workPartitionAllocation :: "GraphicsAllocation option"
  preemptionAllocation :: "GraphicsAllocation option"
  residencyAllocations :: "GraphicsAllocation list"
  streamTaskCounts :: "(GraphicsAllocation option \<times> u64) list"
  taskCount :: u64
  taskLevel :: u64
  latestSentTaskCount :: u64
  latestFlushedTaskCount :: u64
  flushStamp :: u64

record Device =
  hasDebugger :: bool
  devicePreemption :: PreemptionMode
  rayTracingIsInitialized :: bool
  rtMemoryBackedBuffer :: "GraphicsAllocation option"
  helperStateSipRequired :: bool
  deviceStateSipRequired :: bool
  sipAllocation :: GraphicsAllocation
  multipleSubDevices :: bool

text \<open>Priority, throttle, slice count, client count and the end pointer are left out of the batch buffer.\<close>

record BatchBuffer =
  batchAllocation :: "GraphicsAllocation option"
  batchStartOffset :: u64
  chainedBatchBufferStartOffset :: u64
  taskStartAddress :: u64
  chainedBatchBuffer :: "GraphicsAllocation option"
  batchUsedSize :: u64
  batchHasStallingCmds :: bool
  batchRelaxedOrderingDependencies :: bool
  dispatchMonitorFence :: bool
  disableFlatRingBuffer :: bool

text \<open>What depends on the GPU family, on the scratch controller and on the operating system.\<close>

record Environment =
  commandSize :: "GpuCommand \<Rightarrow> u64"
  getCmdSizeForPipelineSelect :: u64
  getVFECommandsSize :: u64
  getCmdSizeForComputeMode :: u64
  getRequiredStateBaseAddressSize :: u64
  getSizeForSingleBarrier :: u64
  getSizeForInstructionCacheFlush :: u64
  getRegisterConfigurationSize :: u64
  getCmdSizeForPerDssBackedBuffer :: u64
  sizeofCsrBaseAddress :: u64
  sizeofLri :: u64
  sizeofStateSip :: u64
  getBatchBufferStartSize :: u64
  setRequiredScratchSpace :: "CommandStreamReceiver \<Rightarrow> u64 \<Rightarrow> bool \<times> bool \<times> GraphicsAllocation list"
  forceCommandBufferAlignment :: "u64 option"
  obtainCommandBuffer :: "u64 \<Rightarrow> GraphicsAllocation"
  closeAndAllocateNextCommandBuffer :: "LinearStream \<Rightarrow> LinearStream"
  batchBufferStartPrepatching :: bool
  flushHandler :: "BatchBuffer \<Rightarrow> GraphicsAllocation list \<Rightarrow> SubmissionStatus \<times> GraphicsAllocation list"

definition emit :: "Environment \<Rightarrow> GpuCommand \<Rightarrow> LinearStream \<Rightarrow> LinearStream result" where
  "emit env c st =
     andThen (getSpace (closeAndAllocateNextCommandBuffer env) (commandSize env c) st)
       (\<lambda>(p, st). Inr (st\<lparr>streamCommands := streamCommands st @ [c]\<rparr>))"

definition emitIf :: "bool \<Rightarrow> Environment \<Rightarrow> GpuCommand \<Rightarrow> CommandStreamReceiver \<Rightarrow> CommandStreamReceiver result" where
  "emitIf b env c csr =
     (if b then map_sum id (\<lambda>st. csr\<lparr>csrStream := st\<rparr>) (emit env c (csrStream csr)) else Inr csr)"

definition makeResident :: "GraphicsAllocation list \<Rightarrow> CommandStreamReceiver \<Rightarrow> CommandStreamReceiver" where
  "makeResident as csr = csr\<lparr>residencyAllocations := residencyAllocations csr @ as\<rparr>"

abbreviation optionList :: "'a option \<Rightarrow> 'a list" where
  "optionList x \<equiv> (case x of None \<Rightarrow> [] | Some a \<Rightarrow> [a])"

section \<open>Pipeline select, front end, compute mode and base addresses\<close>

definition handleImmediateFlushPipelineSelectState ::
  "Environment \<Rightarrow> ImmediateDispatchFlags \<Rightarrow> CommandStreamReceiver \<times> ImmediateFlushData \<Rightarrow>
   CommandStreamReceiver \<times> ImmediateFlushData" where
  "handleImmediateFlushPipelineSelectState env flags = (\<lambda>(csr, fd).
     (let sp = streamProperties csr;
          required = pipelineSelect (requiredState flags);
          (csr, fd) =
            (if pipelineSelectFullConfigurationNeeded fd then
               (csr\<lparr>streamProperties := sp\<lparr>pipelineSelect := psCopyPropertiesAll required (pipelineSelect sp)\<rparr>,
                    isPreambleSent := True\<rparr>,
                fd\<lparr>pipelineSelectDirty := True\<rparr>)
             else if dispatchOperation flags = opKernel then
               let ps = copyPropertiesSystolicMode required (pipelineSelect sp) in
               (csr\<lparr>streamProperties := sp\<lparr>pipelineSelect := ps\<rparr>\<rparr>, fd\<lparr>pipelineSelectDirty := psIsDirty ps\<rparr>)
             else (csr, fd));
          fd = (if pipelineSelectDirty fd
                then fd\<lparr>estimatedSize := estimatedSize fd + getCmdSizeForPipelineSelect env\<rparr> else fd)
      in (csr, fd\<lparr>pipelineSelectArgs :=
               \<lparr>systolicPipelineSelectMode = (propValue (systolicMode (pipelineSelect (streamProperties csr))) = 1),
                mediaSamplerRequired = False, is3DPipelineRequired = False,
                systolicPipelineSelectSupport = pipelineSupportSystolicMode csr\<rparr>\<rparr>)))"

definition dispatchImmediateFlushPipelineSelectCommand ::
  "Environment \<Rightarrow> ImmediateFlushData \<Rightarrow> CommandStreamReceiver \<Rightarrow> CommandStreamReceiver result" where
  "dispatchImmediateFlushPipelineSelectCommand env fd csr =
     (if pipelineSelectDirty fd then
        andThen (emitIf True env (PipelineSelect (pipelineSelectArgs fd)) csr)
          (\<lambda>csr. let sp = streamProperties csr in
            Inr (csr\<lparr>streamProperties := sp\<lparr>pipelineSelect := psClearIsDirty (pipelineSelect sp)\<rparr>\<rparr>))
      else Inr csr)"

definition handleImmediateFlushFrontEndState ::
  "Environment \<Rightarrow> ImmediateDispatchFlags \<Rightarrow> CommandStreamReceiver \<times> ImmediateFlushData \<Rightarrow>
   CommandStreamReceiver \<times> ImmediateFlushData" where
  "handleImmediateFlushFrontEndState env flags = (\<lambda>(csr, fd).
     (let sp = streamProperties csr;
          required = frontEndState (requiredState flags);
          (csr, fd) =
            (if frontEndFullConfigurationNeeded fd then
               (csr\<lparr>streamProperties := sp\<lparr>frontEndState := feCopyPropertiesAll required (frontEndState sp)\<rparr>,
                    mediaVfeStateDirty := False\<rparr>,
                fd\<lparr>frontEndDirty := True\<rparr>)
             else if dispatchOperation flags = opKernel then
               let fe = copyPropertiesComputeDispatchAllWalkerEnableDisableEuFusion required (frontEndState sp) in
               (csr\<lparr>streamProperties := sp\<lparr>frontEndState := fe\<rparr>\<rparr>, fd\<lparr>frontEndDirty := feIsDirty fe\<rparr>)
             else (csr, fd))
      in (csr, if frontEndDirty fd then fd\<lparr>estimatedSize := estimatedSize fd + getVFECommandsSize env\<rparr> else fd)))"

definition dispatchImmediateFlushFrontEndCommand ::
  "Environment \<Rightarrow> ImmediateFlushData \<Rightarrow> CommandStreamReceiver \<Rightarrow> CommandStreamReceiver result" where
  "dispatchImmediateFlushFrontEndCommand env fd csr =
     (if frontEndDirty fd then
        andThen (emitIf True env (VfeState (streamProperties csr)) csr)
          (\<lambda>csr. let sp = streamProperties csr in
            Inr (csr\<lparr>streamProperties := sp\<lparr>frontEndState := feClearIsDirty (frontEndState sp)\<rparr>\<rparr>))
      else Inr csr)"

definition handleImmediateFlushStateComputeModeState ::
  "Environment \<Rightarrow> ImmediateDispatchFlags \<Rightarrow> CommandStreamReceiver \<times> ImmediateFlushData \<Rightarrow>
   CommandStreamReceiver \<times> ImmediateFlushData" where
  "handleImmediateFlushStateComputeModeState env flags = (\<lambda>(csr, fd).
     (let sp = streamProperties csr;
          required = stateComputeMode (requiredState flags);
          (csr, fd) =
            (if stateComputeModeFullConfigurationNeeded fd then
               (csr\<lparr>streamProperties := sp\<lparr>stateComputeMode := scmCopyPropertiesAll required (stateComputeMode sp)\<rparr>,
                    stateComputeModeDirty := False\<rparr>,
                fd\<lparr>scmDirty := True\<rparr>)
             else if dispatchOperation flags = opKernel then
               let scm = copyPropertiesGrfNumberThreadArbitration required (stateComputeMode sp) in
               (csr\<lparr>streamProperties := sp\<lparr>stateComputeMode := scm\<rparr>\<rparr>, fd\<lparr>scmDirty := scmIsDirty scm\<rparr>)
             else (csr, fd))
      in (csr, if scmDirty fd then fd\<lparr>estimatedSize := estimatedSize fd + getCmdSizeForComputeMode env\<rparr> else fd)))"

definition dispatchImmediateFlushStateComputeModeCommand ::
  "Environment \<Rightarrow> ImmediateFlushData \<Rightarrow> CommandStreamReceiver \<Rightarrow> CommandStreamReceiver result" where
  "dispatchImmediateFlushStateComputeModeCommand env fd csr =
     (if scmDirty fd then
        andThen (emitIf True env (ComputeMode (stateComputeMode (streamProperties csr)) (pipelineSelectArgs fd)) csr)
          (\<lambda>csr. let sp = streamProperties csr in
            Inr (csr\<lparr>streamProperties := sp\<lparr>stateComputeMode := scmClearIsDirty (stateComputeMode sp)\<rparr>\<rparr>))
      else Inr csr)"

text \<open>The copies for a kernel that does not need the full configuration.\<close>

definition copyStateBaseAddressForKernel ::
  "bool \<Rightarrow> bool \<Rightarrow> StateBaseAddressProperties \<Rightarrow> StateBaseAddressProperties \<Rightarrow> StateBaseAddressProperties" where
  "copyStateBaseAddressForKernel globalHeap dsh required sba =
     (let sba = (if propValue (indirectObjectBaseAddress sba) = initValue
                 then copyPropertiesStatelessMocsIndirectState required sba
                 else copyPropertiesStatelessMocs required sba)
      in if \<not> globalHeap then
           let sba = copyPropertiesBindingTableSurfaceState required sba in
           if dsh then copyPropertiesDynamicState required sba else sba
         else copyPropertiesSurfaceState required sba)"

definition handleImmediateFlushStateBaseAddressState ::
  "Environment \<Rightarrow> ImmediateDispatchFlags \<Rightarrow> CommandStreamReceiver \<times> ImmediateFlushData \<Rightarrow>
   CommandStreamReceiver \<times> ImmediateFlushData" where
  "handleImmediateFlushStateBaseAddressState env flags = (\<lambda>(csr, fd).
     (let sp = streamProperties csr;
          required = stateBaseAddress (requiredState flags);
          (csr, fd) =
            (if stateBaseAddressFullConfigurationNeeded fd then
               (csr\<lparr>streamProperties := sp\<lparr>stateBaseAddress := sbaCopyPropertiesAll required (stateBaseAddress sp)\<rparr>,
                    gsbaStateDirty := False\<rparr>,
                fd\<lparr>stateBaseAddressDirty := True\<rparr>)
             else if dispatchOperation flags = opKernel then
               let sba = copyStateBaseAddressForKernel (globalStatelessHeapAllocation csr) (dshSupported csr)
                           required (stateBaseAddress sp) in
               (csr\<lparr>streamProperties := sp\<lparr>stateBaseAddress := sba\<rparr>\<rparr>,
                fd\<lparr>stateBaseAddressDirty := sbaIsDirty sba\<rparr>)
             else (csr, fd))
      in (csr, if stateBaseAddressDirty fd
               then fd\<lparr>estimatedSize := estimatedSize fd + getRequiredStateBaseAddressSize env\<rparr> else fd)))"

definition dispatchImmediateFlushStateBaseAddressCommand ::
  "Environment \<Rightarrow> ImmediateFlushData \<Rightarrow> CommandStreamReceiver \<Rightarrow> CommandStreamReceiver result" where
  "dispatchImmediateFlushStateBaseAddressCommand env fd csr =
     (if stateBaseAddressDirty fd then
        let sba = stateBaseAddress (streamProperties csr);
            btCommandNeeded = (propValue (bindingTablePoolBaseAddress sba) \<noteq> initValue)
        in andThen (emitIf True env (StateBaseAddressCmd sba btCommandNeeded) csr)
             (\<lambda>csr. let sp = streamProperties csr in
               Inr (csr\<lparr>streamProperties := sp\<lparr>stateBaseAddress := sbaClearIsDirty (stateBaseAddress sp)\<rparr>\<rparr>))
      else Inr csr)"

section \<open>One-time initialisation of the context\<close>

definition isProgramActivePartitionConfigRequired :: "CommandStreamReceiver \<Rightarrow> bool" where
  "isProgramActivePartitionConfigRequired csr =
     (if directSubmissionEnabled csr then False else activePartitionsConfig csr \<noteq> activePartitions csr)"

definition isRayTracingStateProgramingNeeded :: "Device \<Rightarrow> CommandStreamReceiver \<Rightarrow> bool" where
  "isRayTracingStateProgramingNeeded device csr \<longleftrightarrow> rayTracingIsInitialized device \<and> btdCommandDirty csr"

definition getCmdSizeForActivePartitionConfig :: "Environment \<Rightarrow> CommandStreamReceiver \<Rightarrow> u64" where
  "getCmdSizeForActivePartitionConfig env csr =
     (if staticWorkPartitioningEnabled csr then getRegisterConfigurationSize env else 0)"

definition programActivePartitionConfig ::
  "Environment \<Rightarrow> CommandStreamReceiver \<Rightarrow> CommandStreamReceiver result" where
  "programActivePartitionConfig env csr =
     andThen (emitIf (staticWorkPartitioningEnabled csr) env PartitionConfig csr)
       (\<lambda>csr. Inr (csr\<lparr>activePartitionsConfig := activePartitions csr\<rparr>))"

definition dispatchRayTracingStateCommand ::
  "Environment \<Rightarrow> CommandStreamReceiver \<Rightarrow> CommandStreamReceiver result" where
  "dispatchRayTracingStateCommand env csr =
     andThen (emitIf True env EnableRayTracing csr) (\<lambda>csr. Inr (csr\<lparr>btdCommandDirty := False\<rparr>))"

definition getRequiredCmdStreamSize :: "Environment \<Rightarrow> PreemptionMode \<Rightarrow> PreemptionMode \<Rightarrow> u64" where
  "getRequiredCmdStreamSize env newMode oldMode = (if newMode = oldMode then 0 else sizeofLri env)"

definition getRequiredPreambleSize :: "Environment \<Rightarrow> Device \<Rightarrow> u64" where
  "getRequiredPreambleSize env device =
     (if devicePreemption device = MidThread \<or> hasDebugger device then sizeofCsrBaseAddress env else 0)"

definition getRequiredStateSipCmdSize :: "Environment \<Rightarrow> Device \<Rightarrow> u64" where
  "getRequiredStateSipCmdSize env device =
     (if \<not> helperStateSipRequired device then 0
      else if devicePreemption device = MidThread \<or> hasDebugger device then sizeofStateSip env else 0)"

definition programCsrBaseAddress ::
  "Environment \<Rightarrow> Device \<Rightarrow> CommandStreamReceiver \<Rightarrow> CommandStreamReceiver result" where
  "programCsrBaseAddress env device csr =
     emitIf (devicePreemption device = MidThread \<and> \<not> hasDebugger device) env CsrBaseAddress csr"

definition programCmdStream ::
  "Environment \<Rightarrow> PreemptionMode \<Rightarrow> PreemptionMode \<Rightarrow> CommandStreamReceiver \<Rightarrow> CommandStreamReceiver result" where
  "programCmdStream env newMode oldMode csr = emitIf (oldMode \<noteq> newMode) env (PreemptionLri newMode) csr"

definition programStateSip :: "Environment \<Rightarrow> Device \<Rightarrow> CommandStreamReceiver \<Rightarrow> CommandStreamReceiver result" where
  "programStateSip env device csr =
     (if \<not> isStateSipSent csr then
        andThen (emitIf (helperStateSipRequired device \<and> (devicePreemption device = MidThread \<or> hasDebugger device))
                   env StateSip csr)
          (\<lambda>csr. Inr (csr\<lparr>isStateSipSent := True\<rparr>))
      else Inr csr)"

text \<open>The prologue and the exceptions are empty in the base implementation.\<close>

definition getCmdSizeForPrologue :: u64 where "getCmdSizeForPrologue = 0"
definition getCmdSizeForExceptions :: u64 where "getCmdSizeForExceptions = 0"

definition handleImmediateFlushOneTimeContextInitState ::
  "Environment \<Rightarrow> Device \<Rightarrow> CommandStreamReceiver \<Rightarrow> ImmediateFlushData \<Rightarrow> ImmediateFlushData" where
  "handleImmediateFlushOneTimeContextInitState env device csr fd =
     (let sz = getCmdSizeForPrologue;
          fd = fd\<lparr>contextOneTimeInit := sz > 0, estimatedSize := estimatedSize fd + sz\<rparr>;
          fd = (if isProgramActivePartitionConfigRequired csr
                then fd\<lparr>contextOneTimeInit := True,
                        estimatedSize := estimatedSize fd + getCmdSizeForActivePartitionConfig env csr\<rparr> else fd);
          fd = (if isRayTracingStateProgramingNeeded device csr
                then fd\<lparr>contextOneTimeInit := True,
                        estimatedSize := estimatedSize fd + getCmdSizeForPerDssBackedBuffer env\<rparr> else fd);
          fd = (if hasDebugger device then
                  let fd = (if \<not> csrSurfaceProgrammingDone csr
                            then fd\<lparr>contextOneTimeInit := True,
                                    estimatedSize := estimatedSize fd + getRequiredPreambleSize env device\<rparr> else fd)
                  in fd\<lparr>estimatedSize := estimatedSize fd + getCmdSizeForExceptions\<rparr>
                else if lastPreemptionMode csr = PreemptionInitial then
                  fd\<lparr>contextOneTimeInit := True,
                     estimatedSize := estimatedSize fd +
                       getRequiredCmdStreamSize env (devicePreemption device) (lastPreemptionMode csr) +
                       getRequiredPreambleSize env device\<rparr>
                else fd)
      in if \<not> isStateSipSent csr then
           let sz = getRequiredStateSipCmdSize env device in
           fd\<lparr>contextOneTimeInit := contextOneTimeInit fd \<or> sz > 0, estimatedSize := estimatedSize fd + sz\<rparr>
         else fd)"

definition dispatchImmediateFlushOneTimeContextInitCommand ::
  "Environment \<Rightarrow> Device \<Rightarrow> ImmediateFlushData \<Rightarrow> CommandStreamReceiver \<Rightarrow> CommandStreamReceiver result" where
  "dispatchImmediateFlushOneTimeContextInitCommand env device fd csr =
     (if contextOneTimeInit fd then
        andThen (if isProgramActivePartitionConfigRequired csr then programActivePartitionConfig env csr else Inr csr)
          (\<lambda>csr. andThen (if isRayTracingStateProgramingNeeded device csr
                         then dispatchRayTracingStateCommand env csr else Inr csr)
          (\<lambda>csr. andThen
             (if hasDebugger device then
                andThen (programCsrBaseAddress env device csr)
                  (\<lambda>csr. Inr (csr\<lparr>csrSurfaceProgrammingDone := True\<rparr>))
              else if lastPreemptionMode csr = PreemptionInitial then
                andThen (programCmdStream env (devicePreemption device) (lastPreemptionMode csr) csr)
                  (\<lambda>csr. andThen (programCsrBaseAddress env device csr)
                  (\<lambda>csr. Inr (csr\<lparr>lastPreemptionMode := devicePreemption device\<rparr>)))
              else Inr csr)
          (\<lambda>csr. programStateSip env device csr)))
      else Inr csr)"

section \<open>Jump, epilogue, residency and submission\<close>

definition handleImmediateFlushJumpToImmediate :: "Environment \<Rightarrow> ImmediateFlushData \<Rightarrow> ImmediateFlushData" where
  "handleImmediateFlushJumpToImmediate env fd =
     (if estimatedSize fd > 0
      then fd\<lparr>estimatedSize := alignUp (estimatedSize fd + getBatchBufferStartSize env) cacheLineSize\<rparr> else fd)"

definition dispatchImmediateFlushJumpToImmediateCommand ::
  "Environment \<Rightarrow> LinearStream \<Rightarrow> u64 \<Rightarrow> ImmediateFlushData \<Rightarrow> CommandStreamReceiver \<Rightarrow>
   CommandStreamReceiver result" where
  "dispatchImmediateFlushJumpToImmediateCommand env immediateStream start fd csr =
     (if estimatedSize fd > 0 then
        andThen (emitIf True env (BatchBufferStart (getGpuBase immediateStream + start) False) csr)
          (\<lambda>csr. map_sum id (\<lambda>st. csr\<lparr>csrStream := st\<rparr>)
             (alignToCacheLine (closeAndAllocateNextCommandBuffer env) (csrStream csr)))
      else Inr csr)"

definition programEndingCmd ::
  "Environment \<Rightarrow> CommandStreamReceiver \<Rightarrow> bool \<Rightarrow> LinearStream \<Rightarrow> LinearStream result" where
  "programEndingCmd env csr relaxedDependencies st =
     (if directSubmissionEnabled csr then
        let startAddress = (if batchBufferStartPrepatching env
                            then (case graphicsAllocation st of Some a \<Rightarrow> gpuAddress a | None \<Rightarrow> 0) + sizeUsed st
                            else 0);
            indirect = (directSubmissionRelaxedOrdering csr \<and> relaxedDependencies)
        in andThen (if indirect then emit env RelaxedOrderingReturn st else Inr st)
             (emit env (BatchBufferStart startAddress indirect))
      else emit env BatchBufferEnd st)"

text \<open>Returns the receiver, the immediate stream and the epilogue stream of the flags.\<close>

definition dispatchImmediateFlushClientBufferCommands ::
  "Environment \<Rightarrow> ImmediateDispatchFlags \<Rightarrow> LinearStream \<Rightarrow> CommandStreamReceiver \<Rightarrow>
   (CommandStreamReceiver \<times> LinearStream \<times> LinearStream option) result" where
  "dispatchImmediateFlushClientBufferCommands env flags immediateStream csr =
     (let epilogue = (case optionalEpilogueCmdStream flags of Some st \<Rightarrow> st | None \<Rightarrow> immediateStream) in
      andThen (if blockingAppend flags \<or> requireTaskCountUpdate flags
               then emit env (BarrierWithPostSync (gpuAddress (tagAllocation csr)) (taskCount csr + 1)) epilogue
               else Inr epilogue)
        (\<lambda>epilogue.
           let csr = makeResident (optionList (graphicsAllocation immediateStream)) csr;
               csr = (case optionalEpilogueCmdStream flags of
                        None \<Rightarrow> csr
                      | Some st \<Rightarrow> makeResident (optionList (graphicsAllocation st)) csr)
           in andThen (programEndingCmd env csr (hasRelaxedOrderingDependencies flags) epilogue)
                (\<lambda>epilogue. andThen (alignToCacheLine (closeAndAllocateNextCommandBuffer env) epilogue)
                   (\<lambda>epilogue. Inr (case optionalEpilogueCmdStream flags of
                      None \<Rightarrow> (csr, epilogue, None)
                    | Some _ \<Rightarrow> (csr, immediateStream, Some epilogue))))))"

definition handleImmediateFlushAllocationsResidency ::
  "Device \<Rightarrow> ImmediateFlushData \<Rightarrow> CommandStreamReceiver \<Rightarrow> CommandStreamReceiver" where
  "handleImmediateFlushAllocationsResidency device fd csr =
     makeResident
       (tagAllocation csr # optionList (globalFenceAllocation csr) @ optionList (workPartitionAllocation csr) @
        optionList (rtMemoryBackedBuffer device) @
        (if estimatedSize fd > 0 then optionList (graphicsAllocation (csrStream csr)) else []) @
        optionList (preemptionAllocation csr) @
        (if deviceStateSipRequired device then [sipAllocation device] else []))
       csr"

definition updateStreamTaskCount ::
  "LinearStream \<Rightarrow> u64 \<Rightarrow> CommandStreamReceiver \<Rightarrow> CommandStreamReceiver" where
  "updateStreamTaskCount st newTaskCount csr =
     csr\<lparr>streamTaskCounts := streamTaskCounts csr @ [(graphicsAllocation st, newTaskCount)]\<rparr>"

definition immediateBatchBuffer ::
  "LinearStream \<Rightarrow> u64 \<Rightarrow> ImmediateDispatchFlags \<Rightarrow> ImmediateFlushData \<Rightarrow> LinearStream \<Rightarrow> BatchBuffer" where
  "immediateBatchBuffer immediateStream start flags fd stream =
     (let startFromCsr = estimatedSize fd > 0;
          streamToSubmit = (if startFromCsr then stream else immediateStream)
      in \<lparr>batchAllocation = graphicsAllocation streamToSubmit,
          batchStartOffset = (if startFromCsr then csrStartOffset fd else start),
          chainedBatchBufferStartOffset = (if startFromCsr then sizeUsed stream else 0),
          taskStartAddress = getGpuBase immediateStream + start,
          chainedBatchBuffer = (if startFromCsr then graphicsAllocation immediateStream else None),
          batchUsedSize = sizeUsed streamToSubmit,
          batchHasStallingCmds = startFromCsr \<or> blockingAppend flags \<or> hasStallingCmds flags,
          batchRelaxedOrderingDependencies = hasRelaxedOrderingDependencies flags,
          dispatchMonitorFence = blockingAppend flags \<or> requireTaskCountUpdate flags,
          disableFlatRingBuffer = (dispatchOperation flags = opCmdList)\<rparr>)"

definition handleImmediateFlushSendBatchBuffer ::
  "Environment \<Rightarrow> LinearStream \<Rightarrow> u64 \<Rightarrow> ImmediateDispatchFlags \<Rightarrow> ImmediateFlushData \<Rightarrow>
   CommandStreamReceiver \<Rightarrow> CompletionStamp \<times> CommandStreamReceiver" where
  "handleImmediateFlushSendBatchBuffer env immediateStream start flags fd csr =
     (let csr = csr\<lparr>latestSentTaskCount := taskCount csr + 1\<rparr>;
          streamToSubmit = (if estimatedSize fd > 0 then csrStream csr else immediateStream);
          batchBuffer = immediateBatchBuffer immediateStream start flags fd (csrStream csr);
          csr = updateStreamTaskCount streamToSubmit (taskCount csr + 1) csr;
          (status, residency) = flushHandler env batchBuffer (residencyAllocations csr);
          csr = csr\<lparr>residencyAllocations := residency\<rparr>
      in if status \<noteq> submitSuccess then
           (\<lparr>stampTaskCount = getTaskCountFromSubmissionStatusError status, stampTaskLevel = 0, stampFlush = 0\<rparr>,
            updateStreamTaskCount streamToSubmit (taskCount csr)
              (csr\<lparr>latestSentTaskCount := latestSentTaskCount csr - 1\<rparr>))
         else
           let csr = (if blockingAppend flags \<or> requireTaskCountUpdate flags
                      then csr\<lparr>latestFlushedTaskCount := taskCount csr + 1\<rparr> else csr);
               csr = csr\<lparr>taskCount := taskCount csr + 1\<rparr>
           in (\<lparr>stampTaskCount = taskCount csr, stampTaskLevel = taskLevel csr, stampFlush = flushStamp csr\<rparr>, csr))"

section \<open>The flush\<close>

definition requireScratchSpace ::
  "Environment \<Rightarrow> ImmediateDispatchFlags \<Rightarrow> CommandStreamReceiver \<times> ImmediateFlushData \<Rightarrow>
   CommandStreamReceiver \<times> ImmediateFlushData" where
  "requireScratchSpace env flags = (\<lambda>(csr, fd).
     if \<not> heaplessModeEnabled csr \<and> sshCpuBase flags \<noteq> 0 \<and>
        (requiredScratchSlot0Size csr > 0 \<or> requiredScratchSlot1Size csr > 0) then
       (case setRequiredScratchSpace env csr (sshCpuBase flags) of
          (checkSbaStateDirty, checkFeStateDirty, scratchAllocations) \<Rightarrow>
            (makeResident scratchAllocations csr,
             fd\<lparr>frontEndFullConfigurationNeeded := frontEndFullConfigurationNeeded fd \<or> checkFeStateDirty,
                stateBaseAddressFullConfigurationNeeded :=
                  stateBaseAddressFullConfigurationNeeded fd \<or> checkSbaStateDirty\<rparr>))
     else (csr, fd))"

definition estimateImmediateFlush ::
  "Environment \<Rightarrow> Device \<Rightarrow> ImmediateDispatchFlags \<Rightarrow> CommandStreamReceiver \<Rightarrow>
   CommandStreamReceiver \<times> ImmediateFlushData" where
  "estimateImmediateFlush env device flags csr =
     (let fd = newImmediateFlushData\<lparr>pipelineSelectFullConfigurationNeeded := \<not> isPreambleSent csr,
            frontEndFullConfigurationNeeded := mediaVfeStateDirty csr,
            stateComputeModeFullConfigurationNeeded := stateComputeModeDirty csr,
            stateBaseAddressFullConfigurationNeeded := gsbaStateDirty csr\<rparr>;
          (csr, fd) = requireScratchSpace env flags (csr, fd);
          (csr, fd) = handleImmediateFlushPipelineSelectState env flags (csr, fd);
          (csr, fd) = handleImmediateFlushFrontEndState env flags (csr, fd);
          (csr, fd) = handleImmediateFlushStateComputeModeState env flags (csr, fd);
          (csr, fd) = handleImmediateFlushStateBaseAddressState env flags (csr, fd);
          fd = handleImmediateFlushOneTimeContextInitState env device csr fd;
          fd = fd\<lparr>stateCacheFlushRequired := (bindlessStateDirty csr = Some True)\<rparr>;
          fd = (if stateCacheFlushRequired fd
                then fd\<lparr>estimatedSize := estimatedSize fd + getSizeForSingleBarrier env\<rparr> else fd);
          fd = (if requiresInstructionCacheFlush csr
                then fd\<lparr>estimatedSize := estimatedSize fd + getSizeForInstructionCacheFlush env\<rparr> else fd)
      in (csr, fd))"

definition dispatchCacheFlushes ::
  "Environment \<Rightarrow> ImmediateFlushData \<Rightarrow> CommandStreamReceiver \<Rightarrow> CommandStreamReceiver result" where
  "dispatchCacheFlushes env fd csr =
     andThen (if stateCacheFlushRequired fd
              then emitIf True env StateCacheFlush (csr\<lparr>bindlessStateDirty := Some False\<rparr>) else Inr csr)
       (\<lambda>csr. if requiresInstructionCacheFlush csr
              then andThen (emitIf True env InstructionCacheFlush csr)
                     (\<lambda>csr. Inr (csr\<lparr>requiresInstructionCacheFlush := False\<rparr>))
              else Inr csr)"

definition dispatchImmediateFlush ::
  "Environment \<Rightarrow> Device \<Rightarrow> ImmediateFlushData \<Rightarrow> CommandStreamReceiver \<Rightarrow> CommandStreamReceiver result" where
  "dispatchImmediateFlush env device fd csr =
     andThen (dispatchCacheFlushes env fd csr)
       (\<lambda>csr. andThen (dispatchImmediateFlushPipelineSelectCommand env fd csr)
       (\<lambda>csr. andThen (dispatchImmediateFlushFrontEndCommand env fd csr)
       (\<lambda>csr. andThen (dispatchImmediateFlushStateComputeModeCommand env fd csr)
       (\<lambda>csr. andThen (dispatchImmediateFlushStateBaseAddressCommand env fd csr)
       (\<lambda>csr. dispatchImmediateFlushOneTimeContextInitCommand env device fd csr)))))"

text \<open>A reusable command buffer or a new one comes from \<open>obtainCommandBuffer\<close>; the old one is stored for reuse.\<close>

definition ensureCommandBufferAllocation :: "Environment \<Rightarrow> u64 \<Rightarrow> u64 \<Rightarrow> LinearStream \<Rightarrow> LinearStream" where
  "ensureCommandBufferAllocation env minimumRequiredSize additionalAllocationSize st =
     (if getAvailableSpace st \<ge> minimumRequiredSize then st
      else let alignment = (case forceCommandBufferAlignment env of None \<Rightarrow> 65536 | Some k \<Rightarrow> k * 1024);
               allocationSize = alignUp (minimumRequiredSize + additionalAllocationSize) alignment;
               allocation = obtainCommandBuffer env allocationSize
           in replaceGraphicsAllocation (Some allocation)
                (replaceBuffer (underlyingBuffer allocation) (allocationSize - additionalAllocationSize) st))"

definition getCS :: "Environment \<Rightarrow> u64 \<Rightarrow> CommandStreamReceiver \<Rightarrow> CommandStreamReceiver" where
  "getCS env minRequiredSize csr =
     csr\<lparr>csrStream := ensureCommandBufferAllocation env minRequiredSize (cacheLineSize + pageSize) (csrStream csr)\<rparr>"

definition flushImmediateTask ::
  "Environment \<Rightarrow> Device \<Rightarrow> LinearStream \<Rightarrow> u64 \<Rightarrow> ImmediateDispatchFlags \<Rightarrow> CommandStreamReceiver \<Rightarrow>
   (CompletionStamp \<times> CommandStreamReceiver \<times> LinearStream \<times> LinearStream option) result" where
  "flushImmediateTask env device immediateStream start flags csr =
     (let (csr, fd) = (if dispatchOperation flags \<noteq> opCmdList then estimateImmediateFlush env device flags csr
                       else (csr, newImmediateFlushData));
          fd = handleImmediateFlushJumpToImmediate env fd;
          csr = getCS env (estimatedSize fd) csr;
          fd = fd\<lparr>csrStartOffset := sizeUsed (csrStream csr)\<rparr>
      in andThen (if dispatchOperation flags \<noteq> opCmdList then dispatchImmediateFlush env device fd csr else Inr csr)
           (\<lambda>csr. andThen (dispatchImmediateFlushJumpToImmediateCommand env immediateStream start fd csr)
           (\<lambda>csr. andThen (dispatchImmediateFlushClientBufferCommands env flags immediateStream csr)
           (\<lambda>(csr, immediateStream, epilogue).
              let csr = handleImmediateFlushAllocationsResidency device fd csr;
                  (stamp, csr) = handleImmediateFlushSendBatchBuffer env immediateStream start flags fd csr
              in Inr (stamp, csr, immediateStream, epilogue)))))"

section \<open>Commands in a stream\<close>

text \<open>What the commands of a stream programmed last, by a reading \<open>f\<close> of the commands.\<close>

definition lastOf :: "('c \<Rightarrow> 'v option) \<Rightarrow> 'c list \<Rightarrow> 'v option" where
  "lastOf f cs = foldl (\<lambda>a c. case f c of None \<Rightarrow> a | Some v \<Rightarrow> Some v) None cs"

lemma lastOf_snoc [simp]:
  "lastOf f (cs @ [c]) = (case f c of None \<Rightarrow> lastOf f cs | Some v \<Rightarrow> Some v)"
  by (simp add: lastOf_def split: option.split)

lemma lastOf_skip: "\<forall>c \<in> set ds. f c = None \<Longrightarrow> lastOf f (cs @ ds) = lastOf f cs"
proof (induction ds rule: rev_induct)
  case (snoc d ds)
  then show ?case by (simp flip: append_assoc)
qed simp

fun readPs :: "GpuCommand \<Rightarrow> bool option" where
  "readPs (PipelineSelect args) = Some (systolicPipelineSelectMode args)"
| "readPs _ = None"

fun readFe :: "GpuCommand \<Rightarrow> int list option" where
  "readFe (VfeState sp) = Some (feTracked (frontEndState sp))"
| "readFe _ = None"

fun readScm :: "GpuCommand \<Rightarrow> int list option" where
  "readScm (ComputeMode scm _) = Some (scmTracked scm)"
| "readScm _ = None"

fun readSba :: "GpuCommand \<Rightarrow> int list option" where
  "readSba (StateBaseAddressCmd sba _) = Some (sbaTracked sba)"
| "readSba _ = None"

definition noState :: "GpuCommand \<Rightarrow> bool" where
  "noState c \<longleftrightarrow> readPs c = None \<and> readFe c = None \<and> readScm c = None \<and> readSba c = None"

text \<open>\<open>extends cs st st'\<close>: \<open>st'\<close> is the same buffer as \<open>st\<close>, with the commands \<open>cs\<close> appended.\<close>

definition extends :: "GpuCommand list \<Rightarrow> LinearStream \<Rightarrow> LinearStream \<Rightarrow> bool" where
  "extends cs st st' \<longleftrightarrow> streamCommands st' = streamCommands st @ cs \<and>
     hasCmdContainer st' = hasCmdContainer st \<and> graphicsAllocation st' = graphicsAllocation st"

lemma extends_refl [simp]: "extends [] st st"
  by (simp add: extends_def)

lemma extends_trans [trans]: "extends cs st st' \<Longrightarrow> extends ds st' st'' \<Longrightarrow> extends (cs @ ds) st st''"
  by (simp add: extends_def)

lemma getSpace_extends:
  assumes "getSpace close n st = Inr (p, st')" "\<not> hasCmdContainer st"
  shows "extends [] st st'"
  using assms by (auto simp: getSpace_def ensureContinuousSpace_def extends_def split: if_splits)

lemma emit_extends:
  assumes "emit env c st = Inr st'" "\<not> hasCmdContainer st"
  shows "extends [c] st st'"
proof -
  obtain q st1 where g: "getSpace (closeAndAllocateNextCommandBuffer env) (commandSize env c) st = Inr (q, st1)"
    and st': "st' = st1\<lparr>streamCommands := streamCommands st1 @ [c]\<rparr>"
    using assms(1) by (auto simp: emit_def elim!: andThen_InrE)
  show ?thesis using getSpace_extends [OF g assms(2)] by (simp add: st' extends_def)
qed

lemma emitIf_extends:
  assumes "emitIf b env c csr = Inr csr'" "\<not> hasCmdContainer (csrStream csr)"
  obtains st' where "csr' = csr\<lparr>csrStream := st'\<rparr>" "extends (if b then [c] else []) (csrStream csr) st'"
proof (cases b)
  case True
  then obtain st' where e: "emit env c (csrStream csr) = Inr st'" and c: "csr' = csr\<lparr>csrStream := st'\<rparr>"
    using assms(1) by (auto simp: emitIf_def map_sum_def split: sum.splits)
  show ?thesis using that [OF c] emit_extends [OF e assms(2)] True by simp
next
  case False
  then have c: "csr' = csr\<lparr>csrStream := csrStream csr\<rparr>" using assms(1) by (simp add: emitIf_def)
  show ?thesis using that [OF c] False by simp
qed

lemma align_extends:
  assumes "alignToCacheLine close st = Inr st'" "\<not> hasCmdContainer st"
  shows "extends [] st st'"
proof (cases "sizeUsed st AND (cacheLineSize - 1) = 0")
  case False
  then obtain q where "getSpace close (cacheLineSize - (sizeUsed st AND (cacheLineSize - 1))) st = Inr (q, st')"
    using assms(1) by (auto simp: alignToCacheLine_def Let_def map_sum_def split: sum.splits)
  then show ?thesis using getSpace_extends assms(2) by blast
qed (use assms in \<open>simp add: alignToCacheLine_def\<close>)

section \<open>The tracked state and the commands stay in step\<close>

text \<open>What a flush copies into a group.\<close>

definition flushCopy :: "bool \<Rightarrow> bool \<Rightarrow> ('s \<Rightarrow> 's \<Rightarrow> 's) \<Rightarrow> ('s \<Rightarrow> 's \<Rightarrow> 's) \<Rightarrow> 's \<Rightarrow> 's \<Rightarrow> 's" where
  "flushCopy full isKernel copyAll copySome r s =
     (if full then copyAll r s else if isKernel then copySome r s else s)"

abbreviation flushPs :: "bool \<Rightarrow> ImmediateDispatchFlags \<Rightarrow> StreamProperties \<Rightarrow> PipelineSelectProperties" where
  "flushPs full flags sp \<equiv> flushCopy full (dispatchOperation flags = opKernel) psCopyPropertiesAll
     copyPropertiesSystolicMode (pipelineSelect (requiredState flags)) (pipelineSelect sp)"

abbreviation flushFe :: "bool \<Rightarrow> ImmediateDispatchFlags \<Rightarrow> StreamProperties \<Rightarrow> FrontEndProperties" where
  "flushFe full flags sp \<equiv> flushCopy full (dispatchOperation flags = opKernel) feCopyPropertiesAll
     copyPropertiesComputeDispatchAllWalkerEnableDisableEuFusion (frontEndState (requiredState flags)) (frontEndState sp)"

abbreviation flushScm :: "bool \<Rightarrow> ImmediateDispatchFlags \<Rightarrow> StreamProperties \<Rightarrow> StateComputeModeProperties" where
  "flushScm full flags sp \<equiv> flushCopy full (dispatchOperation flags = opKernel) scmCopyPropertiesAll
     copyPropertiesGrfNumberThreadArbitration (stateComputeMode (requiredState flags)) (stateComputeMode sp)"

abbreviation flushSba ::
  "bool \<Rightarrow> ImmediateDispatchFlags \<Rightarrow> CommandStreamReceiver \<Rightarrow> StateBaseAddressProperties" where
  "flushSba full flags csr \<equiv> flushCopy full (dispatchOperation flags = opKernel) sbaCopyPropertiesAll
     (copyStateBaseAddressForKernel (globalStatelessHeapAllocation csr) (dshSupported csr))
     (stateBaseAddress (requiredState flags)) (stateBaseAddress (streamProperties csr))"

abbreviation needed :: "bool \<Rightarrow> ImmediateDispatchFlags \<Rightarrow> bool \<Rightarrow> bool" where
  "needed full flags dirty \<equiv> full \<or> dispatchOperation flags = opKernel \<and> dirty"

abbreviation addIf :: "bool \<Rightarrow> u64 \<Rightarrow> u64 \<Rightarrow> u64" where
  "addIf b n s \<equiv> (if b then s + n else s)"

lemma handlePs:
  assumes "\<not> pipelineSelectDirty fd"
  shows "handleImmediateFlushPipelineSelectState env flags (csr, fd) =
    (let full = pipelineSelectFullConfigurationNeeded fd;
         ps = flushPs full flags (streamProperties csr);
         d = needed full flags (psIsDirty ps) in
     (csr\<lparr>streamProperties := (streamProperties csr)\<lparr>pipelineSelect := ps\<rparr>,
          isPreambleSent := isPreambleSent csr \<or> full\<rparr>,
      fd\<lparr>pipelineSelectDirty := d, estimatedSize := addIf d (getCmdSizeForPipelineSelect env) (estimatedSize fd),
         pipelineSelectArgs := \<lparr>systolicPipelineSelectMode = (propValue (systolicMode ps) = 1),
                mediaSamplerRequired = False, is3DPipelineRequired = False,
                systolicPipelineSelectSupport = pipelineSupportSystolicMode csr\<rparr>\<rparr>))"
  using assms by (auto simp: handleImmediateFlushPipelineSelectState_def flushCopy_def Let_def)

lemma handleFe:
  assumes "\<not> frontEndDirty fd"
  shows "handleImmediateFlushFrontEndState env flags (csr, fd) =
    (let full = frontEndFullConfigurationNeeded fd;
         fe = flushFe full flags (streamProperties csr);
         d = needed full flags (feIsDirty fe) in
     (csr\<lparr>streamProperties := (streamProperties csr)\<lparr>frontEndState := fe\<rparr>,
          mediaVfeStateDirty := mediaVfeStateDirty csr \<and> \<not> full\<rparr>,
      fd\<lparr>frontEndDirty := d, estimatedSize := addIf d (getVFECommandsSize env) (estimatedSize fd)\<rparr>))"
  using assms by (auto simp: handleImmediateFlushFrontEndState_def flushCopy_def Let_def)

lemma handleScm:
  assumes "\<not> scmDirty fd"
  shows "handleImmediateFlushStateComputeModeState env flags (csr, fd) =
    (let full = stateComputeModeFullConfigurationNeeded fd;
         scm = flushScm full flags (streamProperties csr);
         d = needed full flags (scmIsDirty scm) in
     (csr\<lparr>streamProperties := (streamProperties csr)\<lparr>stateComputeMode := scm\<rparr>,
          stateComputeModeDirty := stateComputeModeDirty csr \<and> \<not> full\<rparr>,
      fd\<lparr>scmDirty := d, estimatedSize := addIf d (getCmdSizeForComputeMode env) (estimatedSize fd)\<rparr>))"
  using assms by (auto simp: handleImmediateFlushStateComputeModeState_def flushCopy_def Let_def)

lemma handleSba:
  assumes "\<not> stateBaseAddressDirty fd"
  shows "handleImmediateFlushStateBaseAddressState env flags (csr, fd) =
    (let full = stateBaseAddressFullConfigurationNeeded fd;
         sba = flushSba full flags csr;
         d = needed full flags (sbaIsDirty sba) in
     (csr\<lparr>streamProperties := (streamProperties csr)\<lparr>stateBaseAddress := sba\<rparr>,
          gsbaStateDirty := gsbaStateDirty csr \<and> \<not> full\<rparr>,
      fd\<lparr>stateBaseAddressDirty := d, estimatedSize := addIf d (getRequiredStateBaseAddressSize env) (estimatedSize fd)\<rparr>))"
  using assms by (auto simp: handleImmediateFlushStateBaseAddressState_def flushCopy_def Let_def)

interpretation kernelSba: partial_tracker sbaTracked sbaIsDirty sbaClearIsDirty sbaCopyPropertiesAll
  "copyStateBaseAddressForKernel globalHeap dsh"
  "\<lambda>s. [True, \<not> globalHeap, True, \<not> globalHeap \<and> dsh, propValue (indirectObjectBaseAddress s) = initValue]"
  for globalHeap dsh
  by unfold_locales
    (auto simp: copyStateBaseAddressForKernel_def copyPropertiesStatelessMocsIndirectState_def
      copyPropertiesStatelessMocs_def copyPropertiesBindingTableSurfaceState_def copyPropertiesDynamicState_def
      copyPropertiesSurfaceState_def sba_defs Let_def)

text \<open>
  The contract of the receiver between flushes: nothing is dirty, and each group that need not be
  programmed in full has the values of the last command that programmed it.
\<close>

definition inStep :: "CommandStreamReceiver \<Rightarrow> bool" where
  "inStep csr \<longleftrightarrow>
     (let sp = streamProperties csr; cs = streamCommands (csrStream csr) in
      \<not> psIsDirty (pipelineSelect sp) \<and> \<not> feIsDirty (frontEndState sp) \<and>
      \<not> scmIsDirty (stateComputeMode sp) \<and> \<not> sbaIsDirty (stateBaseAddress sp) \<and>
      (isPreambleSent csr \<longrightarrow> lastOf readPs cs = Some (propValue (systolicMode (pipelineSelect sp)) = 1)) \<and>
      (\<not> mediaVfeStateDirty csr \<longrightarrow> lastOf readFe cs = Some (feTracked (frontEndState sp))) \<and>
      (\<not> stateComputeModeDirty csr \<longrightarrow> lastOf readScm cs = Some (scmTracked (stateComputeMode sp))) \<and>
      (\<not> gsbaStateDirty csr \<longrightarrow> lastOf readSba cs = Some (sbaTracked (stateBaseAddress sp))))"

text \<open>The state a flush leaves to be dispatched.\<close>

definition estimated ::
  "bool \<Rightarrow> bool \<Rightarrow> bool \<Rightarrow> bool \<Rightarrow> ImmediateDispatchFlags \<Rightarrow> CommandStreamReceiver \<Rightarrow> CommandStreamReceiver \<Rightarrow>
   ImmediateFlushData \<Rightarrow> bool" where
  "estimated psFull feFull scmFull sbaFull flags csr csr' fd \<longleftrightarrow>
     streamProperties csr' =
       \<lparr>stateComputeMode = flushScm scmFull flags (streamProperties csr),
        frontEndState = flushFe feFull flags (streamProperties csr),
        pipelineSelect = flushPs psFull flags (streamProperties csr),
        stateBaseAddress = flushSba sbaFull flags csr\<rparr> \<and>
     isPreambleSent csr' = (isPreambleSent csr \<or> psFull) \<and>
     mediaVfeStateDirty csr' = (mediaVfeStateDirty csr \<and> \<not> feFull) \<and>
     stateComputeModeDirty csr' = (stateComputeModeDirty csr \<and> \<not> scmFull) \<and>
     gsbaStateDirty csr' = (gsbaStateDirty csr \<and> \<not> sbaFull) \<and>
     csrStream csr' = csrStream csr \<and>
     pipelineSelectDirty fd = needed psFull flags (psIsDirty (flushPs psFull flags (streamProperties csr))) \<and>
     frontEndDirty fd = needed feFull flags (feIsDirty (flushFe feFull flags (streamProperties csr))) \<and>
     scmDirty fd = needed scmFull flags (scmIsDirty (flushScm scmFull flags (streamProperties csr))) \<and>
     stateBaseAddressDirty fd = needed sbaFull flags (sbaIsDirty (flushSba sbaFull flags csr)) \<and>
     systolicPipelineSelectMode (pipelineSelectArgs fd) =
       (propValue (systolicMode (flushPs psFull flags (streamProperties csr))) = 1)"

lemma oneTime_frame:
  "pipelineSelectDirty (handleImmediateFlushOneTimeContextInitState env device csr fd) = pipelineSelectDirty fd"
  "frontEndDirty (handleImmediateFlushOneTimeContextInitState env device csr fd) = frontEndDirty fd"
  "scmDirty (handleImmediateFlushOneTimeContextInitState env device csr fd) = scmDirty fd"
  "stateBaseAddressDirty (handleImmediateFlushOneTimeContextInitState env device csr fd) = stateBaseAddressDirty fd"
  "pipelineSelectArgs (handleImmediateFlushOneTimeContextInitState env device csr fd) = pipelineSelectArgs fd"
  by (simp_all add: handleImmediateFlushOneTimeContextInitState_def Let_def)

lemma StreamProperties_all:
  "sp\<lparr>pipelineSelect := a, frontEndState := b, stateComputeMode := c, stateBaseAddress := d\<rparr> =
     \<lparr>stateComputeMode = c, frontEndState = b, pipelineSelect = a, stateBaseAddress = d\<rparr>"
  by (cases sp) simp

lemma requireScratchSpace_shape:
  obtains res feFull sbaFull where
    "requireScratchSpace env flags (csr, fd) =
       (csr\<lparr>residencyAllocations := res\<rparr>,
        fd\<lparr>frontEndFullConfigurationNeeded := feFull, stateBaseAddressFullConfigurationNeeded := sbaFull\<rparr>)"
    "frontEndFullConfigurationNeeded fd \<longrightarrow> feFull" "stateBaseAddressFullConfigurationNeeded fd \<longrightarrow> sbaFull"
proof (cases "\<not> heaplessModeEnabled csr \<and> sshCpuBase flags \<noteq> 0 \<and>
    (requiredScratchSlot0Size csr > 0 \<or> requiredScratchSlot1Size csr > 0)")
  case True
  obtain b f as where "setRequiredScratchSpace env csr (sshCpuBase flags) = (b, f, as)" by (metis prod_cases3)
  then have "requireScratchSpace env flags (csr, fd) =
       (csr\<lparr>residencyAllocations := residencyAllocations csr @ as\<rparr>,
        fd\<lparr>frontEndFullConfigurationNeeded := frontEndFullConfigurationNeeded fd \<or> f,
           stateBaseAddressFullConfigurationNeeded := stateBaseAddressFullConfigurationNeeded fd \<or> b\<rparr>)"
    using True by (simp add: requireScratchSpace_def makeResident_def)
  then show ?thesis by (rule that) simp_all
next
  case False
  then have "requireScratchSpace env flags (csr, fd) =
       (csr\<lparr>residencyAllocations := residencyAllocations csr\<rparr>,
        fd\<lparr>frontEndFullConfigurationNeeded := frontEndFullConfigurationNeeded fd,
           stateBaseAddressFullConfigurationNeeded := stateBaseAddressFullConfigurationNeeded fd\<rparr>)"
    by (auto simp: requireScratchSpace_def)
  then show ?thesis by (rule that) simp_all
qed

lemma estimate_estimated:
  assumes "estimateImmediateFlush env device flags csr = (csr', fd)"
  obtains feFull sbaFull where
    "estimated (\<not> isPreambleSent csr) feFull (stateComputeModeDirty csr) sbaFull flags csr csr' fd"
    "mediaVfeStateDirty csr \<longrightarrow> feFull" "gsbaStateDirty csr \<longrightarrow> sbaFull"
proof -
  define fd0 where "fd0 = newImmediateFlushData\<lparr>pipelineSelectFullConfigurationNeeded := \<not> isPreambleSent csr,
            frontEndFullConfigurationNeeded := mediaVfeStateDirty csr,
            stateComputeModeFullConfigurationNeeded := stateComputeModeDirty csr,
            stateBaseAddressFullConfigurationNeeded := gsbaStateDirty csr\<rparr>"
  obtain res feFull sbaFull where s: "requireScratchSpace env flags (csr, fd0) =
       (csr\<lparr>residencyAllocations := res\<rparr>,
        fd0\<lparr>frontEndFullConfigurationNeeded := feFull, stateBaseAddressFullConfigurationNeeded := sbaFull\<rparr>)"
    and full: "mediaVfeStateDirty csr \<longrightarrow> feFull" "gsbaStateDirty csr \<longrightarrow> sbaFull"
    by (rule requireScratchSpace_shape [of env flags csr fd0]) (auto simp: fd0_def)
  have clean: "\<not> pipelineSelectDirty fd0" "\<not> frontEndDirty fd0" "\<not> scmDirty fd0" "\<not> stateBaseAddressDirty fd0"
    and flags: "pipelineSelectFullConfigurationNeeded fd0 = (\<not> isPreambleSent csr)"
    "stateComputeModeFullConfigurationNeeded fd0 = stateComputeModeDirty csr"
    by (simp_all add: fd0_def newImmediateFlushData_def)
  define sp where "sp = streamProperties csr"
  define c0 where "c0 = csr\<lparr>residencyAllocations := res\<rparr>"
  define f0 where "f0 = fd0\<lparr>frontEndFullConfigurationNeeded := feFull, stateBaseAddressFullConfigurationNeeded := sbaFull\<rparr>"
  define ps where "ps = flushPs (\<not> isPreambleSent csr) flags sp"
  define fe where "fe = flushFe feFull flags sp"
  define scm where "scm = flushScm (stateComputeModeDirty csr) flags sp"
  define sba where "sba = flushSba sbaFull flags csr"
  define dps where "dps = needed (\<not> isPreambleSent csr) flags (psIsDirty ps)"
  define dfe where "dfe = needed feFull flags (feIsDirty fe)"
  define dscm where "dscm = needed (stateComputeModeDirty csr) flags (scmIsDirty scm)"
  define dsba where "dsba = needed sbaFull flags (sbaIsDirty sba)"
  define c1 where "c1 = c0\<lparr>streamProperties := sp\<lparr>pipelineSelect := ps\<rparr>,
    isPreambleSent := isPreambleSent csr \<or> \<not> isPreambleSent csr\<rparr>"
  define f1 where "f1 = f0\<lparr>pipelineSelectDirty := dps,
    estimatedSize := addIf dps (getCmdSizeForPipelineSelect env) (estimatedSize f0),
    pipelineSelectArgs := \<lparr>systolicPipelineSelectMode = (propValue (systolicMode ps) = 1),
                mediaSamplerRequired = False, is3DPipelineRequired = False,
                systolicPipelineSelectSupport = pipelineSupportSystolicMode csr\<rparr>\<rparr>"
  define c2 where "c2 = c1\<lparr>streamProperties := sp\<lparr>pipelineSelect := ps, frontEndState := fe\<rparr>,
    mediaVfeStateDirty := mediaVfeStateDirty csr \<and> \<not> feFull\<rparr>"
  define f2 where "f2 = f1\<lparr>frontEndDirty := dfe, estimatedSize := addIf dfe (getVFECommandsSize env) (estimatedSize f1)\<rparr>"
  define c3 where "c3 = c2\<lparr>streamProperties := sp\<lparr>pipelineSelect := ps, frontEndState := fe, stateComputeMode := scm\<rparr>,
    stateComputeModeDirty := stateComputeModeDirty csr \<and> \<not> stateComputeModeDirty csr\<rparr>"
  define f3 where "f3 = f2\<lparr>scmDirty := dscm, estimatedSize := addIf dscm (getCmdSizeForComputeMode env) (estimatedSize f2)\<rparr>"
  define c4 where "c4 = c3\<lparr>streamProperties :=
      \<lparr>stateComputeMode = scm, frontEndState = fe, pipelineSelect = ps, stateBaseAddress = sba\<rparr>,
    gsbaStateDirty := gsbaStateDirty csr \<and> \<not> sbaFull\<rparr>"
  define f4 where "f4 = f3\<lparr>stateBaseAddressDirty := dsba,
    estimatedSize := addIf dsba (getRequiredStateBaseAddressSize env) (estimatedSize f3)\<rparr>"
  have "handleImmediateFlushPipelineSelectState env flags (c0, f0) = (c1, f1)"
    using clean flags
    by (subst handlePs) (simp_all add: Let_def c0_def f0_def c1_def f1_def ps_def dps_def sp_def)
  moreover have "handleImmediateFlushFrontEndState env flags (c1, f1) = (c2, f2)"
    using clean flags
    by (subst handleFe) (simp_all add: Let_def c0_def f0_def c1_def f1_def c2_def f2_def fe_def dfe_def sp_def)
  moreover have "handleImmediateFlushStateComputeModeState env flags (c2, f2) = (c3, f3)"
    using clean flags
    by (subst handleScm) (simp_all add: Let_def c0_def f0_def c1_def f1_def c2_def f2_def c3_def f3_def
        scm_def dscm_def sp_def)
  moreover have "handleImmediateFlushStateBaseAddressState env flags (c3, f3) = (c4, f4)"
    using clean flags
    by (subst handleSba) (simp_all add: Let_def c0_def f0_def c1_def f1_def c2_def f2_def c3_def f3_def c4_def f4_def
        sba_def dsba_def sp_def StreamProperties_all)
  moreover define f5 where "f5 = handleImmediateFlushOneTimeContextInitState env device c4 f4"
  moreover define f6 where "f6 = f5\<lparr>stateCacheFlushRequired := (bindlessStateDirty c4 = Some True)\<rparr>"
  moreover define f7 where "f7 = (if bindlessStateDirty c4 = Some True
    then f6\<lparr>estimatedSize := estimatedSize f6 + getSizeForSingleBarrier env\<rparr> else f6)"
  ultimately have c': "csr' = c4" and fd: "fd = (if requiresInstructionCacheFlush c4
      then f7\<lparr>estimatedSize := estimatedSize f7 + getSizeForInstructionCacheFlush env\<rparr> else f7)"
    using assms s unfolding estimateImmediateFlush_def fd0_def [symmetric] c0_def [symmetric] f0_def [symmetric]
    by (auto simp: Let_def split: if_splits)
  have f': "pipelineSelectDirty fd = dps" "frontEndDirty fd = dfe" "scmDirty fd = dscm" "stateBaseAddressDirty fd = dsba"
    "systolicPipelineSelectMode (pipelineSelectArgs fd) = (propValue (systolicMode ps) = 1)"
    by (simp_all add: fd f7_def f6_def f5_def oneTime_frame f4_def f3_def f2_def f1_def)
  have "estimated (\<not> isPreambleSent csr) feFull (stateComputeModeDirty csr) sbaFull flags csr csr' fd"
    unfolding estimated_def c' f'
    by (simp add: c4_def c3_def c2_def c1_def c0_def ps_def fe_def scm_def sba_def dps_def dfe_def dscm_def dsba_def sp_def)
  then show ?thesis using that full by blast
qed

lemma emit_then:
  assumes "andThen (emitIf b env c csr) (\<lambda>x. Inr (u x)) = Inr csr'" "\<not> hasCmdContainer (csrStream csr)"
  obtains st where "extends (if b then [c] else []) (csrStream csr) st" "csr' = u (csr\<lparr>csrStream := st\<rparr>)"
proof -
  obtain x where x: "emitIf b env c csr = Inr x" "csr' = u x"
    using assms(1) by (rule andThen_InrE) blast
  obtain st where "x = csr\<lparr>csrStream := st\<rparr>" "extends (if b then [c] else []) (csrStream csr) st"
    by (rule emitIf_extends [OF x(1) assms(2)])
  then show ?thesis using that x(2) by blast
qed

lemma dispatchPs:
  assumes "dispatchImmediateFlushPipelineSelectCommand env fd csr = Inr csr'" "\<not> hasCmdContainer (csrStream csr)"
  obtains st where "extends (if pipelineSelectDirty fd then [PipelineSelect (pipelineSelectArgs fd)] else []) (csrStream csr) st"
    "csr' = csr\<lparr>csrStream := st, streamProperties := (streamProperties csr)\<lparr>pipelineSelect :=
       (if pipelineSelectDirty fd then psClearIsDirty (pipelineSelect (streamProperties csr)) else pipelineSelect (streamProperties csr))\<rparr>\<rparr>"
proof (cases "pipelineSelectDirty fd")
  case True
  show ?thesis
    by (rule emit_then [OF assms(1) [unfolded dispatchImmediateFlushPipelineSelectCommand_def if_P [OF True] Let_def] assms(2)])
      (rule that, use True in simp_all)
next
  case False
  then have same: "csr' = csr" using assms(1) by (simp add: dispatchImmediateFlushPipelineSelectCommand_def)
  show ?thesis
    by (rule that [of "csrStream csr"]) (simp_all add: False same)
qed

lemma dispatchFe:
  assumes "dispatchImmediateFlushFrontEndCommand env fd csr = Inr csr'" "\<not> hasCmdContainer (csrStream csr)"
  obtains st where "extends (if frontEndDirty fd then [VfeState (streamProperties csr)] else []) (csrStream csr) st"
    "csr' = csr\<lparr>csrStream := st, streamProperties := (streamProperties csr)\<lparr>frontEndState :=
       (if frontEndDirty fd then feClearIsDirty (frontEndState (streamProperties csr)) else frontEndState (streamProperties csr))\<rparr>\<rparr>"
proof (cases "frontEndDirty fd")
  case True
  show ?thesis
    by (rule emit_then [OF assms(1) [unfolded dispatchImmediateFlushFrontEndCommand_def if_P [OF True] Let_def] assms(2)])
      (rule that, use True in simp_all)
next
  case False
  then have same: "csr' = csr" using assms(1) by (simp add: dispatchImmediateFlushFrontEndCommand_def)
  show ?thesis
    by (rule that [of "csrStream csr"]) (simp_all add: False same)
qed

lemma dispatchScm:
  assumes "dispatchImmediateFlushStateComputeModeCommand env fd csr = Inr csr'" "\<not> hasCmdContainer (csrStream csr)"
  obtains st where "extends (if scmDirty fd then [ComputeMode (stateComputeMode (streamProperties csr)) (pipelineSelectArgs fd)] else []) (csrStream csr) st"
    "csr' = csr\<lparr>csrStream := st, streamProperties := (streamProperties csr)\<lparr>stateComputeMode :=
       (if scmDirty fd then scmClearIsDirty (stateComputeMode (streamProperties csr)) else stateComputeMode (streamProperties csr))\<rparr>\<rparr>"
proof (cases "scmDirty fd")
  case True
  show ?thesis
    by (rule emit_then [OF assms(1) [unfolded dispatchImmediateFlushStateComputeModeCommand_def if_P [OF True] Let_def] assms(2)])
      (rule that, use True in simp_all)
next
  case False
  then have same: "csr' = csr" using assms(1) by (simp add: dispatchImmediateFlushStateComputeModeCommand_def)
  show ?thesis
    by (rule that [of "csrStream csr"]) (simp_all add: False same)
qed

lemma dispatchSba:
  assumes "dispatchImmediateFlushStateBaseAddressCommand env fd csr = Inr csr'" "\<not> hasCmdContainer (csrStream csr)"
  obtains st where "extends (if stateBaseAddressDirty fd then [StateBaseAddressCmd (stateBaseAddress (streamProperties csr)) (propValue (bindingTablePoolBaseAddress (stateBaseAddress (streamProperties csr))) \<noteq> initValue)] else []) (csrStream csr) st"
    "csr' = csr\<lparr>csrStream := st, streamProperties := (streamProperties csr)\<lparr>stateBaseAddress :=
       (if stateBaseAddressDirty fd then sbaClearIsDirty (stateBaseAddress (streamProperties csr)) else stateBaseAddress (streamProperties csr))\<rparr>\<rparr>"
proof (cases "stateBaseAddressDirty fd")
  case True
  show ?thesis
    by (rule emit_then [OF assms(1) [unfolded dispatchImmediateFlushStateBaseAddressCommand_def if_P [OF True] Let_def] assms(2)])
      (rule that, use True in simp_all)
next
  case False
  then have same: "csr' = csr" using assms(1) by (simp add: dispatchImmediateFlushStateBaseAddressCommand_def)
  show ?thesis
    by (rule that [of "csrStream csr"]) (simp_all add: False same)
qed

text \<open>\<open>addsOther csr csr'\<close>: only commands outside the tracked groups were written.\<close>

definition stateOf :: "CommandStreamReceiver \<Rightarrow> StreamProperties \<times> bool \<times> bool \<times> bool \<times> bool" where
  "stateOf csr = (streamProperties csr, isPreambleSent csr, mediaVfeStateDirty csr, stateComputeModeDirty csr,
     gsbaStateDirty csr)"

definition addsOther :: "CommandStreamReceiver \<Rightarrow> CommandStreamReceiver \<Rightarrow> bool" where
  "addsOther csr csr' \<longleftrightarrow> stateOf csr' = stateOf csr \<and>
     (\<exists>cs. extends cs (csrStream csr) (csrStream csr') \<and> (\<forall>c \<in> set cs. noState c))"

lemma addsOtherI:
  "stateOf csr' = stateOf csr \<Longrightarrow> extends cs (csrStream csr) (csrStream csr') \<Longrightarrow> \<forall>c \<in> set cs. noState c \<Longrightarrow>
   addsOther csr csr'"
  unfolding addsOther_def by blast

lemma addsOther_refl [simp]: "addsOther csr csr"
  by (rule addsOtherI [of _ _ "[]"]) simp_all

lemma addsOther_trans:
  assumes "addsOther a b" "addsOther b c"
  shows "addsOther a c"
proof -
  obtain cs ds where "extends cs (csrStream a) (csrStream b)" "extends ds (csrStream b) (csrStream c)"
    "\<forall>c \<in> set (cs @ ds). noState c"
    using assms unfolding addsOther_def by auto
  then show ?thesis
    using assms extends_trans by (intro addsOtherI [of _ _ "cs @ ds"]) (auto simp: addsOther_def)
qed

lemma addsOther_container: "addsOther a b \<Longrightarrow> hasCmdContainer (csrStream b) = hasCmdContainer (csrStream a)"
  by (auto simp: addsOther_def extends_def)

lemma noState_simps [simp]:
  "noState StateCacheFlush" "noState InstructionCacheFlush" "noState PartitionConfig" "noState EnableRayTracing"
  "noState CsrBaseAddress" "noState (PreemptionLri m)" "noState StateSip" "noState (BatchBufferStart a b)"
  by (simp_all add: noState_def)

lemma other_then:
  assumes "andThen (emitIf b env c csr) (\<lambda>x. Inr (u x)) = Inr csr'" "\<not> hasCmdContainer (csrStream csr)" "noState c"
    and "\<And>st. stateOf (u (csr\<lparr>csrStream := st\<rparr>)) = stateOf csr \<and> csrStream (u (csr\<lparr>csrStream := st\<rparr>)) = st"
  shows "addsOther csr csr'"
proof (rule emit_then [OF assms(1,2)])
  fix st assume "extends (if b then [c] else []) (csrStream csr) st" "csr' = u (csr\<lparr>csrStream := st\<rparr>)"
  then show "addsOther csr csr'"
    using assms(3) assms(4) [of st] by (intro addsOtherI [of _ _ "if b then [c] else []"]) simp_all
qed

lemma emitIf_other:
  assumes "emitIf b env c csr = Inr csr'" "\<not> hasCmdContainer (csrStream csr)" "noState c"
  shows "addsOther csr csr'"
  by (rule other_then [of b env c csr "\<lambda>x. x"]) (use assms in \<open>simp_all add: andThen_def stateOf_def\<close>)

lemma partition_other:
  assumes "programActivePartitionConfig env csr = Inr csr'" "\<not> hasCmdContainer (csrStream csr)"
  shows "addsOther csr csr'"
  using assms unfolding programActivePartitionConfig_def
  by (rule other_then) (simp_all add: stateOf_def)

lemma rayTracing_other:
  assumes "dispatchRayTracingStateCommand env csr = Inr csr'" "\<not> hasCmdContainer (csrStream csr)"
  shows "addsOther csr csr'"
  using assms unfolding dispatchRayTracingStateCommand_def
  by (rule other_then) (simp_all add: stateOf_def)

lemma sip_other:
  assumes "programStateSip env device csr = Inr csr'" "\<not> hasCmdContainer (csrStream csr)"
  shows "addsOther csr csr'"
proof (cases "isStateSipSent csr")
  case False
  then show ?thesis
    by (intro other_then [OF assms(1) [unfolded programStateSip_def if_P [OF False]] assms(2)])
      (simp_all add: stateOf_def)
qed (use assms in \<open>simp add: programStateSip_def\<close>)

lemma preemption_other:
  assumes "(if hasDebugger device then
              andThen (programCsrBaseAddress env device csr) (\<lambda>csr. Inr (csr\<lparr>csrSurfaceProgrammingDone := True\<rparr>))
            else if lastPreemptionMode csr = PreemptionInitial then
              andThen (programCmdStream env (devicePreemption device) (lastPreemptionMode csr) csr)
                (\<lambda>csr. andThen (programCsrBaseAddress env device csr)
                (\<lambda>csr. Inr (csr\<lparr>lastPreemptionMode := devicePreemption device\<rparr>)))
            else Inr csr) = Inr csr'"
    and h: "\<not> hasCmdContainer (csrStream csr)"
  shows "addsOther csr csr'"
proof -
  let ?last = "\<lambda>csr. csr\<lparr>lastPreemptionMode := devicePreemption device\<rparr>"
  show ?thesis
  proof (cases "hasDebugger device")
    case True
    note debug = assms(1) [unfolded if_P [OF True] programCsrBaseAddress_def]
    show ?thesis by (rule other_then [OF debug h]) (simp_all add: stateOf_def)
  next
    case debug: False
    show ?thesis
    proof (cases "lastPreemptionMode csr = PreemptionInitial")
      case True
      obtain x where x: "programCmdStream env (devicePreemption device) (lastPreemptionMode csr) csr = Inr x"
        "andThen (programCsrBaseAddress env device x) (\<lambda>csr. Inr (?last csr)) = Inr csr'"
        by (rule andThen_InrE [OF assms(1) [unfolded if_not_P [OF debug] if_P [OF True]]])
      have a: "addsOther csr x" by (rule emitIf_other [OF x(1) [unfolded programCmdStream_def] h]) simp
      then have "\<not> hasCmdContainer (csrStream x)" using h addsOther_container by blast
      then have "addsOther x csr'"
        by (intro other_then [OF x(2) [unfolded programCsrBaseAddress_def]]) (simp_all add: stateOf_def)
      with a show ?thesis by (rule addsOther_trans)
    qed (use assms(1) debug in simp)
  qed
qed

lemma oneTime_other:
  assumes "dispatchImmediateFlushOneTimeContextInitCommand env device fd csr = Inr csr'"
    and h: "\<not> hasCmdContainer (csrStream csr)"
  shows "addsOther csr csr'"
proof (cases "contextOneTimeInit fd")
  case True
  obtain c1 where 1: "(if isProgramActivePartitionConfigRequired csr then programActivePartitionConfig env csr else Inr csr) = Inr c1"
    and r1: "andThen (if isRayTracingStateProgramingNeeded device c1 then dispatchRayTracingStateCommand env c1 else Inr c1)
          (\<lambda>csr. andThen
             (if hasDebugger device then
                andThen (programCsrBaseAddress env device csr)
                  (\<lambda>csr. Inr (csr\<lparr>csrSurfaceProgrammingDone := True\<rparr>))
              else if lastPreemptionMode csr = PreemptionInitial then
                andThen (programCmdStream env (devicePreemption device) (lastPreemptionMode csr) csr)
                  (\<lambda>csr. andThen (programCsrBaseAddress env device csr)
                  (\<lambda>csr. Inr (csr\<lparr>lastPreemptionMode := devicePreemption device\<rparr>)))
              else Inr csr) (programStateSip env device)) = Inr csr'"
    by (rule andThen_InrE [OF assms(1) [unfolded dispatchImmediateFlushOneTimeContextInitCommand_def if_P [OF True]]])
  obtain c2 where 2: "(if isRayTracingStateProgramingNeeded device c1 then dispatchRayTracingStateCommand env c1 else Inr c1) = Inr c2"
    and r2: "andThen (if hasDebugger device then
                andThen (programCsrBaseAddress env device c2)
                  (\<lambda>csr. Inr (csr\<lparr>csrSurfaceProgrammingDone := True\<rparr>))
              else if lastPreemptionMode c2 = PreemptionInitial then
                andThen (programCmdStream env (devicePreemption device) (lastPreemptionMode c2) c2)
                  (\<lambda>csr. andThen (programCsrBaseAddress env device csr)
                  (\<lambda>csr. Inr (csr\<lparr>lastPreemptionMode := devicePreemption device\<rparr>)))
              else Inr c2) (programStateSip env device) = Inr csr'"
    by (rule andThen_InrE [OF r1])
  obtain c3 where 3: "(if hasDebugger device then
                andThen (programCsrBaseAddress env device c2)
                  (\<lambda>csr. Inr (csr\<lparr>csrSurfaceProgrammingDone := True\<rparr>))
              else if lastPreemptionMode c2 = PreemptionInitial then
                andThen (programCmdStream env (devicePreemption device) (lastPreemptionMode c2) c2)
                  (\<lambda>csr. andThen (programCsrBaseAddress env device csr)
                  (\<lambda>csr. Inr (csr\<lparr>lastPreemptionMode := devicePreemption device\<rparr>)))
              else Inr c2) = Inr c3" and 4: "programStateSip env device c3 = Inr csr'"
    by (rule andThen_InrE [OF r2])
  have a1: "addsOther csr c1" using 1 h partition_other by (auto split: if_splits)
  then have h1: "\<not> hasCmdContainer (csrStream c1)" using addsOther_container h by blast
  have a2: "addsOther c1 c2" using 2 h1 rayTracing_other by (auto split: if_splits)
  then have h2: "\<not> hasCmdContainer (csrStream c2)" using addsOther_container h1 by blast
  have a3: "addsOther c2 c3" by (rule preemption_other [OF 3 h2])
  then have "\<not> hasCmdContainer (csrStream c3)" using addsOther_container h2 by blast
  then have "addsOther c3 csr'" by (rule sip_other [OF 4])
  then show ?thesis using a1 a2 a3 addsOther_trans by blast
qed (use assms in \<open>simp add: dispatchImmediateFlushOneTimeContextInitCommand_def\<close>)

lemma cacheFlushes_other:
  assumes "dispatchCacheFlushes env fd csr = Inr csr'" and h: "\<not> hasCmdContainer (csrStream csr)"
  shows "addsOther csr csr'"
proof -
  obtain c where 1: "(if stateCacheFlushRequired fd
              then emitIf True env StateCacheFlush (csr\<lparr>bindlessStateDirty := Some False\<rparr>) else Inr csr) = Inr c"
    and 2: "(if requiresInstructionCacheFlush c
              then andThen (emitIf True env InstructionCacheFlush c)
                     (\<lambda>csr. Inr (csr\<lparr>requiresInstructionCacheFlush := False\<rparr>))
              else Inr c) = Inr csr'"
    by (rule andThen_InrE [OF assms(1) [unfolded dispatchCacheFlushes_def]])
  have "addsOther (csr\<lparr>bindlessStateDirty := Some False\<rparr>) c" if "stateCacheFlushRequired fd"
    using 1 that h by (intro emitIf_other [of True env StateCacheFlush]) simp_all
  then have a: "addsOther csr c" using 1 by (cases "stateCacheFlushRequired fd") (simp_all add: addsOther_def stateOf_def)
  then have hc: "\<not> hasCmdContainer (csrStream c)" using h addsOther_container by blast
  have "addsOther c csr'"
  proof (cases "requiresInstructionCacheFlush c")
    case True
    show ?thesis by (rule other_then [OF 2 [unfolded if_P [OF True]] hc]) (simp_all add: stateOf_def)
  qed (use 2 in simp)
  with a show ?thesis by (rule addsOther_trans)
qed

lemma lastOf_extends:
  assumes "extends (if d then [c] else []) st st'"
  shows "lastOf f (streamCommands st') =
    (case if d then f c else None of Some v \<Rightarrow> Some v | None \<Rightarrow> lastOf f (streamCommands st))"
  using assms by (auto simp: extends_def split: if_splits option.split)

lemma lastOf_other:
  assumes "addsOther csr csr'" "\<And>c. noState c \<Longrightarrow> f c = None"
  shows "lastOf f (streamCommands (csrStream csr')) = lastOf f (streamCommands (csrStream csr))"
proof -
  obtain cs where cs: "streamCommands (csrStream csr') = streamCommands (csrStream csr) @ cs" "\<forall>c \<in> set cs. noState c"
    using assms(1) by (auto simp: addsOther_def extends_def)
  then have "\<forall>c \<in> set cs. f c = None" using assms(2) by blast
  then show ?thesis unfolding cs(1) by (rule lastOf_skip)
qed

lemma noState_read: "noState c \<Longrightarrow> readPs c = None" "noState c \<Longrightarrow> readFe c = None"
  "noState c \<Longrightarrow> readScm c = None" "noState c \<Longrightarrow> readSba c = None"
  by (simp_all add: noState_def)

lemmas other_keeps = lastOf_other [OF _ noState_read(1)] lastOf_other [OF _ noState_read(2)]
  lastOf_other [OF _ noState_read(3)] lastOf_other [OF _ noState_read(4)]

text \<open>The effect of dispatching an estimate on the four groups and on the last programmed values.\<close>

lemma dispatch_effect:
  assumes run: "dispatchImmediateFlush env device fd csr = Inr csr'" and h: "\<not> hasCmdContainer (csrStream csr)"
  defines "sp \<equiv> streamProperties csr" and "cs \<equiv> streamCommands (csrStream csr)"
    and "cs' \<equiv> streamCommands (csrStream csr')"
  shows "\<not> hasCmdContainer (csrStream csr')"
    "stateOf csr' = (\<lparr>stateComputeMode = (if scmDirty fd then scmClearIsDirty (stateComputeMode sp) else stateComputeMode sp),
        frontEndState = (if frontEndDirty fd then feClearIsDirty (frontEndState sp) else frontEndState sp),
        pipelineSelect = (if pipelineSelectDirty fd then psClearIsDirty (pipelineSelect sp) else pipelineSelect sp),
        stateBaseAddress = (if stateBaseAddressDirty fd then sbaClearIsDirty (stateBaseAddress sp) else stateBaseAddress sp)\<rparr>,
        isPreambleSent csr, mediaVfeStateDirty csr, stateComputeModeDirty csr, gsbaStateDirty csr)"
    "lastOf readPs cs' = (if pipelineSelectDirty fd then Some (systolicPipelineSelectMode (pipelineSelectArgs fd)) else lastOf readPs cs)"
    "lastOf readFe cs' = (if frontEndDirty fd then Some (feTracked (frontEndState sp)) else lastOf readFe cs)"
    "lastOf readScm cs' = (if scmDirty fd then Some (scmTracked (stateComputeMode sp)) else lastOf readScm cs)"
    "lastOf readSba cs' = (if stateBaseAddressDirty fd then Some (sbaTracked (stateBaseAddress sp)) else lastOf readSba cs)"
proof -
  obtain c0 where 0: "dispatchCacheFlushes env fd csr = Inr c0"
    and r0: "andThen (dispatchImmediateFlushPipelineSelectCommand env fd c0)
       (\<lambda>csr. andThen (dispatchImmediateFlushFrontEndCommand env fd csr)
       (\<lambda>csr. andThen (dispatchImmediateFlushStateComputeModeCommand env fd csr)
       (\<lambda>csr. andThen (dispatchImmediateFlushStateBaseAddressCommand env fd csr)
       (dispatchImmediateFlushOneTimeContextInitCommand env device fd)))) = Inr csr'"
    by (rule andThen_InrE [OF run [unfolded dispatchImmediateFlush_def]])
  obtain c1 where 1: "dispatchImmediateFlushPipelineSelectCommand env fd c0 = Inr c1"
    and r1: "andThen (dispatchImmediateFlushFrontEndCommand env fd c1)
       (\<lambda>csr. andThen (dispatchImmediateFlushStateComputeModeCommand env fd csr)
       (\<lambda>csr. andThen (dispatchImmediateFlushStateBaseAddressCommand env fd csr)
       (dispatchImmediateFlushOneTimeContextInitCommand env device fd))) = Inr csr'"
    by (rule andThen_InrE [OF r0])
  obtain c2 where 2: "dispatchImmediateFlushFrontEndCommand env fd c1 = Inr c2"
    and r2: "andThen (dispatchImmediateFlushStateComputeModeCommand env fd c2)
       (\<lambda>csr. andThen (dispatchImmediateFlushStateBaseAddressCommand env fd csr)
       (dispatchImmediateFlushOneTimeContextInitCommand env device fd)) = Inr csr'"
    by (rule andThen_InrE [OF r1])
  obtain c3 where 3: "dispatchImmediateFlushStateComputeModeCommand env fd c2 = Inr c3"
    and r3: "andThen (dispatchImmediateFlushStateBaseAddressCommand env fd c3)
       (dispatchImmediateFlushOneTimeContextInitCommand env device fd) = Inr csr'"
    by (rule andThen_InrE [OF r2])
  obtain c4 where 4: "dispatchImmediateFlushStateBaseAddressCommand env fd c3 = Inr c4"
    and 5: "dispatchImmediateFlushOneTimeContextInitCommand env device fd c4 = Inr csr'"
    by (rule andThen_InrE [OF r3])
  have a0: "addsOther csr c0" by (rule cacheFlushes_other [OF 0 h])
  then have h0: "\<not> hasCmdContainer (csrStream c0)" using h addsOther_container by blast
  obtain s1 where e1: "extends (if pipelineSelectDirty fd then [PipelineSelect (pipelineSelectArgs fd)] else []) (csrStream c0) s1"
    and c1: "c1 = c0\<lparr>csrStream := s1, streamProperties := (streamProperties c0)\<lparr>pipelineSelect :=
       (if pipelineSelectDirty fd then psClearIsDirty (pipelineSelect (streamProperties c0)) else pipelineSelect (streamProperties c0))\<rparr>\<rparr>"
    by (rule dispatchPs [OF 1 h0])
  have h1: "\<not> hasCmdContainer (csrStream c1)" using e1 h0 by (simp add: c1 extends_def)
  obtain s2 where e2: "extends (if frontEndDirty fd then [VfeState (streamProperties c1)] else []) (csrStream c1) s2"
    and c2: "c2 = c1\<lparr>csrStream := s2, streamProperties := (streamProperties c1)\<lparr>frontEndState :=
       (if frontEndDirty fd then feClearIsDirty (frontEndState (streamProperties c1)) else frontEndState (streamProperties c1))\<rparr>\<rparr>"
    by (rule dispatchFe [OF 2 h1])
  have h2: "\<not> hasCmdContainer (csrStream c2)" using e2 h1 by (simp add: c2 extends_def)
  obtain s3 where e3: "extends (if scmDirty fd then [ComputeMode (stateComputeMode (streamProperties c2)) (pipelineSelectArgs fd)] else []) (csrStream c2) s3"
    and c3: "c3 = c2\<lparr>csrStream := s3, streamProperties := (streamProperties c2)\<lparr>stateComputeMode :=
       (if scmDirty fd then scmClearIsDirty (stateComputeMode (streamProperties c2)) else stateComputeMode (streamProperties c2))\<rparr>\<rparr>"
    by (rule dispatchScm [OF 3 h2])
  have h3: "\<not> hasCmdContainer (csrStream c3)" using e3 h2 by (simp add: c3 extends_def)
  obtain s4 where e4: "extends (if stateBaseAddressDirty fd then [StateBaseAddressCmd (stateBaseAddress (streamProperties c3))
        (propValue (bindingTablePoolBaseAddress (stateBaseAddress (streamProperties c3))) \<noteq> initValue)] else []) (csrStream c3) s4"
    and c4: "c4 = c3\<lparr>csrStream := s4, streamProperties := (streamProperties c3)\<lparr>stateBaseAddress :=
       (if stateBaseAddressDirty fd then sbaClearIsDirty (stateBaseAddress (streamProperties c3)) else stateBaseAddress (streamProperties c3))\<rparr>\<rparr>"
    by (rule dispatchSba [OF 4 h3])
  have h4: "\<not> hasCmdContainer (csrStream c4)" using e4 h3 by (simp add: c4 extends_def)
  have a5: "addsOther c4 csr'" by (rule oneTime_other [OF 5 h4])
  then show "\<not> hasCmdContainer (csrStream csr')" using h4 addsOther_container by blast
  have s0: "stateOf c0 = stateOf csr" "stateOf csr' = stateOf c4" using a0 a5 by (simp_all add: addsOther_def)
  then have sp0: "streamProperties c0 = sp" by (simp add: stateOf_def sp_def)
  have sp: "streamProperties c1 = sp\<lparr>pipelineSelect := (if pipelineSelectDirty fd then psClearIsDirty (pipelineSelect sp) else pipelineSelect sp)\<rparr>"
    by (simp add: c1 sp0)
  show "stateOf csr' = (\<lparr>stateComputeMode = (if scmDirty fd then scmClearIsDirty (stateComputeMode sp) else stateComputeMode sp),
        frontEndState = (if frontEndDirty fd then feClearIsDirty (frontEndState sp) else frontEndState sp),
        pipelineSelect = (if pipelineSelectDirty fd then psClearIsDirty (pipelineSelect sp) else pipelineSelect sp),
        stateBaseAddress = (if stateBaseAddressDirty fd then sbaClearIsDirty (stateBaseAddress sp) else stateBaseAddress sp)\<rparr>,
        isPreambleSent csr, mediaVfeStateDirty csr, stateComputeModeDirty csr, gsbaStateDirty csr)"
    using s0 by (simp add: stateOf_def c4 c3 c2 c1 sp_def StreamProperties_all)
  note L = other_keeps [OF a5] lastOf_extends [OF e4] lastOf_extends [OF e3] lastOf_extends [OF e2] lastOf_extends [OF e1]
    other_keeps [OF a0]
  have st: "csrStream c1 = s1" "csrStream c2 = s2" "csrStream c3 = s3" "csrStream c4 = s4"
    by (simp_all add: c1 c2 c3 c4)
  show "lastOf readPs cs' = (if pipelineSelectDirty fd then Some (systolicPipelineSelectMode (pipelineSelectArgs fd)) else lastOf readPs cs)"
    "lastOf readFe cs' = (if frontEndDirty fd then Some (feTracked (frontEndState sp)) else lastOf readFe cs)"
    "lastOf readScm cs' = (if scmDirty fd then Some (scmTracked (stateComputeMode sp)) else lastOf readScm cs)"
    "lastOf readSba cs' = (if stateBaseAddressDirty fd then Some (sbaTracked (stateBaseAddress sp)) else lastOf readSba cs)"
    by (simp_all add: cs'_def cs_def L st sp c2 c3 cong: if_cong)
qed

section \<open>A whole flush\<close>

lemma makeResident_frame: "stateOf (makeResident as csr) = stateOf csr" "csrStream (makeResident as csr) = csrStream csr"
  by (simp_all add: makeResident_def stateOf_def)

lemma clientBuffer_frame:
  assumes "dispatchImmediateFlushClientBufferCommands env flags imm csr = Inr (csr', r)"
  shows "stateOf csr' = stateOf csr \<and> csrStream csr' = csrStream csr"
proof -
  define c where "c = (case optionalEpilogueCmdStream flags of
                        None \<Rightarrow> makeResident (optionList (graphicsAllocation imm)) csr
                      | Some st \<Rightarrow> makeResident (optionList (graphicsAllocation st))
                          (makeResident (optionList (graphicsAllocation imm)) csr))"
  obtain e where e: "andThen (programEndingCmd env c (hasRelaxedOrderingDependencies flags) e)
                (\<lambda>epilogue. andThen (alignToCacheLine (closeAndAllocateNextCommandBuffer env) epilogue)
                   (\<lambda>epilogue. Inr (case optionalEpilogueCmdStream flags of
                      None \<Rightarrow> (c, epilogue, None)
                    | Some _ \<Rightarrow> (c, imm, Some epilogue)))) = Inr (csr', r)"
    using assms unfolding dispatchImmediateFlushClientBufferCommands_def Let_def c_def by (rule andThen_InrE)
  obtain e1 where e1: "andThen (alignToCacheLine (closeAndAllocateNextCommandBuffer env) e1)
                   (\<lambda>epilogue. Inr (case optionalEpilogueCmdStream flags of
                      None \<Rightarrow> (c, epilogue, None)
                    | Some _ \<Rightarrow> (c, imm, Some epilogue))) = Inr (csr', r)"
    by (rule andThen_InrE [OF e])
  obtain e2 where "(case optionalEpilogueCmdStream flags of None \<Rightarrow> (c, e2, None) | Some _ \<Rightarrow> (c, imm, Some e2)) = (csr', r)"
    by (rule andThen_InrE [OF e1], rule that) (rule sum.inject(2) [THEN iffD1])
  then have csr': "csr' = c" by (cases "optionalEpilogueCmdStream flags") simp_all
  have "stateOf c = stateOf csr \<and> csrStream c = csrStream csr"
    unfolding c_def by (cases "optionalEpilogueCmdStream flags") (simp_all add: makeResident_frame)
  then show ?thesis unfolding csr' .
qed

lemma residency_frame:
  "stateOf (handleImmediateFlushAllocationsResidency device fd csr) = stateOf csr"
  "csrStream (handleImmediateFlushAllocationsResidency device fd csr) = csrStream csr"
  by (simp_all add: handleImmediateFlushAllocationsResidency_def makeResident_frame)

lemma send_frame:
  "stateOf (snd (handleImmediateFlushSendBatchBuffer env imm start flags fd csr)) = stateOf csr"
  "csrStream (snd (handleImmediateFlushSendBatchBuffer env imm start flags fd csr)) = csrStream csr"
proof -
  obtain status residency where "flushHandler env (immediateBatchBuffer imm start flags fd (csrStream csr))
      (residencyAllocations csr) = (status, residency)" by fastforce
  then show "stateOf (snd (handleImmediateFlushSendBatchBuffer env imm start flags fd csr)) = stateOf csr"
    "csrStream (snd (handleImmediateFlushSendBatchBuffer env imm start flags fd csr)) = csrStream csr"
    by (simp_all add: handleImmediateFlushSendBatchBuffer_def updateStreamTaskCount_def stateOf_def Let_def)
qed

lemma jump_other:
  assumes "dispatchImmediateFlushJumpToImmediateCommand env imm start fd csr = Inr csr'"
    and h: "\<not> hasCmdContainer (csrStream csr)"
  shows "addsOther csr csr'"
proof (cases "estimatedSize fd > 0")
  case True
  obtain x where x: "emitIf True env (BatchBufferStart (getGpuBase imm + start) False) csr = Inr x"
    and y: "map_sum id (\<lambda>st. x\<lparr>csrStream := st\<rparr>)
             (alignToCacheLine (closeAndAllocateNextCommandBuffer env) (csrStream x)) = Inr csr'"
    by (rule andThen_InrE [OF assms(1) [unfolded dispatchImmediateFlushJumpToImmediateCommand_def if_P [OF True]]])
  have a: "addsOther csr x" by (rule emitIf_other [OF x h]) simp
  then have hx: "\<not> hasCmdContainer (csrStream x)" using h addsOther_container by blast
  obtain st where st: "alignToCacheLine (closeAndAllocateNextCommandBuffer env) (csrStream x) = Inr st"
    and csr': "csr' = x\<lparr>csrStream := st\<rparr>"
    using y by (cases "alignToCacheLine (closeAndAllocateNextCommandBuffer env) (csrStream x)") simp_all
  have "addsOther x csr'"
    using align_extends [OF st hx] by (intro addsOtherI [of _ _ "[]"]) (simp_all add: csr' stateOf_def)
  with a show ?thesis by (rule addsOther_trans)
qed (use assms in \<open>simp add: dispatchImmediateFlushJumpToImmediateCommand_def\<close>)

lemma getCS_frame:
  "stateOf (getCS env n csr) = stateOf csr"
  "streamCommands (csrStream (getCS env n csr)) = streamCommands (csrStream csr)"
  "hasCmdContainer (csrStream (getCS env n csr)) = hasCmdContainer (csrStream csr)"
  by (simp_all add: getCS_def ensureCommandBufferAllocation_def replaceGraphicsAllocation_def replaceBuffer_def
      stateOf_def Let_def)

lemma inStep_state:
  assumes "stateOf csr' = stateOf csr"
    "lastOf readPs (streamCommands (csrStream csr')) = lastOf readPs (streamCommands (csrStream csr))"
    "lastOf readFe (streamCommands (csrStream csr')) = lastOf readFe (streamCommands (csrStream csr))"
    "lastOf readScm (streamCommands (csrStream csr')) = lastOf readScm (streamCommands (csrStream csr))"
    "lastOf readSba (streamCommands (csrStream csr')) = lastOf readSba (streamCommands (csrStream csr))"
  shows "inStep csr' = inStep csr"
  using assms by (simp add: inStep_def Let_def stateOf_def)

text \<open>The part of a flush before the task is submitted.\<close>

lemma flush_parts:
  assumes run: "flushImmediateTask env device imm start flags csr = Inr (stamp, csr', rest)"
    and h: "\<not> hasCmdContainer (csrStream csr)"
  obtains c fd n d where
    "(if dispatchOperation flags \<noteq> opCmdList then estimateImmediateFlush env device flags csr
      else (csr, newImmediateFlushData)) = (c, fd)"
    "(if dispatchOperation flags \<noteq> opCmdList
      then dispatchImmediateFlush env device ((handleImmediateFlushJumpToImmediate env fd)\<lparr>csrStartOffset := n\<rparr>)
             (getCS env (estimatedSize (handleImmediateFlushJumpToImmediate env fd)) c)
      else Inr (getCS env (estimatedSize (handleImmediateFlushJumpToImmediate env fd)) c)) = Inr d"
    "\<not> hasCmdContainer (csrStream d) \<longrightarrow> addsOther d csr'"
proof -
  obtain c fd where e: "(if dispatchOperation flags \<noteq> opCmdList then estimateImmediateFlush env device flags csr
      else (csr, newImmediateFlushData)) = (c, fd)" by fastforce
  let ?fd = "handleImmediateFlushJumpToImmediate env fd"
  let ?c = "getCS env (estimatedSize ?fd) c"
  let ?g = "?fd\<lparr>csrStartOffset := sizeUsed (csrStream ?c)\<rparr>"
  obtain d where d: "(if dispatchOperation flags \<noteq> opCmdList then dispatchImmediateFlush env device ?g ?c else Inr ?c) = Inr d"
    and r: "andThen (dispatchImmediateFlushJumpToImmediateCommand env imm start ?g d)
           (\<lambda>csr. andThen (dispatchImmediateFlushClientBufferCommands env flags imm csr)
           (\<lambda>(csr, imm, epilogue).
              let csr = handleImmediateFlushAllocationsResidency device ?g csr;
                  (stamp, csr) = handleImmediateFlushSendBatchBuffer env imm start flags ?g csr
              in Inr (stamp, csr, imm, epilogue))) = Inr (stamp, csr', rest)"
    using run unfolding flushImmediateTask_def e Let_def prod.case by (rule andThen_InrE) (simp add: Let_def)
  obtain x where x: "dispatchImmediateFlushJumpToImmediateCommand env imm start ?g d = Inr x"
    and r2: "andThen (dispatchImmediateFlushClientBufferCommands env flags imm x)
           (\<lambda>(csr, imm, epilogue).
              let csr = handleImmediateFlushAllocationsResidency device ?g csr;
                  (stamp, csr) = handleImmediateFlushSendBatchBuffer env imm start flags ?g csr
              in Inr (stamp, csr, imm, epilogue)) = Inr (stamp, csr', rest)"
    by (rule andThen_InrE [OF r])
  obtain y where y: "dispatchImmediateFlushClientBufferCommands env flags imm x = Inr y"
    and z: "(case y of (csr, imm, epilogue) \<Rightarrow>
              let csr = handleImmediateFlushAllocationsResidency device ?g csr;
                  (stamp, csr) = handleImmediateFlushSendBatchBuffer env imm start flags ?g csr
              in Inr (stamp, csr, imm, epilogue)) = (Inr (stamp, csr', rest) :: _ result)"
    by (rule andThen_InrE [OF r2])
  obtain y1 y2 y3 where yy: "y = (y1, y2, y3)" by (metis prod_cases3)
  have "csr' = snd (handleImmediateFlushSendBatchBuffer env y2 start flags ?g
       (handleImmediateFlushAllocationsResidency device ?g y1))"
    using z unfolding yy prod.case Let_def
    by (cases "handleImmediateFlushSendBatchBuffer env y2 start flags ?g
       (handleImmediateFlushAllocationsResidency device ?g y1)") simp
  then have same: "stateOf csr' = stateOf x" "csrStream csr' = csrStream x"
    using clientBuffer_frame [OF y [unfolded yy]] by (simp_all add: send_frame residency_frame)
  have "addsOther d csr'" if "\<not> hasCmdContainer (csrStream d)"
    using jump_other [OF x that] same by (simp add: addsOther_def)
  then show ?thesis using that [OF e d] by blast
qed

lemma flushed_group:
  fixes r s :: 's and flags :: ImmediateDispatchFlags and copyAll :: "'s \<Rightarrow> 's \<Rightarrow> 's"
  assumes "partial_tracker tracked dirtyState clearDirty copyAll copySome taken"
    and "\<not> dirtyState s" "\<not> full \<Longrightarrow> hw = Some (tracked s)"
  defines "s1 \<equiv> flushCopy full (dispatchOperation flags = opKernel) copyAll copySome r s"
  defines "d \<equiv> needed full flags (dirtyState s1)"
  shows "\<not> dirtyState (if d then clearDirty s1 else s1)"
    "(if d then Some (tracked s1) else hw) = Some (tracked (if d then clearDirty s1 else s1))"
  using partial_tracker.flush_keeps_sync [OF assms(1,2), where full = full and hw = "tracked s" and r = r and
      isKernel = "dispatchOperation flags = opKernel"] assms(3)
  by (auto simp: s1_def d_def flushCopy_def split: if_splits)

lemma systolic_tracked: "(propValue (systolicMode s) = 1) = (psTracked s ! 2 = 1)"
proof -
  have "psTracked s ! 2 = sint (propValue (systolicMode s))" by (simp add: psTracked_def)
  moreover have "sint (v :: u32) = 1 \<longleftrightarrow> v = 1" for v using signed_word_eqI [of v 1] by auto
  ultimately show ?thesis by simp
qed

lemma flushed_systolic:
  fixes r s :: PipelineSelectProperties and flags :: ImmediateDispatchFlags and full :: bool
  assumes "\<not> psIsDirty s" "\<not> full \<Longrightarrow> hw = Some (propValue (systolicMode s) = 1)"
  defines "s1 \<equiv> flushCopy full (dispatchOperation flags = opKernel) psCopyPropertiesAll copyPropertiesSystolicMode r s"
  defines "d \<equiv> needed full flags (psIsDirty s1)"
  shows "(if d then Some (propValue (systolicMode s1) = 1) else hw) =
    Some (propValue (systolicMode (if d then psClearIsDirty s1 else s1)) = 1)"
proof (cases d)
  case True
  then show ?thesis by (simp add: psClearIsDirty_def)
next
  case False
  then have "psTracked s1 = psTracked s"
    using assms(1) ps.copySome_dirty by (auto simp: d_def s1_def flushCopy_def)
  then have "(propValue (systolicMode s1) = 1) = (propValue (systolicMode s) = 1)"
    by (simp only: systolic_tracked)
  then show ?thesis using False assms(2) by (auto simp: d_def)
qed

lemma jump_frame:
  "pipelineSelectDirty (handleImmediateFlushJumpToImmediate env fd) = pipelineSelectDirty fd"
  "frontEndDirty (handleImmediateFlushJumpToImmediate env fd) = frontEndDirty fd"
  "scmDirty (handleImmediateFlushJumpToImmediate env fd) = scmDirty fd"
  "stateBaseAddressDirty (handleImmediateFlushJumpToImmediate env fd) = stateBaseAddressDirty fd"
  "pipelineSelectArgs (handleImmediateFlushJumpToImmediate env fd) = pipelineSelectArgs fd"
  by (simp_all add: handleImmediateFlushJumpToImmediate_def)

lemma addsOther_inStep: "addsOther csr csr' \<Longrightarrow> inStep csr' = inStep csr"
  by (rule inStep_state) (simp_all add: other_keeps, simp add: addsOther_def)

text \<open>After a flush of kernels or other commands every group is programmed and in step.\<close>

definition settled :: "CommandStreamReceiver \<Rightarrow> bool" where
  "settled csr \<longleftrightarrow> isPreambleSent csr \<and> \<not> mediaVfeStateDirty csr \<and> \<not> stateComputeModeDirty csr \<and> \<not> gsbaStateDirty csr"

lemma flush_state:
  assumes run: "flushImmediateTask env device imm start flags csr = Inr (stamp, csr', rest)"
    and h: "\<not> hasCmdContainer (csrStream csr)" and sync: "inStep csr" and op: "dispatchOperation flags \<noteq> opCmdList"
  obtains feFull sbaFull where "inStep csr'" "settled csr'" "\<not> hasCmdContainer (csrStream csr')"
    "psTracked (pipelineSelect (streamProperties csr')) = psTracked (flushPs (\<not> isPreambleSent csr) flags (streamProperties csr))"
    "feTracked (frontEndState (streamProperties csr')) = feTracked (flushFe feFull flags (streamProperties csr))"
    "scmTracked (stateComputeMode (streamProperties csr')) =
       scmTracked (flushScm (stateComputeModeDirty csr) flags (streamProperties csr))"
    "sbaTracked (stateBaseAddress (streamProperties csr')) = sbaTracked (flushSba sbaFull flags csr)"
proof -
  obtain c fd n d where e: "estimateImmediateFlush env device flags csr = (c, fd)"
    and d: "dispatchImmediateFlush env device ((handleImmediateFlushJumpToImmediate env fd)\<lparr>csrStartOffset := n\<rparr>)
             (getCS env (estimatedSize (handleImmediateFlushJumpToImmediate env fd)) c) = Inr d"
    and o: "\<not> hasCmdContainer (csrStream d) \<longrightarrow> addsOther d csr'"
    by (rule flush_parts [OF run h, unfolded if_P [OF op]])
  obtain feFull sbaFull where
    est: "estimated (\<not> isPreambleSent csr) feFull (stateComputeModeDirty csr) sbaFull flags csr c fd"
    and full: "mediaVfeStateDirty csr \<longrightarrow> feFull" "gsbaStateDirty csr \<longrightarrow> sbaFull"
    by (rule estimate_estimated [OF e])
  note E = est [unfolded estimated_def]
  let ?c = "getCS env (estimatedSize (handleImmediateFlushJumpToImmediate env fd)) c"
  have hc: "\<not> hasCmdContainer (csrStream ?c)" using E h by (simp add: getCS_frame)
  note D = dispatch_effect [OF d hc]
  have sp: "streamProperties ?c = streamProperties c" using getCS_frame(1) by (simp add: stateOf_def)
  have cs: "streamCommands (csrStream ?c) = streamCommands (csrStream csr)" using E by (simp add: getCS_frame)
  have other: "addsOther d csr'" using o D(1) by blast
  have st: "stateOf ?c = stateOf c" by (rule getCS_frame)
  note I = sync [unfolded inStep_def Let_def]
  define fd' where "fd' = (handleImmediateFlushJumpToImmediate env fd)\<lparr>csrStartOffset := n\<rparr>"
  have fd': "pipelineSelectDirty fd' = pipelineSelectDirty fd" "frontEndDirty fd' = frontEndDirty fd"
    "scmDirty fd' = scmDirty fd" "stateBaseAddressDirty fd' = stateBaseAddressDirty fd"
    "pipelineSelectArgs fd' = pipelineSelectArgs fd"
    by (simp_all add: fd'_def jump_frame)
  define ps1 where "ps1 = flushPs (\<not> isPreambleSent csr) flags (streamProperties csr)"
  define fe1 where "fe1 = flushFe feFull flags (streamProperties csr)"
  define scm1 where "scm1 = flushScm (stateComputeModeDirty csr) flags (streamProperties csr)"
  define sba1 where "sba1 = flushSba sbaFull flags csr"
  define ps2 where "ps2 = (if pipelineSelectDirty fd then psClearIsDirty ps1 else ps1)"
  define fe2 where "fe2 = (if frontEndDirty fd then feClearIsDirty fe1 else fe1)"
  define scm2 where "scm2 = (if scmDirty fd then scmClearIsDirty scm1 else scm1)"
  define sba2 where "sba2 = (if stateBaseAddressDirty fd then sbaClearIsDirty sba1 else sba1)"
  note defs1 = ps1_def fe1_def scm1_def sba1_def
  have dirty: "pipelineSelectDirty fd = needed (\<not> isPreambleSent csr) flags (psIsDirty ps1)"
    "frontEndDirty fd = needed feFull flags (feIsDirty fe1)"
    "scmDirty fd = needed (stateComputeModeDirty csr) flags (scmIsDirty scm1)"
    "stateBaseAddressDirty fd = needed sbaFull flags (sbaIsDirty sba1)"
    and systolic: "systolicPipelineSelectMode (pipelineSelectArgs fd) = (propValue (systolicMode ps1) = 1)"
    using est unfolding estimated_def defs1 by blast+
  have E1: "streamProperties c = \<lparr>stateComputeMode = scm1, frontEndState = fe1, pipelineSelect = ps1, stateBaseAddress = sba1\<rparr>"
    using est unfolding estimated_def defs1 by blast
  have E2: "isPreambleSent c" "\<not> mediaVfeStateDirty c" "\<not> stateComputeModeDirty c" "\<not> gsbaStateDirty c"
    using est full unfolding estimated_def by blast+
  have state: "stateOf d = (\<lparr>stateComputeMode = scm2, frontEndState = fe2, pipelineSelect = ps2, stateBaseAddress = sba2\<rparr>,
      True, False, False, False)"
    using D(2) st E2 unfolding sp E1 fd'_def [symmetric] fd' stateOf_def
    by (simp add: ps2_def fe2_def scm2_def sba2_def)
  let ?cs = "streamCommands (csrStream csr)"
  have last: "lastOf readPs (streamCommands (csrStream d)) =
        (if pipelineSelectDirty fd then Some (propValue (systolicMode ps1) = 1) else lastOf readPs ?cs)"
    "lastOf readFe (streamCommands (csrStream d)) = (if frontEndDirty fd then Some (feTracked fe1) else lastOf readFe ?cs)"
    "lastOf readScm (streamCommands (csrStream d)) = (if scmDirty fd then Some (scmTracked scm1) else lastOf readScm ?cs)"
    "lastOf readSba (streamCommands (csrStream d)) = (if stateBaseAddressDirty fd then Some (sbaTracked sba1) else lastOf readSba ?cs)"
    using D(3-6) unfolding sp E1 cs fd'_def [symmetric] fd' systolic by simp_all
  have PS: "\<not> psIsDirty ps2" "lastOf readPs (streamCommands (csrStream d)) = Some (propValue (systolicMode ps2) = 1)"
    using I flushed_group(1) [OF ps.partial_tracker_axioms, where s = "pipelineSelect (streamProperties csr)" and
        full = "\<not> isPreambleSent csr" and flags = flags and r = "pipelineSelect (requiredState flags)" and
        hw = "Some (psTracked (pipelineSelect (streamProperties csr)))", folded ps1_def, folded dirty(1), folded ps2_def]
      flushed_systolic [where s = "pipelineSelect (streamProperties csr)" and full = "\<not> isPreambleSent csr" and
        hw = "lastOf readPs ?cs" and flags = flags and r = "pipelineSelect (requiredState flags)",
        folded ps1_def, folded dirty(1), folded ps2_def last(1)]
    by blast+
  have FE: "\<not> feIsDirty fe2" "lastOf readFe (streamCommands (csrStream d)) = Some (feTracked fe2)"
    using I full flushed_group [OF fe.partial_tracker_axioms, where s = "frontEndState (streamProperties csr)" and
        full = feFull and hw = "lastOf readFe ?cs" and flags = flags and r = "frontEndState (requiredState flags)",
        folded fe1_def, folded dirty(2), folded fe2_def last(2)]
    by blast+
  have SCM: "\<not> scmIsDirty scm2" "lastOf readScm (streamCommands (csrStream d)) = Some (scmTracked scm2)"
    using I flushed_group [OF scm.partial_tracker_axioms, where s = "stateComputeMode (streamProperties csr)" and
        full = "stateComputeModeDirty csr" and hw = "lastOf readScm ?cs" and flags = flags and
        r = "stateComputeMode (requiredState flags)", folded scm1_def, folded dirty(3), folded scm2_def last(3)]
    by blast+
  have SBA: "\<not> sbaIsDirty sba2" "lastOf readSba (streamCommands (csrStream d)) = Some (sbaTracked sba2)"
    using I full flushed_group [OF kernelSba.partial_tracker_axioms [of "globalStatelessHeapAllocation csr" "dshSupported csr"],
        where s = "stateBaseAddress (streamProperties csr)" and full = sbaFull and
        hw = "lastOf readSba ?cs" and flags = flags and r = "stateBaseAddress (requiredState flags)",
        folded sba1_def, folded dirty(4), folded sba2_def last(4)]
    by blast+
  have step: "inStep csr'" "settled csr'"
    using state other PS FE SCM SBA addsOther_inStep [OF other]
    by (simp_all add: inStep_def settled_def stateOf_def addsOther_def)
  have "streamProperties csr' = streamProperties d" using other by (simp add: addsOther_def stateOf_def)
  then have sp': "streamProperties csr' = \<lparr>stateComputeMode = scm2, frontEndState = fe2, pipelineSelect = ps2, stateBaseAddress = sba2\<rparr>"
    using state by (simp add: stateOf_def)
  show ?thesis
  proof (rule that [of feFull sbaFull, OF step])
    show "\<not> hasCmdContainer (csrStream csr')" using D(1) addsOther_container [OF other] by simp
  qed (simp_all add: sp' ps2_def fe2_def scm2_def sba2_def defs1)
qed

lemma cmdList_flush:
  assumes run: "flushImmediateTask env device imm start flags csr = Inr (stamp, csr', rest)"
    and h: "\<not> hasCmdContainer (csrStream csr)" and op: "dispatchOperation flags = opCmdList"
  shows "inStep csr' = inStep csr" "\<not> hasCmdContainer (csrStream csr')"
proof -
  have nop: "\<not> dispatchOperation flags \<noteq> opCmdList" using op by simp
  obtain c fd n d where e: "(csr, newImmediateFlushData) = (c, fd)"
    and d: "Inr (getCS env (estimatedSize (handleImmediateFlushJumpToImmediate env fd)) c) = (Inr d :: _ result)"
    and o: "\<not> hasCmdContainer (csrStream d) \<longrightarrow> addsOther d csr'"
    by (rule flush_parts [OF run h, unfolded if_not_P [OF nop]])
  have d': "d = getCS env (estimatedSize (handleImmediateFlushJumpToImmediate env fd)) csr" using d e by simp
  then have "\<not> hasCmdContainer (csrStream d)" using h by (simp add: getCS_frame)
  then have a: "addsOther d csr'" using o by blast
  have "inStep d = inStep csr" by (rule inStep_state) (simp_all add: d' getCS_frame)
  then show "inStep csr' = inStep csr" using addsOther_inStep [OF a] by simp
  show "\<not> hasCmdContainer (csrStream csr')" using addsOther_container [OF a] h by (simp add: d' getCS_frame)
qed

text \<open>The requested values of the taken fields are the programmed ones.\<close>

definition satisfied :: "bool list \<Rightarrow> int list \<Rightarrow> int list \<Rightarrow> bool" where
  "satisfied taken required hw \<longleftrightarrow>
     list_all (\<lambda>(t, r, v). t \<and> r \<noteq> - 1 \<longrightarrow> v = r) (zip taken (zip required hw))"

lemma satisfied_overlay:
  "length r = length s \<Longrightarrow> length t = length s \<Longrightarrow> satisfied t r (overlay r s)"
  "length r = length s \<Longrightarrow> length t = length s \<Longrightarrow> satisfied t r (overlay (restrictTo t r) s)"
  by (induction s arbitrary: r t; auto simp: satisfied_def length_Suc_conv)+

lemma satisfied_copy:
  assumes "partial_tracker tracked dirtyState clearDirty copyAll copySome taken"
    and "length (tracked r) = length (tracked s)" "length (taken s) = length (tracked s)" "dispatchOperation flags = opKernel"
  shows "satisfied (taken s) (tracked r) (tracked (flushCopy full (dispatchOperation flags = opKernel) copyAll copySome r s))"
  using assms(2-4) satisfied_overlay partial_tracker.copySome_tracked [OF assms(1)]
    state_tracker.copyAll_tracked [OF partial_tracker.axioms(1) [OF assms(1)]]
  by (simp add: flushCopy_def)

section \<open>A sample flush\<close>

definition sampleAllocation :: "u64 \<Rightarrow> GraphicsAllocation" where
  "sampleAllocation a = \<lparr>gpuAddress = a, underlyingBuffer = a, underlyingBufferSize = 65536\<rparr>"

definition sampleEnvironment :: "SubmissionStatus \<Rightarrow> Environment" where
  "sampleEnvironment status = \<lparr>commandSize = \<lambda>_. 16, getCmdSizeForPipelineSelect = 16, getVFECommandsSize = 16,
     getCmdSizeForComputeMode = 16, getRequiredStateBaseAddressSize = 16, getSizeForSingleBarrier = 16,
     getSizeForInstructionCacheFlush = 16, getRegisterConfigurationSize = 16, getCmdSizeForPerDssBackedBuffer = 16,
     sizeofCsrBaseAddress = 16, sizeofLri = 16, sizeofStateSip = 16, getBatchBufferStartSize = 16,
     setRequiredScratchSpace = \<lambda>_ _. (False, False, []), forceCommandBufferAlignment = None,
     obtainCommandBuffer = \<lambda>_. sampleAllocation 0x10000, closeAndAllocateNextCommandBuffer = id,
     batchBufferStartPrepatching = True, flushHandler = \<lambda>_ _. (status, [])\<rparr>"

definition sampleDevice :: Device where
  "sampleDevice = \<lparr>hasDebugger = False, devicePreemption = MidThread, rayTracingIsInitialized = False,
     rtMemoryBackedBuffer = None, helperStateSipRequired = True, deviceStateSipRequired = True,
     sipAllocation = sampleAllocation 0x20000, multipleSubDevices = False\<rparr>"

definition sampleFlags :: ImmediateDispatchFlags where
  "sampleFlags = \<lparr>requiredState = newStreamProperties\<lparr>frontEndState :=
       newFrontEnd\<lparr>disableEUFusion := \<lparr>propValue = 1, isDirty = False\<rparr>\<rparr>\<rparr>,
     sshCpuBase = 0, optionalEpilogueCmdStream = None, dispatchOperation = opKernel, blockingAppend = False,
     requireTaskCountUpdate = True, hasRelaxedOrderingDependencies = False, hasStallingCmds = False\<rparr>"

definition sampleReceiver :: CommandStreamReceiver where
  "sampleReceiver = \<lparr>streamProperties = newStreamProperties, isPreambleSent = False, mediaVfeStateDirty = True,
     stateComputeModeDirty = True, gsbaStateDirty = True, btdCommandDirty = False, isStateSipSent = False,
     csrSurfaceProgrammingDone = False, lastPreemptionMode = PreemptionInitial, requiresInstructionCacheFlush = False,
     bindlessStateDirty = None, heaplessModeEnabled = False, requiredScratchSlot0Size = 0, requiredScratchSlot1Size = 0,
     globalStatelessHeapAllocation = False, dshSupported = True, pipelineSupportSystolicMode = True,
     directSubmissionEnabled = False, directSubmissionRelaxedOrdering = False, staticWorkPartitioningEnabled = False,
     activePartitions = 1, activePartitionsConfig = 1,
     csrStream = newLinearStreamOf (Some (sampleAllocation 0x30000)),
     tagAllocation = sampleAllocation 0x40000, globalFenceAllocation = None, workPartitionAllocation = None,
     preemptionAllocation = None, residencyAllocations = [], streamTaskCounts = [], taskCount = 0, taskLevel = 0,
     latestSentTaskCount = 0, latestFlushedTaskCount = 0, flushStamp = 0\<rparr>"

definition sampleStream :: LinearStream where
  "sampleStream = newLinearStreamOf (Some (sampleAllocation 0x50000))"

lemma sample_flush:
  "(case flushImmediateTask (sampleEnvironment submitSuccess) sampleDevice sampleStream 0 sampleFlags sampleReceiver of
      Inl _ \<Rightarrow> False | Inr (stamp, csr, _) \<Rightarrow> stampTaskCount stamp = 1)"
  by code_simp

lemma sample_receiver: "inStep sampleReceiver" "\<not> hasCmdContainer (csrStream sampleReceiver)"
  by (simp_all add: inStep_def sampleReceiver_def newStreamProperties_def newPipelineSelect_def newFrontEnd_def
      newStateComputeMode_def newStateBaseAddress_def newProperty_def psIsDirty_def feIsDirty_def scmIsDirty_def
      sbaIsDirty_def isDirtyExtra_def newLinearStreamOf_def newLinearStream_def)

lemma sample_flushed:
  obtains stamp csr' rest where
    "flushImmediateTask (sampleEnvironment submitSuccess) sampleDevice sampleStream 0 sampleFlags sampleReceiver =
       Inr (stamp, csr', rest)"
  using sample_flush by (auto split: sum.splits)

section \<open>Properties\<close>

text \<open>
  C8: a flush keeps the receiver in step: after it nothing is marked dirty, and every group that need
  not be programmed in full has exactly the values of the last state command in the stream, for every
  kind of operation and whether the submission succeeded or not.
\<close>

theorem immediate_flush_keeps_step:
  assumes "inStep csr" "\<not> hasCmdContainer (csrStream csr)"
    and "flushImmediateTask env device imm start flags csr = Inr (stamp, csr', rest)"
  shows "inStep csr' \<and> \<not> hasCmdContainer (csrStream csr')"
proof (cases "dispatchOperation flags = opCmdList")
  case True
  then show ?thesis using cmdList_flush [OF assms(3,2)] assms(1) by simp
next
  case False
  show ?thesis by (rule flush_state [OF assms(3,2,1) False]) blast
qed

theorem immediate_flush_keeps_step_witness:
  "\<exists>stamp csr' rest.
     flushImmediateTask (sampleEnvironment submitSuccess) sampleDevice sampleStream 0 sampleFlags sampleReceiver =
       Inr (stamp, csr', rest) \<and> inStep csr'"
proof -
  obtain stamp csr' rest where f:
    "flushImmediateTask (sampleEnvironment submitSuccess) sampleDevice sampleStream 0 sampleFlags sampleReceiver =
       Inr (stamp, csr', rest)" by (rule sample_flushed)
  then show ?thesis using immediate_flush_keeps_step [OF sample_receiver f] by blast
qed

text \<open>
  C7: a kernel flush programs the fields a kernel may change as the kernel requires: the last state commands in the stream carry
  the requested value, when it is not -1, of cooperative dispatch and EU fusion (front end), the GRF and thread
  arbitration modes (state compute mode), systolic mode (pipeline select), the caching index, the surface
  heap, and, unless the global heap is used, the binding tables and, where supported, the dynamic state (base addresses). The other
  fields of these commands are not claimed.
\<close>

theorem kernel_flush_programs_required:
  assumes "inStep csr" "\<not> hasCmdContainer (csrStream csr)" "dispatchOperation flags = opKernel"
    and "flushImmediateTask env device imm start flags csr = Inr (stamp, csr', rest)"
  shows "\<exists>fe scm sba.
    lastOf readFe (streamCommands (csrStream csr')) = Some fe \<and>
    satisfied [True, True, False, False] (feTracked (frontEndState (requiredState flags))) fe \<and>
    lastOf readScm (streamCommands (csrStream csr')) = Some scm \<and>
    satisfied [False, True, False, False, True, False, False, False]
      (scmTracked (stateComputeMode (requiredState flags))) scm \<and>
    lastOf readSba (streamCommands (csrStream csr')) = Some sba \<and>
    satisfied [True, \<not> globalStatelessHeapAllocation csr, True, \<not> globalStatelessHeapAllocation csr \<and> dshSupported csr, False]
      (sbaTracked (stateBaseAddress (requiredState flags))) sba \<and>
    (propValue (systolicMode (pipelineSelect (requiredState flags))) \<noteq> - 1 \<longrightarrow>
     lastOf readPs (streamCommands (csrStream csr')) =
       Some (propValue (systolicMode (pipelineSelect (requiredState flags))) = 1))"
proof -
  have op: "dispatchOperation flags \<noteq> opCmdList" using assms(3) by simp
  obtain feFull sbaFull where step: "inStep csr'" "settled csr'"
    and ps: "psTracked (pipelineSelect (streamProperties csr')) = psTracked (flushPs (\<not> isPreambleSent csr) flags (streamProperties csr))"
    and fe: "feTracked (frontEndState (streamProperties csr')) = feTracked (flushFe feFull flags (streamProperties csr))"
    and scm: "scmTracked (stateComputeMode (streamProperties csr')) =
       scmTracked (flushScm (stateComputeModeDirty csr) flags (streamProperties csr))"
    and sba: "sbaTracked (stateBaseAddress (streamProperties csr')) = sbaTracked (flushSba sbaFull flags csr)"
    by (rule flush_state [OF assms(4,2,1) op])
  note hw = step [unfolded inStep_def settled_def Let_def]
  have FE: "satisfied [True, True, False, False] (feTracked (frontEndState (requiredState flags)))
      (feTracked (frontEndState (streamProperties csr')))"
    unfolding fe by (rule satisfied_copy [OF fe.partial_tracker_axioms _ _ assms(3)]) simp_all
  have SCM: "satisfied [False, True, False, False, True, False, False, False]
      (scmTracked (stateComputeMode (requiredState flags))) (scmTracked (stateComputeMode (streamProperties csr')))"
    unfolding scm by (rule satisfied_copy [OF scm.partial_tracker_axioms _ _ assms(3)]) simp_all
  have "satisfied [True, \<not> globalStatelessHeapAllocation csr, True, \<not> globalStatelessHeapAllocation csr \<and> dshSupported csr,
        propValue (indirectObjectBaseAddress (stateBaseAddress (streamProperties csr))) = initValue]
      (sbaTracked (stateBaseAddress (requiredState flags))) (sbaTracked (stateBaseAddress (streamProperties csr')))"
    unfolding sba by (rule satisfied_copy [OF kernelSba.partial_tracker_axioms _ _ assms(3)]) simp_all
  then have SBA: "satisfied [True, \<not> globalStatelessHeapAllocation csr, True, \<not> globalStatelessHeapAllocation csr \<and> dshSupported csr, False]
      (sbaTracked (stateBaseAddress (requiredState flags))) (sbaTracked (stateBaseAddress (streamProperties csr')))"
    by (auto simp: satisfied_def sbaTracked_def)
  have "satisfied [False, False, True] (psTracked (pipelineSelect (requiredState flags)))
      (psTracked (pipelineSelect (streamProperties csr')))"
    unfolding ps by (rule satisfied_copy [OF ps.partial_tracker_axioms _ _ assms(3)]) simp_all
  then have "propValue (systolicMode (pipelineSelect (streamProperties csr'))) =
      propValue (systolicMode (pipelineSelect (requiredState flags)))"
    if "propValue (systolicMode (pipelineSelect (requiredState flags))) \<noteq> - 1"
    using that by (auto simp: satisfied_def psTracked_def sint_minus_one_iff intro: signed_word_eqI)
  then have PS: "propValue (systolicMode (pipelineSelect (requiredState flags))) \<noteq> - 1 \<longrightarrow>
     lastOf readPs (streamCommands (csrStream csr')) =
       Some (propValue (systolicMode (pipelineSelect (requiredState flags))) = 1)"
    using hw by simp
  show ?thesis
    by (intro exI conjI) (use hw in blast, rule FE, use hw in blast, rule SCM, use hw in blast, rule SBA, rule PS)
qed

theorem kernel_flush_programs_required_witness:
  "\<exists>stamp csr' rest fe.
     flushImmediateTask (sampleEnvironment submitSuccess) sampleDevice sampleStream 0 sampleFlags sampleReceiver =
       Inr (stamp, csr', rest) \<and>
     lastOf readFe (streamCommands (csrStream csr')) = Some fe \<and> satisfied [True, True, False, False] [- 1, 1, - 1, - 1] fe"
proof -
  obtain stamp csr' rest where f:
    "flushImmediateTask (sampleEnvironment submitSuccess) sampleDevice sampleStream 0 sampleFlags sampleReceiver =
       Inr (stamp, csr', rest)" by (rule sample_flushed)
  moreover have "dispatchOperation sampleFlags = opKernel" by (simp add: sampleFlags_def)
  moreover have "feTracked (frontEndState (requiredState sampleFlags)) = [- 1, 1, - 1, - 1]"
    by (simp add: sampleFlags_def feTracked_def newFrontEnd_def newProperty_def initValue_def)
  ultimately show ?thesis using kernel_flush_programs_required [OF sample_receiver _ f] by auto
qed

text \<open>
  Task counts. A successful submission advances the count by one and reports it; a failed one
  leaves the count, takes back the sent count and returns the code of the error. The flushed count
  moves only when the task updates the tag.
\<close>

theorem immediate_flush_task_counts:
  fixes env device imm start flags
  defines "send \<equiv> handleImmediateFlushSendBatchBuffer env imm start flags"
    and "status \<equiv> \<lambda>fd csr. fst (flushHandler env (immediateBatchBuffer imm start flags fd (csrStream csr)) (residencyAllocations csr))"
  shows "(if status fd csr = submitSuccess then
       taskCount (snd (send fd csr)) = taskCount csr + 1 \<and>
       latestSentTaskCount (snd (send fd csr)) = taskCount csr + 1 \<and>
       stampTaskCount (fst (send fd csr)) = taskCount csr + 1 \<and>
       latestFlushedTaskCount (snd (send fd csr)) =
         (if blockingAppend flags \<or> requireTaskCountUpdate flags then taskCount csr + 1 else latestFlushedTaskCount csr)
     else
       taskCount (snd (send fd csr)) = taskCount csr \<and>
       latestSentTaskCount (snd (send fd csr)) = taskCount csr \<and>
       latestFlushedTaskCount (snd (send fd csr)) = latestFlushedTaskCount csr \<and>
       stampTaskCount (fst (send fd csr)) = getTaskCountFromSubmissionStatusError (status fd csr))"
proof -
  obtain st residency where s: "flushHandler env (immediateBatchBuffer imm start flags fd (csrStream csr))
      (residencyAllocations csr) = (st, residency)" by fastforce
  show ?thesis
    by (simp add: s send_def status_def handleImmediateFlushSendBatchBuffer_def updateStreamTaskCount_def Let_def)
qed

text \<open>The part of a flush before the submission does not depend on how the submission is answered.\<close>

named_theorems handler_frame

lemma handler_fields [handler_frame]:
  "commandSize (env\<lparr>flushHandler := h\<rparr>) = commandSize env"
  "getCmdSizeForPipelineSelect (env\<lparr>flushHandler := h\<rparr>) = getCmdSizeForPipelineSelect env"
  "getVFECommandsSize (env\<lparr>flushHandler := h\<rparr>) = getVFECommandsSize env"
  "getCmdSizeForComputeMode (env\<lparr>flushHandler := h\<rparr>) = getCmdSizeForComputeMode env"
  "getRequiredStateBaseAddressSize (env\<lparr>flushHandler := h\<rparr>) = getRequiredStateBaseAddressSize env"
  "getSizeForSingleBarrier (env\<lparr>flushHandler := h\<rparr>) = getSizeForSingleBarrier env"
  "getSizeForInstructionCacheFlush (env\<lparr>flushHandler := h\<rparr>) = getSizeForInstructionCacheFlush env"
  "getRegisterConfigurationSize (env\<lparr>flushHandler := h\<rparr>) = getRegisterConfigurationSize env"
  "getCmdSizeForPerDssBackedBuffer (env\<lparr>flushHandler := h\<rparr>) = getCmdSizeForPerDssBackedBuffer env"
  "sizeofCsrBaseAddress (env\<lparr>flushHandler := h\<rparr>) = sizeofCsrBaseAddress env"
  "sizeofLri (env\<lparr>flushHandler := h\<rparr>) = sizeofLri env"
  "sizeofStateSip (env\<lparr>flushHandler := h\<rparr>) = sizeofStateSip env"
  "getBatchBufferStartSize (env\<lparr>flushHandler := h\<rparr>) = getBatchBufferStartSize env"
  "setRequiredScratchSpace (env\<lparr>flushHandler := h\<rparr>) = setRequiredScratchSpace env"
  "forceCommandBufferAlignment (env\<lparr>flushHandler := h\<rparr>) = forceCommandBufferAlignment env"
  "obtainCommandBuffer (env\<lparr>flushHandler := h\<rparr>) = obtainCommandBuffer env"
  "closeAndAllocateNextCommandBuffer (env\<lparr>flushHandler := h\<rparr>) = closeAndAllocateNextCommandBuffer env"
  "batchBufferStartPrepatching (env\<lparr>flushHandler := h\<rparr>) = batchBufferStartPrepatching env"
  by simp_all

lemma handler_emit [handler_frame]: "emit (env\<lparr>flushHandler := h\<rparr>) = emit env"
  by (intro ext) (simp only: emit_def handler_frame)

lemma handler_emitIf [handler_frame]: "emitIf x0 (env\<lparr>flushHandler := h\<rparr>) = emitIf x0 env"
  by (intro ext) (simp only: emitIf_def handler_frame)

lemma handler_handleImmediateFlushPipelineSelectState [handler_frame]: "handleImmediateFlushPipelineSelectState (env\<lparr>flushHandler := h\<rparr>) = handleImmediateFlushPipelineSelectState env"
  by (intro ext) (simp only: handleImmediateFlushPipelineSelectState_def handler_frame)

lemma handler_dispatchImmediateFlushPipelineSelectCommand [handler_frame]: "dispatchImmediateFlushPipelineSelectCommand (env\<lparr>flushHandler := h\<rparr>) = dispatchImmediateFlushPipelineSelectCommand env"
  by (intro ext) (simp only: dispatchImmediateFlushPipelineSelectCommand_def handler_frame)

lemma handler_handleImmediateFlushFrontEndState [handler_frame]: "handleImmediateFlushFrontEndState (env\<lparr>flushHandler := h\<rparr>) = handleImmediateFlushFrontEndState env"
  by (intro ext) (simp only: handleImmediateFlushFrontEndState_def handler_frame)

lemma handler_dispatchImmediateFlushFrontEndCommand [handler_frame]: "dispatchImmediateFlushFrontEndCommand (env\<lparr>flushHandler := h\<rparr>) = dispatchImmediateFlushFrontEndCommand env"
  by (intro ext) (simp only: dispatchImmediateFlushFrontEndCommand_def handler_frame)

lemma handler_handleImmediateFlushStateComputeModeState [handler_frame]: "handleImmediateFlushStateComputeModeState (env\<lparr>flushHandler := h\<rparr>) = handleImmediateFlushStateComputeModeState env"
  by (intro ext) (simp only: handleImmediateFlushStateComputeModeState_def handler_frame)

lemma handler_dispatchImmediateFlushStateComputeModeCommand [handler_frame]: "dispatchImmediateFlushStateComputeModeCommand (env\<lparr>flushHandler := h\<rparr>) = dispatchImmediateFlushStateComputeModeCommand env"
  by (intro ext) (simp only: dispatchImmediateFlushStateComputeModeCommand_def handler_frame)

lemma handler_handleImmediateFlushStateBaseAddressState [handler_frame]: "handleImmediateFlushStateBaseAddressState (env\<lparr>flushHandler := h\<rparr>) = handleImmediateFlushStateBaseAddressState env"
  by (intro ext) (simp only: handleImmediateFlushStateBaseAddressState_def handler_frame)

lemma handler_dispatchImmediateFlushStateBaseAddressCommand [handler_frame]: "dispatchImmediateFlushStateBaseAddressCommand (env\<lparr>flushHandler := h\<rparr>) = dispatchImmediateFlushStateBaseAddressCommand env"
  by (intro ext) (simp only: dispatchImmediateFlushStateBaseAddressCommand_def handler_frame)

lemma handler_getCmdSizeForActivePartitionConfig [handler_frame]: "getCmdSizeForActivePartitionConfig (env\<lparr>flushHandler := h\<rparr>) = getCmdSizeForActivePartitionConfig env"
  by (intro ext) (simp only: getCmdSizeForActivePartitionConfig_def handler_frame)

lemma handler_programActivePartitionConfig [handler_frame]: "programActivePartitionConfig (env\<lparr>flushHandler := h\<rparr>) = programActivePartitionConfig env"
  by (intro ext) (simp only: programActivePartitionConfig_def handler_frame)

lemma handler_dispatchRayTracingStateCommand [handler_frame]: "dispatchRayTracingStateCommand (env\<lparr>flushHandler := h\<rparr>) = dispatchRayTracingStateCommand env"
  by (intro ext) (simp only: dispatchRayTracingStateCommand_def handler_frame)

lemma handler_getRequiredCmdStreamSize [handler_frame]: "getRequiredCmdStreamSize (env\<lparr>flushHandler := h\<rparr>) = getRequiredCmdStreamSize env"
  by (intro ext) (simp only: getRequiredCmdStreamSize_def handler_frame)

lemma handler_getRequiredPreambleSize [handler_frame]: "getRequiredPreambleSize (env\<lparr>flushHandler := h\<rparr>) = getRequiredPreambleSize env"
  by (intro ext) (simp only: getRequiredPreambleSize_def handler_frame)

lemma handler_getRequiredStateSipCmdSize [handler_frame]: "getRequiredStateSipCmdSize (env\<lparr>flushHandler := h\<rparr>) = getRequiredStateSipCmdSize env"
  by (intro ext) (simp only: getRequiredStateSipCmdSize_def handler_frame)

lemma handler_programCsrBaseAddress [handler_frame]: "programCsrBaseAddress (env\<lparr>flushHandler := h\<rparr>) = programCsrBaseAddress env"
  by (intro ext) (simp only: programCsrBaseAddress_def handler_frame)

lemma handler_programCmdStream [handler_frame]: "programCmdStream (env\<lparr>flushHandler := h\<rparr>) = programCmdStream env"
  by (intro ext) (simp only: programCmdStream_def handler_frame)

lemma handler_programStateSip [handler_frame]: "programStateSip (env\<lparr>flushHandler := h\<rparr>) = programStateSip env"
  by (intro ext) (simp only: programStateSip_def handler_frame)

lemma handler_handleImmediateFlushOneTimeContextInitState [handler_frame]: "handleImmediateFlushOneTimeContextInitState (env\<lparr>flushHandler := h\<rparr>) = handleImmediateFlushOneTimeContextInitState env"
  by (intro ext) (simp only: handleImmediateFlushOneTimeContextInitState_def handler_frame)

lemma handler_dispatchImmediateFlushOneTimeContextInitCommand [handler_frame]: "dispatchImmediateFlushOneTimeContextInitCommand (env\<lparr>flushHandler := h\<rparr>) = dispatchImmediateFlushOneTimeContextInitCommand env"
  by (intro ext) (simp only: dispatchImmediateFlushOneTimeContextInitCommand_def handler_frame)

lemma handler_handleImmediateFlushJumpToImmediate [handler_frame]: "handleImmediateFlushJumpToImmediate (env\<lparr>flushHandler := h\<rparr>) = handleImmediateFlushJumpToImmediate env"
  by (intro ext) (simp only: handleImmediateFlushJumpToImmediate_def handler_frame)

lemma handler_dispatchImmediateFlushJumpToImmediateCommand [handler_frame]: "dispatchImmediateFlushJumpToImmediateCommand (env\<lparr>flushHandler := h\<rparr>) = dispatchImmediateFlushJumpToImmediateCommand env"
  by (intro ext) (simp only: dispatchImmediateFlushJumpToImmediateCommand_def handler_frame)

lemma handler_programEndingCmd [handler_frame]: "programEndingCmd (env\<lparr>flushHandler := h\<rparr>) = programEndingCmd env"
  by (intro ext) (simp only: programEndingCmd_def handler_frame)

lemma handler_dispatchImmediateFlushClientBufferCommands [handler_frame]: "dispatchImmediateFlushClientBufferCommands (env\<lparr>flushHandler := h\<rparr>) = dispatchImmediateFlushClientBufferCommands env"
  by (intro ext) (simp only: dispatchImmediateFlushClientBufferCommands_def handler_frame)

lemma handler_requireScratchSpace [handler_frame]: "requireScratchSpace (env\<lparr>flushHandler := h\<rparr>) = requireScratchSpace env"
  by (intro ext) (simp only: requireScratchSpace_def handler_frame)

lemma handler_estimateImmediateFlush [handler_frame]: "estimateImmediateFlush (env\<lparr>flushHandler := h\<rparr>) = estimateImmediateFlush env"
  by (intro ext) (simp only: estimateImmediateFlush_def handler_frame)

lemma handler_dispatchCacheFlushes [handler_frame]: "dispatchCacheFlushes (env\<lparr>flushHandler := h\<rparr>) = dispatchCacheFlushes env"
  by (intro ext) (simp only: dispatchCacheFlushes_def handler_frame)

lemma handler_dispatchImmediateFlush [handler_frame]: "dispatchImmediateFlush (env\<lparr>flushHandler := h\<rparr>) = dispatchImmediateFlush env"
  by (intro ext) (simp only: dispatchImmediateFlush_def handler_frame)

lemma handler_ensureCommandBufferAllocation [handler_frame]: "ensureCommandBufferAllocation (env\<lparr>flushHandler := h\<rparr>) = ensureCommandBufferAllocation env"
  by (intro ext) (simp only: ensureCommandBufferAllocation_def handler_frame)

lemma handler_getCS [handler_frame]: "getCS (env\<lparr>flushHandler := h\<rparr>) = getCS env"
  by (intro ext) (simp only: getCS_def handler_frame)








end
