(* ===== verification/Usm_Pool.thy ===== *)
theory Usm_Pool
  imports Heap_Allocator
begin

text \<open>
  \<open>memory_manager/unified_memory_pooling.{h,cpp}\<close> and \<open>utilities/sorted_vector.h\<close>: small unified
  memory allocations are cut from pools. A pool is one large allocation of the SVM manager, carved
  by a \<open>HeapAllocator\<close>; a vector of allocations sorted by address answers lookups by binary search.
  The pools manager keeps pools for six size classes, three of them preallocated. The SVM manager
  with its state \<open>'s\<close>, the free device memory and the floating-point comparison with the recycling
  budget are parameters.
\<close>

section \<open>Sorted vector\<close>

record AllocationInfo =
  infoAddress :: u64
  infoSize :: u64
  requestedSize :: u64

type_synonym allocations = "(u64 \<times> AllocationInfo) list"

definition comparePointers :: "u64 \<Rightarrow> u64 \<Rightarrow> u64 \<Rightarrow> bool" where
  "comparePointers allowedOffset p otherPtr \<longleftrightarrow>
     p = otherPtr \<or> allowedOffset > 0 \<and> otherPtr < p \<and> p < otherPtr + allowedOffset"

text \<open>The loop of \<open>insert\<close>, for the index \<open>i\<close> counting down.\<close>

fun sinkInto :: "nat \<Rightarrow> allocations \<Rightarrow> allocations" where
  "sinkInto 0 xs = xs"
| "sinkInto (Suc i) xs =
     (if fst (xs ! Suc i) < fst (xs ! i) then sinkInto i (xs[Suc i := xs ! i, i := xs ! Suc i]) else xs)"

definition insertAlloc :: "u64 \<Rightarrow> AllocationInfo \<Rightarrow> allocations \<Rightarrow> allocations" where
  "insertAlloc p v xs = sinkInto (length xs) (xs @ [(p, v)])"

text \<open>The binary search; \<open>begin\<close> and \<open>end\<close> are signed.\<close>

function searchAlloc :: "u64 \<Rightarrow> bool \<Rightarrow> allocations \<Rightarrow> int \<Rightarrow> int \<Rightarrow> nat option" where
  "searchAlloc p allowOffset xs b e =
     (if e \<ge> b then
        let currentPos = (b + e) div 2;
            allocation = xs ! nat currentPos;
            allowedOffset = (if allowOffset then infoSize (snd allocation) else 0)
        in if comparePointers allowedOffset p (fst allocation) then Some (nat currentPos)
           else if p < fst allocation then searchAlloc p allowOffset xs b (currentPos - 1)
           else searchAlloc p allowOffset xs (currentPos + 1) e
      else None)"
  by pat_completeness auto
termination
  by (relation "measure (\<lambda>(p, a, xs, b, e). nat (e - b + 1))") auto

definition getImpl :: "u64 \<Rightarrow> bool \<Rightarrow> allocations \<Rightarrow> nat option" where
  "getImpl p allowOffset xs =
     (if length xs = 0 then None
      else if p = 0 then None
      else searchAlloc p allowOffset xs 0 (int (length xs - 1)))"

definition extractAlloc :: "u64 \<Rightarrow> allocations \<Rightarrow> AllocationInfo option \<times> allocations" where
  "extractAlloc p xs =
     (case getImpl p False xs of
        None \<Rightarrow> (None, xs)
      | Some i \<Rightarrow> (Some (snd (xs ! i)), eraseAt i xs))"

definition getAlloc :: "u64 \<Rightarrow> allocations \<Rightarrow> AllocationInfo option" where
  "getAlloc p xs = map_option (\<lambda>i. snd (xs ! i)) (getImpl p True xs)"

section \<open>One pool\<close>

datatype InternalMemoryType = notSpecified | svmMemory | deviceUnifiedMemory | hostUnifiedMemory
  | sharedUnifiedMemory | reservedDeviceMemory | reservedHostMemory

record UnifiedMemoryProperties =
  memoryType :: InternalMemoryType
  allFlags :: u32
  allAllocFlags :: u32
  propAlignment :: u64

record SvmAllocationData =
  svmSize :: u64
  svmMemoryType :: InternalMemoryType

text \<open>The SVM manager: creating an allocation yields its address, 0 on failure.\<close>

record 's SVMAllocsManager =
  svmCreate :: "'s \<Rightarrow> u64 \<Rightarrow> UnifiedMemoryProperties \<Rightarrow> u64 \<times> 's"
  getSVMAlloc :: "'s \<Rightarrow> u64 \<Rightarrow> SvmAllocationData"
  svmFree :: "'s \<Rightarrow> u64 \<Rightarrow> 's"
  countAllocation :: "'s \<Rightarrow> 's"

record UsmMemAllocPool =
  chunkAllocator :: "HeapAllocator option"
  pool :: u64
  poolEnd :: u64
  poolAllocations :: allocations
  poolMemoryType :: InternalMemoryType
  poolSize :: u64
  minServicedSize :: u64
  maxServicedSize :: u64

definition chunkAlignment :: u64 where "chunkAlignment = 512"
definition poolAlignment :: u64 where "poolAlignment = 2 * megaByte"

text \<open>A default constructed pool; the serviced sizes are uninitialised and not read before \<open>initialize\<close>.\<close>

definition newUsmMemAllocPool :: UsmMemAllocPool where
  "newUsmMemAllocPool = \<lparr>chunkAllocator = None, pool = 0, poolEnd = 0, poolAllocations = [],
     poolMemoryType = notSpecified, poolSize = 0, minServicedSize = 0, maxServicedSize = 0\<rparr>"

definition initializePoolAt :: "u64 \<Rightarrow> SvmAllocationData \<Rightarrow> u64 \<Rightarrow> u64 \<Rightarrow> UsmMemAllocPool \<Rightarrow> UsmMemAllocPool" where
  "initializePoolAt p svmData minSize maxSize q =
     q\<lparr>pool := p, poolEnd := ptrOffset p (svmSize svmData),
       chunkAllocator := Some (newHeapAllocator p (svmSize svmData) chunkAlignment (maxSize div 2)),
       poolSize := svmSize svmData, poolMemoryType := svmMemoryType svmData,
       minServicedSize := minSize, maxServicedSize := maxSize\<rparr>"

definition initializePool ::
  "'s SVMAllocsManager \<Rightarrow> 's \<Rightarrow> UnifiedMemoryProperties \<Rightarrow> u64 \<Rightarrow> u64 \<Rightarrow> u64 \<Rightarrow> UsmMemAllocPool \<Rightarrow>
   bool \<times> UsmMemAllocPool \<times> 's" where
  "initializePool svm s memoryProperties sz minSize maxSize q =
     (case svmCreate svm s sz memoryProperties of
        (poolAllocation, s) \<Rightarrow>
          if poolAllocation = 0 then (False, q, s)
          else (True, initializePoolAt poolAllocation (getSVMAlloc svm s poolAllocation) minSize maxSize q, s))"

definition isInitializedPool :: "UsmMemAllocPool \<Rightarrow> bool" where
  "isInitializedPool q \<longleftrightarrow> pool q \<noteq> 0"

definition cleanupPool :: "'s SVMAllocsManager \<Rightarrow> UsmMemAllocPool \<times> 's \<Rightarrow> UsmMemAllocPool \<times> 's" where
  "cleanupPool svm = (\<lambda>(q, s).
     if isInitializedPool q
     then (q\<lparr>pool := 0, poolEnd := 0, poolSize := 0, poolMemoryType := notSpecified\<rparr>, svmFree svm s (pool q))
     else (q, s))"

definition alignmentIsAllowed :: "u64 \<Rightarrow> bool" where
  "alignmentIsAllowed alignment \<longleftrightarrow> alignment mod chunkAlignment = 0 \<and> alignment \<le> poolAlignment"

definition sizeIsAllowed :: "u64 \<Rightarrow> UsmMemAllocPool \<Rightarrow> bool" where
  "sizeIsAllowed sz q \<longleftrightarrow> sz \<ge> minServicedSize q \<and> sz \<le> maxServicedSize q"

text \<open>\<open>compressedHint\<close> and \<open>uncompressedHint\<close> are the bits 19 and 20 of the flags.\<close>

definition flagsAreAllowed :: "UnifiedMemoryProperties \<Rightarrow> bool" where
  "flagsAreAllowed memoryProperties \<longleftrightarrow>
     unset_bit 20 (unset_bit 19 (allFlags memoryProperties)) = 0 \<and> allAllocFlags memoryProperties = 0"

definition canBePooled :: "u64 \<Rightarrow> UnifiedMemoryProperties \<Rightarrow> UsmMemAllocPool \<Rightarrow> bool" where
  "canBePooled sz memoryProperties q \<longleftrightarrow>
     sizeIsAllowed sz q \<and> alignmentIsAllowed (propAlignment memoryProperties) \<and>
     flagsAreAllowed memoryProperties \<and> memoryType memoryProperties = poolMemoryType q"

text \<open>
  The result is \<open>Inl\<close> when the heap allocator aborts and \<open>Inr None\<close> when its retry loop uses up the
  fuel; a missing chunk allocator is dereferenced.
\<close>

definition createPooled ::
  "'s SVMAllocsManager \<Rightarrow> u64 \<Rightarrow> UnifiedMemoryProperties \<Rightarrow> UsmMemAllocPool \<times> 's \<Rightarrow>
   (u64 \<times> UsmMemAllocPool \<times> 's) option result" where
  "createPooled svm sz memoryProperties = (\<lambda>(q, s).
     if isInitializedPool q then
       if \<not> canBePooled sz memoryProperties q then Inr (Some (0, q, s))
       else case chunkAllocator q of
              None \<Rightarrow> Inl AbortExecution
            | Some h \<Rightarrow>
                (case allocateWithCustomAlignment 3 h sz (propAlignment memoryProperties) of
                   Inl f \<Rightarrow> Inl f
                 | Inr None \<Rightarrow> Inr None
                 | Inr (Some (pooledAddress, actualSize, h)) \<Rightarrow>
                     if pooledAddress = 0 then Inr (Some (0, q\<lparr>chunkAllocator := Some h\<rparr>, s))
                     else Inr (Some (pooledAddress,
                            q\<lparr>chunkAllocator := Some h,
                              poolAllocations := insertAlloc pooledAddress
                                \<lparr>infoAddress = pooledAddress, infoSize = actualSize, requestedSize = sz\<rparr>
                                (poolAllocations q)\<rparr>,
                            countAllocation svm s)))
     else Inr (Some (0, q, s)))"

definition isInPool :: "u64 \<Rightarrow> UsmMemAllocPool \<Rightarrow> bool" where
  "isInPool p q \<longleftrightarrow> p \<ge> pool q \<and> p < poolEnd q"

definition isEmptyPool :: "UsmMemAllocPool \<Rightarrow> bool" where
  "isEmptyPool q \<longleftrightarrow> length (poolAllocations q) = 0"

definition freePooled :: "u64 \<Rightarrow> UsmMemAllocPool \<Rightarrow> bool \<times> UsmMemAllocPool" where
  "freePooled p q =
     (if isInitializedPool q \<and> isInPool p q then
        (case extractAlloc p (poolAllocations q) of
           (None, xs) \<Rightarrow> (False, q\<lparr>poolAllocations := xs\<rparr>)
         | (Some info, xs) \<Rightarrow>
             (True, q\<lparr>poolAllocations := xs,
                      chunkAllocator := map_option (heapFree (infoAddress info) (infoSize info)) (chunkAllocator q)\<rparr>))
      else (False, q))"

definition getPooledAllocationSize :: "u64 \<Rightarrow> UsmMemAllocPool \<Rightarrow> u64" where
  "getPooledAllocationSize p q =
     (if isInitializedPool q \<and> isInPool p q then
        (case getAlloc p (poolAllocations q) of Some info \<Rightarrow> requestedSize info | None \<Rightarrow> 0)
      else 0)"

definition getPooledAllocationBasePtr :: "u64 \<Rightarrow> UsmMemAllocPool \<Rightarrow> u64" where
  "getPooledAllocationBasePtr p q =
     (if isInitializedPool q \<and> isInPool p q then
        (case getAlloc p (poolAllocations q) of Some info \<Rightarrow> infoAddress info | None \<Rightarrow> 0)
      else 0)"

definition getOffsetInPool :: "u64 \<Rightarrow> UsmMemAllocPool \<Rightarrow> u64" where
  "getOffsetInPool p q = (if isInitializedPool q \<and> isInPool p q then p - pool q else 0)"

definition getPoolAddress :: "UsmMemAllocPool \<Rightarrow> u64" where
  "getPoolAddress q = pool q"

section \<open>The pools manager\<close>

record PoolInfo =
  infoMinServicedSize :: u64
  infoMaxServicedSize :: u64
  preallocateSize :: u64

definition isPreallocated :: "PoolInfo \<Rightarrow> bool" where
  "isPreallocated i \<longleftrightarrow> preallocateSize i \<noteq> 0"

definition poolInfo :: "u64 \<Rightarrow> u64 \<Rightarrow> u64 \<Rightarrow> PoolInfo" where
  "poolInfo a b c = \<lparr>infoMinServicedSize = a, infoMaxServicedSize = b, preallocateSize = c\<rparr>"

definition poolInfos :: "PoolInfo list" where
  "poolInfos =
     [poolInfo 0 (4 * kiloByte) (2 * megaByte),
      poolInfo (4 * kiloByte + 1) (64 * kiloByte) (2 * megaByte),
      poolInfo (64 * kiloByte + 1) (2 * megaByte) (16 * megaByte),
      poolInfo (2 * megaByte + 1) (16 * megaByte) 0,
      poolInfo (16 * megaByte + 1) (64 * megaByte) 0,
      poolInfo (64 * megaByte + 1) (256 * megaByte) 0]"

definition firstNonPreallocatedIndex :: nat where "firstNonPreallocatedIndex = 3"
definition maxPoolableSize :: u64 where "maxPoolableSize = 256 * megaByte"

text \<open>
  The map from \<open>PoolInfo\<close> to pools is a list of six lists in the order of \<open>poolInfos\<close>;
  \<open>managerInitialized\<close> says whether the pointer to the SVM manager is set.
\<close>

record UsmMemAllocPoolsManager =
  managerInitialized :: bool
  managerMemoryType :: InternalMemoryType
  totalSize :: u64
  pools :: "UsmMemAllocPool list list"

definition newPoolsManager :: "InternalMemoryType \<Rightarrow> UsmMemAllocPoolsManager" where
  "newPoolsManager ty = \<lparr>managerInitialized = False, managerMemoryType = ty, totalSize = 0, pools = replicate 6 []\<rparr>"

fun cleanupPools :: "'s SVMAllocsManager \<Rightarrow> UsmMemAllocPool list \<Rightarrow> 's \<Rightarrow> UsmMemAllocPool list \<times> 's" where
  "cleanupPools svm [] s = ([], s)"
| "cleanupPools svm (q # qs) s =
     (case cleanupPool svm (q, s) of (q, s) \<Rightarrow> case cleanupPools svm qs s of (qs, s) \<Rightarrow> (q # qs, s))"

fun cleanupAll :: "'s SVMAllocsManager \<Rightarrow> UsmMemAllocPool list list \<Rightarrow> 's \<Rightarrow> UsmMemAllocPool list list \<times> 's" where
  "cleanupAll svm [] s = ([], s)"
| "cleanupAll svm (qs # qss) s =
     (case cleanupPools svm qs s of (qs, s) \<Rightarrow> case cleanupAll svm qss s of (qss, s) \<Rightarrow> (qs # qss, s))"

definition cleanupManager ::
  "'s SVMAllocsManager \<Rightarrow> UsmMemAllocPoolsManager \<times> 's \<Rightarrow> UsmMemAllocPoolsManager \<times> 's" where
  "cleanupManager svm = (\<lambda>(m, s).
     case cleanupAll svm (pools m) s of (qss, s) \<Rightarrow> (m\<lparr>pools := qss, managerInitialized := False\<rparr>, s))"

text \<open>The loop over \<open>poolInfos\<close> of \<open>ensureInitialized\<close>: success, total size, pools, SVM state.\<close>

fun preallocatePools ::
  "'s SVMAllocsManager \<Rightarrow> UnifiedMemoryProperties \<Rightarrow> PoolInfo list \<Rightarrow> bool \<times> u64 \<times> 's \<Rightarrow>
   bool \<times> u64 \<times> UsmMemAllocPool list list \<times> 's" where
  "preallocatePools svm props [] (ok, tot, s) = (ok, tot, [], s)"
| "preallocatePools svm props (i # is) (ok, tot, s) =
     (if isPreallocated i then
        (case initializePool svm s props (preallocateSize i) (infoMinServicedSize i) (infoMaxServicedSize i)
                newUsmMemAllocPool of
           (success, q, s) \<Rightarrow>
             (case preallocatePools svm props is (ok \<and> success, tot + preallocateSize i, s) of
                (ok, tot, qss, s) \<Rightarrow> (ok, tot, [q] # qss, s)))
      else
        (case preallocatePools svm props is (ok, tot, s) of
           (ok, tot, qss, s) \<Rightarrow> (ok, tot, [] # qss, s)))"

definition ensureInitialized ::
  "'s SVMAllocsManager \<Rightarrow> UsmMemAllocPoolsManager \<times> 's \<Rightarrow> bool \<times> UsmMemAllocPoolsManager \<times> 's" where
  "ensureInitialized svm = (\<lambda>(m, s).
     if managerInitialized m then (True, m, s)
     else
       let props = \<lparr>memoryType = managerMemoryType m, allFlags = 0, allAllocFlags = 0, propAlignment = 2 * megaByte\<rparr> in
       case preallocatePools svm props poolInfos (True, 0, s) of
         (ok, tot, qss, s) \<Rightarrow>
           let m = m\<lparr>totalSize := tot, pools := qss\<rparr> in
           if \<not> ok then (case cleanupManager svm (m, s) of (m, s) \<Rightarrow> (False, m, s))
           else (True, m\<lparr>managerInitialized := True\<rparr>, s))"

fun trimPools ::
  "'s SVMAllocsManager \<Rightarrow> UsmMemAllocPool list \<Rightarrow> u64 \<times> 's \<Rightarrow> UsmMemAllocPool list \<times> u64 \<times> 's" where
  "trimPools svm [] (tot, s) = ([], tot, s)"
| "trimPools svm (q # qs) (tot, s) =
     (if isEmptyPool q then trimPools svm qs (tot - poolSize q, snd (cleanupPool svm (q, s)))
      else case trimPools svm qs (tot, s) of (qs, tot, s) \<Rightarrow> (q # qs, tot, s))"

fun trimAll ::
  "'s SVMAllocsManager \<Rightarrow> PoolInfo list \<Rightarrow> UsmMemAllocPool list list \<Rightarrow> u64 \<times> 's \<Rightarrow>
   UsmMemAllocPool list list \<times> u64 \<times> 's" where
  "trimAll svm (i # is) (qs # qss) (tot, s) =
     (case (if \<not> isPreallocated i then trimPools svm qs (tot, s) else (qs, tot, s)) of
        (qs, tot, s) \<Rightarrow> case trimAll svm is qss (tot, s) of (qss, tot, s) \<Rightarrow> (qs # qss, tot, s))"
| "trimAll svm _ qss (tot, s) = (qss, tot, s)"

definition trimManager :: "'s SVMAllocsManager \<Rightarrow> UsmMemAllocPoolsManager \<times> 's \<Rightarrow> UsmMemAllocPoolsManager \<times> 's" where
  "trimManager svm = (\<lambda>(m, s).
     case trimAll svm poolInfos (pools m) (totalSize m, s) of
       (qss, tot, s) \<Rightarrow> (m\<lparr>pools := qss, totalSize := tot\<rparr>, s))"

definition managerCanBePooled :: "u64 \<Rightarrow> UnifiedMemoryProperties \<Rightarrow> bool" where
  "managerCanBePooled sz memoryProperties \<longleftrightarrow>
     sz \<le> maxPoolableSize \<and> alignmentIsAllowed (propAlignment memoryProperties) \<and> flagsAreAllowed memoryProperties"

definition belongsInPreallocatedPool :: "u64 \<Rightarrow> bool" where
  "belongsInPreallocatedPool sz \<longleftrightarrow> sz \<le> infoMaxServicedSize (poolInfos ! (firstNonPreallocatedIndex - 1))"

text \<open>The first pool of a size class that serves the request.\<close>

fun createInPools ::
  "'s SVMAllocsManager \<Rightarrow> u64 \<Rightarrow> UnifiedMemoryProperties \<Rightarrow> UsmMemAllocPool list \<Rightarrow> 's \<Rightarrow>
   (u64 \<times> UsmMemAllocPool list \<times> 's) option result" where
  "createInPools svm sz props [] s = Inr (Some (0, [], s))"
| "createInPools svm sz props (q # qs) s =
     (case createPooled svm sz props (q, s) of
        Inl f \<Rightarrow> Inl f
      | Inr None \<Rightarrow> Inr None
      | Inr (Some (p, q, s)) \<Rightarrow>
          if p \<noteq> 0 then Inr (Some (p, q # qs, s))
          else (case createInPools svm sz props qs s of
                  Inl f \<Rightarrow> Inl f
                | Inr None \<Rightarrow> Inr None
                | Inr (Some (p, qs, s)) \<Rightarrow> Inr (Some (p, q # qs, s))))"

fun createInClass ::
  "'s SVMAllocsManager \<Rightarrow> u64 \<Rightarrow> UnifiedMemoryProperties \<Rightarrow> PoolInfo list \<Rightarrow> UsmMemAllocPool list list \<Rightarrow> 's \<Rightarrow>
   (u64 \<times> UsmMemAllocPool list list \<times> 's) option result" where
  "createInClass svm sz props (i # is) (qs # qss) s =
     (if sz \<le> infoMaxServicedSize i then
        (case createInPools svm sz props qs s of
           Inl f \<Rightarrow> Inl f
         | Inr None \<Rightarrow> Inr None
         | Inr (Some (p, qs, s)) \<Rightarrow> Inr (Some (p, qs # qss, s)))
      else
        (case createInClass svm sz props is qss s of
           Inl f \<Rightarrow> Inl f
         | Inr None \<Rightarrow> Inr None
         | Inr (Some (p, qss, s)) \<Rightarrow> Inr (Some (p, qs # qss, s))))"
| "createInClass svm sz props _ qss s = Inr (Some (0, qss, s))"

definition createUnifiedMemoryAllocation ::
  "'s SVMAllocsManager \<Rightarrow> u64 \<Rightarrow> UnifiedMemoryProperties \<Rightarrow> UsmMemAllocPoolsManager \<times> 's \<Rightarrow>
   (u64 \<times> UsmMemAllocPoolsManager \<times> 's) option result" where
  "createUnifiedMemoryAllocation svm sz props = (\<lambda>(m, s).
     if \<not> managerCanBePooled sz props then Inr (Some (0, m, s))
     else case createInClass svm sz props poolInfos (pools m) s of
            Inl f \<Rightarrow> Inl f
          | Inr None \<Rightarrow> Inr None
          | Inr (Some (p, qss, s)) \<Rightarrow> Inr (Some (p, m\<lparr>pools := qss\<rparr>, s)))"

definition getPoolContainingAlloc :: "u64 \<Rightarrow> UsmMemAllocPoolsManager \<Rightarrow> UsmMemAllocPool option" where
  "getPoolContainingAlloc p m = List.find (isInPool p) (concat (pools m))"

text \<open>Freeing changes the pool found, that is the first one that contains the address.\<close>

fun freeInPools :: "u64 \<Rightarrow> UsmMemAllocPool list \<Rightarrow> (bool \<times> UsmMemAllocPool list) option" where
  "freeInPools p [] = None"
| "freeInPools p (q # qs) =
     (if isInPool p q then (case freePooled p q of (ok, q) \<Rightarrow> Some (ok, q # qs))
      else map_option (\<lambda>(ok, qs). (ok, q # qs)) (freeInPools p qs))"

fun freeInAll :: "u64 \<Rightarrow> UsmMemAllocPool list list \<Rightarrow> bool \<times> UsmMemAllocPool list list" where
  "freeInAll p [] = (False, [])"
| "freeInAll p (qs # qss) =
     (case freeInPools p qs of
        Some (ok, qs) \<Rightarrow> (ok, qs # qss)
      | None \<Rightarrow> (case freeInAll p qss of (ok, qss) \<Rightarrow> (ok, qs # qss)))"

definition managerFree :: "u64 \<Rightarrow> UsmMemAllocPoolsManager \<Rightarrow> bool \<times> UsmMemAllocPoolsManager" where
  "managerFree p m = (case freeInAll p (pools m) of (ok, qss) \<Rightarrow> (ok, m\<lparr>pools := qss\<rparr>))"

definition managerAllocationSize :: "u64 \<Rightarrow> UsmMemAllocPoolsManager \<Rightarrow> u64" where
  "managerAllocationSize p m =
     (case getPoolContainingAlloc p m of Some q \<Rightarrow> getPooledAllocationSize p q | None \<Rightarrow> 0)"

definition managerBasePtr :: "u64 \<Rightarrow> UsmMemAllocPoolsManager \<Rightarrow> u64" where
  "managerBasePtr p m =
     (case getPoolContainingAlloc p m of Some q \<Rightarrow> getPooledAllocationBasePtr p q | None \<Rightarrow> 0)"

definition managerOffsetInPool :: "u64 \<Rightarrow> UsmMemAllocPoolsManager \<Rightarrow> u64" where
  "managerOffsetInPool p m =
     (case getPoolContainingAlloc p m of Some q \<Rightarrow> getOffsetInPool p q | None \<Rightarrow> 0)"

text \<open>
  Recycling a freed allocation as a pool; \<open>overBudget ty size\<close> is the comparison with the share of
  the free memory.
\<close>

fun recycleInto :: "u64 \<Rightarrow> SvmAllocationData \<Rightarrow> PoolInfo list \<Rightarrow> UsmMemAllocPool list list \<Rightarrow> UsmMemAllocPool list list option" where
  "recycleInto p svmData (i # is) (qs # qss) =
     (if svmSize svmData \<le> infoMaxServicedSize i
      then Some ((qs @ [initializePoolAt p svmData (infoMinServicedSize i) (svmSize svmData) newUsmMemAllocPool]) # qss)
      else map_option (\<lambda>qss. qs # qss) (recycleInto p svmData is qss))"
| "recycleInto p svmData _ qss = None"

definition recycleSVMAlloc ::
  "'s SVMAllocsManager \<Rightarrow> (InternalMemoryType \<Rightarrow> u64 \<Rightarrow> bool) \<Rightarrow> u64 \<Rightarrow> UsmMemAllocPoolsManager \<Rightarrow> 's \<Rightarrow>
   bool \<times> UsmMemAllocPoolsManager" where
  "recycleSVMAlloc svm overBudget p m s =
     (if \<not> managerInitialized m then (False, m)
      else
        let svmData = getSVMAlloc svm s p in
        if svmSize svmData > maxPoolableSize \<or> belongsInPreallocatedPool (svmSize svmData) then (False, m)
        else if overBudget (svmMemoryType svmData) (totalSize m + svmSize svmData) then (False, m)
        else case recycleInto p svmData (drop firstNonPreallocatedIndex poolInfos)
                    (drop firstNonPreallocatedIndex (pools m)) of
               None \<Rightarrow> (False, m)
             | Some qss \<Rightarrow> (True, m\<lparr>pools := take firstNonPreallocatedIndex (pools m) @ qss,
                                    totalSize := totalSize m + svmSize svmData\<rparr>))"

section \<open>The sorted vector\<close>

text \<open>The entries ascend and, as ranges, do not overlap.\<close>

abbreviation entryEnd :: "u64 \<times> AllocationInfo \<Rightarrow> nat" where
  "entryEnd e \<equiv> unat (fst e) + unat (infoSize (snd e))"

definition follows :: "u64 \<times> AllocationInfo \<Rightarrow> u64 \<times> AllocationInfo \<Rightarrow> bool" where
  "follows e e' \<longleftrightarrow> fst e < fst e' \<and> entryEnd e \<le> unat (fst e')"

definition entryOk :: "u64 \<times> AllocationInfo \<Rightarrow> bool" where
  "entryOk e \<longleftrightarrow> fst e \<noteq> 0 \<and> infoAddress (snd e) = fst e \<and> infoSize (snd e) \<noteq> 0 \<and> entryEnd e < 2 ^ 64"

definition vectorOk :: "allocations \<Rightarrow> bool" where
  "vectorOk xs \<longleftrightarrow> sorted_wrt follows xs \<and> (\<forall>e \<in> set xs. entryOk e)"

lemma sinkInto_places:
  assumes "sorted_wrt (\<lambda>e e'. fst e < fst e') pre"
  shows "sinkInto (length pre) (pre @ x # post) =
    takeWhile (\<lambda>e. \<not> fst x < fst e) pre @ x # dropWhile (\<lambda>e. \<not> fst x < fst e) pre @ post"
  using assms
proof (induction pre arbitrary: post rule: rev_induct)
  case (snoc y pre)
  have n: "(pre @ [y] @ x # post) ! length pre = y" "(pre @ [y] @ x # post) ! Suc (length pre) = x"
    by (simp_all add: nth_append)
  have upd: "(pre @ [y] @ x # post)[Suc (length pre) := y, length pre := x] = pre @ x # y # post"
    by (simp add: list_update_append)
  have srt: "sorted_wrt (\<lambda>e e'. fst e < fst e') pre" "\<forall>e \<in> set pre. fst e < fst y"
    using snoc.prems by (simp_all add: sorted_wrt_append)
  show ?case
  proof (cases "fst x < fst y")
    case True
    then have "sinkInto (length (pre @ [y])) ((pre @ [y]) @ x # post) = sinkInto (length pre) (pre @ x # y # post)"
      using n upd by simp
    also have "\<dots> = takeWhile (\<lambda>e. \<not> fst x < fst e) pre @ x # dropWhile (\<lambda>e. \<not> fst x < fst e) pre @ y # post"
      by (rule snoc.IH [OF srt(1)])
    finally show ?thesis using True
      by (cases "\<forall>e \<in> set pre. \<not> fst x < fst e")
        (auto simp: takeWhile_append1 dropWhile_append1 takeWhile_append2 dropWhile_append2)
  next
    case False
    then have "\<forall>e \<in> set pre. \<not> fst x < fst e" using srt(2) by auto
    then show ?thesis using False n by (simp add: takeWhile_append2 dropWhile_append2)
  qed
qed simp

lemma insertAlloc_split:
  assumes "vectorOk xs"
  obtains pre post where "xs = pre @ post" "insertAlloc p v xs = pre @ (p, v) # post"
    "\<forall>e \<in> set pre. fst e \<le> p" "\<forall>e \<in> set post. p < fst e"
proof -
  have s: "sorted_wrt (\<lambda>e e'. fst e < fst e') xs"
    using assms by (auto simp: vectorOk_def follows_def elim: sorted_wrt_mono_rel [rotated])
  let ?pre = "takeWhile (\<lambda>e. \<not> p < fst e) xs" and ?post = "dropWhile (\<lambda>e. \<not> p < fst e) xs"
  have "p < fst e" if e: "e \<in> set ?post" for e
  proof -
    obtain y ys where y: "?post = y # ys" using e by (cases rule: list.set_cases) blast+
    then have "p < fst y" by (metis hd_dropWhile list.discI list.sel(1))
    moreover have "sorted_wrt (\<lambda>e e'. fst e < fst e') ?post" using s by (rule sorted_wrt_dropWhile)
    ultimately show ?thesis using e y by auto
  qed
  then have post: "\<forall>e \<in> set ?post. p < fst e" by blast
  show ?thesis
  proof (rule that [of ?pre ?post])
    show "insertAlloc p v xs = ?pre @ (p, v) # ?post"
      using sinkInto_places [OF s, of "(p, v)" "[]"] by (simp add: insertAlloc_def)
    show "\<forall>e \<in> set ?pre. fst e \<le> p" by (meson not_less set_takeWhileD)
  qed (simp, rule post)
qed

text \<open>A pointer matches an entry when it is its address or, with offsets allowed, lies in its range.\<close>

definition matches :: "bool \<Rightarrow> u64 \<Rightarrow> u64 \<times> AllocationInfo \<Rightarrow> bool" where
  "matches allowOffset p e \<longleftrightarrow>
     (if allowOffset then unat (fst e) \<le> unat p \<and> unat p < entryEnd e else p = fst e)"

lemma comparePointers_matches:
  assumes "entryOk e"
  shows "comparePointers (if off then infoSize (snd e) else 0) p (fst e) = matches off p e"
proof -
  have "unat (fst e + infoSize (snd e)) = entryEnd e"
    using assms by (intro unat_add_nowrap) (simp add: entryOk_def)
  moreover have "0 < unat (infoSize (snd e))" using assms by (simp add: entryOk_def unat_gt_0)
  ultimately show ?thesis
    by (auto simp: comparePointers_def matches_def word_less_nat_alt word_unat_eq_iff)
qed

lemma vectorOk_nth:
  assumes "vectorOk xs" "i < j" "j < length xs"
  shows "unat (fst (xs ! i)) < unat (fst (xs ! j))" "entryEnd (xs ! i) \<le> unat (fst (xs ! j))"
  using assms sorted_wrt_nth_less [of follows xs i j] by (auto simp: vectorOk_def follows_def word_less_nat_alt)

lemma matches_order:
  assumes ok: "vectorOk xs" and "i < length xs" "k < length xs" "matches off p (xs ! k)"
  shows "i < k \<Longrightarrow> unat (fst (xs ! i)) < unat p \<and> \<not> matches off p (xs ! i)"
    "k < i \<Longrightarrow> unat p < unat (fst (xs ! i)) \<and> \<not> matches off p (xs ! i)"
proof -
  have range: "unat (fst (xs ! k)) \<le> unat p" "unat p < entryEnd (xs ! k)"
  proof -
    have "infoSize (snd (xs ! k)) \<noteq> 0" using ok assms(3) by (simp add: vectorOk_def entryOk_def)
    then have "0 < unat (infoSize (snd (xs ! k)))" by (simp add: unat_gt_0)
    then show "unat (fst (xs ! k)) \<le> unat p" "unat p < entryEnd (xs ! k)"
      using assms(4) by (auto simp: matches_def split: if_splits)
  qed
  show "unat (fst (xs ! i)) < unat p \<and> \<not> matches off p (xs ! i)" if "i < k"
    using vectorOk_nth [OF ok that assms(3)] range by (auto simp: matches_def)
  show "unat p < unat (fst (xs ! i)) \<and> \<not> matches off p (xs ! i)" if "k < i"
    using vectorOk_nth [OF ok that assms(2)] range by (auto simp: matches_def)
qed

declare searchAlloc.simps [simp del]

lemma searchAlloc_finds:
  assumes "vectorOk xs" "0 \<le> b" "e < int (length xs)" "b \<le> int k" "int k \<le> e" "matches off p (xs ! k)"
  shows "searchAlloc p off xs b e = Some k"
  using assms
proof (induction p off xs b e rule: searchAlloc.induct)
  case (1 p off xs b e)
  let ?c = "(b + e) div 2"
  have c: "b \<le> ?c" "?c \<le> e" "nat ?c < length xs" "int (nat ?c) = ?c" using "1.prems" by auto
  have k: "k < length xs" using "1.prems" by linarith
  have ok: "entryOk (xs ! nat ?c)" using "1.prems"(1) c(3) by (simp add: vectorOk_def)
  note cmp = comparePointers_matches [OF ok, of off p]
  note ord = matches_order [OF "1.prems"(1) c(3) k "1.prems"(6)]
  note step = searchAlloc.simps [of p off xs b e, unfolded Let_def cmp]
  consider "nat ?c = k" | "nat ?c < k" | "k < nat ?c" by linarith
  then show ?case
  proof cases
    case 1
    then show ?thesis using step "1.prems" c by simp
  next
    case 2
    then have "\<not> matches off p (xs ! nat ?c)" "\<not> p < fst (xs ! nat ?c)" using ord(1) by (simp_all add: word_less_nat_alt)
    moreover from this have "searchAlloc p off xs (?c + 1) e = Some k"
      using "1.IH"(2) [OF _ refl refl refl] "1.prems" 2 c cmp by auto
    ultimately show ?thesis using step c by simp
  next
    case 3
    then have "\<not> matches off p (xs ! nat ?c)" "p < fst (xs ! nat ?c)" using ord(2) by (simp_all add: word_less_nat_alt)
    moreover from this have "searchAlloc p off xs b (?c - 1) = Some k"
      using "1.IH"(1) [OF _ refl refl refl] "1.prems" 3 c cmp by auto
    ultimately show ?thesis using step c by simp
  qed
qed

lemma searchAlloc_sound:
  assumes "vectorOk xs" "0 \<le> b" "e < int (length xs)" "searchAlloc p off xs b e = Some k"
  shows "k < length xs \<and> matches off p (xs ! k)"
  using assms
proof (induction p off xs b e rule: searchAlloc.induct)
  case (1 p off xs b e)
  let ?c = "(b + e) div 2"
  have be: "b \<le> e" using "1.prems"(4) by (subst (asm) searchAlloc.simps) (auto split: if_splits)
  then have c: "b \<le> ?c" "?c \<le> e" "nat ?c < length xs" "int (nat ?c) = ?c" using "1.prems" by auto
  have ok: "entryOk (xs ! nat ?c)" using "1.prems"(1) c(3) by (simp add: vectorOk_def)
  note cmp = comparePointers_matches [OF ok, of off p]
  note step = "1.prems"(4) [unfolded searchAlloc.simps [of p off xs b e] Let_def cmp if_P [OF be]]
  show ?case
  proof (cases "matches off p (xs ! nat ?c)")
    case True
    then show ?thesis using step c(3) by simp
  next
    case no: False
    show ?thesis
    proof (cases "p < fst (xs ! nat ?c)")
      case True
      then show ?thesis using "1.IH"(1) [OF be refl refl refl] no cmp step "1.prems"(1-3) c by simp
    next
      case False
      then show ?thesis using "1.IH"(2) [OF be refl refl refl] no cmp step "1.prems"(1-3) c by simp
    qed
  qed
qed

lemma getImpl_iff:
  assumes "vectorOk xs"
  shows "getImpl p off xs = Some i \<longleftrightarrow> p \<noteq> 0 \<and> i < length xs \<and> matches off p (xs ! i)"
proof (cases "xs = [] \<or> p = 0")
  case False
  then have eq: "getImpl p off xs = searchAlloc p off xs 0 (int (length xs - 1))" by (auto simp: getImpl_def)
  have "int (length xs - 1) < int (length xs)" using False by (cases xs) auto
  then show ?thesis
    using searchAlloc_sound [OF assms, of 0 "int (length xs - 1)" p off i]
      searchAlloc_finds [OF assms, of 0 "int (length xs - 1)" i off p] False eq by auto
qed (auto simp: getImpl_def)

section \<open>The pool implements the contract of a range allocator\<close>

abbreviation entryBlock :: "u64 \<times> AllocationInfo \<Rightarrow> block" where
  "entryBlock e \<equiv> (infoAddress (snd e), infoSize (snd e))"

text \<open>The ranges handed out by the heap are those of the vector, and the pool spans the heap.\<close>

definition poolInv :: "UsmMemAllocPool \<Rightarrow> block multiset \<Rightarrow> bool" where
  "poolInv q live \<longleftrightarrow> (\<exists>h. chunkAllocator q = Some h \<and> heapInv h live \<and>
     allocationAlignment h = chunkAlignment \<and> baseAddress h = pool q \<and> heapHi h = unat (poolEnd q)) \<and>
     pool q \<noteq> 0 \<and> vectorOk (poolAllocations q) \<and> live = mset (map entryBlock (poolAllocations q))"

type_synonym poolRequest = "u64 \<times> UnifiedMemoryProperties"

definition poolValid :: "UsmMemAllocPool \<Rightarrow> poolRequest \<Rightarrow> bool" where
  "poolValid q r \<longleftrightarrow> fst r \<noteq> 0 \<and> unat (fst r) < 2 ^ 62 \<and>
     (propAlignment (snd r) = 0 \<or> isPow2 (propAlignment (snd r)))"

lemma extract_entry:
  assumes ok: "vectorOk xs" and e: "e \<in> set xs"
  obtains i where "extractAlloc (fst e) xs = (Some (snd e), eraseAt i xs)" "i < length xs" "xs ! i = e"
proof -
  obtain i where i: "i < length xs" "xs ! i = e" using e by (auto simp: in_set_conv_nth)
  moreover have "fst e \<noteq> 0" using ok e by (auto simp: vectorOk_def entryOk_def)
  ultimately have "getImpl (fst e) False xs = Some i" using getImpl_iff [OF ok] by (simp add: matches_def)
  then show ?thesis using that i by (simp add: extractAlloc_def)
qed

lemma eraseAt_vectorOk:
  assumes "vectorOk xs" "i < length xs"
  shows "vectorOk (eraseAt i xs)" "mset (map f (eraseAt i xs)) = mset (map f xs) - {#f (xs ! i)#}"
proof -
  have xs: "xs = take i xs @ xs ! i # drop (Suc i) xs" using assms(2) by (rule id_take_nth_drop)
  have e: "eraseAt i xs = take i xs @ drop (Suc i) xs" by (simp add: eraseAt_def)
  have "sorted_wrt follows (take i xs @ xs ! i # drop (Suc i) xs)" "\<forall>e \<in> set (take i xs @ xs ! i # drop (Suc i) xs). entryOk e"
    using assms(1) xs by (simp_all add: vectorOk_def)
  then show "vectorOk (eraseAt i xs)" unfolding e vectorOk_def by (auto simp: sorted_wrt_append)
  have "mset (map f xs) = mset (map f (take i xs @ xs ! i # drop (Suc i) xs))" using xs by simp
  then show "mset (map f (eraseAt i xs)) = mset (map f xs) - {#f (xs ! i)#}" unfolding e by simp
qed

lemma insert_vectorOk:
  assumes ok: "vectorOk xs" and x: "entryOk (p, v)" and ap: "\<forall>e \<in> set xs. apart (p, infoSize v) (entryBlock e)"
  shows "vectorOk (insertAlloc p v xs) \<and> mset (insertAlloc p v xs) = add_mset (p, v) (mset xs)"
proof -
  obtain pre post where s: "xs = pre @ post" "insertAlloc p v xs = pre @ (p, v) # post"
    "\<forall>e \<in> set pre. fst e \<le> p" "\<forall>e \<in> set post. p < fst e"
    by (rule insertAlloc_split [OF ok])
  have pos: "0 < unat (infoSize v)" using x by (simp add: entryOk_def unat_gt_0)
  have e: "fst e \<noteq> 0 \<and> infoAddress (snd e) = fst e \<and> 0 < unat (infoSize (snd e))" if "e \<in> set xs" for e
    using ok that by (auto simp: vectorOk_def entryOk_def unat_gt_0)
  have left: "follows e (p, v)" if "e \<in> set pre" for e
  proof -
    have "e \<in> set xs" "unat (fst e) \<le> unat p" using that s by (auto simp: word_le_nat_alt)
    then show ?thesis using ap e [of e] pos by (force simp: apart_def follows_def word_less_nat_alt)
  qed
  have right: "follows (p, v) e" if "e \<in> set post" for e
  proof -
    have "e \<in> set xs" "unat p < unat (fst e)" using that s by (auto simp: word_less_nat_alt)
    then show ?thesis using ap e [of e] pos by (force simp: apart_def follows_def word_less_nat_alt)
  qed
  have "sorted_wrt follows (pre @ post)" "\<forall>e \<in> set (pre @ post). entryOk e" using ok s(1) by (simp_all add: vectorOk_def)
  then have "vectorOk (pre @ (p, v) # post)"
    using left right x by (simp add: vectorOk_def sorted_wrt_append)
  then show ?thesis using s by simp
qed

text \<open>What creating an allocation in a consistent pool does.\<close>

definition pooled :: "UsmMemAllocPool \<Rightarrow> block multiset \<Rightarrow> u64 \<Rightarrow> UnifiedMemoryProperties \<Rightarrow> u64 \<Rightarrow> UsmMemAllocPool \<Rightarrow> bool" where
  "pooled q live sz props p q' \<longleftrightarrow> (\<exists>t. poolInv q' (add_mset (p, t) live) \<and> unat sz \<le> unat t \<and>
     unat (max (propAlignment props) chunkAlignment) dvd unat p \<and>
     mset (poolAllocations q') =
       add_mset (p, \<lparr>infoAddress = p, infoSize = t, requestedSize = sz\<rparr>) (mset (poolAllocations q)))"

definition samePool :: "UsmMemAllocPool \<Rightarrow> UsmMemAllocPool \<Rightarrow> bool" where
  "samePool q q' \<longleftrightarrow> pool q' = pool q \<and> poolEnd q' = poolEnd q \<and> poolSize q' = poolSize q \<and>
     poolMemoryType q' = poolMemoryType q \<and> minServicedSize q' = minServicedSize q \<and> maxServicedSize q' = maxServicedSize q"

lemma create_outcome:
  assumes inv: "poolInv q live" and v: "poolValid q (sz, props)"
  shows "\<exists>p q' s'. createPooled svm sz props (q, s) = Inr (Some (p, q', s')) \<and> samePool q q' \<and>
    (if p = 0 then poolInv q' live \<and> poolAllocations q' = poolAllocations q \<and> s' = s
     else canBePooled sz props q \<and> pooled q live sz props p q' \<and> s' = countAllocation svm s)"
proof (cases "canBePooled sz props q")
  case False
  moreover have "isInitializedPool q" using inv by (simp add: poolInv_def isInitializedPool_def)
  ultimately have "createPooled svm sz props (q, s) = Inr (Some (0, q, s))" by (simp add: createPooled_def)
  then show ?thesis using inv by (simp add: samePool_def)
next
  case True
  obtain h where h: "chunkAllocator q = Some h" "heapInv h live" "allocationAlignment h = chunkAlignment"
    "baseAddress h = pool q" "heapHi h = unat (poolEnd q)" and nz: "pool q \<noteq> 0"
    and vec: "vectorOk (poolAllocations q)" and live: "live = mset (map entryBlock (poolAllocations q))"
    using inv unfolding poolInv_def by blast
  let ?a = "propAlignment props"
  have al: "?a \<le> 2 * megaByte" using True by (simp add: canBePooled_def alignmentIsAllowed_def poolAlignment_def)
  then have "unat ?a \<le> 2097152" by (simp add: word_le_nat_alt)
  then have mx: "max ?a chunkAlignment \<le> 2 * megaByte" using al by (simp add: chunkAlignment_def)
  have vr: "validRequest h (sz, ?a)"
    using v \<open>unat ?a \<le> 2097152\<close> mx by (auto simp: validRequest_def poolValid_def h(3) chunkAlignment_def)
  obtain p t h' where o: "allocateWithCustomAlignment 3 h sz ?a = Inr (Some (p, t, h'))" "sameHeap h h'"
    "if p = 0 then heapInv h' live else allocated h live sz ?a p t h'"
    using allocate_outcome [OF h(2) vr] by (metis order_refl)
  have hp: "allocationAlignment h' = chunkAlignment" "baseAddress h' = pool q" "heapHi h' = unat (poolEnd q)"
    using o(2) h by (simp_all add: sameHeap_def)
  show ?thesis
  proof (cases "p = 0")
    case p0: True
    then show ?thesis using True o h hp nz vec live
      by (simp add: createPooled_def isInitializedPool_def poolInv_def samePool_def)
  next
    case False
    have al': "heapInv h' (add_mset (p, t) live)" "unat sz \<le> unat t" "unat (max ?a chunkAlignment) dvd unat p"
      using o(3) False mx by (simp_all add: allocated_def h(3))
    let ?v = "\<lparr>infoAddress = p, infoSize = t, requestedSize = sz\<rparr>"
    have "blockOk h' (p, t)" "heapHi h' < 2 ^ 62" using al'(1) heapInv_shape [OF al'(1)]
      unfolding heapInv_def heapShape_def by auto
    then have "unat p + unat t < 2 ^ 64" by (simp add: blockOk_def chunkOk_def mkChunk_def)
    moreover have "0 < unat t" using al'(2) v by (metis fst_conv gr0I le_0_eq poolValid_def unat_eq_zero)
    ultimately have ok: "entryOk (p, ?v)" using False by (auto simp: entryOk_def)
    have "apart (p, t) b" if "b \<in># live" for b using heap.inv_apart al'(1) that by (metis mset_add)
    then have ap: "\<forall>e \<in> set (poolAllocations q). apart (p, infoSize ?v) (entryBlock e)" by (simp add: live)
    note ins = insert_vectorOk [OF vec ok ap]
    let ?q = "q\<lparr>chunkAllocator := Some h', poolAllocations := insertAlloc p ?v (poolAllocations q)\<rparr>"
    have "mset (map entryBlock (insertAlloc p ?v (poolAllocations q))) = add_mset (p, t) live"
      unfolding mset_map using ins by (simp add: live)
    then have "poolInv ?q (add_mset (p, t) live)"
      using al'(1) hp nz ins by (simp add: poolInv_def)
    then have "pooled q live sz props p ?q" using al' ins by (auto simp: pooled_def)
    then show ?thesis using True False o(1) h(1) nz
      by (simp add: createPooled_def isInitializedPool_def samePool_def)
  qed
qed

lemma member_entry:
  assumes "poolInv q (add_mset b live)"
  obtains e where "e \<in> set (poolAllocations q)" "entryBlock e = b" "fst e = fst b" "fst e \<noteq> 0"
proof -
  have "vectorOk (poolAllocations q)" "b \<in># mset (map entryBlock (poolAllocations q))"
    using assms unfolding poolInv_def by (metis union_single_eq_member)+
  then show ?thesis using that by (force simp: vectorOk_def entryOk_def)
qed

lemma pool_inside:
  assumes "poolInv q (add_mset b live)" "unat (fst b) \<le> unat x" "unat x < unat (fst b) + unat (snd b)"
  shows "isInPool x q" "isInitializedPool q"
proof -
  obtain h where h: "heapInv h (add_mset b live)" "baseAddress h = pool q" "heapHi h = unat (poolEnd q)"
    and nz: "pool q \<noteq> 0" using assms(1) unfolding poolInv_def by blast
  show "isInPool x q" using heap.inv_inside [OF h(1) assms(2,3)] h(2,3)
    by (simp add: isInPool_def word_le_nat_alt word_less_nat_alt)
  show "isInitializedPool q" using nz by (simp add: isInitializedPool_def)
qed

lemma free_outcome:
  assumes inv: "poolInv q (add_mset b live)"
  shows "fst (freePooled (fst b) q) \<and> poolInv (snd (freePooled (fst b) q)) live \<and> samePool q (snd (freePooled (fst b) q))"
proof -
  obtain h where h: "chunkAllocator q = Some h" "heapInv h (add_mset b live)" "allocationAlignment h = chunkAlignment"
    "baseAddress h = pool q" "heapHi h = unat (poolEnd q)" and nz: "pool q \<noteq> 0"
    and vec: "vectorOk (poolAllocations q)" and live: "add_mset b live = mset (map entryBlock (poolAllocations q))"
    using inv unfolding poolInv_def by blast
  obtain e where e: "e \<in> set (poolAllocations q)" "entryBlock e = b" "fst e = fst b" by (rule member_entry [OF inv])
  have "infoSize (snd e) \<noteq> 0" using vec e(1) by (simp add: vectorOk_def entryOk_def)
  then have "0 < unat (snd b)" using e(2) by (auto simp: unat_gt_0)
  then have inp: "isInPool (fst b) q" "isInitializedPool q" using pool_inside [OF inv, of "fst b"] by simp_all
  obtain i where i: "extractAlloc (fst e) (poolAllocations q) = (Some (snd e), eraseAt i (poolAllocations q))"
    "i < length (poolAllocations q)" "poolAllocations q ! i = e" by (rule extract_entry [OF vec e(1)])
  note er = eraseAt_vectorOk [OF vec i(2)]
  let ?h = "heapFree (fst b) (snd b) h"
  have fr: "freePooled (fst b) q = (True, q\<lparr>poolAllocations := eraseAt i (poolAllocations q), chunkAllocator := Some ?h\<rparr>)"
    using inp i(1) e(2,3) h(1) by (auto simp: freePooled_def)
  have hp: "heapInv ?h live" "sameHeap h ?h" using heapFree_inv [of h "fst b" "snd b" live] h(2) by simp_all
  have "mset (map entryBlock (eraseAt i (poolAllocations q))) = live"
    using er(2) [of entryBlock] live i(3) e(2) by (metis add_mset_remove_trivial)
  then have "poolInv (snd (freePooled (fst b) q)) live"
    using hp h nz er(1) by (simp add: fr poolInv_def sameHeap_def)
  then show ?thesis by (simp add: fr samePool_def)
qed

definition noSvm :: "unit SVMAllocsManager" where
  "noSvm = \<lparr>svmCreate = \<lambda>s _ _. (0, s), getSVMAlloc = \<lambda>_ _. \<lparr>svmSize = 0, svmMemoryType = notSpecified\<rparr>,
     svmFree = \<lambda>s _. s, countAllocation = \<lambda>s. s\<rparr>"

definition poolAlloc :: "UsmMemAllocPool \<Rightarrow> poolRequest \<Rightarrow> block option \<times> UsmMemAllocPool" where
  "poolAlloc q r = (case createPooled noSvm (fst r) (snd r) (q, ()) of
       Inr (Some (p, q', _)) \<Rightarrow>
         (if p = 0 then None else map_option (\<lambda>info. (p, infoSize info)) (getAlloc p (poolAllocations q')), q')
     | _ \<Rightarrow> (None, q))"

definition poolRelease :: "block \<Rightarrow> UsmMemAllocPool \<Rightarrow> UsmMemAllocPool" where
  "poolRelease b q = snd (freePooled (fst b) q)"

lemma getAlloc_entry:
  assumes "vectorOk xs" "e \<in> set xs" "unat (fst e) \<le> unat x" "unat x < entryEnd e"
  shows "getAlloc x xs = Some (snd e)"
proof -
  obtain i where i: "i < length xs" "xs ! i = e" using assms(2) by (auto simp: in_set_conv_nth)
  have "fst e \<noteq> 0" using assms(1,2) by (simp add: vectorOk_def entryOk_def)
  then have "0 < unat (fst e)" by (simp add: unat_gt_0)
  then have "x \<noteq> 0" using assms(3) by auto
  then have "getImpl x True xs = Some i" using getImpl_iff [OF assms(1)] i assms(3,4) by (simp add: matches_def)
  then show ?thesis using i by (simp add: getAlloc_def)
qed

lemma poolAlloc_outcome:
  assumes "poolInv q live" "poolValid q r" "poolAlloc q r = (res, q')"
  shows "poolInv q' (granted res live)" "samePool q q'"
proof -
  obtain p q1 s1 where c: "createPooled noSvm (fst r) (snd r) (q, ()) = Inr (Some (p, q1, s1))" "samePool q q1"
    "if p = 0 then poolInv q1 live else pooled q live (fst r) (snd r) p q1"
    using create_outcome [OF assms(1), of "fst r" "snd r" noSvm "()"] assms(2) by (auto split: if_splits)
  have q': "q' = q1" "res = (if p = 0 then None else map_option (\<lambda>info. (p, infoSize info)) (getAlloc p (poolAllocations q1)))"
    using assms(3) c(1) by (auto simp: poolAlloc_def)
  show "samePool q q'" using c(2) q' by simp
  show "poolInv q' (granted res live)"
  proof (cases "p = 0")
    case False
    then obtain t where t: "poolInv q1 (add_mset (p, t) live)" using c(3) by (auto simp: pooled_def)
    obtain e where e: "e \<in> set (poolAllocations q1)" "entryBlock e = (p, t)" "fst e = p"
      by (rule member_entry [OF t]) simp
    have vec: "vectorOk (poolAllocations q1)" using t by (simp add: poolInv_def)
    then have "0 < unat (infoSize (snd e))" using e(1) by (simp add: vectorOk_def entryOk_def unat_gt_0)
    then have "getAlloc p (poolAllocations q1) = Some (snd e)" using getAlloc_entry [OF vec e(1), of p] e(3) by simp
    then show ?thesis using t q' False e(2) by simp
  qed (use c(3) q' in simp)
qed

interpretation usm: range_allocator poolInv "\<lambda>q. unat (pool q)" "\<lambda>q. unat (poolEnd q)" poolValid poolAlloc poolRelease
proof unfold_locales
  show "poolInv q' (granted res live)"
    if "poolInv q live" "poolValid q r" "poolAlloc q r = (res, q')" for q live r res q'
    using poolAlloc_outcome(1) [OF that] .
  show "unat (pool q') = unat (pool q) \<and> unat (poolEnd q') = unat (poolEnd q)"
    if "poolInv q live" "poolValid q r" "poolAlloc q r = (res, q')" for q live r res q'
    using poolAlloc_outcome(2) [OF that] by (simp add: samePool_def)
  show "poolInv (poolRelease b q) live" if "poolInv q (add_mset b live)" for q b live
    using free_outcome [OF that] by (simp add: poolRelease_def)
  show "unat (pool (poolRelease b q)) = unat (pool q) \<and> unat (poolEnd (poolRelease b q)) = unat (poolEnd q)"
    if "poolInv q (add_mset b live)" for q b live
    using free_outcome [OF that] by (simp add: poolRelease_def samePool_def)
  show "liveCov live x \<le> cov (unat (pool q)) (unat (poolEnd q)) x" if "poolInv q live" for q live x
  proof -
    obtain h where "heapInv h live" "baseAddress h = pool q" "heapHi h = unat (poolEnd q)"
      using \<open>poolInv q live\<close> unfolding poolInv_def by blast
    then show ?thesis using heap.live_within [of h live x] by simp
  qed
qed

lemma initializePoolAt_inv:
  assumes "p \<noteq> 0" "512 dvd unat p" "512 dvd unat (svmSize d)" "unat p + unat (svmSize d) < 2 ^ 62"
  shows "poolInv (initializePoolAt p d lo hi newUsmMemAllocPool) {#}"
proof -
  have g: "isPow2 chunkAlignment" by (simp add: chunkAlignment_def isPow2_def)
  have "heapInv (newHeapAllocator p (svmSize d) chunkAlignment (hi div 2)) {#}"
    using assms by (intro newHeapAllocator_inv g) (simp_all add: chunkAlignment_def)
  moreover have "unat (p + svmSize d) = unat p + unat (svmSize d)" using assms(4) by (intro unat_add_nowrap) simp
  ultimately show ?thesis
    using assms(1) by (simp add: poolInv_def initializePoolAt_def newUsmMemAllocPool_def ptrOffset_def vectorOk_def
        newHeapAllocator_def)
qed

section \<open>Lookups and the manager\<close>

abbreviation inEntry :: "u64 \<Rightarrow> u64 \<times> AllocationInfo \<Rightarrow> bool" where
  "inEntry x e \<equiv> unat (fst e) \<le> unat x \<and> unat x < entryEnd e"

lemma getAlloc_find:
  assumes ok: "vectorOk xs"
  shows "getAlloc x xs = map_option snd (List.find (inEntry x) xs)"
proof (cases "List.find (inEntry x) xs")
  case None
  then have no: "\<not> inEntry x e" if "e \<in> set xs" for e using that by (simp add: find_None_iff)
  have "getImpl x True xs = None"
  proof (rule ccontr)
    assume "getImpl x True xs \<noteq> None"
    then obtain i where "i < length xs" "matches True x (xs ! i)" using getImpl_iff [OF ok] by auto
    then show False using no [of "xs ! i"] by (simp add: matches_def)
  qed
  then show ?thesis using None by (simp add: getAlloc_def)
next
  case (Some e)
  then have "e \<in> set xs" "inEntry x e" by (auto simp: find_Some_iff)
  then show ?thesis using Some getAlloc_entry [OF ok] by simp
qed

lemma lookup_entry:
  assumes inv: "poolInv q live" and e: "e \<in> set (poolAllocations q)" "inEntry x e"
  shows "isInPool x q" "getPooledAllocationBasePtr x q = fst e" "getPooledAllocationSize x q = requestedSize (snd e)"
proof -
  have vec: "vectorOk (poolAllocations q)" and live: "live = mset (map entryBlock (poolAllocations q))"
    using inv by (simp_all add: poolInv_def)
  have a: "infoAddress (snd e) = fst e" using vec e(1) by (simp add: vectorOk_def entryOk_def)
  have "entryBlock e \<in># live" using e(1) live by auto
  then obtain rest where "live = add_mset (entryBlock e) rest" by (metis mset_add)
  then have inp: "isInPool x q" "isInitializedPool q" using pool_inside [of q "entryBlock e" rest x] inv e(2) a by simp_all
  then show "isInPool x q" by simp
  have "getAlloc x (poolAllocations q) = Some (snd e)" using getAlloc_entry [OF vec e(1)] e(2) by simp
  then show "getPooledAllocationBasePtr x q = fst e" "getPooledAllocationSize x q = requestedSize (snd e)"
    using inp a by (simp_all add: getPooledAllocationBasePtr_def getPooledAllocationSize_def)
qed

lemma sorted_unique:
  assumes "sorted_wrt follows xs" "sorted_wrt follows ys" "mset xs = mset ys"
  shows "xs = ys"
  using assms
proof (induction xs arbitrary: ys)
  case (Cons x xs)
  obtain y ys' where ys: "ys = y # ys'" using Cons.prems(3) by (cases ys) auto
  have irr: "\<not> (follows a b \<and> follows b a)" for a b by (auto simp: follows_def)
  have "x = y"
  proof (rule ccontr)
    assume "x \<noteq> y"
    then have "y \<in> set xs" "x \<in> set ys'"
      using Cons.prems(3) ys by (metis insert_noteq_member set_mset_mset mset.simps(2))+
    then show False using Cons.prems(1,2) ys irr [of x y] by simp
  qed
  then show ?case using Cons ys by simp
qed simp

text \<open>An uninitialised pool contains no address.\<close>

definition poolOk :: "UsmMemAllocPool \<Rightarrow> bool" where
  "poolOk q \<longleftrightarrow> pool q = 0 \<and> poolEnd q = 0 \<or> (\<exists>live. poolInv q live)"

definition poolsApart :: "UsmMemAllocPool \<Rightarrow> UsmMemAllocPool \<Rightarrow> bool" where
  "poolsApart q q' \<longleftrightarrow> poolEnd q \<le> pool q' \<or> poolEnd q' \<le> pool q"

definition managerInv :: "UsmMemAllocPoolsManager \<Rightarrow> bool" where
  "managerInv m \<longleftrightarrow> length (pools m) = length poolInfos \<and> (\<forall>q \<in> set (concat (pools m)). poolOk q) \<and>
     sorted_wrt poolsApart (concat (pools m))"

lemma find_pool:
  assumes "sorted_wrt poolsApart qs" "q \<in> set qs" "isInPool x q"
  shows "List.find (isInPool x) qs = Some q"
  using assms
proof (induction qs)
  case (Cons a qs)
  show ?case
  proof (cases "a = q")
    case False
    then have "poolsApart a q" "q \<in> set qs" using Cons.prems(1,2) by auto
    then have "\<not> isInPool x a" using Cons.prems(3) by (auto simp: poolsApart_def isInPool_def)
    then show ?thesis using Cons \<open>q \<in> set qs\<close> by simp
  qed (use Cons.prems in simp)
qed simp

definition serves :: "u64 \<Rightarrow> u64 \<Rightarrow> UsmMemAllocPool \<Rightarrow> bool" where
  "serves p sz q \<longleftrightarrow> (\<forall>x. unat p \<le> unat x \<and> unat x < unat p + unat sz \<longrightarrow>
     isInPool x q \<and> getPooledAllocationBasePtr x q = p \<and> getPooledAllocationSize x q = sz)"

definition replaced :: "UsmMemAllocPool \<Rightarrow> UsmMemAllocPool \<Rightarrow> bool" where
  "replaced q q' \<longleftrightarrow> samePool q q' \<and> poolOk q'"

lemma pooled_serves:
  assumes "pooled q live sz props p q'"
  shows "serves p sz q'"
proof -
  obtain t where t: "poolInv q' (add_mset (p, t) live)" "unat sz \<le> unat t"
    and m: "mset (poolAllocations q') = add_mset (p, \<lparr>infoAddress = p, infoSize = t, requestedSize = sz\<rparr>) (mset (poolAllocations q))"
    using assms by (auto simp: pooled_def)
  have "(p, \<lparr>infoAddress = p, infoSize = t, requestedSize = sz\<rparr>) \<in> set (poolAllocations q')"
    using m by (metis set_mset_mset union_single_eq_member)
  then show ?thesis using lookup_entry [OF t(1)] t(2) by (fastforce simp: serves_def)
qed

lemma createPooled_ok:
  assumes "poolOk q" and v: "\<And>q. poolValid q (sz, props)"
  shows "\<exists>p q' s'. createPooled svm sz props (q, s) = Inr (Some (p, q', s')) \<and> replaced q q' \<and> (p \<noteq> 0 \<longrightarrow> serves p sz q')"
proof (cases "pool q = 0")
  case True
  then show ?thesis using assms(1) by (auto simp: createPooled_def isInitializedPool_def replaced_def samePool_def)
next
  case False
  then obtain live where inv: "poolInv q live" using assms(1) by (auto simp: poolOk_def)
  obtain p q' s' where c: "createPooled svm sz props (q, s) = Inr (Some (p, q', s'))" "samePool q q'"
    "if p = 0 then poolInv q' live else pooled q live sz props p q'"
    using create_outcome [OF inv v] by (metis (no_types, lifting))
  have "poolOk q'" using c(3) by (auto simp: poolOk_def pooled_def split: if_splits)
  then show ?thesis using c pooled_serves by (fastforce simp: replaced_def split: if_splits)
qed

lemma replaced_refl: "poolOk q \<Longrightarrow> replaced q q"
  by (simp add: replaced_def samePool_def)

lemma all_replaced_refl: "\<forall>q \<in> set qs. poolOk q \<Longrightarrow> list_all2 replaced qs qs"
  by (induction qs) (auto simp: replaced_refl)

lemma createInPools_ok:
  assumes "\<forall>q \<in> set qs. poolOk q" and v: "\<And>q. poolValid q (sz, props)"
  shows "\<exists>p qs' s'. createInPools svm sz props qs s = Inr (Some (p, qs', s')) \<and> list_all2 replaced qs qs' \<and>
    (p \<noteq> 0 \<longrightarrow> (\<exists>q \<in> set qs'. serves p sz q))"
  using assms(1)
proof (induction qs arbitrary: s)
  case (Cons q qs)
  obtain p q' s' where c: "createPooled svm sz props (q, s) = Inr (Some (p, q', s'))" "replaced q q'" "p \<noteq> 0 \<longrightarrow> serves p sz q'"
    using createPooled_ok [of q sz props svm s] Cons.prems v by auto
  show ?case
  proof (cases "p = 0")
    case True
    obtain r qs' s2 where "createInPools svm sz props qs s' = Inr (Some (r, qs', s2))" "list_all2 replaced qs qs'"
      "r \<noteq> 0 \<longrightarrow> (\<exists>q \<in> set qs'. serves r sz q)" using Cons.IH [of s'] Cons.prems by auto
    then show ?thesis using c True by auto
  next
    case False
    then show ?thesis using c all_replaced_refl [of qs] Cons.prems by auto
  qed
qed simp

lemma createInClass_ok:
  assumes "\<forall>q \<in> set (concat qss). poolOk q" and v: "\<And>q. poolValid q (sz, props)"
  shows "\<exists>p qss' s'. createInClass svm sz props is qss s = Inr (Some (p, qss', s')) \<and>
    list_all2 (list_all2 replaced) qss qss' \<and> (p \<noteq> 0 \<longrightarrow> (\<exists>q \<in> set (concat qss'). serves p sz q))"
  using assms(1)
proof (induction "is" arbitrary: qss s)
  case (Cons i "is")
  show ?case
  proof (cases qss)
    case qss: (Cons qs qss')
    have same: "list_all2 replaced qs qs" "list_all2 (list_all2 replaced) qss' qss'"
      using Cons.prems all_replaced_refl by (auto simp: list_all2_same qss)
    show ?thesis
    proof (cases "sz \<le> infoMaxServicedSize i")
      case True
      obtain p qs1 s1 where "createInPools svm sz props qs s = Inr (Some (p, qs1, s1))" "list_all2 replaced qs qs1"
        "p \<noteq> 0 \<longrightarrow> (\<exists>q \<in> set qs1. serves p sz q)"
        using createInPools_ok [of qs sz props svm s] Cons.prems v by (auto simp: qss)
      then show ?thesis using True same by (auto simp: qss)
    next
      case False
      obtain p qss1 s1 where "createInClass svm sz props is qss' s = Inr (Some (p, qss1, s1))"
        "list_all2 (list_all2 replaced) qss' qss1" "p \<noteq> 0 \<longrightarrow> (\<exists>q \<in> set (concat qss1). serves p sz q)"
        using Cons.IH [of qss' s] Cons.prems unfolding qss concat.simps set_append ball_Un by blast
      then show ?thesis using False same by (auto simp: qss)
    qed
  qed simp
next
  case Nil
  then show ?case by (auto simp: list_all2_same replaced_refl)
qed

lemma concat_replaced: "list_all2 (list_all2 replaced) qss qss' \<Longrightarrow> list_all2 replaced (concat qss) (concat qss')"
  by (induction rule: list_all2_induct) (auto intro: list_all2_appendI)

lemma replaced_apart:
  assumes "list_all2 replaced qs qs'" "sorted_wrt poolsApart qs"
  shows "sorted_wrt poolsApart qs'" "\<forall>q \<in> set qs'. poolOk q"
proof -
  have len: "length qs' = length qs" and nth: "\<And>i. i < length qs \<Longrightarrow> replaced (qs ! i) (qs' ! i)"
    using assms(1) by (auto simp: list_all2_conv_all_nth)
  have "poolsApart (qs' ! i) (qs' ! j)" if "i < j" "j < length qs'" for i j
    using that nth [of i] nth [of j] sorted_wrt_nth_less [OF assms(2) that(1)] len
    by (simp add: replaced_def samePool_def poolsApart_def)
  then show "sorted_wrt poolsApart qs'" by (simp add: sorted_wrt_iff_nth_less)
  show "\<forall>q \<in> set qs'. poolOk q" using nth len by (auto simp: in_set_conv_nth replaced_def)
qed

lemma replaced_manager:
  assumes "managerInv m" "list_all2 (list_all2 replaced) (pools m) qss"
  shows "managerInv (m\<lparr>pools := qss\<rparr>)"
  using assms replaced_apart [OF concat_replaced [OF assms(2)]] list_all2_lengthD [OF assms(2)]
  by (auto simp: managerInv_def)

lemma freePooled_ok:
  assumes "poolOk q"
  shows "replaced q (snd (freePooled p q))"
proof (cases "isInitializedPool q \<and> isInPool p q")
  case False
  then have "freePooled p q = (False, q)" unfolding freePooled_def by (rule if_not_P)
  then show ?thesis using assms by (simp add: replaced_refl)
next
  case True
  then obtain live where inv: "poolInv q live" using assms by (auto simp: poolOk_def isInPool_def)
  then have vec: "vectorOk (poolAllocations q)" and live: "live = mset (map entryBlock (poolAllocations q))"
    by (simp_all add: poolInv_def)
  show ?thesis
  proof (cases "getImpl p False (poolAllocations q)")
    case None
    then have "freePooled p q = (False, q)" using True by (simp add: freePooled_def extractAlloc_def)
    then show ?thesis using assms by (simp add: replaced_refl)
  next
    case (Some i)
    let ?e = "poolAllocations q ! i"
    have e: "i < length (poolAllocations q)" "p = fst ?e" using getImpl_iff [OF vec] Some by (auto simp: matches_def)
    then have "entryBlock ?e \<in># live" using live by simp
    then obtain rest where rest: "live = add_mset (entryBlock ?e) rest" by (metis mset_add)
    have "fst (entryBlock ?e) = p" using vec e by (simp add: vectorOk_def entryOk_def)
    then show ?thesis using free_outcome [of q "entryBlock ?e" rest] inv rest by (auto simp: replaced_def poolOk_def)
  qed
qed

lemma freeInPools_ok:
  assumes "\<forall>q \<in> set qs. poolOk q"
  shows "case freeInPools p qs of Some (ok, qs') \<Rightarrow> list_all2 replaced qs qs' | None \<Rightarrow> True"
  using assms
proof (induction qs)
  case (Cons q qs)
  show ?case
  proof (cases "isInPool p q")
    case True
    then show ?thesis using freePooled_ok [of q p] Cons.prems all_replaced_refl [of qs] by (auto split: prod.split)
  next
    case False
    then show ?thesis using Cons replaced_refl [of q] by (auto split: option.splits)
  qed
qed simp

lemma freeInAll_ok:
  assumes "\<forall>q \<in> set (concat qss). poolOk q"
  shows "list_all2 (list_all2 replaced) qss (snd (freeInAll p qss))"
  using assms
proof (induction qss)
  case (Cons qs qss)
  have same: "list_all2 replaced qs qs" "list_all2 (list_all2 replaced) qss qss"
    using Cons.prems all_replaced_refl by (auto simp: list_all2_same)
  show ?case
    using Cons freeInPools_ok [of qs p] same by (auto split: option.splits prod.splits)
qed simp

section \<open>Properties\<close>

text \<open>
  C26: in a consistent pool the binary search for a pointer finds what a search of all allocations
  would find: the base address and the requested size of the allocation whose range contains the
  pointer, 0 when there is none.
\<close>

theorem pool_lookup_is_search:
  assumes "poolInv q live"
  shows "getPooledAllocationBasePtr x q =
      (case List.find (inEntry x) (poolAllocations q) of Some e \<Rightarrow> fst e | None \<Rightarrow> 0) \<and>
    getPooledAllocationSize x q =
      (case List.find (inEntry x) (poolAllocations q) of Some e \<Rightarrow> requestedSize (snd e) | None \<Rightarrow> 0)"
proof (cases "List.find (inEntry x) (poolAllocations q)")
  case None
  moreover have "vectorOk (poolAllocations q)" using assms by (simp add: poolInv_def)
  ultimately show ?thesis
    by (simp add: getPooledAllocationBasePtr_def getPooledAllocationSize_def getAlloc_find)
next
  case (Some e)
  then have "e \<in> set (poolAllocations q)" "inEntry x e" by (auto simp: find_Some_iff)
  then show ?thesis using Some lookup_entry [OF assms] by simp
qed

definition samplePool :: UsmMemAllocPool where
  "samplePool = initializePoolAt 0x200000 \<lparr>svmSize = 0x200000, svmMemoryType = deviceUnifiedMemory\<rparr> 0 4096 newUsmMemAllocPool"

definition sampleProps :: UnifiedMemoryProperties where
  "sampleProps = \<lparr>memoryType = deviceUnifiedMemory, allFlags = 0, allAllocFlags = 0, propAlignment = 0x1000\<rparr>"

lemma samplePool_inv: "poolInv samplePool {#}"
  unfolding samplePool_def by (rule initializePoolAt_inv) simp_all

lemma sampleProps_valid: "poolValid q (1000, sampleProps)"
  by (simp add: poolValid_def sampleProps_def isPow2_def)

text \<open>
  C15: creating an allocation in a consistent pool returns. When it yields an address, the address is
  aligned as requested, the pool stays consistent with the new range apart from all others, every
  address of the range looks up the new allocation, and freeing the address succeeds and restores the
  vector of allocations.
\<close>

theorem pool_create_free:
  assumes "poolInv q live" "poolValid q (sz, props)"
  shows "\<exists>p q' s'. createPooled svm sz props (q, s) = Inr (Some (p, q', s')) \<and>
    (if p = 0 then poolInv q' live
     else (\<exists>t. poolInv q' (add_mset (p, t) live) \<and> unat sz \<le> unat t \<and> (\<forall>b \<in># live. apart (p, t) b)) \<and>
       unat (max (propAlignment props) chunkAlignment) dvd unat p \<and> serves p sz q' \<and>
       fst (freePooled p q') \<and> poolInv (snd (freePooled p q')) live \<and>
       poolAllocations (snd (freePooled p q')) = poolAllocations q)"
proof -
  obtain p q' s' where c: "createPooled svm sz props (q, s) = Inr (Some (p, q', s'))"
    "if p = 0 then poolInv q' live else pooled q live sz props p q'"
    using create_outcome [OF assms] by (metis (no_types, lifting))
  show ?thesis
  proof (cases "p = 0")
    case False
    then have pl: "pooled q live sz props p q'" using c(2) by simp
    then obtain t where t: "poolInv q' (add_mset (p, t) live)" "unat sz \<le> unat t"
      "unat (max (propAlignment props) chunkAlignment) dvd unat p"
      and m: "mset (poolAllocations q') = add_mset (p, \<lparr>infoAddress = p, infoSize = t, requestedSize = sz\<rparr>) (mset (poolAllocations q))"
      by (auto simp: pooled_def)
    have ap: "\<forall>b \<in># live. apart (p, t) b" using usm.inv_apart t(1) by (metis mset_add)
    have fr: "fst (freePooled p q')" "poolInv (snd (freePooled p q')) live" using free_outcome [OF t(1)] by simp_all
    let ?e = "(p, \<lparr>infoAddress = p, infoSize = t, requestedSize = sz\<rparr>)"
    have vec: "vectorOk (poolAllocations q')" "vectorOk (poolAllocations q)" using t(1) assms(1) by (simp_all add: poolInv_def)
    have e: "?e \<in> set (poolAllocations q')" using m by (metis set_mset_mset union_single_eq_member)
    obtain i where i: "extractAlloc p (poolAllocations q') = (Some (snd ?e), eraseAt i (poolAllocations q'))"
      "i < length (poolAllocations q')" "poolAllocations q' ! i = ?e"
      using extract_entry [OF vec(1) e] by (metis fst_conv)
    have "mset (map id (eraseAt i (poolAllocations q'))) = mset (poolAllocations q)"
      using eraseAt_vectorOk(2) [OF vec(1) i(2), of id] m i(3) by (simp add: id_def)
    then have "eraseAt i (poolAllocations q') = poolAllocations q"
      using sorted_unique eraseAt_vectorOk(1) [OF vec(1) i(2)] vec(2) by (simp add: vectorOk_def)
    moreover have "poolAllocations (snd (freePooled p q')) = eraseAt i (poolAllocations q')"
      using i(1) fr(1) by (auto simp: freePooled_def split: if_splits)
    ultimately have "poolAllocations (snd (freePooled p q')) = poolAllocations q" by simp
    then show ?thesis using c(1) False t ap fr pooled_serves [OF pl] by auto
  qed (use c in auto)
qed

theorem pool_create_free_witness:
  "\<exists>p q' s'. createPooled noSvm 1000 sampleProps (samplePool, ()) = Inr (Some (p, q', s')) \<and>
     (p \<noteq> 0 \<longrightarrow> fst (freePooled p q') \<and> poolAllocations (snd (freePooled p q')) = [])"
  using pool_create_free [OF samplePool_inv sampleProps_valid, of noSvm "()"]
  by (auto simp: samplePool_def initializePoolAt_def newUsmMemAllocPool_def split: if_splits)

text \<open>
  C18: whatever the order of the creates and frees in a pool, the ranges held at any time lie in the
  pool and do not overlap.
\<close>

theorem pool_history_safe:
  assumes "usm.history q live q' (add_mset b held)" "poolInv q live"
  shows "unat (pool q') = unat (pool q) \<and> (\<forall>c \<in># held. apart b c) \<and>
    (\<forall>x. unat (fst b) \<le> x \<and> x < unat (fst b) + unat (snd b) \<longrightarrow> unat (pool q) \<le> x \<and> x < unat (poolEnd q))"
  using usm.history_bounds [OF assms] usm.history_safe [OF assms] usm.inv_inside [OF usm.history_inv [OF assms]]
  by simp

text \<open>Two creates on the sample pool, evaluated.\<close>

lemma sample_creates:
  "fst (poolAlloc samplePool (1000, sampleProps)) = Some (0x3FF000, 1024)"
  "fst (poolAlloc (snd (poolAlloc samplePool (1000, sampleProps))) (1000, sampleProps)) = Some (0x3FE000, 1024)"
  by code_simp+

lemma sample_two_held:
  "\<exists>q'. usm.history samplePool {#} q' (add_mset (0x3FE000, 1024) {#(0x3FF000, 1024)#})"
proof -
  let ?q = "snd (poolAlloc samplePool (1000, sampleProps))"
  have "poolAlloc samplePool (1000, sampleProps) = (Some (0x3FF000, 1024), ?q)" using sample_creates(1) by (simp add: prod_eq_iff)
  from usm.requested [OF usm.start sampleProps_valid this]
  have 1: "usm.history samplePool {#} ?q {#(0x3FF000, 1024)#}" by simp
  have "poolAlloc ?q (1000, sampleProps) = (Some (0x3FE000, 1024), snd (poolAlloc ?q (1000, sampleProps)))"
    using sample_creates(2) by (simp add: prod_eq_iff)
  from usm.requested [OF 1 sampleProps_valid this] show ?thesis by auto
qed

theorem pool_lookup_is_search_witness:
  "getPooledAllocationBasePtr 0x3FF010 (snd (poolAlloc samplePool (1000, sampleProps))) = 0x3FF000 \<and>
   getPooledAllocationSize 0x3FF010 (snd (poolAlloc samplePool (1000, sampleProps))) = 1000"
proof -
  let ?q = "snd (poolAlloc samplePool (1000, sampleProps))"
  have "poolInv ?q (granted (Some (0x3FF000, 1024)) {#})"
    by (rule usm.alloc_inv [OF samplePool_inv sampleProps_valid]) (simp add: prod_eq_iff sample_creates(1))
  moreover have "poolAllocations ?q = [(0x3FF000, \<lparr>infoAddress = 0x3FF000, infoSize = 1024, requestedSize = 1000\<rparr>)]"
    by code_simp
  ultimately show ?thesis using pool_lookup_is_search [of ?q _ "0x3FF010"] by simp
qed

theorem pool_history_safe_witness:
  "\<exists>q'. usm.history samplePool {#} q' (add_mset (0x3FE000, 1024) {#(0x3FF000, 1024)#}) \<and> unat (pool q') = 0x200000 \<and>
     apart (0x3FE000, 1024) (0x3FF000, 1024)"
proof -
  obtain q' where h: "usm.history samplePool {#} q' (add_mset (0x3FE000, 1024) {#(0x3FF000, 1024)#})" using sample_two_held by blast
  moreover have "unat (pool samplePool) = 0x200000" by (simp add: samplePool_def initializePoolAt_def)
  ultimately show ?thesis using pool_history_safe [OF h samplePool_inv] by auto
qed

lemma managerFree_ok:
  assumes inv: "managerInv m"
  shows "managerInv (snd (managerFree r m))"
proof -
  obtain ok qss where f: "freeInAll r (pools m) = (ok, qss)" by fastforce
  have all: "\<forall>q \<in> set (concat (pools m)). poolOk q" using inv by (simp add: managerInv_def)
  have "list_all2 (list_all2 replaced) (pools m) qss" using freeInAll_ok [OF all, of r] f by simp
  then show ?thesis using replaced_manager [OF inv] f by (simp add: managerFree_def)
qed

text \<open>
  C14: the pools manager over consistent pools with disjoint ranges: creating an allocation returns
  and keeps the manager consistent; a returned address is found again by the manager, through every
  address of the range, with its base and its requested size. Freeing keeps the manager consistent.
\<close>

theorem manager_create_lookup:
  assumes inv: "managerInv m" and v: "sz \<noteq> 0" "propAlignment props = 0 \<or> isPow2 (propAlignment props)"
  shows "\<exists>p m' s'. createUnifiedMemoryAllocation svm sz props (m, s) = Inr (Some (p, m', s')) \<and> managerInv m' \<and>
    (p \<noteq> 0 \<longrightarrow> sz \<le> maxPoolableSize \<and>
      (\<forall>x. unat p \<le> unat x \<and> unat x < unat p + unat sz \<longrightarrow> managerBasePtr x m' = p \<and> managerAllocationSize x m' = sz)) \<and>
    (\<forall>r. managerInv (snd (managerFree r m')))"
proof (cases "managerCanBePooled sz props")
  case False
  have "managerInv (snd (managerFree r m))" for r by (rule managerFree_ok [OF inv])
  then show ?thesis using False inv by (simp add: createUnifiedMemoryAllocation_def)
next
  case True
  then have "unat sz \<le> 268435456"
    by (simp add: managerCanBePooled_def maxPoolableSize_def word_le_nat_alt)
  then have pv: "poolValid q (sz, props)" for q using v by (simp add: poolValid_def)
  have ok: "\<forall>q \<in> set (concat (pools m)). poolOk q" using inv by (simp add: managerInv_def)
  obtain p qss s' where c: "createInClass svm sz props poolInfos (pools m) s = Inr (Some (p, qss, s'))"
    "list_all2 (list_all2 replaced) (pools m) qss" "p \<noteq> 0 \<longrightarrow> (\<exists>q \<in> set (concat qss). serves p sz q)"
    using createInClass_ok [OF ok pv, of svm poolInfos s] by (elim exE conjE) (rule that)
  let ?m = "m\<lparr>pools := qss\<rparr>"
  have inv': "managerInv ?m" by (rule replaced_manager [OF inv c(2)])
  have look: "managerBasePtr x ?m = p \<and> managerAllocationSize x ?m = sz"
    if p: "p \<noteq> 0" and x: "unat p \<le> unat x \<and> unat x < unat p + unat sz" for x
  proof -
    obtain q where q: "q \<in> set (concat qss)" "serves p sz q" using c(3) p by blast
    then have "isInPool x q" "getPooledAllocationBasePtr x q = p" "getPooledAllocationSize x q = sz"
      using x by (simp_all add: serves_def)
    moreover have "List.find (isInPool x) (concat qss) = Some q"
      using find_pool [OF _ q(1) calculation(1)] inv' by (simp add: managerInv_def)
    ultimately show ?thesis by (simp add: managerBasePtr_def managerAllocationSize_def getPoolContainingAlloc_def)
  qed
  have "managerInv (snd (managerFree r ?m))" for r by (rule managerFree_ok [OF inv'])
  moreover have "createUnifiedMemoryAllocation svm sz props (m, s) = Inr (Some (p, ?m, s'))"
    using True c(1) by (simp add: createUnifiedMemoryAllocation_def)
  moreover have "sz \<le> maxPoolableSize" using True by (simp add: managerCanBePooled_def)
  ultimately show ?thesis using inv' look by blast
qed

theorem manager_create_lookup_witness:
  "\<exists>p m' s'. createUnifiedMemoryAllocation noSvm 1000 sampleProps
     ((newPoolsManager deviceUnifiedMemory)\<lparr>pools := [[samplePool], [], [], [], [], []]\<rparr>, ()) = Inr (Some (p, m', s')) \<and> managerInv m'"
proof -
  have "managerInv ((newPoolsManager deviceUnifiedMemory)\<lparr>pools := [[samplePool], [], [], [], [], []]\<rparr>)"
    using samplePool_inv by (auto simp: managerInv_def poolInfos_def poolOk_def)
  then show ?thesis
    using manager_create_lookup [of _ 1000 sampleProps noSvm "()"] by (fastforce simp: sampleProps_def isPow2_def)
qed

end
