(* ===== verification/Page_Fault.thy ===== *)
theory Page_Fault
  imports Prelude
begin

text \<open>
  \<open>page_fault_manager/cpu_page_fault_manager.{h,cpp}\<close>, its Linux part, the TBX variant and the two
  transfer back ends (\<open>opencl/source/memory_manager/cpu_page_fault_manager_memory_sync.cpp\<close>,
  \<open>level_zero/core/source/memory/cpu_page_fault_memory_manager.cpp\<close>). A shared allocation has a CPU
  copy and a GPU copy; the manager protects the CPU copy while the GPU copy is the current one and
  migrates the data when the CPU faults or the GPU is about to run. The world holds both copies, the
  page protection and the records of the SVM managers; system calls and the copies dispatched to a
  queue are parameters.
\<close>

section \<open>Data\<close>

datatype AllocationDomain = domCpu | domGpu | domNone

record PageFaultData =
  pfDomain :: AllocationDomain
  pfSize :: u64
  pfUnifiedMemoryManager :: u64
  pfCmdQ :: u64

definition newPageFaultData :: PageFaultData where
  "newPageFaultData = \<lparr>pfDomain = domNone, pfSize = 0, pfUnifiedMemoryManager = 0, pfCmdQ = 0\<rparr>"

datatype GpuDomainHandler = transferAndUnprotect | unprotectAndTransfer | transferAndUnprotectWithHints

text \<open>
  \<open>memoryData\<close> is an unordered map: a list of entries in the order in which it is iterated.
  \<open>nonGpuDomainAllocs\<close> is a field of each SVM manager.
\<close>

record CpuPageFaultManager =
  memoryData :: "(u64 \<times> PageFaultData) list"
  nonGpuDomainAllocs :: "u64 \<Rightarrow> u64 list"
  gpuDomainHandler :: GpuDomainHandler

definition newCpuPageFaultManager :: CpuPageFaultManager where
  "newCpuPageFaultManager = \<lparr>memoryData = [], nonGpuDomainAllocs = (\<lambda>_. []), gpuDomainHandler = transferAndUnprotect\<rparr>"

record SvmMapOperation =
  regionSvmPtr :: u64
  regionSize :: u64
  baseSvmPtr :: u64
  regionOffset :: u64
  readOnlyMap :: bool

record SvmAllocationData =
  svmZeroCopy :: bool
  svmCpuBase :: u64
  svmDataSize :: u64

record MemAdviseFlags =
  adviseReadOnly :: bool
  devicePreferredLocation :: bool
  nonAtomic :: bool
  cachedMemory :: bool
  cpuMigrationBlocked :: bool
  systemPreferredLocation :: bool

definition newMemAdviseFlags :: MemAdviseFlags where
  "newMemAdviseFlags = \<lparr>adviseReadOnly = False, devicePreferredLocation = False, nonAtomic = False,
     cachedMemory = True, cpuMigrationBlocked = False, systemPreferredLocation = False\<rparr>"

datatype Protection = protNone | protRead | protReadWrite

text \<open>Calls with an effect outside of the model.\<close>

datatype SideEffect =
  StopDirectSubmission u64
| SetAubWritable bool u64 u64
| SetTbxWritable bool u64 u64
| SetCpuAllocEvictable bool u64 u64
| AllowCpuMemoryEviction bool u64 u64
| EvictAfterCopy u64
| RegisterFaultHandler
| SetMemAdvise u64 u64 MemAdviseFlags
| DownloadAllocation u64 u64
| SetTbxBankWritable u64 u32

record 'v World =
  cpuMem :: "u64 \<Rightarrow> 'v"
  gpuMem :: "u64 \<Rightarrow> 'v"
  prot :: "u64 \<Rightarrow> Protection"
  svmAllocs :: "u64 \<Rightarrow> u64 \<Rightarrow> SvmAllocationData option"
  svmMapOperations :: "u64 \<Rightarrow> u64 \<Rightarrow> SvmMapOperation option"
  memAdviseSharedAllocations :: "u64 \<Rightarrow> u64 \<Rightarrow> MemAdviseFlags option"
  sideEffects :: "SideEffect list"

text \<open>
  The surroundings: \<open>mprotect\<close>, the command queues (the SVM manager of a queue's context, a marker, a
  copy between the two storages of an allocation given by direction, address and size, \<open>finish\<close>), the
  page fault command list of Level Zero, and settings.
\<close>

record 'v Surroundings =
  mprotect :: "u64 \<Rightarrow> u64 \<Rightarrow> Protection \<Rightarrow> 'v World \<Rightarrow> int \<times> 'v World"
  contextManager :: "u64 \<Rightarrow> u64"
  enqueueMarker :: "u64 \<Rightarrow> 'v World \<Rightarrow> int \<times> 'v World"
  enqueueCopy :: "u64 \<Rightarrow> bool \<Rightarrow> u64 \<Rightarrow> u64 \<Rightarrow> 'v World \<Rightarrow> int \<times> 'v World"
  finishQueue :: "u64 \<Rightarrow> 'v World \<Rightarrow> int \<times> 'v World"
  appendPageFaultCopy :: "u64 \<Rightarrow> bool \<Rightarrow> u64 \<Rightarrow> u64 \<Rightarrow> bool \<Rightarrow> 'v World \<Rightarrow> int \<times> 'v World"
  evictMemoryAfterCopy :: bool
  registerPageFaultHandlerOnMigration :: bool
  faultHandlerInstalled :: "'v World \<Rightarrow> bool"
  usmInitialPlacementFlag :: int

type_synonym 'v pfState = "CpuPageFaultManager \<times> 'v World"

text \<open>The operations that the API layer supplies.\<close>

record 'v MemorySync =
  transferToCpu :: "'v Surroundings \<Rightarrow> u64 \<Rightarrow> u64 \<Rightarrow> u64 \<Rightarrow> 'v pfState \<Rightarrow> 'v pfState result"
  transferToGpu :: "'v Surroundings \<Rightarrow> u64 \<Rightarrow> u64 \<Rightarrow> 'v pfState \<Rightarrow> 'v pfState result"
  allowCPUMemoryEviction :: "'v Surroundings \<Rightarrow> bool \<Rightarrow> u64 \<Rightarrow> u64 \<Rightarrow> 'v pfState \<Rightarrow> 'v pfState result"

definition addEffect :: "SideEffect \<Rightarrow> 'v World \<Rightarrow> 'v World" where
  "addEffect e w = w\<lparr>sideEffects := sideEffects w @ [e]\<rparr>"

definition unrecoverableIf :: "bool \<Rightarrow> 'a \<Rightarrow> 'a result" where
  "unrecoverableIf b x = (if b then Inl Unrecoverable else Inr x)"

text \<open>A call that returns an error code, with \<open>UNRECOVERABLE_IF\<close> on the code.\<close>

definition mustSucceed :: "int \<times> 'a \<Rightarrow> 'a result" where
  "mustSucceed r = unrecoverableIf (fst r \<noteq> 0) (snd r)"

section \<open>The unordered map\<close>

definition findData :: "u64 \<Rightarrow> CpuPageFaultManager \<Rightarrow> PageFaultData option" where
  "findData p m = map_of (memoryData m) p"

definition insertData :: "u64 \<Rightarrow> PageFaultData \<Rightarrow> CpuPageFaultManager \<Rightarrow> CpuPageFaultManager" where
  "insertData p d m = (if findData p m = None then m\<lparr>memoryData := memoryData m @ [(p, d)]\<rparr> else m)"

text \<open>\<open>memoryData[p]\<close>: a reference, to a new entry with default values when there is none.\<close>

definition touchData :: "u64 \<Rightarrow> CpuPageFaultManager \<Rightarrow> CpuPageFaultManager" where
  "touchData p m = insertData p newPageFaultData m"

definition dataAt :: "u64 \<Rightarrow> CpuPageFaultManager \<Rightarrow> PageFaultData" where
  "dataAt p m = (case findData p m of Some d \<Rightarrow> d | None \<Rightarrow> newPageFaultData)"

definition setDomain :: "AllocationDomain \<Rightarrow> u64 \<Rightarrow> CpuPageFaultManager \<Rightarrow> CpuPageFaultManager" where
  "setDomain a p m = m\<lparr>memoryData := map (\<lambda>(q, d). (q, if q = p then d\<lparr>pfDomain := a\<rparr> else d)) (memoryData m)\<rparr>"

definition eraseData :: "u64 \<Rightarrow> CpuPageFaultManager \<Rightarrow> CpuPageFaultManager" where
  "eraseData p m = m\<lparr>memoryData := filter (\<lambda>e. fst e \<noteq> p) (memoryData m)\<rparr>"

definition pushNonGpu :: "u64 \<Rightarrow> u64 \<Rightarrow> CpuPageFaultManager \<Rightarrow> CpuPageFaultManager" where
  "pushNonGpu um p m = m\<lparr>nonGpuDomainAllocs := (nonGpuDomainAllocs m)(um := nonGpuDomainAllocs m um @ [p])\<rparr>"

text \<open>Erases the first occurrence, if any.\<close>

definition eraseNonGpu :: "u64 \<Rightarrow> u64 \<Rightarrow> CpuPageFaultManager \<Rightarrow> CpuPageFaultManager" where
  "eraseNonGpu um p m = m\<lparr>nonGpuDomainAllocs := (nonGpuDomainAllocs m)(um := remove1 p (nonGpuDomainAllocs m um))\<rparr>"

section \<open>Linux\<close>

definition allowCPUMemoryAccess :: "'v Surroundings \<Rightarrow> u64 \<Rightarrow> u64 \<Rightarrow> 'v pfState \<Rightarrow> 'v pfState result" where
  "allowCPUMemoryAccess env p sz st =
     map_sum id (Pair (fst st)) (mustSucceed (mprotect env p sz protReadWrite (snd st)))"

definition protectCPUMemoryAccess :: "'v Surroundings \<Rightarrow> u64 \<Rightarrow> u64 \<Rightarrow> 'v pfState \<Rightarrow> 'v pfState result" where
  "protectCPUMemoryAccess env p sz st =
     map_sum id (Pair (fst st)) (mustSucceed (mprotect env p sz protNone (snd st)))"

definition protectCpuMemoryFromWrites :: "'v Surroundings \<Rightarrow> u64 \<Rightarrow> u64 \<Rightarrow> 'v pfState \<Rightarrow> 'v pfState result" where
  "protectCpuMemoryFromWrites env p sz st =
     map_sum id (Pair (fst st)) (mustSucceed (mprotect env p sz protRead (snd st)))"

definition evictMemoryAfterImplCopy :: "'v Surroundings \<Rightarrow> u64 \<Rightarrow> 'v World \<Rightarrow> 'v World" where
  "evictMemoryAfterImplCopy env p w = (if evictMemoryAfterCopy env then addEffect (EvictAfterCopy p) w else w)"

section \<open>Map operations and the OpenCL back end\<close>

definition insertSvmMapOperation :: "u64 \<Rightarrow> u64 \<Rightarrow> u64 \<Rightarrow> u64 \<Rightarrow> u64 \<Rightarrow> bool \<Rightarrow> 'v World \<Rightarrow> 'v World" where
  "insertSvmMapOperation um p sz base offset readOnly w =
     (if svmMapOperations w um p = None then
        w\<lparr>svmMapOperations := (svmMapOperations w)(um := (svmMapOperations w um)(p \<mapsto>
          \<lparr>regionSvmPtr = p, regionSize = sz, baseSvmPtr = base, regionOffset = offset, readOnlyMap = readOnly\<rparr>))\<rparr>
      else w)"

definition removeSvmMapOperation :: "u64 \<Rightarrow> u64 \<Rightarrow> 'v World \<Rightarrow> 'v World" where
  "removeSvmMapOperation um p w =
     w\<lparr>svmMapOperations := (svmMapOperations w)(um := (svmMapOperations w um)(p := None))\<rparr>"

definition CL_INVALID_VALUE :: int where "CL_INVALID_VALUE = - 30"

text \<open>\<open>enqueueSVMMap\<close> as the manager calls it: blocking, for writing, without events.\<close>

definition enqueueSVMMap :: "'v Surroundings \<Rightarrow> u64 \<Rightarrow> u64 \<Rightarrow> u64 \<Rightarrow> 'v World \<Rightarrow> int \<times> 'v World" where
  "enqueueSVMMap env q p sz w =
     (let um = contextManager env q in
      case svmAllocs w um p of
        None \<Rightarrow> (CL_INVALID_VALUE, w)
      | Some svmData \<Rightarrow>
          if svmZeroCopy svmData then enqueueMarker env q w
          else if svmMapOperations w um p \<noteq> None then enqueueMarker env q w
          else
            let svmBasePtr = svmCpuBase svmData; svmOffset = p - svmBasePtr;
                (dispatchResult, w) = enqueueCopy env q True (svmBasePtr + svmOffset) sz w
            in if dispatchResult \<noteq> 0 then (dispatchResult, w)
               else (0, insertSvmMapOperation um p sz svmBasePtr svmOffset False w))"

definition enqueueSVMUnmap :: "'v Surroundings \<Rightarrow> u64 \<Rightarrow> u64 \<Rightarrow> 'v World \<Rightarrow> int \<times> 'v World" where
  "enqueueSVMUnmap env q p w =
     (let um = contextManager env q in
      case svmAllocs w um p of
        None \<Rightarrow> (CL_INVALID_VALUE, w)
      | Some svmData \<Rightarrow>
          if svmZeroCopy svmData then enqueueMarker env q w
          else case svmMapOperations w um p of
            None \<Rightarrow> enqueueMarker env q w
          | Some svmOperation \<Rightarrow>
              if readOnlyMap svmOperation then
                let (enqueueResult, w) = enqueueMarker env q w in (enqueueResult, removeSvmMapOperation um p w)
              else
                let w = addEffect (SetTbxWritable True p um) (addEffect (SetAubWritable True p um) w);
                    (dispatchResult, w) =
                      enqueueCopy env q False (svmCpuBase svmData + regionOffset svmOperation) (regionSize svmOperation) w
                in if dispatchResult \<noteq> 0 then (dispatchResult, w)
                   else (0, removeSvmMapOperation um p w))"

definition clTransferToCpu :: "'v Surroundings \<Rightarrow> u64 \<Rightarrow> u64 \<Rightarrow> u64 \<Rightarrow> 'v pfState \<Rightarrow> 'v pfState result" where
  "clTransferToCpu env p sz q st =
     map_sum id (Pair (fst st)) (mustSucceed (enqueueSVMMap env q p sz (addEffect (StopDirectSubmission q) (snd st))))"

definition clTransferToGpu :: "'v Surroundings \<Rightarrow> u64 \<Rightarrow> u64 \<Rightarrow> 'v pfState \<Rightarrow> 'v pfState result" where
  "clTransferToGpu env p q st =
     (let m = touchData p (fst st);
          um = pfUnifiedMemoryManager (dataAt p m);
          w = addEffect (StopDirectSubmission q) (snd st);
          w = insertSvmMapOperation um p (pfSize (dataAt p m)) p 0 False w
      in andThen (mustSucceed (enqueueSVMUnmap env q p w))
           (\<lambda>w. andThen (mustSucceed (finishQueue env q w))
           (\<lambda>w. andThen (unrecoverableIf (svmAllocs w um p = None) w)
           (\<lambda>w. Inr (m, evictMemoryAfterImplCopy env p w)))))"

definition clAllowCPUMemoryEviction :: "'v Surroundings \<Rightarrow> bool \<Rightarrow> u64 \<Rightarrow> u64 \<Rightarrow> 'v pfState \<Rightarrow> 'v pfState result" where
  "clAllowCPUMemoryEviction env evict p q st =
     (let m = touchData p (fst st); um = pfUnifiedMemoryManager (dataAt p m)
      in andThen (unrecoverableIf (svmAllocs (snd st) um p = None) (snd st))
           (\<lambda>w. Inr (m, addEffect (AllowCpuMemoryEviction evict p q) w)))"

definition clMemorySync :: "'v MemorySync" where
  "clMemorySync = \<lparr>transferToCpu = clTransferToCpu, transferToGpu = clTransferToGpu,
     allowCPUMemoryEviction = clAllowCPUMemoryEviction\<rparr>"

section \<open>The Level Zero back end\<close>

definition l0TransferToCpu :: "'v Surroundings \<Rightarrow> u64 \<Rightarrow> u64 \<Rightarrow> u64 \<Rightarrow> 'v pfState \<Rightarrow> 'v pfState result" where
  "l0TransferToCpu env p sz device st =
     (let w = addEffect (StopDirectSubmission device) (snd st) in
      case svmAllocs w (contextManager env device) p of
        None \<Rightarrow> Inl Unrecoverable
      | Some allocData \<Rightarrow>
          map_sum id (Pair (fst st))
            (mustSucceed (appendPageFaultCopy env device True (svmCpuBase allocData) (svmDataSize allocData) True w)))"

definition l0TransferToGpu :: "'v Surroundings \<Rightarrow> u64 \<Rightarrow> u64 \<Rightarrow> 'v pfState \<Rightarrow> 'v pfState result" where
  "l0TransferToGpu env p device st =
     (let w = addEffect (StopDirectSubmission device) (snd st) in
      case svmAllocs w (contextManager env device) p of
        None \<Rightarrow> Inl Unrecoverable
      | Some allocData \<Rightarrow>
          andThen (mustSucceed (appendPageFaultCopy env device False (svmCpuBase allocData) (svmDataSize allocData) False w))
            (\<lambda>w. Inr (fst st, evictMemoryAfterImplCopy env p w)))"

definition l0AllowCPUMemoryEviction :: "'v Surroundings \<Rightarrow> bool \<Rightarrow> u64 \<Rightarrow> u64 \<Rightarrow> 'v pfState \<Rightarrow> 'v pfState result" where
  "l0AllowCPUMemoryEviction env evict p device st =
     Inr (fst st, addEffect (AllowCpuMemoryEviction evict p device) (snd st))"

definition l0MemorySync :: "'v MemorySync" where
  "l0MemorySync = \<lparr>transferToCpu = l0TransferToCpu, transferToGpu = l0TransferToGpu,
     allowCPUMemoryEviction = l0AllowCPUMemoryEviction\<rparr>"

section \<open>The manager\<close>

record MemoryAllocFlags =
  usmInitialPlacementCpu :: bool
  usmInitialPlacementGpu :: bool

datatype UsmInitialPlacement = placeDefault | placeCpu | placeGpu

definition getUSMInitialPlacement :: "int \<Rightarrow> MemoryAllocFlags \<Rightarrow> UsmInitialPlacement" where
  "getUSMInitialPlacement debugFlag flags =
     (let initialPlacement = placeCpu;
          initialPlacement = (if usmInitialPlacementGpu flags then placeGpu else initialPlacement);
          initialPlacement = (if usmInitialPlacementCpu flags then placeCpu else initialPlacement)
      in if debugFlag \<noteq> - 1 then if debugFlag \<noteq> 1 then placeCpu else placeGpu else initialPlacement)"

definition insertAllocation ::
  "'v Surroundings \<Rightarrow> u64 \<Rightarrow> u64 \<Rightarrow> u64 \<Rightarrow> u64 \<Rightarrow> MemoryAllocFlags \<Rightarrow> 'v pfState \<Rightarrow> 'v pfState result" where
  "insertAllocation env p sz um q flags st =
     (let initialPlacement = getUSMInitialPlacement (usmInitialPlacementFlag env) flags;
          domain = (if initialPlacement = placeCpu then domCpu else domNone);
          faultData = \<lparr>pfDomain = domain, pfSize = sz, pfUnifiedMemoryManager = um, pfCmdQ = q\<rparr>;
          m = pushNonGpu um p (insertData p faultData (fst st))
      in if initialPlacement \<noteq> placeCpu then protectCPUMemoryAccess env p sz (m, snd st) else Inr (m, snd st))"

definition removeAllocation :: "'v Surroundings \<Rightarrow> u64 \<Rightarrow> 'v pfState \<Rightarrow> 'v pfState result" where
  "removeAllocation env p st =
     (case findData p (fst st) of
        None \<Rightarrow> Inr st
      | Some d \<Rightarrow>
          andThen (if pfDomain d = domGpu then allowCPUMemoryAccess env p (pfSize d) st
                   else Inr (eraseNonGpu (pfUnifiedMemoryManager d) p (fst st), snd st))
            (\<lambda>st. Inr (eraseData p (fst st), snd st)))"

text \<open>A null pointer and a missing SVM allocation, which the code dereferences, both end the call.\<close>

definition setAubWritable :: "bool \<Rightarrow> u64 \<Rightarrow> u64 \<Rightarrow> 'v pfState \<Rightarrow> 'v pfState result" where
  "setAubWritable writable p um st =
     unrecoverableIf (p = 0 \<or> svmAllocs (snd st) um p = None)
       (fst st, addEffect (SetAubWritable writable p um) (snd st))"

definition setCpuAllocEvictable :: "bool \<Rightarrow> u64 \<Rightarrow> u64 \<Rightarrow> 'v pfState \<Rightarrow> 'v pfState result" where
  "setCpuAllocEvictable evictable p um st =
     unrecoverableIf (p = 0 \<or> svmAllocs (snd st) um p = None)
       (fst st, addEffect (SetCpuAllocEvictable evictable p um) (snd st))"

definition registerOnMigration :: "'v Surroundings \<Rightarrow> 'v pfState \<Rightarrow> 'v pfState" where
  "registerOnMigration env st =
     (if registerPageFaultHandlerOnMigration env \<and> \<not> faultHandlerInstalled env (snd st)
      then (fst st, addEffect RegisterFaultHandler (snd st)) else st)"

definition migrateStorageToGpuDomain ::
  "'v Surroundings \<Rightarrow> 'v MemorySync \<Rightarrow> u64 \<Rightarrow> 'v pfState \<Rightarrow> 'v pfState result" where
  "migrateStorageToGpuDomain env sync p st =
     (let d = dataAt p (fst st) in
      andThen
        (if pfDomain d = domCpu then
           andThen (setCpuAllocEvictable False p (pfUnifiedMemoryManager d) st)
             (\<lambda>st. andThen (allowCPUMemoryEviction sync env False p (pfCmdQ d) st)
             (\<lambda>st. andThen (transferToGpu sync env p (pfCmdQ d) (registerOnMigration env st))
             (\<lambda>st. protectCPUMemoryAccess env p (pfSize d) st)))
         else Inr st)
        (\<lambda>st. Inr (setDomain domGpu p (fst st), snd st)))"

definition moveAllocationToGpuDomain ::
  "'v Surroundings \<Rightarrow> 'v MemorySync \<Rightarrow> u64 \<Rightarrow> 'v pfState \<Rightarrow> 'v pfState result" where
  "moveAllocationToGpuDomain env sync p st =
     (case findData p (fst st) of
        None \<Rightarrow> Inr st
      | Some d \<Rightarrow>
          if pfDomain d = domCpu \<or> pfDomain d = domNone then
            andThen (migrateStorageToGpuDomain env sync p st)
              (\<lambda>st. Inr (eraseNonGpu (pfUnifiedMemoryManager d) p (fst st), snd st))
          else Inr st)"

fun moveAll :: "'v Surroundings \<Rightarrow> 'v MemorySync \<Rightarrow> u64 list \<Rightarrow> 'v pfState \<Rightarrow> 'v pfState result" where
  "moveAll env sync [] st = Inr st"
| "moveAll env sync (p # ps) st =
     andThen (migrateStorageToGpuDomain env sync p (touchData p (fst st), snd st)) (moveAll env sync ps)"

definition moveAllocationsWithinUMAllocsManagerToGpuDomain ::
  "'v Surroundings \<Rightarrow> 'v MemorySync \<Rightarrow> u64 \<Rightarrow> 'v pfState \<Rightarrow> 'v pfState result" where
  "moveAllocationsWithinUMAllocsManagerToGpuDomain env sync um st =
     andThen (moveAll env sync (nonGpuDomainAllocs (fst st) um) st)
       (\<lambda>st. Inr ((fst st)\<lparr>nonGpuDomainAllocs := (nonGpuDomainAllocs (fst st))(um := [])\<rparr>, snd st))"

definition migrateStorageToCpuDomain ::
  "'v Surroundings \<Rightarrow> 'v MemorySync \<Rightarrow> u64 \<Rightarrow> 'v pfState \<Rightarrow> 'v pfState result" where
  "migrateStorageToCpuDomain env sync p st =
     (let d = dataAt p (fst st) in
      andThen
        (if pfDomain d = domGpu then
           andThen (transferToCpu sync env p (pfSize d) (pfCmdQ d) st)
             (\<lambda>st. Inr (pushNonGpu (pfUnifiedMemoryManager d) p (fst st), snd st))
         else Inr st)
        (\<lambda>st. Inr (setDomain domCpu p (fst st), snd st)))"

definition transferAndUnprotectMemory ::
  "'v Surroundings \<Rightarrow> 'v MemorySync \<Rightarrow> u64 \<Rightarrow> 'v pfState \<Rightarrow> 'v pfState result" where
  "transferAndUnprotectMemory env sync p st =
     (let d = dataAt p (fst st) in
      andThen (migrateStorageToCpuDomain env sync p st)
        (\<lambda>st. andThen (allowCPUMemoryAccess env p (pfSize d) st)
        (\<lambda>st. andThen (setCpuAllocEvictable True p (pfUnifiedMemoryManager d) st)
        (\<lambda>st. allowCPUMemoryEviction sync env True p (pfCmdQ d) st))))"

definition unprotectAndTransferMemory ::
  "'v Surroundings \<Rightarrow> 'v MemorySync \<Rightarrow> u64 \<Rightarrow> 'v pfState \<Rightarrow> 'v pfState result" where
  "unprotectAndTransferMemory env sync p st =
     andThen (allowCPUMemoryAccess env p (pfSize (dataAt p (fst st))) st) (migrateStorageToCpuDomain env sync p)"

definition migrationAdvisedAgainst :: "'v Surroundings \<Rightarrow> u64 \<Rightarrow> PageFaultData \<Rightarrow> 'v World \<Rightarrow> bool" where
  "migrationAdvisedAgainst env p d w \<longleftrightarrow>
     pfDomain d = domGpu \<and>
     (case memAdviseSharedAllocations w (pfCmdQ d) p of
        Some flags \<Rightarrow> adviseReadOnly flags \<and> devicePreferredLocation flags
      | None \<Rightarrow> False)"

definition blockCpuMigration :: "u64 \<Rightarrow> u64 \<Rightarrow> 'v World \<Rightarrow> 'v World" where
  "blockCpuMigration device p w =
     w\<lparr>memAdviseSharedAllocations := (memAdviseSharedAllocations w)(device := (memAdviseSharedAllocations w device)(p :=
       map_option (\<lambda>f. f\<lparr>cpuMigrationBlocked := True\<rparr>) (memAdviseSharedAllocations w device p)))\<rparr>"

definition transferAndUnprotectMemoryWithHints ::
  "'v Surroundings \<Rightarrow> 'v MemorySync \<Rightarrow> u64 \<Rightarrow> 'v pfState \<Rightarrow> 'v pfState result" where
  "transferAndUnprotectMemoryWithHints env sync p st =
     (let d = dataAt p (fst st) in
      andThen
        (if migrationAdvisedAgainst env p d (snd st) then Inr (fst st, blockCpuMigration (pfCmdQ d) p (snd st))
         else migrateStorageToCpuDomain env sync p st)
        (allowCPUMemoryAccess env p (pfSize d)))"

definition handlePageFault :: "'v Surroundings \<Rightarrow> 'v MemorySync \<Rightarrow> u64 \<Rightarrow> 'v pfState \<Rightarrow> 'v pfState result" where
  "handlePageFault env sync p st =
     andThen (setAubWritable True p (pfUnifiedMemoryManager (dataAt p (fst st))) st)
       (\<lambda>st. case gpuDomainHandler (fst st) of
          transferAndUnprotect \<Rightarrow> transferAndUnprotectMemory env sync p st
        | unprotectAndTransfer \<Rightarrow> unprotectAndTransferMemory env sync p st
        | transferAndUnprotectWithHints \<Rightarrow> transferAndUnprotectMemoryWithHints env sync p st)"

text \<open>The loop returns the base of the first entry whose range holds the address, a null pointer otherwise.\<close>

fun getFaultData :: "('d \<Rightarrow> u64) \<Rightarrow> (u64 \<times> 'd) list \<Rightarrow> u64 \<Rightarrow> u64" where
  "getFaultData sizeOf [] x = 0"
| "getFaultData sizeOf ((p, d) # es) x = (if p \<le> x \<and> x < p + sizeOf d then p else getFaultData sizeOf es x)"

definition verifyAndHandlePageFault ::
  "'v Surroundings \<Rightarrow> 'v MemorySync \<Rightarrow> u64 \<Rightarrow> bool \<Rightarrow> 'v pfState \<Rightarrow> (bool \<times> 'v pfState) result" where
  "verifyAndHandlePageFault env sync x handleFault st =
     (let allocPtr = getFaultData pfSize (memoryData (fst st)) x in
      if allocPtr = 0 then Inr (False, st)
      else if handleFault then
        map_sum id (Pair True) (handlePageFault env sync allocPtr (touchData allocPtr (fst st), snd st))
      else Inr (True, st))"

definition setGpuDomainHandler :: "GpuDomainHandler \<Rightarrow> CpuPageFaultManager \<Rightarrow> CpuPageFaultManager" where
  "setGpuDomainHandler h m = m\<lparr>gpuDomainHandler := h\<rparr>"

text \<open>\<open>SetCommandStreamReceiver\<close> above 0 selects a simulated receiver.\<close>

definition selectGpuDomainHandler :: "int \<Rightarrow> bool \<Rightarrow> CpuPageFaultManager \<Rightarrow> CpuPageFaultManager" where
  "selectGpuDomainHandler setCommandStreamReceiver neoCalEnabled m =
     (if setCommandStreamReceiver > 0 \<or> neoCalEnabled then m\<lparr>gpuDomainHandler := unprotectAndTransfer\<rparr> else m)"

text \<open>\<open>executeMemAdvise\<close> of Level Zero on a shared allocation that the SVM manager knows.\<close>

datatype ze_memory_advice =
  SET_READ_MOSTLY | CLEAR_READ_MOSTLY | SET_PREFERRED_LOCATION | CLEAR_PREFERRED_LOCATION
| SET_SYSTEM_MEMORY_PREFERRED_LOCATION | CLEAR_SYSTEM_MEMORY_PREFERRED_LOCATION
| SET_NON_ATOMIC_MOSTLY | CLEAR_NON_ATOMIC_MOSTLY | BIAS_CACHED | BIAS_UNCACHED

fun adviseFlags :: "ze_memory_advice \<Rightarrow> MemAdviseFlags \<Rightarrow> MemAdviseFlags" where
  "adviseFlags SET_READ_MOSTLY f = f\<lparr>adviseReadOnly := True\<rparr>"
| "adviseFlags CLEAR_READ_MOSTLY f = f\<lparr>adviseReadOnly := False\<rparr>"
| "adviseFlags SET_PREFERRED_LOCATION f = f\<lparr>devicePreferredLocation := True\<rparr>"
| "adviseFlags CLEAR_PREFERRED_LOCATION f = f\<lparr>devicePreferredLocation := False\<rparr>"
| "adviseFlags SET_SYSTEM_MEMORY_PREFERRED_LOCATION f = f\<lparr>systemPreferredLocation := True\<rparr>"
| "adviseFlags CLEAR_SYSTEM_MEMORY_PREFERRED_LOCATION f = f\<lparr>systemPreferredLocation := False\<rparr>"
| "adviseFlags BIAS_CACHED f = f\<lparr>cachedMemory := True\<rparr>"
| "adviseFlags BIAS_UNCACHED f = f\<lparr>cachedMemory := False\<rparr>"
| "adviseFlags SET_NON_ATOMIC_MOSTLY f = f"
| "adviseFlags CLEAR_NON_ATOMIC_MOSTLY f = f"

definition executeMemAdvise ::
  "'v Surroundings \<Rightarrow> u64 \<Rightarrow> u64 \<Rightarrow> u64 \<Rightarrow> ze_memory_advice \<Rightarrow> 'v pfState \<Rightarrow> 'v pfState result" where
  "executeMemAdvise env device p sz advice st =
     (let flags = (case memAdviseSharedAllocations (snd st) device p of Some f \<Rightarrow> f | None \<Rightarrow> newMemAdviseFlags);
          flags = adviseFlags advice flags;
          unblock = cpuMigrationBlocked flags \<and> \<not> adviseReadOnly flags \<and> \<not> devicePreferredLocation flags
      in andThen (if unblock then protectCPUMemoryAccess env p sz st else Inr st)
           (\<lambda>(m, w).
              let flags = (if unblock then flags\<lparr>cpuMigrationBlocked := False\<rparr> else flags);
                  w = addEffect (SetMemAdvise device p flags) w
              in Inr (setGpuDomainHandler transferAndUnprotectWithHints m,
                      w\<lparr>memAdviseSharedAllocations := (memAdviseSharedAllocations w)(device :=
                          (memAdviseSharedAllocations w device)(p \<mapsto> flags))\<rparr>)))"

text \<open>
  \<open>clMemFreeCommon\<close> on a shared allocation that the SVM manager frees: the page fault manager forgets it,
  the allocation goes and with it a pending map operation.
\<close>

definition freeSharedAllocation :: "'v Surroundings \<Rightarrow> u64 \<Rightarrow> u64 \<Rightarrow> 'v pfState \<Rightarrow> 'v pfState result" where
  "freeSharedAllocation env um p st =
     andThen (removeAllocation env p st)
       (\<lambda>st. let w = (snd st)\<lparr>svmAllocs := (svmAllocs (snd st))(um := (svmAllocs (snd st) um)(p := None))\<rparr>
             in Inr (fst st, if svmMapOperations w um p \<noteq> None then removeSvmMapOperation um p w else w))"

section \<open>Laws of the surroundings\<close>

definition inRange :: "u64 \<Rightarrow> u64 \<Rightarrow> u64 \<Rightarrow> bool" where
  "inRange p n x \<longleftrightarrow> unat p \<le> unat x \<and> unat x < unat p + unat n"

text \<open>\<open>mprotect\<close> changes whole pages.\<close>

definition touches :: "u64 \<Rightarrow> u64 \<Rightarrow> u64 \<Rightarrow> bool" where
  "touches p n x \<longleftrightarrow> n \<noteq> 0 \<and> unat p div 4096 \<le> unat x div 4096 \<and>
     unat x div 4096 \<le> (unat p + unat n - 1) div 4096"

definition copied :: "bool \<Rightarrow> u64 \<Rightarrow> u64 \<Rightarrow> 'v World \<Rightarrow> 'v World" where
  "copied toCpu p n w =
     (if toCpu then w\<lparr>cpuMem := (\<lambda>x. if inRange p n x then gpuMem w x else cpuMem w x)\<rparr>
      else w\<lparr>gpuMem := (\<lambda>x. if inRange p n x then cpuMem w x else gpuMem w x)\<rparr>)"

text \<open>
  What the calls do when they succeed: \<open>mprotect\<close> sets the protection of the pages of the range, a
  copy moves the range between the storages (its effect is taken at the dispatch; the callers wait for
  it before the memory is used), a marker and \<open>finish\<close> change nothing.
\<close>

definition faithful :: "'v Surroundings \<Rightarrow> bool" where
  "faithful env \<longleftrightarrow>
     (\<forall>p n r w w'. mprotect env p n r w = (0, w') \<longrightarrow> w' = w\<lparr>prot := (\<lambda>x. if touches p n x then r else prot w x)\<rparr>) \<and>
     (\<forall>q toCpu p n w w'. enqueueCopy env q toCpu p n w = (0, w') \<longrightarrow> w' = copied toCpu p n w) \<and>
     (\<forall>q toCpu p n flush w w'. appendPageFaultCopy env q toCpu p n flush w = (0, w') \<longrightarrow> w' = copied toCpu p n w) \<and>
     (\<forall>q w w'. enqueueMarker env q w = (0, w') \<longrightarrow> w' = w) \<and>
     (\<forall>q w w'. finishQueue env q w = (0, w') \<longrightarrow> w' = w)"

definition succeeds :: "'v Surroundings \<Rightarrow> bool" where
  "succeeds env \<longleftrightarrow>
     (\<forall>p n r w. fst (mprotect env p n r w) = 0) \<and> (\<forall>q toCpu p n w. fst (enqueueCopy env q toCpu p n w) = 0) \<and>
     (\<forall>q toCpu p n flush w. fst (appendPageFaultCopy env q toCpu p n flush w) = 0) \<and>
     (\<forall>q w. fst (enqueueMarker env q w) = 0) \<and> (\<forall>q w. fst (finishQueue env q w) = 0)"

lemma inRange_touches: "inRange p n x \<Longrightarrow> touches p n x"
  by (auto simp: inRange_def touches_def intro!: div_le_mono)

lemma mprotect_outcome:
  assumes "faithful env" "mustSucceed (mprotect env p n r w) = Inr w'"
  shows "w' = w\<lparr>prot := (\<lambda>x. if touches p n x then r else prot w x)\<rparr>"
proof -
  have "mprotect env p n r w = (0, w')"
    using assms(2) by (cases "mprotect env p n r w") (auto simp: mustSucceed_def unrecoverableIf_def split: if_splits)
  then show ?thesis using assms(1) by (auto simp: faithful_def)
qed

lemma mustSucceed_Inr: "mustSucceed r = Inr x \<longleftrightarrow> r = (0, x)"
  by (cases r) (auto simp: mustSucceed_def unrecoverableIf_def)

lemma unrecoverableIf_Inr: "unrecoverableIf b x = Inr y \<longleftrightarrow> \<not> b \<and> y = x"
  by (auto simp: unrecoverableIf_def)

section \<open>Tracked allocations\<close>

lemma findData_insert:
  "findData q (insertData p d m) = (if findData p m = None \<and> q = p then Some d else findData q m)"
  by (auto simp: findData_def insertData_def map_add_def split: option.split)

lemma findData_touch [simp]: "findData p m = Some d \<Longrightarrow> touchData p m = m"
  by (simp add: touchData_def insertData_def)

lemma dataAt_simp [simp]: "findData p m = Some d \<Longrightarrow> dataAt p m = d"
  by (simp add: dataAt_def)

lemma findData_setDomain:
  "findData q (setDomain a p m) = (if q = p then map_option (\<lambda>d. d\<lparr>pfDomain := a\<rparr>) (findData p m) else findData q m)"
proof -
  have "map_of (map (\<lambda>(q, d). (q, if q = p then d\<lparr>pfDomain := a\<rparr> else d)) es) q =
    (if q = p then map_option (\<lambda>d. d\<lparr>pfDomain := a\<rparr>) (map_of es p) else map_of es q)" for es :: "(u64 \<times> PageFaultData) list"
    by (induction es) auto
  then show ?thesis by (simp add: findData_def setDomain_def)
qed

lemma findData_erase: "findData q (eraseData p m) = (if q = p then None else findData q m)"
proof -
  have "map_of (filter (\<lambda>e. fst e \<noteq> p) es) q = (if q = p then None else map_of es q)" for es :: "(u64 \<times> PageFaultData) list"
    by (induction es) auto
  then show ?thesis by (simp add: findData_def eraseData_def)
qed

lemma findData_lists [simp]:
  "findData q (pushNonGpu um p m) = findData q m" "findData q (eraseNonGpu um p m) = findData q m"
  "findData q (m\<lparr>nonGpuDomainAllocs := f\<rparr>) = findData q m"
  by (simp_all add: findData_def pushNonGpu_def eraseNonGpu_def)

lemma keys_simps [simp]:
  "map fst (memoryData (setDomain a p m)) = map fst (memoryData m)"
  "memoryData (pushNonGpu um p m) = memoryData m" "memoryData (eraseNonGpu um p m) = memoryData m"
  "memoryData (eraseData p m) = filter (\<lambda>e. fst e \<noteq> p) (memoryData m)"
  by (auto simp: setDomain_def pushNonGpu_def eraseNonGpu_def eraseData_def)

lemma lists_simps [simp]:
  "nonGpuDomainAllocs (setDomain a p m) = nonGpuDomainAllocs m"
  "nonGpuDomainAllocs (eraseData p m) = nonGpuDomainAllocs m"
  "nonGpuDomainAllocs (insertData p d m) = nonGpuDomainAllocs m"
  "nonGpuDomainAllocs (pushNonGpu um p m) um' = nonGpuDomainAllocs m um' @ (if um' = um then [p] else [])"
  "nonGpuDomainAllocs (eraseNonGpu um p m) um' = (if um' = um then remove1 p (nonGpuDomainAllocs m um) else nonGpuDomainAllocs m um')"
  by (simp_all add: setDomain_def eraseData_def insertData_def pushNonGpu_def eraseNonGpu_def)

lemma handler_simps [simp]:
  "gpuDomainHandler (setDomain a p m) = gpuDomainHandler m" "gpuDomainHandler (eraseData p m) = gpuDomainHandler m"
  "gpuDomainHandler (insertData p d m) = gpuDomainHandler m" "gpuDomainHandler (pushNonGpu um p m) = gpuDomainHandler m"
  "gpuDomainHandler (eraseNonGpu um p m) = gpuDomainHandler m"
  by (simp_all add: setDomain_def eraseData_def insertData_def pushNonGpu_def eraseNonGpu_def)

section \<open>Interface of the transfer back ends\<close>

definition backed :: "'v Surroundings \<Rightarrow> u64 \<Rightarrow> PageFaultData \<Rightarrow> 'v World \<Rightarrow> bool" where
  "backed env p d w \<longleftrightarrow> contextManager env (pfCmdQ d) = pfUnifiedMemoryManager d \<and>
     svmAllocs w (pfUnifiedMemoryManager d) p = Some \<lparr>svmZeroCopy = False, svmCpuBase = p, svmDataSize = pfSize d\<rparr>"

text \<open>A back end moves the data of one allocation; it may change that allocation's map operation and the effect log.\<close>

definition transfers :: "bool \<Rightarrow> u64 \<Rightarrow> PageFaultData \<Rightarrow> 'v World \<Rightarrow> 'v World \<Rightarrow> bool" where
  "transfers toCpu p d w w' \<longleftrightarrow>
     (\<exists>ops log. w' = (copied toCpu p (pfSize d) w)\<lparr>svmMapOperations := ops, sideEffects := log\<rparr> \<and>
        (\<forall>um q. um \<noteq> pfUnifiedMemoryManager d \<or> q \<noteq> p \<longrightarrow> ops um q = svmMapOperations w um q))"

locale memory_sync =
  fixes sync :: "'v MemorySync"
    and link :: "u64 \<Rightarrow> PageFaultData \<Rightarrow> 'v World \<Rightarrow> bool"
  assumes toCpu: "faithful env \<Longrightarrow> backed env p d w \<Longrightarrow> findData p m = Some d \<Longrightarrow> pfDomain d = domGpu \<Longrightarrow> link p d w \<Longrightarrow>
      transferToCpu sync env p (pfSize d) (pfCmdQ d) (m, w) = Inr st' \<Longrightarrow>
      \<exists>w'. st' = (m, w') \<and> transfers True p d w w' \<and> link p (d\<lparr>pfDomain := domCpu\<rparr>) w'"
    and toGpu: "faithful env \<Longrightarrow> backed env p d w \<Longrightarrow> findData p m = Some d \<Longrightarrow> pfDomain d = domCpu \<Longrightarrow> link p d w \<Longrightarrow>
      transferToGpu sync env p (pfCmdQ d) (m, w) = Inr st' \<Longrightarrow>
      \<exists>w'. st' = (m, w') \<and> transfers False p d w w' \<and> link p (d\<lparr>pfDomain := domGpu\<rparr>) w'"
    and toCpu_returns: "faithful env \<Longrightarrow> succeeds env \<Longrightarrow> backed env p d w \<Longrightarrow>
      transferToCpu sync env p (pfSize d) (pfCmdQ d) (m, w) \<noteq> Inl e"
    and toGpu_returns: "faithful env \<Longrightarrow> succeeds env \<Longrightarrow> backed env p d w \<Longrightarrow> findData p m = Some d \<Longrightarrow>
      transferToGpu sync env p (pfCmdQ d) (m, w) \<noteq> Inl e"
    and eviction: "backed env p d w \<Longrightarrow> findData p m = Some d \<Longrightarrow>
      \<exists>log. allowCPUMemoryEviction sync env evict p (pfCmdQ d) (m, w) = Inr (m, w\<lparr>sideEffects := log\<rparr>)"
    and link_frame: "svmMapOperations w' (pfUnifiedMemoryManager d) p = svmMapOperations w (pfUnifiedMemoryManager d) p \<Longrightarrow>
      link p d w' = link p d w"
    and link_fresh: "svmMapOperations w (pfUnifiedMemoryManager d) p = None \<Longrightarrow> link p d w"
    and link_none: "link p d w \<Longrightarrow> pfDomain d = domNone \<Longrightarrow> link p (d\<lparr>pfDomain := a\<rparr>) w"

text \<open>OpenCL: no map operation is pending while the GPU owns the allocation.\<close>

definition clLink :: "u64 \<Rightarrow> PageFaultData \<Rightarrow> 'v World \<Rightarrow> bool" where
  "clLink p d w \<longleftrightarrow>
     (case svmMapOperations w (pfUnifiedMemoryManager d) p of
        None \<Rightarrow> True
      | Some op \<Rightarrow> pfDomain d = domCpu \<and>
          op = \<lparr>regionSvmPtr = p, regionSize = pfSize d, baseSvmPtr = p, regionOffset = 0, readOnlyMap = False\<rparr>)"

lemma copied_fields [simp]:
  "svmAllocs (copied c p n w) = svmAllocs w" "svmMapOperations (copied c p n w) = svmMapOperations w"
  "prot (copied c p n w) = prot w" "sideEffects (copied c p n w) = sideEffects w"
  "memAdviseSharedAllocations (copied c p n w) = memAdviseSharedAllocations w"
  by (simp_all add: copied_def)

lemma addEffect_fields [simp]:
  "svmAllocs (addEffect e w) = svmAllocs w" "svmMapOperations (addEffect e w) = svmMapOperations w"
  "prot (addEffect e w) = prot w" "cpuMem (addEffect e w) = cpuMem w" "gpuMem (addEffect e w) = gpuMem w"
  by (simp_all add: addEffect_def)

lemma transfersI:
  assumes "cpuMem w' = cpuMem (copied c p (pfSize d) w)" "gpuMem w' = gpuMem (copied c p (pfSize d) w)"
    and "prot w' = prot w" "svmAllocs w' = svmAllocs w" "memAdviseSharedAllocations w' = memAdviseSharedAllocations w"
    and "\<And>um q. um \<noteq> pfUnifiedMemoryManager d \<or> q \<noteq> p \<Longrightarrow> svmMapOperations w' um q = svmMapOperations w um q"
  shows "transfers c p d w w'"
  unfolding transfers_def
  by (rule exI [of _ "svmMapOperations w'"], rule exI [of _ "sideEffects w'"]) (use assms in simp)

lemma copied_addEffect: "cpuMem (copied c p n (addEffect e w)) = cpuMem (copied c p n w)"
  "gpuMem (copied c p n (addEffect e w)) = gpuMem (copied c p n w)"
  by (auto simp: copied_def addEffect_def fun_eq_iff)

lemma copied_ops: "cpuMem (copied c p n (insertSvmMapOperation um q k b f r w)) = cpuMem (copied c p n w)"
  "gpuMem (copied c p n (insertSvmMapOperation um q k b f r w)) = gpuMem (copied c p n w)"
  by (auto simp: copied_def insertSvmMapOperation_def fun_eq_iff)

lemma ops_fields [simp]:
  "svmAllocs (insertSvmMapOperation um q k b f r w) = svmAllocs w" "svmAllocs (removeSvmMapOperation um q w) = svmAllocs w"
  "prot (insertSvmMapOperation um q k b f r w) = prot w" "prot (removeSvmMapOperation um q w) = prot w"
  "cpuMem (insertSvmMapOperation um q k b f r w) = cpuMem w" "cpuMem (removeSvmMapOperation um q w) = cpuMem w"
  "gpuMem (insertSvmMapOperation um q k b f r w) = gpuMem w" "gpuMem (removeSvmMapOperation um q w) = gpuMem w"
  "memAdviseSharedAllocations (insertSvmMapOperation um q k b f r w) = memAdviseSharedAllocations w"
  "memAdviseSharedAllocations (removeSvmMapOperation um q w) = memAdviseSharedAllocations w"
  "memAdviseSharedAllocations (addEffect e w) = memAdviseSharedAllocations w"
  by (simp_all add: insertSvmMapOperation_def removeSvmMapOperation_def addEffect_def)

lemma ops_lookup:
  "svmMapOperations (insertSvmMapOperation um q k b f r w) um' q' =
     (if um' = um \<and> q' = q \<and> svmMapOperations w um q = None
      then Some \<lparr>regionSvmPtr = q, regionSize = k, baseSvmPtr = b, regionOffset = f, readOnlyMap = r\<rparr>
      else svmMapOperations w um' q')"
  "svmMapOperations (removeSvmMapOperation um q w) um' q' = (if um' = um \<and> q' = q then None else svmMapOperations w um' q')"
  by (auto simp: insertSvmMapOperation_def removeSvmMapOperation_def)

lemma evict_fields [simp]:
  "svmAllocs (evictMemoryAfterImplCopy env p w) = svmAllocs w" "svmMapOperations (evictMemoryAfterImplCopy env p w) = svmMapOperations w"
  "prot (evictMemoryAfterImplCopy env p w) = prot w" "cpuMem (evictMemoryAfterImplCopy env p w) = cpuMem w"
  "gpuMem (evictMemoryAfterImplCopy env p w) = gpuMem w"
  "memAdviseSharedAllocations (evictMemoryAfterImplCopy env p w) = memAdviseSharedAllocations w"
  by (simp_all add: evictMemoryAfterImplCopy_def)

lemmas copied_mem = copied_addEffect copied_ops

lemma enqueueCopy_outcome: "faithful env \<Longrightarrow> enqueueCopy env q c p n w = (0, w') \<Longrightarrow> w' = copied c p n w"
  by (auto simp: faithful_def)

lemma cl_map:
  assumes "faithful env" "backed env p d w" "svmMapOperations w (pfUnifiedMemoryManager d) p = None"
    and "enqueueSVMMap env (pfCmdQ d) p (pfSize d) w = (0, w')"
  shows "w' = insertSvmMapOperation (pfUnifiedMemoryManager d) p (pfSize d) p 0 False (copied True p (pfSize d) w)"
proof -
  obtain r w1 where c: "enqueueCopy env (pfCmdQ d) True p (pfSize d) w = (r, w1)" by fastforce
  with assms(2-4) have "r = 0" "w' = insertSvmMapOperation (pfUnifiedMemoryManager d) p (pfSize d) p 0 False w1"
    by (auto simp: enqueueSVMMap_def backed_def Let_def split: if_splits)
  then show ?thesis using enqueueCopy_outcome [OF assms(1)] c by simp
qed

lemma cl_unmap:
  assumes "faithful env" "backed env p d w"
    and "svmMapOperations w (pfUnifiedMemoryManager d) p =
      Some \<lparr>regionSvmPtr = p, regionSize = pfSize d, baseSvmPtr = p, regionOffset = 0, readOnlyMap = False\<rparr>"
    and "enqueueSVMUnmap env (pfCmdQ d) p w = (0, w')"
  shows "\<exists>e e'. w' = removeSvmMapOperation (pfUnifiedMemoryManager d) p (copied False p (pfSize d) (addEffect e (addEffect e' w)))"
proof -
  let ?w = "addEffect (SetTbxWritable True p (pfUnifiedMemoryManager d)) (addEffect (SetAubWritable True p (pfUnifiedMemoryManager d)) w)"
  obtain r w1 where c: "enqueueCopy env (pfCmdQ d) False p (pfSize d) ?w = (r, w1)" by fastforce
  with assms(2-4) have "r = 0" "w' = removeSvmMapOperation (pfUnifiedMemoryManager d) p w1"
    by (auto simp: enqueueSVMUnmap_def backed_def Let_def split: if_splits)
  then show ?thesis using enqueueCopy_outcome [OF assms(1)] c by blast
qed

lemma cl_toCpu:
  assumes "faithful env" "backed env p d w" "pfDomain d = domGpu" "clLink p d w"
    and "clTransferToCpu env p (pfSize d) (pfCmdQ d) (m, w) = Inr st'"
  shows "\<exists>w'. st' = (m, w') \<and> transfers True p d w w' \<and> clLink p (d\<lparr>pfDomain := domCpu\<rparr>) w'"
proof -
  let ?w = "addEffect (StopDirectSubmission (pfCmdQ d)) w"
  obtain w' where st': "st' = (m, w')" and e: "enqueueSVMMap env (pfCmdQ d) p (pfSize d) ?w = (0, w')"
    using assms(5) by (auto simp: clTransferToCpu_def map_sum_def mustSucceed_Inr split: sum.splits)
  have none: "svmMapOperations w (pfUnifiedMemoryManager d) p = None"
    using assms(3,4) by (auto simp: clLink_def split: option.splits)
  have w': "w' = insertSvmMapOperation (pfUnifiedMemoryManager d) p (pfSize d) p 0 False (copied True p (pfSize d) ?w)"
    by (rule cl_map [OF assms(1) _ _ e]) (use assms(2) none in \<open>simp_all add: backed_def\<close>)
  show ?thesis
    by (rule exI [of _ w'])
      (auto simp: st' w' copied_mem ops_lookup none clLink_def intro!: transfersI)
qed

lemma cl_toGpu:
  assumes "faithful env" "backed env p d w" "findData p m = Some d" "pfDomain d = domCpu" "clLink p d w"
    and "clTransferToGpu env p (pfCmdQ d) (m, w) = Inr st'"
  shows "\<exists>w'. st' = (m, w') \<and> transfers False p d w w' \<and> clLink p (d\<lparr>pfDomain := domGpu\<rparr>) w'"
proof -
  let ?um = "pfUnifiedMemoryManager d"
  let ?w = "insertSvmMapOperation ?um p (pfSize d) p 0 False (addEffect (StopDirectSubmission (pfCmdQ d)) w)"
  obtain w1 w2 where e: "enqueueSVMUnmap env (pfCmdQ d) p ?w = (0, w1)" and f: "finishQueue env (pfCmdQ d) w1 = (0, w2)"
    and st': "st' = (m, evictMemoryAfterImplCopy env p w2)"
    using assms(3,6)
    by (auto simp: clTransferToGpu_def Let_def mustSucceed_Inr unrecoverableIf_Inr elim!: andThen_InrE)
  have op: "svmMapOperations ?w ?um p = Some \<lparr>regionSvmPtr = p, regionSize = pfSize d, baseSvmPtr = p, regionOffset = 0, readOnlyMap = False\<rparr>"
    using assms(5) by (auto simp: ops_lookup clLink_def split: option.splits)
  obtain a b where w1: "w1 = removeSvmMapOperation ?um p (copied False p (pfSize d) (addEffect a (addEffect b ?w)))"
    using cl_unmap [OF assms(1) _ op e] assms(2) by (auto simp: backed_def)
  have "w2 = w1" using assms(1) f by (auto simp: faithful_def)
  then show ?thesis
    by (intro exI [of _ "evictMemoryAfterImplCopy env p w2"])
      (auto simp: st' w1 copied_mem ops_lookup clLink_def intro!: transfersI)
qed

lemma cl_toCpu_returns:
  assumes "succeeds env" "backed env p d w"
  shows "clTransferToCpu env p (pfSize d) (pfCmdQ d) (m, w) \<noteq> Inl e"
proof -
  let ?w = "addEffect (StopDirectSubmission (pfCmdQ d)) w"
  have "fst (enqueueSVMMap env (pfCmdQ d) p (pfSize d) ?w) = 0"
    using assms by (auto simp: enqueueSVMMap_def backed_def succeeds_def Let_def split_beta)
  then show ?thesis by (simp add: clTransferToCpu_def mustSucceed_def unrecoverableIf_def)
qed

lemma cl_unmap_returns:
  assumes "succeeds env" "svmAllocs w (contextManager env q) p = Some a"
  shows "fst (enqueueSVMUnmap env q p w) = 0"
  using assms by (auto simp: enqueueSVMUnmap_def succeeds_def Let_def split_beta split: option.splits)

lemma unmap_allocs:
  assumes "faithful env" "enqueueSVMUnmap env q p w = (0, w')"
  shows "svmAllocs w' = svmAllocs w"
proof -
  have copy: "w2 = copied False a n w1" if "enqueueCopy env q False a n w1 = (0, w2)" for a n w1 w2
    using enqueueCopy_outcome [OF assms(1) that] .
  have mark: "w2 = w1" if "enqueueMarker env q w1 = (0, w2)" for w1 w2 using assms(1) that by (auto simp: faithful_def)
  show ?thesis using assms(2)
    by (auto simp: enqueueSVMUnmap_def Let_def dest!: copy mark split: option.splits if_splits prod.splits)
qed

lemma cl_toGpu_returns:
  assumes "faithful env" "succeeds env" "backed env p d w" "findData p m = Some d"
  shows "clTransferToGpu env p (pfCmdQ d) (m, w) \<noteq> Inl e"
proof -
  let ?um = "pfUnifiedMemoryManager d"
  let ?w = "insertSvmMapOperation ?um p (pfSize d) p 0 False (addEffect (StopDirectSubmission (pfCmdQ d)) w)"
  obtain w1 where u: "enqueueSVMUnmap env (pfCmdQ d) p ?w = (0, w1)"
    using cl_unmap_returns [OF assms(2), of ?w "pfCmdQ d" p] assms(3) by (cases "enqueueSVMUnmap env (pfCmdQ d) p ?w") (auto simp: backed_def)
  obtain w2 where f: "finishQueue env (pfCmdQ d) w1 = (0, w2)"
    using assms(2) by (cases "finishQueue env (pfCmdQ d) w1") (simp add: succeeds_def, metis fst_conv)
  have "w2 = w1" using assms(1) f by (auto simp: faithful_def)
  moreover have "svmAllocs w1 ?um p \<noteq> None" using unmap_allocs [OF assms(1) u] assms(3) by (simp add: backed_def)
  ultimately show ?thesis using assms(4)
    by (auto simp: clTransferToGpu_def Let_def u f mustSucceed_def unrecoverableIf_def)
qed

interpretation cl: memory_sync clMemorySync clLink
proof (unfold_locales, goal_cases)
  case (1 env p d w m st')
  then show ?case using cl_toCpu [of env p d w m st'] by (simp add: clMemorySync_def)
next
  case (2 env p d w m st')
  then show ?case using cl_toGpu [of env p d w m st'] by (simp add: clMemorySync_def)
next
  case (3 env p d w m e)
  then show ?case using cl_toCpu_returns [of env p d w m e] by (simp add: clMemorySync_def)
next
  case (4 env p d w m e)
  then show ?case using cl_toGpu_returns [of env p d w m e] by (simp add: clMemorySync_def)
next
  case (5 env p d w m evict)
  then show ?case
    by (auto simp: clMemorySync_def clAllowCPUMemoryEviction_def backed_def unrecoverableIf_def addEffect_def)
qed (auto simp: clLink_def split: option.splits)

lemma l0_copy:
  assumes "faithful env" "appendPageFaultCopy env q c p n f (addEffect e w) = (0, w')"
  shows "w' = copied c p n (addEffect e w)"
  using assms by (auto simp: faithful_def)

interpretation l0: memory_sync l0MemorySync "\<lambda>_ _ _. True"
proof (unfold_locales, goal_cases)
  case (1 env p d w m st')
  then obtain w' where st': "st' = (m, w')"
    and c: "appendPageFaultCopy env (pfCmdQ d) True p (pfSize d) True (addEffect (StopDirectSubmission (pfCmdQ d)) w) = (0, w')"
    by (auto simp: l0MemorySync_def l0TransferToCpu_def backed_def Let_def map_sum_def mustSucceed_Inr split: sum.splits)
  then show ?case using l0_copy [OF 1(1) c] by (auto simp: copied_mem intro!: transfersI)
next
  case (2 env p d w m st')
  then obtain w' where st': "st' = (m, evictMemoryAfterImplCopy env p w')"
    and c: "appendPageFaultCopy env (pfCmdQ d) False p (pfSize d) False (addEffect (StopDirectSubmission (pfCmdQ d)) w) = (0, w')"
    by (auto simp: l0MemorySync_def l0TransferToGpu_def backed_def Let_def mustSucceed_Inr elim!: andThen_InrE)
  then show ?case using l0_copy [OF 2(1) c] by (auto simp: copied_mem intro!: transfersI)
next
  case (3 env p d w m e)
  then show ?case
    by (simp add: l0MemorySync_def l0TransferToCpu_def backed_def succeeds_def mustSucceed_def unrecoverableIf_def)
next
  case (4 env p d w m e)
  then show ?case
    by (simp add: l0MemorySync_def l0TransferToGpu_def backed_def succeeds_def mustSucceed_def unrecoverableIf_def)
next
  case (5 env p d w m evict)
  then show ?case by (auto simp: l0MemorySync_def l0AllowCPUMemoryEviction_def addEffect_def)
qed auto

section \<open>Invariant\<close>

text \<open>
  \<open>latest x\<close> is the value last written to the address by either side, \<open>None\<close> when there was no
  write since the allocation was created.
\<close>

type_synonym 'v contents = "u64 \<Rightarrow> 'v option"

definition holds :: "'v contents \<Rightarrow> (u64 \<Rightarrow> 'v) \<Rightarrow> u64 \<Rightarrow> bool" where
  "holds latest mem x \<longleftrightarrow> (\<forall>v. latest x = Some v \<longrightarrow> mem x = v)"

definition current :: "AllocationDomain \<Rightarrow> 'v World \<Rightarrow> 'v contents \<Rightarrow> u64 \<Rightarrow> bool" where
  "current a w latest x = (case a of
     domCpu \<Rightarrow> prot w x = protReadWrite \<and> holds latest (cpuMem w) x
   | domGpu \<Rightarrow> prot w x = protNone \<and> holds latest (gpuMem w) x
   | domNone \<Rightarrow> prot w x = protNone \<and> latest x = None)"

definition placed :: "u64 \<Rightarrow> u64 \<Rightarrow> bool" where
  "placed p n \<longleftrightarrow> p \<noteq> 0 \<and> n \<noteq> 0 \<and> unat p + unat n < 18446744073709551616"

definition entryOk ::
  "(u64 \<Rightarrow> PageFaultData \<Rightarrow> 'v World \<Rightarrow> bool) \<Rightarrow> 'v Surroundings \<Rightarrow> u64 \<Rightarrow> PageFaultData \<Rightarrow> 'v World \<Rightarrow> 'v contents \<Rightarrow> bool" where
  "entryOk link env p d w latest \<longleftrightarrow> placed p (pfSize d) \<and> backed env p d w \<and> link p d w \<and>
     (\<forall>x. inRange p (pfSize d) x \<longrightarrow> current (pfDomain d) w latest x)"

definition pagesApart :: "u64 \<Rightarrow> u64 \<Rightarrow> u64 \<Rightarrow> u64 \<Rightarrow> bool" where
  "pagesApart p n q k \<longleftrightarrow> (\<forall>x. \<not> (touches p n x \<and> touches q k x))"

definition pfCore ::
  "(u64 \<Rightarrow> PageFaultData \<Rightarrow> 'v World \<Rightarrow> bool) \<Rightarrow> 'v Surroundings \<Rightarrow> 'v pfState \<Rightarrow> 'v contents \<Rightarrow> bool" where
  "pfCore link env st latest \<longleftrightarrow>
     distinct (map fst (memoryData (fst st))) \<and>
     (\<forall>p d. findData p (fst st) = Some d \<longrightarrow> entryOk link env p d (snd st) latest) \<and>
     (\<forall>p d q e. findData p (fst st) = Some d \<longrightarrow> findData q (fst st) = Some e \<longrightarrow> p \<noteq> q \<longrightarrow>
        pagesApart p (pfSize d) q (pfSize e)) \<and>
     (\<forall>um p. svmMapOperations (snd st) um p \<noteq> None \<longrightarrow>
        (\<exists>d. findData p (fst st) = Some d \<and> pfUnifiedMemoryManager d = um))"

definition pfLists :: "CpuPageFaultManager \<Rightarrow> bool" where
  "pfLists m \<longleftrightarrow> (\<forall>um. distinct (nonGpuDomainAllocs m um) \<and>
     set (nonGpuDomainAllocs m um) =
       {p. \<exists>d. findData p m = Some d \<and> pfUnifiedMemoryManager d = um \<and> pfDomain d \<noteq> domGpu})"

text \<open>A change of the world that concerns one allocation.\<close>

definition localTo :: "u64 \<Rightarrow> PageFaultData \<Rightarrow> 'v World \<Rightarrow> 'v World \<Rightarrow> bool" where
  "localTo p d w w' \<longleftrightarrow>
     (\<forall>x. \<not> touches p (pfSize d) x \<longrightarrow> cpuMem w' x = cpuMem w x \<and> gpuMem w' x = gpuMem w x \<and> prot w' x = prot w x) \<and>
     (\<forall>um q. um \<noteq> pfUnifiedMemoryManager d \<or> q \<noteq> p \<longrightarrow>
        svmAllocs w' um q = svmAllocs w um q \<and> svmMapOperations w' um q = svmMapOperations w um q)"

lemma localTo_refl: "localTo p d w w"
  by (simp add: localTo_def)

lemma localTo_trans: "localTo p d w w' \<Longrightarrow> localTo p d w' w'' \<Longrightarrow> localTo p d w w''"
  by (auto simp: localTo_def)

lemma localTo_log: "localTo p d w (w\<lparr>sideEffects := l\<rparr>)"
  by (simp add: localTo_def)

lemma localTo_prot: "localTo p d w (w\<lparr>prot := (\<lambda>x. if touches p (pfSize d) x then r else prot w x)\<rparr>)"
  by (simp add: localTo_def)

lemma transfers_local: "transfers c p d w w' \<Longrightarrow> localTo p d w w'"
  by (auto simp: transfers_def localTo_def copied_def inRange_touches)

context memory_sync
begin

lemma core_entry: "pfCore link env (m, w) latest \<Longrightarrow> findData p m = Some d \<Longrightarrow> entryOk link env p d w latest"
  by (simp add: pfCore_def)

lemma entry_frame:
  assumes "entryOk link env q e w latest" "localTo p d w w'" "pagesApart p (pfSize d) q (pfSize e)" "p \<noteq> q"
    and "\<And>x. inRange q (pfSize e) x \<Longrightarrow> latest' x = latest x"
  shows "entryOk link env q e w' latest'"
proof -
  have out: "\<not> touches p (pfSize d) x" if "inRange q (pfSize e) x" for x
    using assms(3) inRange_touches [OF that] by (auto simp: pagesApart_def)
  have "svmAllocs w' (pfUnifiedMemoryManager e) q = svmAllocs w (pfUnifiedMemoryManager e) q"
    using assms(2,4) by (auto simp: localTo_def)
  then have "backed env q e w' = backed env q e w" by (simp add: backed_def)
  moreover have "link q e w' = link q e w" using assms(2,4) by (intro link_frame) (auto simp: localTo_def)
  ultimately show ?thesis using assms(1,2,5) out
    by (auto simp: entryOk_def localTo_def current_def holds_def split: AllocationDomain.splits)
qed

lemma core_update:
  assumes core: "pfCore link env (m, w) latest" and d: "findData p m = Some d" and loc: "localTo p d w w'"
    and ok: "entryOk link env p (d\<lparr>pfDomain := a\<rparr>) w' latest'"
    and L: "\<And>x. \<not> inRange p (pfSize d) x \<Longrightarrow> latest' x = latest x"
  shows "pfCore link env (setDomain a p m, w') latest'"
proof -
  have "entryOk link env q e w' latest'" if "findData q (setDomain a p m) = Some e" for q e
  proof (cases "q = p")
    case True
    then show ?thesis using that d ok by (simp add: findData_setDomain)
  next
    case False
    then have e: "findData q m = Some e" using that by (simp add: findData_setDomain)
    have ap: "pagesApart p (pfSize d) q (pfSize e)" using core d e False by (auto simp: pfCore_def)
    have "latest' x = latest x" if "inRange q (pfSize e) x" for x
      using L [of x] ap inRange_touches [OF that] inRange_touches [of p "pfSize d" x] by (auto simp: pagesApart_def)
    then show ?thesis using entry_frame [OF core_entry [OF core e] loc ap] False by blast
  qed
  moreover have "pagesApart r (pfSize e) q (pfSize f)"
    if e: "findData r (setDomain a p m) = Some e" and f: "findData q (setDomain a p m) = Some f" and ne: "r \<noteq> q" for r e q f
  proof -
    have sz: "\<exists>e'. findData r m = Some e' \<and> pfSize e' = pfSize e" if "findData r (setDomain a p m) = Some e" for r e
      using that by (auto simp: findData_setDomain split: if_splits)
    obtain e' f' where "findData r m = Some e'" "pfSize e' = pfSize e" "findData q m = Some f'" "pfSize f' = pfSize f"
      using sz [OF e] sz [OF f] by blast
    then show ?thesis using core ne by (metis (no_types, lifting) pfCore_def fst_conv)
  qed
  moreover have "\<exists>e. findData q (setDomain a p m) = Some e \<and> pfUnifiedMemoryManager e = um"
    if "svmMapOperations w' um q \<noteq> None" for um q
  proof (cases "um = pfUnifiedMemoryManager d \<and> q = p")
    case True
    then show ?thesis using d by (auto simp: findData_setDomain)
  next
    case False
    then have "svmMapOperations w um q \<noteq> None" using that loc by (auto simp: localTo_def)
    then obtain e where "findData q m = Some e" "pfUnifiedMemoryManager e = um"
      using core unfolding pfCore_def fst_conv snd_conv by blast
    then show ?thesis by (auto simp: findData_setDomain)
  qed
  ultimately show ?thesis using core by (simp add: pfCore_def)
qed

end

lemma map_sum_Inr: "map_sum id f r = Inr y \<longleftrightarrow> (\<exists>x. r = Inr x \<and> y = f x)"
  by (cases r) auto

lemma allow_outcome:
  assumes "faithful env" "allowCPUMemoryAccess env p n (m, w) = Inr st'"
  shows "st' = (m, w\<lparr>prot := (\<lambda>x. if touches p n x then protReadWrite else prot w x)\<rparr>)"
  using assms mprotect_outcome [OF assms(1)] by (auto simp: allowCPUMemoryAccess_def map_sum_Inr)

lemma protect_outcome:
  assumes "faithful env" "protectCPUMemoryAccess env p n (m, w) = Inr st'"
  shows "st' = (m, w\<lparr>prot := (\<lambda>x. if touches p n x then protNone else prot w x)\<rparr>)"
  using assms mprotect_outcome [OF assms(1)] by (auto simp: protectCPUMemoryAccess_def map_sum_Inr)

lemma backed_frame: "svmAllocs w' = svmAllocs w \<Longrightarrow> backed env p d w' = backed env p d w"
  by (simp add: backed_def)

lemma backed_domain [simp]: "backed env p (d\<lparr>pfDomain := a\<rparr>) w = backed env p d w"
  by (simp add: backed_def)

lemma same_domain [simp]: "pfDomain d = a \<Longrightarrow> d\<lparr>pfDomain := a\<rparr> = d"
  by (cases d) simp

lemma transfers_fields:
  assumes "transfers c p d w w'"
  shows "svmAllocs w' = svmAllocs w" "prot w' = prot w"
    "inRange p (pfSize d) x \<Longrightarrow> (if c then cpuMem w' x = gpuMem w x else gpuMem w' x = cpuMem w x)"
  using assms by (auto simp: transfers_def copied_def)

lemma register_effect: "\<exists>l. registerOnMigration env (m, w) = (m, w\<lparr>sideEffects := l\<rparr>)"
proof (cases "registerPageFaultHandlerOnMigration env \<and> \<not> faultHandlerInstalled env w")
  case True
  then show ?thesis by (auto simp: registerOnMigration_def addEffect_def)
next
  case False
  then show ?thesis by (auto simp: registerOnMigration_def intro!: exI [of _ "sideEffects w"])
qed

lemma evictable_outcome:
  assumes "setCpuAllocEvictable e p um (m, w) = Inr st'"
  shows "\<exists>l. st' = (m, w\<lparr>sideEffects := l\<rparr>)"
  using assms by (auto simp: setCpuAllocEvictable_def unrecoverableIf_Inr addEffect_def)

lemma core_lists [simp]:
  "pfCore link env (pushNonGpu um p m, w) L = pfCore link env (m, w) L"
  "pfCore link env (eraseNonGpu um p m, w) L = pfCore link env (m, w) L"
  "pfCore link env (m\<lparr>nonGpuDomainAllocs := f\<rparr>, w) L = pfCore link env (m, w) L"
  by (simp_all add: pfCore_def)

definition faulted :: "u64 \<Rightarrow> PageFaultData \<Rightarrow> CpuPageFaultManager \<Rightarrow> CpuPageFaultManager" where
  "faulted p d m = setDomain domCpu p (if pfDomain d = domGpu then pushNonGpu (pfUnifiedMemoryManager d) p m else m)"

context memory_sync
begin

lemma entry_gpu:
  assumes "entryOk link env p d w L" "svmAllocs w' = svmAllocs w" "link p (d\<lparr>pfDomain := domGpu\<rparr>) w'"
    and "\<And>x. inRange p (pfSize d) x \<Longrightarrow> prot w' x = protNone"
    and "\<And>x. inRange p (pfSize d) x \<Longrightarrow> gpuMem w' x = (if pfDomain d = domCpu then cpuMem w x else gpuMem w x)"
  shows "entryOk link env p (d\<lparr>pfDomain := domGpu\<rparr>) w' L"
  using assms by (cases "pfDomain d") (auto simp: entryOk_def backed_frame [OF assms(2)] current_def holds_def)

lemma entry_cpu:
  assumes "entryOk link env p d w L" "svmAllocs w' = svmAllocs w" "link p (d\<lparr>pfDomain := domCpu\<rparr>) w'"
    and "\<And>x. inRange p (pfSize d) x \<Longrightarrow> prot w' x = protReadWrite"
    and "\<And>x. inRange p (pfSize d) x \<Longrightarrow> cpuMem w' x = (if pfDomain d = domGpu then gpuMem w x else cpuMem w x)"
  shows "entryOk link env p (d\<lparr>pfDomain := domCpu\<rparr>) w' L"
  using assms by (cases "pfDomain d") (auto simp: entryOk_def backed_frame [OF assms(2)] current_def holds_def)

lemma migrate_gpu:
  assumes env: "faithful env" and core: "pfCore link env (m, w) L" and d: "findData p m = Some d"
    and mig: "migrateStorageToGpuDomain env sync p (m, w) = Inr st'"
  shows "\<exists>w'. st' = (setDomain domGpu p m, w') \<and> localTo p d w w' \<and> pfCore link env st' L"
proof -
  have ok: "entryOk link env p d w L" by (rule core_entry [OF core d])
  have keep: ?thesis if "localTo p d w w'" "st' = (setDomain domGpu p m, w')"
      "entryOk link env p (d\<lparr>pfDomain := domGpu\<rparr>) w' L" for w'
    using core_update [OF core d that(1,3)] that by simp
  show ?thesis
  proof (cases "pfDomain d = domCpu")
    case False
    then have "link p (d\<lparr>pfDomain := domGpu\<rparr>) w" using ok link_none
      by (cases "pfDomain d") (auto simp: entryOk_def)
    then have "entryOk link env p (d\<lparr>pfDomain := domGpu\<rparr>) w L"
      using False ok by (intro entry_gpu [OF ok]; cases "pfDomain d") (auto simp: entryOk_def current_def)
    moreover have "st' = (setDomain domGpu p m, w)" using False mig d by (simp add: migrateStorageToGpuDomain_def)
    ultimately show ?thesis using keep [OF localTo_refl] by blast
  next
    case True
    have bk: "backed env p d w" using ok by (simp add: entryOk_def)
    obtain l1 where e1: "setCpuAllocEvictable False p (pfUnifiedMemoryManager d) (m, w) = Inr (m, w\<lparr>sideEffects := l1\<rparr>)"
      using mig d True evictable_outcome by (fastforce simp: migrateStorageToGpuDomain_def elim!: andThen_InrE)
    obtain l2 where e2: "allowCPUMemoryEviction sync env False p (pfCmdQ d) (m, w\<lparr>sideEffects := l1\<rparr>) =
        Inr (m, w\<lparr>sideEffects := l2\<rparr>)"
      using eviction [of env p d "w\<lparr>sideEffects := l1\<rparr>" m False] bk d by (auto simp: backed_def)
    obtain l3 where e3: "registerOnMigration env (m, w\<lparr>sideEffects := l2\<rparr>) = (m, w\<lparr>sideEffects := l3\<rparr>)"
      using register_effect [of env m "w\<lparr>sideEffects := l2\<rparr>"] by auto
    let ?w = "w\<lparr>sideEffects := l3\<rparr>"
    obtain st1 st2 where t: "transferToGpu sync env p (pfCmdQ d) (m, ?w) = Inr st1"
      and pr: "protectCPUMemoryAccess env p (pfSize d) st1 = Inr st2" and st': "st' = (setDomain domGpu p (fst st2), snd st2)"
      using mig d True by (auto simp: migrateStorageToGpuDomain_def e1 e2 e3 elim!: andThen_InrE)
    have "link p d ?w" using ok link_frame [of ?w d p w] by (simp add: entryOk_def)
    then obtain w1 where w1: "st1 = (m, w1)" "transfers False p d ?w w1" "link p (d\<lparr>pfDomain := domGpu\<rparr>) w1"
      using toGpu [OF env _ d True _ t] bk backed_frame [of ?w w] by auto
    let ?w2 = "w1\<lparr>prot := (\<lambda>x. if touches p (pfSize d) x then protNone else prot w1 x)\<rparr>"
    have st2: "st2 = (m, ?w2)" using protect_outcome [OF env pr [unfolded w1(1)]] by simp
    note f = transfers_fields [OF w1(2)]
    have "localTo p d w ?w2"
      by (rule localTo_trans [OF localTo_log localTo_trans [OF transfers_local [OF w1(2)] localTo_prot]])
    moreover have "link p (d\<lparr>pfDomain := domGpu\<rparr>) ?w2" using w1(3) link_frame [of ?w2 "d\<lparr>pfDomain := domGpu\<rparr>" p w1] by simp
    ultimately show ?thesis using f True
      by (intro keep [of ?w2]) (auto simp: st' st2 inRange_touches intro!: entry_gpu [OF ok])
  qed
qed

lemma migrate_cpu_raw:
  assumes env: "faithful env" and d: "findData p m = Some d" and bk: "backed env p d w" and lk: "link p d w"
    and mig: "migrateStorageToCpuDomain env sync p (m, w) = Inr st'"
  shows "\<exists>w'. st' = (setDomain domCpu p (if pfDomain d = domGpu then pushNonGpu (pfUnifiedMemoryManager d) p m else m), w') \<and>
    (if pfDomain d = domGpu then transfers True p d w w' else w' = w) \<and> link p (d\<lparr>pfDomain := domCpu\<rparr>) w'"
proof (cases "pfDomain d = domGpu")
  case True
  then obtain st1 where t: "transferToCpu sync env p (pfSize d) (pfCmdQ d) (m, w) = Inr st1"
    and st': "st' = (setDomain domCpu p (pushNonGpu (pfUnifiedMemoryManager d) p (fst st1)), snd st1)"
    using mig d by (auto simp: migrateStorageToCpuDomain_def elim!: andThen_InrE)
  show ?thesis using toCpu [OF env bk d True lk t] True by (auto simp: st')
next
  case False
  then have "link p (d\<lparr>pfDomain := domCpu\<rparr>) w" using lk link_none
    by (cases "pfDomain d") (auto)
  then show ?thesis using False mig d by (simp add: migrateStorageToCpuDomain_def)
qed

end

lemma setAub_outcome:
  assumes "setAubWritable a p um (m, w) = Inr st'"
  shows "\<exists>l. st' = (m, w\<lparr>sideEffects := l\<rparr>)"
  using assms by (auto simp: setAubWritable_def unrecoverableIf_Inr addEffect_def)

lemma current_log [simp]: "current a (w\<lparr>sideEffects := l\<rparr>) L x = current a w L x"
  by (cases a) (simp_all add: current_def)

lemma core_log: "pfCore link env (m, w\<lparr>sideEffects := l\<rparr>) L = pfCore link env (m, w) L"
  if "\<And>p d. link p d (w\<lparr>sideEffects := l\<rparr>) = link p d w"
  by (simp add: pfCore_def entryOk_def backed_def that)

lemma findData_faulted: "findData p m = Some d \<Longrightarrow>
  findData q (faulted p d m) = (if q = p then Some (d\<lparr>pfDomain := domCpu\<rparr>) else findData q m)"
  by (simp add: faulted_def findData_setDomain)

lemma faulted_handler [simp]: "gpuDomainHandler (faulted p d m) = gpuDomainHandler m"
  by (simp add: faulted_def)

context memory_sync
begin

lemma log_frame: "link p d (w\<lparr>sideEffects := l\<rparr>) = link p d w"
  by (rule link_frame) simp

lemma prot_frame: "link p d (w\<lparr>prot := f\<rparr>) = link p d w"
  by (rule link_frame) simp

lemmas link_frames = log_frame prot_frame

lemma faulted_core:
  assumes "pfCore link env (m, w) L" "findData p m = Some d" "localTo p d w w'"
    and "entryOk link env p (d\<lparr>pfDomain := domCpu\<rparr>) w' L"
  shows "pfCore link env (faulted p d m, w') L"
  using core_update [of env "if pfDomain d = domGpu then pushNonGpu (pfUnifiedMemoryManager d) p m else m" w L p d w' domCpu L] assms
  by (auto simp: faulted_def)

lemma transfer_unprotect:
  assumes env: "faithful env" and core: "pfCore link env (m, w) L" and d: "findData p m = Some d"
    and tr: "transferAndUnprotectMemory env sync p (m, w) = Inr st'"
  shows "\<exists>w'. st' = (faulted p d m, w') \<and> localTo p d w w' \<and> pfCore link env st' L"
proof -
  have ok: "entryOk link env p d w L" by (rule core_entry [OF core d])
  then have bk: "backed env p d w" and lk: "link p d w" by (simp_all add: entryOk_def)
  obtain st1 st2 st3 where m1: "migrateStorageToCpuDomain env sync p (m, w) = Inr st1"
    and a: "allowCPUMemoryAccess env p (pfSize d) st1 = Inr st2"
    and e: "setCpuAllocEvictable True p (pfUnifiedMemoryManager d) st2 = Inr st3"
    and v: "allowCPUMemoryEviction sync env True p (pfCmdQ d) st3 = Inr st'"
    using tr d by (auto simp: transferAndUnprotectMemory_def Let_def elim!: andThen_InrE)
  obtain w1 where w1: "st1 = (faulted p d m, w1)" "if pfDomain d = domGpu then transfers True p d w w1 else w1 = w"
    "link p (d\<lparr>pfDomain := domCpu\<rparr>) w1"
    using migrate_cpu_raw [OF env d bk lk m1] by (auto simp: faulted_def)
  let ?w = "w1\<lparr>prot := (\<lambda>x. if touches p (pfSize d) x then protReadWrite else prot w1 x)\<rparr>"
  have f: "svmAllocs w1 = svmAllocs w" "inRange p (pfSize d) x \<Longrightarrow> cpuMem w1 x = (if pfDomain d = domGpu then gpuMem w x else cpuMem w x)" for x
    using w1(2) transfers_fields [of True p d w w1] by (auto split: if_splits)
  obtain l where st3: "st3 = (faulted p d m, ?w\<lparr>sideEffects := l\<rparr>)"
    using evictable_outcome [OF e [unfolded allow_outcome [OF env a [unfolded w1(1)]]]] by auto
  obtain l' where st': "st' = (faulted p d m, ?w\<lparr>sideEffects := l'\<rparr>)"
    using eviction [of env p "d\<lparr>pfDomain := domCpu\<rparr>" "?w\<lparr>sideEffects := l\<rparr>" "faulted p d m" True] v st3 f(1) bk
    by (auto simp: findData_faulted [OF d] backed_def)
  have loc: "localTo p d w (?w\<lparr>sideEffects := l'\<rparr>)"
    using w1(2) localTo_trans [OF localTo_trans [OF transfers_local localTo_prot] localTo_log]
      localTo_trans [OF localTo_prot localTo_log] by (auto split: if_splits)
  have "entryOk link env p (d\<lparr>pfDomain := domCpu\<rparr>) (?w\<lparr>sideEffects := l'\<rparr>) L"
    using f w1(3) by (intro entry_cpu [OF ok]) (auto simp: inRange_touches link_frames)
  then show ?thesis using faulted_core [OF core d loc] loc st' by blast
qed

lemma unprotect_transfer:
  assumes env: "faithful env" and core: "pfCore link env (m, w) L" and d: "findData p m = Some d"
    and tr: "unprotectAndTransferMemory env sync p (m, w) = Inr st'"
  shows "\<exists>w'. st' = (faulted p d m, w') \<and> localTo p d w w' \<and> pfCore link env st' L"
proof -
  have ok: "entryOk link env p d w L" by (rule core_entry [OF core d])
  then have bk: "backed env p d w" and lk: "link p d w" by (simp_all add: entryOk_def)
  let ?w = "w\<lparr>prot := (\<lambda>x. if touches p (pfSize d) x then protReadWrite else prot w x)\<rparr>"
  have m1: "migrateStorageToCpuDomain env sync p (m, ?w) = Inr st'"
    using tr d unfolding unprotectAndTransferMemory_def by (auto elim!: andThen_InrE dest!: allow_outcome [OF env])
  obtain w1 where w1: "st' = (faulted p d m, w1)" "if pfDomain d = domGpu then transfers True p d ?w w1 else w1 = ?w"
    "link p (d\<lparr>pfDomain := domCpu\<rparr>) w1"
    using migrate_cpu_raw [OF env d _ _ m1] bk lk by (auto simp: faulted_def backed_def link_frames)
  have f: "svmAllocs w1 = svmAllocs w" "prot w1 = prot ?w"
    "inRange p (pfSize d) x \<Longrightarrow> cpuMem w1 x = (if pfDomain d = domGpu then gpuMem w x else cpuMem w x)" for x
    using w1(2) transfers_fields [of True p d ?w w1] by (auto split: if_splits)
  have loc: "localTo p d w w1"
    using w1(2) localTo_trans [OF localTo_prot transfers_local] localTo_prot by (auto split: if_splits)
  have "entryOk link env p (d\<lparr>pfDomain := domCpu\<rparr>) w1 L"
    using f w1(3) by (intro entry_cpu [OF ok]) (auto simp: inRange_touches link_frames)
  then show ?thesis using faulted_core [OF core d loc] loc w1(1) by blast
qed

lemma fault_outcome:
  assumes env: "faithful env" and core: "pfCore link env (m, w) L" and d: "findData p m = Some d"
    and h: "gpuDomainHandler m \<noteq> transferAndUnprotectWithHints" and r: "handlePageFault env sync p (m, w) = Inr st'"
  shows "\<exists>w'. st' = (faulted p d m, w') \<and> localTo p d w w' \<and> pfCore link env st' L"
proof -
  obtain l where l: "andThen (Inr (m, w\<lparr>sideEffects := l\<rparr>))
      (\<lambda>st. case gpuDomainHandler (fst st) of
          transferAndUnprotect \<Rightarrow> transferAndUnprotectMemory env sync p st
        | unprotectAndTransfer \<Rightarrow> unprotectAndTransferMemory env sync p st
        | transferAndUnprotectWithHints \<Rightarrow> transferAndUnprotectMemoryWithHints env sync p st) = Inr st'"
    using r setAub_outcome [of True p _ m w] unfolding handlePageFault_def by (fastforce elim!: andThen_InrE)
  have core': "pfCore link env (m, w\<lparr>sideEffects := l\<rparr>) L" using core by (simp add: core_log link_frames)
  have "\<exists>w'. st' = (faulted p d m, w') \<and> localTo p d (w\<lparr>sideEffects := l\<rparr>) w' \<and> pfCore link env st' L"
    using transfer_unprotect [OF env core' d] unprotect_transfer [OF env core' d] l h
    by (auto split: GpuDomainHandler.splits)
  then show ?thesis using localTo_trans [OF localTo_log] by blast
qed

lemma moveAll_outcome:
  assumes env: "faithful env"
  shows "pfCore link env (m, w) L \<Longrightarrow> \<forall>p \<in> set ps. findData p m \<noteq> None \<Longrightarrow> moveAll env sync ps (m, w) = Inr st' \<Longrightarrow>
    pfCore link env st' L \<and> nonGpuDomainAllocs (fst st') = nonGpuDomainAllocs m \<and>
    gpuDomainHandler (fst st') = gpuDomainHandler m \<and>
    (\<forall>q. findData q (fst st') = (if q \<in> set ps then map_option (\<lambda>d. d\<lparr>pfDomain := domGpu\<rparr>) (findData q m) else findData q m))"
proof (induction ps arbitrary: m w)
  case (Cons p ps)
  obtain d where d: "findData p m = Some d" using Cons.prems(2) by auto
  obtain st1 where mig: "migrateStorageToGpuDomain env sync p (m, w) = Inr st1" and rest: "moveAll env sync ps st1 = Inr st'"
    using Cons.prems(3) d by (auto elim: andThen_InrE)
  obtain w1 where st1: "st1 = (setDomain domGpu p m, w1)" and core: "pfCore link env (setDomain domGpu p m, w1) L"
    using migrate_gpu [OF env Cons.prems(1) d mig] by auto
  have "\<forall>q \<in> set ps. findData q (setDomain domGpu p m) \<noteq> None" using Cons.prems(2) by (auto simp: findData_setDomain)
  note IH = Cons.IH [OF core this rest [unfolded st1]]
  then show ?case by (auto simp: findData_setDomain option.map_comp o_def)
qed auto

end

definition returns :: "'a result \<Rightarrow> bool" where
  "returns r \<longleftrightarrow> \<not> isl r"

lemma returns_simps [simp]: "returns (Inr x)" "\<not> returns (Inl e)"
  by (simp_all add: returns_def)

lemma returnsE:
  assumes "returns r"
  obtains x where "r = Inr x"
  using assms by (cases r) auto

lemma returnsI: "(\<And>e. r \<noteq> Inl e) \<Longrightarrow> returns r"
  by (cases r) auto

lemma allow_returns: "succeeds env \<Longrightarrow> returns (allowCPUMemoryAccess env p n (m, w))"
  by (simp add: allowCPUMemoryAccess_def succeeds_def mustSucceed_def unrecoverableIf_def)

lemma protect_returns: "succeeds env \<Longrightarrow> returns (protectCPUMemoryAccess env p n (m, w))"
  by (simp add: protectCPUMemoryAccess_def succeeds_def mustSucceed_def unrecoverableIf_def)

lemma evictable_returns:
  "p \<noteq> 0 \<Longrightarrow> svmAllocs w um p \<noteq> None \<Longrightarrow> setCpuAllocEvictable e p um (m, w) = Inr (m, addEffect (SetCpuAllocEvictable e p um) w)"
  by (simp add: setCpuAllocEvictable_def unrecoverableIf_def)

context memory_sync
begin

lemma migrate_gpu_returns:
  assumes env: "faithful env" "succeeds env" and ok: "entryOk link env p d w L" and d: "findData p m = Some d"
  shows "returns (migrateStorageToGpuDomain env sync p (m, w))"
proof (cases "pfDomain d = domCpu")
  case True
  have bk: "backed env p d w" and p: "p \<noteq> 0" and lk: "link p d w" using ok by (simp_all add: entryOk_def placed_def)
  have e1: "setCpuAllocEvictable False p (pfUnifiedMemoryManager d) (m, w) =
      Inr (m, addEffect (SetCpuAllocEvictable False p (pfUnifiedMemoryManager d)) w)"
    by (rule evictable_returns [OF p]) (use bk in \<open>simp add: backed_def\<close>)
  let ?w = "addEffect (SetCpuAllocEvictable False p (pfUnifiedMemoryManager d)) w"
  obtain l2 where e2: "allowCPUMemoryEviction sync env False p (pfCmdQ d) (m, ?w) = Inr (m, ?w\<lparr>sideEffects := l2\<rparr>)"
    using eviction [of env p d ?w m False] bk d by (auto simp: backed_def)
  obtain l3 where e3: "registerOnMigration env (m, ?w\<lparr>sideEffects := l2\<rparr>) = (m, ?w\<lparr>sideEffects := l3\<rparr>)"
    using register_effect [of env m "?w\<lparr>sideEffects := l2\<rparr>"] by auto
  have bk3: "backed env p d (?w\<lparr>sideEffects := l3\<rparr>)" using bk by (simp add: backed_def)
  obtain st1 where t: "transferToGpu sync env p (pfCmdQ d) (m, ?w\<lparr>sideEffects := l3\<rparr>) = Inr st1"
    by (rule returnsE [OF returnsI [OF toGpu_returns [OF env bk3 d]]])
  obtain st2 where "protectCPUMemoryAccess env p (pfSize d) st1 = Inr st2"
    using returnsE [OF protect_returns [OF env(2), of p "pfSize d" "fst st1" "snd st1"]] by (metis prod.collapse)
  then show ?thesis using True d by (simp add: migrateStorageToGpuDomain_def e1 e2 e3 t)
qed (use d in \<open>simp add: migrateStorageToGpuDomain_def\<close>)

lemma migrate_cpu_returns:
  assumes env: "faithful env" "succeeds env" and bk: "backed env p d w" and d: "findData p m = Some d"
  shows "returns (migrateStorageToCpuDomain env sync p (m, w))"
proof (cases "pfDomain d = domGpu")
  case True
  obtain st1 where "transferToCpu sync env p (pfSize d) (pfCmdQ d) (m, w) = Inr st1"
    by (rule returnsE [OF returnsI [OF toCpu_returns [OF env bk]]])
  then show ?thesis using True d by (simp add: migrateStorageToCpuDomain_def)
qed (use d in \<open>simp add: migrateStorageToCpuDomain_def\<close>)

lemma transfer_unprotect_returns:
  assumes env: "faithful env" "succeeds env" and ok: "entryOk link env p d w L" and d: "findData p m = Some d"
  shows "returns (transferAndUnprotectMemory env sync p (m, w))"
proof -
  have bk: "backed env p d w" and p: "p \<noteq> 0" and lk: "link p d w" using ok by (simp_all add: entryOk_def placed_def)
  obtain st1 where m1: "migrateStorageToCpuDomain env sync p (m, w) = Inr st1"
    by (rule returnsE [OF migrate_cpu_returns [OF env bk d]])
  obtain w1 where w1: "st1 = (faulted p d m, w1)" "if pfDomain d = domGpu then transfers True p d w w1 else w1 = w"
    using migrate_cpu_raw [OF env(1) d bk lk m1] by (auto simp: faulted_def)
  have al: "svmAllocs w1 = svmAllocs w" using w1(2) transfers_fields(1) [of True p d w w1] by (auto split: if_splits)
  obtain st2 where a: "allowCPUMemoryAccess env p (pfSize d) (faulted p d m, w1) = Inr st2"
    by (rule returnsE [OF allow_returns [OF env(2)]])
  let ?w = "w1\<lparr>prot := (\<lambda>x. if touches p (pfSize d) x then protReadWrite else prot w1 x)\<rparr>"
  have st2: "st2 = (faulted p d m, ?w)" by (rule allow_outcome [OF env(1) a])
  have e: "setCpuAllocEvictable True p (pfUnifiedMemoryManager d) (faulted p d m, ?w) =
      Inr (faulted p d m, addEffect (SetCpuAllocEvictable True p (pfUnifiedMemoryManager d)) ?w)"
    by (rule evictable_returns [OF p]) (use bk al in \<open>simp add: backed_def\<close>)
  obtain l where "allowCPUMemoryEviction sync env True p (pfCmdQ d)
      (faulted p d m, addEffect (SetCpuAllocEvictable True p (pfUnifiedMemoryManager d)) ?w) =
      Inr (faulted p d m, (addEffect (SetCpuAllocEvictable True p (pfUnifiedMemoryManager d)) ?w)\<lparr>sideEffects := l\<rparr>)"
    using eviction [of env p "d\<lparr>pfDomain := domCpu\<rparr>"
        "addEffect (SetCpuAllocEvictable True p (pfUnifiedMemoryManager d)) ?w" "faulted p d m" True] bk al
    by (auto simp: findData_faulted [OF d] backed_def)
  then show ?thesis using d by (simp add: transferAndUnprotectMemory_def m1 w1(1) a st2 e)
qed

lemma unprotect_transfer_returns:
  assumes env: "faithful env" "succeeds env" and ok: "entryOk link env p d w L" and d: "findData p m = Some d"
  shows "returns (unprotectAndTransferMemory env sync p (m, w))"
proof -
  obtain st1 where a: "allowCPUMemoryAccess env p (pfSize d) (m, w) = Inr st1" by (rule returnsE [OF allow_returns [OF env(2)]])
  have "backed env p d (w\<lparr>prot := (\<lambda>x. if touches p (pfSize d) x then protReadWrite else prot w x)\<rparr>)"
    using ok by (simp add: entryOk_def backed_def)
  then show ?thesis
    using migrate_cpu_returns [OF env _ d] a allow_outcome [OF env(1) a] d by (simp add: unprotectAndTransferMemory_def)
qed

lemma entry_log: "entryOk link env p d (w\<lparr>sideEffects := l\<rparr>) L = entryOk link env p d w L"
  by (simp add: entryOk_def backed_def link_frames)

lemma fault_returns:
  assumes env: "faithful env" "succeeds env" and ok: "entryOk link env p d w L" and d: "findData p m = Some d"
    and h: "gpuDomainHandler m \<noteq> transferAndUnprotectWithHints"
  shows "returns (handlePageFault env sync p (m, w))"
proof -
  have s: "setAubWritable True p (pfUnifiedMemoryManager d) (m, w) =
      Inr (m, addEffect (SetAubWritable True p (pfUnifiedMemoryManager d)) w)"
    using ok by (simp add: setAubWritable_def unrecoverableIf_def entryOk_def placed_def backed_def)
  have ok': "entryOk link env p d (addEffect (SetAubWritable True p (pfUnifiedMemoryManager d)) w) L"
    using ok by (simp add: addEffect_def entry_log)
  show ?thesis
    using transfer_unprotect_returns [OF env ok' d] unprotect_transfer_returns [OF env ok' d] h d
    by (cases "gpuDomainHandler m") (simp_all add: handlePageFault_def s)
qed

lemma moveAll_returns:
  assumes env: "faithful env" "succeeds env"
  shows "pfCore link env (m, w) L \<Longrightarrow> \<forall>p \<in> set ps. findData p m \<noteq> None \<Longrightarrow> returns (moveAll env sync ps (m, w))"
proof (induction ps arbitrary: m w)
  case (Cons p ps)
  obtain d where d: "findData p m = Some d" using Cons.prems(2) by auto
  obtain st1 where mig: "migrateStorageToGpuDomain env sync p (m, w) = Inr st1"
    by (rule returnsE [OF migrate_gpu_returns [OF env core_entry [OF Cons.prems(1) d] d]])
  obtain w1 where st1: "st1 = (setDomain domGpu p m, w1)" and core: "pfCore link env (setDomain domGpu p m, w1) L"
    using migrate_gpu [OF env(1) Cons.prems(1) d mig] by auto
  have "\<forall>q \<in> set ps. findData q (setDomain domGpu p m) \<noteq> None" using Cons.prems(2) by (auto simp: findData_setDomain)
  then show ?case using Cons.IH [OF core] d mig st1 by simp
qed simp

end

section \<open>Histories\<close>

text \<open>An access of the CPU: a fault handled by the manager when the page is not accessible.\<close>

definition cpuTouch :: "'v Surroundings \<Rightarrow> 'v MemorySync \<Rightarrow> u64 \<Rightarrow> 'v pfState \<Rightarrow> (bool \<times> 'v pfState) result" where
  "cpuTouch env sync x st =
     (if prot (snd st) x = protReadWrite then Inr (True, st) else verifyAndHandlePageFault env sync x True st)"

text \<open>A new allocation: accessible pages of its own, arbitrary contents \<open>c\<close> and \<open>g\<close>.\<close>

definition allocated :: "u64 \<Rightarrow> u64 \<Rightarrow> u64 \<Rightarrow> (u64 \<Rightarrow> 'v) \<Rightarrow> (u64 \<Rightarrow> 'v) \<Rightarrow> 'v World \<Rightarrow> 'v World" where
  "allocated um p n c g w = w\<lparr>
     cpuMem := (\<lambda>x. if touches p n x then c x else cpuMem w x),
     gpuMem := (\<lambda>x. if touches p n x then g x else gpuMem w x),
     prot := (\<lambda>x. if touches p n x then protReadWrite else prot w x),
     svmAllocs := (svmAllocs w)(um := (svmAllocs w um)(p \<mapsto> \<lparr>svmZeroCopy = False, svmCpuBase = p, svmDataSize = n\<rparr>))\<rparr>"

inductive pfStep :: "'v Surroundings \<Rightarrow> 'v MemorySync \<Rightarrow> 'v pfState \<times> 'v contents \<Rightarrow> 'v pfState \<times> 'v contents \<Rightarrow> bool"
  for env :: "'v Surroundings" and sync :: "'v MemorySync" where
  created: "placed p n \<Longrightarrow> (\<And>q e. findData q m = Some e \<Longrightarrow> pagesApart p n q (pfSize e)) \<Longrightarrow> contextManager env cmdQ = um \<Longrightarrow>
    insertAllocation env p n um cmdQ flags (m, allocated um p n c g w) = Inr st' \<Longrightarrow>
    pfStep env sync ((m, w), L) (st', \<lambda>x. if inRange p n x then None else L x)"
| freed: "findData p m = Some d \<Longrightarrow> freeSharedAllocation env (pfUnifiedMemoryManager d) p (m, w) = Inr st' \<Longrightarrow>
    pfStep env sync ((m, w), L) (st', L)"
| moved: "moveAllocationToGpuDomain env sync p (m, w) = Inr st' \<Longrightarrow> pfStep env sync ((m, w), L) (st', L)"
| movedAll: "moveAllocationsWithinUMAllocsManagerToGpuDomain env sync um (m, w) = Inr st' \<Longrightarrow>
    pfStep env sync ((m, w), L) (st', L)"
| cpuRead: "findData p m = Some d \<Longrightarrow> inRange p (pfSize d) x \<Longrightarrow> cpuTouch env sync x (m, w) = Inr (True, st') \<Longrightarrow>
    pfStep env sync ((m, w), L) (st', L)"
| cpuWrite: "findData p m = Some d \<Longrightarrow> inRange p (pfSize d) x \<Longrightarrow> cpuTouch env sync x (m, w) = Inr (True, (m', w')) \<Longrightarrow>
    pfStep env sync ((m, w), L) ((m', w'\<lparr>cpuMem := (cpuMem w')(x := v)\<rparr>), L(x \<mapsto> v))"
| gpuWrite: "findData p m = Some d \<Longrightarrow> inRange p (pfSize d) x \<Longrightarrow> pfDomain d = domGpu \<Longrightarrow>
    pfStep env sync ((m, w), L) ((m, w\<lparr>gpuMem := (gpuMem w)(x := v)\<rparr>), L(x \<mapsto> v))"

definition pfInv ::
  "(u64 \<Rightarrow> PageFaultData \<Rightarrow> 'v World \<Rightarrow> bool) \<Rightarrow> 'v Surroundings \<Rightarrow> 'v pfState \<Rightarrow> 'v contents \<Rightarrow> bool" where
  "pfInv link env st latest \<longleftrightarrow> pfCore link env st latest \<and> pfLists (fst st) \<and>
     gpuDomainHandler (fst st) \<noteq> transferAndUnprotectWithHints"

lemma pfInvD:
  assumes "pfInv link env (m, w) L"
  shows "pfCore link env (m, w) L" "pfLists m" "gpuDomainHandler m \<noteq> transferAndUnprotectWithHints"
  using assms by (simp_all add: pfInv_def)

lemma placed_range: "placed p n \<Longrightarrow> p \<le> x \<and> x < p + n \<longleftrightarrow> inRange p n x"
  by (simp add: placed_def inRange_def word_nat unat_add_nowrap)

lemma getFaultData_hit:
  assumes "(p, d) \<in> set es" "\<forall>(q, e) \<in> set es. placed q (pfSize e) \<and> (inRange q (pfSize e) x \<longrightarrow> q = p)" "inRange p (pfSize d) x"
  shows "getFaultData pfSize es x = p"
  using assms by (induction es) (auto simp: placed_range)

lemma find_member: "distinct (map fst (memoryData m)) \<Longrightarrow> findData p m = Some d \<longleftrightarrow> (p, d) \<in> set (memoryData m)"
  by (simp add: findData_def)

lemma setDomain_same:
  assumes "distinct (map fst (memoryData m))" "findData p m = Some d" "pfDomain d = a"
  shows "setDomain a p m = m"
proof -
  have "map (\<lambda>(q, e). (q, if q = p then e\<lparr>pfDomain := a\<rparr> else e)) (memoryData m) = memoryData m"
  proof (rule map_idI)
    fix qe assume mem: "qe \<in> set (memoryData m)"
    obtain q e where qe: "qe = (q, e)" by (cases qe)
    have "findData q m = Some e" using mem by (simp add: qe find_member [OF assms(1)])
    then have "q = p \<Longrightarrow> pfDomain e = a" using assms(2,3) by simp
    then show "(case qe of (q, e) \<Rightarrow> (q, if q = p then e\<lparr>pfDomain := a\<rparr> else e)) = qe" by (simp add: qe)
  qed
  then show ?thesis by (simp add: setDomain_def)
qed

lemma apart_self: "placed p n \<Longrightarrow> \<not> pagesApart p n p k" if "k \<noteq> 0" for p n k :: u64
proof -
  assume "placed p n"
  then have "inRange p n p" "inRange p k p" using that by (auto simp: placed_def inRange_def unat_gt_0)
  then show ?thesis using inRange_touches by (auto simp: pagesApart_def)
qed

lemma apart_ranges: "pagesApart p n q k \<Longrightarrow> inRange p n x \<Longrightarrow> \<not> inRange q k x"
  using inRange_touches by (auto simp: pagesApart_def)

lemma apart_sym: "pagesApart p n q k \<Longrightarrow> pagesApart q k p n"
  by (auto simp: pagesApart_def)

section \<open>The lists of allocations outside the GPU domain\<close>

lemma lists_erase:
  assumes "pfLists m" "findData p m = Some d"
  shows "pfLists (eraseNonGpu (pfUnifiedMemoryManager d) p (setDomain domGpu p m))"
    "pfLists (eraseData p (if pfDomain d = domGpu then m else eraseNonGpu (pfUnifiedMemoryManager d) p m))"
  using assms by (auto simp: pfLists_def findData_setDomain findData_erase split: if_splits)

lemma lists_faulted: "pfLists m \<Longrightarrow> findData p m = Some d \<Longrightarrow> pfLists (faulted p d m)"
  by (auto simp: pfLists_def faulted_def findData_setDomain)

lemma lists_insert:
  assumes "pfLists m" "findData p m = None" "pfDomain d \<noteq> domGpu"
  shows "pfLists (pushNonGpu (pfUnifiedMemoryManager d) p (insertData p d m))"
  using assms by (auto simp: pfLists_def findData_insert)

context memory_sync
begin

lemma core_insert:
  assumes core: "pfCore link env (m, w) L" and p: "findData p m = None" and loc: "localTo p d w w'"
    and ok: "entryOk link env p d w' L'" and ap: "\<And>q e. findData q m = Some e \<Longrightarrow> pagesApart p (pfSize d) q (pfSize e)"
    and L: "\<And>x. \<not> inRange p (pfSize d) x \<Longrightarrow> L' x = L x"
  shows "pfCore link env (insertData p d m, w') L'"
proof -
  have ne: "q \<noteq> p" if "findData q m = Some e" for q e using that p by auto
  have "entryOk link env q e w' L'" if e: "findData q m = Some e" for q e
    by (rule entry_frame [OF core_entry [OF core e] loc ap [OF e]])
      (use ne [OF e] L apart_ranges [OF apart_sym [OF ap [OF e]]] in auto)
  then have "\<forall>q e. findData q (insertData p d m) = Some e \<longrightarrow> entryOk link env q e w' L'"
    using ok p by (auto simp: findData_insert)
  moreover have "distinct (map fst (memoryData (insertData p d m)))"
    using core p by (auto simp: pfCore_def insertData_def findData_def map_of_eq_None_iff)
  moreover have "\<exists>e. findData q (insertData p d m) = Some e \<and> pfUnifiedMemoryManager e = um"
    if op: "svmMapOperations w' um q \<noteq> None" for um q
  proof (cases "um = pfUnifiedMemoryManager d \<and> q = p")
    case False
    then have "svmMapOperations w um q \<noteq> None" using loc op by (auto simp: localTo_def)
    then obtain e where "findData q m = Some e" "pfUnifiedMemoryManager e = um"
      using core unfolding pfCore_def fst_conv snd_conv by blast
    then show ?thesis using p by (auto simp: findData_insert)
  qed (use p in \<open>auto simp: findData_insert\<close>)
  moreover have "\<forall>q e r f. findData q (insertData p d m) = Some e \<longrightarrow> findData r (insertData p d m) = Some f \<longrightarrow> q \<noteq> r \<longrightarrow>
      pagesApart q (pfSize e) r (pfSize f)"
    using core p ap apart_sym [OF ap] unfolding findData_insert pfCore_def fst_conv snd_conv by auto
  ultimately show ?thesis by (simp add: pfCore_def)
qed

lemma core_erase:
  assumes core: "pfCore link env (m, w) L" and d: "findData p m = Some d" and loc: "localTo p d w w'"
    and op: "svmMapOperations w' (pfUnifiedMemoryManager d) p = None"
  shows "pfCore link env (eraseData p m, w') L"
proof -
  have "entryOk link env q e w' L" if "findData q m = Some e" "q \<noteq> p" for q e
    by (rule entry_frame [OF core_entry [OF core that(1)] loc])
      (use core d that in \<open>auto simp: pfCore_def\<close>)
  moreover have "\<exists>e. findData q (eraseData p m) = Some e \<and> pfUnifiedMemoryManager e = um"
    if o: "svmMapOperations w' um q \<noteq> None" for um q
  proof -
    have ne: "um \<noteq> pfUnifiedMemoryManager d \<or> q \<noteq> p" using o op by auto
    then have "svmMapOperations w um q \<noteq> None" using loc o by (auto simp: localTo_def)
    then obtain e where "findData q m = Some e" "pfUnifiedMemoryManager e = um"
      using core unfolding pfCore_def fst_conv snd_conv by blast
    then show ?thesis using ne d by (auto simp: findData_erase)
  qed
  ultimately show ?thesis using core
    by (auto simp: pfCore_def findData_erase distinct_map_filter)
qed

lemma fault_entry:
  assumes core: "pfCore link env (m, w) L" and d: "findData p m = Some d" and x: "inRange p (pfSize d) x"
  shows "getFaultData pfSize (memoryData m) x = p"
proof (rule getFaultData_hit [OF _ _ x])
  have dist: "distinct (map fst (memoryData m))" using core by (simp add: pfCore_def)
  show "(p, d) \<in> set (memoryData m)" using d by (simp add: find_member [OF dist])
  show "\<forall>(q, e) \<in> set (memoryData m). placed q (pfSize e) \<and> (inRange q (pfSize e) x \<longrightarrow> q = p)"
  proof clarify
    fix q e assume "(q, e) \<in> set (memoryData m)"
    then have e: "findData q m = Some e" by (simp add: find_member [OF dist])
    have "placed q (pfSize e)" using core_entry [OF core e] by (simp add: entryOk_def)
    moreover have "q = p" if "inRange q (pfSize e) x"
      using core d e x that apart_ranges unfolding pfCore_def fst_conv by blast
    ultimately show "placed q (pfSize e) \<and> (inRange q (pfSize e) x \<longrightarrow> q = p)" by blast
  qed
qed

lemma touch_outcome:
  assumes env: "faithful env" and inv: "pfInv link env (m, w) L" and d: "findData p m = Some d" and x: "inRange p (pfSize d) x"
    and t: "cpuTouch env sync x (m, w) = Inr (b, st')"
  shows "b \<and> pfInv link env st' L \<and> findData p (fst st') = Some (d\<lparr>pfDomain := domCpu\<rparr>)"
proof (cases "prot w x = protReadWrite")
  case True
  moreover have "current (pfDomain d) w L x"
    using core_entry [OF pfInvD(1) [OF inv] d] x by (simp add: entryOk_def)
  ultimately have "pfDomain d = domCpu" by (simp add: current_def split: AllocationDomain.splits)
  then show ?thesis using True t inv d by (auto simp: cpuTouch_def)
next
  case False
  note core = pfInvD(1) [OF inv]
  have hit: "getFaultData pfSize (memoryData m) x = p" by (rule fault_entry [OF core d x])
  have "p \<noteq> 0" using core_entry [OF core d] by (simp add: entryOk_def placed_def)
  then have b: "b" and h: "handlePageFault env sync p (m, w) = Inr st'"
    using t False hit d by (auto simp: cpuTouch_def verifyAndHandlePageFault_def Let_def map_sum_Inr)
  obtain w' where st': "st' = (faulted p d m, w')" and c: "pfCore link env st' L"
    using fault_outcome [OF env core d pfInvD(3) [OF inv] h] by blast
  show ?thesis using b c lists_faulted [OF pfInvD(2) [OF inv] d] pfInvD(3) [OF inv]
    by (simp add: pfInv_def st' findData_faulted [OF d])
qed

end

context memory_sync
begin

lemma touch_returns:
  assumes env: "faithful env" "succeeds env" and inv: "pfInv link env (m, w) L" and d: "findData p m = Some d"
    and x: "inRange p (pfSize d) x"
  shows "returns (cpuTouch env sync x (m, w))"
proof (cases "prot w x = protReadWrite \<or> getFaultData pfSize (memoryData m) x = 0")
  case True
  then show ?thesis by (auto simp: cpuTouch_def verifyAndHandlePageFault_def)
next
  case False
  note core = pfInvD(1) [OF inv]
  have hit: "getFaultData pfSize (memoryData m) x = p" by (rule fault_entry [OF core d x])
  obtain st' where "handlePageFault env sync p (m, w) = Inr st'"
    by (rule returnsE [OF fault_returns [OF env core_entry [OF core d] d pfInvD(3) [OF inv]]])
  then show ?thesis using False hit d by (simp add: cpuTouch_def verifyAndHandlePageFault_def)
qed

lemma write_core:
  assumes core: "pfCore link env (m, w) L" and d: "findData p m = Some d" and x: "inRange p (pfSize d) x"
    and w': "w' = (if pfDomain d = domCpu then w\<lparr>cpuMem := (cpuMem w)(x := v)\<rparr> else w\<lparr>gpuMem := (gpuMem w)(x := v)\<rparr>)"
    and a: "pfDomain d \<noteq> domNone"
  shows "pfCore link env (m, w') (L(x \<mapsto> v))"
proof -
  have ok: "entryOk link env p d w L" by (rule core_entry [OF core d])
  have "localTo p d w w'" using inRange_touches [OF x] by (auto simp: localTo_def w')
  moreover have "link p d w' = link p d w" by (rule link_frame) (simp add: w')
  then have "entryOk link env p (d\<lparr>pfDomain := pfDomain d\<rparr>) w' (L(x \<mapsto> v))"
    using ok a by (cases "pfDomain d") (auto simp: entryOk_def backed_def current_def holds_def w')
  ultimately have "pfCore link env (setDomain (pfDomain d) p m, w') (L(x \<mapsto> v))"
    by (rule core_update [OF core d]) (use x in auto)
  then show ?thesis using setDomain_same [OF _ d refl] core by (simp add: pfCore_def)
qed

lemma free_inv:
  assumes env: "faithful env" and inv: "pfInv link env (m, w) L" and d: "findData p m = Some d"
    and f: "freeSharedAllocation env (pfUnifiedMemoryManager d) p (m, w) = Inr st'"
  shows "pfInv link env st' L"
proof -
  let ?um = "pfUnifiedMemoryManager d"
  let ?m = "if pfDomain d = domGpu then m else eraseNonGpu ?um p m"
  obtain st1 where r: "removeAllocation env p (m, w) = Inr st1"
    and st': "st' = (fst st1, let w = (snd st1)\<lparr>svmAllocs := (svmAllocs (snd st1))(?um := (svmAllocs (snd st1) ?um)(p := None))\<rparr>
        in if svmMapOperations w ?um p \<noteq> None then removeSvmMapOperation ?um p w else w)"
    using f unfolding freeSharedAllocation_def by (auto simp: Let_def elim!: andThen_InrE)
  have "\<exists>w1. st1 = (eraseData p ?m, w1) \<and> localTo p d w w1"
  proof (cases "pfDomain d = domGpu")
    case True
    then show ?thesis using r d localTo_prot
      by (auto simp: removeAllocation_def elim!: andThen_InrE dest!: allow_outcome [OF env])
  next
    case False
    then show ?thesis using r d localTo_refl by (auto simp: removeAllocation_def)
  qed
  then obtain w1 where st1: "st1 = (eraseData p ?m, w1)" and loc: "localTo p d w w1" by blast
  have "localTo p d w1 (snd st') \<and> svmMapOperations (snd st') ?um p = None"
    by (simp add: st' st1 Let_def localTo_def ops_lookup)
  then have "pfCore link env (eraseData p ?m, snd st') L"
    using core_erase [of env ?m w L p d "snd st'"] pfInvD(1) [OF inv] d localTo_trans [OF loc] by auto
  then show ?thesis using lists_erase(2) [OF pfInvD(2) [OF inv] d] pfInvD(3) [OF inv]
    by (simp add: pfInv_def st' st1)
qed

lemma create_inv:
  assumes env: "faithful env" and inv: "pfInv link env (m, w) L" and pl: "placed p n"
    and ap: "\<And>q e. findData q m = Some e \<Longrightarrow> pagesApart p n q (pfSize e)" and um: "contextManager env cmdQ = um"
    and ins: "insertAllocation env p n um cmdQ flags (m, allocated um p n c g w) = Inr st'"
  shows "pfInv link env st' (\<lambda>x. if inRange p n x then None else L x)"
proof -
  note core = pfInvD(1) [OF inv]
  have p: "findData p m = None"
  proof (rule ccontr)
    assume "findData p m \<noteq> None"
    then obtain e where e: "findData p m = Some e" by blast
    then have "pfSize e \<noteq> 0" using core_entry [OF core e] by (simp add: entryOk_def placed_def)
    then show False using apart_self [OF _ pl] ap [OF e] by blast
  qed
  let ?cpu = "getUSMInitialPlacement (usmInitialPlacementFlag env) flags = placeCpu"
  let ?d = "\<lparr>pfDomain = if ?cpu then domCpu else domNone, pfSize = n, pfUnifiedMemoryManager = um, pfCmdQ = cmdQ\<rparr>"
  let ?w = "allocated um p n c g w"
  let ?m = "pushNonGpu um p (insertData p ?d m)"
  have "\<exists>w1. st' = (?m, w1) \<and> w1 = ?w\<lparr>prot := prot w1\<rparr> \<and>
      (\<forall>x. prot w1 x = (if touches p n x then if ?cpu then protReadWrite else protNone else prot w x))"
  proof (cases ?cpu)
    case True
    then show ?thesis using ins by (auto simp: insertAllocation_def allocated_def)
  next
    case False
    then have "st' = (?m, ?w\<lparr>prot := (\<lambda>x. if touches p n x then protNone else prot ?w x)\<rparr>)"
      using ins protect_outcome [OF env, of p n ?m ?w st'] by (simp add: insertAllocation_def)
    then show ?thesis using False by (auto simp: allocated_def)
  qed
  then obtain w1 where st': "st' = (?m, w1)" and w1: "w1 = ?w\<lparr>prot := prot w1\<rparr>"
    "\<And>x. prot w1 x = (if touches p n x then if ?cpu then protReadWrite else protNone else prot w x)" by blast
  have ops: "svmMapOperations w um p = None" using core p unfolding pfCore_def by fastforce
  have f: "cpuMem w1 = cpuMem ?w" "gpuMem w1 = gpuMem ?w" "svmAllocs w1 = svmAllocs ?w" "svmMapOperations w1 = svmMapOperations w"
    by (subst w1(1), simp add: allocated_def)+
  have "localTo p ?d w w1" using w1(2) by (auto simp: localTo_def f allocated_def)
  moreover have "link p ?d w1" by (rule link_fresh) (simp add: f ops)
  then have "entryOk link env p ?d w1 (\<lambda>x. if inRange p n x then None else L x)"
    using pl um w1(2) by (auto simp: entryOk_def backed_def f allocated_def current_def holds_def inRange_touches)
  ultimately have "pfCore link env (insertData p ?d m, w1) (\<lambda>x. if inRange p n x then None else L x)"
    by (rule core_insert [OF core p]) (use ap in auto)
  then show ?thesis using lists_insert [OF pfInvD(2) [OF inv] p, of ?d] pfInvD(3) [OF inv] by (simp add: pfInv_def st')
qed

lemma move_inv:
  assumes env: "faithful env" and inv: "pfInv link env (m, w) L" and mv: "moveAllocationToGpuDomain env sync p (m, w) = Inr st'"
  shows "pfInv link env st' L"
proof (cases "findData p m")
  case None
  then show ?thesis using mv inv by (simp add: moveAllocationToGpuDomain_def)
next
  case (Some d)
  show ?thesis
  proof (cases "pfDomain d = domGpu")
    case True
    then show ?thesis using mv inv Some by (simp add: moveAllocationToGpuDomain_def)
  next
    case False
    then have "pfDomain d = domCpu \<or> pfDomain d = domNone" by (cases "pfDomain d") auto
    then obtain st1 where mig: "migrateStorageToGpuDomain env sync p (m, w) = Inr st1"
      and st': "st' = (eraseNonGpu (pfUnifiedMemoryManager d) p (fst st1), snd st1)"
      using mv Some by (auto simp: moveAllocationToGpuDomain_def elim!: andThen_InrE)
    obtain w1 where st1: "st1 = (setDomain domGpu p m, w1)" and c: "pfCore link env (setDomain domGpu p m, w1) L"
      using migrate_gpu [OF env pfInvD(1) [OF inv] Some mig] by blast
    show ?thesis using c lists_erase(1) [OF pfInvD(2) [OF inv] Some] pfInvD(3) [OF inv]
      by (simp add: pfInv_def st' st1)
  qed
qed

lemma listed_found: "pfLists m \<Longrightarrow> \<forall>p \<in> set (nonGpuDomainAllocs m um). findData p m \<noteq> None"
  by (auto simp: pfLists_def)

lemma moveAll_inv:
  assumes env: "faithful env" and inv: "pfInv link env (m, w) L"
    and mv: "moveAllocationsWithinUMAllocsManagerToGpuDomain env sync um (m, w) = Inr st'"
  shows "pfInv link env st' L \<and>
    (\<forall>p d. findData p m = Some d \<longrightarrow> pfUnifiedMemoryManager d = um \<longrightarrow> findData p (fst st') = Some (d\<lparr>pfDomain := domGpu\<rparr>))"
proof -
  obtain st1 where mig: "moveAll env sync (nonGpuDomainAllocs m um) (m, w) = Inr st1"
    and st': "st' = ((fst st1)\<lparr>nonGpuDomainAllocs := (nonGpuDomainAllocs (fst st1))(um := [])\<rparr>, snd st1)"
    using mv by (auto simp: moveAllocationsWithinUMAllocsManagerToGpuDomain_def elim!: andThen_InrE)
  note lists = pfInvD(2) [OF inv]
  note o = moveAll_outcome [OF env pfInvD(1) [OF inv] listed_found [OF lists] mig]
  have listed: "q \<in> set (nonGpuDomainAllocs m um) \<longleftrightarrow>
      (\<exists>d. findData q m = Some d \<and> pfUnifiedMemoryManager d = um \<and> pfDomain d \<noteq> domGpu)" for q
    using lists by (auto simp: pfLists_def)
  have "pfCore link env st' L" using o by (simp add: st')
  moreover have "pfLists (fst st')"
    using o lists listed by (auto simp: pfLists_def st' split: if_splits)
  moreover have "findData p (fst st') = Some (d\<lparr>pfDomain := domGpu\<rparr>)"
    if "findData p m = Some d" "pfUnifiedMemoryManager d = um" for p d
    using o that listed [of p] by (auto simp: st')
  ultimately show ?thesis using o pfInvD(3) [OF inv] by (simp add: pfInv_def st')
qed

end

inductive_cases pfStepE: "pfStep env sync ((m, w), L) s'"

context memory_sync
begin

lemma step_inv:
  assumes env: "faithful env" and step: "pfStep env sync ((m, w), L) s'" and inv: "pfInv link env (m, w) L"
  shows "pfInv link env (fst s') (snd s')"
  using step
proof (rule pfStepE)
  fix p n q flags c g st'
  assume "s' = (st', \<lambda>x. if inRange p n x then None else L x)" "placed p n"
    and "\<And>q e. findData q m = Some e \<Longrightarrow> pagesApart p n q (pfSize e)"
    and "insertAllocation env p n (contextManager env q) q flags (m, allocated (contextManager env q) p n c g w) = Inr st'"
  then show ?thesis using create_inv [OF env inv] by simp
next
  fix p d st'
  assume "s' = (st', L)" "findData p m = Some d" "freeSharedAllocation env (pfUnifiedMemoryManager d) p (m, w) = Inr st'"
  then show ?thesis using free_inv [OF env inv] by simp
next
  fix p st'
  assume "s' = (st', L)" "moveAllocationToGpuDomain env sync p (m, w) = Inr st'"
  then show ?thesis using move_inv [OF env inv] by simp
next
  fix um st'
  assume "s' = (st', L)" "moveAllocationsWithinUMAllocsManagerToGpuDomain env sync um (m, w) = Inr st'"
  then show ?thesis using moveAll_inv [OF env inv] by simp
next
  fix p d x st'
  assume "s' = (st', L)" "findData p m = Some d" "inRange p (pfSize d) x" "cpuTouch env sync x (m, w) = Inr (True, st')"
  then show ?thesis using touch_outcome [OF env inv] by simp
next
  fix p d x m' w' v
  assume s': "s' = ((m', w'\<lparr>cpuMem := (cpuMem w')(x := v)\<rparr>), L(x \<mapsto> v))"
    and a: "findData p m = Some d" "inRange p (pfSize d) x" "cpuTouch env sync x (m, w) = Inr (True, (m', w'))"
  have t: "pfInv link env (m', w') L" "findData p m' = Some (d\<lparr>pfDomain := domCpu\<rparr>)"
    using touch_outcome [OF env inv a] by simp_all
  have "pfCore link env (m', w'\<lparr>cpuMem := (cpuMem w')(x := v)\<rparr>) (L(x \<mapsto> v))"
    by (rule write_core [OF pfInvD(1) [OF t(1)] t(2)]) (use a(2) in simp_all)
  then show ?thesis using t(1) s' by (simp add: pfInv_def)
next
  fix p d x v
  assume s': "s' = ((m, w\<lparr>gpuMem := (gpuMem w)(x := v)\<rparr>), L(x \<mapsto> v))"
    and a: "findData p m = Some d" "inRange p (pfSize d) x" "pfDomain d = domGpu"
  have "pfCore link env (m, w\<lparr>gpuMem := (gpuMem w)(x := v)\<rparr>) (L(x \<mapsto> v))"
    by (rule write_core [OF pfInvD(1) [OF inv] a(1,2)]) (use a(3) in simp_all)
  then show ?thesis using inv s' by (simp add: pfInv_def)
qed

lemma start_inv:
  assumes "svmMapOperations w = (\<lambda>_ _. None)"
  shows "pfInv link env (selectGpuDomainHandler a b newCpuPageFaultManager, w) L"
  using assms
  by (auto simp: pfInv_def pfCore_def pfLists_def selectGpuDomainHandler_def newCpuPageFaultManager_def findData_def)

lemma reach_inv:
  assumes env: "faithful env" and ops: "svmMapOperations w0 = (\<lambda>_ _. None)"
    and reach: "(pfStep env sync)\<^sup>*\<^sup>* ((selectGpuDomainHandler a b newCpuPageFaultManager, w0), L0) s"
  shows "pfInv link env (fst s) (snd s)"
  using reach
proof (induction rule: rtranclp_induct)
  case base
  then show ?case using start_inv [OF ops] by simp
next
  case (step s s')
  then show ?case using step_inv [OF env, of "fst (fst s)" "snd (fst s)" "snd s" s'] by simp
qed

lemma coherent:
  assumes env: "faithful env" "succeeds env" and inv: "pfInv link env (m, w) L" and d: "findData p m = Some d"
    and x: "inRange p (pfSize d) x" and v: "L x = Some v"
  shows "(\<exists>st'. cpuTouch env sync x (m, w) = Inr (True, st') \<and> prot (snd st') x = protReadWrite \<and> cpuMem (snd st') x = v) \<and>
    (\<exists>st'. moveAllocationsWithinUMAllocsManagerToGpuDomain env sync (pfUnifiedMemoryManager d) (m, w) = Inr st' \<and>
       prot (snd st') x = protNone \<and> gpuMem (snd st') x = v)"
proof (intro conjI)
  obtain r where r: "cpuTouch env sync x (m, w) = Inr r" by (rule returnsE [OF touch_returns [OF env inv d x]])
  obtain b m' w' where bw: "r = (b, (m', w'))" by (metis prod.collapse)
  have t: "b" "pfInv link env (m', w') L" "findData p m' = Some (d\<lparr>pfDomain := domCpu\<rparr>)"
    using touch_outcome [OF env(1) inv d x r [unfolded bw]] by simp_all
  have "current domCpu w' L x" using core_entry [OF pfInvD(1) [OF t(2)] t(3)] x by (simp add: entryOk_def)
  then have "prot w' x = protReadWrite \<and> cpuMem w' x = v" using v by (simp add: current_def holds_def)
  then show "\<exists>st'. cpuTouch env sync x (m, w) = Inr (True, st') \<and> prot (snd st') x = protReadWrite \<and> cpuMem (snd st') x = v"
    using r bw t(1) by (intro exI [of _ "(m', w')"]) simp
next
  obtain st1 where "moveAll env sync (nonGpuDomainAllocs m (pfUnifiedMemoryManager d)) (m, w) = Inr st1"
    by (rule returnsE [OF moveAll_returns [OF env pfInvD(1) [OF inv] listed_found [OF pfInvD(2) [OF inv]]]])
  then obtain m' w' where mv:
      "moveAllocationsWithinUMAllocsManagerToGpuDomain env sync (pfUnifiedMemoryManager d) (m, w) = Inr (m', w')"
    by (simp add: moveAllocationsWithinUMAllocsManagerToGpuDomain_def)
  have t: "pfInv link env (m', w') L" "findData p m' = Some (d\<lparr>pfDomain := domGpu\<rparr>)"
    using moveAll_inv [OF env(1) inv mv] d by simp_all
  have "current domGpu w' L x" using core_entry [OF pfInvD(1) [OF t(1)] t(2)] x by (simp add: entryOk_def)
  then have "prot w' x = protNone \<and> gpuMem w' x = v" using v by (simp add: current_def holds_def)
  then show "\<exists>st'. moveAllocationsWithinUMAllocsManagerToGpuDomain env sync (pfUnifiedMemoryManager d) (m, w) = Inr st' \<and>
       prot (snd st') x = protNone \<and> gpuMem (snd st') x = v"
    using mv by (intro exI [of _ "(m', w')"]) simp
qed

lemma accessible:
  assumes "pfInv link env (m, w) L" "findData p m = Some d" "inRange p (pfSize d) x"
  shows "prot w x = protReadWrite \<longleftrightarrow> pfDomain d = domCpu"
proof -
  have "current (pfDomain d) w L x"
    using core_entry [OF pfInvD(1) [OF assms(1)] assms(2)] assms(3) by (simp add: entryOk_def)
  then show ?thesis by (cases "pfDomain d") (simp_all add: current_def)
qed

end

definition pageFaultStart :: "int \<Rightarrow> bool \<Rightarrow> 'v World \<Rightarrow> 'v pfState \<times> 'v contents" where
  "pageFaultStart setCsr cal w = ((selectGpuDomainHandler setCsr cal newCpuPageFaultManager, w), \<lambda>_. None)"

lemma started_inv:
  assumes "faithful env" "svmMapOperations w0 = (\<lambda>_ _. None)" "sync = clMemorySync \<or> sync = l0MemorySync"
    and "(pfStep env sync)\<^sup>*\<^sup>* (pageFaultStart setCsr cal w0) ((m, w), L)"
  shows "sync = clMemorySync \<and> pfInv clLink env (m, w) L \<or> sync = l0MemorySync \<and> pfInv (\<lambda>_ _ _. True) env (m, w) L"
proof (cases "sync = clMemorySync")
  case True
  then show ?thesis using cl.reach_inv [OF assms(1,2)] assms(4) unfolding pageFaultStart_def by fastforce
next
  case False
  then have l: "sync = l0MemorySync" using assms(3) by blast
  show ?thesis using l0.reach_inv [OF assms(1,2)] assms(4) unfolding pageFaultStart_def l by fastforce
qed

section \<open>Properties\<close>

text \<open>
  A sample: memory of natural numbers, calls that succeed, queue 5 of a context with SVM manager 9.
\<close>

definition sampleSurroundings :: "nat Surroundings" where
  "sampleSurroundings = \<lparr>
     mprotect = (\<lambda>p n r w. (0, w\<lparr>prot := (\<lambda>x. if touches p n x then r else prot w x)\<rparr>)),
     contextManager = (\<lambda>_. 9), enqueueMarker = (\<lambda>q w. (0, w)),
     enqueueCopy = (\<lambda>q toCpu p n w. (0, copied toCpu p n w)), finishQueue = (\<lambda>q w. (0, w)),
     appendPageFaultCopy = (\<lambda>q toCpu p n f w. (0, copied toCpu p n w)),
     evictMemoryAfterCopy = False, registerPageFaultHandlerOnMigration = False,
     faultHandlerInstalled = (\<lambda>_. True), usmInitialPlacementFlag = - 1\<rparr>"

definition sampleWorld :: "nat World" where
  "sampleWorld = \<lparr>cpuMem = (\<lambda>_. 0), gpuMem = (\<lambda>_. 0), prot = (\<lambda>_. protNone), svmAllocs = (\<lambda>_ _. None),
     svmMapOperations = (\<lambda>_ _. None), memAdviseSharedAllocations = (\<lambda>_ _. None), sideEffects = []\<rparr>"

lemma sample_laws: "faithful sampleSurroundings" "succeeds sampleSurroundings"
  by (simp_all add: faithful_def succeeds_def sampleSurroundings_def)

definition sampleData :: PageFaultData where
  "sampleData = \<lparr>pfDomain = domCpu, pfSize = 64, pfUnifiedMemoryManager = 9, pfCmdQ = 5\<rparr>"

definition sampleManager :: CpuPageFaultManager where
  "sampleManager = pushNonGpu 9 0x1000 (insertData 0x1000 sampleData newCpuPageFaultManager)"

definition sampleAllocated :: "nat World" where
  "sampleAllocated = allocated 9 0x1000 64 (\<lambda>_. 3) (\<lambda>_. 4) sampleWorld"

lemma sample_found: "findData 0x1000 sampleManager = Some sampleData"
  by (simp add: sampleManager_def findData_insert newCpuPageFaultManager_def) (simp add: findData_def)

lemma sample_in_range: "inRange 0x1000 64 0x1010" "touches 0x1000 64 0x1010"
  by (simp_all add: inRange_def touches_def)

lemma sample_history:
  "(pfStep sampleSurroundings clMemorySync)\<^sup>*\<^sup>* (pageFaultStart 0 False sampleWorld)
     ((sampleManager, sampleAllocated\<lparr>cpuMem := (cpuMem sampleAllocated)(0x1010 := 7)\<rparr>),
      (\<lambda>x. if inRange 0x1000 64 x then None else None)(0x1010 \<mapsto> 7))"
proof -
  have start: "pageFaultStart 0 False sampleWorld = ((newCpuPageFaultManager, sampleWorld), \<lambda>_. None)"
    by (simp add: pageFaultStart_def selectGpuDomainHandler_def)
  have "insertAllocation sampleSurroundings 0x1000 64 9 5 \<lparr>usmInitialPlacementCpu = True, usmInitialPlacementGpu = False\<rparr>
      (newCpuPageFaultManager, allocated 9 0x1000 64 (\<lambda>_. 3) (\<lambda>_. 4) sampleWorld) = Inr (sampleManager, sampleAllocated)"
    by (simp add: insertAllocation_def getUSMInitialPlacement_def sampleSurroundings_def sampleManager_def sampleData_def sampleAllocated_def)
  then have s1: "pfStep sampleSurroundings clMemorySync (pageFaultStart 0 False sampleWorld)
      ((sampleManager, sampleAllocated), \<lambda>x. if inRange 0x1000 64 x then None else None)"
    unfolding start by (rule pfStep.created [rotated -1])
      (simp_all add: placed_def findData_def newCpuPageFaultManager_def sampleSurroundings_def)
  have "cpuTouch sampleSurroundings clMemorySync 0x1010 (sampleManager, sampleAllocated) = Inr (True, (sampleManager, sampleAllocated))"
    by (simp add: cpuTouch_def sampleAllocated_def allocated_def sample_in_range)
  then have "pfStep sampleSurroundings clMemorySync ((sampleManager, sampleAllocated), \<lambda>x. if inRange 0x1000 64 x then None else None)
      ((sampleManager, sampleAllocated\<lparr>cpuMem := (cpuMem sampleAllocated)(0x1010 := 7)\<rparr>),
       (\<lambda>x. if inRange 0x1000 64 x then None else None)(0x1010 \<mapsto> 7))"
    by (intro pfStep.cpuWrite [OF sample_found]) (simp_all add: sampleData_def sample_in_range)
  with s1 show ?thesis by (rule rtranclp.rtrancl_into_rtrancl [OF r_into_rtranclp])
qed

text \<open>
  C11: shared allocations behave like one memory. After any history of creating and freeing
  allocations, moving them to the GPU, CPU accesses, and GPU writes to allocations of the GPU domain, a CPU access of a tracked address
  is made accessible and sees the value last written by either side; moving the allocations of the
  manager to the GPU protects the address again and the GPU sees that value. Both hold for the OpenCL
  and for the Level Zero transfers, when the calls they use succeed. The OpenCL transfers map and unmap the
  allocation themselves (\<open>enqueueSVMMap\<close>, \<open>enqueueSVMUnmap\<close>); maps by the application and memory advice
  are not part of the histories.
\<close>

theorem shared_allocations_coherent:
  assumes "faithful env" "succeeds env" "sync = clMemorySync \<or> sync = l0MemorySync"
    and "svmMapOperations w0 = (\<lambda>_ _. None)"
    and "(pfStep env sync)\<^sup>*\<^sup>* (pageFaultStart setCsr cal w0) ((m, w), L)"
    and "findData p m = Some d" "inRange p (pfSize d) x" "L x = Some v"
  shows "(\<exists>st'. cpuTouch env sync x (m, w) = Inr (True, st') \<and> prot (snd st') x = protReadWrite \<and> cpuMem (snd st') x = v) \<and>
    (\<exists>st'. moveAllocationsWithinUMAllocsManagerToGpuDomain env sync (pfUnifiedMemoryManager d) (m, w) = Inr st' \<and>
       prot (snd st') x = protNone \<and> gpuMem (snd st') x = v)"
  using started_inv [OF assms(1,4,3,5)]
proof (elim disjE conjE)
  assume "sync = clMemorySync" "pfInv clLink env (m, w) L"
  then show ?thesis using cl.coherent [OF assms(1,2) \<open>pfInv clLink env (m, w) L\<close> assms(6-8)] by simp
next
  assume l: "sync = l0MemorySync" and inv: "pfInv (\<lambda>_ _ _. True) env (m, w) L"
  show ?thesis unfolding l by (rule l0.coherent [OF assms(1,2) inv assms(6-8)])
qed

theorem shared_allocations_coherent_witness:
  "\<exists>st'. cpuTouch sampleSurroundings clMemorySync 0x1010
     (sampleManager, sampleAllocated\<lparr>cpuMem := (cpuMem sampleAllocated)(0x1010 := 7)\<rparr>) = Inr (True, st') \<and>
     prot (snd st') 0x1010 = protReadWrite \<and> cpuMem (snd st') 0x1010 = 7"
  using shared_allocations_coherent [OF sample_laws _ _ sample_history sample_found, of "0x1010" 7]
  by (simp add: sampleWorld_def sampleData_def sample_in_range)

text \<open>
  C13: in every state that the same histories reach, those without memory advice and without maps by the application, the
  list of allocations outside the GPU domain names exactly those
  allocations, each once, and the CPU can access an allocation exactly when it is in the CPU domain.
\<close>

theorem domains_match_protection:
  assumes "faithful env" "sync = clMemorySync \<or> sync = l0MemorySync" "svmMapOperations w0 = (\<lambda>_ _. None)"
    and "(pfStep env sync)\<^sup>*\<^sup>* (pageFaultStart setCsr cal w0) ((m, w), L)"
  shows "distinct (nonGpuDomainAllocs m um) \<and>
    (\<forall>p. p \<in> set (nonGpuDomainAllocs m um) \<longleftrightarrow>
       (\<exists>d. findData p m = Some d \<and> pfUnifiedMemoryManager d = um \<and> pfDomain d \<noteq> domGpu)) \<and>
    (\<forall>p d x. findData p m = Some d \<and> inRange p (pfSize d) x \<longrightarrow> (prot w x = protReadWrite \<longleftrightarrow> pfDomain d = domCpu))"
proof -
  have "pfLists m" using started_inv [OF assms(1,3,2,4)] by (auto simp: pfInv_def)
  moreover have "prot w x = protReadWrite \<longleftrightarrow> pfDomain d = domCpu" if "findData p m = Some d" "inRange p (pfSize d) x" for p d x
    using started_inv [OF assms(1,3,2,4)] cl.accessible [OF _ that] l0.accessible [OF _ that] by blast
  ultimately show ?thesis by (auto simp: pfLists_def)
qed

theorem domains_match_protection_witness:
  "distinct (nonGpuDomainAllocs sampleManager 9) \<and> 0x1000 \<in> set (nonGpuDomainAllocs sampleManager 9)"
  using domains_match_protection [OF sample_laws(1) _ _ sample_history, of 9] sample_found
  by (auto simp: sampleWorld_def sampleData_def)

text \<open>A sample history with an allocation whose first place is the GPU.\<close>

definition gpuPlacement :: MemoryAllocFlags where
  "gpuPlacement = \<lparr>usmInitialPlacementCpu = False, usmInitialPlacementGpu = True\<rparr>"

text \<open>
  C39: an allocation placed on the GPU that neither side used is freed with its pages still protected:
  only the GPU domain is made accessible again, and the manager no longer answers the faults of the
  range.
\<close>

theorem freed_allocation_stays_protected:
  "\<exists>st1 st2.
     insertAllocation sampleSurroundings 0x1000 64 9 5 gpuPlacement (newCpuPageFaultManager, allocated 9 0x1000 64 c g w) = Inr st1 \<and>
     freeSharedAllocation sampleSurroundings 9 0x1000 st1 = Inr st2 \<and>
     prot (snd st2) 0x1010 = protNone \<and>
     verifyAndHandlePageFault sampleSurroundings sync 0x1010 True st2 = Inr (False, st2)"
proof -
  let ?m = "pushNonGpu 9 0x1000 (insertData 0x1000 (sampleData\<lparr>pfDomain := domNone\<rparr>) newCpuPageFaultManager)"
  let ?w = "(allocated 9 0x1000 64 c g w)\<lparr>prot := (\<lambda>x. if touches 0x1000 64 x then protNone else prot (allocated 9 0x1000 64 c g w) x)\<rparr>"
  have 1: "insertAllocation sampleSurroundings 0x1000 64 9 5 gpuPlacement
      (newCpuPageFaultManager, allocated 9 0x1000 64 c g w) = Inr (?m, ?w)"
    by (simp add: insertAllocation_def getUSMInitialPlacement_def gpuPlacement_def sampleSurroundings_def sampleData_def
        protectCPUMemoryAccess_def mustSucceed_def unrecoverableIf_def)
  let ?m' = "eraseData 0x1000 (eraseNonGpu 9 0x1000 ?m)"
  have found: "findData 0x1000 ?m = Some (sampleData\<lparr>pfDomain := domNone\<rparr>)"
    by (simp add: findData_insert) (simp add: findData_def newCpuPageFaultManager_def)
  then have "removeAllocation sampleSurroundings 0x1000 (?m, ?w) = Inr (?m', ?w)"
    by (simp add: removeAllocation_def sampleData_def)
  then obtain w' where 2: "freeSharedAllocation sampleSurroundings 9 0x1000 (?m, ?w) = Inr (?m', w')" "prot w' = prot ?w"
    by (auto simp: freeSharedAllocation_def Let_def)
  have "memoryData ?m' = []" by (simp add: insertData_def findData_def newCpuPageFaultManager_def)
  then have "verifyAndHandlePageFault sampleSurroundings sync 0x1010 True (?m', w') = Inr (False, (?m', w'))"
    by (simp add: verifyAndHandlePageFault_def)
  moreover have "prot w' 0x1010 = protNone" using sample_in_range by (simp add: 2(2))
  ultimately show ?thesis using 1 2(1) by (intro exI [of _ "(?m, ?w)"] exI [of _ "(?m', w')"]) simp
qed

lemma advise_outcome:
  assumes "advice = SET_READ_MOSTLY \<or> advice = SET_PREFERRED_LOCATION"
  obtains w' where "executeMemAdvise env device p n advice (m, w) = Inr (setGpuDomainHandler transferAndUnprotectWithHints m, w')"
    "memAdviseSharedAllocations w' device p =
       Some (adviseFlags advice (case memAdviseSharedAllocations w device p of Some f \<Rightarrow> f | None \<Rightarrow> newMemAdviseFlags))"
    "prot w' = prot w" "cpuMem w' = cpuMem w" "gpuMem w' = gpuMem w" "svmAllocs w' = svmAllocs w"
  using assms that by (cases rule: disjE) (auto simp: executeMemAdvise_def Let_def addEffect_def)

text \<open>The fault handler after the two pieces of advice.\<close>

lemma advised_fault:
  assumes env: "succeeds env" "faithful env" and d: "findData p m = Some d" "pfDomain d = domGpu" "p \<noteq> 0"
    and al: "svmAllocs w (pfUnifiedMemoryManager d) p \<noteq> None" and h: "gpuDomainHandler m = transferAndUnprotectWithHints"
    and f: "memAdviseSharedAllocations w (pfCmdQ d) p = Some f" "adviseReadOnly f" "devicePreferredLocation f"
    and x: "inRange p (pfSize d) x" "getFaultData pfSize (memoryData m) x = p"
  shows "\<exists>w'. cpuTouch env sync x (m, w) = Inr (True, (m, w')) \<and> prot w' x = protReadWrite \<and> cpuMem w' = cpuMem w \<and> gpuMem w' = gpuMem w"
proof (cases "prot w x = protReadWrite")
  case True
  then show ?thesis by (simp add: cpuTouch_def)
next
  case False
  let ?w = "blockCpuMigration (pfCmdQ d) p (addEffect (SetAubWritable True p (pfUnifiedMemoryManager d)) w)"
  obtain w' where w': "mprotect env p (pfSize d) protReadWrite ?w = (0, w')"
    using env(1) by (metis succeeds_def prod.collapse)
  then have same: "w' = ?w\<lparr>prot := (\<lambda>x. if touches p (pfSize d) x then protReadWrite else prot ?w x)\<rparr>"
    using env(2) by (simp add: faithful_def)
  have "handlePageFault env sync p (m, w) = Inr (m, w')"
    using d al h f w' by (simp add: handlePageFault_def setAubWritable_def unrecoverableIf_def dataAt_def
        transferAndUnprotectMemoryWithHints_def migrationAdvisedAgainst_def allowCPUMemoryAccess_def mustSucceed_def addEffect_def)
  then have "cpuTouch env sync x (m, w) = Inr (True, (m, w'))"
    using False x(2) d by (simp add: cpuTouch_def verifyAndHandlePageFault_def touchData_def insertData_def)
  then show ?thesis using inRange_touches [OF x(1)] by (simp add: same blockCpuMigration_def addEffect_def)
qed

text \<open>
  C40: with two pieces of memory advice the CPU can read stale data. Take any state that a history without advice reaches and an
  allocation in the GPU domain. When the application advises that it is read mostly and that the device is its preferred location, in
  either order, the next CPU access is granted although the CPU copy is not brought up to date: the CPU
  finds what its copy held before, the GPU's memory still has the value last written. The handler asks for both pieces of
  advice (\<open>migrationAdvisedAgainst\<close>); with one of them it migrates.
\<close>

theorem advised_allocation_reads_stale:
  assumes "faithful env" "succeeds env" "sync = clMemorySync \<or> sync = l0MemorySync"
    and "svmMapOperations w0 = (\<lambda>_ _. None)"
    and "(pfStep env sync)\<^sup>*\<^sup>* (pageFaultStart setCsr cal w0) ((m, w), L)"
    and "findData p m = Some d" "inRange p (pfSize d) x" "pfDomain d = domGpu" "L x = Some v"
    and "(first, second) \<in> {(SET_READ_MOSTLY, SET_PREFERRED_LOCATION), (SET_PREFERRED_LOCATION, SET_READ_MOSTLY)}"
  shows "\<exists>st1 st2 st3. executeMemAdvise env (pfCmdQ d) p n first (m, w) = Inr st1 \<and>
    executeMemAdvise env (pfCmdQ d) p n second st1 = Inr st2 \<and> cpuTouch env sync x st2 = Inr (True, st3) \<and>
    prot (snd st3) x = protReadWrite \<and> cpuMem (snd st3) x = cpuMem w x \<and> gpuMem (snd st3) x = v"
proof -
  have inv: "(\<exists>link. pfInv link env (m, w) L) \<and> getFaultData pfSize (memoryData m) x = p"
    using started_inv [OF assms(1,4,3,5)] cl.fault_entry [OF pfInvD(1) assms(6,7)] l0.fault_entry [OF pfInvD(1) assms(6,7)] by blast
  then obtain link where "pfInv link env (m, w) L" by blast
  then have ok: "entryOk link env p d w L" using assms(6) by (simp add: pfInv_def pfCore_def)
  let ?m = "setGpuDomainHandler transferAndUnprotectWithHints m"
  obtain w1 where w1: "executeMemAdvise env (pfCmdQ d) p n first (m, w) = Inr (?m, w1)"
    "memAdviseSharedAllocations w1 (pfCmdQ d) p =
       Some (adviseFlags first (case memAdviseSharedAllocations w (pfCmdQ d) p of Some f \<Rightarrow> f | None \<Rightarrow> newMemAdviseFlags))"
    "prot w1 = prot w" "cpuMem w1 = cpuMem w" "gpuMem w1 = gpuMem w" "svmAllocs w1 = svmAllocs w"
    using assms(10) by (auto intro: advise_outcome)
  obtain w2 where w2: "executeMemAdvise env (pfCmdQ d) p n second (?m, w1) = Inr (setGpuDomainHandler transferAndUnprotectWithHints ?m, w2)"
    "memAdviseSharedAllocations w2 (pfCmdQ d) p =
       Some (adviseFlags second (case memAdviseSharedAllocations w1 (pfCmdQ d) p of Some f \<Rightarrow> f | None \<Rightarrow> newMemAdviseFlags))"
    "prot w2 = prot w1" "cpuMem w2 = cpuMem w1" "gpuMem w2 = gpuMem w1" "svmAllocs w2 = svmAllocs w1"
    using assms(10) by (auto intro: advise_outcome)
  obtain f where f: "memAdviseSharedAllocations w2 (pfCmdQ d) p = Some f" "adviseReadOnly f" "devicePreferredLocation f"
    using w1(2) w2(2) assms(10) by auto
  have m: "findData p (setGpuDomainHandler transferAndUnprotectWithHints ?m) = Some d"
    "memoryData (setGpuDomainHandler transferAndUnprotectWithHints ?m) = memoryData m"
    "gpuDomainHandler (setGpuDomainHandler transferAndUnprotectWithHints ?m) = transferAndUnprotectWithHints"
    using assms(6) by (simp_all add: setGpuDomainHandler_def findData_def)
  have "p \<noteq> 0" "svmAllocs w2 (pfUnifiedMemoryManager d) p \<noteq> None" "gpuMem w x = v"
    using ok assms(7-9) w1(6) w2(6) by (auto simp: entryOk_def placed_def backed_def current_def holds_def)
  with advised_fault [OF assms(2,1) m(1) assms(8) _ _ m(3) f assms(7), of sync] inv m(2) show ?thesis
    using w1(1,4,5) w2(1,4,5) by auto
qed

text \<open>A sample: an allocation placed on the GPU, moved there and written by the GPU; the CPU copy holds 3.\<close>

definition placedManager :: CpuPageFaultManager where
  "placedManager = pushNonGpu 9 0x1000 (insertData 0x1000 (sampleData\<lparr>pfDomain := domNone\<rparr>) newCpuPageFaultManager)"

definition placedWorld :: "nat World" where
  "placedWorld = sampleAllocated\<lparr>prot := (\<lambda>x. if touches 0x1000 64 x then protNone else prot sampleAllocated x)\<rparr>"

lemma placed_found: "findData 0x1000 placedManager = Some (sampleData\<lparr>pfDomain := domNone\<rparr>)"
  by (simp add: placedManager_def findData_insert) (simp add: findData_def newCpuPageFaultManager_def)

lemma moved_found: "findData 0x1000 (eraseNonGpu 9 0x1000 (setDomain domGpu 0x1000 placedManager)) = Some (sampleData\<lparr>pfDomain := domGpu\<rparr>)"
  by (simp add: findData_def setDomain_def eraseNonGpu_def placedManager_def insertData_def newCpuPageFaultManager_def)

lemma placed_history:
  "(pfStep sampleSurroundings l0MemorySync)\<^sup>*\<^sup>* (pageFaultStart 0 False sampleWorld)
     ((eraseNonGpu 9 0x1000 (setDomain domGpu 0x1000 placedManager), placedWorld\<lparr>gpuMem := (gpuMem placedWorld)(0x1010 := 7)\<rparr>),
      (\<lambda>x. if inRange 0x1000 64 x then None else None)(0x1010 \<mapsto> 7))"
proof -
  let ?step = "pfStep sampleSurroundings l0MemorySync" and ?L = "\<lambda>x. if inRange 0x1000 64 x then None else None :: nat option"
  let ?m = "eraseNonGpu 9 0x1000 (setDomain domGpu 0x1000 placedManager)"
  have start: "pageFaultStart 0 False sampleWorld = ((newCpuPageFaultManager, sampleWorld), \<lambda>_. None)"
    by (simp add: pageFaultStart_def selectGpuDomainHandler_def)
  have "insertAllocation sampleSurroundings 0x1000 64 9 5 gpuPlacement
      (newCpuPageFaultManager, allocated 9 0x1000 64 (\<lambda>_. 3) (\<lambda>_. 4) sampleWorld) = Inr (placedManager, placedWorld)"
    unfolding placedWorld_def sampleAllocated_def
    by (simp add: insertAllocation_def getUSMInitialPlacement_def gpuPlacement_def sampleSurroundings_def sampleData_def placedManager_def
        protectCPUMemoryAccess_def mustSucceed_def unrecoverableIf_def)
  then have s1: "?step (pageFaultStart 0 False sampleWorld) ((placedManager, placedWorld), ?L)"
    unfolding start by (rule pfStep.created [rotated -1])
      (simp_all add: placed_def findData_def newCpuPageFaultManager_def sampleSurroundings_def)
  have "moveAllocationToGpuDomain sampleSurroundings l0MemorySync 0x1000 (placedManager, placedWorld) = Inr (?m, placedWorld)"
    using placed_found by (simp add: moveAllocationToGpuDomain_def migrateStorageToGpuDomain_def dataAt_def sampleData_def)
  then have s2: "?step ((placedManager, placedWorld), ?L) ((?m, placedWorld), ?L)" by (rule pfStep.moved)
  have s3: "?step ((?m, placedWorld), ?L) ((?m, placedWorld\<lparr>gpuMem := (gpuMem placedWorld)(0x1010 := 7)\<rparr>), ?L(0x1010 \<mapsto> 7))"
    by (intro pfStep.gpuWrite [OF moved_found]) (simp_all add: sampleData_def sample_in_range)
  let ?a = "pageFaultStart 0 False sampleWorld"
  have "?step\<^sup>*\<^sup>* ?a ((placedManager, placedWorld), ?L)" using s1 by (rule r_into_rtranclp)
  then have "?step\<^sup>*\<^sup>* ?a ((?m, placedWorld), ?L)" using s2 by (rule rtranclp.rtrancl_into_rtrancl)
  then show ?thesis using s3 by (rule rtranclp.rtrancl_into_rtrancl)
qed

theorem advised_allocation_reads_stale_witness:
  "\<exists>m w st1 st2 st3. executeMemAdvise sampleSurroundings 5 0x1000 64 SET_READ_MOSTLY (m, w) = Inr st1 \<and>
     executeMemAdvise sampleSurroundings 5 0x1000 64 SET_PREFERRED_LOCATION st1 = Inr st2 \<and>
     cpuTouch sampleSurroundings l0MemorySync 0x1010 st2 = Inr (True, st3) \<and> cpuMem (snd st3) 0x1010 = 3 \<and> gpuMem (snd st3) 0x1010 = 7"
proof -
  have "cpuMem placedWorld 0x1010 = 3"
    by (simp add: placedWorld_def sampleAllocated_def allocated_def sample_in_range)
  obtain w where w: "w = placedWorld\<lparr>gpuMem := (gpuMem placedWorld)(0x1010 := 7)\<rparr>" by simp
  obtain m where m: "m = eraseNonGpu 9 0x1000 (setDomain domGpu 0x1000 placedManager)" by simp
  obtain d where d: "d = sampleData\<lparr>pfDomain := domGpu\<rparr>" by simp
  have side: "l0MemorySync = clMemorySync \<or> l0MemorySync = l0MemorySync" "svmMapOperations sampleWorld = (\<lambda>_ _. None)"
    "inRange 0x1000 (pfSize d) 0x1010" "pfDomain d = domGpu" "pfCmdQ d = 5"
    "((\<lambda>x. if inRange 0x1000 64 x then None else None)(0x1010 \<mapsto> 7)) 0x1010 = Some (7::nat)"
    "(SET_READ_MOSTLY, SET_PREFERRED_LOCATION) \<in> {(SET_READ_MOSTLY, SET_PREFERRED_LOCATION), (SET_PREFERRED_LOCATION, SET_READ_MOSTLY)}"
    by (simp_all add: sampleWorld_def d sampleData_def sample_in_range)
  note advised_allocation_reads_stale [OF sample_laws side(1,2) placed_history [folded w m] moved_found [folded m d] side(3,4,6,7), of 64]
  moreover have "cpuMem w 0x1010 = 3" using \<open>cpuMem placedWorld 0x1010 = 3\<close> by (simp add: w)
  ultimately show ?thesis unfolding side(5) by metis
qed

end
