(* ===== verification/Fault_Handlers.thy ===== *)
theory Fault_Handlers
  imports Page_Fault
begin

text \<open>
  Around the page fault manager: the fault manager for the TBX simulator
  (\<open>page_fault_manager/tbx_page_fault_manager.{h,cpp}\<close>) and the chain of signal handlers
  (\<open>page_fault_manager/linux/cpu_page_fault_manager_linux.cpp\<close>). The foreign handlers of the chain are
  parameters.
\<close>

section \<open>TBX page faults\<close>

record PageFaultDataTbx =
  tbxSize :: u64
  hasBeenDownloaded :: bool
  tbxGfxAllocation :: u64
  tbxBank :: u32
  tbxCsr :: u64

record TbxPageFaultManager =
  cpuPart :: CpuPageFaultManager
  memoryDataTbx :: "(u64 \<times> PageFaultDataTbx) list"

type_synonym 'v tbxState = "TbxPageFaultManager \<times> 'v World"

text \<open>A call of the CPU part of the manager.\<close>

definition onCpuPart :: "('v pfState \<Rightarrow> 'v pfState result) \<Rightarrow> 'v tbxState \<Rightarrow> 'v tbxState result" where
  "onCpuPart f st = map_sum id (\<lambda>(m, w). ((fst st)\<lparr>cpuPart := m\<rparr>, w)) (f (cpuPart (fst st), snd st))"

definition setTbxData :: "u64 \<Rightarrow> PageFaultDataTbx \<Rightarrow> TbxPageFaultManager \<Rightarrow> TbxPageFaultManager" where
  "setTbxData p d t = t\<lparr>memoryDataTbx := map (\<lambda>(q, e). (q, if q = p then d else e)) (memoryDataTbx t)\<rparr>"

definition tbxEffect :: "SideEffect \<Rightarrow> 'v tbxState \<Rightarrow> 'v tbxState" where
  "tbxEffect e st = (fst st, addEffect e (snd st))"

definition tbxInsertAllocation ::
  "'v Surroundings \<Rightarrow> u64 \<Rightarrow> u64 \<Rightarrow> u32 \<Rightarrow> u64 \<Rightarrow> u64 \<Rightarrow> 'v tbxState \<Rightarrow> 'v tbxState result" where
  "tbxInsertAllocation env csr alloc bank p sz st =
     (let t = fst st;
          new = \<lparr>tbxSize = sz, hasBeenDownloaded = False, tbxGfxAllocation = alloc, tbxBank = bank, tbxCsr = csr\<rparr>;
          t = (case map_of (memoryDataTbx t) p of
                 None \<Rightarrow> t\<lparr>memoryDataTbx := memoryDataTbx t @ [(p, new)]\<rparr>
               | Some d \<Rightarrow> setTbxData p (d\<lparr>hasBeenDownloaded := False\<rparr>) t)
      in onCpuPart (protectCPUMemoryAccess env p sz) (t, snd st))"

text \<open>The first entry of the allocation in iteration order.\<close>

definition tbxRemoveAllocation :: "'v Surroundings \<Rightarrow> u64 \<Rightarrow> 'v tbxState \<Rightarrow> 'v tbxState result" where
  "tbxRemoveAllocation env alloc st =
     (case List.find (\<lambda>(p, d). tbxGfxAllocation d = alloc) (memoryDataTbx (fst st)) of
        None \<Rightarrow> Inr st
      | Some (p, d) \<Rightarrow>
          onCpuPart (allowCPUMemoryAccess env p (tbxSize d))
            ((fst st)\<lparr>memoryDataTbx := filter (\<lambda>e. fst e \<noteq> p) (memoryDataTbx (fst st))\<rparr>, snd st))"

definition tbxHandlePageFault :: "'v Surroundings \<Rightarrow> u64 \<Rightarrow> PageFaultDataTbx \<Rightarrow> 'v tbxState \<Rightarrow> 'v tbxState result" where
  "tbxHandlePageFault env p d st =
     (if \<not> hasBeenDownloaded d then
        andThen (onCpuPart (allowCPUMemoryAccess env p (tbxSize d)) st)
          (\<lambda>st. andThen (onCpuPart (protectCpuMemoryFromWrites env p (tbxSize d))
                           (tbxEffect (DownloadAllocation (tbxCsr d) (tbxGfxAllocation d)) st))
          (\<lambda>st. Inr (setTbxData p (d\<lparr>hasBeenDownloaded := True\<rparr>) (fst st), snd st)))
      else onCpuPart (allowCPUMemoryAccess env p (tbxSize d))
             (tbxEffect (SetTbxBankWritable (tbxGfxAllocation d) (tbxBank d)) st))"

definition tbxVerifyAndHandlePageFault ::
  "'v Surroundings \<Rightarrow> 'v MemorySync \<Rightarrow> u64 \<Rightarrow> bool \<Rightarrow> 'v tbxState \<Rightarrow> (bool \<times> 'v tbxState) result" where
  "tbxVerifyAndHandlePageFault env sync x handleFault st =
     (let allocPtr = getFaultData tbxSize (memoryDataTbx (fst st)) x in
      if allocPtr = 0 then
        andThen
          (if handleFault then
             let cpuPtr = getFaultData pfSize (memoryData (cpuPart (fst st))) x;
                 faultData = dataAt cpuPtr (cpuPart (fst st))
             in if cpuPtr \<noteq> 0 \<and> pfDomain faultData = domGpu
                then onCpuPart (allowCPUMemoryAccess env cpuPtr (pfSize faultData)) st else Inr st
           else Inr st)
          (\<lambda>st. map_sum id (\<lambda>(b, (m, w)). (b, ((fst st)\<lparr>cpuPart := m\<rparr>, w)))
                  (verifyAndHandlePageFault env sync x handleFault (cpuPart (fst st), snd st)))
      else if handleFault then
        case map_of (memoryDataTbx (fst st)) allocPtr of
          Some d \<Rightarrow> map_sum id (Pair True) (tbxHandlePageFault env allocPtr d st)
        | None \<Rightarrow> Inr (True, st)
      else Inr (True, st))"

section \<open>Signal handlers on Linux\<close>

datatype SigHandler = SIG_DFL | SIG_IGN | Handler nat

record SigAction =
  saSigInfo :: bool
  saHandler :: SigHandler

text \<open>The handler of the manager itself, \<open>pageFaultHandlerWrapper\<close>.\<close>

definition pageFaultHandlerWrapper :: SigHandler where
  "pageFaultHandlerWrapper = Handler 0"

text \<open>The disposition of \<open>SIGSEGV\<close> belongs to the process.\<close>

record PageFaultManagerLinux =
  previousHandlerRestored :: bool
  previousPageFaultHandlers :: "SigAction list"
  handlerIndex :: int
  segvAction :: SigAction

definition checkFaultHandlerFromPageFaultManager :: "PageFaultManagerLinux \<Rightarrow> bool" where
  "checkFaultHandlerFromPageFaultManager s \<longleftrightarrow> saHandler (segvAction s) = pageFaultHandlerWrapper"

text \<open>\<open>sa_sigaction\<close> and \<open>sa_handler\<close> share their storage.\<close>

definition registerFaultHandler :: "PageFaultManagerLinux \<Rightarrow> PageFaultManagerLinux" where
  "registerFaultHandler s =
     (let previous = segvAction s;
          s = (if List.find (\<lambda>h. saHandler h = saHandler previous) (previousPageFaultHandlers s) = None
               then s\<lparr>previousPageFaultHandlers := previousPageFaultHandlers s @ [previous]\<rparr> else s)
      in s\<lparr>segvAction := \<lparr>saSigInfo = True, saHandler = pageFaultHandlerWrapper\<rparr>\<rparr>)"

definition newPageFaultManagerLinux :: "SigAction \<Rightarrow> PageFaultManagerLinux" where
  "newPageFaultManagerLinux action = registerFaultHandler
     \<lparr>previousHandlerRestored = False, previousPageFaultHandlers = [], handlerIndex = 0, segvAction = action\<rparr>"

text \<open>Reading a vector out of range is undefined: \<open>Inl\<close> here. So is the first element of an empty vector.\<close>

definition destroyPageFaultManagerLinux :: "PageFaultManagerLinux \<Rightarrow> PageFaultManagerLinux result" where
  "destroyPageFaultManagerLinux s =
     (if \<not> previousHandlerRestored s then
        case previousPageFaultHandlers s of
          [] \<Rightarrow> Inl Unrecoverable
        | h # _ \<Rightarrow> Inr (s\<lparr>segvAction := h, previousPageFaultHandlers := []\<rparr>)
      else Inr s)"

definition callPreviousHandler ::
  "(SigAction \<Rightarrow> PageFaultManagerLinux \<Rightarrow> PageFaultManagerLinux result) \<Rightarrow> PageFaultManagerLinux \<Rightarrow> PageFaultManagerLinux result" where
  "callPreviousHandler call s =
     (let s = s\<lparr>handlerIndex := handlerIndex s + 1\<rparr>; n = int (length (previousPageFaultHandlers s)) in
      if handlerIndex s < 0 \<and> handlerIndex s \<ge> n then Inl Unrecoverable
      else if \<not> (0 \<le> n - handlerIndex s \<and> n - handlerIndex s < n) then Inl Unrecoverable
      else
        let previous = previousPageFaultHandlers s ! nat (n - handlerIndex s) in
        map_sum id (\<lambda>s. s\<lparr>handlerIndex := handlerIndex s - 1\<rparr>)
          (if saSigInfo previous then call previous s
           else if saHandler previous = SIG_DFL then
             Inr (s\<lparr>segvAction := previous, previousHandlerRestored := True, previousPageFaultHandlers := []\<rparr>)
           else if saHandler previous \<noteq> SIG_IGN then call previous s
           else Inr s))"

text \<open>The signal: the fault is handled by the manager unless a handler of the chain is running already.\<close>

definition handleSegv ::
  "'v Surroundings \<Rightarrow> 'v MemorySync \<Rightarrow> (SigAction \<Rightarrow> PageFaultManagerLinux \<Rightarrow> PageFaultManagerLinux result) \<Rightarrow>
   u64 \<Rightarrow> PageFaultManagerLinux \<times> 'v pfState \<Rightarrow> (PageFaultManagerLinux \<times> 'v pfState) result" where
  "handleSegv env sync call x st =
     andThen (verifyAndHandlePageFault env sync x (handlerIndex (fst st) = 0) (snd st))
       (\<lambda>(handled, pf). if handled then Inr (fst st, pf)
          else map_sum id (\<lambda>s. (s, pf)) (callPreviousHandler call (fst st)))"

section \<open>Facts\<close>

lemma map_of_setTbxData:
  "map_of (memoryDataTbx (setTbxData p d t)) q = (if q = p then map_option (\<lambda>_. d) (map_of (memoryDataTbx t) p) else map_of (memoryDataTbx t) q)"
proof -
  have "map_of (map (\<lambda>(q, e). (q, if q = p then d else e)) es) q =
    (if q = p then map_option (\<lambda>_. d) (map_of es p) else map_of es q)" for es
    by (induction es) auto
  then show ?thesis by (simp add: setTbxData_def)
qed

lemma getFaultData_setTbxData:
  assumes "map_of (memoryDataTbx t) p = Some d" "distinct (map fst (memoryDataTbx t))"
  shows "getFaultData tbxSize (memoryDataTbx (setTbxData p (d\<lparr>hasBeenDownloaded := b\<rparr>) t)) x = getFaultData tbxSize (memoryDataTbx t) x"
proof -
  have "getFaultData tbxSize (map (\<lambda>(q, e). (q, if q = p then d\<lparr>hasBeenDownloaded := b\<rparr> else e)) es) x = getFaultData tbxSize es x"
    if "\<forall>e. (p, e) \<in> set es \<longrightarrow> e = d" for es
    using that by (induction es) auto
  moreover have "\<forall>e. (p, e) \<in> set (memoryDataTbx t) \<longrightarrow> e = d" using assms by (metis map_of_is_SomeI option.inject)
  ultimately show ?thesis by (simp add: setTbxData_def)
qed

lemma protection_set:
  assumes "faithful env" "succeeds env"
  shows "allowCPUMemoryAccess env p n (m, w) = Inr (m, w\<lparr>prot := (\<lambda>x. if touches p n x then protReadWrite else prot w x)\<rparr>)"
    "protectCPUMemoryAccess env p n (m, w) = Inr (m, w\<lparr>prot := (\<lambda>x. if touches p n x then protNone else prot w x)\<rparr>)"
    "protectCpuMemoryFromWrites env p n (m, w) = Inr (m, w\<lparr>prot := (\<lambda>x. if touches p n x then protRead else prot w x)\<rparr>)"
proof -
  have "mprotect env p n r w = (0, w\<lparr>prot := (\<lambda>x. if touches p n x then r else prot w x)\<rparr>)" for r
  proof -
    obtain w' where w': "mprotect env p n r w = (0, w')" using assms(2) unfolding succeeds_def by (metis prod.collapse)
    then have "w' = w\<lparr>prot := (\<lambda>x. if touches p n x then r else prot w x)\<rparr>" using assms(1) by (simp add: faithful_def)
    then show ?thesis using w' by (simp only:)
  qed
  then show "allowCPUMemoryAccess env p n (m, w) = Inr (m, w\<lparr>prot := (\<lambda>x. if touches p n x then protReadWrite else prot w x)\<rparr>)"
    "protectCPUMemoryAccess env p n (m, w) = Inr (m, w\<lparr>prot := (\<lambda>x. if touches p n x then protNone else prot w x)\<rparr>)"
    "protectCpuMemoryFromWrites env p n (m, w) = Inr (m, w\<lparr>prot := (\<lambda>x. if touches p n x then protRead else prot w x)\<rparr>)"
    by (simp_all add: allowCPUMemoryAccess_def protectCPUMemoryAccess_def protectCpuMemoryFromWrites_def
        mustSucceed_def unrecoverableIf_def)
qed

lemma tbx_protection:
  assumes "faithful env" "succeeds env"
  shows "onCpuPart (allowCPUMemoryAccess env p n) (t, w) = Inr (t, w\<lparr>prot := (\<lambda>x. if touches p n x then protReadWrite else prot w x)\<rparr>)"
    "onCpuPart (protectCPUMemoryAccess env p n) (t, w) = Inr (t, w\<lparr>prot := (\<lambda>x. if touches p n x then protNone else prot w x)\<rparr>)"
    "onCpuPart (protectCpuMemoryFromWrites env p n) (t, w) = Inr (t, w\<lparr>prot := (\<lambda>x. if touches p n x then protRead else prot w x)\<rparr>)"
  by (simp_all add: onCpuPart_def protection_set [OF assms])

section \<open>Property\<close>

text \<open>
  C30: the faults on a range shared with the simulator. The first fault downloads the allocation and
  leaves it readable; the next one, a write, marks the bank as written and makes the range writable;
  inserting the allocation again protects it and forgets the download.
\<close>

theorem tbx_fault_protocol:
  assumes laws: "faithful env" "succeeds env"
    and d: "map_of (memoryDataTbx t) p = Some d" "distinct (map fst (memoryDataTbx t))"
    and hit: "getFaultData tbxSize (memoryDataTbx t) x = p" "p \<noteq> 0" and y: "inRange p (tbxSize d) y"
  shows "(\<not> hasBeenDownloaded d \<longrightarrow>
      (\<exists>t' w'. tbxVerifyAndHandlePageFault env sync x True (t, w) = Inr (True, (t', w')) \<and>
         map_of (memoryDataTbx t') p = Some (d\<lparr>hasBeenDownloaded := True\<rparr>) \<and> prot w' y = protRead \<and>
         sideEffects w' = sideEffects w @ [DownloadAllocation (tbxCsr d) (tbxGfxAllocation d)] \<and>
         getFaultData tbxSize (memoryDataTbx t') x = p)) \<and>
    (hasBeenDownloaded d \<longrightarrow>
      (\<exists>w'. tbxVerifyAndHandlePageFault env sync x True (t, w) = Inr (True, (t, w')) \<and> prot w' y = protReadWrite \<and>
         sideEffects w' = sideEffects w @ [SetTbxBankWritable (tbxGfxAllocation d) (tbxBank d)])) \<and>
    (\<exists>t' w'. tbxInsertAllocation env csr alloc bank p (tbxSize d) (t, w) = Inr (t', w') \<and>
       map_of (memoryDataTbx t') p = Some (d\<lparr>hasBeenDownloaded := False\<rparr>) \<and> prot w' y = protNone)"
proof -
  have v: "tbxVerifyAndHandlePageFault env sync x True (t, w) = map_sum id (Pair True) (tbxHandlePageFault env p d (t, w))"
    using d hit by (simp add: tbxVerifyAndHandlePageFault_def)
  have touch: "touches p (tbxSize d) y" using y by (rule inRange_touches)
  let ?t = "setTbxData p (d\<lparr>hasBeenDownloaded := True\<rparr>) t"
  have kept: "map_of (memoryDataTbx ?t) p = Some (d\<lparr>hasBeenDownloaded := True\<rparr>)" "getFaultData tbxSize (memoryDataTbx ?t) x = p"
    using d(1) hit(1) by (simp_all only: map_of_setTbxData getFaultData_setTbxData [OF d] if_True option.map simp_thms)
  have first: "\<exists>w'. tbxHandlePageFault env p d (t, w) = Inr (?t, w') \<and>
      prot w' y = protRead \<and> sideEffects w' = sideEffects w @ [DownloadAllocation (tbxCsr d) (tbxGfxAllocation d)]"
    if "\<not> hasBeenDownloaded d"
    using that touch by (simp add: tbxHandlePageFault_def tbx_protection [OF laws] tbxEffect_def addEffect_def)
  have second: "\<exists>w'. tbxHandlePageFault env p d (t, w) = Inr (t, w') \<and> prot w' y = protReadWrite \<and>
      sideEffects w' = sideEffects w @ [SetTbxBankWritable (tbxGfxAllocation d) (tbxBank d)]"
    if "hasBeenDownloaded d"
    using that touch by (simp add: tbxHandlePageFault_def tbx_protection [OF laws] tbxEffect_def addEffect_def)
  have "\<exists>t' w'. tbxInsertAllocation env csr alloc bank p (tbxSize d) (t, w) = Inr (t', w') \<and>
       map_of (memoryDataTbx t') p = Some (d\<lparr>hasBeenDownloaded := False\<rparr>) \<and> prot w' y = protNone"
    using touch d by (simp add: tbxInsertAllocation_def tbx_protection [OF laws] map_of_setTbxData)
  moreover have "\<exists>w'. tbxVerifyAndHandlePageFault env sync x True (t, w) = Inr (True, (?t, w')) \<and> prot w' y = protRead \<and>
      sideEffects w' = sideEffects w @ [DownloadAllocation (tbxCsr d) (tbxGfxAllocation d)]" if "\<not> hasBeenDownloaded d"
    using first [OF that] unfolding v by force
  moreover have "\<exists>w'. tbxVerifyAndHandlePageFault env sync x True (t, w) = Inr (True, (t, w')) \<and> prot w' y = protReadWrite \<and>
      sideEffects w' = sideEffects w @ [SetTbxBankWritable (tbxGfxAllocation d) (tbxBank d)]" if "hasBeenDownloaded d"
    using second [OF that] unfolding v by force
  ultimately show ?thesis using kept by blast
qed

definition sampleTbxData :: PageFaultDataTbx where
  "sampleTbxData = \<lparr>tbxSize = 64, hasBeenDownloaded = False, tbxGfxAllocation = 8, tbxBank = 1, tbxCsr = 2\<rparr>"

definition sampleTbx :: TbxPageFaultManager where
  "sampleTbx = \<lparr>cpuPart = newCpuPageFaultManager, memoryDataTbx = [(0x1000, sampleTbxData)]\<rparr>"

theorem tbx_fault_protocol_witness:
  "\<exists>t' w'. tbxVerifyAndHandlePageFault sampleSurroundings clMemorySync 0x1010 True (sampleTbx, sampleWorld) = Inr (True, (t', w')) \<and>
     prot w' 0x1010 = protRead"
proof -
  have "map_of (memoryDataTbx sampleTbx) 0x1000 = Some sampleTbxData" "distinct (map fst (memoryDataTbx sampleTbx))"
    "getFaultData tbxSize (memoryDataTbx sampleTbx) 0x1010 = 0x1000" "inRange 0x1000 (tbxSize sampleTbxData) 0x1010"
    "\<not> hasBeenDownloaded sampleTbxData"
    by (simp_all add: sampleTbx_def sampleTbxData_def sample_in_range)
  then show ?thesis
    using tbx_fault_protocol [OF sample_laws, of sampleTbx "0x1000" sampleTbxData "0x1010" "0x1010" clMemorySync sampleWorld]
    by fastforce
qed

end
