(* ===== verification/Local_Work_Size.thy ===== *)
theory Local_Work_Size
  imports Math_Helpers
begin

text \<open>
  \<open>helpers/local_work_size.{h,cpp}\<close> and \<open>program/work_size_info.{h,cpp}\<close>: the size of a work group that
  the driver chooses when the application gives none, and its callers \<open>computeWorkgroupSize\<close> of OpenCL and
  \<open>KernelImp::suggestGroupSize\<close> of Level Zero. Arrays of three sizes are lists. The result \<open>None\<close> stands
  for a call that does not return normally: an abort, a division by zero, an access behind an array, an
  endless loop. The logarithms and their comparison in single precision are parameters.
\<close>

type_synonym sizes = "u64 list"

section \<open>Work size information\<close>

record 'r FloatOps =
  logRatio :: "u64 \<Rightarrow> u64 \<Rightarrow> 'r"
  ratioDistance :: "'r \<Rightarrow> u32 \<Rightarrow> u32 \<Rightarrow> 'r"
  lessFloat :: "'r \<Rightarrow> 'r \<Rightarrow> bool"
  maxFloat :: 'r
  zeroFloat :: 'r
  yTilingRatioValue :: 'r

record 'r WorkSizeInfo =
  maxWorkGroupSize :: u32
  minWorkGroupSize :: u32
  hasBarriers :: bool
  simdSize :: u32
  slmTotalSize :: u32
  numThreadsPerSubSlice :: u32
  localMemSize :: u32
  imgUsed :: bool
  yTiledSurfaces :: bool
  useRatio :: bool
  useStrictRatio :: bool
  targetRatio :: 'r
  preferredWgCountPerSubSlice :: u32

definition setMinWorkGroupSize :: "bool \<Rightarrow> 'r WorkSizeInfo \<Rightarrow> 'r WorkSizeInfo option" where
  "setMinWorkGroupSize fusedEuDispatchEnabled ws =
     (let m = (if hasBarriers ws then numThreadsPerSubSlice ws * simdSize ws div 32 else 0) in
      if slmTotalSize ws > 0 \<and> localMemSize ws < slmTotalSize ws then None
      else
        let m = (if slmTotalSize ws > 0
                 then max (maxWorkGroupSize ws div (localMemSize ws div slmTotalSize ws)) m else m);
            m = (if fusedEuDispatchEnabled then m * 2 else m)
        in Some (ws\<lparr>minWorkGroupSize := m\<rparr>))"

definition newWorkSizeInfo ::
  "'r FloatOps \<Rightarrow> u32 \<Rightarrow> bool \<Rightarrow> u32 \<Rightarrow> u32 \<Rightarrow> u32 \<Rightarrow> u32 \<Rightarrow> bool \<Rightarrow> bool \<Rightarrow> bool \<Rightarrow> 'r WorkSizeInfo option" where
  "newWorkSizeInfo ops maxSize barriers simd slm threads localMem img yTiled fused =
     setMinWorkGroupSize fused
       \<lparr>maxWorkGroupSize = maxSize, minWorkGroupSize = 0, hasBarriers = barriers, simdSize = simd, slmTotalSize = slm,
        numThreadsPerSubSlice = threads, localMemSize = localMem, imgUsed = img, yTiledSurfaces = yTiled,
        useRatio = False, useStrictRatio = False, targetRatio = zeroFloat ops, preferredWgCountPerSubSlice = 0\<rparr>"

text \<open>The kernel's explicit arguments: whether each is an image.\<close>

definition setIfUseImg :: "bool list \<Rightarrow> 'r WorkSizeInfo \<Rightarrow> 'r WorkSizeInfo" where
  "setIfUseImg argIsImage ws =
     (if List.find (\<lambda>b. b) argIsImage \<noteq> None then ws\<lparr>imgUsed := True, yTiledSurfaces := True\<rparr> else ws)"

definition checkRatio :: "'r FloatOps \<Rightarrow> sizes \<Rightarrow> 'r WorkSizeInfo \<Rightarrow> 'r WorkSizeInfo" where
  "checkRatio ops items ws =
     (if slmTotalSize ws > 0 then
        ws\<lparr>useRatio := True, targetRatio := logRatio ops (items ! 0) (items ! 1), useStrictRatio := False\<rparr>
      else if yTiledSurfaces ws then
        ws\<lparr>useRatio := True, targetRatio := yTilingRatioValue ops, useStrictRatio := True\<rparr>
      else ws)"

definition setPreferredWgCountPerSubslice :: "u32 \<Rightarrow> 'r WorkSizeInfo \<Rightarrow> 'r WorkSizeInfo" where
  "setPreferredWgCountPerSubslice n ws = ws\<lparr>preferredWgCountPerSubSlice := n\<rparr>"

section \<open>One dimension: prime factors\<close>

definition primeNumbers :: "u32 list" where
  "primeNumbers = [251, 241, 239, 233, 229, 227, 223, 211, 199, 197, 193, 191, 181, 179, 173, 167, 163, 157, 151, 149,
     139, 137, 131, 127, 113, 109, 107, 103, 101, 97, 89, 83, 79, 73, 71, 67, 61, 59, 53, 47, 43, 41, 37, 31, 29, 23,
     19, 17, 13, 11, 7, 5, 3, 2]"

text \<open>The inner loop, for one prime.\<close>

partial_function (option) factorLoop :: "u32 \<Rightarrow> u64 \<Rightarrow> u32 \<Rightarrow> u32 \<Rightarrow> u32 option" where
  "factorLoop primeNumber items workSize maxSize =
     (let newWorkSize = workSize * primeNumber in
      if newWorkSize \<le> maxSize then
        if newWorkSize = 0 then None
        else if items mod ucast newWorkSize = 0 then factorLoop primeNumber items newWorkSize maxSize
        else Some workSize
      else Some workSize)"

text \<open>The template recursion, from the last prime of the table to the first.\<close>

fun factorPrimes :: "u32 list \<Rightarrow> u64 \<Rightarrow> u32 \<Rightarrow> u32 \<Rightarrow> u32 option" where
  "factorPrimes [] items workSize maxSize = Some workSize"
| "factorPrimes (primeNumber # primes) items workSize maxSize =
     (if ucast (workSize * primeNumber) \<le> items then
        case factorLoop primeNumber items workSize maxSize of
          None \<Rightarrow> None
        | Some workSize \<Rightarrow> factorPrimes primes items workSize maxSize
      else Some workSize)"

definition computeWorkgroupSize1D :: "u32 \<Rightarrow> sizes \<Rightarrow> sizes option" where
  "computeWorkgroupSize1D maxSize items =
     (let numBits = getMinLsbSet (ucast (items ! 0));
          workSize = min (push_bit (unat numBits) 1) maxSize
      in map_option (\<lambda>w. [ucast w, 1, 1]) (factorPrimes (rev primeNumbers) (items ! 0) workSize maxSize))"

section \<open>Powers of two\<close>

definition highThreadCountThreshold :: u32 where "highThreadCountThreshold = 56"

definition optimalHardwareThreadCountGeneric :: "u32 list" where
  "optimalHardwareThreadCountGeneric = [32, 16, 8, 4, 2, 1]"

text \<open>The loop over the table, from the target index on; it ends at the entry 1 at the latest.\<close>

fun pickThreadCount :: "u32 list \<Rightarrow> u32 \<Rightarrow> u32 \<Rightarrow> u32 option" where
  "pickThreadCount [] simd maxSize = None"
| "pickThreadCount (t # ts) simd maxSize =
     (if t > 1 \<and> maxSize < t * simd then pickThreadCount ts simd maxSize else Some t)"

text \<open>\<open>while (dim > items) dim >>= 1\<close>\<close>

function halveTo :: "u32 \<Rightarrow> u64 \<Rightarrow> u32" where
  "halveTo d items = (if ucast d > items then halveTo (d div 2) items else d)"
  by pat_completeness auto

definition computePowerOfTwoLWS :: "sizes \<Rightarrow> 'r WorkSizeInfo \<Rightarrow> sizes \<Rightarrow> nat \<Rightarrow> bool \<Rightarrow> sizes option" where
  "computePowerOfTwoLWS items ws wgs workDim canUseNx4 =
     (let targetIndex = (if canUseNx4 \<or> numThreadsPerSubSlice ws < highThreadCountThreshold then 2 else 0) in
      case pickThreadCount (drop targetIndex optimalHardwareThreadCountGeneric) (simdSize ws) (maxWorkGroupSize ws) of
        None \<Rightarrow> None
      | Some optimalLocalThreads \<Rightarrow>
          let threads = optimalLocalThreads * simdSize ws in
          if workDim = 2 then
            let xDim = halveTo (threads div (if canUseNx4 then 4 else 1)) (items ! 0) in
            if \<not> canUseNx4 \<and> xDim = 0 then None
            else
              let yDim = (if canUseNx4 then 4 else threads div xDim)
              in Some (wgs[0 := ucast xDim, 1 := ucast yDim])
          else
            let xDim = halveTo threads (items ! 0) in
            if xDim = 0 then None
            else
              let yDim = halveTo (threads div xDim) (items ! 1) in
              if xDim * yDim = 0 then None
              else Some [ucast xDim, ucast yDim, ucast (threads div (xDim * yDim))])"

text \<open>\<open>while (count > 1 && !isDivisibleByPowerOfTwoDivisor(items, count)) count >>= 1\<close>\<close>

function powerOfTwoDivisor :: "u32 \<Rightarrow> u64 \<Rightarrow> u32" where
  "powerOfTwoDivisor count items =
     (if count > 1 \<and> \<not> isDivisibleByPowerOfTwoDivisor (ucast items) count then powerOfTwoDivisor (count div 2) items
      else count)"
  by pat_completeness auto

lemma halved_less: "(0 :: u32) < d \<Longrightarrow> unat (d div 2) < unat d"
  by (simp add: unat_div word_less_nat_alt)

lemma ucast_positive: "items < ucast (d :: u32) \<Longrightarrow> (0 :: u32) < d" for items :: u64
  by (metis not_less_zero unsigned_0 word_gt_0 word_less_nat_alt)

lemma one_less_positive: "(1 :: u32) < c \<Longrightarrow> 0 < c"
  by (simp add: word_less_nat_alt)

termination halveTo
  by (relation "measure (\<lambda>(d, items). unat d)") (auto intro!: halved_less dest: ucast_positive)

termination powerOfTwoDivisor
  by (relation "measure (\<lambda>(d, items). unat d)") (auto intro!: halved_less dest: one_less_positive)

declare halveTo.simps [simp del] powerOfTwoDivisor.simps [simp del]

text \<open>The divisors of the first dimensions, 1 for the others.\<close>

definition powerOfTwoDivisors :: "u32 \<Rightarrow> sizes \<Rightarrow> nat \<Rightarrow> sizes" where
  "powerOfTwoDivisors count items workDim =
     map (\<lambda>i. if i < workDim then ucast (powerOfTwoDivisor count (items ! i)) else 1) [0, 1, 2]"

section \<open>Choice among the divisors\<close>

text \<open>The divisors of a dimension: 1 and those from 2 below the limit; the array holds 1024 of them.\<close>

definition properFactors :: "u32 \<Rightarrow> u64 \<Rightarrow> u32 list" where
  "properFactors limit items = filter (\<lambda>j. items mod ucast j = 0) (map of_nat [2..<unat limit])"

record 'r Choice =
  chosen :: sizes
  localRatio :: 'r
  localNumWorkgroups :: u64
  localEuThrdsDispatched :: u64

text \<open>The loop over the second dimension, its factors in ascending order.\<close>

fun ratioLoopY :: "'r FloatOps \<Rightarrow> 'r WorkSizeInfo \<Rightarrow> sizes \<Rightarrow> bool \<Rightarrow> u32 \<Rightarrow> u32 list \<Rightarrow> 'r Choice \<Rightarrow> 'r Choice" where
  "ratioLoopY ops ws items descending xdim [] c = c"
| "ratioLoopY ops ws items descending xdim (ydim # ys) c =
     (if descending \<and> ydim > xdim then c
      else if xdim * ydim > maxWorkGroupSize ws then c
      else if xdim * ydim < minWorkGroupSize ws then ratioLoopY ops ws items descending xdim ys c
      else
        let numWorkGroups = divideAndRoundUp (items ! 0) (ucast xdim) * divideAndRoundUp (items ! 1) (ucast ydim);
            ratioDiff = ratioDistance ops (targetRatio ws) xdim ydim;
            setWorkGroupSize =
              (if useStrictRatio ws then lessFloat ops ratioDiff (localRatio c)
               else numWorkGroups < localNumWorkgroups c \<or>
                    numWorkGroups = localNumWorkgroups c \<and> lessFloat ops ratioDiff (localRatio c));
            c = (if setWorkGroupSize
                 then c\<lparr>chosen := (chosen c)[0 := ucast xdim, 1 := ucast ydim], localRatio := ratioDiff,
                        localNumWorkgroups := numWorkGroups\<rparr> else c)
        in ratioLoopY ops ws items descending xdim ys c)"

definition choosePreferredWorkGroupSizeWithRatio ::
  "'r FloatOps \<Rightarrow> u32 list list \<Rightarrow> sizes \<Rightarrow> sizes \<Rightarrow> 'r WorkSizeInfo \<Rightarrow> bool \<Rightarrow> sizes" where
  "choosePreferredWorkGroupSizeWithRatio ops factors wgs items ws descending =
     chosen (fold (\<lambda>xdim. ratioLoopY ops ws items descending xdim (factors ! 1)) (rev (factors ! 0))
       \<lparr>chosen = wgs, localRatio = maxFloat ops, localNumWorkgroups = - 1, localEuThrdsDispatched = - 1\<rparr>)"

text \<open>The innermost loop without a ratio, the factors in descending order.\<close>

fun plainLoopZ :: "'r WorkSizeInfo \<Rightarrow> sizes \<Rightarrow> bool \<Rightarrow> u32 \<Rightarrow> u32 \<Rightarrow> u32 list \<Rightarrow> 'r Choice \<Rightarrow> 'r Choice" where
  "plainLoopZ ws items descending xdim ydim [] c = c"
| "plainLoopZ ws items descending xdim ydim (zdim # zs) c =
     (if descending \<and> ydim > xdim then c
      else if descending \<and> zdim > ydim then plainLoopZ ws items descending xdim ydim zs c
      else
        let numItemsInWorkGroup = xdim * ydim * zdim in
        if numItemsInWorkGroup > maxWorkGroupSize ws then plainLoopZ ws items descending xdim ydim zs c
        else if numItemsInWorkGroup < minWorkGroupSize ws then c
        else
          let numWorkGroups = divideAndRoundUp (items ! 0) (ucast xdim) * divideAndRoundUp (items ! 1) (ucast ydim) *
                divideAndRoundUp (items ! 2) (ucast zdim);
              euThrdsDispatched = divideAndRoundUp (ucast numItemsInWorkGroup) (ucast (simdSize ws)) * numWorkGroups;
              c = (if euThrdsDispatched < localEuThrdsDispatched c
                   then c\<lparr>localEuThrdsDispatched := euThrdsDispatched, chosen := [ucast xdim, ucast ydim, ucast zdim]\<rparr>
                   else c)
          in plainLoopZ ws items descending xdim ydim zs c)"

definition choosePreferredWorkGroupSizeWithOutRatio ::
  "'r FloatOps \<Rightarrow> u32 list list \<Rightarrow> sizes \<Rightarrow> sizes \<Rightarrow> 'r WorkSizeInfo \<Rightarrow> bool \<Rightarrow> sizes" where
  "choosePreferredWorkGroupSizeWithOutRatio ops factors wgs items ws descending =
     chosen (fold (\<lambda>xdim. fold (\<lambda>ydim. plainLoopZ ws items descending xdim ydim (rev (factors ! 2))) (rev (factors ! 1)))
       (rev (factors ! 0))
       \<lparr>chosen = wgs, localRatio = maxFloat ops, localNumWorkgroups = - 1, localEuThrdsDispatched = - 1\<rparr>)"

definition choosePreferredWorkgroupSize ::
  "'r FloatOps \<Rightarrow> u32 list list \<Rightarrow> sizes \<Rightarrow> sizes \<Rightarrow> 'r WorkSizeInfo \<Rightarrow> bool \<Rightarrow> sizes \<times> 'r WorkSizeInfo" where
  "choosePreferredWorkgroupSize ops factors wgs items ws descending =
     (let ws = checkRatio ops items ws in
      if useRatio ws then
        let wgs = choosePreferredWorkGroupSizeWithRatio ops factors wgs items ws descending in
        if useStrictRatio ws \<and> wgs ! 0 * wgs ! 1 * 2 \<le> ucast (simdSize ws) then
          let ws = ws\<lparr>useStrictRatio := False\<rparr>
          in (choosePreferredWorkGroupSizeWithRatio ops factors wgs items ws descending, ws)
        else (wgs, ws)
      else (choosePreferredWorkGroupSizeWithOutRatio ops factors wgs items ws descending, ws))"

definition choosePrefferedWorkgroupSize :: "'r FloatOps \<Rightarrow> 'r WorkSizeInfo \<Rightarrow> sizes \<Rightarrow> sizes \<Rightarrow> nat \<Rightarrow> sizes option" where
  "choosePrefferedWorkgroupSize ops ws wgs items workDim =
     (let factors = map (\<lambda>i. 1 # (if i < workDim then properFactors (maxWorkGroupSize ws) (items ! i) else [])) [0, 1, 2] in
      if \<exists>f \<in> set factors. length f > 1024 then None
      else
        let (wgs, ws) = choosePreferredWorkgroupSize ops factors wgs items ws True in
        if wgs ! 0 * wgs ! 1 * wgs ! 2 * 2 \<le> ucast (simdSize ws)
        then Some (fst (choosePreferredWorkgroupSize ops factors wgs items ws False))
        else Some wgs)"

section \<open>Two dimensions\<close>

record Choice2D =
  chosen2D :: sizes
  localWSWaste :: u64
  euThrds :: u64

fun loop2DY :: "u32 \<Rightarrow> sizes \<Rightarrow> u64 \<Rightarrow> u32 \<Rightarrow> u32 list \<Rightarrow> Choice2D \<Rightarrow> Choice2D" where
  "loop2DY maxSize items simd xDim [] c = c"
| "loop2DY maxSize items simd xDim (yDim # ys) c =
     (if xDim * yDim > maxSize then c
      else
        let workGroups = divideAndRoundUp (items ! 0) (ucast xDim) * divideAndRoundUp (items ! 1) (ucast yDim);
            euThrdsDispatched = divideAndRoundUp (ucast (xDim * yDim)) simd * workGroups;
            waste = (simd - (ucast (xDim * yDim - 1) AND (simd - 1))) * workGroups;
            c = (if euThrdsDispatched < euThrds c \<or> euThrdsDispatched = euThrds c \<and> waste < localWSWaste c
                 then c\<lparr>localWSWaste := waste, euThrds := euThrdsDispatched,
                        chosen2D := (chosen2D c)[0 := ucast xDim, 1 := ucast yDim]\<rparr> else c)
        in loop2DY maxSize items simd xDim ys c)"

definition computeWorkgroupSize2D :: "u32 \<Rightarrow> sizes \<Rightarrow> u64 \<Rightarrow> sizes option" where
  "computeWorkgroupSize2D maxSize items simd =
     (let xFactors = properFactors (maxSize + 1) (items ! 0); yFactors = properFactors (maxSize + 1) (items ! 1) in
      if length xFactors > 1024 \<or> length yFactors > 1024 \<or> maxSize = - 1 \<or>
         simd = 0 \<and> yFactors \<noteq> [] \<and> (\<exists>xDim \<in> set xFactors. xDim * hd yFactors \<le> maxSize) then None
      else Some (chosen2D (fold (\<lambda>xDim. loop2DY maxSize items simd xDim yFactors) (rev xFactors)
             \<lparr>chosen2D = [1, 1, 1], localWSWaste = - 1, euThrds = - 1\<rparr>)))"

function halveProduct :: "u64 \<Rightarrow> u64 \<Rightarrow> u64 \<Rightarrow> u64 \<times> u64" where
  "halveProduct a b maxSize =
     (if a * b > maxSize then if a > b then halveProduct (a div 2) b maxSize else halveProduct a (b div 2) maxSize
      else (a, b))"
  by pat_completeness auto
termination
proof (relation "measure (\<lambda>(a, b, m). unat a + unat b)", goal_cases)
  case (2 a b m)
  then have "unat b < unat a" by (simp add: word_less_nat_alt)
  then show ?case by (simp add: unat_div)
next
  case (3 a b m)
  then have "b \<noteq> 0" by auto
  then show ?case by (simp add: unat_div unat_gt_0)
qed simp

declare halveProduct.simps [simp del]

definition computeWorkgroupSizeSquared :: "u32 \<Rightarrow> sizes \<Rightarrow> u64 \<Rightarrow> nat \<Rightarrow> sizes option" where
  "computeWorkgroupSizeSquared maxSize items simd workDim =
     (let d = powerOfTwoDivisors maxSize items workDim in
      if d ! 0 * d ! 1 \<ge> ucast maxSize then
        let (a, b) = halveProduct (d ! 0) (d ! 1) (ucast maxSize) in Some [a, b, d ! 2]
      else if items ! 0 * items ! 1 > ucast maxSize then computeWorkgroupSize2D maxSize items simd
      else Some (map (\<lambda>i. if i < workDim then items ! i else 1) [0, 1, 2]))"

section \<open>Any number of dimensions\<close>

definition computeWorkgroupSizeND :: "'r FloatOps \<Rightarrow> bool \<Rightarrow> 'r WorkSizeInfo \<Rightarrow> sizes \<Rightarrow> nat \<Rightarrow> sizes option" where
  "computeWorkgroupSizeND ops enableSquared ws items workDim =
     (if simdSize ws = 0 then None
      else
        let totalNumberOfItems = items ! 0 * items ! 1 * items ! 2;
            optimalWgThreadCount = optimalHardwareThreadCountGeneric ! 0;
            moreThanSingle = totalNumberOfItems > ucast (simdSize ws * optimalWgThreadCount);
            rest = (\<lambda>ws.
              if totalNumberOfItems \<le> ucast (maxWorkGroupSize ws)
              then Some (map (\<lambda>i. if i < workDim then items ! i else 1) [0, 1, 2])
              else if workDim = 1 then computeWorkgroupSize1D (maxWorkGroupSize ws) items
              else choosePrefferedWorkgroupSize ops ws [1, 1, 1] items workDim)
        in
          if slmTotalSize ws = 0 \<and> \<not> hasBarriers ws then
            if enableSquared \<and> workDim = 2 \<and> \<not> imgUsed ws
            then computeWorkgroupSizeSquared (maxWorkGroupSize ws) items (ucast (simdSize ws)) workDim
            else
              let shrink = preferredWgCountPerSubSlice ws \<noteq> 0 \<and> simdSize ws = 32 \<and> moreThanSingle;
                  optimalWgThreadCount =
                    (if shrink then min optimalWgThreadCount (numThreadsPerSubSlice ws div preferredWgCountPerSubSlice ws)
                     else optimalWgThreadCount);
                  ws = (if shrink then ws\<lparr>maxWorkGroupSize := simdSize ws * optimalWgThreadCount\<rparr> else ws);
                  d = powerOfTwoDivisors (simdSize ws * optimalWgThreadCount) items workDim;
                  canUseNx4 = (imgUsed ws \<and> (d ! 0 \<ge> 4 \<or> d ! 0 \<ge> 2 \<and> simdSize ws = 8) \<and> d ! 1 \<ge> 4);
                  allItems = d ! 0 * d ! 1 * d ! 2
              in
                if allItems > ucast (simdSize ws) \<and>
                   (allItems > ucast (maxWorkGroupSize ws) \<or> allItems > ucast (simdSize ws * optimalWgThreadCount))
                then computePowerOfTwoLWS d ws [1, 1, 1] workDim canUseNx4
                else if allItems \<ge> ucast (simdSize ws) then
                  let d = d[1 := (if canUseNx4 then 4 else d ! 1)]
                  in Some (map (\<lambda>i. if i < workDim then d ! i else 1) [0, 1, 2])
                else rest ws
          else rest ws)"

section \<open>Callers\<close>

text \<open>
  OpenCL: \<open>computeWorkgroupSize\<close> of a dispatch with its kernel. The description holds what the device and
  the kernel report.
\<close>

record KernelDispatch =
  maxKernelWorkGroupSize :: u32
  usesBarriers :: bool
  maxSimdSize :: u32
  kernelSlmTotalSize :: u32
  threadsPerSubSlice :: u32
  deviceLocalMemSize :: u32
  argIsImage :: "bool list"
  fusedEuDispatchEnabled :: bool
  preferredWorkgroupCount :: u32

definition createWorkSizeInfoFromDispatchInfo :: "'r FloatOps \<Rightarrow> KernelDispatch \<Rightarrow> 'r WorkSizeInfo option" where
  "createWorkSizeInfoFromDispatchInfo ops k =
     map_option (\<lambda>ws. setPreferredWgCountPerSubslice (preferredWorkgroupCount k) (setIfUseImg (argIsImage k) ws))
       (newWorkSizeInfo ops (maxKernelWorkGroupSize k) (usesBarriers k) (maxSimdSize k) (kernelSlmTotalSize k)
         (threadsPerSubSlice k) (deviceLocalMemSize k) False False (fusedEuDispatchEnabled k))"

definition computeWorkgroupSize :: "'r FloatOps \<Rightarrow> bool \<Rightarrow> bool \<Rightarrow> KernelDispatch \<Rightarrow> sizes \<Rightarrow> nat \<Rightarrow> sizes option" where
  "computeWorkgroupSize ops enableND enableSquared k items workDim =
     (if enableND then
        case createWorkSizeInfoFromDispatchInfo ops k of
          None \<Rightarrow> None
        | Some ws \<Rightarrow> computeWorkgroupSizeND ops enableSquared ws items workDim
      else if workDim = 1 then computeWorkgroupSize1D (maxKernelWorkGroupSize k) items
      else if enableSquared \<and> workDim = 2
      then computeWorkgroupSizeSquared (maxKernelWorkGroupSize k) items (ucast (maxSimdSize k)) workDim
      else computeWorkgroupSize2D (maxKernelWorkGroupSize k) items (ucast (maxSimdSize k)))"

text \<open>Level Zero: the sizes already suggested are kept with the kernel.\<close>

record SuggestGroupSizeCacheEntry =
  cacheGroupSize :: sizes
  slmArgsTotalSize :: u32
  suggestedGroupSize :: sizes

datatype ze_result = ZE_RESULT_SUCCESS | ZE_RESULT_ERROR_OUT_OF_DEVICE_MEMORY

definition dimensionsOf :: "u32 \<Rightarrow> u32 \<Rightarrow> nat" where
  "dimensionsOf y z = (let dim = (if y > 1 then 2 else 1) in if z > 1 then 3 else dim)"

definition suggestGroupSize ::
  "'r FloatOps \<Rightarrow> bool \<Rightarrow> bool \<Rightarrow> bool \<Rightarrow> KernelDispatch \<Rightarrow> u32 \<Rightarrow> u32 \<Rightarrow> u32 \<Rightarrow> SuggestGroupSizeCacheEntry list \<Rightarrow>
   (ze_result \<times> (u32 \<times> u32 \<times> u32) option \<times> SuggestGroupSizeCacheEntry list) option" where
  "suggestGroupSize ops enableND enableSquared usesImages k x y z cache =
     (let items = [ucast x, ucast y, ucast z]; dim = dimensionsOf y z;
          narrow = (\<lambda>g :: sizes. (ucast (g ! 0) :: u32, ucast (g ! 1) :: u32, ucast (g ! 2) :: u32))
      in
      case List.find (\<lambda>e. cacheGroupSize e = items \<and> slmArgsTotalSize e = kernelSlmTotalSize k) cache of
        Some e \<Rightarrow> Some (ZE_RESULT_SUCCESS, Some (narrow (suggestedGroupSize e)), cache)
      | None \<Rightarrow>
          if enableND \<and> kernelSlmTotalSize k > 0 \<and> deviceLocalMemSize k < kernelSlmTotalSize k
          then Some (ZE_RESULT_ERROR_OUT_OF_DEVICE_MEMORY, None, cache)
          else
            let ret =
              (if enableND then
                 case newWorkSizeInfo ops (maxKernelWorkGroupSize k) (usesBarriers k) (maxSimdSize k) (kernelSlmTotalSize k)
                        (threadsPerSubSlice k) (deviceLocalMemSize k) usesImages False (fusedEuDispatchEnabled k) of
                   None \<Rightarrow> None
                 | Some ws \<Rightarrow> computeWorkgroupSizeND ops enableSquared ws items dim
               else if dim = 1 then computeWorkgroupSize1D (maxKernelWorkGroupSize k) items
               else if enableSquared \<and> dim = 2
               then computeWorkgroupSizeSquared (maxKernelWorkGroupSize k) items (ucast (maxSimdSize k)) dim
               else computeWorkgroupSize2D (maxKernelWorkGroupSize k) items (ucast (maxSimdSize k)))
            in case ret of
                 None \<Rightarrow> None
               | Some g \<Rightarrow> Some (ZE_RESULT_SUCCESS, Some (narrow g),
                   cache @ [\<lparr>cacheGroupSize = items, slmArgsTotalSize = kernelSlmTotalSize k, suggestedGroupSize = g\<rparr>]))"

section \<open>Numbers of work groups\<close>

definition computeWorkgroupsNumber :: "u64 \<times> u64 \<times> u64 \<Rightarrow> u64 \<times> u64 \<times> u64 \<Rightarrow> (u64 \<times> u64 \<times> u64) option" where
  "computeWorkgroupsNumber gws lws =
     (case (gws, lws) of ((gx, gy, gz), (lx, ly, lz)) \<Rightarrow>
        if lx = 0 \<or> ly = 0 \<or> lz = 0 then None
        else Some (gx div lx + (if gx mod lx \<noteq> 0 then 1 else 0), gy div ly + (if gy mod ly \<noteq> 0 then 1 else 0),
                   gz div lz + (if gz mod lz \<noteq> 0 then 1 else 0)))"

definition generateWorkgroupsNumber :: "u64 \<times> u64 \<times> u64 \<Rightarrow> u64 \<times> u64 \<times> u64 \<Rightarrow> (u64 \<times> u64 \<times> u64) option" where
  "generateWorkgroupsNumber gws lws = (if fst lws > 0 then computeWorkgroupsNumber gws lws else Some (0, 0, 0))"

definition canonizeWorkgroup :: "u64 \<times> u64 \<times> u64 \<Rightarrow> u64 \<times> u64 \<times> u64" where
  "canonizeWorkgroup w = (case w of (x, y, z) \<Rightarrow> if x > 0 then (x, max y 1, max z 1) else (0, 0, 0))"

definition getSimplifiedDim :: "u64 \<times> u64 \<times> u64 \<Rightarrow> u32" where
  "getSimplifiedDim v = (case v of (x, y, z) \<Rightarrow> if z > 1 then 3 else if y > 1 then 2 else if x \<ge> 1 then 1 else 0)"

definition calculateDispatchDim :: "u64 \<times> u64 \<times> u64 \<Rightarrow> u64 \<times> u64 \<times> u64 \<Rightarrow> u32" where
  "calculateDispatchDim dispatchSize dispatchOffset = max 1 (max (getSimplifiedDim dispatchSize) (getSimplifiedDim dispatchOffset))"

definition computeDimensions :: "sizes \<Rightarrow> u32" where
  "computeDimensions items = (if items ! 2 > 1 then 3 else if items ! 1 > 1 then 2 else 1)"

section \<open>Powers of two as exponents\<close>

lemma unat_lt32: "unat (w :: u32) < 4294967296"
  by (rule order_less_le_trans [OF unsigned_less]) simp

lemma unat_up32 [simp]: "unat (ucast (w :: u32) :: u64) = unat w"
  using unat_lt32 [of w] by (simp add: unsigned_ucast_eq take_bit_nat_eq_self_iff)

lemma up32_le: "(ucast (a :: u32) :: u64) \<le> b \<longleftrightarrow> unat a \<le> unat b"
  by (simp add: word_le_nat_alt)

lemma power_div_power: "j \<le> k \<Longrightarrow> (2 :: nat) ^ k div 2 ^ j = 2 ^ (k - j)"
  by (simp add: power_diff)

lemma exponent_le32: "unat (d :: u32) = 2 ^ k \<Longrightarrow> k < 32"
  using unat_lt32 [of d] power_less_imp_less_exp [of "2 :: nat" k 32] by simp

lemma divisible_iff:
  assumes "unat (c :: u32) = 2 ^ k"
  shows "isDivisibleByPowerOfTwoDivisor (ucast items) c \<longleftrightarrow> (2 ^ k :: nat) dvd unat (items :: u64)"
proof -
  have k: "k < 32" by (rule exponent_le32 [OF assms])
  have c: "c = 2 ^ k" using assms k by (simp add: word_unat_eq_iff unat_pow2)
  have "unat (take_bit k (ucast items :: u32)) = unat items mod 2 ^ 32 mod 2 ^ k"
    by (simp only: unat_take_bit unsigned_ucast_eq) (simp add: take_bit_eq_mod)
  also have "\<dots> = unat items mod 2 ^ k"
    using k by (intro mod_mod_cancel le_imp_power_dvd) simp
  finally have "take_bit k (ucast items :: u32) = 0 \<longleftrightarrow> unat items mod 2 ^ k = 0"
    by (simp add: word_unat_eq_iff)
  moreover have "(ucast items :: u32) AND (c - 1) = take_bit k (ucast items)"
    by (simp add: c pow2_minus_1_mask take_bit_eq_mask)
  ultimately show ?thesis by (simp only: isDivisibleByPowerOfTwoDivisor_def dvd_eq_mod_eq_0)
qed

lemma half_exponent: "unat (d :: u32) = 2 ^ k \<Longrightarrow> 0 < k \<Longrightarrow> unat (d div 2) = 2 ^ (k - 1)"
  by (simp add: unat_div power_diff)

lemma powerOfTwoDivisor_spec:
  "unat count = 2 ^ k \<Longrightarrow> \<exists>j \<le> k. unat (powerOfTwoDivisor count items) = 2 ^ j \<and> 2 ^ j dvd unat items"
proof (induction count items arbitrary: k rule: powerOfTwoDivisor.induct)
  case (1 count items)
  show ?case
  proof (cases "count > 1 \<and> \<not> isDivisibleByPowerOfTwoDivisor (ucast items) count")
    case True
    then have "0 < k" using 1(2) by (cases k) (auto simp: word_less_nat_alt)
    then have "\<exists>j \<le> k - 1. unat (powerOfTwoDivisor (count div 2) items) = 2 ^ j \<and> 2 ^ j dvd unat items"
      using 1(1) [OF True half_exponent] 1(2) by simp
    then show ?thesis using True by (auto simp: powerOfTwoDivisor.simps [of count items] intro: le_trans)
  next
    case False
    have "2 ^ k dvd unat items"
    proof (cases "count > 1")
      case True
      then show ?thesis using False divisible_iff [OF 1(2)] by simp
    next
      case c: False
      then have "unat count \<le> 1" by (simp add: word_less_nat_alt)
      then have "k = 0" using 1(2) power_le_imp_le_exp [of "2 :: nat" k 0] by simp
      then show ?thesis by simp
    qed
    moreover have "powerOfTwoDivisor count items = count" using False by (subst powerOfTwoDivisor.simps) (rule if_not_P)
    ultimately show ?thesis using 1(2) by auto
  qed
qed

lemma halveTo_spec:
  "unat d = 2 ^ k \<Longrightarrow> unat items = 2 ^ j \<Longrightarrow> unat (halveTo d items) = 2 ^ min k j"
proof (induction d items arbitrary: k rule: halveTo.induct)
  case (1 d items)
  show ?case
  proof (cases "ucast d > items")
    case True
    then have jk: "j < k" using 1(2,3) by (simp add: word_less_nat_alt)
    then have "unat (halveTo (d div 2) items) = 2 ^ min (k - 1) j"
      using 1(1) [OF True half_exponent [OF 1(2)] 1(3)] by simp
    moreover have "min (k - 1) j = min k j" using jk by simp
    ultimately show ?thesis using True by (subst halveTo.simps) simp
  next
    case False
    then have "k \<le> j" using 1(2,3) by (simp add: word_less_nat_alt)
    then show ?thesis using False 1(2) by (subst halveTo.simps) (simp add: min_def)
  qed
qed

lemma pickThreadCount_spec:
  assumes "pickThreadCount ts simd maxSize = Some t"
  shows "t \<in> set ts \<and> (t \<le> 1 \<or> t * simd \<le> maxSize)"
  using assms by (induction ts) (auto split: if_splits)

lemma pickThreadCount_returns: "1 \<in> set ts \<Longrightarrow> \<exists>t. pickThreadCount ts simd maxSize = Some t"
  by (induction ts) auto

lemma optimal_exponent:
  assumes "t \<in> set optimalHardwareThreadCountGeneric"
  shows "\<exists>a \<le> 5. unat t = 2 ^ a"
proof -
  consider "t = 32" | "t = 16" | "t = 8" | "t = 4" | "t = 2" | "t = 1"
    using assms unfolding optimalHardwareThreadCountGeneric_def by auto
  then show ?thesis
  proof cases
    case 1 then show ?thesis by (intro exI [of _ 5]) simp
  next
    case 2 then show ?thesis by (intro exI [of _ 4]) simp
  next
    case 3 then show ?thesis by (intro exI [of _ 3]) simp
  next
    case 4 then show ?thesis by (intro exI [of _ 2]) simp
  next
    case 5 then show ?thesis by (intro exI [of _ 1]) simp
  next
    case 6 then show ?thesis by (intro exI [of _ 0]) simp
  qed
qed

lemma threadCount:
  assumes n: "n \<le> 2" and simd: "unat simd = 2 ^ s" "s \<le> 5" and m: "simd \<le> maxSize"
  shows "\<exists>t a. pickThreadCount (drop n optimalHardwareThreadCountGeneric) simd maxSize = Some t \<and>
    unat (t * simd) = 2 ^ (a + s) \<and> a \<le> 5 \<and> 2 ^ (a + s) \<le> unat maxSize"
proof -
  have ns: "n = 0 \<or> n = 1 \<or> n = 2" using n by auto
  have "(1 :: u32) \<in> set (drop n optimalHardwareThreadCountGeneric)"
    using ns by (auto simp: optimalHardwareThreadCountGeneric_def)
  then obtain t where t: "pickThreadCount (drop n optimalHardwareThreadCountGeneric) simd maxSize = Some t"
    using pickThreadCount_returns by blast
  have mem: "t \<in> set optimalHardwareThreadCountGeneric" and le: "t \<le> 1 \<or> t * simd \<le> maxSize"
    using pickThreadCount_spec [OF t] by (auto dest: in_set_dropD)
  obtain a where a: "a \<le> 5" "unat t = 2 ^ a" using optimal_exponent [OF mem] by blast
  have "(2 :: nat) ^ (a + s) \<le> 2 ^ 10" using a simd by (intro power_increasing) auto
  then have u: "unat (t * simd) = 2 ^ (a + s)" using a simd by (subst unat_mult_nowrap) (simp_all add: power_add)
  have "2 ^ (a + s) \<le> unat maxSize"
  proof (cases "t \<le> 1")
    case True
    then have "unat t \<le> 1" by (simp add: word_le_nat_alt)
    then have "a = 0" using a(2) power_le_imp_le_exp [of "2 :: nat" a 0] by simp
    then show ?thesis using m simd(1) by (simp add: word_le_nat_alt)
  next
    case False
    then show ?thesis using le u by (simp add: word_le_nat_alt)
  qed
  then show ?thesis using t u a(1) by blast
qed

section \<open>Sizes that fit\<close>

definition fits :: "sizes \<Rightarrow> nat \<Rightarrow> sizes \<Rightarrow> bool" where
  "fits items limit g \<longleftrightarrow> length g = 3 \<and> (\<forall>i < 3. g ! i \<noteq> 0 \<and> unat (g ! i) dvd unat (items ! i)) \<and>
     unat (g ! 0) * unat (g ! 1) * unat (g ! 2) \<le> limit"

lemma all_less_3: "(\<forall>i < (3 :: nat). P i) \<longleftrightarrow> P 0 \<and> P 1 \<and> P 2"
  by (auto simp: less_Suc_eq numeral_3_eq_3 numeral_2_eq_2)

lemma fits_list:
  "fits items limit [a, b, c] \<longleftrightarrow> a \<noteq> 0 \<and> b \<noteq> 0 \<and> c \<noteq> 0 \<and> unat a dvd unat (items ! 0) \<and> unat b dvd unat (items ! 1) \<and>
     unat c dvd unat (items ! 2) \<and> unat a * unat b * unat c \<le> limit"
  by (auto simp: fits_def all_less_3)

lemma pow_nonzero: "unat (w :: 'a::len word) = 2 ^ k \<Longrightarrow> w \<noteq> 0"
  by (metis power_not_zero unsigned_0 zero_neq_numeral)

lemma fits_exponents:
  assumes "unat x = 2 ^ k0" "unat y = 2 ^ k1" "unat z = 2 ^ k2"
    and "2 ^ a0 dvd unat (items ! 0)" "2 ^ a1 dvd unat (items ! 1)" "2 ^ a2 dvd unat (items ! 2)"
    and "k0 \<le> a0" "k1 \<le> a1" "k2 \<le> a2" "(2 :: nat) ^ (k0 + k1 + k2) \<le> limit"
  shows "fits items limit [x, y, z]"
  unfolding fits_list using assms pow_nonzero [OF assms(1)] pow_nonzero [OF assms(2)] pow_nonzero [OF assms(3)]
  by (auto simp: power_add intro: dvd_trans le_imp_power_dvd)

lemma power_of_two_sizes:
  assumes d: "unat (d ! 0) = 2 ^ a0" "unat (d ! 1) = 2 ^ a1" "unat (d ! 2) = 2 ^ a2"
    and dvd: "2 ^ a0 dvd unat (items ! 0)" "2 ^ a1 dvd unat (items ! 1)" "2 ^ a2 dvd unat (items ! 2)"
    and simd: "unat (simdSize ws) = 2 ^ s" "3 \<le> s" "s \<le> 5" "simdSize ws \<le> maxWorkGroupSize ws"
    and dim: "workDim = 2 \<Longrightarrow> a2 = 0"
    and nx4: "nx4 \<Longrightarrow> 2 \<le> a1"
    and big: "unat (maxWorkGroupSize ws) < 2 ^ (a0 + a1 + a2) \<or> s + 5 < a0 + a1 + a2"
  shows "\<exists>g. computePowerOfTwoLWS d ws [1, 1, 1] workDim nx4 = Some g \<and> fits items (unat (maxWorkGroupSize ws)) g"
proof -
  let ?n = "if nx4 \<or> numThreadsPerSubSlice ws < highThreadCountThreshold then 2 else (0 :: nat)"
  let ?m = "unat (maxWorkGroupSize ws)"
  have n: "?n \<le> 2" by simp
  obtain t e where t: "pickThreadCount (drop ?n optimalHardwareThreadCountGeneric) (simdSize ws) (maxWorkGroupSize ws) = Some t"
    and e: "unat (t * simdSize ws) = 2 ^ (e + s)" "e \<le> 5" "2 ^ (e + s) \<le> ?m"
    using threadCount [OF n simd(1,3,4)] by blast
  have small: "e + s \<le> a0 + a1 + a2"
  proof (cases "?m < 2 ^ (a0 + a1 + a2)")
    case True
    then have "(2 :: nat) ^ (e + s) < 2 ^ (a0 + a1 + a2)" using e(3) by linarith
    then have "e + s < a0 + a1 + a2" by (rule power_less_imp_less_exp [rotated]) simp
    then show ?thesis by simp
  next
    case False
    then show ?thesis using big e(2) by simp
  qed
  let ?th = "t * simdSize ws"
  show ?thesis
  proof (cases "workDim = 2")
    case True
    let ?k = "if nx4 then e + s - 2 else e + s"
    have th: "unat (?th div (if nx4 then 4 else 1)) = 2 ^ ?k"
      using e(1) simd(2) power_div_power [of 2 "e + s"] by (simp add: unat_div)
    let ?x = "halveTo (?th div (if nx4 then 4 else 1)) (d ! 0)"
    have x: "unat ?x = 2 ^ min ?k a0" by (rule halveTo_spec [OF th d(1)])
    let ?y = "if nx4 then 4 else ?th div ?x :: u32"
    have y: "unat ?y = 2 ^ (if nx4 then 2 else e + s - min (e + s) a0)"
      using e(1) x power_div_power [of "min (e + s) a0" "e + s"] by (cases nx4) (simp_all add: unat_div)
    have "fits items ?m [ucast ?x, ucast ?y, 1]"
    proof (rule fits_exponents [OF _ _ _ dvd])
      show "unat (ucast ?x :: u64) = 2 ^ min ?k a0" using x by simp
      show "unat (ucast ?y :: u64) = 2 ^ (if nx4 then 2 else e + s - min (e + s) a0)" using y by simp
      show "unat (1 :: u64) = 2 ^ 0" by simp
      have "(2 :: nat) ^ (min ?k a0 + (if nx4 then 2 else e + s - min (e + s) a0) + 0) \<le> 2 ^ (e + s)"
        using simd(2) by (intro power_increasing) auto
      then show "(2 :: nat) ^ (min ?k a0 + (if nx4 then 2 else e + s - min (e + s) a0) + 0) \<le> ?m" using e(3) by linarith
    qed (use nx4 small dim [OF True] in auto)
    moreover have "computePowerOfTwoLWS d ws [1, 1, 1] workDim nx4 = Some [ucast ?x, ucast ?y, 1]"
      using t True pow_nonzero [OF x] by (simp add: computePowerOfTwoLWS_def Let_def)
    ultimately show ?thesis by blast
  next
    case False
    let ?x = "halveTo ?th (d ! 0)"
    have x: "unat ?x = 2 ^ min (e + s) a0" by (rule halveTo_spec [OF e(1) d(1)])
    have q: "unat (?th div ?x) = 2 ^ (e + s - min (e + s) a0)"
      using e(1) x power_div_power [of "min (e + s) a0" "e + s"] by (simp add: unat_div)
    let ?y = "halveTo (?th div ?x) (d ! 1)" and ?k1 = "min (e + s - min (e + s) a0) a1"
    have y: "unat ?y = 2 ^ ?k1" by (rule halveTo_spec [OF q d(2)])
    have le: "min (e + s) a0 + ?k1 \<le> e + s" by auto
    have "(2 :: nat) ^ (min (e + s) a0 + ?k1) \<le> 2 ^ 10" using le e(2) simd(3) by (intro power_increasing) auto
    then have xy: "unat (?x * ?y) = 2 ^ (min (e + s) a0 + ?k1)"
      using x y by (subst unat_mult_nowrap) (simp_all add: power_add)
    let ?z = "?th div (?x * ?y)"
    have z: "unat ?z = 2 ^ (e + s - (min (e + s) a0 + ?k1))"
      using e(1) xy power_div_power [OF le] by (simp add: unat_div)
    have "fits items ?m [ucast ?x, ucast ?y, ucast ?z]"
    proof (rule fits_exponents [OF _ _ _ dvd])
      show "unat (ucast ?x :: u64) = 2 ^ min (e + s) a0" "unat (ucast ?y :: u64) = 2 ^ ?k1"
        "unat (ucast ?z :: u64) = 2 ^ (e + s - (min (e + s) a0 + ?k1))" using x y z by simp_all
      show "(2 :: nat) ^ (min (e + s) a0 + ?k1 + (e + s - (min (e + s) a0 + ?k1))) \<le> ?m" using e(3) le by simp
    qed (use small in auto)
    moreover have "computePowerOfTwoLWS d ws [1, 1, 1] workDim nx4 = Some [ucast ?x, ucast ?y, ucast ?z]"
      using t False pow_nonzero [OF x] pow_nonzero [OF xy] by (simp add: computePowerOfTwoLWS_def Let_def)
    ultimately show ?thesis by blast
  qed
qed

section \<open>Choices among the divisors\<close>

text \<open>A usable divisor: at least 1, below 1024, and it divides.\<close>

definition divisorOf :: "u64 \<Rightarrow> u32 \<Rightarrow> bool" where
  "divisorOf items j \<longleftrightarrow> 1 \<le> unat j \<and> unat j \<le> 1024 \<and> unat j dvd unat items"

lemma mod_zero_dvd: "items mod ucast (j :: u32) = 0 \<longleftrightarrow> unat j dvd unat (items :: u64)"
  by (simp add: word_unat_eq_iff unat_mod dvd_eq_mod_eq_0)

lemma properFactors_divisor:
  assumes "unat limit \<le> 1025" "j \<in> set (properFactors limit items)"
  shows "divisorOf items j"
proof -
  have j: "j \<in> of_nat ` {2..<unat limit}" "items mod ucast j = 0"
    using assms(2) unfolding properFactors_def set_filter set_map set_upt by blast+
  then obtain n where n: "j = of_nat n" "2 \<le> n" "n < unat limit" by auto
  then have u: "unat j = n" using assms(1) by (simp add: unat_of_nat take_bit_nat_eq_self_iff unsigned_of_nat)
  have "unat j dvd unat items" using j(2) by (rule mod_zero_dvd [THEN iffD1])
  then show ?thesis using n(2,3) u assms(1) by (simp add: divisorOf_def)
qed

lemma properFactors_length: "length (properFactors limit items) \<le> unat limit - 2"
  unfolding properFactors_def by (rule order_trans [OF length_filter_le]) simp

lemma product32:
  assumes "unat (a :: u32) \<le> 1024" "unat (b :: u32) \<le> 1024" "unat (c :: u32) \<le> 1024"
  shows "unat (a * b) = unat a * unat b" "unat (a * b * c) = unat a * unat b * unat c"
proof -
  have ab: "unat a * unat b \<le> 1024 * 1024" using assms by (intro mult_mono) auto
  then show m: "unat (a * b) = unat a * unat b" by (intro unat_mult_nowrap) simp
  have "unat a * unat b * unat c \<le> 1024 * 1024 * 1024" using ab assms by (intro mult_mono) auto
  then show "unat (a * b * c) = unat a * unat b * unat c" using m by (subst unat_mult_nowrap) simp_all
qed

lemma divisor_size: "divisorOf items j \<Longrightarrow> (ucast j :: u64) \<noteq> 0 \<and> unat (ucast j :: u64) dvd unat items"
  by (auto simp: divisorOf_def word_unat_eq_iff)

lemma fits_update:
  assumes "fits items limit g" "g ! 2 = 1" "divisorOf (items ! 0) x" "divisorOf (items ! 1) y" "unat x * unat y \<le> limit"
  shows "fits items limit (g[0 := ucast x, 1 := ucast y]) \<and> g[0 := ucast x, 1 := ucast y] ! 2 = 1"
  using assms divisor_size [OF assms(3)] divisor_size [OF assms(4)] by (simp add: fits_def all_less_3)

lemma ratioLoopY_fits:
  assumes x: "divisorOf (items ! 0) x" and m: "unat (maxWorkGroupSize ws) \<le> limit"
  shows "\<forall>y \<in> set ys. divisorOf (items ! 1) y \<Longrightarrow> fits items limit (chosen c) \<and> chosen c ! 2 = 1 \<Longrightarrow>
    fits items limit (chosen (ratioLoopY ops ws items desc x ys c)) \<and> chosen (ratioLoopY ops ws items desc x ys c) ! 2 = 1"
proof (induction ys arbitrary: c)
  case (Cons y ys)
  have y: "divisorOf (items ! 1) y" using Cons.prems(1) by simp
  have "unat x * unat y \<le> limit" if "\<not> x * y > maxWorkGroupSize ws"
    using that x y m product32(1) [of x y y] by (auto simp: divisorOf_def word_less_nat_alt)
  then show ?case using Cons fits_update [OF _ _ x y] by (auto simp: Let_def)
qed simp

lemma ratio_fits:
  assumes f: "\<forall>x \<in> set (factors ! 0). divisorOf (items ! 0) x" "\<forall>y \<in> set (factors ! 1). divisorOf (items ! 1) y"
    and m: "unat (maxWorkGroupSize ws) \<le> limit" and g: "fits items limit g" "g ! 2 = 1"
  shows "fits items limit (choosePreferredWorkGroupSizeWithRatio ops factors g items ws desc) \<and>
    choosePreferredWorkGroupSizeWithRatio ops factors g items ws desc ! 2 = 1"
  unfolding choosePreferredWorkGroupSizeWithRatio_def
proof (rule fold_invariant [where Q = "divisorOf (items ! 0)" and P = "\<lambda>c. fits items limit (chosen c) \<and> chosen c ! 2 = 1"])
  fix x and c :: "'a Choice"
  assume "divisorOf (items ! 0) x" "fits items limit (chosen c) \<and> chosen c ! 2 = 1"
  then show "fits items limit (chosen (ratioLoopY ops ws items desc x (factors ! 1) c)) \<and>
      chosen (ratioLoopY ops ws items desc x (factors ! 1) c) ! 2 = 1"
    using ratioLoopY_fits [OF _ m f(2)] by blast
qed (use f g in auto)

lemma plainLoopZ_fits:
  assumes x: "divisorOf (items ! 0) x" and y: "divisorOf (items ! 1) y" and m: "unat (maxWorkGroupSize ws) \<le> limit"
  shows "\<forall>z \<in> set zs. divisorOf (items ! 2) z \<Longrightarrow> fits items limit (chosen c) \<Longrightarrow>
    fits items limit (chosen (plainLoopZ ws items desc x y zs c))"
proof (induction zs arbitrary: c)
  case (Cons z zs)
  have z: "divisorOf (items ! 2) z" using Cons.prems(1) by simp
  have "fits items limit [ucast x, ucast y, ucast z]" if "\<not> x * y * z > maxWorkGroupSize ws"
    using that x y z m product32(2) [of x y z] divisor_size [OF x] divisor_size [OF y] divisor_size [OF z]
    by (auto simp: divisorOf_def word_less_nat_alt fits_list)
  then show ?case using Cons by (auto simp: Let_def)
qed simp

lemma plain_fits:
  assumes f: "\<forall>x \<in> set (factors ! 0). divisorOf (items ! 0) x" "\<forall>y \<in> set (factors ! 1). divisorOf (items ! 1) y"
      "\<forall>z \<in> set (factors ! 2). divisorOf (items ! 2) z"
    and m: "unat (maxWorkGroupSize ws) \<le> limit" and g: "fits items limit g"
  shows "fits items limit (choosePreferredWorkGroupSizeWithOutRatio ops factors g items ws desc)"
  unfolding choosePreferredWorkGroupSizeWithOutRatio_def
proof (rule fold_invariant [where Q = "divisorOf (items ! 0)" and P = "\<lambda>c. fits items limit (chosen c)"])
  fix x and c :: "'a Choice"
  assume x: "divisorOf (items ! 0) x" and c: "fits items limit (chosen c)"
  show "fits items limit (chosen (fold (\<lambda>y. plainLoopZ ws items desc x y (rev (factors ! 2))) (rev (factors ! 1)) c))"
  proof (rule fold_invariant [where Q = "divisorOf (items ! 1)" and P = "\<lambda>c. fits items limit (chosen c)"])
    fix y and c :: "'a Choice"
    assume "divisorOf (items ! 1) y" "fits items limit (chosen c)"
    then show "fits items limit (chosen (plainLoopZ ws items desc x y (rev (factors ! 2)) c))"
      using plainLoopZ_fits [OF x _ m] f(3) by simp
  qed (use f c in auto)
qed (use f g in auto)

lemma checkRatio_fields [simp]:
  "maxWorkGroupSize (checkRatio ops items ws) = maxWorkGroupSize ws"
  "slmTotalSize (checkRatio ops items ws) = slmTotalSize ws" "yTiledSurfaces (checkRatio ops items ws) = yTiledSurfaces ws"
  by (simp_all add: checkRatio_def)

lemma checkRatio_use: "useRatio (checkRatio ops items ws) \<longleftrightarrow> useRatio ws \<or> slmTotalSize ws > 0 \<or> yTiledSurfaces ws"
  by (auto simp: checkRatio_def)

text \<open>The choice with a ratio leaves the third dimension at 1.\<close>

definition plausible :: "sizes \<Rightarrow> nat \<Rightarrow> 'r WorkSizeInfo \<Rightarrow> sizes \<Rightarrow> bool" where
  "plausible items limit ws g \<longleftrightarrow> fits items limit g \<and> (useRatio ws \<or> slmTotalSize ws > 0 \<or> yTiledSurfaces ws \<longrightarrow> g ! 2 = 1)"

lemma choosePreferred_fits:
  assumes f: "\<forall>x \<in> set (factors ! 0). divisorOf (items ! 0) x" "\<forall>y \<in> set (factors ! 1). divisorOf (items ! 1) y"
      "\<forall>z \<in> set (factors ! 2). divisorOf (items ! 2) z"
    and m: "unat (maxWorkGroupSize ws) \<le> limit" and g: "plausible items limit ws g"
    and r: "choosePreferredWorkgroupSize ops factors g items ws desc = (g', ws')"
  shows "plausible items limit ws' g' \<and> maxWorkGroupSize ws' = maxWorkGroupSize ws"
proof -
  let ?ws = "checkRatio ops items ws"
  show ?thesis
  proof (cases "useRatio ?ws")
    case True
    then have g2: "g ! 2 = 1" using g by (simp add: plausible_def checkRatio_use)
    have fit: "fits items limit g" using g by (simp add: plausible_def)
    have a: "fits items limit (choosePreferredWorkGroupSizeWithRatio ops factors h items v desc) \<and>
        choosePreferredWorkGroupSizeWithRatio ops factors h items v desc ! 2 = 1"
      if "fits items limit h" "h ! 2 = 1" "maxWorkGroupSize v = maxWorkGroupSize ws" for h and v :: "'a WorkSizeInfo"
      by (rule ratio_fits [OF f(1,2) _ that(1,2)]) (use that(3) m in simp)
    show ?thesis
      using r True a [OF fit g2, of ?ws] a [of _ "?ws\<lparr>useStrictRatio := False\<rparr>"]
      by (auto simp: choosePreferredWorkgroupSize_def Let_def plausible_def split: if_splits)
  next
    case False
    then have "fits items limit g'" using r plain_fits [OF f, of ?ws limit g] m g
      by (auto simp: choosePreferredWorkgroupSize_def Let_def plausible_def)
    then show ?thesis using False r
      by (auto simp: choosePreferredWorkgroupSize_def Let_def plausible_def checkRatio_use)
  qed
qed

lemma one_divisor: "divisorOf items 1"
  by (simp add: divisorOf_def)

lemma chosen_sizes:
  assumes m: "unat (maxWorkGroupSize ws) \<le> 1024" and one: "1 \<le> unat (maxWorkGroupSize ws)"
  shows "\<exists>g. choosePrefferedWorkgroupSize ops ws [1, 1, 1] items workDim = Some g \<and> fits items (unat (maxWorkGroupSize ws)) g"
proof -
  let ?limit = "unat (maxWorkGroupSize ws)"
  let ?f = "\<lambda>i. 1 # (if i < workDim then properFactors (maxWorkGroupSize ws) (items ! i) else [])"
  let ?factors = "map ?f [0, 1, 2]"
  have d: "\<forall>j \<in> set (?f i). divisorOf (items ! i) j" for i
    using properFactors_divisor [of "maxWorkGroupSize ws"] m one_divisor by auto
  have len: "length (?f i) \<le> 1024" for i
    using properFactors_length [of "maxWorkGroupSize ws" "items ! i"] m by (cases "i < workDim") simp_all
  have f: "\<forall>x \<in> set (?factors ! 0). divisorOf (items ! 0) x" "\<forall>y \<in> set (?factors ! 1). divisorOf (items ! 1) y"
      "\<forall>z \<in> set (?factors ! 2). divisorOf (items ! 2) z" using d [of 0] d [of 1] d [of 2] by simp_all
  have start: "plausible items ?limit ws [1, 1, 1]" using one by (simp add: plausible_def fits_list)
  obtain g1 ws1 where g1: "choosePreferredWorkgroupSize ops ?factors [1, 1, 1] items ws True = (g1, ws1)" by fastforce
  obtain g2 ws2 where g2: "choosePreferredWorkgroupSize ops ?factors g1 items ws1 False = (g2, ws2)" by fastforce
  have p1: "plausible items ?limit ws1 g1" "maxWorkGroupSize ws1 = maxWorkGroupSize ws"
    using choosePreferred_fits [OF f order_refl start g1] by simp_all
  have p2: "plausible items ?limit ws2 g2"
    using choosePreferred_fits [OF f _ p1(1) g2] p1(2) by simp
  have short: "\<not> (\<exists>f \<in> set ?factors. length f > 1024)" using len [of 0] len [of 1] len [of 2] by (auto simp: not_less simp del: One_nat_def list.size)
  have "choosePrefferedWorkgroupSize ops ws [1, 1, 1] items workDim =
      (if g1 ! 0 * g1 ! 1 * g1 ! 2 * 2 \<le> ucast (simdSize ws1) then Some g2 else Some g1)"
    unfolding choosePrefferedWorkgroupSize_def Let_def if_not_P [OF short] g1 prod.case g2 fst_conv by (rule refl)
  then show ?thesis using p1(1) p2 by (auto simp: plausible_def)
qed

section \<open>One dimension\<close>

lemma factorLoop_fits:
  assumes p: "2 \<le> unat p" "unat p \<le> 251" and m: "unat m \<le> 1024"
  shows "1 \<le> unat w \<Longrightarrow> unat w \<le> unat m \<Longrightarrow> unat w dvd unat items \<Longrightarrow>
    \<exists>w'. factorLoop p items w m = Some w' \<and> 1 \<le> unat w' \<and> unat w' \<le> unat m \<and> unat w' dvd unat items"
proof (induction "unat m - unat w" arbitrary: w rule: less_induct)
  case less
  have wp: "unat w * unat p \<le> 1024 * 1024" using less.prems m p by (intro mult_mono) auto
  then have u: "unat (w * p) = unat w * unat p" by (intro unat_mult_nowrap) simp
  have big: "unat w < unat w * unat p" using less.prems p by simp
  show ?case
  proof (cases "w * p \<le> m \<and> items mod ucast (w * p) = 0")
    case True
    then have le: "unat (w * p) \<le> unat m" and dvd: "unat (w * p) dvd unat items"
      using mod_zero_dvd [of items "w * p"] by (simp_all only: word_le_nat_alt)
    have nz: "w * p \<noteq> 0" using u big by (metis less_nat_zero_code unsigned_0)
    have "factorLoop p items w m = factorLoop p items (w * p) m"
      using True nz by (subst factorLoop.simps) (simp only: Let_def if_True if_False simp_thms)
    moreover have "\<exists>w'. factorLoop p items (w * p) m = Some w' \<and> 1 \<le> unat w' \<and> unat w' \<le> unat m \<and> unat w' dvd unat items"
      by (rule less.hyps) (use u big le dvd less.prems in linarith)+
    ultimately show ?thesis by metis
  next
    case False
    have nz: "w * p \<noteq> 0" using u big by (metis less_nat_zero_code unsigned_0)
    have "factorLoop p items w m = Some w"
      using False nz by (subst factorLoop.simps) (auto simp only: Let_def split: if_splits)
    then show ?thesis using less.prems by blast
  qed
qed

lemma factorPrimes_fits:
  assumes m: "unat m \<le> 1024"
  shows "\<forall>p \<in> set ps. 2 \<le> unat p \<and> unat p \<le> 251 \<Longrightarrow> 1 \<le> unat w \<Longrightarrow> unat w \<le> unat m \<Longrightarrow> unat w dvd unat items \<Longrightarrow>
    \<exists>w'. factorPrimes ps items w m = Some w' \<and> 1 \<le> unat w' \<and> unat w' \<le> unat m \<and> unat w' dvd unat items"
proof (induction ps arbitrary: w)
  case (Cons p ps)
  obtain v where v: "factorLoop p items w m = Some v" "1 \<le> unat v" "unat v \<le> unat m" "unat v dvd unat items"
    using factorLoop_fits [OF _ _ m, of p w items] Cons.prems by auto
  show ?case using Cons.IH [OF _ v(2-4)] Cons.prems v(1) by auto
qed simp

lemma primeNumbers_range: "\<forall>p \<in> set (rev primeNumbers). 2 \<le> unat p \<and> unat p \<le> 251"
  by (simp add: primeNumbers_def)

lemma lowest_bit:
  assumes "(v :: 'a::len word) \<noteq> 0"
  shows "\<exists>k. bit v k \<and> (\<forall>n < k. \<not> bit v n)"
proof -
  obtain n where "bit v n" using assms by (metis bit_0_eq bit_word_eqI bot_apply bot_bool_def)
  then show ?thesis by (intro exI [of _ "LEAST n. bit v n"]) (metis LeastI not_less_Least)
qed

lemma low_zeros_dvd: "(\<And>n. n < k \<Longrightarrow> \<not> bit (w :: 'a::len word) n) \<Longrightarrow> 2 ^ k dvd unat w"
proof -
  assume low: "\<And>n. n < k \<Longrightarrow> \<not> bit w n"
  have "take_bit k (unat w) = 0" by (rule bit_eqI) (auto simp: bit_simps low)
  then show ?thesis by (simp add: take_bit_eq_mod dvd_eq_mod_eq_0)
qed

text \<open>The lowest set bit of the low half; a low half of 0 gives bit 0.\<close>

lemma lowest_power_divides: "2 ^ unat (getMinLsbSet (ucast (items :: u64))) dvd unat items \<and> unat (getMinLsbSet (ucast items)) < 32"
proof (cases "(ucast items :: u32) = 0")
  case True
  have "getMinLsbSet 0 = 0" by (simp add: getMinLsbSet_def multiplyDeBruijnBitPosition_def)
  then show ?thesis using True by simp
next
  case False
  then obtain k where k: "bit (ucast items :: u32) k" "\<And>n. n < k \<Longrightarrow> \<not> bit (ucast items :: u32) n"
    using lowest_bit by blast
  have k32: "k < 32" using bit_imp_le_length [OF k(1)] by simp
  have "2 ^ k dvd unat items"
  proof (rule low_zeros_dvd)
    fix n assume "n < k"
    then show "\<not> bit items n" using k(2) [of n] k32 by (simp add: bit_simps)
  qed
  then show ?thesis using getMinLsbSet_lowest [OF k] k32 by simp
qed

lemma start_size:
  assumes m: "unat m = 2 ^ e" and k: "2 ^ k dvd (n :: nat)" "k < 32"
  shows "1 \<le> unat (min (push_bit k (1 :: u32)) m) \<and> unat (min (push_bit k 1) m) \<le> unat m \<and> unat (min (push_bit k 1) m) dvd n"
proof -
  have p: "unat (push_bit k (1 :: u32)) = 2 ^ k" using k(2) by (simp add: push_bit_eq_mult unat_pow2)
  show ?thesis
  proof (cases "k \<le> e")
    case True
    then have "min (push_bit k 1) m = push_bit k 1" using p m by (simp add: min_def word_le_nat_alt)
    then show ?thesis using p m k True by simp
  next
    case False
    then have "2 ^ e dvd n" using k(1) by (meson dvd_trans le_imp_power_dvd nat_le_linear)
    moreover have "min (push_bit k 1) m = m" using p m False by (simp add: min_def word_le_nat_alt)
    ultimately show ?thesis using m by simp
  qed
qed

lemma oneD_fits:
  assumes m: "unat m = 2 ^ e" "unat m \<le> 1024"
  shows "\<exists>g. computeWorkgroupSize1D m items = Some g \<and> fits items (unat m) g"
proof -
  let ?k = "unat (getMinLsbSet (ucast (items ! 0)))"
  have k: "2 ^ ?k dvd unat (items ! 0)" "?k < 32" using lowest_power_divides [of "items ! 0"] by simp_all
  obtain w where w: "factorPrimes (rev primeNumbers) (items ! 0) (min (push_bit ?k 1) m) m = Some w"
      "1 \<le> unat w" "unat w \<le> unat m" "unat w dvd unat (items ! 0)"
    using factorPrimes_fits [OF m(2) primeNumbers_range] start_size [OF m(1) k] by blast
  have "w \<noteq> 0" using w(2) by auto
  then have "fits items (unat m) [ucast w, 1, 1]" using w by (auto simp: fits_list word_unat_eq_iff)
  then show ?thesis using w(1) by (simp add: computeWorkgroupSize1D_def Let_def)
qed

section \<open>Two dimensions\<close>

lemma loop2DY_fits:
  assumes x: "divisorOf (items ! 0) x" and m: "unat m \<le> limit"
  shows "\<forall>y \<in> set ys. divisorOf (items ! 1) y \<Longrightarrow> fits items limit (chosen2D c) \<and> chosen2D c ! 2 = 1 \<Longrightarrow>
    fits items limit (chosen2D (loop2DY m items simd x ys c)) \<and> chosen2D (loop2DY m items simd x ys c) ! 2 = 1"
proof (induction ys arbitrary: c)
  case (Cons y ys)
  have y: "divisorOf (items ! 1) y" using Cons.prems(1) by simp
  have "unat x * unat y \<le> limit" if "\<not> x * y > m"
    using that x y m product32(1) [of x y y] by (auto simp: divisorOf_def word_less_nat_alt)
  then show ?case using Cons fits_update [OF _ _ x y] by (auto simp: Let_def)
qed simp

lemma twoD_fits:
  assumes m: "1 \<le> unat m" "unat m \<le> 1024" and simd: "simd \<noteq> 0"
  shows "\<exists>g. computeWorkgroupSize2D m items simd = Some g \<and> fits items (unat m) g"
proof -
  have m1: "unat (m + 1) = unat m + 1" using m by (simp add: unat_plus_simple [THEN iffD1] no_olen_add_nat)
  have "m < 4294967295" using m(2) by (simp add: word_less_nat_alt)
  then have "m \<noteq> - 1" by auto
  have d: "\<forall>j \<in> set (properFactors (m + 1) (items ! i)). divisorOf (items ! i) j" for i
    using properFactors_divisor [of "m + 1"] m m1 by auto
  have len: "length (properFactors (m + 1) (items ! i)) \<le> 1024" for i
    using properFactors_length [of "m + 1" "items ! i"] m m1 by simp
  let ?c = "fold (\<lambda>xDim. loop2DY m items simd xDim (properFactors (m + 1) (items ! 1))) (rev (properFactors (m + 1) (items ! 0)))
    \<lparr>chosen2D = [1, 1, 1], localWSWaste = - 1, euThrds = - 1\<rparr>"
  have "fits items (unat m) (chosen2D ?c) \<and> chosen2D ?c ! 2 = 1"
  proof (rule fold_invariant [where Q = "divisorOf (items ! 0)" and P = "\<lambda>c. fits items (unat m) (chosen2D c) \<and> chosen2D c ! 2 = 1"])
    fix x and c :: Choice2D
    assume "divisorOf (items ! 0) x" "fits items (unat m) (chosen2D c) \<and> chosen2D c ! 2 = 1"
    then show "fits items (unat m) (chosen2D (loop2DY m items simd x (properFactors (m + 1) (items ! 1)) c)) \<and>
        chosen2D (loop2DY m items simd x (properFactors (m + 1) (items ! 1)) c) ! 2 = 1"
      using loop2DY_fits [OF _ order_refl d [of 1]] by blast
  qed (use d [of 0] m in \<open>auto simp: fits_list\<close>)
  then show ?thesis using len [of 0] len [of 1] simd \<open>m \<noteq> - 1\<close>
    by (simp add: computeWorkgroupSize2D_def Let_def not_less)
qed

lemma halveProduct_fits:
  "unat a = 2 ^ i \<Longrightarrow> unat b = 2 ^ j \<Longrightarrow> i \<le> 10 \<Longrightarrow> j \<le> 10 \<Longrightarrow> unat m = 2 ^ e \<Longrightarrow>
   \<exists>i' j'. i' \<le> i \<and> j' \<le> j \<and> unat (fst (halveProduct a b m)) = 2 ^ i' \<and> unat (snd (halveProduct a b m)) = 2 ^ j' \<and> i' + j' \<le> e"
proof (induction a b m arbitrary: i j rule: halveProduct.induct)
  case (1 a b m)
  have "(2 :: nat) ^ (i + j) \<le> 2 ^ 20" using 1(5,6) by (intro power_increasing) auto
  then have u: "unat (a * b) = 2 ^ (i + j)" using 1(3,4) by (subst unat_mult_nowrap) (simp_all add: power_add)
  have ab: "b < a \<longleftrightarrow> j < i" using 1(3,4) by (simp add: word_less_nat_alt)
  have half: "0 < k \<Longrightarrow> unat (x :: u64) = 2 ^ k \<Longrightarrow> unat (x div 2) = 2 ^ (k - 1)" for x k
    by (simp add: unat_div power_diff)
  have big: "m < a * b \<longleftrightarrow> e < i + j" using u 1(7) by (simp add: word_less_nat_alt)
  consider "m < a * b" "b < a" | "m < a * b" "\<not> b < a" | "\<not> m < a * b" by blast
  then show ?case
  proof cases
    case c: 1
    then have i: "0 < i" "j < i" using ab by auto
    have "halveProduct a b m = halveProduct (a div 2) b m" using c by (subst halveProduct.simps) simp
    then show ?thesis using 1(1) [OF c(1) _ half [OF i(1) 1(3)] 1(4) _ 1(6,7)] c(2) 1(5) by force
  next
    case c: 2
    then have j: "0 < j" using ab big by (cases j) auto
    have "halveProduct a b m = halveProduct a (b div 2) m" using c by (subst halveProduct.simps) simp
    then show ?thesis using 1(2) [OF c(1) _ 1(3) half [OF j 1(4)] 1(5) _ 1(7)] c(2) 1(6) by force
  next
    case c: 3
    then have "halveProduct a b m = (a, b)" by (subst halveProduct.simps) simp
    then show ?thesis using c big 1(3,4) by auto
  qed
qed

text \<open>The global size: three dimensions, none of them 0, only 1 after the last, and no overflow.\<close>

definition globalSize :: "sizes \<Rightarrow> nat \<Rightarrow> bool" where
  "globalSize items workDim \<longleftrightarrow> (\<forall>i < 3. items ! i \<noteq> 0) \<and> (\<forall>i < 3. workDim \<le> i \<longrightarrow> items ! i = 1) \<and>
     unat (items ! 0) * unat (items ! 1) * unat (items ! 2) < 2 ^ 64"

lemma positive64: "(w :: u64) \<noteq> 0 \<Longrightarrow> 1 \<le> unat w"
  by (simp add: Suc_le_eq unat_gt_0)

lemma global_product:
  assumes "globalSize items workDim"
  shows "unat (items ! 0 * items ! 1) = unat (items ! 0) * unat (items ! 1)"
    "unat (items ! 0 * items ! 1 * items ! 2) = unat (items ! 0) * unat (items ! 1) * unat (items ! 2)"
proof -
  have p: "unat (items ! 0) * unat (items ! 1) * unat (items ! 2) < 2 ^ 64" and "1 \<le> unat (items ! 2)"
    using assms positive64 by (auto simp: globalSize_def)
  then have "unat (items ! 0) * unat (items ! 1) < 2 ^ 64"
    using mult_le_mono2 [of 1 "unat (items ! 2)" "unat (items ! 0) * unat (items ! 1)"] by linarith
  then show m: "unat (items ! 0 * items ! 1) = unat (items ! 0) * unat (items ! 1)" by (intro unat_mult_nowrap) simp
  show "unat (items ! 0 * items ! 1 * items ! 2) = unat (items ! 0) * unat (items ! 1) * unat (items ! 2)"
    using p m by (subst unat_mult_nowrap) simp_all
qed

lemma whole_range:
  assumes g: "globalSize items workDim" and le: "unat (items ! 0) * unat (items ! 1) * unat (items ! 2) \<le> limit"
  shows "fits items limit (map (\<lambda>i. if i < workDim then items ! i else 1) [0, 1, 2])"
proof -
  have i: "(if i < workDim then items ! i else 1) = items ! i" if "i < 3" for i
    using g that by (auto simp: globalSize_def)
  have "map (\<lambda>i. if i < workDim then items ! i else 1) [0, 1, 2] = [items ! 0, items ! 1, items ! 2]"
    using i [of 0] i [of 1] i [of 2] by (simp del: One_nat_def)
  then show ?thesis using g le by (auto simp: fits_list globalSize_def)
qed

text \<open>The divisors: powers of two that divide.\<close>

lemma divisors_spec:
  assumes "unat count = 2 ^ k" and "i < 3"
  shows "\<exists>a. a \<le> k \<and> unat (powerOfTwoDivisors count items workDim ! i) = 2 ^ a \<and> 2 ^ a dvd unat (items ! i) \<and> (workDim \<le> i \<longrightarrow> a = 0)"
proof -
  have d: "powerOfTwoDivisors count items workDim ! i =
      (if i < workDim then ucast (powerOfTwoDivisor count (items ! i)) else 1)"
    using \<open>i < 3\<close> by (auto simp: powerOfTwoDivisors_def less_Suc_eq numeral_3_eq_3 numeral_2_eq_2)
  show ?thesis
  proof (cases "i < workDim")
    case True
    then show ?thesis using powerOfTwoDivisor_spec [OF assms(1), of "items ! i"] d by auto
  next
    case False
    then show ?thesis using d by (intro exI [of _ 0]) simp
  qed
qed

lemma divisors_length [simp]: "length (powerOfTwoDivisors count items workDim) = 3"
  by (simp add: powerOfTwoDivisors_def)

lemma three_values: "length g = 3 \<Longrightarrow> g = [g ! 0, g ! 1, g ! 2]" for g :: sizes
  by (rule nth_equalityI) (auto simp: less_Suc_eq numeral_3_eq_3 numeral_2_eq_2)

lemma exponent_ten: "unat (m :: u32) = 2 ^ e \<Longrightarrow> unat m \<le> 1024 \<Longrightarrow> e \<le> 10"
  using power_le_imp_le_exp [of "2 :: nat" e 10] by simp

lemma squared_fits:
  assumes m: "unat m = 2 ^ e" "unat m \<le> 1024" and g: "globalSize items 2" and simd: "simd \<noteq> 0"
  shows "\<exists>s. computeWorkgroupSizeSquared m items simd 2 = Some s \<and> fits items (unat m) s"
proof -
  let ?d = "powerOfTwoDivisors m items 2"
  have e: "e \<le> 10" by (rule exponent_ten [OF m])
  obtain a where a: "a \<le> e" "unat (?d ! 0) = 2 ^ a" "2 ^ a dvd unat (items ! 0)"
    using divisors_spec [OF m(1), of 0 items 2] by auto
  obtain b where b: "b \<le> e" "unat (?d ! 1) = 2 ^ b" "2 ^ b dvd unat (items ! 1)"
    using divisors_spec [OF m(1), of 1 items 2] by auto
  have d2: "?d ! 2 = 1" by (simp add: powerOfTwoDivisors_def)
  have i2: "items ! 2 = 1" using g by (simp add: globalSize_def)
  show ?thesis
  proof (cases "ucast m \<le> ?d ! 0 * ?d ! 1")
    case True
    obtain i j where ij: "i \<le> a" "j \<le> b" "unat (fst (halveProduct (?d ! 0) (?d ! 1) (ucast m))) = 2 ^ i"
        "unat (snd (halveProduct (?d ! 0) (?d ! 1) (ucast m))) = 2 ^ j" "i + j \<le> e"
      using halveProduct_fits [OF a(2) b(2), of "ucast m" e] a(1) b(1) e m(1) by auto
    have "fits items (unat m) [fst (halveProduct (?d ! 0) (?d ! 1) (ucast m)), snd (halveProduct (?d ! 0) (?d ! 1) (ucast m)), 1]"
      by (rule fits_exponents [OF ij(3,4) _ a(3) b(3), of _ 0 0]) (use ij m(1) in auto)
    then show ?thesis using True d2 by (simp add: computeWorkgroupSizeSquared_def Let_def case_prod_beta)
  next
    case False
    show ?thesis
    proof (cases "items ! 0 * items ! 1 > ucast m")
      case True
      have "1 \<le> unat m" using m(1) by simp
      then show ?thesis using True False twoD_fits [OF _ m(2) simd] by (simp add: computeWorkgroupSizeSquared_def Let_def)
    next
      case c: False
      then have "unat (items ! 0) * unat (items ! 1) * unat (items ! 2) \<le> unat m"
        using global_product [OF g] i2 by (simp add: word_less_nat_alt)
      then show ?thesis using c False whole_range [OF g] by (simp add: computeWorkgroupSizeSquared_def Let_def)
    qed
  qed
qed

lemma chosen_exponent: "unat x = 2 ^ a \<Longrightarrow> unat (if b then 4 else x :: u64) = 2 ^ (if b then 2 else a)"
  by simp

lemma up32_less: "ucast (a :: u32) < (b :: u64) \<longleftrightarrow> unat a < unat b"
  by (simp add: word_less_nat_alt)

lemma nd_fits:
  assumes g: "globalSize items workDim" and dim: "1 \<le> workDim" "workDim \<le> 3"
    and simd: "unat (simdSize ws) = 2 ^ s" "3 \<le> s" "s \<le> 5" "simdSize ws \<le> maxWorkGroupSize ws"
    and m: "unat (maxWorkGroupSize ws) = 2 ^ e" "unat (maxWorkGroupSize ws) \<le> 1024"
    and pref: "preferredWgCountPerSubSlice ws = 0"
  shows "\<exists>r. computeWorkgroupSizeND ops enableSquared ws items workDim = Some r \<and> fits items (unat (maxWorkGroupSize ws)) r"
proof -
  let ?m = "unat (maxWorkGroupSize ws)"
  let ?total = "items ! 0 * items ! 1 * items ! 2"
  have e: "e \<le> 10" by (rule exponent_ten [OF m])
  have simd0: "simdSize ws \<noteq> 0" by (rule pow_nonzero [OF simd(1)])
  have rest: "\<exists>r. (if ?total \<le> ucast (maxWorkGroupSize ws)
        then Some (map (\<lambda>i. if i < workDim then items ! i else 1) [0, 1, 2])
        else if workDim = 1 then computeWorkgroupSize1D (maxWorkGroupSize ws) items
        else choosePrefferedWorkgroupSize ops ws [1, 1, 1] items workDim) = Some r \<and> fits items ?m r" (is "\<exists>r. ?rest = Some r \<and> _")
  proof -
    consider "?total \<le> ucast (maxWorkGroupSize ws)" | "\<not> ?total \<le> ucast (maxWorkGroupSize ws)" "workDim = 1"
      | "\<not> ?total \<le> ucast (maxWorkGroupSize ws)" "workDim \<noteq> 1" by blast
    then show ?thesis
    proof cases
      case 1
      then have "unat (items ! 0) * unat (items ! 1) * unat (items ! 2) \<le> ?m"
        using global_product [OF g] by (simp add: word_le_nat_alt)
      then show ?thesis using 1 whole_range [OF g] by auto
    next
      case 2
      then show ?thesis using oneD_fits [OF m, of items] by auto
    next
      case 3
      have "1 \<le> ?m" using m(1) by simp
      then show ?thesis using 3 chosen_sizes [OF m(2)] by auto
    qed
  qed
  show ?thesis
  proof (cases "slmTotalSize ws = 0 \<and> \<not> hasBarriers ws")
    case False
    then show ?thesis using rest simd0 by (auto simp only: computeWorkgroupSizeND_def Let_def if_False)
  next
    case plain: True
    show ?thesis
    proof (cases "enableSquared \<and> workDim = 2 \<and> \<not> imgUsed ws")
      case True
      then have "\<exists>s. computeWorkgroupSizeSquared (maxWorkGroupSize ws) items (ucast (simdSize ws)) workDim = Some s \<and> fits items ?m s"
        using squared_fits [OF m _ ] g simd0 by (auto simp: word_unat_eq_iff)
      then show ?thesis using True plain simd0 by (simp add: computeWorkgroupSizeND_def Let_def)
    next
      case False
      have count: "unat (simdSize ws * 32) = 2 ^ (s + 5)"
      proof -
        have "(2 :: nat) ^ s * 32 \<le> 2 ^ 5 * 32" using simd(3) by (intro mult_right_mono power_increasing) auto
        then show ?thesis using simd(1) by (subst unat_mult_nowrap) (simp_all add: power_add)
      qed
      let ?d = "powerOfTwoDivisors (simdSize ws * 32) items workDim"
      let ?nx4 = "imgUsed ws \<and> (?d ! 0 \<ge> 4 \<or> ?d ! 0 \<ge> 2 \<and> simdSize ws = 8) \<and> ?d ! 1 \<ge> 4"
      let ?all = "?d ! 0 * ?d ! 1 * ?d ! 2"
      have spec: "i < 3 \<Longrightarrow> \<exists>a. a \<le> s + 5 \<and> unat (?d ! i) = 2 ^ a \<and> 2 ^ a dvd unat (items ! i) \<and> (workDim \<le> i \<longrightarrow> a = 0)" for i
        by (rule divisors_spec [OF count])
      obtain a0 where a0: "a0 \<le> s + 5" "unat (?d ! 0) = 2 ^ a0" "2 ^ a0 dvd unat (items ! 0)" using spec [of 0] by auto
      obtain a1 where a1: "a1 \<le> s + 5" "unat (?d ! 1) = 2 ^ a1" "2 ^ a1 dvd unat (items ! 1)" "workDim \<le> 1 \<longrightarrow> a1 = 0"
        using spec [of 1] by auto
      obtain a2 where a2: "a2 \<le> s + 5" "unat (?d ! 2) = 2 ^ a2" "2 ^ a2 dvd unat (items ! 2)" "workDim \<le> 2 \<longrightarrow> a2 = 0"
        using spec [of 2] by auto
      have b2: "(2 :: nat) ^ (a0 + a1) \<le> 2 ^ 20" and b3: "(2 :: nat) ^ (a0 + a1 + a2) \<le> 2 ^ 30"
        using a0(1) a1(1) a2(1) simd(3) by (intro power_increasing; simp)+
      have "unat (?d ! 0 * ?d ! 1) = 2 ^ (a0 + a1)" using a0(2) a1(2) b2 by (subst unat_mult_nowrap) (simp_all add: power_add)
      then have all_items: "unat ?all = 2 ^ (a0 + a1 + a2)" using a2(2) b3 by (subst unat_mult_nowrap) (simp_all add: power_add)
      have nx4: "2 \<le> a1" if ?nx4
      proof -
        have "(4 :: nat) \<le> 2 ^ a1" using that a1(2) by (simp add: word_le_nat_alt)
        then have "(2 :: nat) ^ 2 \<le> 2 ^ a1" by simp
        then show ?thesis by (rule power_le_imp_le_exp [rotated]) simp
      qed
      have reduce: "computeWorkgroupSizeND ops enableSquared ws items workDim =
          (if ?all > ucast (simdSize ws) \<and> (?all > ucast (maxWorkGroupSize ws) \<or> ?all > ucast (simdSize ws * 32))
           then computePowerOfTwoLWS ?d ws [1, 1, 1] workDim ?nx4
           else if ?all \<ge> ucast (simdSize ws)
           then Some (map (\<lambda>i. if i < workDim then ?d[1 := (if ?nx4 then 4 else ?d ! 1)] ! i else 1) [0, 1, 2])
           else if ?total \<le> ucast (maxWorkGroupSize ws)
           then Some (map (\<lambda>i. if i < workDim then items ! i else 1) [0, 1, 2])
           else if workDim = 1 then computeWorkgroupSize1D (maxWorkGroupSize ws) items
           else choosePrefferedWorkgroupSize ops ws [1, 1, 1] items workDim)"
        unfolding computeWorkgroupSizeND_def Let_def if_not_P [OF simd0] if_P [OF plain] if_not_P [OF False]
        by (simp only: pref simp_thms if_False optimalHardwareThreadCountGeneric_def nth_Cons_0)
      let ?big = "?all > ucast (simdSize ws) \<and> (?all > ucast (maxWorkGroupSize ws) \<or> ?all > ucast (simdSize ws * 32))"
      consider "?big" | "\<not> ?big" "?all \<ge> ucast (simdSize ws)" | "\<not> ?big" "\<not> ?all \<ge> ucast (simdSize ws)" by argo
      then show ?thesis
      proof cases
        case 1
        have "?m < 2 ^ (a0 + a1 + a2) \<or> (2 :: nat) ^ (s + 5) < 2 ^ (a0 + a1 + a2)"
          using conjunct2 [OF 1] unfolding up32_less all_items count .
        then have "?m < 2 ^ (a0 + a1 + a2) \<or> s + 5 < a0 + a1 + a2"
          using power_less_imp_less_exp [of "2 :: nat" "s + 5" "a0 + a1 + a2"] by linarith
        then show ?thesis
          using power_of_two_sizes [OF a0(2) a1(2) a2(2) a0(3) a1(3) a2(3) simd _ nx4, of workDim] a2(4) unfolding reduce if_P [OF 1] by auto
      next
        case 2
        have le: "2 ^ (a0 + a1 + a2) \<le> ?m"
          using 2 simd(4) unfolding up32_less up32_le word_le_nat_alt [of "simdSize ws"] all_items by linarith
        let ?k = "if ?nx4 then 2 else a1"
        have k: "?k \<le> a1" using nx4 by auto
        have "(2 :: nat) ^ (a0 + ?k + a2) \<le> 2 ^ (a0 + a1 + a2)" using k by (intro power_increasing) auto
        then have "(2 :: nat) ^ (a0 + ?k + a2) \<le> ?m" using le by (rule order_trans)
        moreover have "unat (if ?nx4 then 4 else ?d ! 1) = 2 ^ ?k" by (rule chosen_exponent [OF a1(2)])
        ultimately have fit: "fits items ?m [?d ! 0, if ?nx4 then 4 else ?d ! 1, ?d ! 2]"
          by (intro fits_exponents [OF a0(2) _ a2(2) a0(3) a1(3) a2(3) order_refl k order_refl])
        have one: "w = 1" if "unat w = 2 ^ a" "a = 0" for w :: u64 and a using that by (simp add: word_unat_eq_iff)
        have n4: "\<not> ?nx4" if "workDim \<le> 1" using nx4 a1(4) that by force
        have "map (\<lambda>i. if i < workDim then ?d[1 := (if ?nx4 then 4 else ?d ! 1)] ! i else 1) [0, 1, 2] =
            [?d ! 0, if ?nx4 then 4 else ?d ! 1, ?d ! 2]"
          using dim(1) a1(4) a2(4) one [OF a1(2)] one [OF a2(2)] n4 by (simp del: One_nat_def add: not_less) (metis le_refl)
        then show ?thesis unfolding reduce if_not_P [OF 2(1)] if_P [OF 2(2)] using fit by simp
      next
        case 3
        show ?thesis unfolding reduce if_not_P [OF 3(1)] if_not_P [OF 3(2)] by (rule rest)
      qed
    qed
  qed
qed

section \<open>Properties\<close>

text \<open>Sample operations on ratios, and a sample kernel.\<close>

definition sampleOps :: "nat FloatOps" where
  "sampleOps = \<lparr>logRatio = (\<lambda>x y. unat (x div y)), ratioDistance = (\<lambda>r x y. r + unat (x div y)), lessFloat = (<),
     maxFloat = 1000000, zeroFloat = 0, yTilingRatioValue = 1\<rparr>"

definition sampleWorkSizeInfo :: "nat WorkSizeInfo" where
  "sampleWorkSizeInfo =
     \<lparr>maxWorkGroupSize = 256, minWorkGroupSize = 0, hasBarriers = False, simdSize = 16, slmTotalSize = 0,
      numThreadsPerSubSlice = 64, localMemSize = 65536, imgUsed = False, yTiledSurfaces = False, useRatio = False,
      useStrictRatio = False, targetRatio = 0, preferredWgCountPerSubSlice = 0\<rparr>"

text \<open>
  C10: the choice of a work group size ends, without an abort or an access behind its arrays, and what it
  chooses can be launched: no size is 0, each divides its dimension, and the group has at most the
  maximal number of work items, a power of two up to 1024 that holds at least one thread of 8, 16 or 32 lanes. The
  global size has no dimension of 0, at most \<open>workDim\<close> dimensions and a number of items below 2 to the 64;
  the product expresses no preference for the number of groups.
\<close>

theorem work_group_size_fits:
  assumes g: "globalSize items workDim" and dim: "1 \<le> workDim" "workDim \<le> 3"
    and simd: "simdSize ws \<in> {8, 16, 32}" "simdSize ws \<le> maxWorkGroupSize ws"
    and m: "isPow2 (maxWorkGroupSize ws)" "maxWorkGroupSize ws \<le> 1024"
    and pref: "preferredWgCountPerSubSlice ws = 0"
  shows "\<exists>r. computeWorkgroupSizeND ops enableSquared ws items workDim = Some r \<and> length r = 3 \<and>
    (\<forall>i < 3. r ! i \<noteq> 0 \<and> unat (r ! i) dvd unat (items ! i)) \<and>
    unat (r ! 0) * unat (r ! 1) * unat (r ! 2) \<le> unat (maxWorkGroupSize ws)"
proof -
  obtain s where s: "unat (simdSize ws) = 2 ^ s" "3 \<le> s" "s \<le> 5"
    using simd(1) that [of 3] that [of 4] that [of 5] by auto
  obtain e where "unat (maxWorkGroupSize ws) = 2 ^ e" using m(1) by (rule isPow2_unat)
  moreover have "unat (maxWorkGroupSize ws) \<le> 1024" using m(2) by (simp add: word_le_nat_alt)
  ultimately show ?thesis
    using nd_fits [OF g dim s simd(2) _ _ pref, of e ops enableSquared] by (simp add: fits_def)
qed

lemma work_group_size_fits_witness:
  "\<exists>r. computeWorkgroupSizeND sampleOps False sampleWorkSizeInfo [1000, 3, 7] 3 = Some r \<and> length r = 3 \<and>
    (\<forall>i < 3. r ! i \<noteq> 0 \<and> unat (r ! i) dvd unat ([1000, 3, 7 :: u64] ! i)) \<and>
    unat (r ! 0) * unat (r ! 1) * unat (r ! 2) \<le> 256"
proof -
  have "globalSize [1000, 3, 7] 3" by (simp add: globalSize_def all_less_3)
  moreover have "isPow2 (256 :: u32)" by code_simp
  ultimately show ?thesis
    using work_group_size_fits [of "[1000, 3, 7]" 3 sampleWorkSizeInfo sampleOps False] by (simp add: sampleWorkSizeInfo_def)
qed

text \<open>A kernel asked for several sizes: the size of the local memory of its arguments may change in between.\<close>

fun suggestHistory ::
  "'r FloatOps \<Rightarrow> bool \<Rightarrow> bool \<Rightarrow> bool \<Rightarrow> KernelDispatch \<Rightarrow> (u32 \<times> u32 \<times> u32 \<times> u32) list \<Rightarrow>
   SuggestGroupSizeCacheEntry list \<Rightarrow> (ze_result \<times> (u32 \<times> u32 \<times> u32) option) list option" where
  "suggestHistory ops enableND enableSquared usesImages k [] cache = Some []"
| "suggestHistory ops enableND enableSquared usesImages k ((x, y, z, slm) # qs) cache =
     (case suggestGroupSize ops enableND enableSquared usesImages (k\<lparr>kernelSlmTotalSize := slm\<rparr>) x y z cache of
        None \<Rightarrow> None
      | Some (r, g, cache') \<Rightarrow> map_option ((#) (r, g)) (suggestHistory ops enableND enableSquared usesImages k qs cache'))"

definition suggestFresh ::
  "'r FloatOps \<Rightarrow> bool \<Rightarrow> bool \<Rightarrow> bool \<Rightarrow> KernelDispatch \<Rightarrow> u32 \<times> u32 \<times> u32 \<times> u32 \<Rightarrow> (ze_result \<times> (u32 \<times> u32 \<times> u32) option) option" where
  "suggestFresh ops enableND enableSquared usesImages k q =
     (case q of (x, y, z, slm) \<Rightarrow>
        map_option (\<lambda>(r, g, cache). (r, g))
          (suggestGroupSize ops enableND enableSquared usesImages (k\<lparr>kernelSlmTotalSize := slm\<rparr>) x y z []))"

text \<open>Every entry holds what a computation with its key gives.\<close>

definition cacheOk :: "'r FloatOps \<Rightarrow> bool \<Rightarrow> bool \<Rightarrow> bool \<Rightarrow> KernelDispatch \<Rightarrow> SuggestGroupSizeCacheEntry list \<Rightarrow> bool" where
  "cacheOk ops enableND enableSquared usesImages k cache \<longleftrightarrow>
     (\<forall>e \<in> set cache. \<forall>x y z. cacheGroupSize e = [ucast x, ucast y, ucast z] \<longrightarrow>
        suggestFresh ops enableND enableSquared usesImages k (x, y, z, slmArgsTotalSize e) =
        Some (ZE_RESULT_SUCCESS, Some (ucast (suggestedGroupSize e ! 0), ucast (suggestedGroupSize e ! 1), ucast (suggestedGroupSize e ! 2))))"

lemma ucast_up_inject: "(ucast (a :: u32) :: u64) = ucast b \<longleftrightarrow> a = b"
  by (metis unat_up32 word_unat_eq_iff)

lemma suggest_step:
  assumes ok: "cacheOk ops nd sq img k cache"
  shows "case suggestGroupSize ops nd sq img (k\<lparr>kernelSlmTotalSize := slm\<rparr>) x y z cache of
      None \<Rightarrow> suggestFresh ops nd sq img k (x, y, z, slm) = None
    | Some (r, g, cache') \<Rightarrow> suggestFresh ops nd sq img k (x, y, z, slm) = Some (r, g) \<and> cacheOk ops nd sq img k cache'"
proof (cases "List.find (\<lambda>e. cacheGroupSize e = [ucast x, ucast y, ucast z] \<and> slmArgsTotalSize e = slm) cache")
  case (Some e)
  then have e: "e \<in> set cache" "cacheGroupSize e = [ucast x, ucast y, ucast z]" "slmArgsTotalSize e = slm"
    by (auto simp: find_Some_iff)
  then show ?thesis using Some ok by (auto simp: suggestGroupSize_def Let_def cacheOk_def)
next
  case None
  let ?add = "map_option (\<lambda>(r, g, c). (r, g, cache @ c))"
  have fresh: "suggestGroupSize ops nd sq img (k\<lparr>kernelSlmTotalSize := slm\<rparr>) x y z cache =
      ?add (suggestGroupSize ops nd sq img (k\<lparr>kernelSlmTotalSize := slm\<rparr>) x y z [])"
    using None by (simp add: suggestGroupSize_def Let_def split: option.split)
  have entry: "c = [] \<or> (\<exists>s. c = [\<lparr>cacheGroupSize = [ucast x, ucast y, ucast z], slmArgsTotalSize = slm, suggestedGroupSize = s\<rparr>] \<and>
      r = ZE_RESULT_SUCCESS \<and> g = Some (ucast (s ! 0), ucast (s ! 1), ucast (s ! 2)))"
    if "suggestGroupSize ops nd sq img (k\<lparr>kernelSlmTotalSize := slm\<rparr>) x y z [] = Some (r, g, c)" for r g c
    using that by (auto simp: suggestGroupSize_def Let_def split: option.splits if_splits)
  show ?thesis
  proof (cases "suggestGroupSize ops nd sq img (k\<lparr>kernelSlmTotalSize := slm\<rparr>) x y z []")
    case None
    then show ?thesis using fresh by (simp add: suggestFresh_def)
  next
    case (Some a)
    obtain r g c where a: "a = (r, g, c)" by (rule prod_cases3)
    have f: "suggestFresh ops nd sq img k (x, y, z, slm) = Some (r, g)" using Some a by (simp add: suggestFresh_def)
    then have "cacheOk ops nd sq img k (cache @ c)"
      using ok entry [OF Some [unfolded a]] by (auto simp: cacheOk_def ucast_up_inject)
    then show ?thesis using fresh Some a f by simp
  qed
qed

text \<open>
  C27: the sizes a Level Zero kernel keeps never show: in any sequence of calls of \<open>suggestGroupSize\<close>, with the
  size of the kernel's local memory changing in between, every answer, the error included, is the one a kernel
  without kept sizes gives.
\<close>

theorem suggest_cache_transparent:
  "suggestHistory ops enableND enableSquared usesImages k qs [] =
   those (map (suggestFresh ops enableND enableSquared usesImages k) qs)"
proof -
  have "cacheOk ops enableND enableSquared usesImages k cache \<Longrightarrow>
      suggestHistory ops enableND enableSquared usesImages k qs cache =
      those (map (suggestFresh ops enableND enableSquared usesImages k) qs)" for cache
  proof (induction qs arbitrary: cache)
    case (Cons q qs)
    obtain x y z slm where q: "q = (x, y, z, slm)" by (rule prod_cases4)
    show ?case using suggest_step [OF Cons.prems, of x y z slm] Cons.IH
      by (auto simp: q split: option.splits)
  qed simp
  moreover have "cacheOk ops enableND enableSquared usesImages k []" by (simp add: cacheOk_def)
  ultimately show ?thesis by blast
qed

end
