(* ===== verification/Id_List.thy ===== *)
theory Id_List
  imports Prelude
begin

text \<open>
  \<open>utilities/idlist.h\<close>: the intrusive doubly linked lists of the driver, \<open>IDNode\<close> and \<open>IDList\<close>. The nodes
  carry the links themselves, so the links of all nodes are one store: two maps from a node to the node
  it points to, \<open>None\<close> for the null pointer. A list is its two ends. An operation takes the ends of its
  list with the store. A loop over the links is a partial function: \<open>None\<close> means that it does not end,
  which happens on a cycle.
\<close>

type_synonym node = nat

record Links =
  nextOf :: "node \<Rightarrow> node option"
  prevOf :: "node \<Rightarrow> node option"
  deletedNodes :: "node list"

record IDList =
  headPtr :: "node option"
  tailPtr :: "node option"

section \<open>Nodes\<close>

definition setNext :: "node \<Rightarrow> node option \<Rightarrow> Links \<Rightarrow> Links" where
  "setNext n p s = s\<lparr>nextOf := (nextOf s)(n := p)\<rparr>"

definition setPrev :: "node \<Rightarrow> node option \<Rightarrow> Links \<Rightarrow> Links" where
  "setPrev n p s = s\<lparr>prevOf := (prevOf s)(n := p)\<rparr>"

definition newNode :: "node \<Rightarrow> Links \<Rightarrow> Links" where
  "newNode n s = setNext n None (setPrev n None s)"

text \<open>\<open>if (p != nullptr) p->f\<close>\<close>

definition whenNode :: "node option \<Rightarrow> (node \<Rightarrow> Links \<Rightarrow> Links) \<Rightarrow> Links \<Rightarrow> Links" where
  "whenNode p f s = (case p of None \<Rightarrow> s | Some n \<Rightarrow> f n s)"

definition insertOneNext :: "node \<Rightarrow> node \<Rightarrow> Links \<Rightarrow> Links" where
  "insertOneNext this nd s =
     (let s = setNext nd (nextOf s this) s;
          s = whenNode (nextOf s this) (\<lambda>q. setPrev q (Some nd)) s;
          s = setPrev nd (Some this) s
      in setNext this (Some nd) s)"

definition insertOnePrev :: "node \<Rightarrow> node \<Rightarrow> Links \<Rightarrow> Links" where
  "insertOnePrev this nd s =
     (let s = whenNode (prevOf s this) (\<lambda>q. setNext q (Some nd)) s;
          s = setNext nd (Some this) s;
          s = setPrev nd (prevOf s this) s
      in setPrev this (Some nd) s)"

definition slice :: "node \<Rightarrow> Links \<Rightarrow> node option \<times> Links" where
  "slice this s =
     (let rest = nextOf s this;
          s = setNext this None s;
          s = whenNode rest (\<lambda>q. setPrev q None) s
      in (rest, s))"

partial_function (option) getTail :: "Links \<Rightarrow> node \<Rightarrow> node option" where
  "getTail s cur = (case nextOf s cur of None \<Rightarrow> Some cur | Some n \<Rightarrow> getTail s n)"

partial_function (option) getHead :: "Links \<Rightarrow> node \<Rightarrow> node option" where
  "getHead s cur = (case prevOf s cur of None \<Rightarrow> Some cur | Some n \<Rightarrow> getHead s n)"

definition insertAllNext :: "node \<Rightarrow> node \<Rightarrow> Links \<Rightarrow> Links option" where
  "insertAllNext this rhs s =
     (case getTail s rhs of
        None \<Rightarrow> None
      | Some rhsTail \<Rightarrow>
          let s = setNext rhsTail (nextOf s this) s;
              s = whenNode (nextOf s this) (\<lambda>q. setPrev q (Some rhsTail)) s;
              s = setPrev rhs (Some this) s
          in Some (setNext this (Some rhs) s))"

definition deleteNode :: "node \<Rightarrow> Links \<Rightarrow> Links" where
  "deleteNode n s = s\<lparr>deletedNodes := deletedNodes s @ [n]\<rparr>"

partial_function (option) deleteNextLoop :: "node option \<Rightarrow> Links \<Rightarrow> Links option" where
  "deleteNextLoop cur s =
     (case cur of
        None \<Rightarrow> Some s
      | Some c \<Rightarrow> let n = nextOf s c in deleteNextLoop n (deleteNode c s))"

partial_function (option) deletePrevLoop :: "node option \<Rightarrow> Links \<Rightarrow> Links option" where
  "deletePrevLoop cur s =
     (case cur of
        None \<Rightarrow> Some s
      | Some c \<Rightarrow> let n = prevOf s c in deletePrevLoop n (deleteNode c s))"

definition deleteThisAndAllNext :: "node \<Rightarrow> Links \<Rightarrow> (node \<times> Links) option" where
  "deleteThisAndAllNext this s =
     map_option (\<lambda>s. (this, setNext this None (whenNode (prevOf s this) (\<lambda>q. setNext q None) s)))
       (deleteNextLoop (nextOf s this) s)"

definition deleteThisAndAllPrev :: "node \<Rightarrow> Links \<Rightarrow> (node \<times> Links) option" where
  "deleteThisAndAllPrev this s =
     map_option (\<lambda>s. (this, setPrev this None (whenNode (nextOf s this) (\<lambda>q. setPrev q None) s)))
       (deletePrevLoop (prevOf s this) s)"

definition deleteThisAndAllConnected :: "node \<Rightarrow> Links \<Rightarrow> (node \<times> Links) option" where
  "deleteThisAndAllConnected this s =
     (case deleteThisAndAllNext this s of None \<Rightarrow> None | Some (_, s) \<Rightarrow> deleteThisAndAllPrev this s)"

partial_function (option) countSuccessorsLoop :: "Links \<Rightarrow> node \<Rightarrow> nat \<Rightarrow> nat option" where
  "countSuccessorsLoop s cur successors =
     (case nextOf s cur of None \<Rightarrow> Some successors | Some n \<Rightarrow> countSuccessorsLoop s n (Suc successors))"

definition countSuccessors :: "Links \<Rightarrow> node \<Rightarrow> nat option" where
  "countSuccessors s this = countSuccessorsLoop s this 0"

partial_function (option) countPredecessorsLoop :: "Links \<Rightarrow> node \<Rightarrow> nat \<Rightarrow> nat option" where
  "countPredecessorsLoop s cur successors =
     (case prevOf s cur of None \<Rightarrow> Some successors | Some n \<Rightarrow> countPredecessorsLoop s n (Suc successors))"

definition countPredecessors :: "Links \<Rightarrow> node \<Rightarrow> nat option" where
  "countPredecessors s this = countPredecessorsLoop s this 0"

definition countThisAndAllConnected :: "Links \<Rightarrow> node \<Rightarrow> nat option" where
  "countThisAndAllConnected s this =
     (case (countPredecessors s this, countSuccessors s this) of
        (Some p, Some q) \<Rightarrow> Some (1 + p + q)
      | _ \<Rightarrow> None)"

text \<open>The search along the next and along the previous links.\<close>

partial_function (option) findNext :: "Links \<Rightarrow> node option \<Rightarrow> node \<Rightarrow> bool option" where
  "findNext s cur rhs =
     (case cur of None \<Rightarrow> Some False | Some c \<Rightarrow> if c = rhs then Some True else findNext s (nextOf s c) rhs)"

partial_function (option) findPrev :: "Links \<Rightarrow> node option \<Rightarrow> node \<Rightarrow> bool option" where
  "findPrev s cur lhs =
     (case cur of None \<Rightarrow> Some False | Some c \<Rightarrow> if c = lhs then Some True else findPrev s (prevOf s c) lhs)"

definition isPredecessorOf :: "Links \<Rightarrow> node \<Rightarrow> node \<Rightarrow> bool option" where
  "isPredecessorOf s this rhs = findNext s (nextOf s this) rhs"

definition isSuccessorOf :: "Links \<Rightarrow> node \<Rightarrow> node \<Rightarrow> bool option" where
  "isSuccessorOf s this lhs = findPrev s (prevOf s this) lhs"

definition isConnectedWith :: "Links \<Rightarrow> node \<Rightarrow> node \<Rightarrow> bool option" where
  "isConnectedWith s this nd =
     (if this = nd then Some True
      else case isSuccessorOf s this nd of
             None \<Rightarrow> None
           | Some b \<Rightarrow> if b then Some True else isPredecessorOf s this nd)"

section \<open>Lists\<close>

definition newIDList :: IDList where "newIDList = \<lparr>headPtr = None, tailPtr = None\<rparr>"

definition newIDListOf :: "node option \<Rightarrow> Links \<Rightarrow> IDList option" where
  "newIDListOf p s =
     (case p of
        None \<Rightarrow> Some \<lparr>headPtr = None, tailPtr = None\<rparr>
      | Some n \<Rightarrow> map_option (\<lambda>t. \<lparr>headPtr = Some n, tailPtr = Some t\<rparr>) (getTail s n))"

definition pushTailOneImpl :: "node \<Rightarrow> IDList \<times> Links \<Rightarrow> IDList \<times> Links" where
  "pushTailOneImpl n = (\<lambda>(l, s).
     case tailPtr l of
       None \<Rightarrow> (\<lparr>headPtr = Some n, tailPtr = Some n\<rparr>, setNext n None (setPrev n None s))
     | Some t \<Rightarrow> (l\<lparr>tailPtr := Some n\<rparr>, setNext t (Some n) (setPrev n (Some t) (setNext n None s))))"

definition pushFrontOneImpl :: "node \<Rightarrow> IDList \<times> Links \<Rightarrow> IDList \<times> Links" where
  "pushFrontOneImpl n = (\<lambda>(l, s).
     case headPtr l of
       None \<Rightarrow> pushTailOneImpl n (l, s)
     | Some h \<Rightarrow> (l\<lparr>headPtr := Some n\<rparr>, setPrev h (Some n) (setNext n (Some h) (setPrev n None s))))"

definition removeOneImpl :: "node \<Rightarrow> IDList \<times> Links \<Rightarrow> node \<times> IDList \<times> Links" where
  "removeOneImpl n = (\<lambda>(l, s).
     let s = whenNode (prevOf s n) (\<lambda>q. setNext q (nextOf s n)) s;
         s = whenNode (nextOf s n) (\<lambda>q. setPrev q (prevOf s n)) s;
         l = (if tailPtr l = Some n then l\<lparr>tailPtr := prevOf s n\<rparr> else l);
         l = (if headPtr l = Some n then l\<lparr>headPtr := nextOf s n\<rparr> else l)
     in (n, l, setNext n None (setPrev n None s)))"

definition removeFrontOneImpl :: "IDList \<times> Links \<Rightarrow> node option \<times> IDList \<times> Links" where
  "removeFrontOneImpl = (\<lambda>(l, s).
     case headPtr l of
       None \<Rightarrow> (None, l, s)
     | Some h \<Rightarrow> (case removeOneImpl h (l, s) of (n, ls) \<Rightarrow> (Some n, ls)))"

definition detachSequenceImpl :: "node \<Rightarrow> node \<Rightarrow> IDList \<times> Links \<Rightarrow> node \<times> IDList \<times> Links" where
  "detachSequenceImpl firstNode lastNode = (\<lambda>(l, s).
     if firstNode = lastNode then removeOneImpl firstNode (l, s)
     else
       let s = whenNode (prevOf s firstNode) (\<lambda>q. setNext q (nextOf s lastNode)) s;
           s = whenNode (nextOf s lastNode) (\<lambda>q. setPrev q (prevOf s firstNode)) s;
           l = (if headPtr l = Some firstNode then l\<lparr>headPtr := nextOf s lastNode\<rparr> else l);
           l = (if tailPtr l = Some lastNode then l\<lparr>tailPtr := prevOf s firstNode\<rparr> else l)
       in (firstNode, l, setNext lastNode None (setPrev firstNode None s)))"

definition detachNodesImpl :: "IDList \<times> Links \<Rightarrow> node option \<times> IDList \<times> Links" where
  "detachNodesImpl = (\<lambda>(l, s). (headPtr l, \<lparr>headPtr = None, tailPtr = None\<rparr>, s))"

definition spliceImpl :: "node \<Rightarrow> IDList \<times> Links \<Rightarrow> (IDList \<times> Links) option" where
  "spliceImpl n = (\<lambda>(l, s).
     case tailPtr l of
       None \<Rightarrow>
         let s = setPrev n None s
         in map_option (\<lambda>t. (l\<lparr>headPtr := Some n, tailPtr := Some t\<rparr>, s)) (getTail s n)
     | Some t \<Rightarrow>
         let s = setPrev n (Some t) (setNext t (Some n) s)
         in map_option (\<lambda>t. (l\<lparr>tailPtr := Some t\<rparr>, s)) (getTail s n))"

definition peekContainsImpl :: "node \<Rightarrow> IDList \<times> Links \<Rightarrow> node option option" where
  "peekContainsImpl n = (\<lambda>(l, s). map_option (\<lambda>b. if b then Some n else None) (findNext s (headPtr l) n))"

definition peekIsEmpty :: "IDList \<times> Links \<Rightarrow> bool" where
  "peekIsEmpty ls = (headPtr (fst ls) = None)"

definition deleteAll :: "IDList \<times> Links \<Rightarrow> (IDList \<times> Links) option" where
  "deleteAll ls =
     (case detachNodesImpl ls of
        (None, l, s) \<Rightarrow> None
      | (Some n, l, s) \<Rightarrow> map_option (\<lambda>(n, s). (l, deleteNode n s)) (deleteThisAndAllNext n s))"

text \<open>The destructor of a list that owns its nodes.\<close>

definition cleanupOwned :: "IDList \<times> Links \<Rightarrow> (IDList \<times> Links) option" where
  "cleanupOwned = (\<lambda>(l, s).
     case headPtr l of
       None \<Rightarrow> Some (\<lparr>headPtr = None, tailPtr = None\<rparr>, s)
     | Some h \<Rightarrow>
         map_option (\<lambda>(n, s). (\<lparr>headPtr = None, tailPtr = None\<rparr>, deleteNode n s)) (deleteThisAndAllNext h s))"

section \<open>The lock\<close>

text \<open>
  The spin lock of a list, with the recursion of its owner. \<open>None\<close> stands for a caller that keeps
  spinning: the lock is held by another thread.
\<close>

record SpinLock =
  locked :: bool
  lockOwner :: "nat option"

definition processLocked :: "nat \<Rightarrow> ('a \<Rightarrow> 'b \<times> 'a) \<Rightarrow> SpinLock \<times> 'a \<Rightarrow> ('b \<times> SpinLock \<times> 'a) option" where
  "processLocked thread process = (\<lambda>(k, a).
     if lockOwner k = Some thread then (case process a of (r, a) \<Rightarrow> Some (r, k, a))
     else if locked k then None
     else
       let k = k\<lparr>locked := True, lockOwner := Some thread\<rparr>
       in case process a of (r, a) \<Rightarrow> Some (r, k\<lparr>lockOwner := None, locked := False\<rparr>, a))"

section \<open>Lists in the store\<close>

text \<open>Following the links from a pointer visits these nodes and ends at a pointer.\<close>

fun visits :: "(node \<Rightarrow> node option) \<Rightarrow> node option \<Rightarrow> node list \<Rightarrow> node option \<Rightarrow> bool" where
  "visits link p [] q \<longleftrightarrow> p = q"
| "visits link p (n # ns) q \<longleftrightarrow> p = Some n \<and> visits link (link n) ns q"

lemma visits_append [simp]: "visits link p (ms @ ns) q \<longleftrightarrow> (\<exists>r. visits link p ms r \<and> visits link r ns q)"
  by (induction ms arbitrary: p) auto

lemma visits_other [simp]: "n \<notin> set ns \<Longrightarrow> visits (link(n := r)) p ns q \<longleftrightarrow> visits link p ns q"
  by (induction ns arbitrary: p) auto

lemma visits_cong: "\<forall>n \<in> set ns. link' n = link n \<Longrightarrow> visits link' p ns q \<longleftrightarrow> visits link p ns q"
  by (induction ns arbitrary: p) auto

definition headOf :: "'a list \<Rightarrow> 'a option" where
  "headOf xs = (case xs of [] \<Rightarrow> None | x # _ \<Rightarrow> Some x)"

lemma headOf_simps [simp]: "headOf [] = None" "headOf (x # xs) = Some x" "headOf (xs @ x # ys) = Some (case xs of [] \<Rightarrow> x | z # _ \<Rightarrow> z)"
  by (simp_all add: headOf_def split: list.split)

lemma visits_end: "visits link p ns None \<Longrightarrow> p = headOf ns"
  by (cases ns) auto

definition represents :: "IDList \<times> Links \<Rightarrow> node list \<Rightarrow> bool" where
  "represents ls ns \<longleftrightarrow> distinct ns \<and> visits (nextOf (snd ls)) (headPtr (fst ls)) ns None \<and>
     visits (prevOf (snd ls)) (tailPtr (fst ls)) (rev ns) None"

text \<open>An operation leaves the links of the other nodes as they are, and deletes none.\<close>

definition keepsOthers :: "Links \<Rightarrow> Links \<Rightarrow> node set \<Rightarrow> bool" where
  "keepsOthers s s' N \<longleftrightarrow> deletedNodes s' = deletedNodes s \<and>
     (\<forall>n. n \<notin> N \<longrightarrow> nextOf s' n = nextOf s n \<and> prevOf s' n = prevOf s n)"

lemma keepsOthers_refl [simp]: "keepsOthers s s N"
  by (simp add: keepsOthers_def)

lemma keepsOthers_trans: "keepsOthers s t N \<Longrightarrow> keepsOthers t u M \<Longrightarrow> keepsOthers s u (N \<union> M)"
  by (simp add: keepsOthers_def)

lemma keepsOthers_mono: "keepsOthers s t N \<Longrightarrow> N \<subseteq> M \<Longrightarrow> keepsOthers s t M"
  by (auto simp: keepsOthers_def)

lemma set_links [simp]:
  "nextOf (setNext n p s) = (nextOf s)(n := p)" "prevOf (setNext n p s) = prevOf s"
  "prevOf (setPrev n p s) = (prevOf s)(n := p)" "nextOf (setPrev n p s) = nextOf s"
  "deletedNodes (setNext n p s) = deletedNodes s" "deletedNodes (setPrev n p s) = deletedNodes s"
  by (simp_all add: setNext_def setPrev_def)

lemma whenNode_simps [simp]: "whenNode None f s = s" "whenNode (Some n) f s = f n s"
  by (simp_all add: whenNode_def)

lemma represents_distinct: "represents ls ns \<Longrightarrow> distinct ns"
  by (simp add: represents_def)

lemma represents_ends:
  "represents (l, s) ns \<Longrightarrow> headPtr l = headOf ns \<and> tailPtr l = headOf (rev ns)"
  by (auto simp: represents_def dest: visits_end)

lemma represents_frame:
  assumes "represents (l, s) ns" "keepsOthers s s' N" "set ns \<inter> N = {}"
  shows "represents (l, s') ns"
proof -
  have "\<forall>n \<in> set ns. nextOf s' n = nextOf s n" "\<forall>n \<in> set (rev ns). prevOf s' n = prevOf s n"
    using assms(2,3) by (auto simp: keepsOthers_def)
  from visits_cong [OF this(1)] visits_cong [OF this(2)] show ?thesis using assms(1) by (simp add: represents_def)
qed

section \<open>The interface of a store with several lists\<close>

text \<open>What the clients need to know: a list keeps what it represents when its nodes are not touched.\<close>

locale framed_lists =
  fixes rep :: "'l \<times> 's \<Rightarrow> node list \<Rightarrow> bool"
    and keeps :: "'s \<Rightarrow> 's \<Rightarrow> node set \<Rightarrow> bool"
  assumes frame: "rep (l, s) ns \<Longrightarrow> keeps s s' N \<Longrightarrow> set ns \<inter> N = {} \<Longrightarrow> rep (l, s') ns"
    and rep_distinct: "rep (l, s) ns \<Longrightarrow> distinct ns"
begin

text \<open>A family of lists in one store; no node is in two of them.\<close>

definition family :: "('i \<Rightarrow> 'l) \<Rightarrow> 's \<Rightarrow> ('i \<Rightarrow> node list) \<Rightarrow> bool" where
  "family hs s A \<longleftrightarrow> (\<forall>i. rep (hs i, s) (A i)) \<and> (\<forall>i j. i \<noteq> j \<longrightarrow> set (A i) \<inter> set (A j) = {})"

lemma family_rep: "family hs s A \<Longrightarrow> rep (hs i, s) (A i)"
  by (simp add: family_def)

lemma family_apart: "family hs s A \<Longrightarrow> i \<noteq> j \<Longrightarrow> set (A i) \<inter> set (A j) = {}"
  by (simp add: family_def)

lemma family_update:
  assumes "family hs s A" "rep (l, s') ns" "keeps s s' N" "\<And>j. j \<noteq> i \<Longrightarrow> set (A j) \<inter> (N \<union> set ns) = {}"
  shows "family (hs(i := l)) s' (A(i := ns))"
proof -
  have "rep ((hs(i := l)) j, s') ((A(i := ns)) j)" for j
    using assms(2) frame [OF family_rep [OF assms(1)] assms(3), of j] assms(4) [of j] by auto
  moreover have "set ((A(i := ns)) j) \<inter> set ((A(i := ns)) k) = {}" if "j \<noteq> k" for j k
    using that family_apart [OF assms(1) that] assms(4) [of j] assms(4) [of k] by auto
  ultimately show ?thesis by (simp add: family_def)
qed

lemma family_update2:
  assumes f: "family hs s A" and ij: "i \<noteq> j"
    and r: "rep (l, s') ns" "rep (k, s') ms" and n: "keeps s s' N" and apart: "set ns \<inter> set ms = {}"
    and o: "\<And>h. h \<noteq> i \<Longrightarrow> h \<noteq> j \<Longrightarrow> set (A h) \<inter> (N \<union> set ns \<union> set ms) = {}"
  shows "family (hs(i := l, j := k)) s' (A(i := ns, j := ms))"
proof -
  have "rep ((hs(i := l, j := k)) h, s') ((A(i := ns, j := ms)) h)" for h
    using r frame [OF family_rep [OF f] n, of h] o [of h] by auto
  moreover have "set ((A(i := ns, j := ms)) g) \<inter> set ((A(i := ns, j := ms)) h) = {}" if "g \<noteq> h" for g h
    using that family_apart [OF f that] o [of g] o [of h] apart ij by auto
  ultimately show ?thesis by (simp add: family_def)
qed

end

interpretation il: framed_lists represents keepsOthers
  by unfold_locales (auto intro: represents_frame represents_distinct)

section \<open>The operations on a list\<close>

lemma new_represents: "represents (newIDList, s) []"
  by (simp add: represents_def newIDList_def)

lemma pushTail_represents:
  assumes "represents (l, s) ns" "n \<notin> set ns"
  shows "represents (pushTailOneImpl n (l, s)) (ns @ [n]) \<and> keepsOthers s (snd (pushTailOneImpl n (l, s))) (insert n (set ns))"
proof (cases "rev ns")
  case Nil
  then show ?thesis using represents_ends [OF assms(1)] assms by (simp add: pushTailOneImpl_def represents_def keepsOthers_def)
next
  case (Cons t ms)
  then have ns: "ns = rev ms @ [t]" by (metis rev.simps(2) rev_rev_ident)
  have "tailPtr l = Some t" using represents_ends [OF assms(1)] Cons by simp
  then show ?thesis using assms unfolding ns by (auto simp: pushTailOneImpl_def represents_def keepsOthers_def)
qed

lemma pushFront_represents:
  assumes "represents (l, s) ns" "n \<notin> set ns"
  shows "represents (pushFrontOneImpl n (l, s)) (n # ns) \<and> keepsOthers s (snd (pushFrontOneImpl n (l, s))) (insert n (set ns))"
proof (cases ns)
  case Nil
  then show ?thesis using pushTail_represents [OF assms] represents_ends [OF assms(1)] by (simp add: pushFrontOneImpl_def)
next
  case (Cons h ms)
  have "headPtr l = Some h" using represents_ends [OF assms(1)] Cons by simp
  then show ?thesis using assms unfolding Cons by (auto simp: pushFrontOneImpl_def represents_def keepsOthers_def)
qed

lemma list_split_cases:
  obtains "ns = []" | m ms where "ns = ms @ [m]"
  by (cases ns rule: rev_cases) auto

lemma links_of:
  assumes "represents (l, s) (as @ n # bs)"
  shows "nextOf s n = headOf bs" "prevOf s n = headOf (rev as)"
    "tailPtr l = Some n \<longleftrightarrow> bs = []" "headPtr l = Some n \<longleftrightarrow> as = []"
proof -
  have v: "visits (nextOf s) (nextOf s n) bs None" "visits (prevOf s) (prevOf s n) (rev as) None" "distinct (as @ n # bs)"
    using assms by (auto simp: represents_def)
  from v(1,2) show "nextOf s n = headOf bs" "prevOf s n = headOf (rev as)" by (auto dest: visits_end)
  show "tailPtr l = Some n \<longleftrightarrow> bs = []"
    using represents_ends [OF assms] v(3) by (cases "rev bs") (auto simp: headOf_def dest!: arg_cong [of _ _ set])
  show "headPtr l = Some n \<longleftrightarrow> as = []"
    using represents_ends [OF assms] v(3) by (cases as) auto
qed

lemma represents_split:
  "represents (l, s) (as @ n # bs) \<longleftrightarrow> distinct (as @ n # bs) \<and>
     visits (nextOf s) (headPtr l) as (Some n) \<and> visits (nextOf s) (nextOf s n) bs None \<and>
     visits (prevOf s) (tailPtr l) (rev bs) (Some n) \<and> visits (prevOf s) (prevOf s n) (rev as) None"
  by (auto simp: represents_def)

lemma removeOne_represents:
  assumes r: "represents (l, s) (as @ n # bs)"
  shows "\<exists>l' s'. removeOneImpl n (l, s) = (n, l', s') \<and> represents (l', s') (as @ bs) \<and> keepsOthers s s' (set (as @ n # bs)) \<and>
    nextOf s' n = None \<and> prevOf s' n = None"
proof -
  note links = links_of [OF r]
  have v: "distinct (as @ n # bs)" "visits (nextOf s) (headPtr l) as (Some n)" "visits (nextOf s) (nextOf s n) bs None"
      "visits (prevOf s) (tailPtr l) (rev bs) (Some n)" "visits (prevOf s) (prevOf s n) (rev as) None"
    using r by (auto simp: represents_split)
  consider "as = []" "bs = []" | b bs' where "as = []" "bs = b # bs'" | as' a where "as = as' @ [a]" "bs = []"
    | as' a b bs' where "as = as' @ [a]" "bs = b # bs'"
    by (cases as rule: rev_cases; cases bs) auto
  then show ?thesis
  proof cases
    case 1
    then show ?thesis using v links by (auto simp: removeOneImpl_def Let_def represents_def keepsOthers_def)
  next
    case 2
    then show ?thesis using v links by (auto simp: removeOneImpl_def Let_def represents_def keepsOthers_def)
  next
    case 3
    then show ?thesis using v links by (auto simp: removeOneImpl_def Let_def represents_def keepsOthers_def)
  next
    case 4
    then show ?thesis using v links by (auto simp: removeOneImpl_def Let_def represents_def keepsOthers_def)
  qed
qed

lemma removeFront_represents:
  "represents (l, s) [] \<Longrightarrow> removeFrontOneImpl (l, s) = (None, l, s)"
  "represents (l, s) (n # ns) \<Longrightarrow> \<exists>l' s'. removeFrontOneImpl (l, s) = (Some n, l', s') \<and> represents (l', s') ns \<and>
     keepsOthers s s' (set (n # ns)) \<and> nextOf s' n = None \<and> prevOf s' n = None"
proof -
  show "represents (l, s) [] \<Longrightarrow> removeFrontOneImpl (l, s) = (None, l, s)"
    by (auto simp: removeFrontOneImpl_def dest: represents_ends)
  assume r: "represents (l, s) (n # ns)"
  have "headPtr l = Some n" using represents_ends [OF r] by simp
  then show "\<exists>l' s'. removeFrontOneImpl (l, s) = (Some n, l', s') \<and> represents (l', s') ns \<and>
      keepsOthers s s' (set (n # ns)) \<and> nextOf s' n = None \<and> prevOf s' n = None"
    using removeOne_represents [of l s "[]" n ns] r by (auto simp: removeFrontOneImpl_def)
qed

section \<open>Detached nodes\<close>

text \<open>The nodes of a chain outside a list: the link before its first node is of no interest.\<close>

definition chain :: "Links \<Rightarrow> node list \<Rightarrow> bool" where
  "chain s ns \<longleftrightarrow> distinct ns \<and> visits (nextOf s) (headOf ns) ns None \<and>
     (case ns of [] \<Rightarrow> True | n # ms \<Rightarrow> visits (prevOf s) (headOf (rev ns)) (rev ms) (Some n))"

lemma chain_frame:
  assumes "chain s ns" "keepsOthers s s' N" "set ns \<inter> N = {}"
  shows "chain s' ns"
proof (cases ns)
  case (Cons n ms)
  have "\<forall>k \<in> set ns. nextOf s' k = nextOf s k" "\<forall>k \<in> set (rev ms). prevOf s' k = prevOf s k"
    using assms(2,3) Cons by (auto simp: keepsOthers_def)
  from visits_cong [OF this(1)] visits_cong [OF this(2)] show ?thesis
    using assms(1) Cons by (auto simp: chain_def simp del: visits.simps)
qed (simp add: chain_def)

lemma represents_chain: "represents (l, s) ns \<Longrightarrow> chain s ns"
proof (cases ns)
  case (Cons n ms)
  assume r: "represents (l, s) ns"
  then show ?thesis using represents_ends [OF r] Cons by (auto simp: represents_def chain_def)
qed (simp add: chain_def)

lemma detachNodes_represents:
  "represents (l, s) ns \<Longrightarrow> \<exists>l'. detachNodesImpl (l, s) = (headOf ns, l', s) \<and> represents (l', s) [] \<and> chain s ns"
  by (auto simp: detachNodesImpl_def represents_chain dest: represents_ends) (simp add: represents_def)

lemma getTail_visits: "visits (nextOf s) (Some m) (m # ms) None \<Longrightarrow> getTail s m = Some (last (m # ms))"
proof (induction ms arbitrary: m)
  case Nil
  then show ?case by (subst getTail.simps) simp
next
  case (Cons k ms)
  then show ?case by (subst getTail.simps) simp
qed

lemma headOf_rev: "headOf (rev (m # ms)) = Some (last (m # ms))"
  by (cases ms rule: rev_cases) simp_all

lemma splice_represents:
  assumes r: "represents (l, s) ns" and c: "chain s (m # ms)" and apart: "set ns \<inter> set (m # ms) = {}"
  shows "\<exists>l' s'. spliceImpl m (l, s) = Some (l', s') \<and> represents (l', s') (ns @ m # ms) \<and>
    keepsOthers s s' (set ns \<union> set (m # ms))"
proof (cases ns rule: rev_cases)
  case Nil
  have "tailPtr l = None" using represents_ends [OF r] Nil by simp
  moreover have "getTail (setPrev m None s) m = Some (last (m # ms))"
    using c by (intro getTail_visits) (simp add: chain_def)
  ultimately show ?thesis using c Nil headOf_rev [of m ms] by (auto simp: spliceImpl_def Let_def represents_def chain_def keepsOthers_def)
next
  case (snoc ns' t)
  have t: "tailPtr l = Some t" using represents_ends [OF r] snoc by simp
  have d: "t \<notin> set (m # ms)" "t \<noteq> m" using apart snoc by auto
  have g: "getTail (setPrev m (Some t) (setNext t (Some m) s)) m = Some (last (m # ms))"
    using c d by (intro getTail_visits) (simp add: chain_def)
  have "represents (l\<lparr>tailPtr := Some (last (m # ms))\<rparr>, setPrev m (Some t) (setNext t (Some m) s)) (ns @ m # ms)"
    using r c t d apart headOf_rev [of m ms] unfolding snoc by (auto simp: represents_def chain_def)
  then show ?thesis using t g d snoc by (auto simp: spliceImpl_def Let_def keepsOthers_def)
qed

lemma detachSequence_represents:
  assumes r: "represents (l, s) (as @ ms @ bs)" and e: "ms \<noteq> []"
  shows "\<exists>l' s'. detachSequenceImpl (hd ms) (last ms) (l, s) = (hd ms, l', s') \<and> represents (l', s') (as @ bs) \<and>
    chain s' ms \<and> keepsOthers s s' (set (as @ ms @ bs))"
proof (cases "hd ms = last ms")
  case True
  have "distinct ms" using r by (simp add: represents_def)
  then have ms: "ms = [hd ms]" using True e by (cases ms) (auto split: if_splits)
  obtain n where n: "ms = [n]" using ms by metis
  show ?thesis using removeOne_represents [of l s as n bs] r unfolding n
    by (auto simp: detachSequenceImpl_def chain_def)
next
  case False
  obtain f ks g where ms: "ms = f # ks @ [g]"
    using e False by (cases ms; cases "tl ms" rule: rev_cases) auto
  have r': "represents (l, s) (as @ f # ks @ g # bs)" and r2: "represents (l, s) ((as @ f # ks) @ g # bs)"
    using r unfolding ms by simp_all
  note lf = links_of [OF r'] and lg = links_of [OF r2]
  have v: "distinct (as @ f # ks @ g # bs)" "visits (nextOf s) (headPtr l) as (Some f)"
      "visits (nextOf s) (nextOf s f) ks (Some g)" "visits (nextOf s) (nextOf s g) bs None"
      "visits (prevOf s) (tailPtr l) (rev bs) (Some g)" "visits (prevOf s) (prevOf s g) (rev ks) (Some f)"
      "visits (prevOf s) (prevOf s f) (rev as) None"
    using r' by (auto simp: represents_def)
  have fg: "f \<noteq> g" using v(1) by auto
  consider "as = []" "bs = []" | b bs' where "as = []" "bs = b # bs'" | as' a where "as = as' @ [a]" "bs = []"
    | as' a b bs' where "as = as' @ [a]" "bs = b # bs'"
    by (cases as rule: rev_cases; cases bs) auto
  then show ?thesis
  proof cases
    case 1
    then show ?thesis using v lf lg fg by (auto simp: ms detachSequenceImpl_def Let_def represents_def chain_def keepsOthers_def)
  next
    case 2
    then show ?thesis using v lf lg fg by (auto simp: ms detachSequenceImpl_def Let_def represents_def chain_def keepsOthers_def)
  next
    case 3
    then show ?thesis using v lf lg fg by (auto simp: ms detachSequenceImpl_def Let_def represents_def chain_def keepsOthers_def)
  next
    case 4
    then show ?thesis using v lf lg fg by (auto simp: ms detachSequenceImpl_def Let_def represents_def chain_def keepsOthers_def)
  qed
qed

section \<open>The questions to a node and to a list\<close>

lemma findNext_visits: "visits (nextOf s) p ns None \<Longrightarrow> findNext s p x = Some (x \<in> set ns)"
proof (induction ns arbitrary: p)
  case Nil
  then show ?case by (subst findNext.simps) simp
next
  case (Cons n ns)
  then show ?case by (subst findNext.simps) (cases p; auto)
qed

lemma findPrev_visits: "visits (prevOf s) p ns None \<Longrightarrow> findPrev s p x = Some (x \<in> set ns)"
proof (induction ns arbitrary: p)
  case Nil
  then show ?case by (subst findPrev.simps) simp
next
  case (Cons n ns)
  then show ?case by (subst findPrev.simps) (cases p; auto)
qed

lemma countSuccessorsLoop_visits:
  "visits (nextOf s) (nextOf s n) ns None \<Longrightarrow> countSuccessorsLoop s n k = Some (k + length ns)"
proof (induction ns arbitrary: n k)
  case Nil
  then show ?case by (subst countSuccessorsLoop.simps) simp
next
  case (Cons m ns)
  then show ?case by (subst countSuccessorsLoop.simps) simp
qed

lemma countPredecessorsLoop_visits:
  "visits (prevOf s) (prevOf s n) ns None \<Longrightarrow> countPredecessorsLoop s n k = Some (k + length ns)"
proof (induction ns arbitrary: n k)
  case Nil
  then show ?case by (subst countPredecessorsLoop.simps) simp
next
  case (Cons m ns)
  then show ?case by (subst countPredecessorsLoop.simps) simp
qed

lemma node_questions:
  assumes r: "represents (l, s) (as @ n # bs)"
  shows "countSuccessors s n = Some (length bs)" "countPredecessors s n = Some (length as)"
    "countThisAndAllConnected s n = Some (length (as @ n # bs))"
    "isPredecessorOf s n x = Some (x \<in> set bs)" "isSuccessorOf s n x = Some (x \<in> set as)"
    "isConnectedWith s n x = Some (x \<in> set (as @ n # bs))"
proof -
  have v: "visits (nextOf s) (nextOf s n) bs None" "visits (prevOf s) (prevOf s n) (rev as) None"
    using r by (auto simp: represents_split)
  show c: "countSuccessors s n = Some (length bs)" "countPredecessors s n = Some (length as)"
    using countSuccessorsLoop_visits [OF v(1)] countPredecessorsLoop_visits [OF v(2)]
    by (simp_all add: countSuccessors_def countPredecessors_def)
  then show "countThisAndAllConnected s n = Some (length (as @ n # bs))" by (simp add: countThisAndAllConnected_def)
  show p: "isPredecessorOf s n x = Some (x \<in> set bs)" "isSuccessorOf s n x = Some (x \<in> set as)"
    using findNext_visits [OF v(1)] findPrev_visits [OF v(2)] by (simp_all add: isPredecessorOf_def isSuccessorOf_def)
  then show "isConnectedWith s n x = Some (x \<in> set (as @ n # bs))" by (auto simp: isConnectedWith_def)
qed

lemma peekContains_represents:
  "represents (l, s) ns \<Longrightarrow> peekContainsImpl n (l, s) = Some (if n \<in> set ns then Some n else None)"
  using findNext_visits [of s "headPtr l" ns n] by (simp add: represents_def peekContainsImpl_def)

lemma peekIsEmpty_represents: "represents (l, s) ns \<Longrightarrow> peekIsEmpty (l, s) \<longleftrightarrow> ns = []"
  using represents_ends [of l s ns] by (cases ns) (auto simp: peekIsEmpty_def)

lemma deleteNextLoop_visits:
  "visits (nextOf s) p ns None \<Longrightarrow> deleteNextLoop p s = Some (s\<lparr>deletedNodes := deletedNodes s @ ns\<rparr>)"
proof (induction ns arbitrary: p s)
  case Nil
  then show ?case by (subst deleteNextLoop.simps) simp
next
  case (Cons n ns)
  have "visits (nextOf (deleteNode n s)) (nextOf s n) ns None" using Cons.prems by (simp add: deleteNode_def)
  from Cons.IH [OF this] show ?case using Cons.prems by (subst deleteNextLoop.simps) (simp add: Let_def deleteNode_def)
qed

text \<open>A list that owns its nodes deletes each of them once.\<close>

lemma cleanup_deletes_all:
  assumes "represents (l, s) ns"
  shows "\<exists>l' s'. cleanupOwned (l, s) = Some (l', s') \<and> represents (l', s') [] \<and>
    deletedNodes s' = deletedNodes s @ (case ns of [] \<Rightarrow> [] | n # ms \<Rightarrow> ms @ [n])"
proof (cases ns)
  case Nil
  then show ?thesis using represents_ends [OF assms] by (auto simp: cleanupOwned_def represents_def)
next
  case (Cons n ms)
  have h: "headPtr l = Some n" "prevOf s n = None"
    using represents_ends [OF assms] links_of [of l s "[]" n ms] assms Cons by simp_all
  have "visits (nextOf s) (nextOf s n) ms None" using assms Cons by (simp add: represents_def)
  from deleteNextLoop_visits [OF this] h show ?thesis using Cons
    by (auto simp: cleanupOwned_def deleteThisAndAllNext_def represents_def deleteNode_def)
qed

lemma processLocked_runs:
  assumes "lockOwner k = Some thread \<or> \<not> locked k \<and> lockOwner k = None" "process a = (r, b)"
  shows "processLocked thread process (k, a) = Some (r, k, b)"
  using assms by (auto simp: processLocked_def Let_def)

section \<open>Lists of one store refine lists\<close>

text \<open>What the driver does with its lists; the lists of a store are numbered.\<close>

datatype ListCommand =
    PushFront nat node | PushTail nat node | RemoveOne nat node | RemoveFront nat
  | PeekContains nat node | PeekIsEmpty nat
  | MoveAll nat nat
  | MoveSequence nat node node nat

datatype ListReply = NoReply | RemovedNode "node option" | Answer bool

definition spliceDetached :: "node option \<Rightarrow> nat \<Rightarrow> (nat \<Rightarrow> IDList) \<Rightarrow> Links \<Rightarrow> ((nat \<Rightarrow> IDList) \<times> Links) option" where
  "spliceDetached p j hs s =
     (case p of
        None \<Rightarrow> Some (hs, s)
      | Some n \<Rightarrow> map_option (\<lambda>(l, s). (hs(j := l), s)) (spliceImpl n (hs j, s)))"

fun runCommand :: "ListCommand \<Rightarrow> (nat \<Rightarrow> IDList) \<times> Links \<Rightarrow> (ListReply \<times> (nat \<Rightarrow> IDList) \<times> Links) option" where
  "runCommand (PushFront i n) (hs, s) = (case pushFrontOneImpl n (hs i, s) of (l, s) \<Rightarrow> Some (NoReply, hs(i := l), s))"
| "runCommand (PushTail i n) (hs, s) = (case pushTailOneImpl n (hs i, s) of (l, s) \<Rightarrow> Some (NoReply, hs(i := l), s))"
| "runCommand (RemoveOne i n) (hs, s) =
     (case removeOneImpl n (hs i, s) of (m, l, s) \<Rightarrow> Some (RemovedNode (Some m), hs(i := l), s))"
| "runCommand (RemoveFront i) (hs, s) =
     (case removeFrontOneImpl (hs i, s) of (m, l, s) \<Rightarrow> Some (RemovedNode m, hs(i := l), s))"
| "runCommand (PeekContains i n) (hs, s) =
     map_option (\<lambda>p. (Answer (p \<noteq> None), hs, s)) (peekContainsImpl n (hs i, s))"
| "runCommand (PeekIsEmpty i) (hs, s) = Some (Answer (peekIsEmpty (hs i, s)), hs, s)"
| "runCommand (MoveAll i j) (hs, s) =
     (case detachNodesImpl (hs i, s) of
        (p, l, s) \<Rightarrow> map_option (\<lambda>hss. (NoReply, hss)) (spliceDetached p j (hs(i := l)) s))"
| "runCommand (MoveSequence i firstNode lastNode j) (hs, s) =
     (case detachSequenceImpl firstNode lastNode (hs i, s) of
        (n, l, s) \<Rightarrow> map_option (\<lambda>hss. (NoReply, hss)) (spliceDetached (Some n) j (hs(i := l)) s))"

fun runCommands :: "ListCommand list \<Rightarrow> (nat \<Rightarrow> IDList) \<times> Links \<Rightarrow> (ListReply list \<times> (nat \<Rightarrow> IDList) \<times> Links) option" where
  "runCommands [] w = Some ([], w)"
| "runCommands (c # cs) w =
     (case runCommand c w of
        None \<Rightarrow> None
      | Some (r, w) \<Rightarrow> map_option (\<lambda>(rs, w). (r # rs, w)) (runCommands cs w))"

text \<open>The same commands on lists, and what the caller must not do: put a node into a list twice or
  take it from a list it is not in.\<close>

definition upToNode :: "node \<Rightarrow> node list \<Rightarrow> node list" where "upToNode n = takeWhile (\<lambda>m. m \<noteq> n)"
definition fromNode :: "node \<Rightarrow> node list \<Rightarrow> node list" where "fromNode n = dropWhile (\<lambda>m. m \<noteq> n)"

fun specCommand :: "ListCommand \<Rightarrow> (nat \<Rightarrow> node list) \<Rightarrow> ListReply \<times> (nat \<Rightarrow> node list)" where
  "specCommand (PushFront i n) A = (NoReply, A(i := n # A i))"
| "specCommand (PushTail i n) A = (NoReply, A(i := A i @ [n]))"
| "specCommand (RemoveOne i n) A = (RemovedNode (Some n), A(i := remove1 n (A i)))"
| "specCommand (RemoveFront i) A = (RemovedNode (headOf (A i)), A(i := tl (A i)))"
| "specCommand (PeekContains i n) A = (Answer (n \<in> set (A i)), A)"
| "specCommand (PeekIsEmpty i) A = (Answer (A i = []), A)"
| "specCommand (MoveAll i j) A = (NoReply, A(i := [], j := A j @ A i))"
| "specCommand (MoveSequence i f g j) A =
     (let rest = fromNode f (A i)
      in (NoReply, A(i := upToNode f (A i) @ tl (fromNode g rest), j := A j @ upToNode g rest @ [g])))"

fun allowedCommand :: "ListCommand \<Rightarrow> (nat \<Rightarrow> node list) \<Rightarrow> bool" where
  "allowedCommand (PushFront i n) A \<longleftrightarrow> (\<forall>j. n \<notin> set (A j))"
| "allowedCommand (PushTail i n) A \<longleftrightarrow> (\<forall>j. n \<notin> set (A j))"
| "allowedCommand (RemoveOne i n) A \<longleftrightarrow> n \<in> set (A i)"
| "allowedCommand (RemoveFront i) A \<longleftrightarrow> True"
| "allowedCommand (PeekContains i n) A \<longleftrightarrow> True"
| "allowedCommand (PeekIsEmpty i) A \<longleftrightarrow> True"
| "allowedCommand (MoveAll i j) A \<longleftrightarrow> i \<noteq> j"
| "allowedCommand (MoveSequence i f g j) A \<longleftrightarrow> i \<noteq> j \<and> f \<in> set (A i) \<and> g \<in> set (fromNode f (A i))"

fun specCommands :: "ListCommand list \<Rightarrow> (nat \<Rightarrow> node list) \<Rightarrow> ListReply list \<times> (nat \<Rightarrow> node list)" where
  "specCommands [] A = ([], A)"
| "specCommands (c # cs) A =
     (case specCommand c A of (r, A) \<Rightarrow> case specCommands cs A of (rs, A) \<Rightarrow> (r # rs, A))"

fun allowedCommands :: "ListCommand list \<Rightarrow> (nat \<Rightarrow> node list) \<Rightarrow> bool" where
  "allowedCommands [] A \<longleftrightarrow> True"
| "allowedCommands (c # cs) A \<longleftrightarrow> allowedCommand c A \<and> allowedCommands cs (snd (specCommand c A))"

abbreviation storeHolds :: "(nat \<Rightarrow> IDList) \<times> Links \<Rightarrow> (nat \<Rightarrow> node list) \<Rightarrow> bool" where
  "storeHolds w A \<equiv> il.family (fst w) (snd w) A"

lemma split_node: "n \<in> set ns \<Longrightarrow> ns = upToNode n ns @ n # tl (fromNode n ns)"
  unfolding upToNode_def fromNode_def
  by (induction ns) auto

lemma upToNode_notin: "n \<notin> set (upToNode n ns)"
  by (auto simp: upToNode_def dest: set_takeWhileD)

lemma remove1_split: "n \<in> set ns \<Longrightarrow> remove1 n ns = upToNode n ns @ tl (fromNode n ns)"
  unfolding upToNode_def fromNode_def by (induction ns) auto

lemma move_family:
  assumes f: "il.family hs s A" and ij: "i \<noteq> j" and A: "A i = as @ ms @ bs" and r: "represents (l, s') (as @ bs)"
    and c: "chain s' ms" and k: "keepsOthers s s' (set (A i))"
  shows "\<exists>hs' s''. spliceDetached (headOf ms) j (hs(i := l)) s' = Some (hs', s'') \<and>
    il.family hs' s'' (A(i := as @ bs, j := A j @ ms))"
proof (cases ms)
  case Nil
  have "il.family (hs(i := l)) s' (A(i := as @ bs))"
  proof (rule il.family_update [OF f r k])
    fix h assume "h \<noteq> i"
    then show "set (A h) \<inter> (set (A i) \<union> set (as @ bs)) = {}" using il.family_apart [OF f, of h i] A by auto
  qed
  moreover have "A(i := as @ bs, j := A j @ ms) = A(i := as @ bs)" using Nil ij by auto
  ultimately show ?thesis using Nil by (simp add: spliceDetached_def)
next
  case (Cons m ks)
  have j: "represents (hs j, s') (A j)"
    by (rule represents_frame [OF il.family_rep [OF f] k]) (use il.family_apart [OF f ij] in auto)
  have apart: "set (A j) \<inter> set (m # ks) = {}" using il.family_apart [OF f ij] A Cons by auto
  obtain l' s'' where sp: "spliceImpl m (hs j, s') = Some (l', s'')" and r': "represents (l', s'') (A j @ m # ks)"
      and k': "keepsOthers s' s'' (set (A j) \<union> set (m # ks))"
    using splice_represents [OF j c [unfolded Cons] apart] by blast
  have ri: "represents (l, s'') (as @ bs)"
    by (rule represents_frame [OF r k'])
      (use il.family_apart [OF f ij] A Cons represents_distinct [OF il.family_rep [OF f, of i]] in auto)
  have "il.family (hs(i := l, j := l')) s'' (A(i := as @ bs, j := A j @ m # ks))"
  proof (rule il.family_update2 [OF f ij ri r' keepsOthers_trans [OF k k']])
    show "set (as @ bs) \<inter> set (A j @ m # ks) = {}"
      using il.family_apart [OF f ij] A Cons represents_distinct [OF il.family_rep [OF f, of i]] by auto
    fix h assume h: "h \<noteq> i" "h \<noteq> j"
    show "set (A h) \<inter> (set (A i) \<union> (set (A j) \<union> set (m # ks)) \<union> set (as @ bs) \<union> set (A j @ m # ks)) = {}"
      using il.family_apart [OF f h(1)] il.family_apart [OF f h(2)] A Cons by auto
  qed
  then show ?thesis using sp Cons ij by (simp add: spliceDetached_def)
qed

lemma command_simulates:
  assumes f: "il.family hs s A" and ok: "allowedCommand c A"
  shows "\<exists>hs' s'. runCommand c (hs, s) = Some (fst (specCommand c A), hs', s') \<and> il.family hs' s' (snd (specCommand c A))"
proof -
  have rep: "represents (hs i, s) (A i)" for i by (rule il.family_rep [OF f])
  have one: "il.family (hs(i := l)) s' (A(i := ns))"
    if "represents (l, s') ns" "keepsOthers s s' (insert n (set (A i)))" "set ns \<subseteq> insert n (set (A i))"
      "\<And>j. j \<noteq> i \<Longrightarrow> n \<notin> set (A j)" for i l s' ns n
  proof (rule il.family_update [OF f that(1,2)])
    fix j assume "j \<noteq> i"
    then show "set (A j) \<inter> (insert n (set (A i)) \<union> set ns) = {}"
      using that(3) that(4) [of j] il.family_apart [OF f, of j i] by auto
  qed
  show ?thesis
  proof (cases c)
    case (PushFront i n)
    have "represents (pushFrontOneImpl n (hs i, s)) (n # A i)"
        "keepsOthers s (snd (pushFrontOneImpl n (hs i, s))) (insert n (set (A i)))"
      using pushFront_represents [OF rep] ok PushFront by auto
    then show ?thesis using one [of _ _ "n # A i" n i] ok PushFront by (cases "pushFrontOneImpl n (hs i, s)") auto
  next
    case (PushTail i n)
    have "represents (pushTailOneImpl n (hs i, s)) (A i @ [n])"
        "keepsOthers s (snd (pushTailOneImpl n (hs i, s))) (insert n (set (A i)))"
      using pushTail_represents [OF rep] ok PushTail by auto
    then show ?thesis using one [of _ _ "A i @ [n]" n i] ok PushTail by (cases "pushTailOneImpl n (hs i, s)") auto
  next
    case (RemoveOne i n)
    let ?as = "upToNode n (A i)" and ?bs = "tl (fromNode n (A i))"
    have n: "n \<in> set (A i)" using ok RemoveOne by simp
    have split: "A i = ?as @ n # ?bs" by (rule split_node [OF n])
    obtain l' s' where r: "removeOneImpl n (hs i, s) = (n, l', s')" "represents (l', s') (?as @ ?bs)"
        "keepsOthers s s' (set (A i))"
      using removeOne_represents [of "hs i" s ?as n ?bs] rep [of i] split by metis
    have "il.family (hs(i := l')) s' (A(i := ?as @ ?bs))"
    proof (rule one [OF r(2)])
      show "keepsOthers s s' (insert n (set (A i)))" using r(3) n by (simp add: insert_absorb)
      show "set (?as @ ?bs) \<subseteq> insert n (set (A i))" by (subst (2) split) auto
      show "n \<notin> set (A j)" if "j \<noteq> i" for j using n il.family_apart [OF f that] by auto
    qed
    then show ?thesis using r(1) RemoveOne remove1_split [OF n] by simp
  next
    case (RemoveFront i)
    show ?thesis
    proof (cases "A i")
      case Nil
      then have "A(i := tl (A i)) = A" by auto
      then show ?thesis using removeFront_represents(1) rep [of i] Nil f RemoveFront by simp
    next
      case (Cons n ns)
      obtain l' s' where r: "removeFrontOneImpl (hs i, s) = (Some n, l', s')" "represents (l', s') ns" "keepsOthers s s' (set (n # ns))"
        using removeFront_represents(2) [of "hs i" s n ns] rep [of i] Cons by auto
      have "il.family (hs(i := l')) s' (A(i := ns))"
      proof (rule one [OF r(2)])
        show "keepsOthers s s' (insert n (set (A i)))" using r(3) Cons by (simp add: insert_absorb)
        show "n \<notin> set (A j)" if "j \<noteq> i" for j using Cons il.family_apart [OF f that] by auto
      qed (simp add: Cons subset_insertI2)
      then show ?thesis using r(1) RemoveFront Cons by simp
    qed
  next
    case (PeekContains i n)
    then show ?thesis using peekContains_represents [OF rep, of n i] f by auto
  next
    case (PeekIsEmpty i)
    then show ?thesis using peekIsEmpty_represents [OF rep, of i] f by auto
  next
    case (MoveAll i j)
    have ij: "i \<noteq> j" using ok MoveAll by simp
    obtain l' where d: "detachNodesImpl (hs i, s) = (headOf (A i), l', s)" "represents (l', s) []" "chain s (A i)"
      using detachNodes_represents [OF rep, of i] by blast
    from move_family [OF f ij, of "[]" "A i" "[]" l' s] d show ?thesis using MoveAll by auto
  next
    case (MoveSequence i m g j)
    let ?as = "upToNode m (A i)" and ?rest = "fromNode m (A i)"
    let ?ms = "upToNode g ?rest @ [g]" and ?bs = "tl (fromNode g ?rest)"
    have ij: "i \<noteq> j" and m: "m \<in> set (A i)" and g: "g \<in> set ?rest" using ok MoveSequence by auto
    have rest: "?rest = m # tl ?rest"
      using split_node [OF m] unfolding fromNode_def upToNode_def by (metis same_append_eq takeWhile_dropWhile_id)
    have split: "A i = ?as @ ?ms @ ?bs"
      using split_node [OF m] split_node [OF g] rest by simp
    have "hd ?ms = m"
    proof (cases "m = g")
      case True
      then show ?thesis by (subst rest) (simp add: upToNode_def)
    next
      case False
      then show ?thesis by (subst rest) (simp add: upToNode_def)
    qed
    moreover have "represents (hs i, s) (?as @ ?ms @ ?bs)" by (fold split) (rule rep)
    ultimately obtain l' s' where d: "detachSequenceImpl m g (hs i, s) = (m, l', s')" "represents (l', s') (?as @ ?bs)" "chain s' ?ms"
        "keepsOthers s s' (set (?as @ ?ms @ ?bs))"
      using detachSequence_represents [of "hs i" s ?as ?ms ?bs] by auto
    have k: "keepsOthers s s' (set (A i))" by (rule d(4) [folded split])
    have h: "headOf ?ms = Some m" using \<open>hd ?ms = m\<close> by (cases ?ms) auto
    from move_family [OF f ij split d(2,3) k] h d(1) show ?thesis using MoveSequence by (auto simp: Let_def)
  qed
qed

text \<open>
  C9: the linked lists of the driver are lists. In a store whose lists share no node, any sequence of
  pushes, removals, questions and moves of nodes between the lists that never pushes a node that is in a list and
  never removes one that is not runs to its end without following a stale link or a cycle, gives the
  answers of the same commands on sequences and ends in a store that holds the sequences.
\<close>

theorem linked_lists_refine_lists:
  assumes "storeHolds w A" "allowedCommands cs A"
  shows "\<exists>w'. runCommands cs w = Some (fst (specCommands cs A), w') \<and> storeHolds w' (snd (specCommands cs A))"
  using assms
proof (induction cs arbitrary: w A)
  case (Cons c cs)
  obtain hs s where w: "w = (hs, s)" by (rule prod.exhaust)
  obtain hs' s' where c: "runCommand c (hs, s) = Some (fst (specCommand c A), hs', s')"
      "il.family hs' s' (snd (specCommand c A))"
    using command_simulates [of hs s A c] Cons.prems w by auto
  obtain w' where "runCommands cs (hs', s') = Some (fst (specCommands cs (snd (specCommand c A))), w')"
      "storeHolds w' (snd (specCommands cs (snd (specCommand c A))))"
    using Cons.IH [of "(hs', s')" "snd (specCommand c A)"] c(2) Cons.prems(2) by auto
  then show ?case using c(1) w by (simp add: case_prod_beta)
qed simp

definition emptyStore :: "(nat \<Rightarrow> IDList) \<times> Links" where
  "emptyStore = ((\<lambda>_. newIDList), \<lparr>nextOf = (\<lambda>_. None), prevOf = (\<lambda>_. None), deletedNodes = []\<rparr>)"

lemma emptyStore_holds: "storeHolds emptyStore (\<lambda>_. [])"
  by (simp add: emptyStore_def il.family_def new_represents)

lemma linked_lists_refine_lists_witness:
  "\<exists>w'. runCommands [PushTail 0 1, PushFront 0 2, PushTail 0 3, RemoveOne 0 1, MoveAll 0 1, PeekContains 1 3, RemoveFront 1]
      emptyStore = Some ([NoReply, NoReply, NoReply, RemovedNode (Some 1), NoReply, Answer True, RemovedNode (Some 2)], w') \<and>
    storeHolds w' (\<lambda>i. if i = 1 then [3] else [])"
proof -
  let ?cs = "[PushTail 0 1, PushFront 0 2, PushTail 0 3, RemoveOne 0 1, MoveAll 0 1, PeekContains 1 3, RemoveFront 1]"
  have "allowedCommands ?cs (\<lambda>_. [])" by simp
  moreover have "fst (specCommands ?cs (\<lambda>_. [])) =
      [NoReply, NoReply, NoReply, RemovedNode (Some 1), NoReply, Answer True, RemovedNode (Some 2)]" by simp
  moreover have "snd (specCommands ?cs (\<lambda>_. [])) = (\<lambda>i. if i = 1 then [3] else [])" by (auto simp: fun_eq_iff)
  ultimately show ?thesis using linked_lists_refine_lists [OF emptyStore_holds, of ?cs] by metis
qed

end
