(* ===== verification/Allocation_Lists.thy ===== *)
theory Allocation_Lists
  imports Id_List
begin

text \<open>
  The life of graphics allocations between their last use by the application and their release:
  \<open>memory_manager/allocations_list.cpp\<close>, \<open>internal_allocation_storage.cpp\<close>, the temporary allocations of
  \<open>memory_manager.cpp\<close>, \<open>deferrable_allocation_deletion.cpp\<close> and the task counts of
  \<open>graphics_allocation.{h,cpp}\<close>. The lists are linked lists in one store; an allocation is a node of it.
  An engine has a tag that the GPU writes: the task count it has completed, one value for each of its
  tiles. The tags are read from the list of engines that an operation gets; they grow between two
  operations. \<open>None\<close> stands for an abort or an access through a null pointer or behind an array.
\<close>

section \<open>Use of an allocation\<close>

definition objectNotUsed :: u64 where "objectNotUsed = - 1"
definition notReady :: u64 where "notReady = - 1 - 0xF"

record GfxAllocation =
  gfxAllocationType :: nat
  underlyingBuffer :: u64
  underlyingBufferSize :: u64
  systemMemoryForced :: bool
  subDeviceBitfield :: u32
  gfxRootDevice :: u32
  usageInfos :: "u64 list"
  registeredContextsNum :: u32
  hostPtrTaskCountAssignment :: u32

definition getTaskCount :: "nat \<Rightarrow> GfxAllocation \<Rightarrow> u64" where
  "getTaskCount contextId a = (if contextId \<ge> length (usageInfos a) then objectNotUsed else usageInfos a ! contextId)"

definition updateTaskCount :: "u64 \<Rightarrow> nat \<Rightarrow> GfxAllocation \<Rightarrow> GfxAllocation option" where
  "updateTaskCount newTaskCount contextId a =
     (if contextId \<ge> length (usageInfos a) then None
      else
        let n = (if usageInfos a ! contextId = objectNotUsed then registeredContextsNum a + 1 else registeredContextsNum a);
            n = (if newTaskCount = objectNotUsed then n - 1 else n)
        in Some (a\<lparr>registeredContextsNum := n, usageInfos := (usageInfos a)[contextId := newTaskCount]\<rparr>))"

definition isUsed :: "GfxAllocation \<Rightarrow> bool" where "isUsed a = (registeredContextsNum a > 0)"
definition isUsedByManyOsContexts :: "GfxAllocation \<Rightarrow> bool" where "isUsedByManyOsContexts a = (registeredContextsNum a > 1)"

definition isUsedByOsContext :: "nat \<Rightarrow> GfxAllocation \<Rightarrow> bool" where
  "isUsedByOsContext contextId a = (objectNotUsed \<noteq> getTaskCount contextId a)"

definition releaseUsageInOsContext :: "nat \<Rightarrow> GfxAllocation \<Rightarrow> GfxAllocation option" where
  "releaseUsageInOsContext contextId a = updateTaskCount objectNotUsed contextId a"

section \<open>Engines\<close>

record Engine =
  osContextId :: nat
  engineTags :: "u64 list option"
  peekTaskCount :: u64
  engineRootDevice :: u32
  engineDeviceBitfield :: u32

text \<open>The value at the tag address; \<open>None\<close> without a tag.\<close>

definition tagValue :: "Engine \<Rightarrow> u64 option" where
  "tagValue e = (case engineTags e of Some (t # _) \<Rightarrow> Some t | _ \<Rightarrow> None)"

definition getRegisteredEngines :: "u32 \<Rightarrow> Engine list \<Rightarrow> Engine list" where
  "getRegisteredEngines rootDevice engines = filter (\<lambda>e. engineRootDevice e = rootDevice) engines"

definition bitfieldCount :: "u32 \<Rightarrow> nat" where
  "bitfieldCount w = length (filter (bit w) [0..<32])"

section \<open>Lists of allocations\<close>

datatype AllocationUsage = TEMPORARY_ALLOCATION | REUSABLE_ALLOCATION | DEFERRED_DEALLOCATION

record AllocStore =
  storeLinks :: Links
  allocOf :: "node \<Rightarrow> GfxAllocation"

record ReusableAllocationRequirements =
  requiredPtr :: u64
  requiredMinimalSize :: u64
  csrTags :: "u64 list option"
  reqAllocationType :: nat
  reqDeviceBitfield :: u32
  reqContextId :: nat
  reqRootDevice :: u32
  forceSystemMemoryFlag :: bool

text \<open>Without a command stream receiver the context is the maximal 32-bit number.\<close>

definition newRequirements :: "Engine option \<Rightarrow> u64 \<Rightarrow> u64 \<Rightarrow> nat \<Rightarrow> bool \<Rightarrow> ReusableAllocationRequirements" where
  "newRequirements csr ptr sz type forceSystem =
     (case csr of
        None \<Rightarrow> \<lparr>requiredPtr = ptr, requiredMinimalSize = sz, csrTags = None, reqAllocationType = type,
          reqDeviceBitfield = 1, reqContextId = 2 ^ 32 - 1, reqRootDevice = 0, forceSystemMemoryFlag = forceSystem\<rparr>
      | Some e \<Rightarrow> \<lparr>requiredPtr = ptr, requiredMinimalSize = sz, csrTags = engineTags e, reqAllocationType = type,
          reqDeviceBitfield = engineDeviceBitfield e, reqContextId = osContextId e, reqRootDevice = engineRootDevice e,
          forceSystemMemoryFlag = forceSystem\<rparr>)"

definition checkTagAddressReady :: "ReusableAllocationRequirements \<Rightarrow> u64 list \<Rightarrow> GfxAllocation \<Rightarrow> bool" where
  "checkTagAddressReady req tags a =
     list_all (\<lambda>count. \<not> tags ! count < getTaskCount (reqContextId req) a) [0..<bitfieldCount (reqDeviceBitfield req)]"

definition removeFromStore :: "node \<Rightarrow> IDList \<times> AllocStore \<Rightarrow> node option \<times> IDList \<times> AllocStore" where
  "removeFromStore n = (\<lambda>(l, st).
     case removeOneImpl n (l, storeLinks st) of (m, l, s) \<Rightarrow> (Some m, l, st\<lparr>storeLinks := s\<rparr>))"

partial_function (option) detachLoop ::
  "AllocationUsage \<Rightarrow> ReusableAllocationRequirements \<Rightarrow> node option \<Rightarrow> IDList \<times> AllocStore \<Rightarrow>
   (node option \<times> IDList \<times> AllocStore) option" where
  "detachLoop usage req cur ls =
     (case cur of
        None \<Rightarrow> Some (None, ls)
      | Some c \<Rightarrow>
          let a = allocOf (snd ls) c; continue = nextOf (storeLinks (snd ls)) c in
          if reqAllocationType req = gfxAllocationType a \<and> underlyingBufferSize a \<ge> requiredMinimalSize req \<and>
             systemMemoryForced a = forceSystemMemoryFlag req
          then
            (case csrTags req of
               None \<Rightarrow> Some (removeFromStore c ls)
             | Some tags \<Rightarrow>
                 let usageMatch = (usage = TEMPORARY_ALLOCATION \<or> checkTagAddressReady req tags a);
                     ptrMatch = (requiredPtr req = 0 \<or> requiredPtr req = underlyingBuffer a);
                     tileMatch = (reqDeviceBitfield req = subDeviceBitfield a \<or> subDeviceBitfield a = 0);
                     placementMatch = (reqRootDevice req = gfxRootDevice a \<and> tileMatch)
                 in
                   if usageMatch \<and> ptrMatch \<and> placementMatch then
                     if usage = TEMPORARY_ALLOCATION then
                       (case updateTaskCount notReady (reqContextId req) a of
                          None \<Rightarrow> None
                        | Some a \<Rightarrow>
                            Some (removeFromStore c (fst ls, (snd ls)\<lparr>allocOf := (allocOf (snd ls))(c := a)\<rparr>)))
                     else Some (removeFromStore c ls)
                   else detachLoop usage req continue ls)
          else detachLoop usage req continue ls)"

definition detachAllocationImpl ::
  "AllocationUsage \<Rightarrow> ReusableAllocationRequirements \<Rightarrow> IDList \<times> AllocStore \<Rightarrow> (node option \<times> IDList \<times> AllocStore) option" where
  "detachAllocationImpl usage req ls = detachLoop usage req (headPtr (fst ls)) ls"

definition detachAllocation ::
  "AllocationUsage \<Rightarrow> u64 \<Rightarrow> u64 \<Rightarrow> bool \<Rightarrow> Engine option \<Rightarrow> nat \<Rightarrow> IDList \<times> AllocStore \<Rightarrow>
   (node option \<times> IDList \<times> AllocStore) option" where
  "detachAllocation usage sz ptr forceSystem csr type ls =
     detachAllocationImpl usage (newRequirements csr ptr sz type forceSystem) ls"

text \<open>The walk that releases some nodes of a detached chain and keeps the others, in their order.\<close>

partial_function (option) sweepLoop ::
  "(node \<Rightarrow> bool) \<Rightarrow> node option \<Rightarrow> IDList \<times> Links \<Rightarrow> node list \<Rightarrow> ((IDList \<times> Links) \<times> node list) option" where
  "sweepLoop release cur left freed =
     (case cur of
        None \<Rightarrow> Some (left, freed)
      | Some c \<Rightarrow>
          let nextNode = nextOf (snd left) c in
          if release c then sweepLoop release nextNode left (freed @ [c])
          else sweepLoop release nextNode (pushTailOneImpl c left) freed)"

definition sweepList :: "(node \<Rightarrow> bool) \<Rightarrow> IDList \<times> Links \<Rightarrow> ((IDList \<times> Links) \<times> node list) option" where
  "sweepList release ls =
     (case detachNodesImpl ls of
        (cur, l, s) \<Rightarrow>
          (case sweepLoop release cur (newIDList, s) [] of
             None \<Rightarrow> None
           | Some ((left, s), freed) \<Rightarrow>
               if peekIsEmpty (left, s) then Some ((l, s), freed)
               else
                 (case detachNodesImpl (left, s) of
                    (Some n, left, s) \<Rightarrow> map_option (\<lambda>ls. (ls, freed)) (spliceImpl n (l, s))
                  | (None, left, s) \<Rightarrow> None)))"

section \<open>The store of a memory manager\<close>

datatype ListId = ManagerTemporary | StorageList nat AllocationUsage

record MemoryWorld =
  worldStore :: AllocStore
  worldLists :: "ListId \<Rightarrow> IDList"
  freedAllocations :: "node list"
  deletionQueue :: "node list"

definition worldList :: "ListId \<Rightarrow> MemoryWorld \<Rightarrow> IDList \<times> Links" where
  "worldList i w = (worldLists w i, storeLinks (worldStore w))"

definition setWorldList :: "ListId \<Rightarrow> IDList \<times> Links \<Rightarrow> MemoryWorld \<Rightarrow> MemoryWorld" where
  "setWorldList i ls w =
     w\<lparr>worldLists := (worldLists w)(i := fst ls), worldStore := (worldStore w)\<lparr>storeLinks := snd ls\<rparr>\<rparr>"

definition allocAt :: "MemoryWorld \<Rightarrow> node \<Rightarrow> GfxAllocation" where
  "allocAt w n = allocOf (worldStore w) n"

definition setAlloc :: "node \<Rightarrow> GfxAllocation \<Rightarrow> MemoryWorld \<Rightarrow> MemoryWorld" where
  "setAlloc n a w = w\<lparr>worldStore := (worldStore w)\<lparr>allocOf := (allocOf (worldStore w))(n := a)\<rparr>\<rparr>"

definition freeGraphicsMemory :: "node \<Rightarrow> MemoryWorld \<Rightarrow> MemoryWorld" where
  "freeGraphicsMemory n w = w\<lparr>freedAllocations := freedAllocations w @ [n]\<rparr>"

definition pushUpdated :: "ListId \<Rightarrow> node \<Rightarrow> u64 \<Rightarrow> nat \<Rightarrow> MemoryWorld \<Rightarrow> MemoryWorld option" where
  "pushUpdated i n taskCount contextId w =
     (case updateTaskCount taskCount contextId (allocAt w n) of
        None \<Rightarrow> None
      | Some a \<Rightarrow> let w = setAlloc n a w in Some (setWorldList i (pushTailOneImpl n (worldList i w)) w))"

definition storeTemporaryAllocation :: "node \<Rightarrow> nat \<Rightarrow> u64 \<Rightarrow> MemoryWorld \<Rightarrow> MemoryWorld option" where
  "storeTemporaryAllocation n contextId taskCount w = pushUpdated ManagerTemporary n taskCount contextId w"

definition storeAllocationWithTaskCount ::
  "bool \<Rightarrow> bool \<Rightarrow> Engine \<Rightarrow> node \<Rightarrow> AllocationUsage \<Rightarrow> u64 \<Rightarrow> MemoryWorld \<Rightarrow> MemoryWorld option" where
  "storeAllocationWithTaskCount singleList disableRecycling csr n usage taskCount w =
     (if usage = TEMPORARY_ALLOCATION \<and> singleList then storeTemporaryAllocation n (osContextId csr) taskCount w
      else if usage = REUSABLE_ALLOCATION \<and> disableRecycling then Some (freeGraphicsMemory n w)
      else pushUpdated (StorageList (osContextId csr) usage) n taskCount (osContextId csr) w)"

definition storeAllocation ::
  "bool \<Rightarrow> bool \<Rightarrow> Engine \<Rightarrow> node \<Rightarrow> AllocationUsage \<Rightarrow> MemoryWorld \<Rightarrow> MemoryWorld option" where
  "storeAllocation singleList disableRecycling csr n usage w =
     (let taskCount = getTaskCount (osContextId csr) (allocAt w n);
          taskCount = (if usage = REUSABLE_ALLOCATION then peekTaskCount csr else taskCount)
      in storeAllocationWithTaskCount singleList disableRecycling csr n usage taskCount w)"

text \<open>Some engine of the device has not completed its last task with the allocation; the walk ends when all
  contexts that use it are found.\<close>

fun allocInUseLoop :: "Engine list \<Rightarrow> GfxAllocation \<Rightarrow> u32 \<Rightarrow> bool" where
  "allocInUseLoop [] a numEnginesChecked = False"
| "allocInUseLoop (e # es) a numEnginesChecked =
     (let taskCount = getTaskCount (osContextId e) a; used = isUsedByOsContext (osContextId e) a;
          numEnginesChecked = (if used then numEnginesChecked + 1 else numEnginesChecked)
      in
        if used \<and> (case tagValue e of None \<Rightarrow> False | Some t \<Rightarrow> taskCount > t) then True
        else if numEnginesChecked = registeredContextsNum a then False
        else allocInUseLoop es a numEnginesChecked)"

definition allocInUse :: "Engine list \<Rightarrow> GfxAllocation \<Rightarrow> bool" where
  "allocInUse engines a = allocInUseLoop (getRegisteredEngines (gfxRootDevice a) engines) a 0"

definition temporaryFreeable :: "Engine list \<Rightarrow> nat \<Rightarrow> u64 \<Rightarrow> GfxAllocation \<Rightarrow> bool" where
  "temporaryFreeable engines waitedOsContextId waitedTaskCount a =
     (if hostPtrTaskCountAssignment a = 0 then
        if isUsedByOsContext waitedOsContextId a then
          if getTaskCount waitedOsContextId a \<le> waitedTaskCount
          then \<not> isUsedByManyOsContexts a \<or> \<not> allocInUse engines a
          else False
        else \<not> allocInUse engines a
      else False)"

definition sweepWorldList :: "(GfxAllocation \<Rightarrow> bool) \<Rightarrow> ListId \<Rightarrow> MemoryWorld \<Rightarrow> MemoryWorld option" where
  "sweepWorldList release i w =
     map_option (\<lambda>(ls, freed). fold freeGraphicsMemory freed (setWorldList i ls w))
       (sweepList (\<lambda>n. release (allocAt w n)) (worldList i w))"

definition cleanTemporaryAllocations :: "Engine list \<Rightarrow> nat \<Rightarrow> u64 \<Rightarrow> MemoryWorld \<Rightarrow> MemoryWorld option" where
  "cleanTemporaryAllocations engines waitedOsContextId waitedTaskCount w =
     sweepWorldList (temporaryFreeable engines waitedOsContextId waitedTaskCount) ManagerTemporary w"

definition storageFreeable :: "nat \<Rightarrow> u64 \<Rightarrow> GfxAllocation \<Rightarrow> bool" where
  "storageFreeable contextId waitTaskCount a =
     (hostPtrTaskCountAssignment a = 0 \<and> getTaskCount contextId a \<le> waitTaskCount)"

definition freeAllocationsList :: "bool \<Rightarrow> Engine list \<Rightarrow> Engine \<Rightarrow> u64 \<Rightarrow> AllocationUsage \<Rightarrow> MemoryWorld \<Rightarrow> MemoryWorld option" where
  "freeAllocationsList singleList engines csr waitTaskCount usage w =
     (if usage = TEMPORARY_ALLOCATION \<and> singleList
      then cleanTemporaryAllocations engines (osContextId csr) waitTaskCount w
      else sweepWorldList (storageFreeable (osContextId csr) waitTaskCount) (StorageList (osContextId csr) usage) w)"

definition cleanAllocationList :: "bool \<Rightarrow> Engine list \<Rightarrow> Engine \<Rightarrow> u64 \<Rightarrow> AllocationUsage \<Rightarrow> MemoryWorld \<Rightarrow> MemoryWorld option" where
  "cleanAllocationList singleList engines csr waitTaskCount usage w =
     freeAllocationsList singleList engines csr waitTaskCount usage w"

definition detachFrom ::
  "ListId \<Rightarrow> AllocationUsage \<Rightarrow> u64 \<Rightarrow> u64 \<Rightarrow> Engine \<Rightarrow> nat \<Rightarrow> MemoryWorld \<Rightarrow> (node option \<times> MemoryWorld) option" where
  "detachFrom i usage sz ptr csr type w =
     map_option (\<lambda>(n, l, st). (n, w\<lparr>worldStore := st, worldLists := (worldLists w)(i := l)\<rparr>))
       (detachAllocation usage sz ptr False (Some csr) type (worldLists w i, worldStore w))"

definition obtainReusableAllocation :: "Engine \<Rightarrow> u64 \<Rightarrow> nat \<Rightarrow> MemoryWorld \<Rightarrow> (node option \<times> MemoryWorld) option" where
  "obtainReusableAllocation csr requiredSize type w =
     detachFrom (StorageList (osContextId csr) REUSABLE_ALLOCATION) REUSABLE_ALLOCATION requiredSize 0 csr type w"

definition obtainTemporaryAllocationWithPtr ::
  "bool \<Rightarrow> Engine \<Rightarrow> u64 \<Rightarrow> u64 \<Rightarrow> nat \<Rightarrow> MemoryWorld \<Rightarrow> (node option \<times> MemoryWorld) option" where
  "obtainTemporaryAllocationWithPtr singleList csr requiredSize ptr type w =
     detachFrom (if singleList then ManagerTemporary else StorageList (osContextId csr) TEMPORARY_ALLOCATION)
       TEMPORARY_ALLOCATION requiredSize ptr csr type w"

text \<open>The allocations of all lists are released when the device goes.\<close>

partial_function (option) freeAllLoop :: "node option \<Rightarrow> MemoryWorld \<Rightarrow> MemoryWorld option" where
  "freeAllLoop cur w =
     (case cur of
        None \<Rightarrow> Some w
      | Some c \<Rightarrow> let nextNode = nextOf (storeLinks (worldStore w)) c in freeAllLoop nextNode (freeGraphicsMemory c w))"

definition freeAllGraphicsAllocations :: "ListId \<Rightarrow> MemoryWorld \<Rightarrow> MemoryWorld option" where
  "freeAllGraphicsAllocations i w =
     map_option (\<lambda>w. w\<lparr>worldLists := (worldLists w)(i := newIDList)\<rparr>) (freeAllLoop (headPtr (worldLists w i)) w)"

section \<open>Destruction\<close>

text \<open>
  \<open>checkGpuUsageAndDestroyGraphicsAllocations\<close> up to the call of \<open>drain\<close> that follows when the
  deletion was queued (theory \<open>Deferred_Deleter\<close>). The engines are asked in their order: the first that still works with
  the allocation keeps it.
\<close>

definition busyOn :: "GfxAllocation \<Rightarrow> Engine \<Rightarrow> bool" where
  "busyOn a e =
     (isUsedByOsContext (osContextId e) a \<and>
      (case tagValue e of None \<Rightarrow> False | Some t \<Rightarrow> getTaskCount (osContextId e) a > t))"

definition destroyOrDefer ::
  "bool \<Rightarrow> bool \<Rightarrow> Engine list \<Rightarrow> node \<Rightarrow> MemoryWorld \<Rightarrow> MemoryWorld option" where
  "destroyOrDefer singleList disableRecycling engines n w =
     (let a = allocAt w n in
      if isUsed a then
        if isUsedByManyOsContexts a then Some (w\<lparr>deletionQueue := deletionQueue w @ [n]\<rparr>)
        else
          (case List.find (busyOn a) (getRegisteredEngines (gfxRootDevice a) engines) of
             Some e \<Rightarrow> storeAllocation singleList disableRecycling e n DEFERRED_DEALLOCATION w
           | None \<Rightarrow> Some (freeGraphicsMemory n w))
      else Some (freeGraphicsMemory n w))"

text \<open>
  \<open>testTaskCountReady\<close> looks at every tile. The call of \<open>updateTagFromWait\<close> for a task count that was not flushed
  yet makes the GPU progress; it is part of what happens between two operations.
\<close>

definition testTaskCountReady :: "Engine \<Rightarrow> u64 \<Rightarrow> bool" where
  "testTaskCountReady e taskCount = (case engineTags e of None \<Rightarrow> False | Some ts \<Rightarrow> list_all (\<lambda>t. taskCount \<le> t) ts)"

fun applyLoop :: "Engine list \<Rightarrow> GfxAllocation \<Rightarrow> bool \<Rightarrow> (GfxAllocation \<times> bool) option" where
  "applyLoop [] a isStillUsed = Some (a, isStillUsed)"
| "applyLoop (e # es) a isStillUsed =
     (if isUsedByOsContext (osContextId e) a then
        if testTaskCountReady e (getTaskCount (osContextId e) a) then
          (case releaseUsageInOsContext (osContextId e) a of
             None \<Rightarrow> None
           | Some a \<Rightarrow> applyLoop es a isStillUsed)
        else applyLoop es a True
      else applyLoop es a isStillUsed)"

definition applyDeletion :: "Engine list \<Rightarrow> node \<Rightarrow> MemoryWorld \<Rightarrow> (bool \<times> MemoryWorld) option" where
  "applyDeletion engines n w =
     (let a = allocAt w n in
      if isUsed a then
        (case applyLoop (getRegisteredEngines (gfxRootDevice a) engines) a False of
           None \<Rightarrow> None
         | Some (a, isStillUsed) \<Rightarrow>
             let w = setAlloc n a w in if isStillUsed then Some (False, w) else Some (True, freeGraphicsMemory n w))
      else Some (True, freeGraphicsMemory n w))"

section \<open>The loops\<close>

lemma sweepLoop_result:
  "visits (nextOf (snd left)) cur ns None \<Longrightarrow> distinct ns \<Longrightarrow> represents left ls \<Longrightarrow> set ls \<inter> set ns = {} \<Longrightarrow>
   \<exists>left'. sweepLoop release cur left freed = Some (left', freed @ filter release ns) \<and>
     represents left' (ls @ filter (\<lambda>n. \<not> release n) ns) \<and> keepsOthers (snd left) (snd left') (set ls \<union> set ns)"
proof (induction ns arbitrary: cur left ls freed)
  case Nil
  then show ?case by (subst sweepLoop.simps) simp
next
  case (Cons c ns)
  obtain l s where left: "left = (l, s)" by (rule prod.exhaust)
  have cur: "cur = Some c" and rest: "visits (nextOf s) (nextOf s c) ns None" using Cons.prems(1) left by auto
  show ?case
  proof (cases "release c")
    case True
    obtain left' where "sweepLoop release (nextOf s c) left (freed @ [c]) = Some (left', (freed @ [c]) @ filter release ns)"
        "represents left' (ls @ filter (\<lambda>n. \<not> release n) ns)" "keepsOthers s (snd left') (set ls \<union> set ns)"
      using Cons.IH [of left "nextOf s c" ls "freed @ [c]"] rest Cons.prems(2-4) left by auto
    then show ?thesis using True cur left
      by (subst sweepLoop.simps) (auto simp: Let_def elim: keepsOthers_mono)
  next
    case False
    have c: "c \<notin> set ls" "c \<notin> set ns" using Cons.prems by auto
    let ?left = "pushTailOneImpl c left"
    have push: "represents ?left (ls @ [c])" "keepsOthers s (snd ?left) (insert c (set ls))"
      using pushTail_represents [of l s ls c] Cons.prems(3) c(1) left by simp_all
    have "\<forall>n \<in> set ns. nextOf (snd ?left) n = nextOf s n"
      using push(2) Cons.prems(4) c(2) by (auto simp: keepsOthers_def)
    then have "visits (nextOf (snd ?left)) (nextOf s c) ns None" using rest visits_cong by blast
    then obtain left' where l': "sweepLoop release (nextOf s c) ?left freed = Some (left', freed @ filter release ns)"
        "represents left' ((ls @ [c]) @ filter (\<lambda>n. \<not> release n) ns)"
        "keepsOthers (snd ?left) (snd left') (set (ls @ [c]) \<union> set ns)"
      using Cons.IH [of ?left "nextOf s c" "ls @ [c]" freed] push(1) Cons.prems(2,4) c by auto
    have "keepsOthers s (snd left') (set ls \<union> set (c # ns))"
      by (rule keepsOthers_mono [OF keepsOthers_trans [OF push(2) l'(3)]]) auto
    then show ?thesis using l' False cur left by (subst sweepLoop.simps) (simp add: Let_def)
  qed
qed

lemma represents_Nil: "represents (l, s) [] \<Longrightarrow> represents (l, s') []"
  by (simp add: represents_def)

lemma sweepList_result:
  assumes "represents (l, s) ns"
  shows "\<exists>l' s'. sweepList release (l, s) = Some ((l', s'), filter release ns) \<and>
    represents (l', s') (filter (\<lambda>n. \<not> release n) ns) \<and> keepsOthers s s' (set ns)"
proof -
  obtain l0 where d: "detachNodesImpl (l, s) = (headOf ns, l0, s)" "represents (l0, s) []"
    using detachNodes_represents [OF assms] by blast
  have "visits (nextOf s) (headOf ns) ns None" using assms represents_ends [OF assms] by (simp add: represents_def)
  then obtain left' where sw: "sweepLoop release (headOf ns) (newIDList, s) [] = Some (left', filter release ns)"
      "represents left' (filter (\<lambda>n. \<not> release n) ns)" "keepsOthers s (snd left') (set ns)"
    using sweepLoop_result [of "(newIDList, s)" "headOf ns" ns "[]" release "[]"] new_represents represents_distinct [OF assms] by auto
  obtain k s1 where left': "left' = (k, s1)" by (rule prod.exhaust)
  let ?kept = "filter (\<lambda>n. \<not> release n) ns"
  have r1: "represents (k, s1) ?kept" and k1: "keepsOthers s s1 (set ns)" using sw left' by auto
  show ?thesis
  proof (cases ?kept)
    case Nil
    have "represents (l0, s1) []" by (rule represents_Nil [OF d(2)])
    then show ?thesis using d(1) sw(1) left' k1 Nil peekIsEmpty_represents [OF r1]
      by (auto simp: sweepList_def)
  next
    case (Cons n ks)
    obtain k0 where d2: "detachNodesImpl (k, s1) = (Some n, k0, s1)" "chain s1 (n # ks)"
      using detachNodes_represents [OF r1] Cons by auto
    obtain l' s' where sp: "spliceImpl n (l0, s1) = Some (l', s')" "represents (l', s') ([] @ n # ks)"
        "keepsOthers s1 s' (set [] \<union> set (n # ks))"
      using splice_represents [OF represents_Nil [OF d(2)] d2(2)] by auto
    have "set (n # ks) \<subseteq> set ns" using Cons by (metis filter_is_subset)
    then have "keepsOthers s s' (set ns)" using keepsOthers_trans [OF k1 sp(3)] by (elim keepsOthers_mono) auto
    then show ?thesis using d(1) sw(1) left' d2(1) sp Cons peekIsEmpty_represents [OF r1]
      by (auto simp: sweepList_def)
  qed
qed

text \<open>What a request accepts.\<close>

definition suits :: "AllocationUsage \<Rightarrow> ReusableAllocationRequirements \<Rightarrow> GfxAllocation \<Rightarrow> bool" where
  "suits usage req a \<longleftrightarrow>
     reqAllocationType req = gfxAllocationType a \<and> requiredMinimalSize req \<le> underlyingBufferSize a \<and>
     systemMemoryForced a = forceSystemMemoryFlag req \<and>
     (case csrTags req of
        None \<Rightarrow> True
      | Some tags \<Rightarrow>
          (usage = TEMPORARY_ALLOCATION \<or> checkTagAddressReady req tags a) \<and>
          (requiredPtr req = 0 \<or> requiredPtr req = underlyingBuffer a) \<and> reqRootDevice req = gfxRootDevice a \<and>
          (reqDeviceBitfield req = subDeviceBitfield a \<or> subDeviceBitfield a = 0))"

lemma removeFromStore_result:
  assumes "represents (l, storeLinks st) (as @ n # bs)"
  shows "\<exists>l' s'. removeFromStore n (l, st) = (Some n, l', st\<lparr>storeLinks := s'\<rparr>) \<and> represents (l', s') (as @ bs) \<and>
    keepsOthers (storeLinks st) s' (set (as @ n # bs))"
  using removeOne_represents [OF assms] by (auto simp: removeFromStore_def)

lemma detachLoop_skips:
  assumes "visits (nextOf (storeLinks st)) cur ns q" "\<forall>n \<in> set ns. \<not> suits usage req (allocOf st n)"
  shows "detachLoop usage req cur (l, st) = detachLoop usage req q (l, st)"
  using assms
proof (induction ns arbitrary: cur)
  case (Cons n ns)
  have "detachLoop usage req (Some n) (l, st) = detachLoop usage req (nextOf (storeLinks st) n) (l, st)"
    using Cons.prems by (subst detachLoop.simps) (auto simp: suits_def Let_def split: option.splits)
  then show ?case using Cons by simp
qed simp

lemma detachLoop_takes:
  assumes r: "represents (l, storeLinks st) (as @ n # bs)" and n: "suits usage req (allocOf st n)"
    and c: "reqContextId req < length (usageInfos (allocOf st n))"
  shows "\<exists>l' s' a. detachLoop usage req (Some n) (l, st) = Some (Some n, l', \<lparr>storeLinks = s', allocOf = (allocOf st)(n := a)\<rparr>) \<and>
    represents (l', s') (as @ bs) \<and> keepsOthers (storeLinks st) s' (set (as @ n # bs)) \<and>
    (if usage = TEMPORARY_ALLOCATION \<and> csrTags req \<noteq> None
     then updateTaskCount notReady (reqContextId req) (allocOf st n) = Some a else a = allocOf st n)"
proof (cases "usage = TEMPORARY_ALLOCATION \<and> csrTags req \<noteq> None")
  case True
  obtain a where a: "updateTaskCount notReady (reqContextId req) (allocOf st n) = Some a"
    using c by (simp add: updateTaskCount_def Let_def)
  let ?st = "st\<lparr>allocOf := (allocOf st)(n := a)\<rparr>"
  have "represents (l, storeLinks ?st) (as @ n # bs)" using r by simp
  from removeFromStore_result [OF this] obtain l' s' where rm: "removeFromStore n (l, ?st) = (Some n, l', ?st\<lparr>storeLinks := s'\<rparr>)"
      "represents (l', s') (as @ bs)" "keepsOthers (storeLinks st) s' (set (as @ n # bs))" by auto
  have same: "?st\<lparr>storeLinks := s'\<rparr> = \<lparr>storeLinks = s', allocOf = (allocOf st)(n := a)\<rparr>" by simp
  have "detachLoop usage req (Some n) (l, st) = Some (Some n, l', ?st\<lparr>storeLinks := s'\<rparr>)"
    using True n rm(1) a by (subst detachLoop.simps) (auto simp: suits_def Let_def)
  then show ?thesis using True rm(2,3) a unfolding same by auto
next
  case False
  obtain l' s' where rm: "removeFromStore n (l, st) = (Some n, l', st\<lparr>storeLinks := s'\<rparr>)"
      "represents (l', s') (as @ bs)" "keepsOthers (storeLinks st) s' (set (as @ n # bs))"
    using removeFromStore_result [OF r] by auto
  have same: "st\<lparr>storeLinks := s'\<rparr> = \<lparr>storeLinks = s', allocOf = (allocOf st)(n := allocOf st n)\<rparr>" by simp
  have "detachLoop usage req (Some n) (l, st) = Some (Some n, l', st\<lparr>storeLinks := s'\<rparr>)"
    using False n rm(1) by (subst detachLoop.simps) (auto simp: suits_def Let_def split: option.splits)
  then show ?thesis using False rm(2,3) unfolding same by auto
qed

text \<open>The first suitable allocation is taken from its list, or nothing changes.\<close>

lemma detachAllocationImpl_result:
  assumes r: "represents (l, storeLinks st) ns" and c: "\<forall>n \<in> set ns. reqContextId req < length (usageInfos (allocOf st n))"
  shows "(\<forall>n \<in> set ns. \<not> suits usage req (allocOf st n)) \<and> detachAllocationImpl usage req (l, st) = Some (None, l, st) \<or>
    (\<exists>as n bs l' s' a. ns = as @ n # bs \<and> (\<forall>m \<in> set as. \<not> suits usage req (allocOf st m)) \<and> suits usage req (allocOf st n) \<and>
       detachAllocationImpl usage req (l, st) = Some (Some n, l', \<lparr>storeLinks = s', allocOf = (allocOf st)(n := a)\<rparr>) \<and>
       represents (l', s') (as @ bs) \<and> keepsOthers (storeLinks st) s' (set ns) \<and>
       (if usage = TEMPORARY_ALLOCATION \<and> csrTags req \<noteq> None
        then updateTaskCount notReady (reqContextId req) (allocOf st n) = Some a else a = allocOf st n))"
proof (cases "\<exists>n \<in> set ns. suits usage req (allocOf st n)")
  case False
  have "visits (nextOf (storeLinks st)) (headPtr l) ns None" using r by (simp add: represents_def)
  then have "detachAllocationImpl usage req (l, st) = detachLoop usage req None (l, st)"
    using detachLoop_skips False by (simp add: detachAllocationImpl_def)
  then show ?thesis using False by (simp add: detachLoop.simps)
next
  case True
  then obtain as n bs where ns: "ns = as @ n # bs" "suits usage req (allocOf st n)" "\<forall>m \<in> set as. \<not> suits usage req (allocOf st m)"
    using split_list_first_prop [of ns "\<lambda>n. suits usage req (allocOf st n)"] by blast
  have "visits (nextOf (storeLinks st)) (headPtr l) as (Some n)" using r ns(1) by (auto simp: represents_split)
  then have eq: "detachAllocationImpl usage req (l, st) = detachLoop usage req (Some n) (l, st)"
    using detachLoop_skips [OF _ ns(3)] by (simp add: detachAllocationImpl_def)
  have n: "represents (l, storeLinks st) (as @ n # bs)" "reqContextId req < length (usageInfos (allocOf st n))"
    using r c ns(1) by auto
  obtain l' s' a where t: "detachLoop usage req (Some n) (l, st) = Some (Some n, l', \<lparr>storeLinks = s', allocOf = (allocOf st)(n := a)\<rparr>)"
      "represents (l', s') (as @ bs)" "keepsOthers (storeLinks st) s' (set (as @ n # bs))"
      "if usage = TEMPORARY_ALLOCATION \<and> csrTags req \<noteq> None
       then updateTaskCount notReady (reqContextId req) (allocOf st n) = Some a else a = allocOf st n"
    using detachLoop_takes [OF n(1) ns(2) n(2)] by blast
  show ?thesis
    by (rule disjI2, intro exI conjI, rule ns(1), rule ns(3), rule ns(2), rule trans [OF eq t(1)], rule t(2), unfold ns(1), rule t(3), rule t(4))
qed

section \<open>Task counts\<close>

text \<open>The number of registered contexts is the number of contexts with a task count.\<close>

definition usageOk :: "nat \<Rightarrow> GfxAllocation \<Rightarrow> bool" where
  "usageOk contexts a \<longleftrightarrow> length (usageInfos a) = contexts \<and> contexts < 2 ^ 32 \<and>
     unat (registeredContextsNum a) = length (filter (\<lambda>t. t \<noteq> objectNotUsed) (usageInfos a))"

lemma length_filter_update:
  "i < length xs \<Longrightarrow> length (filter P (xs[i := v])) + (if P (xs ! i) then 1 else 0) = length (filter P xs) + (if P v then 1 else 0)"
proof (induction xs arbitrary: i)
  case (Cons x xs)
  then show ?case by (cases i) (auto split: if_splits)
qed simp

lemma usageOk_update:
  assumes ok: "usageOk m a" and u: "updateTaskCount t c a = Some a'"
  shows "usageOk m a'"
proof -
  let ?n = "length (filter (\<lambda>t. t \<noteq> objectNotUsed) (usageInfos a))"
  have c: "c < length (usageInfos a)" using u by (simp add: updateTaskCount_def split: if_splits)
  have upd: "length (filter (\<lambda>t. t \<noteq> objectNotUsed) ((usageInfos a)[c := t])) + (if usageInfos a ! c \<noteq> objectNotUsed then 1 else 0) =
      ?n + (if t \<noteq> objectNotUsed then 1 else 0)"
    by (rule length_filter_update [OF c])
  have r: "unat (registeredContextsNum a) = ?n" and m: "length (usageInfos a) < 2 ^ 32" using ok by (auto simp: usageOk_def)
  have "?n \<le> length (usageInfos a)" by simp
  have a': "usageInfos a' = (usageInfos a)[c := t]" using u by (auto simp: updateTaskCount_def Let_def split: if_splits)
  have new: "registeredContextsNum a' =
      (if usageInfos a ! c = objectNotUsed then registeredContextsNum a + 1 else registeredContextsNum a) -
      (if t = objectNotUsed then 1 else 0)"
    using u by (auto simp: updateTaskCount_def Let_def split: if_splits)
  have plus: "unat (registeredContextsNum a + 1) = ?n + 1" if "?n < length (usageInfos a)"
    using r m that by (simp add: unat_plus_simple [THEN iffD1] no_olen_add_nat)
  have minus: "unat (registeredContextsNum a - 1) = ?n - 1" if "?n \<noteq> 0"
  proof -
    have "registeredContextsNum a \<noteq> 0" using r that by (metis unsigned_0)
    then show ?thesis using r by (simp add: unat_minus_one)
  qed
  have "unat (registeredContextsNum a') = length (filter (\<lambda>t. t \<noteq> objectNotUsed) (usageInfos a'))"
  proof (cases "usageInfos a ! c = objectNotUsed")
    case True
    have "?n < length (usageInfos a)"
      using True c by (metis (mono_tags, lifting) length_filter_less nth_mem)
    then show ?thesis using True upd new plus r a' by (cases "t = objectNotUsed") auto
  next
    case False
    have "?n \<noteq> 0" using False c by (auto simp: filter_empty_conv)
    then show ?thesis using False upd new minus r a' by (cases "t = objectNotUsed") auto
  qed
  then show ?thesis using ok a' by (simp add: usageOk_def)
qed

lemma update_fields:
  assumes "updateTaskCount t c a = Some a'"
  shows "gfxRootDevice a' = gfxRootDevice a" "getTaskCount d a' = (if d = c then t else getTaskCount d a)"
    "hostPtrTaskCountAssignment a' = hostPtrTaskCountAssignment a"
  using assms by (auto simp: updateTaskCount_def getTaskCount_def Let_def split: if_splits)

lemma used_below: "isUsedByOsContext c a \<Longrightarrow> c < length (usageInfos a)"
  by (auto simp: isUsedByOsContext_def getTaskCount_def split: if_splits)

lemma used_iff: "isUsedByOsContext c a \<longleftrightarrow> c < length (usageInfos a) \<and> usageInfos a ! c \<noteq> objectNotUsed"
  by (auto simp: isUsedByOsContext_def getTaskCount_def)

lemma registered_card: "usageOk m a \<Longrightarrow> unat (registeredContextsNum a) = card {c. isUsedByOsContext c a}"
  by (simp add: usageOk_def length_filter_conv_card used_iff)

lemma used_finite: "finite {c. isUsedByOsContext c a}"
  by (rule finite_subset [of _ "{..<length (usageInfos a)}"]) (auto dest: used_below)

lemma used_engines_count:
  assumes "usageOk m a" "distinct (map osContextId es)"
  shows "length (filter (\<lambda>e. isUsedByOsContext (osContextId e) a) es) \<le> unat (registeredContextsNum a)"
proof -
  let ?cs = "map osContextId (filter (\<lambda>e. isUsedByOsContext (osContextId e) a) es)"
  have "distinct ?cs" using assms(2) by (rule distinct_map_filter)
  then have "length ?cs = card (set ?cs)" by (simp only: distinct_card)
  also have "\<dots> \<le> card {c. isUsedByOsContext c a}" by (rule card_mono [OF used_finite]) auto
  finally show ?thesis using registered_card [OF assms(1)] by simp
qed

text \<open>The early end of the walk does not miss an engine.\<close>

lemma allocInUseLoop_busy:
  "unat k + length (filter (\<lambda>e. isUsedByOsContext (osContextId e) a) es) \<le> unat (registeredContextsNum a) \<Longrightarrow>
   allocInUseLoop es a k \<longleftrightarrow> (\<exists>e \<in> set es. busyOn a e)"
proof (induction es arbitrary: k)
  case (Cons e es)
  let ?used = "isUsedByOsContext (osContextId e) a"
  let ?k = "if ?used then k + 1 else k"
  have small: "unat (registeredContextsNum a) < 2 ^ 32" by (rule order_less_le_trans [OF unsigned_less]) simp
  have k: "unat ?k = unat k + (if ?used then 1 else 0)"
    using Cons.prems small by (auto simp: unat_plus_simple [THEN iffD1] no_olen_add_nat)
  have rest: "unat ?k + length (filter (\<lambda>e. isUsedByOsContext (osContextId e) a) es) \<le> unat (registeredContextsNum a)"
    using Cons.prems k by (cases ?used) simp_all
  have busy: "busyOn a e \<longleftrightarrow> ?used \<and> (case tagValue e of None \<Rightarrow> False | Some t \<Rightarrow> getTaskCount (osContextId e) a > t)"
    by (simp add: busyOn_def)
  show ?case
  proof (cases "busyOn a e")
    case True
    then show ?thesis using busy by (simp add: Let_def)
  next
    case nb: False
    show ?thesis
    proof (cases "?k = registeredContextsNum a")
      case True
      then have "filter (\<lambda>e. isUsedByOsContext (osContextId e) a) es = []" using rest by auto
      then have "\<not> (\<exists>e \<in> set es. busyOn a e)" by (auto simp: busyOn_def filter_empty_conv)
      then show ?thesis using nb busy True by (auto simp: Let_def)
    next
      case False
      then show ?thesis using nb busy Cons.IH [OF rest] by (auto simp: Let_def)
    qed
  qed
qed simp

lemma registered_distinct: "distinct (map osContextId es) \<Longrightarrow> distinct (map osContextId (getRegisteredEngines r es))"
  unfolding getRegisteredEngines_def by (rule distinct_map_filter)

lemma allocInUse_busy:
  assumes "usageOk m a" "distinct (map osContextId es)"
  shows "allocInUse es a \<longleftrightarrow> (\<exists>e \<in> set (getRegisteredEngines (gfxRootDevice a) es). busyOn a e)"
  unfolding allocInUse_def
  using used_engines_count [OF assms(1) registered_distinct [OF assms(2)]] by (intro allocInUseLoop_busy) simp

text \<open>No engine of the device still works with the allocation.\<close>

definition idleOn :: "Engine list \<Rightarrow> GfxAllocation \<Rightarrow> bool" where
  "idleOn es a \<longleftrightarrow> (\<forall>e \<in> set (getRegisteredEngines (gfxRootDevice a) es). \<not> busyOn a e)"

lemma single_context:
  assumes "usageOk m a" "\<not> isUsedByManyOsContexts a" "isUsedByOsContext c a" "isUsedByOsContext d a"
  shows "c = d"
proof (rule ccontr)
  assume "c \<noteq> d"
  then have "card {c, d} \<le> card {c. isUsedByOsContext c a}" using assms(3,4) by (intro card_mono [OF used_finite]) auto
  then show False using assms(1,2) registered_card [OF assms(1)] \<open>c \<noteq> d\<close>
    by (simp add: isUsedByManyOsContexts_def word_less_nat_alt)
qed

lemma only_context_idle:
  assumes "\<And>d. isUsedByOsContext d a \<Longrightarrow> d = osContextId e" and e: "e \<in> set es" "tagValue e = Some t" "waited \<le> t"
    and d: "distinct (map osContextId es)" and le: "getTaskCount (osContextId e) a \<le> waited"
  shows "idleOn es a"
proof -
  have "\<not> busyOn a e'" if "e' \<in> set es" for e'
  proof
    assume b: "busyOn a e'"
    then have "osContextId e' = osContextId e" using assms(1) by (simp add: busyOn_def)
    then have "e' = e" using d e(1) that by (auto simp: distinct_map dest: inj_onD)
    then show False using b e(2,3) le by (auto simp: busyOn_def)
  qed
  then show ?thesis by (auto simp: idleOn_def getRegisteredEngines_def)
qed

lemma temporaryFreeable_idle:
  assumes ok: "usageOk m a" and es: "distinct (map osContextId es)" "e \<in> set es" "tagValue e = Some t" "waited \<le> t"
    and f: "temporaryFreeable es (osContextId e) waited a"
  shows "idleOn es a"
proof (cases "isUsedByOsContext (osContextId e) a \<and> \<not> isUsedByManyOsContexts a")
  case True
  then show ?thesis
    using only_context_idle [OF _ es(2-4,1)] single_context [OF ok] f by (auto simp: temporaryFreeable_def split: if_splits)
next
  case False
  then have "\<not> allocInUse es a" using f by (auto simp: temporaryFreeable_def split: if_splits)
  then show ?thesis using allocInUse_busy [OF ok es(1)] by (simp add: idleOn_def)
qed

lemma applyLoop_result:
  "distinct (map osContextId es) \<Longrightarrow> usageOk m a \<Longrightarrow>
   \<exists>a'. applyLoop es a s = Some (a', s \<or> (\<exists>e \<in> set es. isUsedByOsContext (osContextId e) a \<and>
        \<not> testTaskCountReady e (getTaskCount (osContextId e) a))) \<and> usageOk m a' \<and> gfxRootDevice a' = gfxRootDevice a \<and>
     (\<forall>c. isUsedByOsContext c a' \<longrightarrow> isUsedByOsContext c a)"
proof (induction es arbitrary: a s)
  case (Cons e es)
  let ?c = "osContextId e"
  have d: "distinct (map osContextId es)" and n: "?c \<notin> osContextId ` set es" using Cons.prems(1) by simp_all
  have new: "osContextId e' \<noteq> ?c" if "e' \<in> set es" for e' using n that by (metis image_eqI)
  show ?case
  proof (cases "isUsedByOsContext ?c a \<and> testTaskCountReady e (getTaskCount ?c a)")
    case True
    obtain b where b: "releaseUsageInOsContext ?c a = Some b"
      using used_below [of ?c a] True by (simp add: releaseUsageInOsContext_def updateTaskCount_def Let_def)
    note fields = update_fields [OF b [unfolded releaseUsageInOsContext_def]]
    have ok: "usageOk m b" by (rule usageOk_update [OF Cons.prems(2) b [unfolded releaseUsageInOsContext_def]])
    have same: "isUsedByOsContext (osContextId e') b = isUsedByOsContext (osContextId e') a \<and>
        getTaskCount (osContextId e') b = getTaskCount (osContextId e') a" if "e' \<in> set es" for e'
      using fields(2) new [OF that] by (simp add: isUsedByOsContext_def)
    have less: "isUsedByOsContext c b \<Longrightarrow> isUsedByOsContext c a" for c
      using fields(2) [of c] by (auto simp: isUsedByOsContext_def split: if_splits)
    show ?thesis using Cons.IH [OF d ok, of s] True b fields(1) same less by auto
  next
    case False
    then show ?thesis
      using Cons.IH [OF d Cons.prems(2), of s] Cons.IH [OF d Cons.prems(2), of True] by (auto split: if_splits)
  qed
qed simp

lemma ready_not_busy: "testTaskCountReady e (getTaskCount (osContextId e) a) \<Longrightarrow> \<not> busyOn a e"
  by (auto simp: testTaskCountReady_def busyOn_def tagValue_def split: option.splits list.splits)

section \<open>The operations on the store\<close>

abbreviation worldHolds :: "MemoryWorld \<Rightarrow> (ListId \<Rightarrow> node list) \<Rightarrow> bool" where
  "worldHolds w A \<equiv> il.family (worldLists w) (storeLinks (worldStore w)) A"

lemma world_simps [simp]:
  "freedAllocations (setWorldList i ls w) = freedAllocations w" "deletionQueue (setWorldList i ls w) = deletionQueue w"
  "allocAt (setWorldList i ls w) = allocAt w" "freedAllocations (setAlloc n a w) = freedAllocations w"
  "deletionQueue (setAlloc n a w) = deletionQueue w" "allocAt (setAlloc n a w) = (allocAt w)(n := a)"
  "worldLists (setAlloc n a w) = worldLists w" "storeLinks (worldStore (setAlloc n a w)) = storeLinks (worldStore w)"
  "worldLists (setWorldList i ls w) = (worldLists w)(i := fst ls)" "storeLinks (worldStore (setWorldList i ls w)) = snd ls"
  "freedAllocations (freeGraphicsMemory n w) = freedAllocations w @ [n]"
  "deletionQueue (freeGraphicsMemory n w) = deletionQueue w" "worldLists (freeGraphicsMemory n w) = worldLists w"
  "worldStore (freeGraphicsMemory n w) = worldStore w" "allocAt (freeGraphicsMemory n w) = allocAt w"
  by (simp_all add: setWorldList_def setAlloc_def freeGraphicsMemory_def allocAt_def fun_eq_iff)

lemma free_many [simp]:
  "freedAllocations (fold freeGraphicsMemory ns w) = freedAllocations w @ ns"
  "deletionQueue (fold freeGraphicsMemory ns w) = deletionQueue w"
  "worldLists (fold freeGraphicsMemory ns w) = worldLists w" "worldStore (fold freeGraphicsMemory ns w) = worldStore w"
  "allocAt (fold freeGraphicsMemory ns w) = allocAt w"
  by (induction ns arbitrary: w) simp_all

lemma sweepWorldList_result:
  assumes f: "worldHolds w A"
  shows "\<exists>w'. sweepWorldList release i w = Some w' \<and> worldHolds w' (A(i := filter (\<lambda>n. \<not> release (allocAt w n)) (A i))) \<and>
    freedAllocations w' = freedAllocations w @ filter (\<lambda>n. release (allocAt w n)) (A i) \<and>
    deletionQueue w' = deletionQueue w \<and> allocAt w' = allocAt w"
proof -
  let ?r = "\<lambda>n. release (allocAt w n)"
  obtain l' s' where r: "sweepList ?r (worldList i w) = Some ((l', s'), filter ?r (A i))"
      "represents (l', s') (filter (\<lambda>n. \<not> ?r n) (A i))" "keepsOthers (storeLinks (worldStore w)) s' (set (A i))"
    using sweepList_result [OF il.family_rep [OF f, of i], of ?r] by (auto simp: worldList_def)
  have "il.family ((worldLists w)(i := l')) s' (A(i := filter (\<lambda>n. \<not> ?r n) (A i)))"
  proof (rule il.family_update [OF f r(2,3)])
    fix j assume "j \<noteq> i"
    then show "set (A j) \<inter> (set (A i) \<union> set (filter (\<lambda>n. \<not> ?r n) (A i))) = {}" using il.family_apart [OF f, of j i] by auto
  qed
  then show ?thesis using r(1) by (simp add: sweepWorldList_def)
qed

lemma pushUpdated_result:
  assumes f: "worldHolds w A" and n: "\<And>j. n \<notin> set (A j)" and p: "pushUpdated i n t c w = Some w'"
  shows "worldHolds w' (A(i := A i @ [n]))" "freedAllocations w' = freedAllocations w" "deletionQueue w' = deletionQueue w"
    "\<exists>a. updateTaskCount t c (allocAt w n) = Some a \<and> allocAt w' = (allocAt w)(n := a)"
proof -
  obtain a where a: "updateTaskCount t c (allocAt w n) = Some a"
      "w' = setWorldList i (pushTailOneImpl n (worldList i (setAlloc n a w))) (setAlloc n a w)"
    using p by (auto simp: pushUpdated_def Let_def split: option.splits)
  have push: "represents (pushTailOneImpl n (worldLists w i, storeLinks (worldStore w))) (A i @ [n])"
      "keepsOthers (storeLinks (worldStore w)) (snd (pushTailOneImpl n (worldLists w i, storeLinks (worldStore w)))) (insert n (set (A i)))"
    using pushTail_represents [OF il.family_rep [OF f, of i] n] by auto
  have "il.family ((worldLists w)(i := fst (pushTailOneImpl n (worldLists w i, storeLinks (worldStore w)))))
      (snd (pushTailOneImpl n (worldLists w i, storeLinks (worldStore w)))) (A(i := A i @ [n]))"
  proof (rule il.family_update [OF f _ push(2)])
    show "represents (fst (pushTailOneImpl n (worldLists w i, storeLinks (worldStore w))),
        snd (pushTailOneImpl n (worldLists w i, storeLinks (worldStore w)))) (A i @ [n])"
      using push(1) by (simp only: prod.collapse)
    fix j assume "j \<noteq> i"
    then show "set (A j) \<inter> (insert n (set (A i)) \<union> set (A i @ [n])) = {}"
      using il.family_apart [OF f, of j i] n [of j] by auto
  qed
  then show "worldHolds w' (A(i := A i @ [n]))" using a(2) by (simp add: worldList_def)
  show "freedAllocations w' = freedAllocations w" "deletionQueue w' = deletionQueue w"
    "\<exists>a. updateTaskCount t c (allocAt w n) = Some a \<and> allocAt w' = (allocAt w)(n := a)"
    using a by simp_all
qed

lemma detachFrom_result:
  assumes f: "worldHolds w A" and c: "\<And>n. osContextId csr < length (usageInfos (allocAt w n))"
    and d: "detachFrom i usage sz ptr csr type w = Some (Some n, w')"
  shows "\<exists>as bs a. A i = as @ n # bs \<and> worldHolds w' (A(i := as @ bs)) \<and>
      (\<forall>m \<in> set as. \<not> suits usage (newRequirements (Some csr) ptr sz type False) (allocAt w m)) \<and>
      suits usage (newRequirements (Some csr) ptr sz type False) (allocAt w n) \<and>
      freedAllocations w' = freedAllocations w \<and> deletionQueue w' = deletionQueue w \<and> allocAt w' = (allocAt w)(n := a) \<and>
      (a = allocAt w n \<or> updateTaskCount notReady (osContextId csr) (allocAt w n) = Some a)"
proof -
  let ?req = "newRequirements (Some csr) ptr sz type False" and ?st = "worldStore w"
  have id: "reqContextId ?req = osContextId csr" by (simp add: newRequirements_def)
  have alloc: "allocOf ?st m = allocAt w m" for m by (simp add: allocAt_def)
  obtain l st where d': "detachAllocationImpl usage ?req (worldLists w i, ?st) = Some (Some n, l, st)"
      and w': "w' = w\<lparr>worldStore := st, worldLists := (worldLists w)(i := l)\<rparr>"
    using d by (auto simp: detachFrom_def detachAllocation_def)
  have c': "\<forall>m \<in> set (A i). reqContextId ?req < length (usageInfos (allocOf ?st m))" using c id alloc by simp
  from detachAllocationImpl_result [OF il.family_rep [OF f, of i] c', of usage] d'
  obtain as bs s' a where r: "A i = as @ n # bs" "\<forall>m \<in> set as. \<not> suits usage ?req (allocOf ?st m)" "suits usage ?req (allocOf ?st n)"
      "st = \<lparr>storeLinks = s', allocOf = (allocOf ?st)(n := a)\<rparr>" "represents (l, s') (as @ bs)"
      "keepsOthers (storeLinks ?st) s' (set (A i))"
      "if usage = TEMPORARY_ALLOCATION \<and> csrTags ?req \<noteq> None
       then updateTaskCount notReady (reqContextId ?req) (allocOf ?st n) = Some a else a = allocOf ?st n"
    by (elim disjE exE conjE) (simp, metis Pair_inject option.inject)
  have "il.family ((worldLists w)(i := l)) s' (A(i := as @ bs))"
  proof (rule il.family_update [OF f r(5,6)])
    fix j assume "j \<noteq> i"
    then show "set (A j) \<inter> (set (A i) \<union> set (as @ bs)) = {}" using il.family_apart [OF f, of j i] r(1) by auto
  qed
  moreover have "allocAt w' = (allocAt w)(n := a)" using w' r(4) by (simp add: allocAt_def fun_eq_iff)
  moreover have "a = allocAt w n \<or> updateTaskCount notReady (osContextId csr) (allocAt w n) = Some a"
    using r(7) id alloc by (auto split: if_splits)
  ultimately show ?thesis using r(1-4) w' alloc by (intro exI [of _ as] exI [of _ bs] exI [of _ a]) simp
qed

text \<open>What a request for a reusable buffer may get.\<close>

definition reusable :: "Engine \<Rightarrow> u64 list \<Rightarrow> u64 \<Rightarrow> nat \<Rightarrow> GfxAllocation \<Rightarrow> bool" where
  "reusable csr tags requiredSize type a \<longleftrightarrow>
     gfxAllocationType a = type \<and> requiredSize \<le> underlyingBufferSize a \<and> \<not> systemMemoryForced a \<and>
     gfxRootDevice a = engineRootDevice csr \<and> subDeviceBitfield a \<in> {engineDeviceBitfield csr, 0} \<and>
     (\<forall>t \<in> set tags. getTaskCount (osContextId csr) a \<le> t)"

lemma reusable_suits:
  assumes "engineTags csr = Some tags" "length tags = bitfieldCount (engineDeviceBitfield csr)"
  shows "suits REUSABLE_ALLOCATION (newRequirements (Some csr) 0 sz type False) a \<longleftrightarrow> reusable csr tags sz type a"
  using assms by (auto simp: suits_def reusable_def newRequirements_def checkTagAddressReady_def list_all_iff
    all_set_conv_all_nth not_less)

lemma find_first: "P n \<Longrightarrow> \<forall>m \<in> set as. \<not> P m \<Longrightarrow> List.find P (as @ n # bs) = Some n"
  by (induction as) auto

text \<open>
  C16: a buffer is reused only when the GPU is done with it. \<open>obtainReusableAllocation\<close> always returns, and it returns
  the first stored allocation of the requested type and at least the requested size that is not forced into system memory, lies on the
  device of the engine and whose last task on the engine all tiles have completed; it takes this one, and only
  this one, from the list.
\<close>

theorem reusable_allocation_ready:
  assumes f: "worldHolds w A" and c: "\<forall>n. osContextId csr < length (usageInfos (allocAt w n))"
    and t: "engineTags csr = Some tags" "length tags = bitfieldCount (engineDeviceBitfield csr)"
  shows "\<exists>w'. obtainReusableAllocation csr requiredSize type w =
      Some (List.find (\<lambda>n. reusable csr tags requiredSize type (allocAt w n)) (A (StorageList (osContextId csr) REUSABLE_ALLOCATION)), w') \<and>
    allocAt w' = allocAt w \<and> freedAllocations w' = freedAllocations w \<and>
    worldHolds w' (A(StorageList (osContextId csr) REUSABLE_ALLOCATION :=
      (case List.find (\<lambda>n. reusable csr tags requiredSize type (allocAt w n)) (A (StorageList (osContextId csr) REUSABLE_ALLOCATION)) of
         None \<Rightarrow> A (StorageList (osContextId csr) REUSABLE_ALLOCATION)
       | Some n \<Rightarrow> remove1 n (A (StorageList (osContextId csr) REUSABLE_ALLOCATION)))))"
proof -
  let ?i = "StorageList (osContextId csr) REUSABLE_ALLOCATION"
  let ?req = "newRequirements (Some csr) 0 requiredSize type False" and ?st = "worldStore w"
  let ?P = "\<lambda>n. reusable csr tags requiredSize type (allocAt w n)"
  have alloc: "allocOf ?st m = allocAt w m" for m by (simp add: allocAt_def)
  have suits: "suits REUSABLE_ALLOCATION ?req (allocOf ?st m) \<longleftrightarrow> ?P m" for m using reusable_suits [OF t] alloc by simp
  have c': "\<forall>m \<in> set (A ?i). reqContextId ?req < length (usageInfos (allocOf ?st m))" using c alloc by (simp add: newRequirements_def)
  have eq: "obtainReusableAllocation csr requiredSize type w =
      map_option (\<lambda>(n, l, st). (n, w\<lparr>worldStore := st, worldLists := (worldLists w)(?i := l)\<rparr>))
        (detachAllocationImpl REUSABLE_ALLOCATION ?req (worldLists w ?i, ?st))"
    by (simp add: obtainReusableAllocation_def detachFrom_def detachAllocation_def)
  from detachAllocationImpl_result [OF il.family_rep [OF f, of ?i] c', of REUSABLE_ALLOCATION]
  show ?thesis
  proof (elim disjE exE conjE)
    assume no: "\<forall>n \<in> set (A ?i). \<not> suits REUSABLE_ALLOCATION ?req (allocOf ?st n)"
      and d: "detachAllocationImpl REUSABLE_ALLOCATION ?req (worldLists w ?i, ?st) = Some (None, worldLists w ?i, ?st)"
    have "List.find ?P (A ?i) = None" using no suits by (simp add: find_None_iff)
    then show ?thesis unfolding eq d using f by (intro exI [of _ w]) simp
  next
    fix as n bs l s' a
    assume r: "A ?i = as @ n # bs" "\<forall>m \<in> set as. \<not> suits REUSABLE_ALLOCATION ?req (allocOf ?st m)"
      "suits REUSABLE_ALLOCATION ?req (allocOf ?st n)"
      "detachAllocationImpl REUSABLE_ALLOCATION ?req (worldLists w ?i, ?st) =
         Some (Some n, l, \<lparr>storeLinks = s', allocOf = (allocOf ?st)(n := a)\<rparr>)"
      "represents (l, s') (as @ bs)" "keepsOthers (storeLinks ?st) s' (set (A ?i))"
      "if REUSABLE_ALLOCATION = TEMPORARY_ALLOCATION \<and> csrTags ?req \<noteq> None
       then updateTaskCount notReady (reqContextId ?req) (allocOf ?st n) = Some a else a = allocOf ?st n"
    let ?w = "w\<lparr>worldStore := \<lparr>storeLinks = s', allocOf = (allocOf ?st)(n := a)\<rparr>, worldLists := (worldLists w)(?i := l)\<rparr>"
    have a: "a = allocOf ?st n" using r(7) by simp
    have found: "List.find ?P (A ?i) = Some n" unfolding r(1) using r(2,3) suits by (intro find_first) auto
    have "distinct (A ?i)" by (rule represents_distinct [OF il.family_rep [OF f]])
    then have rm: "remove1 n (A ?i) = as @ bs" using r(1) by (simp add: remove1_append)
    have "il.family ((worldLists w)(?i := l)) s' (A(?i := as @ bs))"
    proof (rule il.family_update [OF f r(5,6)])
      fix j assume "j \<noteq> ?i"
      then show "set (A j) \<inter> (set (A ?i) \<union> set (as @ bs)) = {}" using il.family_apart [OF f, of j ?i] r(1) by auto
    qed
    then show ?thesis unfolding eq r(4) found using rm by (intro exI [of _ ?w]) (auto simp: a allocAt_def fun_eq_iff)
  qed
qed

text \<open>Two stored buffers of 64 bytes; the first is still in use by the second tile.\<close>

definition sampleBuffer :: "u64 \<Rightarrow> GfxAllocation" where
  "sampleBuffer taskCount = \<lparr>gfxAllocationType = 1, underlyingBuffer = 4096, underlyingBufferSize = 64, systemMemoryForced = False,
     subDeviceBitfield = 0, gfxRootDevice = 0, usageInfos = [taskCount], registeredContextsNum = 1, hostPtrTaskCountAssignment = 0\<rparr>"

definition sampleEngine :: Engine where
  "sampleEngine = \<lparr>osContextId = 0, engineTags = Some [5, 3], peekTaskCount = 5, engineRootDevice = 0, engineDeviceBitfield = 3\<rparr>"

definition sampleWorld :: MemoryWorld where
  "sampleWorld =
     (let ls1 = pushTailOneImpl 1 (newIDList, \<lparr>nextOf = (\<lambda>_. None), prevOf = (\<lambda>_. None), deletedNodes = []\<rparr>);
          ls2 = pushTailOneImpl 2 ls1
      in \<lparr>worldStore = \<lparr>storeLinks = snd ls2, allocOf = (\<lambda>n. if n = 1 then sampleBuffer 5 else sampleBuffer 3)\<rparr>,
          worldLists = (\<lambda>_. newIDList)(StorageList 0 REUSABLE_ALLOCATION := fst ls2), freedAllocations = [], deletionQueue = []\<rparr>)"

lemma sampleWorld_holds: "worldHolds sampleWorld ((\<lambda>_. [])(StorageList 0 REUSABLE_ALLOCATION := [1, 2]))"
proof -
  let ?s0 = "\<lparr>nextOf = (\<lambda>_. None), prevOf = (\<lambda>_. None), deletedNodes = []\<rparr>"
  let ?ls1 = "pushTailOneImpl 1 (newIDList, ?s0)" let ?ls2 = "pushTailOneImpl 2 ?ls1"
  have "represents ?ls1 [1]" using pushTail_represents [of newIDList ?s0 "[]" 1] new_represents by simp
  then have "represents ?ls2 [1, 2]"
    using pushTail_represents [of "fst ?ls1" "snd ?ls1" "[1]" 2] by simp
  then show ?thesis by (auto simp: sampleWorld_def Let_def il.family_def new_represents)
qed

lemma reusable_allocation_ready_witness:
  "\<exists>w'. obtainReusableAllocation sampleEngine 32 1 sampleWorld = Some (Some 2, w') \<and> allocAt w' = allocAt sampleWorld"
proof -
  let ?A = "(\<lambda>_. [])(StorageList 0 REUSABLE_ALLOCATION := [1, 2])"
  have "bitfieldCount 3 = 2" by code_simp
  moreover have "\<forall>n. osContextId sampleEngine < length (usageInfos (allocAt sampleWorld n))"
    by (simp add: sampleEngine_def sampleWorld_def Let_def allocAt_def sampleBuffer_def)
  moreover have "List.find (\<lambda>n. reusable sampleEngine [5, 3] 32 1 (allocAt sampleWorld n)) [1, 2] = Some 2"
    by (simp add: reusable_def sampleEngine_def sampleWorld_def Let_def allocAt_def sampleBuffer_def getTaskCount_def)
  ultimately show ?thesis
    using reusable_allocation_ready [OF sampleWorld_holds, of sampleEngine "[5, 3]" 32 1] by (auto simp: sampleEngine_def)
qed

section \<open>Histories\<close>

text \<open>Between two operations the GPU completes tasks: the tags grow.\<close>

definition advances :: "Engine \<Rightarrow> Engine \<Rightarrow> bool" where
  "advances e e' \<longleftrightarrow> osContextId e' = osContextId e \<and> engineRootDevice e' = engineRootDevice e \<and>
     (case (engineTags e, engineTags e') of (Some ts, Some ts') \<Rightarrow> list_all2 (\<le>) ts ts' | (None, None) \<Rightarrow> True | _ \<Rightarrow> False)"

record Lifetime =
  lifeWorld :: MemoryWorld
  lifeEngines :: "Engine list"
  lifeOwned :: "node list"

text \<open>
  What happens to allocations that the application owns or has given away. The first list of temporary
  allocations is the manager's; waiting for a task count means that the tag has reached it. A step that gives an
  allocation a task count on a context is labelled with the allocation, the context and the count.
\<close>

type_synonym Task = "node \<times> nat \<times> u64"

inductive lifeStep :: "Lifetime \<Rightarrow> Task option \<Rightarrow> Lifetime \<Rightarrow> bool" where
  LifeGpu: "list_all2 advances es es' \<Longrightarrow> lifeStep \<lparr>lifeWorld = w, lifeEngines = es, lifeOwned = own\<rparr> None \<lparr>lifeWorld = w, lifeEngines = es', lifeOwned = own\<rparr>"
| LifeSubmit: "n \<in> set own \<Longrightarrow> updateTaskCount t c (allocAt w n) = Some a \<Longrightarrow>
    lifeStep \<lparr>lifeWorld = w, lifeEngines = es, lifeOwned = own\<rparr> (Some (n, c, t)) \<lparr>lifeWorld = setAlloc n a w, lifeEngines = es, lifeOwned = own\<rparr>"
| LifeDestroy: "n \<in> set own \<Longrightarrow> destroyOrDefer True recycling es n w = Some w' \<Longrightarrow>
    lifeStep \<lparr>lifeWorld = w, lifeEngines = es, lifeOwned = own\<rparr> None \<lparr>lifeWorld = w', lifeEngines = es, lifeOwned = remove1 n own\<rparr>"
| LifeStoreTemporary: "n \<in> set own \<Longrightarrow> storeTemporaryAllocation n c t w = Some w' \<Longrightarrow>
    lifeStep \<lparr>lifeWorld = w, lifeEngines = es, lifeOwned = own\<rparr> (Some (n, c, t)) \<lparr>lifeWorld = w', lifeEngines = es, lifeOwned = remove1 n own\<rparr>"
| LifeObtainTemporary: "e \<in> set es \<Longrightarrow> obtainTemporaryAllocationWithPtr True e sz p type w = Some (Some n, w') \<Longrightarrow>
    lifeStep \<lparr>lifeWorld = w, lifeEngines = es, lifeOwned = own\<rparr> None \<lparr>lifeWorld = w', lifeEngines = es, lifeOwned = n # own\<rparr>"
| LifeClean: "e \<in> set es \<Longrightarrow> tagValue e = Some t \<Longrightarrow> waited \<le> t \<Longrightarrow> usage \<noteq> REUSABLE_ALLOCATION \<Longrightarrow>
    cleanAllocationList True es e waited usage w = Some w' \<Longrightarrow>
    lifeStep \<lparr>lifeWorld = w, lifeEngines = es, lifeOwned = own\<rparr> None \<lparr>lifeWorld = w', lifeEngines = es, lifeOwned = own\<rparr>"
| LifeDeferred: "deletionQueue w = n # q \<Longrightarrow> applyDeletion es n (w\<lparr>deletionQueue := q\<rparr>) = Some (released, w') \<Longrightarrow>
    lifeStep \<lparr>lifeWorld = w, lifeEngines = es, lifeOwned = own\<rparr> None
      \<lparr>lifeWorld = (if released then w' else w'\<lparr>deletionQueue := deletionQueue w' @ [n]\<rparr>), lifeEngines = es, lifeOwned = own\<rparr>"

definition heldNodes :: "MemoryWorld \<Rightarrow> node list \<Rightarrow> node list" where
  "heldNodes w own = own @ deletionQueue w @ freedAllocations w"

definition lifeInv :: "nat \<Rightarrow> (ListId \<Rightarrow> node list) \<Rightarrow> Lifetime \<Rightarrow> bool" where
  "lifeInv m A x \<longleftrightarrow>
     worldHolds (lifeWorld x) A \<and> distinct (heldNodes (lifeWorld x) (lifeOwned x)) \<and>
     (\<forall>i. set (A i) \<inter> set (heldNodes (lifeWorld x) (lifeOwned x)) = {}) \<and>
     distinct (map osContextId (lifeEngines x)) \<and> (\<forall>e \<in> set (lifeEngines x). osContextId e < m) \<and>
     (\<forall>n. usageOk m (allocAt (lifeWorld x) n)) \<and>
     (\<forall>c n d. n \<in> set (A (StorageList c DEFERRED_DEALLOCATION)) \<and> isUsedByOsContext d (allocAt (lifeWorld x) n) \<longrightarrow> d = c) \<and>
     (\<forall>c usage. usage \<noteq> DEFERRED_DEALLOCATION \<longrightarrow> A (StorageList c usage) = [])"

lemma sweep_keeps:
  assumes inv: "lifeInv m A \<lparr>lifeWorld = w, lifeEngines = es, lifeOwned = own\<rparr>"
    and s: "sweepWorldList release i w = Some w'"
  shows "\<exists>A'. lifeInv m A' \<lparr>lifeWorld = w', lifeEngines = es, lifeOwned = own\<rparr>"
    and "set (freedAllocations w') = set (freedAllocations w) \<union> {n \<in> set (A i). release (allocAt w n)}"
proof -
  have f: "worldHolds w A" using inv by (simp add: lifeInv_def)
  let ?A = "A(i := filter (\<lambda>n. \<not> release (allocAt w n)) (A i))"
  have r: "worldHolds w' ?A" "freedAllocations w' = freedAllocations w @ filter (\<lambda>n. release (allocAt w n)) (A i)"
      "deletionQueue w' = deletionQueue w" "allocAt w' = allocAt w"
    using sweepWorldList_result [OF f, of release i] s by auto
  have d: "distinct (A i)" by (rule represents_distinct [OF il.family_rep [OF f]])
  have apart: "set (A j) \<inter> set (heldNodes w own) = {}" for j using inv by (simp add: lifeInv_def)
  have "distinct (heldNodes w' own)"
    using inv d apart [of i] r(2,3) by (auto simp: lifeInv_def heldNodes_def)
  moreover have "set (?A j) \<inter> set (heldNodes w' own) = {}" for j
    using apart [of j] il.family_apart [OF f, of j i] r(2,3) by (auto simp: heldNodes_def)
  moreover have "set (?A j) \<subseteq> set (A j)" for j by auto
  ultimately have "lifeInv m ?A \<lparr>lifeWorld = w', lifeEngines = es, lifeOwned = own\<rparr>"
    using inv r(1,4) by (auto simp: lifeInv_def)
  then show "\<exists>A'. lifeInv m A' \<lparr>lifeWorld = w', lifeEngines = es, lifeOwned = own\<rparr>" by blast
  show "set (freedAllocations w') = set (freedAllocations w) \<union> {n \<in> set (A i). release (allocAt w n)}" using r(2) by auto
qed

lemma push_keeps:
  assumes inv: "lifeInv m A \<lparr>lifeWorld = w, lifeEngines = es, lifeOwned = own\<rparr>" and n: "n \<in> set own"
    and p: "pushUpdated i n t c w = Some w'"
    and i: "i = ManagerTemporary \<or> (\<exists>k. i = StorageList k DEFERRED_DEALLOCATION \<and>
      (\<forall>a. updateTaskCount t c (allocAt w n) = Some a \<longrightarrow> (\<forall>d. isUsedByOsContext d a \<longrightarrow> d = k)))"
  shows "lifeInv m (A(i := A i @ [n])) \<lparr>lifeWorld = w', lifeEngines = es, lifeOwned = remove1 n own\<rparr>"
    and "freedAllocations w' = freedAllocations w"
proof -
  have f: "worldHolds w A" using inv by (simp add: lifeInv_def)
  have out: "n \<notin> set (A j)" for j using inv n by (auto simp: lifeInv_def heldNodes_def)
  have d: "distinct own" "n \<notin> set (deletionQueue w)" "n \<notin> set (freedAllocations w)"
    using inv n by (auto simp: lifeInv_def heldNodes_def)
  note r = pushUpdated_result [OF f out p]
  obtain a where a: "updateTaskCount t c (allocAt w n) = Some a" "allocAt w' = (allocAt w)(n := a)" using r(4) by blast
  have ok: "usageOk m a" by (rule usageOk_update [OF _ a(1)]) (use inv in \<open>simp add: lifeInv_def\<close>)
  have "distinct (heldNodes w' (remove1 n own))"
    using inv r(2,3) by (auto simp: lifeInv_def heldNodes_def dest: in_set_remove1 notin_set_remove1)
  moreover have "set ((A(i := A i @ [n])) j) \<inter> set (heldNodes w' (remove1 n own)) = {}" for j
    using inv d r(2,3) by (auto simp: lifeInv_def heldNodes_def dest: notin_set_remove1)
  moreover have "d = k" if "x \<in> set ((A(i := A i @ [n])) (StorageList k DEFERRED_DEALLOCATION))" "isUsedByOsContext d (allocAt w' x)" for k x d
    using that inv i a out by (auto simp: lifeInv_def split: if_splits)
  moreover have "(A(i := A i @ [n])) (StorageList k usage) = []" if "usage \<noteq> DEFERRED_DEALLOCATION" for k usage
    using that inv i by (auto simp: lifeInv_def)
  ultimately show "lifeInv m (A(i := A i @ [n])) \<lparr>lifeWorld = w', lifeEngines = es, lifeOwned = remove1 n own\<rparr>"
    using inv r(1) a(2) ok unfolding lifeInv_def by (simp del: fun_upd_apply) (metis fun_upd_apply)
  show "freedAllocations w' = freedAllocations w" by (rule r(2))
qed

lemma free_keeps:
  assumes inv: "lifeInv m A \<lparr>lifeWorld = w, lifeEngines = es, lifeOwned = own\<rparr>" and n: "n \<in> set own"
  shows "lifeInv m A \<lparr>lifeWorld = freeGraphicsMemory n w, lifeEngines = es, lifeOwned = remove1 n own\<rparr>"
proof -
  have d: "distinct own" "n \<notin> set (deletionQueue w)" "n \<notin> set (freedAllocations w)"
    using inv n by (auto simp: lifeInv_def heldNodes_def)
  have s: "set (heldNodes (freeGraphicsMemory n w) (remove1 n own)) = set (heldNodes w own)"
    using n d(1) by (auto simp: heldNodes_def)
  have "distinct (heldNodes (freeGraphicsMemory n w) (remove1 n own))"
    using inv d by (auto simp: lifeInv_def heldNodes_def)
  then show ?thesis using inv s by (simp add: lifeInv_def)
qed

lemma queue_keeps:
  assumes inv: "lifeInv m A \<lparr>lifeWorld = w, lifeEngines = es, lifeOwned = own\<rparr>" and n: "n \<in> set own"
  shows "lifeInv m A \<lparr>lifeWorld = w\<lparr>deletionQueue := deletionQueue w @ [n]\<rparr>, lifeEngines = es, lifeOwned = remove1 n own\<rparr>"
proof -
  have d: "distinct own" "n \<notin> set (deletionQueue w)" "n \<notin> set (freedAllocations w)"
    using inv n by (auto simp: lifeInv_def heldNodes_def)
  have s: "set (heldNodes (w\<lparr>deletionQueue := deletionQueue w @ [n]\<rparr>) (remove1 n own)) = set (heldNodes w own)"
    using n d(1) by (auto simp: heldNodes_def)
  have "distinct (heldNodes (w\<lparr>deletionQueue := deletionQueue w @ [n]\<rparr>) (remove1 n own))"
    using inv d by (auto simp: lifeInv_def heldNodes_def)
  then show ?thesis using inv s by (simp add: lifeInv_def allocAt_def)
qed

lemma unused_idle: "usageOk m a \<Longrightarrow> \<not> isUsed a \<Longrightarrow> idleOn es a"
proof -
  assume ok: "usageOk m a" and "\<not> isUsed a"
  then have "registeredContextsNum a = 0" by (simp add: isUsed_def word_gt_0)
  then have "card {c. isUsedByOsContext c a} = 0" using registered_card [OF ok] by simp
  then have "{c. isUsedByOsContext c a} = {}" using used_finite by (simp only: card_0_eq)
  then show "idleOn es a" by (auto simp: idleOn_def busyOn_def)
qed

lemma destroy_keeps:
  assumes inv: "lifeInv m A \<lparr>lifeWorld = w, lifeEngines = es, lifeOwned = own\<rparr>" and n: "n \<in> set own"
    and d: "destroyOrDefer True recycling es n w = Some w'"
  shows "(\<exists>A'. lifeInv m A' \<lparr>lifeWorld = w', lifeEngines = es, lifeOwned = remove1 n own\<rparr>) \<and>
    (\<forall>k \<in> set (freedAllocations w') - set (freedAllocations w). idleOn es (allocAt w k))"
proof -
  let ?a = "allocAt w n"
  have ok: "usageOk m ?a" using inv by (simp add: lifeInv_def)
  consider (free) "w' = freeGraphicsMemory n w" "idleOn es ?a"
    | (queue) "w' = w\<lparr>deletionQueue := deletionQueue w @ [n]\<rparr>"
    | (deferred) e where "\<not> isUsedByManyOsContexts ?a" "busyOn ?a e"
        "storeAllocation True recycling e n DEFERRED_DEALLOCATION w = Some w'"
  proof (cases "isUsed ?a")
    case False
    then show thesis using d unused_idle [OF ok False, of es] that(1) by (simp add: destroyOrDefer_def)
  next
    case used: True
    show thesis
    proof (cases "isUsedByManyOsContexts ?a")
      case True
      then show thesis using d used that(2) by (simp add: destroyOrDefer_def)
    next
      case single: False
      show thesis
      proof (cases "List.find (busyOn ?a) (getRegisteredEngines (gfxRootDevice ?a) es)")
        case None
        then have "idleOn es ?a" by (simp add: idleOn_def find_None_iff)
        then show thesis using d used single None that(1) by (simp add: destroyOrDefer_def)
      next
        case (Some e)
        then have "busyOn ?a e" by (auto simp: find_Some_iff)
        then show thesis using d used single Some that(3) by (simp add: destroyOrDefer_def)
      qed
    qed
  qed
  then show ?thesis
  proof cases
    case free
    then show ?thesis using free_keeps [OF inv n] by auto
  next
    case queue
    then show ?thesis using queue_keeps [OF inv n] by auto
  next
    case deferred
    let ?c = "osContextId e"
    have used: "isUsedByOsContext ?c ?a" using deferred(2) by (simp add: busyOn_def)
    have p: "pushUpdated (StorageList ?c DEFERRED_DEALLOCATION) n (getTaskCount ?c ?a) ?c w = Some w'"
      using deferred(3) by (simp add: storeAllocation_def storeAllocationWithTaskCount_def)
    have "\<forall>a. updateTaskCount (getTaskCount ?c ?a) ?c ?a = Some a \<longrightarrow> (\<forall>d. isUsedByOsContext d a \<longrightarrow> d = ?c)"
    proof (intro allI impI)
      fix b d
      assume u: "updateTaskCount (getTaskCount ?c ?a) ?c ?a = Some b" and "isUsedByOsContext d b"
      then have "isUsedByOsContext d ?a" using update_fields(2) [OF u, of d] by (simp add: isUsedByOsContext_def split: if_splits)
      then show "d = ?c" using single_context [OF ok deferred(1) used] by blast
    qed
    then have "lifeInv m (A(StorageList ?c DEFERRED_DEALLOCATION := A (StorageList ?c DEFERRED_DEALLOCATION) @ [n]))
        \<lparr>lifeWorld = w', lifeEngines = es, lifeOwned = remove1 n own\<rparr>" "freedAllocations w' = freedAllocations w"
      using push_keeps [OF inv n p] by blast+
    then show ?thesis by auto
  qed
qed

lemma obtain_keeps:
  assumes inv: "lifeInv m A \<lparr>lifeWorld = w, lifeEngines = es, lifeOwned = own\<rparr>" and e: "e \<in> set es"
    and o: "obtainTemporaryAllocationWithPtr True e sz p type w = Some (Some n, w')"
  shows "(\<exists>A'. lifeInv m A' \<lparr>lifeWorld = w', lifeEngines = es, lifeOwned = n # own\<rparr>) \<and> freedAllocations w' = freedAllocations w"
proof -
  have f: "worldHolds w A" using inv by (simp add: lifeInv_def)
  have c: "osContextId e < length (usageInfos (allocAt w k))" for k using inv e by (simp add: lifeInv_def usageOk_def)
  obtain as bs a where r: "A ManagerTemporary = as @ n # bs" "worldHolds w' (A(ManagerTemporary := as @ bs))"
      "freedAllocations w' = freedAllocations w" "deletionQueue w' = deletionQueue w" "allocAt w' = (allocAt w)(n := a)"
      "a = allocAt w n \<or> updateTaskCount notReady (osContextId e) (allocAt w n) = Some a"
    using detachFrom_result [OF f c, of ManagerTemporary TEMPORARY_ALLOCATION sz p type n w'] o
    by (auto simp: obtainTemporaryAllocationWithPtr_def)
  let ?A = "A(ManagerTemporary := as @ bs)"
  have ok: "usageOk m (allocAt w k)" for k using inv by (simp add: lifeInv_def)
  have "usageOk m a" using r(6) ok usageOk_update by blast
  then have ok': "usageOk m (allocAt w' k)" for k using ok r(5) by simp
  have "set (A ManagerTemporary) \<inter> set (heldNodes w own) = {}" using inv by (simp add: lifeInv_def)
  then have n: "n \<notin> set (heldNodes w own)" using r(1) by auto
  have dA: "distinct (as @ n # bs)" using represents_distinct [OF il.family_rep [OF f, of ManagerTemporary]] r(1) by simp
  have "distinct (heldNodes w' (n # own))" using inv n r(3,4) by (simp add: lifeInv_def heldNodes_def)
  moreover have "set (?A i) \<inter> set (heldNodes w' (n # own)) = {}" for i
  proof -
    have "set (A i) \<inter> set (heldNodes w own) = {}" using inv by (simp add: lifeInv_def)
    moreover have "n \<notin> set (?A i)" using dA r(1) il.family_apart [OF f, of i ManagerTemporary] by auto
    moreover have "set (?A i) \<subseteq> set (A i)" using r(1) by auto
    ultimately show ?thesis using r(3,4) by (auto simp: heldNodes_def)
  qed
  moreover have "n \<notin> set (A (StorageList c DEFERRED_DEALLOCATION))" for c
    using il.family_apart [OF f, of "StorageList c DEFERRED_DEALLOCATION" ManagerTemporary] r(1) by auto
  ultimately have "lifeInv m ?A \<lparr>lifeWorld = w', lifeEngines = es, lifeOwned = n # own\<rparr>"
    using inv r(2,5) ok' by (auto simp: lifeInv_def split: if_splits)
  then show ?thesis using r(3) by blast
qed

lemma clean_keeps:
  assumes inv: "lifeInv m A \<lparr>lifeWorld = w, lifeEngines = es, lifeOwned = own\<rparr>"
    and e: "e \<in> set es" "tagValue e = Some t" "waited \<le> t" and u: "usage \<noteq> REUSABLE_ALLOCATION"
    and c: "cleanAllocationList True es e waited usage w = Some w'"
  shows "(\<exists>A'. lifeInv m A' \<lparr>lifeWorld = w', lifeEngines = es, lifeOwned = own\<rparr>) \<and>
    (\<forall>k \<in> set (freedAllocations w') - set (freedAllocations w). idleOn es (allocAt w k))"
proof -
  have ok: "usageOk m (allocAt w k)" for k using inv by (simp add: lifeInv_def)
  have d: "distinct (map osContextId es)" using inv by (simp add: lifeInv_def)
  show ?thesis
  proof (cases "usage = TEMPORARY_ALLOCATION")
    case True
    then have s: "sweepWorldList (temporaryFreeable es (osContextId e) waited) ManagerTemporary w = Some w'"
      using c by (simp add: cleanAllocationList_def freeAllocationsList_def cleanTemporaryAllocations_def)
    show ?thesis using sweep_keeps [OF inv s] temporaryFreeable_idle [OF ok d e] by auto
  next
    case False
    then have usage: "usage = DEFERRED_DEALLOCATION" using u by (cases usage) auto
    let ?i = "StorageList (osContextId e) DEFERRED_DEALLOCATION"
    have s: "sweepWorldList (storageFreeable (osContextId e) waited) ?i w = Some w'"
      using c usage by (simp add: cleanAllocationList_def freeAllocationsList_def)
    have "idleOn es (allocAt w k)" if "k \<in> set (A ?i)" "storageFreeable (osContextId e) waited (allocAt w k)" for k
      using only_context_idle [OF _ e d, of "allocAt w k"] inv that by (auto simp: lifeInv_def storageFreeable_def)
    then show ?thesis using sweep_keeps [OF inv s] by auto
  qed
qed

lemma deferred_keeps:
  assumes inv: "lifeInv m A \<lparr>lifeWorld = w, lifeEngines = es, lifeOwned = own\<rparr>" and q: "deletionQueue w = n # q"
    and a: "applyDeletion es n (w\<lparr>deletionQueue := q\<rparr>) = Some (released, w')"
  shows "lifeInv m A \<lparr>lifeWorld = (if released then w' else w'\<lparr>deletionQueue := deletionQueue w' @ [n]\<rparr>), lifeEngines = es, lifeOwned = own\<rparr> \<and>
    (\<forall>k \<in> set (freedAllocations w') - set (freedAllocations w). idleOn es (allocAt w k))"
proof -
  let ?a = "allocAt w n" and ?w = "w\<lparr>deletionQueue := q\<rparr>"
  let ?es = "getRegisteredEngines (gfxRootDevice ?a) es"
  have al: "allocAt ?w = allocAt w" by (simp add: allocAt_def fun_eq_iff)
  have ok: "usageOk m ?a" and d: "distinct (map osContextId es)" using inv by (simp_all add: lifeInv_def)
  have held: "set (heldNodes w own) = set (own @ q @ freedAllocations w) \<union> {n}" "distinct (own @ q @ [n] @ freedAllocations w)"
    using inv q by (auto simp: lifeInv_def heldNodes_def)
  have out: "n \<notin> set (A i)" for i using inv held by (auto simp: lifeInv_def)
  obtain a' where l: "applyLoop ?es ?a False = Some (a', \<exists>e \<in> set ?es. isUsedByOsContext (osContextId e) ?a \<and>
        \<not> testTaskCountReady e (getTaskCount (osContextId e) ?a))" "usageOk m a'"
    using applyLoop_result [OF registered_distinct [OF d] ok, of "gfxRootDevice ?a" False] by auto
  have cases: "(released \<and> idleOn es ?a \<and> w' = freeGraphicsMemory n ?w) \<or>
      (released \<and> idleOn es ?a \<and> w' = freeGraphicsMemory n (setAlloc n a' ?w)) \<or> (\<not> released \<and> w' = setAlloc n a' ?w)"
  proof (cases "isUsed ?a")
    case False
    then show ?thesis using a al unused_idle [OF ok False, of es] by (simp add: applyDeletion_def)
  next
    case True
    have "idleOn es ?a" if "\<not> (\<exists>e \<in> set ?es. isUsedByOsContext (osContextId e) ?a \<and> \<not> testTaskCountReady e (getTaskCount (osContextId e) ?a))"
      using that ready_not_busy by (auto simp: idleOn_def busyOn_def)
    then show ?thesis using a al True l(1) by (auto simp: applyDeletion_def Let_def split: if_splits)
  qed
  have keep: "lifeInv m A \<lparr>lifeWorld = v, lifeEngines = es, lifeOwned = own\<rparr>"
    if "worldLists v = worldLists w" "storeLinks (worldStore v) = storeLinks (worldStore w)"
      "distinct (heldNodes v own)" "set (heldNodes v own) = set (heldNodes w own)"
      "allocAt v = allocAt w \<or> allocAt v = (allocAt w)(n := a')" for v
  proof -
    have "allocAt v k = allocAt w k" if "k \<in> set (A i)" for k i using that \<open>allocAt v = _ \<or> _\<close> out [of i] by auto
    moreover have "usageOk m (allocAt v k)" for k using \<open>allocAt v = _ \<or> _\<close> inv l(2) by (auto simp: lifeInv_def)
    ultimately show ?thesis using inv that(1-4) by (simp add: lifeInv_def) metis
  qed
  have freed: "freedAllocations ?w = freedAllocations w" by simp
  from cases show ?thesis
  proof (elim disjE conjE)
    assume c: "released" "idleOn es ?a" "w' = freeGraphicsMemory n ?w"
    have "lifeInv m A \<lparr>lifeWorld = w', lifeEngines = es, lifeOwned = own\<rparr>"
      by (rule keep) (use c(3) held al in \<open>auto simp: heldNodes_def\<close>)
    then show ?thesis using c by auto
  next
    assume c: "released" "idleOn es ?a" "w' = freeGraphicsMemory n (setAlloc n a' ?w)"
    have "lifeInv m A \<lparr>lifeWorld = w', lifeEngines = es, lifeOwned = own\<rparr>"
      by (rule keep) (use c(3) held al in \<open>auto simp: heldNodes_def\<close>)
    then show ?thesis using c by auto
  next
    assume c: "\<not> released" "w' = setAlloc n a' ?w"
    have "lifeInv m A \<lparr>lifeWorld = w'\<lparr>deletionQueue := deletionQueue w' @ [n]\<rparr>, lifeEngines = es, lifeOwned = own\<rparr>"
      by (rule keep) (use c(2) held al in \<open>auto simp: heldNodes_def allocAt_def setAlloc_def fun_eq_iff\<close>)
    then show ?thesis using c by auto
  qed
qed

lemma step_keeps:
  assumes "lifeStep x ev y" "lifeInv m A x"
  shows "(\<exists>A'. lifeInv m A' y) \<and>
    (\<forall>n \<in> set (freedAllocations (lifeWorld y)) - set (freedAllocations (lifeWorld x)). idleOn (lifeEngines x) (allocAt (lifeWorld x) n))"
  using assms
proof cases
  case (LifeGpu es es' w own)
  have ids: "map osContextId es' = map osContextId es" using LifeGpu(4) by (induction rule: list_all2_induct) (auto simp: advances_def)
  have "\<forall>c \<in> set (map osContextId es). c < m" using assms(2) LifeGpu(1) by (simp add: lifeInv_def)
  then have "\<forall>e \<in> set es'. osContextId e < m" unfolding ids [symmetric] by simp
  then have "lifeInv m A y" using assms(2) ids unfolding LifeGpu(1,3) lifeInv_def by simp
  then show ?thesis using LifeGpu by auto
next
  case (LifeSubmit n own t c w a es)
  have ok: "usageOk m a" by (rule usageOk_update [OF _ LifeSubmit(5)]) (use assms(2) LifeSubmit in \<open>simp add: lifeInv_def\<close>)
  have "\<And>i. n \<notin> set (A i)" using assms(2) LifeSubmit by (auto simp: lifeInv_def heldNodes_def)
  then have "lifeInv m A y" using LifeSubmit assms(2) ok by (auto simp: lifeInv_def heldNodes_def)
  then show ?thesis using LifeSubmit by auto
next
  case (LifeDestroy n own recycling es w w')
  then show ?thesis using destroy_keeps [of m A w es own n recycling w'] assms(2) by simp
next
  case (LifeStoreTemporary n own c t w w' es)
  then show ?thesis using push_keeps [of m A w es own n ManagerTemporary t c w'] assms(2) by (auto simp: storeTemporaryAllocation_def)
next
  case (LifeObtainTemporary e es sz p type w n w' own)
  then show ?thesis using obtain_keeps [of m A w es own e sz p type n w'] assms(2) by auto
next
  case (LifeClean e es t waited usage w w' own)
  then show ?thesis using clean_keeps [of m A w es own e t waited usage w'] assms(2) by auto
next
  case (LifeDeferred w n q es released w' own)
  then show ?thesis using deferred_keeps [of m A w es own n q released w'] assms(2) by auto
qed

section \<open>Properties of histories\<close>

definition freshAllocation :: "nat \<Rightarrow> GfxAllocation \<Rightarrow> bool" where
  "freshAllocation contexts a \<longleftrightarrow> usageInfos a = replicate contexts objectNotUsed \<and> registeredContextsNum a = 0"

definition lifeStart :: "Engine list \<Rightarrow> (node \<Rightarrow> GfxAllocation) \<Rightarrow> Links \<Rightarrow> node list \<Rightarrow> Lifetime" where
  "lifeStart es as s own =
     \<lparr>lifeWorld = \<lparr>worldStore = \<lparr>storeLinks = s, allocOf = as\<rparr>, worldLists = (\<lambda>_. newIDList), freedAllocations = [], deletionQueue = []\<rparr>,
      lifeEngines = es, lifeOwned = own\<rparr>"

lemma fresh_usageOk: "freshAllocation m a \<Longrightarrow> m < 2 ^ 32 \<Longrightarrow> usageOk m a"
  by (simp add: freshAllocation_def usageOk_def)

lemma lifeStart_inv:
  assumes "distinct (map osContextId es)" "\<forall>e \<in> set es. osContextId e < m" "m < 2 ^ 32" "distinct own" "\<forall>n. freshAllocation m (as n)"
  shows "lifeInv m (\<lambda>_. []) (lifeStart es as s own)"
  using assms by (simp add: lifeInv_def lifeStart_def il.family_def new_represents heldNodes_def allocAt_def fresh_usageOk)

text \<open>
  A history with the tasks it gave to the GPU. The task counts that a context gets for an allocation grow; a count from
  \<open>notReady\<close> on marks an allocation and is no task.
\<close>

inductive lifeHistory :: "Lifetime \<Rightarrow> Task set \<Rightarrow> Lifetime \<Rightarrow> bool" where
  HistoryStart: "lifeHistory x {} x"
| HistoryQuiet: "lifeHistory x T y \<Longrightarrow> lifeStep y None z \<Longrightarrow> lifeHistory x T z"
| HistoryTask: "lifeHistory x T y \<Longrightarrow> lifeStep y (Some (n, c, t)) z \<Longrightarrow> \<forall>u. (n, c, u) \<in> T \<longrightarrow> u \<le> t \<and> t \<noteq> objectNotUsed \<Longrightarrow>
    lifeHistory x (if t < notReady then insert (n, c, t) T else T) z"

text \<open>The engine of a context has completed a task, as the value at its tag address shows.\<close>

definition completed :: "Engine list \<Rightarrow> GfxAllocation \<Rightarrow> nat \<Rightarrow> u64 \<Rightarrow> bool" where
  "completed es a c t \<longleftrightarrow>
     (\<forall>e \<in> set es. \<forall>v. osContextId e = c \<and> engineRootDevice e = gfxRootDevice a \<and> tagValue e = Some v \<longrightarrow> t \<le> v)"

definition recorded :: "GfxAllocation \<Rightarrow> nat \<Rightarrow> u64 \<Rightarrow> bool" where
  "recorded a c t \<longleftrightarrow> isUsedByOsContext c a \<and> t \<le> getTaskCount c a"

definition tasksHeld :: "Task set \<Rightarrow> Lifetime \<Rightarrow> bool" where
  "tasksHeld T x \<longleftrightarrow> (\<forall>n c t. (n, c, t) \<in> T \<longrightarrow> t < notReady \<and>
     (completed (lifeEngines x) (allocAt (lifeWorld x) n) c t \<or>
      n \<notin> set (freedAllocations (lifeWorld x)) \<and> recorded (allocAt (lifeWorld x) n) c t))"

lemma idle_completed: "idleOn es a \<Longrightarrow> recorded a c t \<Longrightarrow> completed es a c t"
  by (fastforce simp: idleOn_def busyOn_def getRegisteredEngines_def recorded_def completed_def)

lemma tagValue_grows: "advances e e' \<Longrightarrow> tagValue e' = Some v' \<Longrightarrow> \<exists>v. tagValue e = Some v \<and> v \<le> v'"
  by (auto simp: advances_def tagValue_def list_all2_Cons2 split: option.splits list.splits)

lemma completed_grows:
  assumes "list_all2 advances es es'" "completed es a c t"
  shows "completed es' a c t"
  unfolding completed_def
proof (intro ballI allI impI)
  fix e' v assume e': "e' \<in> set es'" and v: "osContextId e' = c \<and> engineRootDevice e' = gfxRootDevice a \<and> tagValue e' = Some v"
  then obtain e where e: "e \<in> set es" "advances e e'" using assms(1) unfolding list_all2_conv_all_nth by (metis in_set_conv_nth)
  obtain u where u: "tagValue e = Some u" "u \<le> v" using tagValue_grows [OF e(2)] v by blast
  have "t \<le> u" using assms(2) e u(1) v by (auto simp: completed_def advances_def)
  then show "t \<le> v" using u(2) by simp
qed

lemma step_completed:
  assumes "lifeStep x ev y" "gfxRootDevice b = gfxRootDevice a" "completed (lifeEngines x) a c t"
  shows "completed (lifeEngines y) b c t"
proof -
  have "list_all2 advances (lifeEngines x) (lifeEngines y) \<or> lifeEngines y = lifeEngines x"
    using assms(1) by cases auto
  then have "completed (lifeEngines y) a c t" using assms(3) completed_grows by auto
  then show ?thesis using assms(2) by (simp add: completed_def)
qed

lemma ready_completed:
  assumes "distinct (map osContextId es)" "e \<in> set es" "testTaskCountReady e t"
  shows "completed es a (osContextId e) t"
  unfolding completed_def
proof (intro ballI allI impI)
  fix e' v assume "e' \<in> set es" "osContextId e' = osContextId e \<and> engineRootDevice e' = gfxRootDevice a \<and> tagValue e' = Some v"
  then have "tagValue e = Some v" using assms(1,2) by (metis distinct_map inj_onD)
  then show "t \<le> v" using assms(3) by (auto simp: tagValue_def testTaskCountReady_def split: option.splits list.splits)
qed

text \<open>The deferred deletion forgets a task only when every tile has completed it.\<close>

lemma applyLoop_releases:
  "applyLoop es a s = Some (a', s') \<Longrightarrow>
   gfxRootDevice a' = gfxRootDevice a \<and>
   (getTaskCount c a' = getTaskCount c a \<or> (\<exists>e \<in> set es. osContextId e = c \<and> testTaskCountReady e (getTaskCount c a)))"
proof (induction es arbitrary: a s)
  case (Cons e es)
  show ?case
  proof (cases "isUsedByOsContext (osContextId e) a \<and> testTaskCountReady e (getTaskCount (osContextId e) a)")
    case True
    then obtain b where b: "releaseUsageInOsContext (osContextId e) a = Some b" "applyLoop es b s = Some (a', s')"
      using Cons.prems by (auto split: option.splits)
    have "gfxRootDevice b = gfxRootDevice a" "c = osContextId e \<or> getTaskCount c b = getTaskCount c a"
      using update_fields [OF b(1) [unfolded releaseUsageInOsContext_def]] by auto
    then show ?thesis using Cons.IH [OF b(2)] True by auto
  next
    case False
    then obtain s'' where "applyLoop es a s'' = Some (a', s')" using Cons.prems by (auto split: if_splits)
    from Cons.IH [OF this] show ?thesis by auto
  qed
qed simp

text \<open>How a step changes the task counts of the allocations.\<close>

definition countsFollow :: "Engine list \<Rightarrow> Task option \<Rightarrow> (node \<Rightarrow> GfxAllocation) \<Rightarrow> (node \<Rightarrow> GfxAllocation) \<Rightarrow> bool" where
  "countsFollow es ev f g \<longleftrightarrow> (\<forall>n. gfxRootDevice (g n) = gfxRootDevice (f n) \<and>
     (\<forall>c. getTaskCount c (g n) = getTaskCount c (f n) \<or> ev = Some (n, c, getTaskCount c (g n)) \<or> getTaskCount c (g n) = notReady \<or>
        (\<exists>e \<in> set es. osContextId e = c \<and> testTaskCountReady e (getTaskCount c (f n)))))"

lemma countsFollow_refl: "countsFollow es ev f f"
  by (simp add: countsFollow_def)

lemma countsFollow_update:
  assumes "updateTaskCount t c (f n) = Some a" "ev = Some (n, c, t) \<or> t = notReady \<or> t = getTaskCount c (f n)"
  shows "countsFollow es ev f (f(n := a))"
  using update_fields [OF assms(1)] assms(2) by (auto simp: countsFollow_def)

lemma pushUpdated_follows:
  assumes "pushUpdated i n t c w = Some w'" "ev = Some (n, c, t) \<or> t = getTaskCount c (allocAt w n)"
  shows "countsFollow es ev (allocAt w) (allocAt w')"
proof -
  obtain a where a: "updateTaskCount t c (allocAt w n) = Some a" "allocAt w' = (allocAt w)(n := a)"
    using assms(1) by (auto simp: pushUpdated_def Let_def split: option.splits)
  have "ev = Some (n, c, t) \<or> t = notReady \<or> t = getTaskCount c (allocAt w n)" using assms(2) by blast
  from countsFollow_update [where f = "allocAt w", OF a(1) this] show ?thesis unfolding a(2) .
qed

lemma destroy_follows:
  assumes "destroyOrDefer True recycling es n w = Some w'"
  shows "countsFollow es' ev (allocAt w) (allocAt w')"
proof -
  have "w' = freeGraphicsMemory n w \<or> w' = w\<lparr>deletionQueue := deletionQueue w @ [n]\<rparr> \<or>
      (\<exists>i c. pushUpdated i n (getTaskCount c (allocAt w n)) c w = Some w')"
    using assms by (auto simp: destroyOrDefer_def storeAllocation_def storeAllocationWithTaskCount_def Let_def split: if_splits option.splits)
  moreover have "allocAt (w\<lparr>deletionQueue := deletionQueue w @ [n]\<rparr>) = allocAt w" by (simp add: allocAt_def fun_eq_iff)
  ultimately show ?thesis using pushUpdated_follows [of _ n _ _ w w' ev es'] countsFollow_refl [of es' ev "allocAt w"] by auto
qed

lemma deferred_follows:
  assumes "applyDeletion es n w = Some (released, w')"
  shows "countsFollow es ev (allocAt w) (allocAt w')"
proof (cases "isUsed (allocAt w n)")
  case False
  then show ?thesis using assms by (auto simp: applyDeletion_def countsFollow_refl)
next
  case True
  let ?es = "getRegisteredEngines (gfxRootDevice (allocAt w n)) es"
  obtain a s where a: "applyLoop ?es (allocAt w n) False = Some (a, s)" "allocAt w' = (allocAt w)(n := a)"
    using assms True by (auto simp: applyDeletion_def Let_def split: option.splits if_splits)
  show ?thesis using applyLoop_releases [OF a(1)] unfolding a(2)
    by (fastforce simp: countsFollow_def getRegisteredEngines_def)
qed

lemma step_follows:
  assumes "lifeStep x ev y" "lifeInv m A x"
  shows "countsFollow (lifeEngines x) ev (allocAt (lifeWorld x)) (allocAt (lifeWorld y))"
  using assms(1)
proof cases
  case (LifeGpu es es' w own)
  then show ?thesis by (simp add: countsFollow_refl)
next
  case (LifeSubmit n own t c w a es)
  then show ?thesis using countsFollow_update [of t c "allocAt w" n a ev es] by simp
next
  case (LifeDestroy n own recycling es w w')
  then show ?thesis using destroy_follows by simp
next
  case (LifeStoreTemporary n own c t w w' es)
  then show ?thesis using pushUpdated_follows by (simp add: storeTemporaryAllocation_def)
next
  case (LifeObtainTemporary e es sz p type w n w' own)
  have f: "worldHolds w A" using assms(2) LifeObtainTemporary(1) by (simp add: lifeInv_def)
  have c: "osContextId e < length (usageInfos (allocAt w k))" for k
    using assms(2) LifeObtainTemporary(1,4) by (simp add: lifeInv_def usageOk_def)
  obtain a where a: "allocAt w' = (allocAt w)(n := a)" "a = allocAt w n \<or> updateTaskCount notReady (osContextId e) (allocAt w n) = Some a"
    using detachFrom_result [OF f c, of ManagerTemporary TEMPORARY_ALLOCATION sz p type n w'] LifeObtainTemporary(5)
    by (auto simp: obtainTemporaryAllocationWithPtr_def)
  have "countsFollow es ev (allocAt w) ((allocAt w)(n := a))"
    using a(2)
  proof
    assume "a = allocAt w n"
    then show ?thesis by (simp add: countsFollow_refl)
  next
    assume "updateTaskCount notReady (osContextId e) (allocAt w n) = Some a"
    then show ?thesis by (rule countsFollow_update) simp
  qed
  then show ?thesis using LifeObtainTemporary a(1) by simp
next
  case (LifeClean e es t waited usage w w' own)
  have f: "worldHolds w A" using assms(2) LifeClean(1) by (simp add: lifeInv_def)
  have "allocAt w' = allocAt w"
    using LifeClean(8) sweepWorldList_result [OF f]
    by (auto simp: cleanAllocationList_def freeAllocationsList_def cleanTemporaryAllocations_def split: if_splits) (metis option.inject)+
  then show ?thesis using LifeClean by (simp add: countsFollow_refl)
next
  case (LifeDeferred w n q es released w' own)
  have same: "allocAt (v\<lparr>deletionQueue := r\<rparr>) = allocAt v" for v r by (simp add: allocAt_def fun_eq_iff)
  then show ?thesis using deferred_follows [OF LifeDeferred(5), of ev] LifeDeferred by simp
qed

lemma step_tasks:
  assumes st: "lifeStep x ev y" and inv: "lifeInv m A x" and T: "tasksHeld T x"
    and ev: "\<And>n c t u. ev = Some (n, c, t) \<Longrightarrow> (n, c, u) \<in> T \<Longrightarrow> u \<le> t \<and> t \<noteq> objectNotUsed"
  shows "tasksHeld T y"
  unfolding tasksHeld_def
proof (intro allI impI)
  fix n c t assume n: "(n, c, t) \<in> T"
  let ?a = "allocAt (lifeWorld x) n" and ?b = "allocAt (lifeWorld y) n"
  have small: "t < notReady" using T n by (simp add: tasksHeld_def)
  have follow: "gfxRootDevice ?b = gfxRootDevice ?a" "getTaskCount c ?b = getTaskCount c ?a \<or> ev = Some (n, c, getTaskCount c ?b) \<or>
      getTaskCount c ?b = notReady \<or> (\<exists>e \<in> set (lifeEngines x). osContextId e = c \<and> testTaskCountReady e (getTaskCount c ?a))"
    using step_follows [OF st inv] by (auto simp: countsFollow_def)
  note later = step_completed [OF st follow(1)]
  have idle: "n \<in> set (freedAllocations (lifeWorld y)) - set (freedAllocations (lifeWorld x)) \<Longrightarrow> idleOn (lifeEngines x) ?a"
    using step_keeps [OF st inv] by blast
  have ids: "distinct (map osContextId (lifeEngines x))" using inv by (simp add: lifeInv_def)
  have "completed (lifeEngines y) ?b c t \<or> n \<notin> set (freedAllocations (lifeWorld y)) \<and> recorded ?b c t"
  proof (cases "completed (lifeEngines x) ?a c t")
    case True
    then show ?thesis using later by blast
  next
    case False
    then have r: "recorded ?a c t" and nx: "n \<notin> set (freedAllocations (lifeWorld x))" using T n by (auto simp: tasksHeld_def)
    have ny: "n \<notin> set (freedAllocations (lifeWorld y))" using idle nx idle_completed [OF _ r] False by blast
    have "\<not> testTaskCountReady e (getTaskCount c ?a)" if "e \<in> set (lifeEngines x)" "osContextId e = c" for e
    proof
      assume "testTaskCountReady e (getTaskCount c ?a)"
      then have "completed (lifeEngines x) ?a c (getTaskCount c ?a)" using ready_completed [OF ids that(1)] that(2) by blast
      then have "completed (lifeEngines x) ?a c t" using r order_trans by (fastforce simp: completed_def recorded_def)
      then show False using False by simp
    qed
    then have "recorded ?b c t" using follow(2) r ev [OF _ n] small by (auto simp: recorded_def isUsedByOsContext_def notReady_def objectNotUsed_def)
    then show ?thesis using ny by simp
  qed
  then show "t < notReady \<and> (completed (lifeEngines y) ?b c t \<or> n \<notin> set (freedAllocations (lifeWorld y)) \<and> recorded ?b c t)"
    using small by simp
qed

lemma tasks_used: "\<not> objectNotUsed < notReady"
  by (simp add: notReady_def objectNotUsed_def)

lemma task_recorded:
  assumes "lifeStep x (Some (n, c, t)) y" "lifeInv m A x"
  shows "n \<notin> set (freedAllocations (lifeWorld y)) \<and> getTaskCount c (allocAt (lifeWorld y) n) = t"
  using assms(1)
proof cases
  case (LifeSubmit own w a es)
  then show ?thesis using assms(2) update_fields(2) [OF LifeSubmit(4), of c] by (auto simp: lifeInv_def heldNodes_def)
next
  case (LifeStoreTemporary own w w' es)
  have "\<And>j. n \<notin> set (A j)" "n \<notin> set (freedAllocations w)" "worldHolds w A"
    using assms(2) LifeStoreTemporary(1,3) by (auto simp: lifeInv_def heldNodes_def)
  note r = pushUpdated_result [OF this(3,1) LifeStoreTemporary(4) [unfolded storeTemporaryAllocation_def]]
  obtain a where "updateTaskCount t c (allocAt w n) = Some a" "allocAt w' = (allocAt w)(n := a)" using r(4) by blast
  then show ?thesis using update_fields(2) [of t c "allocAt w n" a c] r(2) \<open>n \<notin> set (freedAllocations w)\<close> LifeStoreTemporary(2) by simp
qed

lemma lifeHistory_inv:
  assumes "lifeHistory x T y" "lifeInv m A x"
  shows "(\<exists>A'. lifeInv m A' y) \<and> tasksHeld T y"
  using assms
proof (induction rule: lifeHistory.induct)
  case (HistoryStart x)
  then show ?case by (auto simp: tasksHeld_def)
next
  case (HistoryQuiet x T y z)
  then obtain A' where y: "lifeInv m A' y" "tasksHeld T y" by blast
  show ?case using step_keeps [OF HistoryQuiet(2) y(1)] step_tasks [OF HistoryQuiet(2) y] by auto
next
  case (HistoryTask x T y n c t z)
  then obtain A' where y: "lifeInv m A' y" "tasksHeld T y" by blast
  have T: "tasksHeld T z" using step_tasks [OF HistoryTask(2) y] HistoryTask(3) by auto
  have "t < notReady \<Longrightarrow> recorded (allocAt (lifeWorld z) n) c t"
    using task_recorded [OF HistoryTask(2) y(1)] tasks_used by (auto simp: recorded_def isUsedByOsContext_def)
  then have "t < notReady \<Longrightarrow> tasksHeld (insert (n, c, t) T) z"
    using T task_recorded [OF HistoryTask(2) y(1)] by (auto simp: tasksHeld_def)
  then show ?case using step_keeps [OF HistoryTask(2) y(1)] T by auto
qed

lemma lifeHistory_root:
  assumes "lifeHistory x T y" "lifeInv m A x"
  shows "gfxRootDevice (allocAt (lifeWorld y) n) = gfxRootDevice (allocAt (lifeWorld x) n)"
  using assms
proof (induction rule: lifeHistory.induct)
  case (HistoryQuiet x T y z)
  obtain A' where "lifeInv m A' y" using lifeHistory_inv [OF HistoryQuiet(1,4)] by blast
  then show ?case using step_follows [OF HistoryQuiet(2)] HistoryQuiet(3,4) by (auto simp: countsFollow_def)
next
  case (HistoryTask x T y k c t z)
  obtain A' where "lifeInv m A' y" using lifeHistory_inv [OF HistoryTask(1,5)] by blast
  then show ?case using step_follows [OF HistoryTask(2)] HistoryTask(4,5) by (auto simp: countsFollow_def)
qed simp

text \<open>
  C4: memory is freed once, and only when the GPU is done with it. In any history in which the application submits
  tasks with allocations it owns, destroys them, hands them over as temporary allocations and takes these back,
  while the lists of temporary and deferred allocations are cleaned for task counts the tags have reached and queued deletions
  are tried, every task that a freed allocation was ever given is completed: the value at the tag address of the
  engine of its context, the tag of the first tile, has reached its task count. The tasks are collected by the history, apart from the
  usage the allocation records, which the deferred deletion forgets engine by engine. The task counts a
  context gets for an allocation grow. No allocation is freed twice, and none is owned or queued after it was freed. The tags of
  further tiles are not covered: see \<open>second_tile_not_awaited\<close>. The lists of reusable allocations and the release of all lists
  when the device goes are not part of the histories.
\<close>

theorem freed_allocations_idle:
  assumes "distinct (map osContextId es)" "\<forall>e \<in> set es. osContextId e < m" "m < 2 ^ 32" "distinct own" "\<forall>n. freshAllocation m (as n)"
    and r: "lifeHistory (lifeStart es as s own) T x" and n: "n \<in> set (freedAllocations (lifeWorld x))"
  shows "(\<forall>e v t. e \<in> set (lifeEngines x) \<and> engineRootDevice e = gfxRootDevice (as n) \<and> tagValue e = Some v \<and>
      (n, osContextId e, t) \<in> T \<longrightarrow> t \<le> v) \<and>
    distinct (freedAllocations (lifeWorld x)) \<and> n \<notin> set (lifeOwned x) \<and> n \<notin> set (deletionQueue (lifeWorld x))"
proof -
  note start = lifeStart_inv [OF assms(1-5)]
  obtain A where "lifeInv m A x" "tasksHeld T x" using lifeHistory_inv [OF r start] by blast
  moreover have "gfxRootDevice (allocAt (lifeWorld x) n) = gfxRootDevice (as n)"
    using lifeHistory_root [OF r start, of n] by (simp add: lifeStart_def allocAt_def)
  ultimately have "completed (lifeEngines x) (as n) c t" if "(n, c, t) \<in> T" for c t
    using that n unfolding tasksHeld_def completed_def by metis
  then show ?thesis using n \<open>lifeInv m A x\<close> by (auto simp: lifeInv_def heldNodes_def completed_def)
qed

text \<open>
  A buffer used by two engines: it is destroyed while both are busy with it, the first try of the deferred deletion
  forgets the engine that is done and keeps the buffer, and the second frees it after the other engine has completed its task.
\<close>

definition sharedFresh :: GfxAllocation where
  "sharedFresh = (sampleBuffer 5)\<lparr>usageInfos := [objectNotUsed, objectNotUsed], registeredContextsNum := 0\<rparr>"

definition sharedEngines :: "u64 \<Rightarrow> Engine list" where
  "sharedEngines tag =
     [\<lparr>osContextId = 0, engineTags = Some [5], peekTaskCount = 5, engineRootDevice = 0, engineDeviceBitfield = 1\<rparr>,
      \<lparr>osContextId = 1, engineTags = Some [tag], peekTaskCount = 7, engineRootDevice = 0, engineDeviceBitfield = 1\<rparr>]"

definition sampleLinks :: Links where
  "sampleLinks = \<lparr>nextOf = (\<lambda>_. None), prevOf = (\<lambda>_. None), deletedNodes = []\<rparr>"

definition sharedLife :: "u64 \<Rightarrow> u64 list \<Rightarrow> u32 \<Rightarrow> node list \<Rightarrow> node list \<Rightarrow> node list \<Rightarrow> Lifetime" where
  "sharedLife tag usage count q freed own =
     \<lparr>lifeWorld = \<lparr>worldStore = \<lparr>storeLinks = sampleLinks,
          allocOf = (\<lambda>_. sharedFresh)(1 := sharedFresh\<lparr>usageInfos := usage, registeredContextsNum := count\<rparr>)\<rparr>,
        worldLists = (\<lambda>_. newIDList), freedAllocations = freed, deletionQueue = q\<rparr>,
      lifeEngines = sharedEngines tag, lifeOwned = own\<rparr>"

lemma shared_start: "lifeStart (sharedEngines 3) (\<lambda>_. sharedFresh) sampleLinks [1] = sharedLife 3 [objectNotUsed, objectNotUsed] 0 [] [] [1]"
  by (simp add: lifeStart_def sharedLife_def sharedFresh_def fun_eq_iff)

lemma shared_submit:
  assumes "updateTaskCount t c (sharedFresh\<lparr>usageInfos := u, registeredContextsNum := k\<rparr>) = Some (sharedFresh\<lparr>usageInfos := u', registeredContextsNum := k'\<rparr>)"
  shows "lifeStep (sharedLife v u k [] [] [1]) (Some (1, c, t)) (sharedLife v u' k' [] [] [1])"
  using LifeSubmit [of 1 "[1]" t c "lifeWorld (sharedLife v u k [] [] [1])" _ "sharedEngines v"] assms
  by (simp add: sharedLife_def allocAt_def setAlloc_def)

lemma shared_destroy: "lifeStep (sharedLife 3 [5, 7] 2 [] [] [1]) None (sharedLife 3 [5, 7] 2 [1] [] [])"
  using LifeDestroy [of 1 "[1]" False "sharedEngines 3" "lifeWorld (sharedLife 3 [5, 7] 2 [] [] [1])" "lifeWorld (sharedLife 3 [5, 7] 2 [1] [] [])"]
  by (simp add: sharedLife_def destroyOrDefer_def allocAt_def isUsed_def isUsedByManyOsContexts_def)

lemma shared_apply:
  "lifeStep (sharedLife 3 [5, 7] 2 [1] [] []) None (sharedLife 3 [objectNotUsed, 7] 1 [1] [] [])"
  "lifeStep (sharedLife 7 [objectNotUsed, 7] 1 [1] [] []) None (sharedLife 7 [objectNotUsed, objectNotUsed] 0 [] [1] [])"
proof -
  note defs = sharedLife_def sharedFresh_def sampleBuffer_def sharedEngines_def applyDeletion_def allocAt_def isUsed_def getRegisteredEngines_def
    isUsedByOsContext_def getTaskCount_def testTaskCountReady_def releaseUsageInOsContext_def updateTaskCount_def objectNotUsed_def
    setAlloc_def freeGraphicsMemory_def
  show "lifeStep (sharedLife 3 [5, 7] 2 [1] [] []) None (sharedLife 3 [objectNotUsed, 7] 1 [1] [] [])"
    using LifeDeferred [of "lifeWorld (sharedLife 3 [5, 7] 2 [1] [] [])" 1 "[]" "sharedEngines 3" False
      "lifeWorld (sharedLife 3 [objectNotUsed, 7] 1 [] [] [])" "[]"] by (simp add: defs)
  show "lifeStep (sharedLife 7 [objectNotUsed, 7] 1 [1] [] []) None (sharedLife 7 [objectNotUsed, objectNotUsed] 0 [] [1] [])"
    using LifeDeferred [of "lifeWorld (sharedLife 7 [objectNotUsed, 7] 1 [1] [] [])" 1 "[]" "sharedEngines 7" True
      "lifeWorld (sharedLife 7 [objectNotUsed, objectNotUsed] 0 [] [1] [])" "[]"] by (simp add: defs)
qed

lemma shared_gpu: "lifeStep (sharedLife 3 u k q f own) None (sharedLife 7 u k q f own)"
  using LifeGpu [of "sharedEngines 3" "sharedEngines 7" "lifeWorld (sharedLife 3 u k q f own)" own]
  by (simp add: sharedLife_def sharedEngines_def advances_def)

lemma lifeHistory_task:
  assumes "lifeHistory x T y" "lifeStep y (Some (n, c, t)) z" "\<forall>u. (n, c, u) \<in> T \<longrightarrow> u \<le> t" "t < notReady"
  shows "lifeHistory x (insert (n, c, t) T) z"
  using HistoryTask [OF assms(1,2)] assms(3,4) tasks_used by auto

lemma shared_history:
  "lifeHistory (lifeStart (sharedEngines 3) (\<lambda>_. sharedFresh) sampleLinks [1]) {(1, 1, 7), (1, 0, 5)}
     (sharedLife 7 [objectNotUsed, objectNotUsed] 0 [] [1] [])"
proof -
  let ?x = "lifeStart (sharedEngines 3) (\<lambda>_. sharedFresh) sampleLinks [1]"
  have small: "5 < notReady" "7 < notReady" by (simp_all add: notReady_def)
  have s: "lifeStep (sharedLife 3 [objectNotUsed, objectNotUsed] 0 [] [] [1]) (Some (1, 0, 5)) (sharedLife 3 [5, objectNotUsed] 1 [] [] [1])"
    "lifeStep (sharedLife 3 [5, objectNotUsed] 1 [] [] [1]) (Some (1, 1, 7)) (sharedLife 3 [5, 7] 2 [] [] [1])"
    by (rule shared_submit, simp add: updateTaskCount_def objectNotUsed_def)+
  have "lifeHistory ?x {(1, 0, 5)} (sharedLife 3 [5, objectNotUsed] 1 [] [] [1])"
    using lifeHistory_task [OF HistoryStart [of ?x] s(1) [folded shared_start]] small(1) by simp
  from lifeHistory_task [OF this s(2)] have "lifeHistory ?x {(1, 1, 7), (1, 0, 5)} (sharedLife 3 [5, 7] 2 [] [] [1])"
    using small(2) by simp
  from HistoryQuiet [OF HistoryQuiet [OF HistoryQuiet [OF HistoryQuiet [OF this shared_destroy] shared_apply(1)] shared_gpu] shared_apply(2)]
  show ?thesis .
qed

lemma freed_allocations_idle_witness:
  "\<exists>T x. lifeHistory (lifeStart (sharedEngines 3) (\<lambda>_. sharedFresh) sampleLinks [1]) T x \<and> (1, 0, 5) \<in> T \<and> (1, 1, 7) \<in> T \<and>
     freedAllocations (lifeWorld x) = [1] \<and>
     (\<forall>e v t. e \<in> set (lifeEngines x) \<and> tagValue e = Some v \<and> (1, osContextId e, t) \<in> T \<longrightarrow> t \<le> v)"
proof -
  have root: "\<forall>e \<in> set (sharedEngines v). engineRootDevice e = gfxRootDevice sharedFresh" for v
    by (simp add: sharedEngines_def sharedFresh_def sampleBuffer_def)
  have f: "\<forall>n. freshAllocation 2 ((\<lambda>_. sharedFresh) n)" by (simp add: freshAllocation_def sharedFresh_def numeral_2_eq_2)
  have ids: "distinct (map osContextId (sharedEngines 3))" "\<forall>e \<in> set (sharedEngines 3). osContextId e < 2" by (simp_all add: sharedEngines_def)
  have x: "freedAllocations (lifeWorld (sharedLife 7 u k q [1] own)) = [1]" "lifeEngines (sharedLife 7 u k q [1] own) = sharedEngines 7"
    for u k q own by (simp_all add: sharedLife_def)
  let ?T = "{(1, 1, 7), (1, 0, 5)}" and ?x = "sharedLife 7 [objectNotUsed, objectNotUsed] 0 [] [1] []"
  have "1 \<in> set (freedAllocations (lifeWorld ?x))" unfolding x by simp
  from freed_allocations_idle [OF ids _ _ f shared_history this]
  have "\<forall>e v t. e \<in> set (lifeEngines ?x) \<and> tagValue e = Some v \<and> (1, osContextId e, t) \<in> ?T \<longrightarrow> t \<le> v"
    unfolding x using root by simp blast
  then show ?thesis using shared_history x by blast
qed

text \<open>
  C36: \<open>checkGpuUsageAndDestroyGraphicsAllocations\<close> compares only the value at the tag address. Whenever one engine
  uses an allocation and its first tile has reached the recorded task count, the memory is freed at once, whatever the tags of
  the engine's further tiles are; while one of these has not reached the count, the tile still works with freed memory. The deferred deletion
  and the reuse of buffers look at every tile.
\<close>

theorem second_tile_not_awaited:
  assumes "usageOk m (allocAt w n)" "isUsedByOsContext (osContextId e) (allocAt w n)" "\<not> isUsedByManyOsContexts (allocAt w n)"
    and "distinct (map osContextId es)" "e \<in> set es" "engineRootDevice e = gfxRootDevice (allocAt w n)"
    and "engineTags e = Some (first # tiles)" "getTaskCount (osContextId e) (allocAt w n) \<le> first"
    and "tile \<in> set tiles" "tile < getTaskCount (osContextId e) (allocAt w n)"
  shows "destroyOrDefer singleList recycling es n w = Some (freeGraphicsMemory n w) \<and>
    \<not> testTaskCountReady e (getTaskCount (osContextId e) (allocAt w n))"
proof -
  let ?a = "allocAt w n"
  have "\<not> busyOn ?a e'" if "e' \<in> set es" for e'
  proof (cases "isUsedByOsContext (osContextId e') ?a")
    case True
    then have "e' = e" using single_context [OF assms(1,3,2)] that assms(4,5) by (metis distinct_map inj_onD)
    then show ?thesis using assms(7,8) by (auto simp: busyOn_def tagValue_def)
  qed (simp add: busyOn_def)
  then have "List.find (busyOn ?a) (getRegisteredEngines (gfxRootDevice ?a) es) = None"
    by (auto simp: find_None_iff getRegisteredEngines_def)
  then have "destroyOrDefer singleList recycling es n w = Some (freeGraphicsMemory n w)"
    using assms(3) by (simp add: destroyOrDefer_def Let_def)
  moreover have "\<not> testTaskCountReady e (getTaskCount (osContextId e) ?a)"
    using assms(7,9,10) by (auto simp: testTaskCountReady_def list_all_iff not_le)
  ultimately show ?thesis by simp
qed

lemma second_tile_not_awaited_witness:
  "destroyOrDefer True False [sampleEngine] 1 sampleWorld = Some (freeGraphicsMemory 1 sampleWorld) \<and> \<not> testTaskCountReady sampleEngine 5"
proof -
  have a: "allocAt sampleWorld 1 = sampleBuffer 5" by (simp add: allocAt_def sampleWorld_def Let_def)
  have "usageOk 1 (sampleBuffer 5)" "isUsedByOsContext (osContextId sampleEngine) (sampleBuffer 5)" "\<not> isUsedByManyOsContexts (sampleBuffer 5)"
    "engineRootDevice sampleEngine = gfxRootDevice (sampleBuffer 5)" "engineTags sampleEngine = Some [5, 3]"
    "getTaskCount (osContextId sampleEngine) (sampleBuffer 5) = 5"
    by (simp_all add: usageOk_def sampleBuffer_def isUsedByOsContext_def getTaskCount_def objectNotUsed_def sampleEngine_def isUsedByManyOsContexts_def)
  then show ?thesis using second_tile_not_awaited [of 1 sampleWorld 1 sampleEngine "[sampleEngine]" 5 "[3]" 3 True False]
    unfolding a by simp
qed

end
