(* ===== verification/Deferred_Deleter.thy ===== *)
theory Deferred_Deleter
  imports "HOL-Library.Multiset" Allocation_Lists
begin

text \<open>
  \<open>memory_manager/deferred_deleter.{h,cpp}\<close>: the queue of deletions that are tried until the GPU lets
  go of the memory, and \<open>checkGpuUsageAndDestroyGraphicsAllocations\<close>, which drains it. A deletion is tried by its virtual
  function \<open>apply\<close>, an argument of the operations: the moment of the try, the deletion and the state
  of the memory give whether the deletion is done. The loop does not end by itself; \<open>None\<close> stands for a
  call that does not return. The handshake of starting and stopping the thread is left out: the thread
  runs or it does not.
\<close>

section \<open>The deleter\<close>

record 'd DeferredDeleter =
  deletions :: "'d list"
  elementsToRelease :: int
  hostptrsToRelease :: int
  numClients :: int
  workerRuns :: bool

definition newDeferredDeleter :: "'d DeferredDeleter" where
  "newDeferredDeleter = \<lparr>deletions = [], elementsToRelease = 0, hostptrsToRelease = 0, numClients = 0, workerRuns = False\<rparr>"

definition deferDeletion :: "('d \<Rightarrow> bool) \<Rightarrow> 'd \<Rightarrow> 'd DeferredDeleter \<Rightarrow> 'd DeferredDeleter" where
  "deferDeletion isExternalHostptr x d =
     (let d = d\<lparr>elementsToRelease := elementsToRelease d + 1\<rparr>;
          d = (if isExternalHostptr x then d\<lparr>hostptrsToRelease := hostptrsToRelease d + 1\<rparr> else d)
      in d\<lparr>deletions := deletions d @ [x]\<rparr>)"

definition areElementsReleased :: "bool \<Rightarrow> 'd DeferredDeleter \<Rightarrow> bool" where
  "areElementsReleased hostptrsOnly d = (if hostptrsOnly then hostptrsToRelease d = 0 else elementsToRelease d = 0)"

text \<open>One round of the loop.\<close>

definition tryFront ::
  "(nat \<Rightarrow> 'd \<Rightarrow> 'w \<Rightarrow> (bool \<times> 'w) option) \<Rightarrow> ('d \<Rightarrow> bool) \<Rightarrow> bool \<Rightarrow> nat \<Rightarrow> 'd DeferredDeleter \<times> 'w \<Rightarrow>
   ('d DeferredDeleter \<times> 'w) option" where
  "tryFront applyOp isExternalHostptr hostptrsOnly t = (\<lambda>(d, w).
     case deletions d of
       [] \<Rightarrow> Some (d, w)
     | x # xs \<Rightarrow>
         let isDeletionHostptr = isExternalHostptr x; d = d\<lparr>deletions := xs\<rparr> in
         if \<not> hostptrsOnly \<or> isDeletionHostptr then
           (case applyOp t x w of
              None \<Rightarrow> None
            | Some (released, w) \<Rightarrow>
                if released then
                  let d = d\<lparr>elementsToRelease := elementsToRelease d - 1\<rparr>;
                      d = (if isDeletionHostptr then d\<lparr>hostptrsToRelease := hostptrsToRelease d - 1\<rparr> else d)
                  in Some (d, w)
                else Some (d\<lparr>deletions := xs @ [x]\<rparr>, w))
         else Some (d\<lparr>deletions := xs @ [x]\<rparr>, w))"

partial_function (option) clearQueue ::
  "(nat \<Rightarrow> 'd \<Rightarrow> 'w \<Rightarrow> (bool \<times> 'w) option) \<Rightarrow> ('d \<Rightarrow> bool) \<Rightarrow> bool \<Rightarrow> nat \<Rightarrow> 'd DeferredDeleter \<times> 'w \<Rightarrow>
   (nat \<times> 'd DeferredDeleter \<times> 'w) option" where
  "clearQueue applyOp isExternalHostptr hostptrsOnly t dw =
     (case tryFront applyOp isExternalHostptr hostptrsOnly t dw of
        None \<Rightarrow> None
      | Some dw \<Rightarrow>
          if (if hostptrsOnly then \<not> areElementsReleased hostptrsOnly (fst dw) else deletions (fst dw) \<noteq> [])
          then clearQueue applyOp isExternalHostptr hostptrsOnly (Suc t) dw
          else Some (Suc t, dw))"

text \<open>A blocking call then waits until everything is released; without another thread it waits for ever if not.\<close>

definition drain ::
  "(nat \<Rightarrow> 'd \<Rightarrow> 'w \<Rightarrow> (bool \<times> 'w) option) \<Rightarrow> ('d \<Rightarrow> bool) \<Rightarrow> bool \<Rightarrow> bool \<Rightarrow> nat \<Rightarrow> 'd DeferredDeleter \<times> 'w \<Rightarrow>
   (nat \<times> 'd DeferredDeleter \<times> 'w) option" where
  "drain applyOp isExternalHostptr blocking hostptrsOnly t dw =
     (case clearQueue applyOp isExternalHostptr hostptrsOnly t dw of
        None \<Rightarrow> None
      | Some (t, d, w) \<Rightarrow> if blocking \<and> \<not> areElementsReleased hostptrsOnly d then None else Some (t, d, w))"

definition stopDeleter ::
  "(nat \<Rightarrow> 'd \<Rightarrow> 'w \<Rightarrow> (bool \<times> 'w) option) \<Rightarrow> ('d \<Rightarrow> bool) \<Rightarrow> nat \<Rightarrow> 'd DeferredDeleter \<times> 'w \<Rightarrow>
   (nat \<times> 'd DeferredDeleter \<times> 'w) option" where
  "stopDeleter applyOp isExternalHostptr t = (\<lambda>(d, w).
     drain applyOp isExternalHostptr False False t (d\<lparr>workerRuns := False\<rparr>, w))"

definition ensureThread :: "'d DeferredDeleter \<Rightarrow> 'd DeferredDeleter" where
  "ensureThread d = (if workerRuns d then d else d\<lparr>workerRuns := True\<rparr>)"

definition addClient :: "'d DeferredDeleter \<Rightarrow> 'd DeferredDeleter" where
  "addClient d = ensureThread (d\<lparr>numClients := numClients d + 1\<rparr>)"

definition removeClient ::
  "(nat \<Rightarrow> 'd \<Rightarrow> 'w \<Rightarrow> (bool \<times> 'w) option) \<Rightarrow> ('d \<Rightarrow> bool) \<Rightarrow> nat \<Rightarrow> 'd DeferredDeleter \<times> 'w \<Rightarrow>
   (nat \<times> 'd DeferredDeleter \<times> 'w) option" where
  "removeClient applyOp isExternalHostptr t = (\<lambda>(d, w).
     let d = d\<lparr>numClients := numClients d - 1\<rparr>
     in if numClients d = 0 then stopDeleter applyOp isExternalHostptr t (d, w) else Some (t, d, w))"

section \<open>The manager's deletions\<close>

text \<open>
  The deletions of graphics allocations of the memory manager; the engines at each moment are an
  argument. None of them is an external host pointer.
\<close>

definition applyAllocationDeletion :: "(nat \<Rightarrow> Engine list) \<Rightarrow> nat \<Rightarrow> node \<Rightarrow> MemoryWorld \<Rightarrow> (bool \<times> MemoryWorld) option" where
  "applyAllocationDeletion engines t n w = applyDeletion (engines t) n w"

definition drainManager :: "(nat \<Rightarrow> Engine list) \<Rightarrow> nat \<Rightarrow> MemoryWorld \<Rightarrow> (nat \<times> MemoryWorld) option" where
  "drainManager engines t w =
     (let d = newDeferredDeleter\<lparr>deletions := deletionQueue w, elementsToRelease := int (length (deletionQueue w))\<rparr>
      in map_option (\<lambda>(t, d, w). (t, w\<lparr>deletionQueue := deletions d\<rparr>))
           (drain (applyAllocationDeletion engines) (\<lambda>_. False) False False t (d, w\<lparr>deletionQueue := []\<rparr>)))"

definition checkGpuUsageAndDestroyGraphicsAllocations ::
  "bool \<Rightarrow> bool \<Rightarrow> (nat \<Rightarrow> Engine list) \<Rightarrow> nat \<Rightarrow> node \<Rightarrow> MemoryWorld \<Rightarrow> (nat \<times> MemoryWorld) option" where
  "checkGpuUsageAndDestroyGraphicsAllocations singleList disableRecycling engines t n w =
     (case destroyOrDefer singleList disableRecycling (engines t) n w of
        None \<Rightarrow> None
      | Some w' \<Rightarrow>
          if isUsed (allocAt w n) \<and> isUsedByManyOsContexts (allocAt w n) then drainManager engines t w' else Some (t, w'))"

section \<open>The interface of a deletion\<close>

text \<open>
  What the queue needs: while the state is sound a try returns and keeps it sound, and when the memory is
  ready for it the deletion is done; what is ready stays ready, and what is finished is recorded.
\<close>

locale deletion_laws =
  fixes applyOp :: "'e \<Rightarrow> nat \<Rightarrow> 'd \<Rightarrow> 'w \<Rightarrow> (bool \<times> 'w) option"
    and sound :: "'e \<Rightarrow> 'w \<Rightarrow> bool"
    and ready :: "'e \<Rightarrow> nat \<Rightarrow> 'w \<Rightarrow> bool"
    and finished :: "'w \<Rightarrow> 'd list"
  assumes apply_returns: "sound e w \<Longrightarrow> \<exists>b w'. applyOp e t x w = Some (b, w') \<and> sound e w' \<and>
        (\<forall>t. ready e t w \<longrightarrow> ready e t w') \<and> finished w' = (if b then finished w @ [x] else finished w)"
    and apply_done: "sound e w \<Longrightarrow> ready e t w \<Longrightarrow> \<exists>w'. applyOp e t x w = Some (True, w')"
begin

definition counted :: "'d DeferredDeleter \<Rightarrow> bool" where
  "counted d \<longleftrightarrow> elementsToRelease d = int (length (deletions d))"

lemma tryFront_round:
  assumes "sound e w" "counted d"
  shows "\<exists>d' w'. tryFront (applyOp e) h False t (d, w) = Some (d', w') \<and> sound e w' \<and> counted d' \<and>
    (\<forall>t. ready e t w \<longrightarrow> ready e t w') \<and> (ready e t w \<longrightarrow> deletions d' = tl (deletions d)) \<and>
    mset (finished w') + mset (deletions d') = mset (finished w) + mset (deletions d)"
proof (cases "deletions d")
  case Nil
  then show ?thesis using assms by (simp add: tryFront_def)
next
  case (Cons x xs)
  obtain b w' where a: "applyOp e t x w = Some (b, w')" "sound e w'" "\<forall>t. ready e t w \<longrightarrow> ready e t w'"
      "finished w' = (if b then finished w @ [x] else finished w)"
    using apply_returns [OF assms(1)] by blast
  have "b" if "ready e t w" using apply_done [OF assms(1) that, of x] a(1) by simp
  then show ?thesis using a assms(2) Cons by (cases b) (auto simp: tryFront_def Let_def counted_def)
qed

lemma clearQueue_unfold:
  assumes "tryFront (applyOp e) h False t (d, w) = Some (d', w')"
  shows "clearQueue (applyOp e) h False t (d, w) =
    (if deletions d' = [] then Some (Suc t, d', w') else clearQueue (applyOp e) h False (Suc t) (d', w'))"
  using assms by (subst clearQueue.simps) simp

definition drained :: "'e \<Rightarrow> 'd multiset \<Rightarrow> (nat \<times> 'd DeferredDeleter \<times> 'w) option \<Rightarrow> bool" where
  "drained e M r \<longleftrightarrow> (\<exists>t d w. r = Some (t, d, w) \<and> deletions d = [] \<and> areElementsReleased False d \<and> sound e w \<and> mset (finished w) = M)"

lemma drained_round:
  assumes "tryFront (applyOp e) h False t (d, w) = Some (d', w')" "sound e w'" "counted d'"
    and "mset (finished w') + mset (deletions d') = M"
    and "deletions d' \<noteq> [] \<Longrightarrow> drained e M (clearQueue (applyOp e) h False (Suc t) (d', w'))"
  shows "drained e M (clearQueue (applyOp e) h False t (d, w))"
  using assms unfolding clearQueue_unfold [OF assms(1)]
  by (auto simp: drained_def counted_def areElementsReleased_def)

text \<open>The loop ends when the memory is ready from some moment on, with every deletion done.\<close>

lemma clearQueue_ready:
  "sound e w \<Longrightarrow> counted d \<Longrightarrow> (\<And>u. t \<le> u \<Longrightarrow> ready e u w) \<Longrightarrow>
   drained e (mset (finished w) + mset (deletions d)) (clearQueue (applyOp e) h False t (d, w))"
proof (induction "length (deletions d)" arbitrary: t d w rule: less_induct)
  case less
  obtain d' w' where r: "tryFront (applyOp e) h False t (d, w) = Some (d', w')" "sound e w'" "counted d'"
      "\<forall>t. ready e t w \<longrightarrow> ready e t w'" "ready e t w \<longrightarrow> deletions d' = tl (deletions d)"
      "mset (finished w') + mset (deletions d') = mset (finished w) + mset (deletions d)"
    using tryFront_round [OF less.prems(1,2)] by blast
  have tl: "deletions d' = tl (deletions d)" using r(5) less.prems(3) by simp
  show ?case
  proof (rule drained_round [OF r(1-3,6)])
    assume "deletions d' \<noteq> []"
    then have "length (deletions d') < length (deletions d)" using tl by (cases "deletions d") auto
    then show "drained e (mset (finished w) + mset (deletions d)) (clearQueue (applyOp e) h False (Suc t) (d', w'))"
      using less.hyps [OF _ r(2,3)] r(4) less.prems(3) by (simp flip: r(6))
  qed
qed

lemma clearQueue_returns:
  "sound e w \<Longrightarrow> counted d \<Longrightarrow> (\<And>u. T \<le> u \<Longrightarrow> ready e u w) \<Longrightarrow>
   drained e (mset (finished w) + mset (deletions d)) (clearQueue (applyOp e) h False t (d, w))"
proof (induction "T - t" arbitrary: t d w)
  case 0
  then show ?case using clearQueue_ready by simp
next
  case (Suc k)
  obtain d' w' where r: "tryFront (applyOp e) h False t (d, w) = Some (d', w')" "sound e w'" "counted d'"
      "\<forall>t. ready e t w \<longrightarrow> ready e t w'"
      "mset (finished w') + mset (deletions d') = mset (finished w) + mset (deletions d)"
    using tryFront_round [OF Suc.prems(1,2)] by blast
  show ?case
  proof (rule drained_round [OF r(1-3,5)])
    have "k = T - Suc t" using Suc.hyps(2) by simp
    then show "drained e (mset (finished w) + mset (deletions d)) (clearQueue (applyOp e) h False (Suc t) (d', w'))"
      using Suc.hyps(1) [OF _ r(2,3)] r(4) Suc.prems(3) by (simp flip: r(5))
  qed
qed

end

section \<open>The deletions of the memory manager\<close>

definition soundMemory :: "(nat \<Rightarrow> Engine list) \<Rightarrow> MemoryWorld \<Rightarrow> bool" where
  "soundMemory engines w \<longleftrightarrow> (\<forall>t. distinct (map osContextId (engines t))) \<and> (\<exists>m. \<forall>n. usageOk m (allocAt w n))"

text \<open>At this moment the engines have completed every task recorded with an allocation.\<close>

definition tasksDone :: "(nat \<Rightarrow> Engine list) \<Rightarrow> nat \<Rightarrow> MemoryWorld \<Rightarrow> bool" where
  "tasksDone engines t w \<longleftrightarrow>
     (\<forall>n. \<forall>e \<in> set (engines t). isUsedByOsContext (osContextId e) (allocAt w n) \<longrightarrow>
        testTaskCountReady e (getTaskCount (osContextId e) (allocAt w n)))"

lemma applyLoop_counts:
  "applyLoop es a s = Some (a', s') \<Longrightarrow> getTaskCount c a' = getTaskCount c a \<or> getTaskCount c a' = objectNotUsed"
proof (induction es arbitrary: a s)
  case (Cons e es)
  show ?case
  proof (cases "isUsedByOsContext (osContextId e) a \<and> testTaskCountReady e (getTaskCount (osContextId e) a)")
    case True
    then obtain b where b: "releaseUsageInOsContext (osContextId e) a = Some b" "applyLoop es b s = Some (a', s')"
      using Cons.prems by (auto split: option.splits)
    show ?thesis using Cons.IH [OF b(2)] update_fields(2) [OF b(1) [unfolded releaseUsageInOsContext_def], of c] by auto
  next
    case False
    then show ?thesis using Cons.IH Cons.prems by (auto split: if_splits)
  qed
qed simp

lemma applyDeletion_result:
  assumes ok: "\<And>n. usageOk m (allocAt w n)" and d: "distinct (map osContextId es)"
  shows "\<exists>b a. applyDeletion es n w = Some (b, (if b then freeGraphicsMemory n (setAlloc n a w) else setAlloc n a w)) \<and>
    usageOk m a \<and> (\<forall>c. getTaskCount c a = getTaskCount c (allocAt w n) \<or> getTaskCount c a = objectNotUsed) \<and>
    ((\<forall>e \<in> set es. isUsedByOsContext (osContextId e) (allocAt w n) \<longrightarrow>
        testTaskCountReady e (getTaskCount (osContextId e) (allocAt w n))) \<longrightarrow> b)"
proof (cases "isUsed (allocAt w n)")
  case False
  have "setAlloc n (allocAt w n) w = w" by (simp add: setAlloc_def allocAt_def)
  then show ?thesis using False ok [of n]
    by (intro exI [of _ True] exI [of _ "allocAt w n"]) (simp add: applyDeletion_def)
next
  case True
  let ?es = "getRegisteredEngines (gfxRootDevice (allocAt w n)) es"
  obtain a where a: "applyLoop ?es (allocAt w n) False = Some (a, \<exists>e \<in> set ?es. isUsedByOsContext (osContextId e) (allocAt w n) \<and>
        \<not> testTaskCountReady e (getTaskCount (osContextId e) (allocAt w n)))" "usageOk m a"
    using applyLoop_result [OF registered_distinct [OF d] ok [of n], of "gfxRootDevice (allocAt w n)" False] by auto
  let ?b = "\<not> (\<exists>e \<in> set ?es. isUsedByOsContext (osContextId e) (allocAt w n) \<and>
    \<not> testTaskCountReady e (getTaskCount (osContextId e) (allocAt w n)))"
  have "applyDeletion es n w = Some (?b, (if ?b then freeGraphicsMemory n (setAlloc n a w) else setAlloc n a w))"
    unfolding applyDeletion_def Let_def if_P [OF True] a(1) by simp
  moreover have "set ?es \<subseteq> set es" by (auto simp: getRegisteredEngines_def)
  ultimately show ?thesis using a(2) applyLoop_counts [OF a(1)] by (intro exI [of _ ?b] exI [of _ a]) auto
qed

interpretation md: deletion_laws applyAllocationDeletion soundMemory tasksDone freedAllocations
proof
  fix engines :: "nat \<Rightarrow> Engine list" and w t n
  assume s: "soundMemory engines w"
  then obtain m where ok: "\<And>n. usageOk m (allocAt w n)" and d: "\<And>t. distinct (map osContextId (engines t))"
    by (auto simp: soundMemory_def)
  obtain b a where r: "applyDeletion (engines t) n w = Some (b, (if b then freeGraphicsMemory n (setAlloc n a w) else setAlloc n a w))"
      "usageOk m a" "\<And>c. getTaskCount c a = getTaskCount c (allocAt w n) \<or> getTaskCount c a = objectNotUsed"
      "(\<forall>e \<in> set (engines t). isUsedByOsContext (osContextId e) (allocAt w n) \<longrightarrow>
        testTaskCountReady e (getTaskCount (osContextId e) (allocAt w n))) \<longrightarrow> b"
    using applyDeletion_result [OF ok d [of t], of n] by blast
  let ?w = "if b then freeGraphicsMemory n (setAlloc n a w) else setAlloc n a w"
  have al: "allocAt ?w = (allocAt w)(n := a)" by simp
  have "soundMemory engines ?w" using ok d r(2) unfolding soundMemory_def al by (auto intro!: exI [of _ m])
  moreover have "tasksDone engines u ?w" if "tasksDone engines u w" for u
    using that r(3) unfolding tasksDone_def al by (auto simp: isUsedByOsContext_def) metis
  ultimately show "\<exists>b w'. applyAllocationDeletion engines t n w = Some (b, w') \<and> soundMemory engines w' \<and>
      (\<forall>t. tasksDone engines t w \<longrightarrow> tasksDone engines t w') \<and>
      freedAllocations w' = (if b then freedAllocations w @ [n] else freedAllocations w)"
    using r(1) by (intro exI [of _ b] exI [of _ ?w]) (auto simp: applyAllocationDeletion_def)
  assume "tasksDone engines t w"
  then have b using r(4) by (auto simp: tasksDone_def)
  then show "\<exists>w'. applyAllocationDeletion engines t n w = Some (True, w')" using r(1) by (auto simp: applyAllocationDeletion_def)
qed

text \<open>
  C17: destroying an allocation that several engines use returns once the GPU has done its work: when from some moment
  on the engines have completed every task recorded with an allocation, the call ends, its queue is empty, and
  the allocation and all deletions that were waiting have been freed, each once.
\<close>

theorem destroy_returns_when_done:
  assumes ids: "\<forall>t. distinct (map osContextId (engines t))" and ok: "\<forall>n. usageOk m (allocAt w n)"
    and progress: "\<forall>u \<ge> T. \<forall>n. \<forall>e \<in> set (engines u). isUsedByOsContext (osContextId e) (allocAt w n) \<longrightarrow>
      testTaskCountReady e (getTaskCount (osContextId e) (allocAt w n))"
    and many: "isUsed (allocAt w n)" "isUsedByManyOsContexts (allocAt w n)"
  shows "\<exists>t' w'. checkGpuUsageAndDestroyGraphicsAllocations singleList disableRecycling engines t n w = Some (t', w') \<and>
    deletionQueue w' = [] \<and> mset (freedAllocations w') = mset (freedAllocations w) + mset (deletionQueue w) + {#n#}"
proof -
  let ?w = "w\<lparr>deletionQueue := deletionQueue w @ [n]\<rparr>" and ?v = "w\<lparr>deletionQueue := []\<rparr>"
  let ?d = "newDeferredDeleter\<lparr>deletions := deletionQueue w @ [n], elementsToRelease := int (length (deletionQueue w @ [n]))\<rparr>"
  have al: "allocAt ?v = allocAt w" by (simp add: allocAt_def fun_eq_iff)
  have "soundMemory engines ?v" using ids ok by (auto simp: soundMemory_def al)
  moreover have "md.counted ?d" by (simp add: md.counted_def)
  moreover have "tasksDone engines u ?v" if "T \<le> u" for u using progress that by (simp add: tasksDone_def al)
  ultimately have "md.drained engines (mset (freedAllocations ?v) + mset (deletions ?d))
      (clearQueue (applyAllocationDeletion engines) (\<lambda>_. False) False t (?d, ?v))"
    by (rule md.clearQueue_returns)
  then obtain t' d' w' where c: "clearQueue (applyAllocationDeletion engines) (\<lambda>_. False) False t (?d, ?v) = Some (t', d', w')"
      "deletions d' = []" "mset (freedAllocations w') = mset (freedAllocations w) + mset (deletionQueue w @ [n])"
    by (auto simp: md.drained_def)
  have "destroyOrDefer singleList disableRecycling (engines t) n w = Some ?w" using many by (simp add: destroyOrDefer_def)
  then show ?thesis using c many
    by (simp add: checkGpuUsageAndDestroyGraphicsAllocations_def drainManager_def drain_def Let_def)
qed

text \<open>Two engines; the second completes its task at the third moment.\<close>

definition sampleEngines :: "nat \<Rightarrow> Engine list" where
  "sampleEngines t =
     [\<lparr>osContextId = 0, engineTags = Some [5], peekTaskCount = 5, engineRootDevice = 0, engineDeviceBitfield = 1\<rparr>,
      \<lparr>osContextId = 1, engineTags = Some [if t < 3 then 6 else 7], peekTaskCount = 7, engineRootDevice = 0, engineDeviceBitfield = 1\<rparr>]"

definition sampleShared :: MemoryWorld where
  "sampleShared = \<lparr>worldStore = \<lparr>storeLinks = sampleLinks, allocOf = (\<lambda>_. (sampleBuffer 5)\<lparr>usageInfos := [5, 7], registeredContextsNum := 2\<rparr>)\<rparr>,
     worldLists = (\<lambda>_. newIDList), freedAllocations = [], deletionQueue = [4]\<rparr>"

lemma destroy_returns_when_done_witness:
  "\<exists>t' w'. checkGpuUsageAndDestroyGraphicsAllocations True False sampleEngines 0 9 sampleShared = Some (t', w') \<and>
    deletionQueue w' = [] \<and> mset (freedAllocations w') = {#4, 9#}"
proof -
  let ?a = "(sampleBuffer 5)\<lparr>usageInfos := [5, 7], registeredContextsNum := 2\<rparr>"
  have al: "allocAt sampleShared n = ?a" for n by (simp add: allocAt_def sampleShared_def)
  have "usageOk 2 ?a" by (simp add: usageOk_def objectNotUsed_def)
  moreover have "\<forall>t. distinct (map osContextId (sampleEngines t))" by (simp add: sampleEngines_def)
  moreover have "\<forall>u \<ge> 3. \<forall>n. \<forall>e \<in> set (sampleEngines u). isUsedByOsContext (osContextId e) (allocAt sampleShared n) \<longrightarrow>
      testTaskCountReady e (getTaskCount (osContextId e) (allocAt sampleShared n))"
    by (simp add: al sampleEngines_def testTaskCountReady_def getTaskCount_def sampleBuffer_def)
  moreover have "isUsed (allocAt sampleShared 9)" "isUsedByManyOsContexts (allocAt sampleShared 9)"
    by (simp_all add: al isUsed_def isUsedByManyOsContexts_def)
  ultimately show ?thesis
    using destroy_returns_when_done [of sampleEngines 2 sampleShared 3 9 True False 0] al
    by (simp add: sampleShared_def add_mset_commute)
qed

end
