(* ===== verification/Tag_Allocator.thy ===== *)
theory Tag_Allocator
  imports Id_List Math_Helpers
begin

text \<open>
  \<open>utilities/tag_allocator.{h,inl,cpp}\<close>: tags are small pieces of memory that the GPU writes, such as
  timestamps. The allocator keeps the nodes that describe them in three linked lists of one store: free,
  used, and deferred ones that may not be reused yet. A node is counted by its users. The memory
  manager is an argument: it gives the CPU and the GPU address of an allocation. \<open>None\<close> stands for a
  null pointer that is followed.
\<close>

section \<open>Nodes\<close>

record TagNode =
  nodeAllocation :: nat
  tagForCpuAccess :: u64
  nodeGpuAddress :: u64
  refCount :: u32
  packetsUsed :: u32
  doNotReleaseNode :: bool
  profilingCapable :: bool
  tagContents :: "u64 option"

definition newTagNode :: TagNode where
  "newTagNode = \<lparr>nodeAllocation = 0, tagForCpuAccess = 0, nodeGpuAddress = 0, refCount = 0, packetsUsed = 1,
     doNotReleaseNode = False, profilingCapable = True, tagContents = None\<rparr>"

definition incRefCount :: "TagNode \<Rightarrow> TagNode" where
  "incRefCount n = n\<lparr>refCount := refCount n + 1\<rparr>"

definition refCountFetchSub :: "u32 \<Rightarrow> TagNode \<Rightarrow> u32 \<times> TagNode" where
  "refCountFetchSub v n = (refCount n, n\<lparr>refCount := refCount n - v\<rparr>)"

definition canBeReleased :: "TagNode \<Rightarrow> bool" where
  "canBeReleased n = (\<not> doNotReleaseNode n)"

definition setDoNotReleaseNodes :: "bool \<Rightarrow> TagNode \<Rightarrow> TagNode" where
  "setDoNotReleaseNodes doNotRelease n = n\<lparr>doNotReleaseNode := doNotRelease\<rparr>"

definition initializeNode :: "u64 \<Rightarrow> TagNode \<Rightarrow> TagNode" where
  "initializeNode initialValue n = n\<lparr>tagContents := Some initialValue, packetsUsed := 1, profilingCapable := True\<rparr>"

definition markAsAborted :: "TagNode \<Rightarrow> TagNode" where
  "markAsAborted n = n\<lparr>tagContents := Some 0\<rparr>"

section \<open>The allocator\<close>

text \<open>
  The memory manager: one allocation for one device, or one in system memory for several. An address stands for the
  allocations of all these devices, which \<open>freeTagMemory\<close> releases.
\<close>

record 's TagMemory =
  allocateForDevice :: "u32 \<Rightarrow> u64 \<Rightarrow> 's \<Rightarrow> (u64 \<times> u64) option \<times> 's"
  allocateForDevices :: "u32 list \<Rightarrow> u64 \<Rightarrow> 's \<Rightarrow> u64 \<times> 's"
  freeTagMemory :: "u64 \<Rightarrow> 's \<Rightarrow> 's"

datatype TagList = FreeTags | UsedTags | DeferredTags

record 's TagAllocator =
  tagLinks :: Links
  tagLists :: "TagList \<Rightarrow> IDList"
  tagNodes :: "node \<Rightarrow> TagNode"
  nodeCount :: nat
  gfxAllocations :: "u64 list"
  rootDeviceIndices :: "u32 list"
  maxRootDeviceIndex :: u32
  tagCount :: nat
  tagSize :: u64
  tagInitialValue :: u64
  doNotReleaseNodes :: bool
  initializeTags :: bool
  memoryState :: 's

definition pushTag :: "(node \<Rightarrow> IDList \<times> Links \<Rightarrow> IDList \<times> Links) \<Rightarrow> TagList \<Rightarrow> node \<Rightarrow> 's TagAllocator \<Rightarrow> 's TagAllocator" where
  "pushTag push i n ta =
     (case push n (tagLists ta i, tagLinks ta) of (l, s) \<Rightarrow> ta\<lparr>tagLists := (tagLists ta)(i := l), tagLinks := s\<rparr>)"

definition removeTag :: "TagList \<Rightarrow> node \<Rightarrow> 's TagAllocator \<Rightarrow> 's TagAllocator" where
  "removeTag i n ta =
     (case removeOneImpl n (tagLists ta i, tagLinks ta) of (_, l, s) \<Rightarrow> ta\<lparr>tagLists := (tagLists ta)(i := l), tagLinks := s\<rparr>)"

definition updateNode :: "(TagNode \<Rightarrow> TagNode) \<Rightarrow> node \<Rightarrow> 's TagAllocator \<Rightarrow> 's TagAllocator" where
  "updateNode f n ta = ta\<lparr>tagNodes := (tagNodes ta)(n := f (tagNodes ta n))\<rparr>"

text \<open>The loop over the new nodes; \<open>i\<close> of them are left.\<close>

fun populateLoop :: "nat \<Rightarrow> nat \<Rightarrow> u64 \<Rightarrow> u64 \<Rightarrow> 's TagAllocator \<Rightarrow> 's TagAllocator" where
  "populateLoop 0 i baseCpuAddress baseGpuAddress ta = ta"
| "populateLoop (Suc k) i baseCpuAddress baseGpuAddress ta =
     (let tagOffset = of_nat i * tagSize ta;
          n = nodeCount ta;
          nd = newTagNode\<lparr>nodeAllocation := length (gfxAllocations ta) - 1, tagForCpuAccess := baseCpuAddress + tagOffset,
            nodeGpuAddress := baseGpuAddress + tagOffset, doNotReleaseNode := doNotReleaseNodes ta\<rparr>;
          ta = ta\<lparr>tagNodes := (tagNodes ta)(n := nd), nodeCount := Suc n\<rparr>
      in populateLoop k (Suc i) baseCpuAddress baseGpuAddress (pushTag pushTailOneImpl FreeTags n ta))"

definition populateFreeTags :: "'s TagMemory \<Rightarrow> 's TagAllocator \<Rightarrow> 's TagAllocator option" where
  "populateFreeTags mm ta =
     (let allocationSizeRequired = of_nat (tagCount ta) * tagSize ta;
          (base, m) =
            (if length (rootDeviceIndices ta) = 1
             then allocateForDevice mm (hd (rootDeviceIndices ta)) allocationSizeRequired (memoryState ta)
             else case allocateForDevices mm (rootDeviceIndices ta) allocationSizeRequired (memoryState ta) of
                    (p, m) \<Rightarrow> (Some (p, p), m));
          ta = ta\<lparr>memoryState := m\<rparr>
      in case base of
           None \<Rightarrow> None
         | Some (baseCpuAddress, baseGpuAddress) \<Rightarrow>
             Some (populateLoop (tagCount ta) 0 baseCpuAddress baseGpuAddress
               (ta\<lparr>gfxAllocations := gfxAllocations ta @ [baseGpuAddress]\<rparr>)))"

definition newTagAllocator ::
  "'s TagMemory \<Rightarrow> u32 list \<Rightarrow> nat \<Rightarrow> u64 \<Rightarrow> u64 \<Rightarrow> u64 \<Rightarrow> bool \<Rightarrow> bool \<Rightarrow> 's \<Rightarrow> 's TagAllocator option" where
  "newTagAllocator mm rootDevices count tagAlignment sz initialValue doNotRelease initTags m =
     populateFreeTags mm
       \<lparr>tagLinks = \<lparr>nextOf = (\<lambda>_. None), prevOf = (\<lambda>_. None), deletedNodes = []\<rparr>, tagLists = (\<lambda>_. newIDList),
        tagNodes = (\<lambda>_. newTagNode), nodeCount = 0, gfxAllocations = [], rootDeviceIndices = rootDevices,
        maxRootDeviceIndex = fold max rootDevices 0, tagCount = count, tagSize = alignUp sz tagAlignment,
        tagInitialValue = initialValue, doNotReleaseNodes = doNotRelease, initializeTags = initTags, memoryState = m\<rparr>"

text \<open>The walk over the detached deferred nodes: to one of two pending lists.\<close>

partial_function (option) releaseLoop ::
  "(node \<Rightarrow> bool) \<Rightarrow> node option \<Rightarrow> IDList \<Rightarrow> IDList \<Rightarrow> Links \<Rightarrow> (IDList \<times> IDList \<times> Links) option" where
  "releaseLoop released cur pendingFree pendingDeferred s =
     (case cur of
        None \<Rightarrow> Some (pendingFree, pendingDeferred, s)
      | Some c \<Rightarrow>
          let nextNode = nextOf s c in
          if released c
          then case pushFrontOneImpl c (pendingFree, s) of (l, s) \<Rightarrow> releaseLoop released nextNode l pendingDeferred s
          else case pushFrontOneImpl c (pendingDeferred, s) of (l, s) \<Rightarrow> releaseLoop released nextNode pendingFree l s)"

definition splicePending :: "IDList \<Rightarrow> IDList \<times> Links \<Rightarrow> (IDList \<times> Links) option" where
  "splicePending pending = (\<lambda>(l, s).
     if peekIsEmpty (pending, s) then Some (l, s)
     else case detachNodesImpl (pending, s) of
            (None, _) \<Rightarrow> None
          | (Some n, _, s) \<Rightarrow> spliceImpl n (l, s))"

definition releaseDeferredTags :: "'s TagAllocator \<Rightarrow> 's TagAllocator option" where
  "releaseDeferredTags ta =
     (case detachNodesImpl (tagLists ta DeferredTags, tagLinks ta) of
        (cur, deferred, s) \<Rightarrow>
          (case releaseLoop (\<lambda>n. canBeReleased (tagNodes ta n)) cur newIDList newIDList s of
             None \<Rightarrow> None
           | Some (pendingFree, pendingDeferred, s) \<Rightarrow>
               (case splicePending pendingFree (tagLists ta FreeTags, s) of
                  None \<Rightarrow> None
                | Some (free, s) \<Rightarrow>
                    (case splicePending pendingDeferred (deferred, s) of
                       None \<Rightarrow> None
                     | Some (deferred, s) \<Rightarrow>
                         Some (ta\<lparr>tagLists := (tagLists ta)(FreeTags := free, DeferredTags := deferred), tagLinks := s\<rparr>)))))"

definition takeFreeTag :: "'s TagAllocator \<Rightarrow> node option \<times> 's TagAllocator" where
  "takeFreeTag ta =
     (case removeFrontOneImpl (tagLists ta FreeTags, tagLinks ta) of
        (n, l, s) \<Rightarrow> (n, ta\<lparr>tagLists := (tagLists ta)(FreeTags := l), tagLinks := s\<rparr>))"

definition getTag :: "'s TagMemory \<Rightarrow> 's TagAllocator \<Rightarrow> (node \<times> 's TagAllocator) option" where
  "getTag mm ta =
     (case (if peekIsEmpty (tagLists ta FreeTags, tagLinks ta) then releaseDeferredTags ta else Some ta) of
        None \<Rightarrow> None
      | Some ta \<Rightarrow>
          (case (case takeFreeTag ta of
                   (Some n, ta) \<Rightarrow> Some (Some n, ta)
                 | (None, ta) \<Rightarrow> map_option takeFreeTag (populateFreeTags mm ta)) of
             None \<Rightarrow> None
           | Some (None, ta) \<Rightarrow> None
           | Some (Some n, ta) \<Rightarrow>
               let ta = pushTag pushFrontOneImpl UsedTags n ta;
                   ta = updateNode incRefCount n ta;
                   ta = (if initializeTags ta then updateNode (initializeNode (tagInitialValue ta)) n ta else ta)
               in Some (n, ta)))"

definition returnTagToFreePool :: "node \<Rightarrow> 's TagAllocator \<Rightarrow> 's TagAllocator" where
  "returnTagToFreePool n ta = pushTag pushFrontOneImpl FreeTags n (removeTag UsedTags n ta)"

definition returnTagToDeferredPool :: "node \<Rightarrow> 's TagAllocator \<Rightarrow> 's TagAllocator" where
  "returnTagToDeferredPool n ta = pushTag pushFrontOneImpl DeferredTags n (removeTag UsedTags n ta)"

definition returnTag :: "node \<Rightarrow> 's TagAllocator \<Rightarrow> 's TagAllocator" where
  "returnTag n ta =
     (case refCountFetchSub 1 (tagNodes ta n) of
        (old, nd) \<Rightarrow>
          let ta = updateNode (\<lambda>_. nd) n ta in
          if old = 1 then if canBeReleased nd then returnTagToFreePool n ta else returnTagToDeferredPool n ta
          else ta)"

definition cleanUpResources :: "'s TagMemory \<Rightarrow> 's TagAllocator \<Rightarrow> 's TagAllocator" where
  "cleanUpResources mm ta =
     ta\<lparr>memoryState := fold (freeTagMemory mm) (gfxAllocations ta) (memoryState ta), gfxAllocations := []\<rparr>"

section \<open>The lists of the allocator\<close>

abbreviation tagsHold :: "'s TagAllocator \<Rightarrow> (TagList \<Rightarrow> node list) \<Rightarrow> bool" where
  "tagsHold ta A \<equiv> il.family (tagLists ta) (tagLinks ta) A"

lemma pushTag_holds:
  assumes f: "tagsHold ta A" and n: "\<And>j. n \<notin> set (A j)" and p: "push = pushFrontOneImpl \<and> ns = n # A i \<or> push = pushTailOneImpl \<and> ns = A i @ [n]"
  shows "tagsHold (pushTag push i n ta) (A(i := ns))"
proof -
  let ?p = "push n (tagLists ta i, tagLinks ta)"
  have r: "represents ?p ns" "keepsOthers (tagLinks ta) (snd ?p) (insert n (set (A i)))"
    using pushFront_represents [OF il.family_rep [OF f, of i] n] pushTail_represents [OF il.family_rep [OF f, of i] n] p by auto
  have "il.family ((tagLists ta)(i := fst ?p)) (snd ?p) (A(i := ns))"
  proof (rule il.family_update [OF f _ r(2)])
    show "represents (fst ?p, snd ?p) ns" using r(1) by simp
    fix j assume "j \<noteq> i"
    then show "set (A j) \<inter> (insert n (set (A i)) \<union> set ns) = {}" using il.family_apart [OF f, of j i] n [of j] p by auto
  qed
  then show ?thesis by (simp add: pushTag_def case_prod_beta)
qed

lemma removeTag_holds:
  assumes f: "tagsHold ta A" and n: "n \<in> set (A i)"
  shows "tagsHold (removeTag i n ta) (A(i := remove1 n (A i)))"
proof -
  have split: "A i = upToNode n (A i) @ n # tl (fromNode n (A i))" by (rule split_node [OF n])
  obtain l s where r: "removeOneImpl n (tagLists ta i, tagLinks ta) = (n, l, s)"
      "represents (l, s) (upToNode n (A i) @ tl (fromNode n (A i)))" "keepsOthers (tagLinks ta) s (set (A i))"
    using removeOne_represents [of "tagLists ta i" "tagLinks ta" "upToNode n (A i)" n "tl (fromNode n (A i))"] il.family_rep [OF f, of i]
      split by metis
  have "il.family ((tagLists ta)(i := l)) s (A(i := remove1 n (A i)))"
  proof (rule il.family_update [OF f _ r(3)])
    show "represents (l, s) (remove1 n (A i))" using r(2) remove1_split [OF n] by simp
    fix j assume "j \<noteq> i"
    then show "set (A j) \<inter> (set (A i) \<union> set (remove1 n (A i))) = {}"
      using il.family_apart [OF f, of j i] set_remove1_subset [of n "A i"] by auto
  qed
  then show ?thesis using r(1) by (simp add: removeTag_def)
qed

lemma tag_fields [simp]:
  "tagNodes (pushTag push i n ta) = tagNodes ta" "nodeCount (pushTag push i n ta) = nodeCount ta"
  "initializeTags (pushTag push i n ta) = initializeTags ta" "tagCount (pushTag push i n ta) = tagCount ta"
  "tagInitialValue (pushTag push i n ta) = tagInitialValue ta"
  "tagNodes (removeTag i n ta) = tagNodes ta" "nodeCount (removeTag i n ta) = nodeCount ta"
  "initializeTags (removeTag i n ta) = initializeTags ta" "tagCount (removeTag i n ta) = tagCount ta"
  "tagInitialValue (removeTag i n ta) = tagInitialValue ta"
  "tagNodes (updateNode f n ta) = (tagNodes ta)(n := f (tagNodes ta n))" "nodeCount (updateNode f n ta) = nodeCount ta"
  "initializeTags (updateNode f n ta) = initializeTags ta" "tagCount (updateNode f n ta) = tagCount ta"
  "tagInitialValue (updateNode f n ta) = tagInitialValue ta"
  "tagLists (updateNode f n ta) = tagLists ta" "tagLinks (updateNode f n ta) = tagLinks ta"
  by (simp_all add: pushTag_def removeTag_def updateNode_def case_prod_beta)

lemma populateLoop_holds:
  assumes "tagsHold ta A" "\<forall>j. \<forall>n \<in> set (A j). n < nodeCount ta" "\<forall>n \<ge> nodeCount ta. refCount (tagNodes ta n) = 0"
  shows "tagsHold (populateLoop k i c g ta) (A(FreeTags := A FreeTags @ [nodeCount ta..<nodeCount ta + k])) \<and>
    nodeCount (populateLoop k i c g ta) = nodeCount ta + k \<and> initializeTags (populateLoop k i c g ta) = initializeTags ta \<and>
    tagCount (populateLoop k i c g ta) = tagCount ta \<and> tagInitialValue (populateLoop k i c g ta) = tagInitialValue ta \<and>
    (\<forall>n. refCount (tagNodes (populateLoop k i c g ta) n) = refCount (tagNodes ta n))"
  using assms
proof (induction k arbitrary: i ta A)
  case 0
  then show ?case by simp
next
  case (Suc k)
  define nd where "nd = newTagNode\<lparr>nodeAllocation := length (gfxAllocations ta) - 1, tagForCpuAccess := c + of_nat i * tagSize ta,
    nodeGpuAddress := g + of_nat i * tagSize ta, doNotReleaseNode := doNotReleaseNodes ta\<rparr>"
  let ?n = "nodeCount ta"
  let ?ta = "ta\<lparr>tagNodes := (tagNodes ta)(?n := nd), nodeCount := Suc ?n\<rparr>"
  let ?tb = "pushTag pushTailOneImpl FreeTags ?n ?ta" and ?A = "A(FreeTags := A FreeTags @ [?n])"
  have "tagsHold ?ta A" using Suc.prems(1) by simp
  moreover have "?n \<notin> set (A j)" for j using Suc.prems(2) by auto
  ultimately have h: "tagsHold ?tb ?A" by (rule pushTag_holds) simp
  have b: "\<forall>j. \<forall>n \<in> set (?A j). n < nodeCount ?tb" using Suc.prems(2) by (auto simp: less_Suc_eq)
  have nd: "refCount nd = 0" by (simp add: nd_def newTagNode_def)
  have z: "\<forall>n \<ge> nodeCount ?tb. refCount (tagNodes ?tb n) = 0" using Suc.prems(3) by simp
  have same: "refCount (tagNodes ?tb n) = refCount (tagNodes ta n)" for n using nd Suc.prems(3) by simp
  have step: "populateLoop (Suc k) i c g ta = populateLoop k (Suc i) c g ?tb" by (simp add: Let_def nd_def)
  have "[?n..<?n + Suc k] = ?n # [Suc ?n..<Suc ?n + k]" by (simp add: upt_conv_Cons)
  then have list: "?A(FreeTags := ?A FreeTags @ [nodeCount ?tb..<nodeCount ?tb + k]) = A(FreeTags := A FreeTags @ [?n..<?n + Suc k])" by simp
  from Suc.IH [OF h b z, of "Suc i"] show ?case unfolding step list using same by simp
qed

lemma releaseLoop_result:
  "visits (nextOf s) cur ns None \<Longrightarrow> distinct ns \<Longrightarrow> represents (lf, s) fs \<Longrightarrow> represents (ld, s) ds \<Longrightarrow>
   set fs \<inter> set ds = {} \<Longrightarrow> set ns \<inter> (set fs \<union> set ds) = {} \<Longrightarrow>
   \<exists>lf' ld' s'. releaseLoop p cur lf ld s = Some (lf', ld', s') \<and> represents (lf', s') (rev (filter p ns) @ fs) \<and>
     represents (ld', s') (rev (filter (\<lambda>n. \<not> p n) ns) @ ds) \<and> keepsOthers s s' (set ns \<union> set fs \<union> set ds)"
proof (induction ns arbitrary: cur lf ld s fs ds)
  case Nil
  then show ?case by (subst releaseLoop.simps) simp
next
  case (Cons c ns)
  have cur: "cur = Some c" and rest: "visits (nextOf s) (nextOf s c) ns None" using Cons.prems(1) by auto
  have c: "c \<notin> set fs" "c \<notin> set ds" "c \<notin> set ns" and d: "distinct ns" using Cons.prems(2,6) by auto
  show ?case
  proof (cases "p c")
    case True
    obtain l s1 where e: "pushFrontOneImpl c (lf, s) = (l, s1)" by (rule prod.exhaust)
    have r: "represents (l, s1) (c # fs)" "keepsOthers s s1 (insert c (set fs))"
      using pushFront_represents [OF Cons.prems(3) c(1)] e by simp_all
    have rd: "represents (ld, s1) ds" by (rule represents_frame [OF Cons.prems(4) r(2)]) (use Cons.prems(5) c in auto)
    have "\<forall>n \<in> set ns. nextOf s1 n = nextOf s n" using r(2) Cons.prems(6) c(3) by (auto simp: keepsOthers_def)
    then have v: "visits (nextOf s1) (nextOf s c) ns None" using rest visits_cong by blast
    obtain lf' ld' s' where ih: "releaseLoop p (nextOf s c) l ld s1 = Some (lf', ld', s')" "represents (lf', s') (rev (filter p ns) @ c # fs)"
        "represents (ld', s') (rev (filter (\<lambda>n. \<not> p n) ns) @ ds)" "keepsOthers s1 s' (set ns \<union> set (c # fs) \<union> set ds)"
      using Cons.IH [OF v d r(1) rd] Cons.prems(5,6) c by auto
    have "keepsOthers s s' (set (c # ns) \<union> set fs \<union> set ds)"
      by (rule keepsOthers_mono [OF keepsOthers_trans [OF r(2) ih(4)]]) auto
    then show ?thesis using ih True cur e by (subst releaseLoop.simps) (simp add: Let_def)
  next
    case False
    obtain l s1 where e: "pushFrontOneImpl c (ld, s) = (l, s1)" by (rule prod.exhaust)
    have r: "represents (l, s1) (c # ds)" "keepsOthers s s1 (insert c (set ds))"
      using pushFront_represents [OF Cons.prems(4) c(2)] e by simp_all
    have rf: "represents (lf, s1) fs" by (rule represents_frame [OF Cons.prems(3) r(2)]) (use Cons.prems(5) c in auto)
    have "\<forall>n \<in> set ns. nextOf s1 n = nextOf s n" using r(2) Cons.prems(6) c(3) by (auto simp: keepsOthers_def)
    then have v: "visits (nextOf s1) (nextOf s c) ns None" using rest visits_cong by blast
    obtain lf' ld' s' where ih: "releaseLoop p (nextOf s c) lf l s1 = Some (lf', ld', s')" "represents (lf', s') (rev (filter p ns) @ fs)"
        "represents (ld', s') (rev (filter (\<lambda>n. \<not> p n) ns) @ c # ds)" "keepsOthers s1 s' (set ns \<union> set fs \<union> set (c # ds))"
      using Cons.IH [OF v d rf r(1)] Cons.prems(5,6) c by auto
    have "keepsOthers s s' (set (c # ns) \<union> set fs \<union> set ds)"
      by (rule keepsOthers_mono [OF keepsOthers_trans [OF r(2) ih(4)]]) auto
    then show ?thesis using ih False cur e by (subst releaseLoop.simps) (simp add: Let_def)
  qed
qed

lemma splicePending_result:
  assumes p: "represents (pending, s) ps" and l: "represents (l, s) ns" and d: "set ps \<inter> set ns = {}"
  shows "\<exists>l' s'. splicePending pending (l, s) = Some (l', s') \<and> represents (l', s') (ns @ ps) \<and> keepsOthers s s' (set ns \<union> set ps)"
proof (cases ps)
  case Nil
  then show ?thesis using peekIsEmpty_represents [OF p] l by (simp add: splicePending_def)
next
  case (Cons n ks)
  obtain k where "detachNodesImpl (pending, s) = (Some n, k, s)" "chain s (n # ks)"
    using detachNodes_represents [OF p] Cons by auto
  then show ?thesis using splice_represents [OF l, of n ks] d Cons peekIsEmpty_represents [OF p] by (auto simp: splicePending_def)
qed

lemma releaseDeferredTags_result:
  assumes f: "tagsHold ta A"
  shows "\<exists>l s. releaseDeferredTags ta = Some (ta\<lparr>tagLists := l, tagLinks := s\<rparr>) \<and>
    il.family l s (A(FreeTags := A FreeTags @ rev (filter (\<lambda>n. canBeReleased (tagNodes ta n)) (A DeferredTags)),
      DeferredTags := rev (filter (\<lambda>n. \<not> canBeReleased (tagNodes ta n)) (A DeferredTags))))"
proof -
  let ?p = "\<lambda>n. canBeReleased (tagNodes ta n)" and ?D = "A DeferredTags" and ?s = "tagLinks ta"
  let ?fs = "rev (filter ?p ?D)" and ?ds = "rev (filter (\<lambda>n. \<not> ?p n) ?D)"
  have rD: "represents (tagLists ta DeferredTags, ?s) ?D" by (rule il.family_rep [OF f])
  have apart: "set (A i) \<inter> set (A j) = {}" if "i \<noteq> j" for i j by (rule il.family_apart [OF f that])
  obtain d where d: "detachNodesImpl (tagLists ta DeferredTags, ?s) = (headOf ?D, d, ?s)" "represents (d, ?s) []"
    using detachNodes_represents [OF rD] by blast
  have "visits (nextOf ?s) (headOf ?D) ?D None" using rD represents_ends [OF rD] by (simp add: represents_def)
  then obtain lf ld s1 where l: "releaseLoop ?p (headOf ?D) newIDList newIDList ?s = Some (lf, ld, s1)"
      "represents (lf, s1) ?fs" "represents (ld, s1) ?ds" "keepsOthers ?s s1 (set ?D)"
    using releaseLoop_result [of ?s "headOf ?D" ?D newIDList "[]" newIDList "[]" ?p] new_represents represents_distinct [OF rD] by auto
  have free1: "represents (tagLists ta FreeTags, s1) (A FreeTags)"
    by (rule represents_frame [OF il.family_rep [OF f] l(4)]) (use apart in auto)
  obtain l2 s2 where f2: "splicePending lf (tagLists ta FreeTags, s1) = Some (l2, s2)" "represents (l2, s2) (A FreeTags @ ?fs)"
      "keepsOthers s1 s2 (set (A FreeTags) \<union> set ?fs)"
    using splicePending_result [OF l(2) free1] apart [of FreeTags DeferredTags] by auto
  have dd: "distinct ?D" by (rule represents_distinct [OF rD])
  have ld2: "represents (ld, s2) ?ds" by (rule represents_frame [OF l(3) f2(3)]) (use apart [of FreeTags DeferredTags] in auto)
  have d2: "represents (d, s2) []" using d(2) by (simp add: represents_def)
  obtain l3 s3 where f3: "splicePending ld (d, s2) = Some (l3, s3)" "represents (l3, s3) ([] @ ?ds)" "keepsOthers s2 s3 (set [] \<union> set ?ds)"
    using splicePending_result [OF ld2 d2] by auto
  have free3: "represents (l2, s3) (A FreeTags @ ?fs)"
    by (rule represents_frame [OF f2(2) f3(3)]) (use apart [of FreeTags DeferredTags] in auto)
  have k: "keepsOthers ?s s3 (set ?D \<union> (set (A FreeTags) \<union> set ?fs) \<union> (set [] \<union> set ?ds))"
    by (rule keepsOthers_trans [OF keepsOthers_trans [OF l(4) f2(3)] f3(3)])
  have "il.family ((tagLists ta)(FreeTags := l2, DeferredTags := l3)) s3 (A(FreeTags := A FreeTags @ ?fs, DeferredTags := ?ds))"
  proof (rule il.family_update2 [OF f _ free3 _ k])
    show "represents (l3, s3) ?ds" using f3(2) by simp
    show "set (A FreeTags @ ?fs) \<inter> set ?ds = {}" using apart [of FreeTags DeferredTags] by auto
    fix h assume "h \<noteq> FreeTags" "h \<noteq> DeferredTags"
    then show "set (A h) \<inter> (set ?D \<union> (set (A FreeTags) \<union> set ?fs) \<union> (set [] \<union> set ?ds) \<union> set (A FreeTags @ ?fs) \<union> set ?ds) = {}"
      using apart [of h FreeTags] apart [of h DeferredTags] by auto
  qed simp
  moreover have "releaseDeferredTags ta = Some (ta\<lparr>tagLists := (tagLists ta)(FreeTags := l2, DeferredTags := l3), tagLinks := s3\<rparr>)"
    using d(1) l(1) f2(1) f3(1) by (simp add: releaseDeferredTags_def)
  ultimately show ?thesis by blast
qed

text \<open>Every node is in one list; the users of a node are counted, and the used nodes are those with users.\<close>

definition tagInv :: "'s TagAllocator \<Rightarrow> (node \<Rightarrow> nat) \<Rightarrow> (TagList \<Rightarrow> node list) \<Rightarrow> bool" where
  "tagInv ta refs A \<longleftrightarrow> tagsHold ta A \<and> set (A FreeTags) \<union> set (A UsedTags) \<union> set (A DeferredTags) = {..<nodeCount ta} \<and>
     (\<forall>n. unat (refCount (tagNodes ta n)) = refs n) \<and> (\<forall>n. n \<in> set (A UsedTags) \<longleftrightarrow> 0 < refs n)"

lemma tagInv_apart: "tagInv ta refs A \<Longrightarrow> i \<noteq> j \<Longrightarrow> set (A i) \<inter> set (A j) = {}"
  unfolding tagInv_def by (elim conjE) (rule il.family_apart)

lemma tagInv_below: "tagInv ta refs A \<Longrightarrow> n \<in> set (A i) \<Longrightarrow> n < nodeCount ta"
  by (cases i) (auto simp: tagInv_def)

lemma tagInv_fresh:
  assumes "tagInv ta refs A" "nodeCount ta \<le> n"
  shows "refs n = 0"
proof -
  have "n \<notin> set (A UsedTags)" using tagInv_below [OF assms(1), of n UsedTags] assms(2) by auto
  then show ?thesis using assms(1) by (simp add: tagInv_def)
qed

lemma populate_inv:
  assumes inv: "tagInv ta refs A" and p: "populateFreeTags mm ta = Some tb"
  shows "\<exists>A'. tagInv tb refs A' \<and> A' FreeTags = A FreeTags @ [nodeCount ta..<nodeCount ta + tagCount ta]"
    and "initializeTags tb = initializeTags ta" "tagInitialValue tb = tagInitialValue ta" "tagCount tb = tagCount ta"
proof -
  obtain c g m where tb: "tb = populateLoop (tagCount ta) 0 c g (ta\<lparr>memoryState := m, gfxAllocations := gfxAllocations ta @ [g]\<rparr>)"
    using p by (auto simp: populateFreeTags_def Let_def split: if_splits prod.splits option.splits)
  let ?ta = "ta\<lparr>memoryState := m, gfxAllocations := gfxAllocations ta @ [g]\<rparr>"
  have h: "tagsHold ?ta A" using inv by (simp add: tagInv_def)
  have b: "\<forall>j. \<forall>n \<in> set (A j). n < nodeCount ?ta" using tagInv_below [OF inv] by simp
  have z: "\<forall>n \<ge> nodeCount ?ta. refCount (tagNodes ?ta n) = 0"
    using tagInv_fresh [OF inv] inv by (simp add: tagInv_def flip: unat_eq_0)
  note r = populateLoop_holds [OF h b z, of "tagCount ta" 0 c g]
  let ?A = "A(FreeTags := A FreeTags @ [nodeCount ta..<nodeCount ta + tagCount ta])"
  have old: "set (A FreeTags) \<union> set (A UsedTags) \<union> set (A DeferredTags) = {..<nodeCount ta}" using inv by (simp add: tagInv_def)
  have "set (?A FreeTags) \<union> set (?A UsedTags) \<union> set (?A DeferredTags) =
      (set (A FreeTags) \<union> set (A UsedTags) \<union> set (A DeferredTags)) \<union> {nodeCount ta..<nodeCount ta + tagCount ta}" by auto
  also have "\<dots> = {..<nodeCount ta + tagCount ta}" unfolding old by auto
  finally have "set (?A FreeTags) \<union> set (?A UsedTags) \<union> set (?A DeferredTags) = {..<nodeCount ta + tagCount ta}" .
  moreover have "tagsHold tb ?A" "nodeCount tb = nodeCount ta + tagCount ta" "\<And>n. refCount (tagNodes tb n) = refCount (tagNodes ta n)"
    using r unfolding tb by simp_all
  moreover have "\<forall>n. unat (refCount (tagNodes ta n)) = refs n" "\<forall>n. n \<in> set (?A UsedTags) \<longleftrightarrow> 0 < refs n"
    using inv by (simp_all add: tagInv_def)
  ultimately have "tagInv tb refs ?A" unfolding tagInv_def by presburger
  then show "\<exists>A'. tagInv tb refs A' \<and> A' FreeTags = A FreeTags @ [nodeCount ta..<nodeCount ta + tagCount ta]" by auto
  show "initializeTags tb = initializeTags ta" "tagInitialValue tb = tagInitialValue ta" "tagCount tb = tagCount ta"
    using r unfolding tb by simp_all
qed

lemma release_inv:
  assumes inv: "tagInv ta refs A"
  shows "\<exists>tb A'. releaseDeferredTags ta = Some tb \<and> tagInv tb refs A' \<and> initializeTags tb = initializeTags ta \<and>
    tagInitialValue tb = tagInitialValue ta \<and> tagCount tb = tagCount ta"
proof -
  let ?fs = "rev (filter (\<lambda>n. canBeReleased (tagNodes ta n)) (A DeferredTags))"
  let ?ds = "rev (filter (\<lambda>n. \<not> canBeReleased (tagNodes ta n)) (A DeferredTags))"
  obtain l s where r: "releaseDeferredTags ta = Some (ta\<lparr>tagLists := l, tagLinks := s\<rparr>)"
      "il.family l s (A(FreeTags := A FreeTags @ ?fs, DeferredTags := ?ds))"
    using releaseDeferredTags_result [of ta A] inv unfolding tagInv_def by blast
  have "set ?fs \<union> set ?ds = set (A DeferredTags)" by auto
  then have "tagInv (ta\<lparr>tagLists := l, tagLinks := s\<rparr>) refs (A(FreeTags := A FreeTags @ ?fs, DeferredTags := ?ds))"
    using inv r(2) by (auto simp: tagInv_def)
  then show ?thesis using r(1) by auto
qed

lemma take_inv:
  assumes inv: "tagInv ta refs A"
  shows "A FreeTags = [] \<Longrightarrow> takeFreeTag ta = (None, ta)"
    "A FreeTags = n # ns \<Longrightarrow> \<exists>l s. takeFreeTag ta = (Some n, ta\<lparr>tagLists := l, tagLinks := s\<rparr>) \<and> il.family l s (A(FreeTags := ns))"
proof -
  have f: "tagsHold ta A" using inv by (simp add: tagInv_def)
  have r: "represents (tagLists ta FreeTags, tagLinks ta) (A FreeTags)" by (rule il.family_rep [OF f])
  show "takeFreeTag ta = (None, ta)" if "A FreeTags = []"
    using removeFront_represents(1) r that by (simp add: takeFreeTag_def)
  assume free: "A FreeTags = n # ns"
  obtain l s where d: "removeFrontOneImpl (tagLists ta FreeTags, tagLinks ta) = (Some n, l, s)" "represents (l, s) ns"
      "keepsOthers (tagLinks ta) s (set (n # ns))"
    using removeFront_represents(2) r free by metis
  have "il.family ((tagLists ta)(FreeTags := l)) s (A(FreeTags := ns))"
  proof (rule il.family_update [OF f d(2,3)])
    fix j assume "j \<noteq> FreeTags"
    then show "set (A j) \<inter> (set (n # ns) \<union> set ns) = {}" using il.family_apart [OF f, of j FreeTags] free by auto
  qed
  then show "\<exists>l s. takeFreeTag ta = (Some n, ta\<lparr>tagLists := l, tagLinks := s\<rparr>) \<and> il.family l s (A(FreeTags := ns))"
    using d(1) by (auto simp: takeFreeTag_def)
qed

text \<open>What \<open>getTag\<close> does with a node it has taken from the free list.\<close>

definition useTag :: "node \<Rightarrow> 's TagAllocator \<Rightarrow> 's TagAllocator" where
  "useTag n ta =
     (let ta = pushTag pushFrontOneImpl UsedTags n ta;
          ta = updateNode incRefCount n ta
      in if initializeTags ta then updateNode (initializeNode (tagInitialValue ta)) n ta else ta)"

lemma getTag_alt:
  "getTag mm ta =
     (case (if peekIsEmpty (tagLists ta FreeTags, tagLinks ta) then releaseDeferredTags ta else Some ta) of
        None \<Rightarrow> None
      | Some ta \<Rightarrow>
          (case takeFreeTag ta of
             (Some n, ta) \<Rightarrow> Some (n, useTag n ta)
           | (None, ta) \<Rightarrow>
               (case populateFreeTags mm ta of
                  None \<Rightarrow> None
                | Some ta \<Rightarrow> (case takeFreeTag ta of (None, ta) \<Rightarrow> None | (Some n, ta) \<Rightarrow> Some (n, useTag n ta)))))"
  by (simp add: getTag_def useTag_def Let_def split: option.split prod.split)

lemma use_inv:
  assumes inv: "tagInv ta refs A" and free: "A FreeTags = n # ns" and f: "il.family l s (A(FreeTags := ns))"
  shows "\<exists>A'. tagInv (useTag n (ta\<lparr>tagLists := l, tagLinks := s\<rparr>)) (refs(n := refs n + 1)) A'"
    and "refs n = 0" "refCount (tagNodes (useTag n (ta\<lparr>tagLists := l, tagLinks := s\<rparr>)) n) = 1"
    "initializeTags ta \<Longrightarrow> tagContents (tagNodes (useTag n (ta\<lparr>tagLists := l, tagLinks := s\<rparr>)) n) = Some (tagInitialValue ta)"
proof -
  let ?ta = "ta\<lparr>tagLists := l, tagLinks := s\<rparr>" and ?A = "A(FreeTags := ns)"
  have d: "distinct (n # ns)" using represents_distinct [OF il.family_rep, of "tagLists ta" "tagLinks ta" A FreeTags] inv free
    by (simp add: tagInv_def)
  have out: "n \<notin> set (?A j)" for j
    using d tagInv_apart [OF inv, of j FreeTags] free by auto
  then have "n \<notin> set (A UsedTags)" by (metis TagList.distinct(1) fun_upd_other)
  then show zero: "refs n = 0" using inv by (simp add: tagInv_def)
  then have cnt: "refCount (tagNodes ta n) = 0" using inv by (metis tagInv_def unat_eq_0)
  let ?B = "?A(UsedTags := n # A UsedTags)"
  have h: "tagsHold (pushTag pushFrontOneImpl UsedTags n ?ta) ?B"
    using pushTag_holds [of ?ta ?A n pushFrontOneImpl "n # A UsedTags" UsedTags] f out by simp
  have fields: "tagLists (useTag n ?ta) = tagLists (pushTag pushFrontOneImpl UsedTags n ?ta)"
      "tagLinks (useTag n ?ta) = tagLinks (pushTag pushFrontOneImpl UsedTags n ?ta)" "nodeCount (useTag n ?ta) = nodeCount ta"
      "refCount (tagNodes (useTag n ?ta) k) = (if k = n then refCount (tagNodes ta n) + 1 else refCount (tagNodes ta k))" for k
    by (simp_all add: useTag_def Let_def incRefCount_def initializeNode_def)
  have "n < nodeCount ta" using tagInv_below [OF inv, of n FreeTags] free by simp
  then have "tagInv (useTag n ?ta) (refs(n := refs n + 1)) ?B"
    using inv h free zero cnt by (auto simp: tagInv_def fields)
  then show "\<exists>A'. tagInv (useTag n ?ta) (refs(n := refs n + 1)) A'" by blast
  show "refCount (tagNodes (useTag n ?ta) n) = 1" using fields(4) [of n] cnt by simp
  show "tagContents (tagNodes (useTag n ?ta) n) = Some (tagInitialValue ta)" if "initializeTags ta"
    using that by (simp add: useTag_def Let_def initializeNode_def)
qed

definition givesMemory :: "'s TagMemory \<Rightarrow> bool" where
  "givesMemory mm \<longleftrightarrow> (\<forall>d sz m. fst (allocateForDevice mm d sz m) \<noteq> None)"

lemma populate_returns: "givesMemory mm \<Longrightarrow> \<exists>tb. populateFreeTags mm ta = Some tb"
  by (auto simp: populateFreeTags_def givesMemory_def Let_def split: prod.splits option.splits)
    (metis fst_conv option.distinct(1))

text \<open>A tag from the free list, or nothing when the memory manager gives nothing.\<close>

lemma getTag_result:
  assumes inv: "tagInv ta refs A"
  shows "(getTag mm ta = None \<and> \<not> (givesMemory mm \<and> 0 < tagCount ta)) \<or>
    (\<exists>n tb A'. getTag mm ta = Some (n, tb) \<and> tagInv tb (refs(n := refs n + 1)) A' \<and> refs n = 0 \<and> refCount (tagNodes tb n) = 1 \<and>
       (initializeTags ta \<longrightarrow> tagContents (tagNodes tb n) = Some (tagInitialValue ta)))"
proof -
  obtain ta1 A1 where one: "(if peekIsEmpty (tagLists ta FreeTags, tagLinks ta) then releaseDeferredTags ta else Some ta) = Some ta1"
      "tagInv ta1 refs A1" "initializeTags ta1 = initializeTags ta" "tagInitialValue ta1 = tagInitialValue ta" "tagCount ta1 = tagCount ta"
    using release_inv [OF inv] inv by (cases "peekIsEmpty (tagLists ta FreeTags, tagLinks ta)") auto
  show ?thesis
  proof (cases "A1 FreeTags")
    case (Cons n ns)
    obtain l s where t: "takeFreeTag ta1 = (Some n, ta1\<lparr>tagLists := l, tagLinks := s\<rparr>)" "il.family l s (A1(FreeTags := ns))"
      using take_inv(2) [OF one(2) Cons] by blast
    have g: "getTag mm ta = Some (n, useTag n (ta1\<lparr>tagLists := l, tagLinks := s\<rparr>))" unfolding getTag_alt one(1) by (simp add: t(1))
    obtain A' where "tagInv (useTag n (ta1\<lparr>tagLists := l, tagLinks := s\<rparr>)) (refs(n := refs n + 1)) A'"
      using use_inv(1) [OF one(2) Cons t(2)] by blast
    then show ?thesis using g use_inv(2-4) [OF one(2) Cons t(2)] one(3,4) by auto
  next
    case Nil
    have t1: "takeFreeTag ta1 = (None, ta1)" by (rule take_inv(1) [OF one(2) Nil])
    show ?thesis
    proof (cases "populateFreeTags mm ta1")
      case None
      then have "getTag mm ta = None" unfolding getTag_alt one(1) by (simp add: t1)
      moreover have "\<not> givesMemory mm" using None populate_returns [of mm ta1] by auto
      ultimately show ?thesis by simp
    next
      case (Some ta2)
      obtain A2 where two: "tagInv ta2 refs A2" "A2 FreeTags = [nodeCount ta1..<nodeCount ta1 + tagCount ta1]"
        using populate_inv(1) [OF one(2) Some] Nil by auto
      note same = populate_inv(2-4) [OF one(2) Some]
      show ?thesis
      proof (cases "A2 FreeTags")
        case empty: Nil
        have "getTag mm ta = None" unfolding getTag_alt one(1) by (simp add: t1 Some take_inv(1) [OF two(1) empty])
        moreover have "tagCount ta = 0" using empty two(2) one(5) by auto
        ultimately show ?thesis by simp
      next
        case (Cons n ns)
        obtain l s where t: "takeFreeTag ta2 = (Some n, ta2\<lparr>tagLists := l, tagLinks := s\<rparr>)" "il.family l s (A2(FreeTags := ns))"
          using take_inv(2) [OF two(1) Cons] by blast
        have g: "getTag mm ta = Some (n, useTag n (ta2\<lparr>tagLists := l, tagLinks := s\<rparr>))"
          unfolding getTag_alt one(1) by (simp add: t1 Some t(1))
        obtain A' where "tagInv (useTag n (ta2\<lparr>tagLists := l, tagLinks := s\<rparr>)) (refs(n := refs n + 1)) A'"
          using use_inv(1) [OF two(1) Cons t(2)] by blast
        then show ?thesis using g use_inv(2-4) [OF two(1) Cons t(2)] one(3,4) same by auto
      qed
    qed
  qed
qed

lemma return_inv:
  assumes inv: "tagInv ta refs A" and n: "0 < refs n"
  shows "\<exists>A'. tagInv (returnTag n ta) (refs(n := refs n - 1)) A'"
proof -
  let ?nd = "(tagNodes ta n)\<lparr>refCount := refCount (tagNodes ta n) - 1\<rparr>"
  let ?ta = "updateNode (\<lambda>_. ?nd) n ta"
  have cnt: "unat (refCount (tagNodes ta n)) = refs n" using inv by (simp add: tagInv_def)
  then have nz: "refCount (tagNodes ta n) \<noteq> 0" using n by auto
  have one: "refCount (tagNodes ta n) = 1 \<longleftrightarrow> refs n = 1" using cnt by (metis unat_1 word_unat_eq_iff)
  have new: "unat (refCount ?nd) = refs n - 1" using cnt nz by (simp add: unat_minus_one)
  have used: "n \<in> set (A UsedTags)" using inv n by (simp add: tagInv_def)
  have h: "tagsHold ?ta A" using inv by (simp add: tagInv_def)
  show ?thesis
  proof (cases "refs n = 1")
    case False
    then have "returnTag n ta = ?ta" using one by (simp add: returnTag_def refCountFetchSub_def Let_def)
    moreover have "tagInv ?ta (refs(n := refs n - 1)) A" using inv h new False n by (auto simp: tagInv_def)
    ultimately show ?thesis by auto
  next
    case True
    have "returnTag n ta = (if canBeReleased ?nd then returnTagToFreePool n ?ta else returnTagToDeferredPool n ?ta)"
      using True one by (simp add: returnTag_def refCountFetchSub_def Let_def)
    then obtain i where i: "i \<noteq> UsedTags" "returnTag n ta = pushTag pushFrontOneImpl i n (removeTag UsedTags n ?ta)"
      by (cases "canBeReleased ?nd") (auto simp: returnTagToFreePool_def returnTagToDeferredPool_def)
    let ?A = "A(UsedTags := remove1 n (A UsedTags))" let ?B = "?A(i := n # A i)"
    have d: "distinct (A UsedTags)" using represents_distinct [OF il.family_rep [OF h]] .
    have r: "tagsHold (removeTag UsedTags n ?ta) ?A" by (rule removeTag_holds [OF h used])
    have out: "n \<notin> set (?A j)" for j using d used tagInv_apart [OF inv, of j UsedTags] by auto
    have "tagsHold (pushTag pushFrontOneImpl i n (removeTag UsedTags n ?ta)) ?B"
      by (rule pushTag_holds [OF r out]) (use i(1) in simp)
    moreover have "set (?B FreeTags) \<union> set (?B UsedTags) \<union> set (?B DeferredTags) = {..<nodeCount ta}"
      using inv i(1) d used by (cases i) (auto simp: tagInv_def)
    ultimately have "tagInv (pushTag pushFrontOneImpl i n (removeTag UsedTags n ?ta)) (refs(n := refs n - 1)) ?B"
      using inv new True d i(1) by (auto simp: tagInv_def)
    then show ?thesis using i(2) by auto
  qed
qed

section \<open>Property\<close>

text \<open>The users of the allocator: they return what they hold.\<close>

inductive tagStep :: "'s TagMemory \<Rightarrow> 's TagAllocator \<times> (node \<Rightarrow> nat) \<Rightarrow> 's TagAllocator \<times> (node \<Rightarrow> nat) \<Rightarrow> bool" for mm where
  TagGet: "getTag mm ta = Some (n, ta') \<Longrightarrow> tagStep mm (ta, refs) (ta', refs(n := refs n + 1))"
| TagShare: "0 < refs n \<Longrightarrow> refs n + 1 < 2 ^ 32 \<Longrightarrow> tagStep mm (ta, refs) (updateNode incRefCount n ta, refs(n := refs n + 1))"
| TagReturn: "0 < refs n \<Longrightarrow> tagStep mm (ta, refs) (returnTag n ta, refs(n := refs n - 1))"
| TagKeep: "tagStep mm (ta, refs) (updateNode (setDoNotReleaseNodes b) n ta, refs)"

lemma tagStep_inv:
  assumes "tagStep mm x y" "\<exists>A. tagInv (fst x) (snd x) A"
  shows "\<exists>A. tagInv (fst y) (snd y) A"
  using assms
proof cases
  case (TagGet ta n ta' refs)
  then obtain A where "tagInv ta refs A" using assms(2) by auto
  from getTag_result [OF this, of mm] TagGet show ?thesis by auto
next
  case (TagShare refs n ta)
  then obtain A where inv: "tagInv ta refs A" using assms(2) by auto
  have "unat (refCount (tagNodes ta n)) = refs n" using inv by (simp add: tagInv_def)
  then have "unat (refCount (tagNodes ta n) + 1) = refs n + 1"
    using TagShare(4) by (simp add: unat_plus_simple [THEN iffD1] no_olen_add_nat)
  then have "tagInv (updateNode incRefCount n ta) (refs(n := refs n + 1)) A"
    using inv TagShare(3) by (auto simp: tagInv_def incRefCount_def)
  then show ?thesis using TagShare by auto
next
  case (TagReturn refs n ta)
  then obtain A where "tagInv ta refs A" using assms(2) by auto
  from return_inv [of ta refs A n, OF this] TagReturn show ?thesis by auto
next
  case (TagKeep ta refs b n)
  then obtain A where "tagInv ta refs A" using assms(2) by auto
  then have "tagInv (updateNode (setDoNotReleaseNodes b) n ta) refs A" by (auto simp: tagInv_def setDoNotReleaseNodes_def)
  then show ?thesis using TagKeep by auto
qed

lemma tagSteps_inv:
  "(tagStep mm)\<^sup>*\<^sup>* x y \<Longrightarrow> \<exists>A. tagInv (fst x) (snd x) A \<Longrightarrow> \<exists>A. tagInv (fst y) (snd y) A"
  by (induction rule: rtranclp_induct) (auto dest: tagStep_inv)

lemma new_inv:
  assumes "newTagAllocator mm rootDevices count tagAlignment sz initialValue doNotRelease initTags m = Some ta"
  shows "\<exists>A. tagInv ta (\<lambda>_. 0) A"
proof -
  let ?t = "\<lparr>tagLinks = \<lparr>nextOf = (\<lambda>_. None), prevOf = (\<lambda>_. None), deletedNodes = []\<rparr>, tagLists = (\<lambda>_. newIDList),
    tagNodes = (\<lambda>_. newTagNode), nodeCount = 0, gfxAllocations = [], rootDeviceIndices = rootDevices,
    maxRootDeviceIndex = fold max rootDevices 0, tagCount = count, tagSize = alignUp sz tagAlignment,
    tagInitialValue = initialValue, doNotReleaseNodes = doNotRelease, initializeTags = initTags, memoryState = m\<rparr>"
  have "tagInv ?t (\<lambda>_. 0) (\<lambda>_. [])" by (simp add: tagInv_def il.family_def new_represents newTagNode_def)
  from populate_inv(1) [OF this assms [unfolded newTagAllocator_def]] show ?thesis by blast
qed

text \<open>
  C12: a tag has one owner at a time. After any history in which the users return only tags they hold, the count
  of every node is the number of its users, and as long as the memory manager gives memory \<open>getTag\<close> returns a tag:
  one that nobody uses, counted once, and with the initial value when tags are initialised.
\<close>

theorem tags_exclusive:
  assumes new: "newTagAllocator mm rootDevices count tagAlignment sz initialValue doNotRelease initTags m = Some ta0"
    and steps: "(tagStep mm)\<^sup>*\<^sup>* (ta0, \<lambda>_. 0) (ta, refs)" and mem: "givesMemory mm" "0 < tagCount ta"
  shows "(\<forall>n. unat (refCount (tagNodes ta n)) = refs n) \<and>
    (\<exists>n ta'. getTag mm ta = Some (n, ta') \<and> refs n = 0 \<and> refCount (tagNodes ta' n) = 1 \<and>
       (initializeTags ta \<longrightarrow> tagContents (tagNodes ta' n) = Some (tagInitialValue ta)))"
proof -
  obtain A where inv: "tagInv ta refs A" using tagSteps_inv [OF steps] new_inv [OF new] by auto
  then have "\<forall>n. unat (refCount (tagNodes ta n)) = refs n" by (simp add: tagInv_def)
  then show ?thesis using getTag_result [OF inv, of mm] mem by auto
qed

text \<open>A memory manager that gives consecutive pages.\<close>

definition sampleTagMemory :: "u64 TagMemory" where
  "sampleTagMemory = \<lparr>allocateForDevice = (\<lambda>d n p. (Some (p, p), p + 4096)), allocateForDevices = (\<lambda>ds n p. (p, p + 4096)),
     freeTagMemory = (\<lambda>p s. s)\<rparr>"

lemma tags_exclusive_witness:
  "\<exists>ta n ta'. newTagAllocator sampleTagMemory [0] 2 64 40 7 False True 65536 = Some ta \<and> 
    getTag sampleTagMemory ta = Some (n, ta') \<and> refCount (tagNodes ta' n) = 1 \<and> tagContents (tagNodes ta' n) = Some 7"
proof -
  have g: "givesMemory sampleTagMemory" by (simp add: givesMemory_def sampleTagMemory_def)
  obtain ta where ta: "newTagAllocator sampleTagMemory [0] 2 64 40 7 False True 65536 = Some ta"
    unfolding newTagAllocator_def using populate_returns [OF g] by blast
  have "tagCount ta = 2 \<and> initializeTags ta \<and> tagInitialValue ta = 7"
    using ta by (auto simp: newTagAllocator_def populateFreeTags_def sampleTagMemory_def Let_def pushTag_def numeral_2_eq_2
      split: prod.splits)
  then show ?thesis using ta tags_exclusive [OF ta rtranclp.rtrancl_refl g] by auto
qed

end
