(* ===== verification/Ring_Commands.thy ===== *)
theory Ring_Commands
  imports Prelude
begin

text \<open>
  The commands of a ring buffer and the command sequences of relaxed ordering:
  \<open>command_container/command_encoder.{h,inl}\<close> (conditional batch buffer starts, register arithmetic),
  \<open>direct_submission/relaxed_ordering_helper.h\<close> and \<open>direct_submission_relaxed_ordering.inl\<close>. The code writes
  sequences of a size it has computed beforehand; the lemmas show that the sizes are the ones written, so that
  none of the checks of the code fires. The sizes of single commands depend on the hardware and are a
  parameter.
\<close>

section \<open>Commands\<close>

datatype AluRegisters = opcodeLoad | opcodeLoad0 | opcodeLoadind | opcodeStore | opcodeStoreind | opcodeAdd | opcodeSub
  | opcodeShl | opcodeFenceRd | opcodeFenceWr | opcodeNone | srca | srcb | accu | zf | cf | gpr nat

type_synonym AluInstruction = "AluRegisters \<times> AluRegisters \<times> AluRegisters"

datatype MiPredicateType = predicateDisable | noopOnResult2Clear | noopOnResult2Set

datatype CompareOperation = compareEqual | compareNotEqual | compareGreaterOrEqual | compareLess

text \<open>A semaphore wait holds until the 32 bits at the address are greater than or equal to the value.\<close>

datatype RingCommand =
    MiBatchBufferStart u64 bool bool
  | MiBatchBufferEnd
  | MiSemaphoreWait u64 u64
  | MiLoadRegisterImm u32 u32
  | MiLoadRegisterReg u32 u32
  | MiLoadRegisterMem u32 u64
  | MiMath "AluInstruction list"
  | MiSetPredicate MiPredicateType
  | MiStoreDataImm u64 u32
  | MiArbCheck "bool option"
  | MonitorFence u64 u64
  | CacheFlush u64
  | TlbFlush u64
  | PreemptionCommands
  | PartitionRegisters u64 u32
  | SystemMemoryFence
  | AcquireFence u64
  | Noops u64
  | ClientCommands u64 u64

record RingSizes =
  sizeBatchBufferStart :: u64
  sizeBatchBufferEnd :: u64
  sizeSemaphoreWait :: u64
  sizeLoadRegisterImm :: u64
  sizeLoadRegisterReg :: u64
  sizeLoadRegisterMem :: u64
  sizeMath :: u64
  sizeAluInstruction :: u64
  sizeSetPredicate :: u64
  sizeStoreDataImm :: u64
  sizeArbCheck :: u64
  sizeMonitorFence :: u64
  sizeCacheFlush :: u64
  sizeTlbFlush :: u64
  sizePreemption :: u64
  sizePartitionRegisters :: u64
  sizeSystemMemoryFence :: u64
  sizeAcquireFence :: u64

fun commandBytes :: "RingSizes \<Rightarrow> RingCommand \<Rightarrow> u64" where
  "commandBytes sz (MiBatchBufferStart a i p) = sizeBatchBufferStart sz"
| "commandBytes sz MiBatchBufferEnd = sizeBatchBufferEnd sz"
| "commandBytes sz (MiSemaphoreWait a v) = sizeSemaphoreWait sz"
| "commandBytes sz (MiLoadRegisterImm r v) = sizeLoadRegisterImm sz"
| "commandBytes sz (MiLoadRegisterReg d s) = sizeLoadRegisterReg sz"
| "commandBytes sz (MiLoadRegisterMem d a) = sizeLoadRegisterMem sz"
| "commandBytes sz (MiMath ops) = sizeMath sz + of_nat (length ops) * sizeAluInstruction sz"
| "commandBytes sz (MiSetPredicate p) = sizeSetPredicate sz"
| "commandBytes sz (MiStoreDataImm a v) = sizeStoreDataImm sz"
| "commandBytes sz (MiArbCheck d) = sizeArbCheck sz"
| "commandBytes sz (MonitorFence a v) = sizeMonitorFence sz"
| "commandBytes sz (CacheFlush a) = sizeCacheFlush sz"
| "commandBytes sz (TlbFlush a) = sizeTlbFlush sz"
| "commandBytes sz PreemptionCommands = sizePreemption sz"
| "commandBytes sz (PartitionRegisters a o') = sizePartitionRegisters sz"
| "commandBytes sz SystemMemoryFence = sizeSystemMemoryFence sz"
| "commandBytes sz (AcquireFence a) = sizeAcquireFence sz"
| "commandBytes sz (Noops n) = n"
| "commandBytes sz (ClientCommands a n) = n"

definition blockBytes :: "RingSizes \<Rightarrow> RingCommand list \<Rightarrow> u64" where
  "blockBytes sz cs = sum_list (map (commandBytes sz) cs)"

section \<open>Registers and conditional jumps\<close>

definition csGpr :: "nat \<Rightarrow> u32" where "csGpr n = 0x2600 + 8 * of_nat n"
definition csPredicateResult2 :: u32 where "csPredicateResult2 = 0x23BC"

definition lowHalf :: "u64 \<Rightarrow> u32" where "lowHalf a = ucast (a AND 0xFFFFFFFF)"
definition highHalf :: "u64 \<Rightarrow> u32" where "highHalf a = ucast (drop_bit 32 a)"

definition loadAddress :: "nat \<Rightarrow> u64 \<Rightarrow> RingCommand list" where
  "loadAddress n a = [MiLoadRegisterImm (csGpr n) (lowHalf a), MiLoadRegisterImm (csGpr n + 4) (highHalf a)]"

definition encodeIncrementOrDecrement :: "nat \<Rightarrow> AluRegisters \<Rightarrow> RingCommand list" where
  "encodeIncrementOrDecrement n operation =
     [MiLoadRegisterImm (csGpr 7) 1, MiLoadRegisterImm (csGpr 7 + 4) 0,
      MiMath [(opcodeLoad, srca, gpr n), (opcodeLoad, srcb, gpr 7), (operation, opcodeNone, opcodeNone),
        (opcodeStore, gpr n, accu)]]"

definition encodeIncrement :: "nat \<Rightarrow> RingCommand list" where
  "encodeIncrement n = encodeIncrementOrDecrement n opcodeAdd"

definition encodeDecrement :: "nat \<Rightarrow> RingCommand list" where
  "encodeDecrement n = encodeIncrementOrDecrement n opcodeSub"

definition programConditionalBatchBufferStartBase ::
  "u64 \<Rightarrow> nat \<Rightarrow> nat \<Rightarrow> CompareOperation \<Rightarrow> bool \<Rightarrow> RingCommand list" where
  "programConditionalBatchBufferStartBase startAddress regA regB compareOperation indirect =
     [MiMath [(opcodeLoad, srca, gpr regA), (opcodeLoad, srcb, gpr regB), (opcodeSub, opcodeNone, opcodeNone),
        (opcodeStore, gpr 7, if compareOperation \<in> {compareEqual, compareNotEqual} then zf else cf)],
      MiLoadRegisterReg csPredicateResult2 (csGpr 7),
      MiSetPredicate (if compareOperation \<in> {compareNotEqual, compareGreaterOrEqual} then noopOnResult2Set else noopOnResult2Clear),
      MiBatchBufferStart startAddress indirect True,
      MiSetPredicate predicateDisable]"

definition programConditionalDataRegBatchBufferStart ::
  "u64 \<Rightarrow> u32 \<Rightarrow> u64 \<Rightarrow> CompareOperation \<Rightarrow> bool \<Rightarrow> bool \<Rightarrow> RingCommand list" where
  "programConditionalDataRegBatchBufferStart startAddress compareReg compareData compareOperation indirect useQwordData =
     [MiLoadRegisterReg (csGpr 7) compareReg,
      if useQwordData then MiLoadRegisterReg (csGpr 7 + 4) (compareReg + 4) else MiLoadRegisterImm (csGpr 7 + 4) 0,
      MiLoadRegisterImm (csGpr 8) (lowHalf compareData),
      MiLoadRegisterImm (csGpr 8 + 4) (if useQwordData then highHalf compareData else 0)] @
     programConditionalBatchBufferStartBase startAddress 7 8 compareOperation indirect"

definition programConditionalRegRegBatchBufferStart ::
  "u64 \<Rightarrow> nat \<Rightarrow> nat \<Rightarrow> CompareOperation \<Rightarrow> bool \<Rightarrow> RingCommand list" where
  "programConditionalRegRegBatchBufferStart startAddress compareReg0 compareReg1 compareOperation indirect =
     programConditionalBatchBufferStartBase startAddress compareReg0 compareReg1 compareOperation indirect"

definition programConditionalRegMemBatchBufferStart ::
  "u64 \<Rightarrow> u64 \<Rightarrow> u32 \<Rightarrow> CompareOperation \<Rightarrow> bool \<Rightarrow> RingCommand list" where
  "programConditionalRegMemBatchBufferStart startAddress compareAddress compareReg compareOperation indirect =
     [MiLoadRegisterMem (csGpr 7) compareAddress, MiLoadRegisterImm (csGpr 7 + 4) 0,
      MiLoadRegisterReg (csGpr 8) compareReg, MiLoadRegisterImm (csGpr 8 + 4) 0] @
     programConditionalBatchBufferStartBase startAddress 7 8 compareOperation indirect"

section \<open>Sizes\<close>

definition aluCmdsSize :: "RingSizes \<Rightarrow> u64 \<Rightarrow> u64" where
  "aluCmdsSize sz aluCount = sizeMath sz + aluCount * sizeAluInstruction sz"

definition getCmdSizeForIncrementOrDecrement :: "RingSizes \<Rightarrow> u64" where
  "getCmdSizeForIncrementOrDecrement sz = aluCmdsSize sz 4 + 2 * sizeLoadRegisterImm sz"

definition getCmdSizeConditionalBufferStartBase :: "RingSizes \<Rightarrow> u64" where
  "getCmdSizeConditionalBufferStartBase sz =
     aluCmdsSize sz 4 + sizeLoadRegisterReg sz + 2 * sizeSetPredicate sz + sizeBatchBufferStart sz"

definition getCmdSizeConditionalDataRegBatchBufferStart :: "RingSizes \<Rightarrow> bool \<Rightarrow> u64" where
  "getCmdSizeConditionalDataRegBatchBufferStart sz useQwordData =
     getCmdSizeConditionalBufferStartBase sz + sizeLoadRegisterReg sz + 2 * sizeLoadRegisterImm sz +
     (if useQwordData then sizeLoadRegisterReg sz else sizeLoadRegisterImm sz)"

definition getCmdSizeConditionalRegMemBatchBufferStart :: "RingSizes \<Rightarrow> u64" where
  "getCmdSizeConditionalRegMemBatchBufferStart sz =
     getCmdSizeConditionalBufferStartBase sz + sizeLoadRegisterMem sz + sizeLoadRegisterReg sz + 2 * sizeLoadRegisterImm sz"

definition getCmdSizeConditionalRegRegBatchBufferStart :: "RingSizes \<Rightarrow> u64" where
  "getCmdSizeConditionalRegRegBatchBufferStart sz = getCmdSizeConditionalBufferStartBase sz"

definition getSizeTaskStoreSection :: "RingSizes \<Rightarrow> u64" where
  "getSizeTaskStoreSection sz =
     6 * sizeLoadRegisterImm sz + aluCmdsSize sz 9 + getCmdSizeForIncrementOrDecrement sz + sizeSetPredicate sz"

definition getSizeRegistersInit :: "RingSizes \<Rightarrow> u64" where
  "getSizeRegistersInit sz = 4 * sizeLoadRegisterImm sz"

definition getSizeReturnPtrRegs :: "RingSizes \<Rightarrow> u64" where
  "getSizeReturnPtrRegs sz = 4 * sizeLoadRegisterImm sz"

definition getQueueSizeLimitValueOffset :: "RingSizes \<Rightarrow> u64" where
  "getQueueSizeLimitValueOffset sz = sizeLoadRegisterReg sz + sizeLoadRegisterImm sz + (sizeLoadRegisterImm sz - 4)"

text \<open>The sections of the static scheduler: where each starts.\<close>

definition loopStartSectionStart :: "RingSizes \<Rightarrow> u64" where
  "loopStartSectionStart sz =
     getCmdSizeConditionalDataRegBatchBufferStart sz False + 6 * sizeLoadRegisterImm sz + sizeSetPredicate sz +
     2 * sizeLoadRegisterReg sz"

definition removeTaskSectionStart :: "RingSizes \<Rightarrow> u64" where
  "removeTaskSectionStart sz =
     loopStartSectionStart sz +
     (4 * sizeLoadRegisterImm sz + aluCmdsSize sz 10 + sizeBatchBufferStart sz + sizeSetPredicate sz)"

definition tasksListLoopCheckSectionStart :: "RingSizes \<Rightarrow> u64" where
  "tasksListLoopCheckSectionStart sz =
     removeTaskSectionStart sz +
     (2 * getCmdSizeForIncrementOrDecrement sz + getCmdSizeConditionalDataRegBatchBufferStart sz False +
      4 * sizeLoadRegisterImm sz + aluCmdsSize sz 14 + sizeSetPredicate sz + 2 * sizeLoadRegisterReg sz)"

definition drainRequestSectionStart :: "RingSizes \<Rightarrow> u64" where
  "drainRequestSectionStart sz =
     tasksListLoopCheckSectionStart sz +
     (getCmdSizeForIncrementOrDecrement sz + getCmdSizeConditionalRegRegBatchBufferStart sz + 2 * sizeLoadRegisterImm sz +
      sizeSetPredicate sz)"

definition schedulerLoopCheckSectionStart :: "RingSizes \<Rightarrow> u64" where
  "schedulerLoopCheckSectionStart sz =
     drainRequestSectionStart sz + (sizeArbCheck sz + 2 * getCmdSizeConditionalDataRegBatchBufferStart sz False)"

definition staticSchedulerTotalSize :: "RingSizes \<Rightarrow> u64" where
  "staticSchedulerTotalSize sz =
     schedulerLoopCheckSectionStart sz +
     (2 * sizeLoadRegisterImm sz + aluCmdsSize sz 4 + getCmdSizeConditionalRegMemBatchBufferStart sz + sizeBatchBufferStart sz)"

text \<open>The sections of the dynamic scheduler, which is copied into the ring.\<close>

definition semaphoreSectionStart :: "RingSizes \<Rightarrow> u64" where
  "semaphoreSectionStart sz = 3 * sizeLoadRegisterImm sz + sizeBatchBufferStart sz"

definition semaphoreSectionSize :: "RingSizes \<Rightarrow> u64" where
  "semaphoreSectionSize sz = sizeSemaphoreWait sz + sizeSetPredicate sz"

definition dynamicSchedulerTotalSize :: "RingSizes \<Rightarrow> u64" where
  "dynamicSchedulerTotalSize sz =
     semaphoreSectionStart sz + semaphoreSectionSize sz + (sizeLoadRegisterImm sz + sizeSetPredicate sz)"

section \<open>The static scheduler\<close>

text \<open>
  The scheduler that the GPU runs over the list of deferred tasks. GPR 1 is the number of tasks, GPR 2 the index of the
  loop, GPR 5 a request to drain, GPR 9 the address of the semaphore section in the ring and GPR 11 the value waited for.
\<close>

definition schedulerInitSection :: "RingSizes \<Rightarrow> u64 \<Rightarrow> RingCommand list" where
  "schedulerInitSection sz start =
     [MiSetPredicate predicateDisable, MiLoadRegisterReg (csGpr 0) (csGpr 9), MiLoadRegisterReg (csGpr 0 + 4) (csGpr 9 + 4)] @
     programConditionalDataRegBatchBufferStart 0 (csGpr 1) 0 compareEqual True False @
     [MiLoadRegisterImm (csGpr 2) 0, MiLoadRegisterImm (csGpr 2 + 4) 0] @
     loadAddress 3 (start + removeTaskSectionStart sz) @ loadAddress 4 (start + tasksListLoopCheckSectionStart sz)"

definition dispatchTaskSection :: "u64 \<Rightarrow> RingCommand list" where
  "dispatchTaskSection tasksList =
     [MiSetPredicate predicateDisable, MiLoadRegisterImm (csGpr 6) 8, MiLoadRegisterImm (csGpr 6 + 4) 0] @
     loadAddress 8 tasksList @
     [MiMath [(opcodeLoad, srca, gpr 2), (opcodeLoad, srcb, gpr 6), (opcodeShl, opcodeNone, opcodeNone),
        (opcodeStore, gpr 7, accu), (opcodeLoad, srca, gpr 7), (opcodeLoad, srcb, gpr 8), (opcodeAdd, opcodeNone, opcodeNone),
        (opcodeStore, gpr 6, accu), (opcodeLoadind, gpr 0, accu), (opcodeFenceRd, opcodeNone, opcodeNone)],
      MiBatchBufferStart 0 True False]"

definition removeTaskSection :: "u64 \<Rightarrow> RingCommand list" where
  "removeTaskSection tasksList =
     [MiSetPredicate predicateDisable] @ encodeDecrement 1 @ encodeDecrement 2 @
     [MiLoadRegisterReg (csGpr 0) (csGpr 9), MiLoadRegisterReg (csGpr 0 + 4) (csGpr 9 + 4)] @
     programConditionalDataRegBatchBufferStart 0 (csGpr 1) 0 compareEqual True False @
     [MiLoadRegisterImm (csGpr 7) 8, MiLoadRegisterImm (csGpr 7 + 4) 0] @ loadAddress 8 tasksList @
     [MiMath [(opcodeLoad, srca, gpr 1), (opcodeLoad, srcb, gpr 7), (opcodeShl, opcodeNone, opcodeNone),
        (opcodeStore, gpr 7, accu), (opcodeLoad, srca, gpr 7), (opcodeLoad, srcb, gpr 8), (opcodeAdd, opcodeNone, opcodeNone),
        (opcodeLoadind, gpr 7, accu), (opcodeFenceRd, opcodeNone, opcodeNone), (opcodeLoad, srca, gpr 6),
        (opcodeLoad0, srcb, opcodeNone), (opcodeAdd, opcodeNone, opcodeNone), (opcodeStoreind, accu, gpr 7),
        (opcodeFenceWr, opcodeNone, opcodeNone)]]"

definition listLoopCheckSection :: "RingSizes \<Rightarrow> u64 \<Rightarrow> RingCommand list" where
  "listLoopCheckSection sz start =
     [MiSetPredicate predicateDisable] @ encodeIncrement 2 @
     programConditionalRegRegBatchBufferStart (start + loopStartSectionStart sz) 1 2 compareNotEqual False @
     [MiLoadRegisterImm (csGpr 2) 0, MiLoadRegisterImm (csGpr 2 + 4) 0]"

definition drainRequestSection :: "RingSizes \<Rightarrow> u64 \<Rightarrow> u32 \<Rightarrow> RingCommand list" where
  "drainRequestSection sz start queueSize =
     [MiArbCheck None] @
     programConditionalDataRegBatchBufferStart (start + loopStartSectionStart sz) (csGpr 1) (ucast queueSize)
       compareGreaterOrEqual False False @
     programConditionalDataRegBatchBufferStart (start + loopStartSectionStart sz) (csGpr 5) 1 compareEqual False False"

definition schedulerLoopCheckSection :: "RingSizes \<Rightarrow> u64 \<Rightarrow> u64 \<Rightarrow> RingCommand list" where
  "schedulerLoopCheckSection sz start semaphoreGpuVa =
     [MiLoadRegisterImm (csGpr 10) (ucast (semaphoreSectionSize sz)), MiLoadRegisterImm (csGpr 10 + 4) 0,
      MiMath [(opcodeLoad, srca, gpr 9), (opcodeLoad, srcb, gpr 10), (opcodeAdd, opcodeNone, opcodeNone),
        (opcodeStore, gpr 0, accu)]] @
     programConditionalRegMemBatchBufferStart 0 semaphoreGpuVa (csGpr 11) compareGreaterOrEqual True @
     [MiBatchBufferStart (start + loopStartSectionStart sz) False False]"

text \<open>Sections are written behind one another; each has to start where the constants say, and all have to fit.\<close>

fun writeSections ::
  "RingSizes \<Rightarrow> u64 \<Rightarrow> (u64 \<times> RingCommand list) list \<Rightarrow> u64 \<Rightarrow> RingCommand list \<Rightarrow> RingCommand list result" where
  "writeSections sz available [] totalSize written =
     (if blockBytes sz written \<noteq> totalSize then Inl Unrecoverable else Inr written)"
| "writeSections sz available ((start, cs) # sections) totalSize written =
     (if blockBytes sz written \<noteq> start then Inl Unrecoverable
      else if available < blockBytes sz (written @ cs) then Inl Unrecoverable
      else writeSections sz available sections totalSize (written @ cs))"

definition staticScheduler :: "RingSizes \<Rightarrow> u64 \<Rightarrow> u64 \<Rightarrow> u64 \<Rightarrow> u32 \<Rightarrow> RingCommand list result" where
  "staticScheduler sz start tasksList semaphoreGpuVa queueSize =
     writeSections sz 0x10000
       [(0, schedulerInitSection sz start),
        (loopStartSectionStart sz, dispatchTaskSection tasksList),
        (removeTaskSectionStart sz, removeTaskSection tasksList),
        (tasksListLoopCheckSectionStart sz, listLoopCheckSection sz start),
        (drainRequestSectionStart sz, drainRequestSection sz start queueSize),
        (schedulerLoopCheckSectionStart sz, schedulerLoopCheckSection sz start semaphoreGpuVa)]
       (staticSchedulerTotalSize sz) []"

section \<open>The sections copied into the ring\<close>

definition initRegistersSection :: "RingCommand list" where
  "initRegistersSection =
     [MiLoadRegisterImm (csGpr 1) 0, MiLoadRegisterImm (csGpr 1 + 4) 0, MiLoadRegisterImm (csGpr 5) 0, MiLoadRegisterImm (csGpr 5 + 4) 0]"

definition returnPtrRegsSection :: "RingSizes \<Rightarrow> u64 \<Rightarrow> RingCommand list" where
  "returnPtrRegsSection sz returnPtr = loadAddress 4 returnPtr @ loadAddress 3 (returnPtr + getSizeTaskStoreSection sz)"

definition taskStoreTemplate :: "u64 \<Rightarrow> RingCommand list" where
  "taskStoreTemplate tasksList =
     [MiSetPredicate predicateDisable] @ loadAddress 6 tasksList @
     [MiLoadRegisterImm (csGpr 7) 0, MiLoadRegisterImm (csGpr 7 + 4) 0, MiLoadRegisterImm (csGpr 8) 8, MiLoadRegisterImm (csGpr 8 + 4) 0,
      MiMath [(opcodeLoad, srca, gpr 1), (opcodeLoad, srcb, gpr 8), (opcodeShl, opcodeNone, opcodeNone),
        (opcodeStore, gpr 8, accu), (opcodeLoad, srca, gpr 8), (opcodeLoad, srcb, gpr 6), (opcodeAdd, opcodeNone, opcodeNone),
        (opcodeStoreind, accu, gpr 7), (opcodeFenceWr, opcodeNone, opcodeNone)]] @
     encodeIncrement 1"

definition patchTaskStart :: "u64 \<Rightarrow> RingCommand list \<Rightarrow> RingCommand list" where
  "patchTaskStart taskStartSectionVa cs =
     cs[3 := MiLoadRegisterImm (csGpr 7) (lowHalf taskStartSectionVa),
        4 := MiLoadRegisterImm (csGpr 7 + 4) (highHalf taskStartSectionVa)]"

definition dynamicSchedulerTemplate :: "u64 \<Rightarrow> RingCommand list" where
  "dynamicSchedulerTemplate schedulerStartAddress =
     [MiLoadRegisterImm (csGpr 11) 0, MiLoadRegisterImm (csGpr 9) 0, MiLoadRegisterImm (csGpr 9 + 4) 0,
      MiBatchBufferStart schedulerStartAddress False False, MiSetPredicate predicateDisable, MiSemaphoreWait 0 0,
      MiSetPredicate predicateDisable, MiLoadRegisterImm (csGpr 5) 0]"

definition patchScheduler :: "RingSizes \<Rightarrow> u64 \<Rightarrow> u64 \<Rightarrow> u32 \<Rightarrow> RingCommand list \<Rightarrow> RingCommand list" where
  "patchScheduler sz schedulerStartVa semaphoreGpuVa value cs =
     cs[0 := MiLoadRegisterImm (csGpr 11) value,
        1 := MiLoadRegisterImm (csGpr 9) (lowHalf (schedulerStartVa + semaphoreSectionStart sz)),
        2 := MiLoadRegisterImm (csGpr 9 + 4) (highHalf (schedulerStartVa + semaphoreSectionStart sz)),
        5 := MiSemaphoreWait semaphoreGpuVa (ucast value)]"

section \<open>The sizes are those written\<close>

lemma blockBytes_simps [simp]:
  "blockBytes sz [] = 0" "blockBytes sz (c # cs) = commandBytes sz c + blockBytes sz cs"
  "blockBytes sz (cs @ ds) = blockBytes sz cs + blockBytes sz ds"
  by (simp_all add: blockBytes_def)

lemma blockBytes_update [simp]:
  "i < length cs \<Longrightarrow> blockBytes sz (cs[i := c]) = blockBytes sz cs - commandBytes sz (cs ! i) + commandBytes sz c"
  by (induction cs arbitrary: i) (auto simp: nth_Cons' split: nat.splits)

lemmas encoder_defs = encodeIncrement_def encodeDecrement_def encodeIncrementOrDecrement_def loadAddress_def
  programConditionalDataRegBatchBufferStart_def programConditionalRegRegBatchBufferStart_def
  programConditionalRegMemBatchBufferStart_def programConditionalBatchBufferStartBase_def

lemmas size_defs = aluCmdsSize_def getCmdSizeForIncrementOrDecrement_def getCmdSizeConditionalBufferStartBase_def
  getCmdSizeConditionalDataRegBatchBufferStart_def getCmdSizeConditionalRegMemBatchBufferStart_def
  getCmdSizeConditionalRegRegBatchBufferStart_def

lemma conditional_sizes [simp]:
  "blockBytes sz (encodeIncrement n) = getCmdSizeForIncrementOrDecrement sz"
  "blockBytes sz (encodeDecrement n) = getCmdSizeForIncrementOrDecrement sz"
  "blockBytes sz (loadAddress n a) = 2 * sizeLoadRegisterImm sz"
  "blockBytes sz (programConditionalDataRegBatchBufferStart a r v c i q) = getCmdSizeConditionalDataRegBatchBufferStart sz q"
  "blockBytes sz (programConditionalRegRegBatchBufferStart a m n c i) = getCmdSizeConditionalRegRegBatchBufferStart sz"
  "blockBytes sz (programConditionalRegMemBatchBufferStart a b r c i) = getCmdSizeConditionalRegMemBatchBufferStart sz"
  by (simp_all add: encoder_defs size_defs)

lemma section_sizes [simp]:
  "blockBytes sz initRegistersSection = getSizeRegistersInit sz"
  "blockBytes sz (returnPtrRegsSection sz' p) = getSizeReturnPtrRegs sz"
  "blockBytes sz (taskStoreTemplate l) = getSizeTaskStoreSection sz"
  "blockBytes sz (dynamicSchedulerTemplate a) = dynamicSchedulerTotalSize sz"
  by (simp_all add: initRegistersSection_def getSizeRegistersInit_def returnPtrRegsSection_def getSizeReturnPtrRegs_def
    taskStoreTemplate_def getSizeTaskStoreSection_def dynamicSchedulerTemplate_def dynamicSchedulerTotalSize_def
    semaphoreSectionStart_def semaphoreSectionSize_def aluCmdsSize_def)

section \<open>Hardware sizes\<close>

text \<open>The commands of all supported GPUs are small: register commands at most 64 bytes, barriers with workarounds at most 1024.\<close>

definition smallCommands :: "RingSizes \<Rightarrow> bool" where
  "smallCommands sz \<longleftrightarrow>
     unat (sizeBatchBufferStart sz) \<le> 64 \<and> unat (sizeBatchBufferEnd sz) \<le> unat (sizeBatchBufferStart sz) \<and>
     unat (sizeSemaphoreWait sz) \<le> 64 \<and> unat (sizeLoadRegisterImm sz) \<le> 64 \<and> unat (sizeLoadRegisterReg sz) \<le> 64 \<and>
     unat (sizeLoadRegisterMem sz) \<le> 64 \<and> unat (sizeMath sz) \<le> 16 \<and> unat (sizeAluInstruction sz) \<le> 8 \<and>
     unat (sizeSetPredicate sz) \<le> 64 \<and> unat (sizeStoreDataImm sz) \<le> 64 \<and> unat (sizeArbCheck sz) \<le> 64 \<and>
     unat (sizeMonitorFence sz) \<le> 1024 \<and> unat (sizeCacheFlush sz) \<le> 1024 \<and> unat (sizeTlbFlush sz) \<le> 1024 \<and>
     unat (sizePreemption sz) \<le> 1024 \<and> unat (sizePartitionRegisters sz) \<le> 1024 \<and>
     unat (sizeSystemMemoryFence sz) \<le> 1024 \<and> unat (sizeAcquireFence sz) \<le> 1024"

lemma unat_add_bound: "unat (a :: u64) \<le> m \<Longrightarrow> unat b \<le> n \<Longrightarrow> unat (a + b) \<le> m + n"
  by (simp add: unat_word_ariths(1) le_trans [OF mod_less_eq_dividend])

lemma unat_mult_bound: "unat (a :: u64) \<le> m \<Longrightarrow> unat b \<le> n \<Longrightarrow> unat (a * b) \<le> m * n"
  using mult_le_mono [of "unat a" m "unat b" n] by (simp add: unat_word_ariths(2) le_trans [OF mod_less_eq_dividend])

lemma blockBytes_bound:
  "\<forall>c \<in> set cs. unat (commandBytes sz c) \<le> b \<Longrightarrow> unat (blockBytes sz cs) \<le> b * length cs"
proof (induction cs)
  case (Cons c cs)
  then show ?case using unat_add_bound [of "commandBytes sz c" b "blockBytes sz cs" "b * length cs"] by simp
qed simp

lemma staticScheduler_returns:
  assumes sz: "smallCommands sz"
  shows "\<exists>cs. staticScheduler sz start tasksList semaphoreGpuVa queueSize = Inr cs"
proof -
  let ?sections = "[schedulerInitSection sz start, dispatchTaskSection tasksList, removeTaskSection tasksList,
    listLoopCheckSection sz start, drainRequestSection sz start queueSize, schedulerLoopCheckSection sz start semaphoreGpuVa]"
  have math: "unat (sizeMath sz + of_nat n * sizeAluInstruction sz) \<le> 128" if "n \<le> 14" for n
  proof -
    have "unat (of_nat n :: u64) \<le> 14" using that by (simp add: unat_of_nat le_trans [OF mod_less_eq_dividend])
    from unat_add_bound [OF _ unat_mult_bound [OF this], of "sizeMath sz" 16 "sizeAluInstruction sz" 8] show ?thesis
      using sz by (simp add: smallCommands_def)
  qed
  have small: "\<forall>c \<in> set (concat ?sections). unat (commandBytes sz c) \<le> 128"
    using sz math [of 4] math [of 10] math [of 14]
    by (auto simp: schedulerInitSection_def dispatchTaskSection_def removeTaskSection_def listLoopCheckSection_def
      drainRequestSection_def schedulerLoopCheckSection_def encoder_defs smallCommands_def)
  have bound: "blockBytes sz cs \<le> 0x10000" if "set cs \<subseteq> set (concat ?sections)" "length cs \<le> 512" for cs
  proof -
    have "unat (blockBytes sz cs) \<le> 128 * length cs" by (rule blockBytes_bound) (use small that(1) in blast)
    then show ?thesis using that(2) by (simp add: word_nat)
  qed
  have len: "length (concat ?sections) \<le> 512"
    by (simp add: schedulerInitSection_def dispatchTaskSection_def removeTaskSection_def listLoopCheckSection_def
      drainRequestSection_def schedulerLoopCheckSection_def encoder_defs)
  have fits: "\<not> 0x10000 < blockBytes sz (concat (take n ?sections))" for n
  proof -
    have "concat (take n ?sections) @ concat (drop n ?sections) = concat ?sections" by (metis append_take_drop_id concat_append)
    then have "set (concat (take n ?sections)) \<subseteq> set (concat ?sections)" "length (concat (take n ?sections)) \<le> length (concat ?sections)"
      by (metis set_append Un_upper1, metis length_append le_add1)
    then show ?thesis using bound [of "concat (take n ?sections)"] len by (simp add: not_less del: blockBytes_simps)
  qed
  have starts: "blockBytes sz (schedulerInitSection sz start) = loopStartSectionStart sz"
    "loopStartSectionStart sz + blockBytes sz (dispatchTaskSection tasksList) = removeTaskSectionStart sz"
    "removeTaskSectionStart sz + blockBytes sz (removeTaskSection tasksList) = tasksListLoopCheckSectionStart sz"
    "tasksListLoopCheckSectionStart sz + blockBytes sz (listLoopCheckSection sz start) = drainRequestSectionStart sz"
    "drainRequestSectionStart sz + blockBytes sz (drainRequestSection sz start queueSize) = schedulerLoopCheckSectionStart sz"
    "schedulerLoopCheckSectionStart sz + blockBytes sz (schedulerLoopCheckSection sz start semaphoreGpuVa) = staticSchedulerTotalSize sz"
    by (simp_all add: schedulerInitSection_def dispatchTaskSection_def removeTaskSection_def listLoopCheckSection_def
      drainRequestSection_def schedulerLoopCheckSection_def loopStartSectionStart_def removeTaskSectionStart_def
      tasksListLoopCheckSectionStart_def drainRequestSectionStart_def schedulerLoopCheckSectionStart_def
      staticSchedulerTotalSize_def aluCmdsSize_def)
  show ?thesis
    using fits [of 1] fits [of 2] fits [of 3] fits [of 4] fits [of 5] fits [of 6] starts
    by (simp add: staticScheduler_def numeral_2_eq_2 numeral_3_eq_3 add.assoc [symmetric] del: not_less)
qed

end
