(* ===== verification/Direct_Submission.thy ===== *)
theory Direct_Submission
  imports Ring_Commands Immediate_Flush
begin

text \<open>
  \<open>direct_submission/direct_submission_hw.{h,inl}\<close>, its variants for the prefetcher, \<open>direct_submission_relaxed_ordering.inl\<close>,
  the dispatchers and \<open>direct_submission/linux/drm_direct_submission.{h,inl}\<close>: instead of one call to the kernel
  driver per submission, the GPU keeps running over a ring buffer. It waits at a semaphore; new work is written behind
  it, followed by the next semaphore, and then the CPU raises the value that lets the GPU pass.

  Memory is explicit: \<open>ringMemory\<close> has the commands at their GPU addresses, \<open>clientReturns\<close> the jump written at the end
  of a command buffer of the client. What the operating system answers during a call is an argument. Cache line flushes
  and fences of the CPU, debug output and the timing of waits are left out.
\<close>

section \<open>State\<close>

datatype QueueThrottle = throttleLow | throttleMedium | throttleHigh

record RingBufferUse =
  completionFence :: u64
  completionFenceForSwitch :: u64
  ringBuffer :: GraphicsAllocation

record TagData =
  tagAddress :: u64
  tagValue :: u64

record PagingFenceSemaphoreInfo =
  requiresBlockingResidencyHandling :: bool
  pagingFenceValue :: u64

definition requiresProgrammingSemaphore :: "PagingFenceSemaphoreInfo \<Rightarrow> bool" where
  "requiresProgrammingSemaphore p \<longleftrightarrow> \<not> requiresBlockingResidencyHandling p \<and> 0 < pagingFenceValue p"

text \<open>The batch buffer of a submission, with the fields that only direct submission reads.\<close>

record RingBatch = BatchBuffer +
  throttle :: QueueThrottle
  streamCpuBase :: u64
  streamUsed :: u64
  endCmdPtr :: u64
  numCsrClients :: u32
  pagingFenceSemInfo :: PagingFenceSemaphoreInfo
  allocationsForResidency :: bool

record DirectSubmission =
  ringBuffers :: "RingBufferUse list"
  currentRingBuffer :: nat
  previousRingBuffer :: nat
  maxRingBufferCount :: nat
  ringCommandStream :: LinearStream
  ringMemory :: "u64 \<Rightarrow> RingCommand option"
  clientReturns :: "u64 \<Rightarrow> u64 option"
  semaphoreGpuVa :: u64
  gpuVaForAdditionalSynchronizationWA :: u64
  queueWorkCount :: u32
  tileTags :: "u64 list"
  currentQueueWorkCount :: u32
  currentTagData :: TagData
  workPartitionGpuVa :: u64
  deferredTasksListGpuVa :: u64
  relaxedOrderingSchedulerGpuVa :: u64
  relaxedOrderingScheduler :: "RingCommand list"
  preinitializedTaskStoreSection :: "RingCommand list"
  preinitializedRelaxedOrderingScheduler :: "RingCommand list"
  relaxedOrderingQueueSizeLimitValueVa :: u64
  currentRelaxedOrderingQueueSize :: u32
  immWritePostSyncOffset :: u32
  activeTiles :: nat
  lastSubmittedThrottle :: QueueThrottle
  dispatchErrorCode :: u32
  boHandleForExec :: u64
  completionFenceValue :: u64
  execCalls :: "u64 list"
  ringStart :: bool
  disableCacheFlush :: bool
  disableMonitorFence :: bool
  partitionedMode :: bool
  partitionConfigSet :: bool
  miMemFenceRequired :: bool
  globalFenceAllocation :: bool
  systemMemoryFenceAddressSet :: bool
  completionFenceSupported :: bool
  isDisablePrefetcherRequired :: bool
  relaxedOrderingEnabled :: bool
  relaxedOrderingInitialized :: bool
  relaxedOrderingSchedulerRequired :: bool
  inputMonitorFenceDispatchRequirement :: bool

text \<open>
  The hardware and its configuration: \<open>prefetchByJump\<close> and \<open>prefetcherControl\<close> select the variant of
  \<open>direct_submission_prefetch_mitigation\<close> and \<open>direct_submission_prefetcher\<close>; a debug flag is \<open>-1\<close> by default.
\<close>

record RingEnvironment =
  ringSizes :: RingSizes
  prefetchByJump :: bool
  prefetcherControl :: bool
  numSupportedDevices :: u32
  metricsEnabled :: bool
  isSystemMemoryPool :: "GraphicsAllocation \<Rightarrow> bool"
  allocateRingBuffer :: "nat \<Rightarrow> GraphicsAllocation"
  bufferHandle :: "GraphicsAllocation \<Rightarrow> u64"
  flagFlatRingBuffer :: int
  flagRelaxedOrderingQueueSizeLimit :: int
  flagNewResourceTlbFlush :: int
  flagRingSwitchTagUpdateWa :: int

text \<open>
  What the operating system answers during one call: whether the ring has to restart for new resources (asked first at the
  start of a dispatch and again when the ring buffer is switched), whether it keeps a newly allocated ring buffer resident, whether the
  TLB has to be flushed, and the error code of the execution on each tile.
\<close>

record OsAnswers =
  restartAtDispatch :: bool
  restartAtSwitch :: bool
  ringBufferResident :: bool
  isTlbFlushRequired :: bool
  execErrors :: "u32 list"

section \<open>Writing to the ring\<close>

fun writeBlock :: "RingSizes \<Rightarrow> u64 \<Rightarrow> RingCommand list \<Rightarrow> (u64 \<Rightarrow> RingCommand option) \<Rightarrow> u64 \<Rightarrow> RingCommand option" where
  "writeBlock sz a [] m = m"
| "writeBlock sz a (c # cs) m =
     writeBlock sz (a + commandBytes sz c) cs
       (\<lambda>x. if x - a < commandBytes sz c then (if x = a then Some c else None) else m x)"

definition ringPosition :: "DirectSubmission \<Rightarrow> u64" where
  "ringPosition d = getCurrentGpuAddressPosition (ringCommandStream d)"

definition patchBlock :: "RingEnvironment \<Rightarrow> u64 \<Rightarrow> RingCommand list \<Rightarrow> DirectSubmission \<Rightarrow> DirectSubmission" where
  "patchBlock env a cs d = d\<lparr>ringMemory := writeBlock (ringSizes env) a cs (ringMemory d)\<rparr>"

definition reserveSpace :: "u64 \<Rightarrow> DirectSubmission \<Rightarrow> DirectSubmission result" where
  "reserveSpace n d =
     andThen (getSpace (\<lambda>st. st) n (ringCommandStream d)) (\<lambda>(p, st). Inr (d\<lparr>ringCommandStream := st\<rparr>))"

definition putBlock :: "RingEnvironment \<Rightarrow> RingCommand list \<Rightarrow> DirectSubmission \<Rightarrow> DirectSubmission result" where
  "putBlock env cs d =
     andThen (reserveSpace (blockBytes (ringSizes env) cs) d) (\<lambda>d'. Inr (patchBlock env (ringPosition d) cs d'))"

definition putIf :: "bool \<Rightarrow> RingEnvironment \<Rightarrow> RingCommand list \<Rightarrow> DirectSubmission \<Rightarrow> DirectSubmission result" where
  "putIf b env cs d = (if b then putBlock env cs d else Inr d)"

section \<open>Semaphores\<close>

definition gpuVaForMiFlush :: "DirectSubmission \<Rightarrow> u64" where
  "gpuVaForMiFlush d = semaphoreGpuVa d + 192"

definition gpuVaForPagingFenceSemaphore :: "DirectSubmission \<Rightarrow> u64" where
  "gpuVaForPagingFenceSemaphore d = semaphoreGpuVa d + 256"

definition unblockGpu :: "DirectSubmission \<Rightarrow> DirectSubmission" where
  "unblockGpu d = d\<lparr>queueWorkCount := currentQueueWorkCount d\<rparr>"

definition getSizePrefetchMitigation :: "RingEnvironment \<Rightarrow> u64" where
  "getSizePrefetchMitigation env = (if prefetchByJump env then sizeBatchBufferStart (ringSizes env) else 8 * cacheLineSize)"

definition dispatchPrefetchMitigation :: "RingEnvironment \<Rightarrow> DirectSubmission \<Rightarrow> DirectSubmission result" where
  "dispatchPrefetchMitigation env d =
     putBlock env (if prefetchByJump env
       then [MiBatchBufferStart (ringPosition d + sizeBatchBufferStart (ringSizes env)) False False]
       else [Noops (8 * cacheLineSize)]) d"

definition getSizeDisablePrefetcher :: "RingEnvironment \<Rightarrow> u64" where
  "getSizeDisablePrefetcher env = (if prefetcherControl env then sizeArbCheck (ringSizes env) else 0)"

definition dispatchDisablePrefetcher :: "RingEnvironment \<Rightarrow> bool \<Rightarrow> DirectSubmission \<Rightarrow> DirectSubmission result" where
  "dispatchDisablePrefetcher env disable d =
     putIf (prefetcherControl env \<and> isDisablePrefetcherRequired d) env [MiArbCheck (Some disable)] d"

definition dispatchRelaxedOrderingSchedulerSection :: "RingEnvironment \<Rightarrow> u32 \<Rightarrow> DirectSubmission \<Rightarrow> DirectSubmission result" where
  "dispatchRelaxedOrderingSchedulerSection env value d =
     (let d = d\<lparr>preinitializedRelaxedOrderingScheduler :=
                  patchScheduler (ringSizes env) (ringPosition d) (semaphoreGpuVa d) value (preinitializedRelaxedOrderingScheduler d)\<rparr>
      in putBlock env (preinitializedRelaxedOrderingScheduler d) d)"

definition dispatchSemaphoreSection :: "RingEnvironment \<Rightarrow> u32 \<Rightarrow> DirectSubmission \<Rightarrow> DirectSubmission result" where
  "dispatchSemaphoreSection env value d =
     andThen (dispatchDisablePrefetcher env True d)
       (\<lambda>d. andThen (if relaxedOrderingEnabled d \<and> relaxedOrderingSchedulerRequired d
               then dispatchRelaxedOrderingSchedulerSection env value d
               else putBlock env [MiSemaphoreWait (semaphoreGpuVa d) (ucast value)] d)
       (\<lambda>d. andThen (putIf (miMemFenceRequired d) env [AcquireFence (gpuVaForAdditionalSynchronizationWA d)] d)
       (\<lambda>d. andThen (dispatchPrefetchMitigation env d)
       (\<lambda>d. dispatchDisablePrefetcher env False d))))"

definition getSizeSemaphoreSection :: "RingEnvironment \<Rightarrow> bool \<Rightarrow> DirectSubmission \<Rightarrow> u64" where
  "getSizeSemaphoreSection env schedulerRequired d =
     (if relaxedOrderingEnabled d \<and> schedulerRequired then dynamicSchedulerTotalSize (ringSizes env)
      else sizeSemaphoreWait (ringSizes env)) +
     getSizePrefetchMitigation env +
     (if isDisablePrefetcherRequired d then 2 * getSizeDisablePrefetcher env else 0) +
     (if miMemFenceRequired d then sizeAcquireFence (ringSizes env) else 0)"

section \<open>Relaxed ordering\<close>

definition preinitializeRelaxedOrderingSections :: "RingEnvironment \<Rightarrow> DirectSubmission \<Rightarrow> DirectSubmission result" where
  "preinitializeRelaxedOrderingSections env d =
     (let sz = ringSizes env; store = taskStoreTemplate (deferredTasksListGpuVa d);
          scheduler = dynamicSchedulerTemplate (relaxedOrderingSchedulerGpuVa d) in
      if blockBytes sz store \<noteq> getSizeTaskStoreSection sz \<or> blockBytes sz scheduler \<noteq> dynamicSchedulerTotalSize sz
      then Inl Unrecoverable
      else Inr (d\<lparr>preinitializedTaskStoreSection := store, preinitializedRelaxedOrderingScheduler := scheduler\<rparr>))"

definition dispatchStaticRelaxedOrderingScheduler :: "RingEnvironment \<Rightarrow> DirectSubmission \<Rightarrow> DirectSubmission result" where
  "dispatchStaticRelaxedOrderingScheduler env d =
     (let sz = ringSizes env;
          d = (if flagRelaxedOrderingQueueSizeLimit env \<noteq> -1
               then d\<lparr>currentRelaxedOrderingQueueSize := of_int (flagRelaxedOrderingQueueSizeLimit env)\<rparr> else d);
          start = relaxedOrderingSchedulerGpuVa d in
      andThen (staticScheduler sz start (deferredTasksListGpuVa d) (semaphoreGpuVa d) (currentRelaxedOrderingQueueSize d))
        (\<lambda>cs. Inr (d\<lparr>relaxedOrderingScheduler := cs,
           relaxedOrderingQueueSizeLimitValueVa :=
             start + drainRequestSectionStart sz + sizeArbCheck sz + getQueueSizeLimitValueOffset sz\<rparr>)))"

definition initRelaxedOrderingRegisters :: "RingEnvironment \<Rightarrow> DirectSubmission \<Rightarrow> DirectSubmission result" where
  "initRelaxedOrderingRegisters env d = putBlock env initRegistersSection d"

definition updateRelaxedOrderingQueueSize :: "RingEnvironment \<Rightarrow> u32 \<Rightarrow> DirectSubmission \<Rightarrow> DirectSubmission result" where
  "updateRelaxedOrderingQueueSize env newSize d =
     (let d = d\<lparr>currentRelaxedOrderingQueueSize := newSize\<rparr>
      in putBlock env [MiStoreDataImm (relaxedOrderingQueueSizeLimitValueVa d) newSize] d)"

definition dispatchRelaxedOrderingQueueStall :: "RingEnvironment \<Rightarrow> DirectSubmission \<Rightarrow> DirectSubmission result" where
  "dispatchRelaxedOrderingQueueStall env d =
     (let branch = ringPosition d in
      andThen (reserveSpace (getCmdSizeConditionalDataRegBatchBufferStart (ringSizes env) False) d)
        (\<lambda>d. andThen (putBlock env [MiLoadRegisterImm (csGpr 5) 1] d)
        (\<lambda>d. andThen (dispatchSemaphoreSection env (currentQueueWorkCount d) d)
        (\<lambda>d. Inr ((patchBlock env branch
               (programConditionalDataRegBatchBufferStart (ringPosition d) (csGpr 1) 0 compareEqual False False) d)
               \<lparr>relaxedOrderingSchedulerRequired := False\<rparr>)))))"

definition getSizeDispatchRelaxedOrderingQueueStall :: "RingEnvironment \<Rightarrow> DirectSubmission \<Rightarrow> u64" where
  "getSizeDispatchRelaxedOrderingQueueStall env d =
     getSizeSemaphoreSection env True d + sizeLoadRegisterImm (ringSizes env) +
     getCmdSizeConditionalDataRegBatchBufferStart (ringSizes env) False"

definition dispatchTaskStoreSection :: "RingEnvironment \<Rightarrow> u64 \<Rightarrow> DirectSubmission \<Rightarrow> DirectSubmission result" where
  "dispatchTaskStoreSection env taskStartSectionVa d =
     (let d = d\<lparr>preinitializedTaskStoreSection := patchTaskStart taskStartSectionVa (preinitializedTaskStoreSection d)\<rparr>
      in putBlock env (preinitializedTaskStoreSection d) d)"

section \<open>State of the ring\<close>

definition getUllsStateSize :: "RingEnvironment \<Rightarrow> DirectSubmission \<Rightarrow> u64" where
  "getUllsStateSize env d =
     (if \<not> partitionConfigSet d then sizePartitionRegisters (ringSizes env) else 0) +
     (if miMemFenceRequired d \<and> \<not> systemMemoryFenceAddressSet d then sizeSystemMemoryFence (ringSizes env) else 0) +
     (if relaxedOrderingEnabled d \<and> \<not> relaxedOrderingInitialized d then getSizeRegistersInit (ringSizes env) else 0)"

definition dispatchPartitionRegisterConfiguration :: "RingEnvironment \<Rightarrow> DirectSubmission \<Rightarrow> DirectSubmission result" where
  "dispatchPartitionRegisterConfiguration env d =
     putBlock env [PartitionRegisters (workPartitionGpuVa d) (immWritePostSyncOffset d)] d"

definition dispatchUllsState :: "RingEnvironment \<Rightarrow> DirectSubmission \<Rightarrow> DirectSubmission result" where
  "dispatchUllsState env d =
     andThen (if \<not> partitionConfigSet d
              then map_sum id (partitionConfigSet_update (\<lambda>_. True)) (dispatchPartitionRegisterConfiguration env d) else Inr d)
       (\<lambda>d. andThen (if globalFenceAllocation d \<and> \<not> systemMemoryFenceAddressSet d
              then map_sum id (systemMemoryFenceAddressSet_update (\<lambda>_. True)) (putBlock env [SystemMemoryFence] d) else Inr d)
       (\<lambda>d. if relaxedOrderingEnabled d \<and> \<not> relaxedOrderingInitialized d
              then andThen (preinitializeRelaxedOrderingSections env d)
                (\<lambda>d. andThen (dispatchStaticRelaxedOrderingScheduler env d)
                (\<lambda>d. map_sum id (relaxedOrderingInitialized_update (\<lambda>_. True)) (initRelaxedOrderingRegisters env d)))
              else Inr d))"

section \<open>Tags of the ring buffers (Linux)\<close>

text \<open>\<open>getTagAddressValue\<close> gives the value the next fence writes.\<close>

definition getTagAddressValue :: "DirectSubmission \<Rightarrow> TagData" where
  "getTagAddressValue d = \<lparr>tagAddress = tagAddress (currentTagData d), tagValue = tagValue (currentTagData d) + 1\<rparr>"

definition putMonitorFence :: "RingEnvironment \<Rightarrow> DirectSubmission \<Rightarrow> DirectSubmission result" where
  "putMonitorFence env d =
     putBlock env [MonitorFence (tagAddress (getTagAddressValue d)) (tagValue (getTagAddressValue d))] d"

definition advanceTag :: "DirectSubmission \<Rightarrow> DirectSubmission" where
  "advanceTag d = d\<lparr>currentTagData := (currentTagData d)\<lparr>tagValue := tagValue (currentTagData d) + 1\<rparr>\<rparr>"

definition setCompletionFence :: "nat \<Rightarrow> DirectSubmission \<Rightarrow> DirectSubmission" where
  "setCompletionFence i d =
     d\<lparr>ringBuffers := (ringBuffers d)[i := (ringBuffers d ! i)\<lparr>completionFence := tagValue (currentTagData d)\<rparr>]\<rparr>"

definition handleStopRingBuffer :: "DirectSubmission \<Rightarrow> DirectSubmission" where
  "handleStopRingBuffer d = (if disableMonitorFence d then advanceTag d else d)"

definition handleSwitchRingBuffers :: "RingEnvironment \<Rightarrow> DirectSubmission \<Rightarrow> DirectSubmission" where
  "handleSwitchRingBuffers env d =
     (if disableMonitorFence d then
        let d = advanceTag d;
            updateCompletionFences =
              (if flagRingSwitchTagUpdateWa env \<noteq> -1 then flagRingSwitchTagUpdateWa env = 0 \<or> ringStart d else True)
        in if updateCompletionFences then setCompletionFence (previousRingBuffer d) d else d
      else d)"

definition updateTagValue :: "bool \<Rightarrow> DirectSubmission \<Rightarrow> u64 \<times> DirectSubmission" where
  "updateTagValue requireMonitorFence d =
     (let d = (if requireMonitorFence then setCompletionFence (currentRingBuffer d) (advanceTag d) else d)
      in (boHandleForExec d, d))"

definition isCompleted :: "nat \<Rightarrow> DirectSubmission \<Rightarrow> bool" where
  "isCompleted i d = list_all (\<lambda>t. \<not> t < completionFence (ringBuffers d ! i)) (take (activeTiles d) (tileTags d))"

definition dispatchMonitorFenceRequired :: "bool \<Rightarrow> DirectSubmission \<Rightarrow> bool" where
  "dispatchMonitorFenceRequired requireMonitorFence d = (\<not> disableMonitorFence d)"

text \<open>
  The kernel driver starts the GPU at the address on every tile, until one call fails.
\<close>

fun execOnTiles :: "u64 \<Rightarrow> u32 list \<Rightarrow> DirectSubmission \<Rightarrow> bool \<times> DirectSubmission" where
  "execOnTiles startAddress [] d = (True, d)"
| "execOnTiles startAddress (errorCode # errors) d =
     (if errorCode \<noteq> 0 then (False, d\<lparr>dispatchErrorCode := errorCode\<rparr>)
      else execOnTiles startAddress errors (d\<lparr>execCalls := execCalls d @ [startAddress]\<rparr>))"

definition submitRing :: "RingEnvironment \<Rightarrow> u64 \<Rightarrow> bool \<Rightarrow> OsAnswers \<Rightarrow> DirectSubmission \<Rightarrow> bool \<times> DirectSubmission" where
  "submitRing env startAddress hasAllocations os d =
     (let d = (if hasAllocations
               then (case graphicsAllocation (ringCommandStream d) of Some a \<Rightarrow> d\<lparr>boHandleForExec := bufferHandle env a\<rparr> | None \<Rightarrow> d)
               else d)
      in case execOnTiles startAddress (execErrors os) d of
           (ret, d) \<Rightarrow>
             (ret, if completionFenceSupported d \<and> ret then d\<lparr>completionFenceValue := completionFenceValue d + 1\<rparr> else d))"

section \<open>Stopping and switching\<close>

definition getSizeEnd :: "RingEnvironment \<Rightarrow> bool \<Rightarrow> DirectSubmission \<Rightarrow> u64" where
  "getSizeEnd env schedulerRequired d =
     (let sz = ringSizes env in
      sizeBatchBufferEnd sz + sizeCacheFlush sz + (sizeBatchBufferStart sz - sizeBatchBufferEnd sz) + cacheLineSize +
      (if disableMonitorFence d then sizeMonitorFence sz else 0) +
      (if relaxedOrderingEnabled d \<and> schedulerRequired then getSizeDispatchRelaxedOrderingQueueStall env d else 0))"

definition ringAlignToCacheLine :: "RingEnvironment \<Rightarrow> DirectSubmission \<Rightarrow> DirectSubmission result" where
  "ringAlignToCacheLine env d =
     (let partialCacheline = sizeUsed (ringCommandStream d) AND (cacheLineSize - 1) in
      putIf (partialCacheline \<noteq> 0) env [Noops (cacheLineSize - partialCacheline)] d)"

text \<open>\<open>ensureRingCompletion\<close> waits for the last fence; it changes no state.\<close>

definition stopRingBuffer :: "RingEnvironment \<Rightarrow> DirectSubmission \<Rightarrow> DirectSubmission result" where
  "stopRingBuffer env d =
     (if \<not> ringStart d then Inr d
      else
        andThen (if relaxedOrderingEnabled d \<and> relaxedOrderingSchedulerRequired d
                 then dispatchRelaxedOrderingQueueStall env d else Inr d)
          (\<lambda>d. andThen (putBlock env [CacheFlush (gpuVaForMiFlush d)] d)
          (\<lambda>d. andThen (if disableMonitorFence d then putMonitorFence env d else Inr d)
          (\<lambda>d. andThen (putBlock env [MiBatchBufferEnd] d)
          (\<lambda>d. andThen (putBlock env [Noops (sizeBatchBufferStart (ringSizes env) - sizeBatchBufferEnd (ringSizes env))] d)
          (\<lambda>d. andThen (ringAlignToCacheLine env d)
          (\<lambda>d. Inr ((handleStopRingBuffer (unblockGpu d))\<lparr>ringStart := False\<rparr>))))))))"

definition handleRingRestartForUllsLightResidency ::
  "RingEnvironment \<Rightarrow> bool \<Rightarrow> bool \<Rightarrow> DirectSubmission \<Rightarrow> DirectSubmission result" where
  "handleRingRestartForUllsLightResidency env hasAllocations restartNeeded d =
     (if hasAllocations \<and> restartNeeded then stopRingBuffer env d else Inr d)"

definition dispatchSwitchRingBufferSection :: "RingEnvironment \<Rightarrow> u64 \<Rightarrow> DirectSubmission \<Rightarrow> DirectSubmission result" where
  "dispatchSwitchRingBufferSection env nextBufferGpuAddress d =
     andThen (if disableMonitorFence d then putMonitorFence env d else Inr d)
       (\<lambda>d. putBlock env [MiBatchBufferStart nextBufferGpuAddress False False] d)"

definition getSizeSwitchRingBufferSection :: "RingEnvironment \<Rightarrow> DirectSubmission \<Rightarrow> u64" where
  "getSizeSwitchRingBufferSection env d =
     sizeBatchBufferStart (ringSizes env) + (if disableMonitorFence d then sizeMonitorFence (ringSizes env) else 0)"

definition switchRingBuffersAllocations ::
  "RingEnvironment \<Rightarrow> OsAnswers \<Rightarrow> DirectSubmission \<Rightarrow> (GraphicsAllocation \<times> DirectSubmission) result" where
  "switchRingBuffersAllocations env os d =
     (let d = d\<lparr>previousRingBuffer := currentRingBuffer d\<rparr>;
          next_buffer = (case List.find (\<lambda>i. i \<noteq> currentRingBuffer d \<and> isCompleted i d) [0..<length (ringBuffers d)] of
                 Some i \<Rightarrow> Inr (d\<lparr>currentRingBuffer := i\<rparr>)
               | None \<Rightarrow>
                   if length (ringBuffers d) = maxRingBufferCount d
                   then Inr (d\<lparr>currentRingBuffer := (currentRingBuffer d + 1) mod length (ringBuffers d)\<rparr>)
                   else if \<not> ringBufferResident os then Inl Unrecoverable
                   else Inr (d\<lparr>currentRingBuffer := length (ringBuffers d),
                          ringBuffers := ringBuffers d @
                            [\<lparr>completionFence = 0, completionFenceForSwitch = 0, ringBuffer = allocateRingBuffer env (length (ringBuffers d))\<rparr>]\<rparr>))
      in andThen next_buffer
           (\<lambda>d. if currentRingBuffer d = previousRingBuffer d then Inl Unrecoverable
                else Inr (ringBuffer (ringBuffers d ! currentRingBuffer d), d)))"

definition switchRingBuffers :: "RingEnvironment \<Rightarrow> bool \<Rightarrow> OsAnswers \<Rightarrow> DirectSubmission \<Rightarrow> DirectSubmission result" where
  "switchRingBuffers env hasAllocations os d =
     andThen (switchRingBuffersAllocations env os d)
       (\<lambda>(next, d). andThen (handleRingRestartForUllsLightResidency env hasAllocations (restartAtSwitch os) d)
       (\<lambda>d. andThen (if ringStart d then dispatchSwitchRingBufferSection env (gpuAddress next) d else Inr d)
       (\<lambda>d. let st = ringCommandStream d;
                st = replaceGraphicsAllocation (Some next) (replaceBuffer (underlyingBuffer next) (maxAvailableSpace st) st)
            in Inr (handleSwitchRingBuffers env (d\<lparr>ringCommandStream := st\<rparr>)))))"

definition switchRingBuffersNeeded ::
  "RingEnvironment \<Rightarrow> u64 \<Rightarrow> bool \<Rightarrow> OsAnswers \<Rightarrow> DirectSubmission \<Rightarrow> DirectSubmission result" where
  "switchRingBuffersNeeded env n hasAllocations os d =
     (if getAvailableSpace (ringCommandStream d) < n then switchRingBuffers env hasAllocations os d else Inr d)"

section \<open>Dispatching a batch buffer\<close>

definition copyCommandBufferIntoRing :: "RingEnvironment \<Rightarrow> RingBatch \<Rightarrow> bool" where
  "copyCommandBufferIntoRing env b =
     (let ret = (\<not> disableFlatRingBuffer b \<and> numSupportedDevices env = 1 \<and> \<not> metricsEnabled env \<and> chainedBatchBuffer b = None \<and>
            (case batchAllocation b of None \<Rightarrow> False | Some a \<Rightarrow> isSystemMemoryPool env a) \<and> \<not> batchRelaxedOrderingDependencies b)
      in if flagFlatRingBuffer env \<noteq> -1 then ret \<and> flagFlatRingBuffer env \<noteq> 0 else ret)"

definition isNewResourceHandleNeeded :: "RingEnvironment \<Rightarrow> OsAnswers \<Rightarrow> bool" where
  "isNewResourceHandleNeeded env os =
     (if flagNewResourceTlbFlush env \<noteq> -1 then flagNewResourceTlbFlush env \<noteq> 0 else isTlbFlushRequired os)"

definition handleNewResourcesSubmission :: "RingEnvironment \<Rightarrow> OsAnswers \<Rightarrow> DirectSubmission \<Rightarrow> DirectSubmission result" where
  "handleNewResourcesSubmission env os d = putIf (isNewResourceHandleNeeded env os) env [TlbFlush (gpuVaForMiFlush d)] d"

definition getSizeDispatch :: "RingEnvironment \<Rightarrow> bool \<Rightarrow> bool \<Rightarrow> bool \<Rightarrow> DirectSubmission \<Rightarrow> u64" where
  "getSizeDispatch env schedulerRequired returnPtrsRequired monitorFence d =
     (let sz = ringSizes env in
      getSizeSemaphoreSection env schedulerRequired d + sizeBatchBufferStart sz +
      (if relaxedOrderingEnabled d \<and> returnPtrsRequired then getSizeReturnPtrRegs sz else 0) +
      (if \<not> disableCacheFlush d then sizeCacheFlush sz else 0) +
      (if monitorFence then sizeMonitorFence sz else 0) +
      sizeTlbFlush sz)"

definition queueSizeMultiplier :: u32 where "queueSizeMultiplier = 4"
definition maxQueueSize :: u32 where "maxQueueSize = 16"

definition sizeToCopy :: "RingBatch \<Rightarrow> u64" where
  "sizeToCopy b = endCmdPtr b - (streamCpuBase b + batchStartOffset b)"

text \<open>A submission without command buffer follows a null pointer.\<close>

definition dispatchWorkloadSection ::
  "RingEnvironment \<Rightarrow> RingBatch \<Rightarrow> bool \<Rightarrow> DirectSubmission \<Rightarrow> DirectSubmission result" where
  "dispatchWorkloadSection env b monitorFence d =
     (case batchAllocation b of
        None \<Rightarrow> Inl AbortExecution
      | Some a \<Rightarrow>
          let commandStreamAddress = gpuAddress a + batchStartOffset b; copyCmdBuffer = copyCommandBufferIntoRing env b;
              relaxed = relaxedOrderingEnabled d \<and> batchRelaxedOrderingDependencies b; sz = ringSizes env in
          andThen (putIf (requiresProgrammingSemaphore (pagingFenceSemInfo b)) env
                     [MiSemaphoreWait (gpuVaForPagingFenceSemaphore d) (pagingFenceValue (pagingFenceSemInfo b))] d)
       (\<lambda>d. let returnPtrRegs = ringPosition d in
            andThen (if relaxed then reserveSpace (getSizeReturnPtrRegs sz) d else Inr d)
       (\<lambda>d. andThen (putBlock env (if copyCmdBuffer then [ClientCommands commandStreamAddress (sizeToCopy b)]
                                   else [MiBatchBufferStart commandStreamAddress False False]) d)
       (\<lambda>d. let returnGpuPointer = ringPosition d;
                d = (if relaxed then patchBlock env returnPtrRegs (returnPtrRegsSection sz returnGpuPointer) d
                     else if \<not> copyCmdBuffer then d\<lparr>clientReturns := (clientReturns d)(endCmdPtr b \<mapsto> returnGpuPointer)\<rparr> else d) in
            andThen (if relaxed
                     then andThen (dispatchTaskStoreSection env (taskStartAddress b) d)
                       (\<lambda>d. let expectedQueueSize = min (numCsrClients b * queueSizeMultiplier) maxQueueSize in
                            if currentRelaxedOrderingQueueSize d < expectedQueueSize \<and> flagRelaxedOrderingQueueSizeLimit env = -1
                            then updateRelaxedOrderingQueueSize env expectedQueueSize d else Inr d)
                     else Inr d)
       (\<lambda>d. andThen (putIf (\<not> disableCacheFlush d) env [CacheFlush (gpuVaForMiFlush d)] d)
       (\<lambda>d. andThen (if monitorFence then putMonitorFence env d else Inr d)
       (\<lambda>d. dispatchSemaphoreSection env (currentQueueWorkCount d + 1) d)))))))"

definition submitCommandBufferToGpu ::
  "RingEnvironment \<Rightarrow> bool \<Rightarrow> u64 \<Rightarrow> bool \<Rightarrow> OsAnswers \<Rightarrow> DirectSubmission \<Rightarrow> bool \<times> DirectSubmission" where
  "submitCommandBufferToGpu env needStart startVA hasAllocations os d =
     (if needStart then (case submitRing env startVA hasAllocations os d of (ret, d) \<Rightarrow> (ret, d\<lparr>ringStart := ret\<rparr>))
      else (True, unblockGpu d))"

definition dispatchSize :: "RingEnvironment \<Rightarrow> RingBatch \<Rightarrow> bool \<Rightarrow> bool \<Rightarrow> DirectSubmission \<Rightarrow> u64" where
  "dispatchSize env b schedulerRequired monitorFence d =
     getUllsStateSize env d + getSizeDispatch env schedulerRequired (batchRelaxedOrderingDependencies b) monitorFence d +
     (if copyCommandBufferIntoRing env b
      then streamUsed b - batchStartOffset b - 2 * sizeBatchBufferStart (ringSizes env) else 0) +
     (if requiresProgrammingSemaphore (pagingFenceSemInfo b) then sizeSemaphoreWait (ringSizes env) else 0)"

definition requiredMinimalSize :: "RingEnvironment \<Rightarrow> RingBatch \<Rightarrow> bool \<Rightarrow> bool \<Rightarrow> DirectSubmission \<Rightarrow> u64" where
  "requiredMinimalSize env b schedulerRequired monitorFence d =
     (let sz = ringSizes env in
      dispatchSize env b schedulerRequired monitorFence d + getSizeSwitchRingBufferSection env d + getSizeEnd env schedulerRequired d +
      (if relaxedOrderingEnabled d
       then getSizeReturnPtrRegs sz +
         (if batchHasStallingCmds b \<and> relaxedOrderingSchedulerRequired d then getSizeDispatchRelaxedOrderingQueueStall env d else 0) +
         (if batchRelaxedOrderingDependencies b then getSizeTaskStoreSection sz + sizeStoreDataImm sz else 0)
       else 0))"

text \<open>The result is the value returned, the flush stamp if one was set, and the new state.\<close>

definition dispatchCommandBuffer ::
  "RingEnvironment \<Rightarrow> RingBatch \<Rightarrow> OsAnswers \<Rightarrow> DirectSubmission \<Rightarrow> (bool \<times> u64 option \<times> DirectSubmission) result" where
  "dispatchCommandBuffer env b os d =
     andThen (handleRingRestartForUllsLightResidency env (allocationsForResidency b) (restartAtDispatch os) d)
       (\<lambda>d. let d = d\<lparr>lastSubmittedThrottle := throttle b\<rparr>;
                schedulerWillBeNeeded = (relaxedOrderingSchedulerRequired d \<or> batchRelaxedOrderingDependencies b);
                inputRequired = (if inputMonitorFenceDispatchRequirement d then dispatchMonitorFence b else batchHasStallingCmds b);
                monitorFence = dispatchMonitorFenceRequired inputRequired d;
                needStart = (\<not> ringStart d) in
            andThen (switchRingBuffersNeeded env (requiredMinimalSize env b schedulerWillBeNeeded monitorFence d)
                       (allocationsForResidency b) os d)
       (\<lambda>d. let startVA = ringPosition d in
            andThen (dispatchUllsState env d)
       (\<lambda>d. andThen (if relaxedOrderingEnabled d \<and> batchHasStallingCmds b \<and> relaxedOrderingSchedulerRequired d
                     then dispatchRelaxedOrderingQueueStall env d else Inr d)
       (\<lambda>d. let d = d\<lparr>relaxedOrderingSchedulerRequired := relaxedOrderingSchedulerRequired d \<or> batchRelaxedOrderingDependencies b\<rparr> in
            andThen (handleNewResourcesSubmission env os d)
       (\<lambda>d. andThen (dispatchWorkloadSection env b monitorFence d)
       (\<lambda>d. case submitCommandBufferToGpu env needStart startVA (allocationsForResidency b) os d of
              (submitted, d) \<Rightarrow>
                if \<not> submitted then Inr (False, None, d)
                else case updateTagValue monitorFence (d\<lparr>currentQueueWorkCount := currentQueueWorkCount d + 1\<rparr>) of
                       (flushValue, d) \<Rightarrow>
                         if flushValue = - 1 then Inr (False, None, d) else Inr (ringStart d, Some flushValue, d)))))))"

section \<open>Construction\<close>

text \<open>Product properties, debug flags (\<open>-1\<close> by default) and the objects handed to the constructor.\<close>

record RingConfiguration =
  flagDisableMonitorFence :: int
  flagMaxRingBuffers :: int
  flagDisableCacheFlush :: int
  flagInsertExtraMiMemFence :: int
  flagMonitorFenceInputPolicy :: int
  flagDisablePrefetcher :: int
  flagRelaxedOrdering :: int
  flagRelaxedOrderingForBcs :: int
  flagOverrideUserFenceStartValue :: int
  flagPciBarrier :: int
  acquireGlobalFenceRequired :: bool
  heaplessStateInitEnabled :: bool
  prefetcherDisablingRequired :: bool
  relaxedOrderingSupported :: bool
  dispatcherIsCopy :: bool
  hasGlobalFence :: bool
  tileCount :: nat
  implicitScalingSupported :: bool
  isIntegratedDevice :: bool
  pciBarrierMapped :: bool
  workPartitionAddress :: "u64 option"
  completionFenceAddress :: "u64 option"
  driverCompletionFenceSupport :: bool
  initialCompletionFenceValue :: u64
  postSyncOffset :: u32
  semaphoreAddress :: u64
  deferredTasksListAddress :: u64
  relaxedOrderingSchedulerAddress :: u64

definition overrideFlag :: "int \<Rightarrow> bool \<Rightarrow> bool" where
  "overrideFlag flag b = (if flag \<noteq> -1 then flag \<noteq> 0 else b)"

definition newDirectSubmission :: "RingConfiguration \<Rightarrow> DirectSubmission" where
  "newDirectSubmission c =
     (let memFence = overrideFlag (flagInsertExtraMiMemFence c) (acquireGlobalFenceRequired c);
          relaxed = (if flagRelaxedOrdering c \<noteq> -1 then flagRelaxedOrdering c = 1 else relaxedOrderingSupported c);
          relaxed = (if dispatcherIsCopy c \<and> relaxed then flagRelaxedOrderingForBcs c \<noteq> 0 else relaxed) in
      \<lparr>ringBuffers = [], currentRingBuffer = 0, previousRingBuffer = 0,
       maxRingBufferCount = (if flagMaxRingBuffers c \<noteq> -1 then nat (flagMaxRingBuffers c mod 2 ^ 32) else 2 ^ 32 - 1),
       ringCommandStream = newLinearStream None 0 0, ringMemory = (\<lambda>_. None), clientReturns = (\<lambda>_. None),
       semaphoreGpuVa = 0, gpuVaForAdditionalSynchronizationWA = 0, queueWorkCount = 0, tileTags = [], currentQueueWorkCount = 1,
       currentTagData = \<lparr>tagAddress = 0, tagValue = 0\<rparr>, workPartitionGpuVa = 0, deferredTasksListGpuVa = 0,
       relaxedOrderingSchedulerGpuVa = 0, relaxedOrderingScheduler = [], preinitializedTaskStoreSection = [],
       preinitializedRelaxedOrderingScheduler = [], relaxedOrderingQueueSizeLimitValueVa = 0,
       currentRelaxedOrderingQueueSize = queueSizeMultiplier, immWritePostSyncOffset = postSyncOffset c, activeTiles = 1,
       lastSubmittedThrottle = throttleMedium, dispatchErrorCode = 0, boHandleForExec = 0, completionFenceValue = 0, execCalls = [],
       ringStart = False, disableCacheFlush = overrideFlag (flagDisableCacheFlush c) True,
       disableMonitorFence = overrideFlag (flagDisableMonitorFence c) True, partitionedMode = False, partitionConfigSet = True,
       miMemFenceRequired = memFence, globalFenceAllocation = hasGlobalFence c,
       systemMemoryFenceAddressSet = (memFence \<and> heaplessStateInitEnabled c), completionFenceSupported = False,
       isDisablePrefetcherRequired = overrideFlag (flagDisablePrefetcher c) (prefetcherDisablingRequired c),
       relaxedOrderingEnabled = relaxed, relaxedOrderingInitialized = False, relaxedOrderingSchedulerRequired = False,
       inputMonitorFenceDispatchRequirement = overrideFlag (flagMonitorFenceInputPolicy c) True\<rparr>)"

definition newDrmDirectSubmission :: "RingConfiguration \<Rightarrow> DirectSubmission result" where
  "newDrmDirectSubmission c =
     (let d = newDirectSubmission c;
          d = d\<lparr>completionFenceValue := (if flagOverrideUserFenceStartValue c \<noteq> -1 then of_int (flagOverrideUserFenceStartValue c)
                                        else initialCompletionFenceValue c),
                activeTiles := (if implicitScalingSupported c then tileCount c else activeTiles d)\<rparr>;
          d = d\<lparr>partitionedMode := 1 < activeTiles d, partitionConfigSet := \<not> 1 < activeTiles d\<rparr>;
          usePciBarrier = overrideFlag (flagPciBarrier c) (\<not> isIntegratedDevice c);
          d = (if usePciBarrier \<and> pciBarrierMapped c then d\<lparr>miMemFenceRequired := False\<rparr> else d) in
      if partitionedMode d \<and> workPartitionAddress c = None then Inl Unrecoverable
      else
        let d = (case workPartitionAddress c of
                   Some a \<Rightarrow> if partitionedMode d then d\<lparr>workPartitionGpuVa := a\<rparr> else d | None \<Rightarrow> d)
        in Inr (if miMemFenceRequired d \<or> driverCompletionFenceSupport c
                then (case completionFenceAddress c of
                        None \<Rightarrow> d
                      | Some a \<Rightarrow> d\<lparr>gpuVaForAdditionalSynchronizationWA := a + 8, completionFenceSupported := driverCompletionFenceSupport c\<rparr>)
                else d))"

definition minimumRequiredSize :: u64 where "minimumRequiredSize = 256 * 1024"

text \<open>\<open>allocateResources\<close> with \<open>allocateOsResources\<close>; an allocation of the memory manager is not null.\<close>

definition allocateResources :: "RingEnvironment \<Rightarrow> RingConfiguration \<Rightarrow> bool \<Rightarrow> DirectSubmission \<Rightarrow> bool \<times> DirectSubmission" where
  "allocateResources env c makeResidentSucceeds d =
     (let st = replaceGraphicsAllocation (Some (allocateRingBuffer env 0))
            (replaceBuffer (underlyingBuffer (allocateRingBuffer env 0)) minimumRequiredSize (ringCommandStream d));
          d = d\<lparr>ringBuffers := map (\<lambda>i. \<lparr>completionFence = 0, completionFenceForSwitch = 0, ringBuffer = allocateRingBuffer env i\<rparr>) [0, 1],
                ringCommandStream := st, semaphoreGpuVa := semaphoreAddress c, queueWorkCount := 0,
                tileTags := replicate (activeTiles d) 0,
                deferredTasksListGpuVa := deferredTasksListAddress c,
                relaxedOrderingSchedulerGpuVa := relaxedOrderingSchedulerAddress c\<rparr>
      in if \<not> makeResidentSucceeds then (False, d)
         else (True, d\<lparr>currentTagData := \<lparr>tagAddress = semaphoreAddress c + 64, tagValue = 0\<rparr>\<rparr>))"

definition initializeRing ::
  "RingEnvironment \<Rightarrow> RingConfiguration \<Rightarrow> bool \<Rightarrow> bool \<Rightarrow> OsAnswers \<Rightarrow> DirectSubmission \<Rightarrow> (bool \<times> DirectSubmission) result" where
  "initializeRing env c submitOnInit makeResidentSucceeds os d =
     (case allocateResources env c makeResidentSucceeds d of
        (ret, d) \<Rightarrow>
          if \<not> (ret \<and> submitOnInit) then Inr (ret, d)
          else
            andThen (putBlock env [PreemptionCommands] d)
         (\<lambda>d. andThen (if partitionedMode d
                 then map_sum id (partitionConfigSet_update (\<lambda>_. True)) (dispatchPartitionRegisterConfiguration env d) else Inr d)
         (\<lambda>d. andThen (if globalFenceAllocation d \<and> \<not> systemMemoryFenceAddressSet d
                 then map_sum id (systemMemoryFenceAddressSet_update (\<lambda>_. True)) (putBlock env [SystemMemoryFence] d) else Inr d)
         (\<lambda>d. andThen (if relaxedOrderingEnabled d
                 then andThen (preinitializeRelaxedOrderingSections env d)
                   (\<lambda>d. andThen (initRelaxedOrderingRegisters env d)
                   (\<lambda>d. map_sum id (relaxedOrderingInitialized_update (\<lambda>_. True)) (dispatchStaticRelaxedOrderingScheduler env d)))
                 else Inr d)
         (\<lambda>d. andThen (dispatchSemaphoreSection env (currentQueueWorkCount d) d)
         (\<lambda>d. case graphicsAllocation (ringCommandStream d) of
                None \<Rightarrow> Inl AbortExecution
              | Some a \<Rightarrow> (case submitRing env (gpuAddress a) False os d of (started, d) \<Rightarrow> Inr (started, d\<lparr>ringStart := started\<rparr>))))))))"

end
