(* ===== verification/Ring_Space.thy ===== *)
theory Ring_Space
  imports Direct_Submission
begin

text \<open>
  The space in the ring buffers: a dispatch first computes how much it may write, switches to another ring buffer when
  that does not fit, and keeps enough space for the jump to the next buffer and for the end of the ring. The lemmas
  bound what each step writes by the size the code computes for it.
\<close>

lemma andThen_assoc: "andThen (andThen r f) g = andThen r (\<lambda>x. andThen (f x) g)"
  by (cases r) auto

section \<open>Steps that only write to the ring\<close>

definition room :: "DirectSubmission \<Rightarrow> nat" where
  "room d = unat (maxAvailableSpace (ringCommandStream d)) - unat (sizeUsed (ringCommandStream d))"

text \<open>The control state: everything but memory, the position in the stream and the templates.\<close>

definition withMemory ::
  "u64 \<times> (u64 \<Rightarrow> RingCommand option) \<times> (u64 \<Rightarrow> u64 option) \<times> RingCommand list \<times> RingCommand list \<times> u32 \<Rightarrow>
   DirectSubmission \<Rightarrow> DirectSubmission" where
  "withMemory = (\<lambda>(u, m, r, p, q, s) d. d\<lparr>ringCommandStream := (ringCommandStream d)\<lparr>sizeUsed := u\<rparr>, ringMemory := m,
     clientReturns := r, preinitializedTaskStoreSection := p, preinitializedRelaxedOrderingScheduler := q,
     currentRelaxedOrderingQueueSize := s\<rparr>)"

definition sameControl :: "DirectSubmission \<Rightarrow> DirectSubmission \<Rightarrow> bool" where
  "sameControl d d' \<longleftrightarrow> (\<exists>x. d' = withMemory x d)"

definition advance :: "u64 \<Rightarrow> DirectSubmission \<Rightarrow> DirectSubmission" where
  "advance n d = d\<lparr>ringCommandStream := (ringCommandStream d)\<lparr>sizeUsed := sizeUsed (ringCommandStream d) + n\<rparr>\<rparr>"

definition templatesOk :: "RingEnvironment \<Rightarrow> DirectSubmission \<Rightarrow> bool" where
  "templatesOk env d \<longleftrightarrow> (relaxedOrderingInitialized d \<longrightarrow>
     map (commandBytes (ringSizes env)) (preinitializedTaskStoreSection d) = map (commandBytes (ringSizes env)) (taskStoreTemplate 0) \<and>
     map (commandBytes (ringSizes env)) (preinitializedRelaxedOrderingScheduler d) =
       map (commandBytes (ringSizes env)) (dynamicSchedulerTemplate 0))"

definition ringOk :: "RingEnvironment \<Rightarrow> DirectSubmission \<Rightarrow> bool" where
  "ringOk env d \<longleftrightarrow> \<not> hasCmdContainer (ringCommandStream d) \<and> streamBuffer (ringCommandStream d) \<noteq> 0 \<and>
     unat (sizeUsed (ringCommandStream d)) \<le> unat (maxAvailableSpace (ringCommandStream d)) \<and> templatesOk env d"

text \<open>The step from \<open>d\<close> returns and writes at most \<open>n\<close> bytes when \<open>n\<close> bytes are left.\<close>

definition within :: "RingEnvironment \<Rightarrow> nat \<Rightarrow> DirectSubmission \<Rightarrow> DirectSubmission result \<Rightarrow> bool" where
  "within env n d r \<longleftrightarrow> (ringOk env d \<longrightarrow> n \<le> room d \<longrightarrow>
     (\<exists>d'. r = Inr d' \<and> sameControl d d' \<and> ringOk env d' \<and> room d \<le> room d' + n))"

lemma sameControlI: "d' = withMemory (sizeUsed (ringCommandStream d'), ringMemory d', clientReturns d',
    preinitializedTaskStoreSection d', preinitializedRelaxedOrderingScheduler d', currentRelaxedOrderingQueueSize d') d \<Longrightarrow>
  sameControl d d'"
  unfolding sameControl_def by (rule exI)

lemma withMemory_twice: "withMemory y (withMemory x d) = withMemory y d"
  by (cases x; cases y) (simp add: withMemory_def)

lemma sameControl_refl [simp]: "sameControl d d"
  by (rule sameControlI) (simp add: withMemory_def)

lemma sameControl_trans: "sameControl a b \<Longrightarrow> sameControl b c \<Longrightarrow> sameControl a c"
  unfolding sameControl_def by (metis withMemory_twice)

lemma sameControl_simps:
  assumes "sameControl d d'"
  shows "relaxedOrderingEnabled d' = relaxedOrderingEnabled d" "relaxedOrderingInitialized d' = relaxedOrderingInitialized d"
    "relaxedOrderingSchedulerRequired d' = relaxedOrderingSchedulerRequired d" "miMemFenceRequired d' = miMemFenceRequired d"
    "isDisablePrefetcherRequired d' = isDisablePrefetcherRequired d" "disableMonitorFence d' = disableMonitorFence d"
    "disableCacheFlush d' = disableCacheFlush d" "globalFenceAllocation d' = globalFenceAllocation d"
    "systemMemoryFenceAddressSet d' = systemMemoryFenceAddressSet d" "partitionConfigSet d' = partitionConfigSet d"
    "ringStart d' = ringStart d" "ringBuffers d' = ringBuffers d" "currentRingBuffer d' = currentRingBuffer d"
    "previousRingBuffer d' = previousRingBuffer d" "maxRingBufferCount d' = maxRingBufferCount d"
    "currentQueueWorkCount d' = currentQueueWorkCount d"
    "maxAvailableSpace (ringCommandStream d') = maxAvailableSpace (ringCommandStream d)"
    "graphicsAllocation (ringCommandStream d') = graphicsAllocation (ringCommandStream d)"
    "execCalls d' = execCalls d" "dispatchErrorCode d' = dispatchErrorCode d"
  using assms by (auto simp: sameControl_def withMemory_def)

lemma withinE:
  assumes "within env n d r" "ringOk env d" "n \<le> room d"
  obtains d' where "r = Inr d'" "sameControl d d'" "ringOk env d'" "room d \<le> room d' + n"
  using assms by (auto simp: within_def)

lemma within_seq:
  assumes "within env m d r" "\<And>d'. sameControl d d' \<Longrightarrow> within env n d' (g d')"
  shows "within env (m + n) d (andThen r g)"
  unfolding within_def
proof (intro impI)
  assume ok: "ringOk env d" and le: "m + n \<le> room d"
  from withinE [OF assms(1) ok] le obtain d1 where 1: "r = Inr d1" "sameControl d d1" "ringOk env d1" "room d \<le> room d1 + m" by auto
  from withinE [OF assms(2) [OF 1(2)] 1(3)] le 1(4) obtain d2
    where "g d1 = Inr d2" "sameControl d1 d2" "ringOk env d2" "room d1 \<le> room d2 + n" by auto
  then show "\<exists>d'. andThen r g = Inr d' \<and> sameControl d d' \<and> ringOk env d' \<and> room d \<le> room d' + (m + n)"
    using 1 by (auto intro: sameControl_trans)
qed

lemma within_mono: "within env m d r \<Longrightarrow> m \<le> n \<Longrightarrow> within env n d r"
  by (fastforce simp: within_def)

lemma within_skip: "within env n d (Inr d)"
  by (auto simp: within_def)

lemma within_if: "(b \<Longrightarrow> within env m d r) \<Longrightarrow> (\<not> b \<Longrightarrow> within env m d s) \<Longrightarrow> within env m d (if b then r else s)"
  by (auto simp: within_def)

text \<open>A step may first change templates or memory.\<close>

lemma within_after:
  "within env n d1 r \<Longrightarrow> sameControl d d1 \<Longrightarrow> (ringOk env d \<Longrightarrow> ringOk env d1) \<Longrightarrow> room d1 = room d \<Longrightarrow> within env n d r"
  unfolding within_def using sameControl_trans by metis

lemma reserveSpace_returns:
  assumes ok: "ringOk env d" and n: "unat n \<le> room d"
  shows "reserveSpace n d = Inr (advance n d)"
    "unat (sizeUsed (ringCommandStream d) + n) = unat (sizeUsed (ringCommandStream d)) + unat n"
    "ringOk env (advance n d)" "room d = room (advance n d) + unat n"
proof -
  let ?u = "sizeUsed (ringCommandStream d)" and ?m = "maxAvailableSpace (ringCommandStream d)"
  have le: "unat ?u + unat n \<le> unat ?m" using assms by (auto simp: ringOk_def room_def)
  then have "unat ?u + unat n < 2 ^ LENGTH(64)" using unsigned_less [of ?m, where 'a = nat] by (rule le_less_trans)
  then show u: "unat (?u + n) = unat ?u + unat n" by (simp add: unat_add_nowrap)
  then have "\<not> ?m < ?u + n" using le by (simp add: word_nat)
  then show "reserveSpace n d = Inr (advance n d)"
    using ok by (auto simp: reserveSpace_def getSpace_def ensureContinuousSpace_def ringOk_def advance_def)
  show "ringOk env (advance n d)" "room d = room (advance n d) + unat n"
    using ok u le by (auto simp: ringOk_def room_def templatesOk_def advance_def)
qed

lemma advance_sameControl [simp]: "sameControl d (advance n d)"
  by (rule sameControlI) (simp add: withMemory_def advance_def)

lemma reserve_within: "unat n \<le> m \<Longrightarrow> within env m d (reserveSpace n d)"
  using reserveSpace_returns [of env d n] by (auto simp: within_def)

lemma patch_ok:
  "sameControl d (patchBlock env a cs d)" "ringOk env (patchBlock env a cs d) = ringOk env d" "room (patchBlock env a cs d) = room d"
  by (auto simp: patchBlock_def ringOk_def room_def templatesOk_def withMemory_def intro: sameControlI)

lemma put_within:
  assumes "unat (blockBytes (ringSizes env) cs) \<le> m"
  shows "within env m d (putBlock env cs d)"
  using reserve_within [OF assms, of env d] sameControl_trans [OF _ patch_ok(1)]
  by (fastforce simp: within_def putBlock_def patch_ok(2,3))

lemma putIf_within: "(b \<Longrightarrow> unat (blockBytes (ringSizes env) cs) \<le> m) \<Longrightarrow> within env m d (putIf b env cs d)"
  unfolding putIf_def by (rule within_if) (simp_all add: put_within within_skip)

section \<open>The sections of relaxed ordering keep their sizes\<close>

lemma template_bytes:
  "map (commandBytes sz) (taskStoreTemplate l) = map (commandBytes sz) (taskStoreTemplate 0)"
  "map (commandBytes sz) (dynamicSchedulerTemplate a) = map (commandBytes sz) (dynamicSchedulerTemplate 0)"
  by (simp_all add: taskStoreTemplate_def dynamicSchedulerTemplate_def loadAddress_def)

lemma patch_bytes:
  "map (commandBytes sz) cs = map (commandBytes sz) (taskStoreTemplate 0) \<Longrightarrow>
   map (commandBytes sz) (patchTaskStart a cs) = map (commandBytes sz) (taskStoreTemplate 0)"
  "map (commandBytes sz) cs = map (commandBytes sz) (dynamicSchedulerTemplate 0) \<Longrightarrow>
   map (commandBytes sz) (patchScheduler sz' p s v cs) = map (commandBytes sz) (dynamicSchedulerTemplate 0)"
  by (simp_all add: patchTaskStart_def patchScheduler_def map_update taskStoreTemplate_def dynamicSchedulerTemplate_def loadAddress_def)

lemma same_bytes: "map (commandBytes sz) cs = map (commandBytes sz) ds \<Longrightarrow> blockBytes sz cs = blockBytes sz ds"
  by (simp add: blockBytes_def)

lemma schedulerSection_within:
  assumes "relaxedOrderingInitialized d"
  shows "within env (unat (dynamicSchedulerTotalSize (ringSizes env))) d (dispatchRelaxedOrderingSchedulerSection env v d)"
    (is "within env ?n d _")
proof (cases "templatesOk env d")
  case True
  let ?cs = "patchScheduler (ringSizes env) (ringPosition d) (semaphoreGpuVa d) v (preinitializedRelaxedOrderingScheduler d)"
  let ?d = "d\<lparr>preinitializedRelaxedOrderingScheduler := ?cs\<rparr>"
  have cs: "map (commandBytes (ringSizes env)) ?cs = map (commandBytes (ringSizes env)) (dynamicSchedulerTemplate 0)"
    using True assms patch_bytes(2) by (auto simp: templatesOk_def)
  have "within env ?n ?d (putBlock env ?cs ?d)" by (rule put_within) (simp add: same_bytes [OF cs])
  then show ?thesis
    unfolding dispatchRelaxedOrderingSchedulerSection_def Let_def
    by (simp, elim within_after) (use cs in \<open>auto simp: ringOk_def templatesOk_def room_def withMemory_def intro: sameControlI\<close>)
qed (simp add: within_def ringOk_def)

lemma taskStore_within:
  assumes "relaxedOrderingInitialized d"
  shows "within env (unat (getSizeTaskStoreSection (ringSizes env))) d (dispatchTaskStoreSection env a d)"
    (is "within env ?n d _")
proof (cases "templatesOk env d")
  case True
  let ?cs = "patchTaskStart a (preinitializedTaskStoreSection d)"
  let ?d = "d\<lparr>preinitializedTaskStoreSection := ?cs\<rparr>"
  have cs: "map (commandBytes (ringSizes env)) ?cs = map (commandBytes (ringSizes env)) (taskStoreTemplate 0)"
    using True assms patch_bytes(1) by (auto simp: templatesOk_def)
  have "within env ?n ?d (putBlock env ?cs ?d)" by (rule put_within) (simp add: same_bytes [OF cs])
  then show ?thesis
    unfolding dispatchTaskStoreSection_def Let_def
    by (simp, elim within_after) (use cs in \<open>auto simp: ringOk_def templatesOk_def room_def withMemory_def intro: sameControlI\<close>)
qed (simp add: within_def ringOk_def)

lemma queueSize_within:
  "within env (unat (sizeStoreDataImm (ringSizes env))) d (updateRelaxedOrderingQueueSize env q d)" (is "within env ?n d _")
proof -
  let ?d = "d\<lparr>currentRelaxedOrderingQueueSize := q\<rparr>"
  have "within env ?n ?d (putBlock env [MiStoreDataImm (relaxedOrderingQueueSizeLimitValueVa d) q] ?d)" by (rule put_within) simp
  then show ?thesis unfolding updateRelaxedOrderingQueueSize_def Let_def
    by (simp, elim within_after) (auto simp: ringOk_def templatesOk_def room_def withMemory_def intro: sameControlI)
qed

section \<open>Sizes as natural numbers\<close>

lemma small_sum: "unat (a :: u64) + unat b \<le> 2 ^ 32 \<Longrightarrow> unat (a + b) = unat a + unat b"
  by (rule unat_add_nowrap) simp

lemma small_sum_list: "sum_list (map unat xs) \<le> 2 ^ 32 \<Longrightarrow> unat (sum_list xs :: u64) = sum_list (map unat xs)"
  by (induction xs) (auto simp: small_sum)

lemma small_mult: "unat (a :: u64) * unat b \<le> 2 ^ 32 \<Longrightarrow> unat (a * b) = unat a * unat b"
  by (rule unat_mult_nowrap) simp

abbreviation semaphoreBytes :: "RingEnvironment \<Rightarrow> bool \<Rightarrow> DirectSubmission \<Rightarrow> nat" where
  "semaphoreBytes env r d \<equiv> unat (getSizeSemaphoreSection env r d)"

lemma dynamic_bytes:
  assumes "smallCommands sz"
  shows "unat (dynamicSchedulerTotalSize sz) =
      4 * unat (sizeLoadRegisterImm sz) + unat (sizeBatchBufferStart sz) + unat (sizeSemaphoreWait sz) + 2 * unat (sizeSetPredicate sz)"
  using assms by (simp add: smallCommands_def dynamicSchedulerTotalSize_def semaphoreSectionStart_def semaphoreSectionSize_def
    small_sum small_mult)

lemma mitigation_bytes: "smallCommands (ringSizes env) \<Longrightarrow> unat (getSizePrefetchMitigation env) \<le> 512"
  by (simp add: getSizePrefetchMitigation_def smallCommands_def cacheLineSize_def)

lemma prefetcher_bytes: "smallCommands (ringSizes env) \<Longrightarrow> unat (getSizeDisablePrefetcher env) \<le> 64"
  by (simp add: getSizeDisablePrefetcher_def smallCommands_def)

lemma semaphore_bytes:
  assumes sz: "smallCommands (ringSizes env)"
  shows "semaphoreBytes env r d =
      (if relaxedOrderingEnabled d \<and> r then unat (dynamicSchedulerTotalSize (ringSizes env)) else unat (sizeSemaphoreWait (ringSizes env))) +
      unat (getSizePrefetchMitigation env) + (if isDisablePrefetcherRequired d then 2 * unat (getSizeDisablePrefetcher env) else 0) +
      (if miMemFenceRequired d then unat (sizeAcquireFence (ringSizes env)) else 0)"
    and "semaphoreBytes env r d \<le> 4096"
proof -
  note b = mitigation_bytes [OF sz] prefetcher_bytes [OF sz] sz [unfolded smallCommands_def]
  have dyn: "unat (dynamicSchedulerTotalSize (ringSizes env)) \<le> 1024" using dynamic_bytes [OF sz] b by simp
  show *: "semaphoreBytes env r d =
      (if relaxedOrderingEnabled d \<and> r then unat (dynamicSchedulerTotalSize (ringSizes env)) else unat (sizeSemaphoreWait (ringSizes env))) +
      unat (getSizePrefetchMitigation env) + (if isDisablePrefetcherRequired d then 2 * unat (getSizeDisablePrefetcher env) else 0) +
      (if miMemFenceRequired d then unat (sizeAcquireFence (ringSizes env)) else 0)"
    using b dyn by (simp add: getSizeSemaphoreSection_def small_sum small_mult)
  show "semaphoreBytes env r d \<le> 4096" unfolding * using b dyn by simp
qed

lemma semaphore_mono:
  assumes sz: "smallCommands (ringSizes env)"
  shows "semaphoreBytes env r d \<le> semaphoreBytes env True d"
  using dynamic_bytes [OF sz] by (simp add: semaphore_bytes [OF sz])

lemma semaphore_within:
  assumes sz: "smallCommands (ringSizes env)" and init: "relaxedOrderingEnabled d \<and> relaxedOrderingSchedulerRequired d \<longrightarrow> relaxedOrderingInitialized d"
    and r: "relaxedOrderingSchedulerRequired d \<longrightarrow> r"
  shows "within env (semaphoreBytes env r d) d (dispatchSemaphoreSection env v d)"
proof -
  let ?sz = "ringSizes env"
  let ?arb = "if isDisablePrefetcherRequired d then unat (getSizeDisablePrefetcher env) else 0"
  let ?wait = "if relaxedOrderingEnabled d \<and> r then unat (dynamicSchedulerTotalSize ?sz) else unat (sizeSemaphoreWait ?sz)"
  let ?fence = "if miMemFenceRequired d then unat (sizeAcquireFence ?sz) else 0"
  have arb: "within env ?arb d' (dispatchDisablePrefetcher env b d')" if "sameControl d d'" for b d'
    unfolding dispatchDisablePrefetcher_def using sameControl_simps [OF that]
    by (intro putIf_within) (simp add: getSizeDisablePrefetcher_def)
  have wait: "within env ?wait d' (if relaxedOrderingEnabled d' \<and> relaxedOrderingSchedulerRequired d'
      then dispatchRelaxedOrderingSchedulerSection env v d' else putBlock env [MiSemaphoreWait (semaphoreGpuVa d') (ucast v)] d')"
    if "sameControl d d'" for d'
  proof (cases "relaxedOrderingEnabled d' \<and> relaxedOrderingSchedulerRequired d'")
    case True
    then show ?thesis using schedulerSection_within [of d' env v] init r sameControl_simps [OF that] by simp
  next
    case False
    have "unat (sizeSemaphoreWait ?sz) \<le> ?wait" using dynamic_bytes [OF sz] by simp
    then show ?thesis unfolding if_not_P [OF False] by (intro put_within) simp
  qed
  have fence: "within env ?fence d' (putIf (miMemFenceRequired d') env [AcquireFence (gpuVaForAdditionalSynchronizationWA d')] d')"
    if "sameControl d d'" for d'
    using sameControl_simps [OF that] by (intro putIf_within) simp
  have jump: "within env (unat (getSizePrefetchMitigation env)) d' (dispatchPrefetchMitigation env d')" for d'
    unfolding dispatchPrefetchMitigation_def by (intro put_within) (simp add: getSizePrefetchMitigation_def)
  have "within env (?arb + (?wait + (?fence + (unat (getSizePrefetchMitigation env) + ?arb)))) d (dispatchSemaphoreSection env v d)"
    unfolding dispatchSemaphoreSection_def
    by (intro within_seq arb wait fence jump) (blast intro: sameControl_refl sameControl_trans)+
  then show ?thesis by (rule within_mono) (simp add: semaphore_bytes [OF sz])
qed

definition stallBytes :: "RingEnvironment \<Rightarrow> DirectSubmission \<Rightarrow> nat" where
  "stallBytes env d = unat (getSizeDispatchRelaxedOrderingQueueStall env d)"

lemma conditional_bytes: "smallCommands sz \<Longrightarrow> unat (getCmdSizeConditionalDataRegBatchBufferStart sz False) \<le> 1024"
  by (simp add: smallCommands_def size_defs small_sum small_mult)

lemma stall_bytes:
  assumes sz: "smallCommands (ringSizes env)"
  shows "stallBytes env d = semaphoreBytes env True d + unat (sizeLoadRegisterImm (ringSizes env)) +
    unat (getCmdSizeConditionalDataRegBatchBufferStart (ringSizes env) False)" "stallBytes env d \<le> 8192"
  using semaphore_bytes(2) [OF sz, of True d] conditional_bytes [OF sz] sz
  by (simp_all add: stallBytes_def getSizeDispatchRelaxedOrderingQueueStall_def small_sum smallCommands_def)

lemma semaphoreBytes_control: "sameControl d d' \<Longrightarrow> semaphoreBytes env r d' = semaphoreBytes env r d"
  by (simp add: getSizeSemaphoreSection_def sameControl_simps)

text \<open>The queue stall clears the mark that a scheduler is required, and otherwise only writes.\<close>

lemma stall_returns:
  assumes sz: "smallCommands (ringSizes env)" and init: "relaxedOrderingInitialized d" and ok: "ringOk env d" "stallBytes env d \<le> room d"
  obtains d' where "dispatchRelaxedOrderingQueueStall env d = Inr (d'\<lparr>relaxedOrderingSchedulerRequired := False\<rparr>)"
    "sameControl d d'" "ringOk env d'" "room d \<le> room d' + stallBytes env d"
proof -
  let ?c = "getCmdSizeConditionalDataRegBatchBufferStart (ringSizes env) False"
  let ?r = "andThen (reserveSpace ?c d) (\<lambda>d. andThen (putBlock env [MiLoadRegisterImm (csGpr 5) 1] d)
    (\<lambda>d. dispatchSemaphoreSection env (currentQueueWorkCount d) d))"
  have "within env (unat ?c + (unat (sizeLoadRegisterImm (ringSizes env)) + semaphoreBytes env True d)) d ?r"
  proof (intro within_seq reserve_within put_within)
    fix d1 d2 assume c: "sameControl d d1" "sameControl d1 d2"
    have eq: "semaphoreBytes env True d2 = semaphoreBytes env True d"
      using semaphoreBytes_control [OF sameControl_trans [OF c]] .
    show "within env (semaphoreBytes env True d) d2 (dispatchSemaphoreSection env (currentQueueWorkCount d2) d2)"
      using semaphore_within [OF sz, of d2 True "currentQueueWorkCount d2"] init sameControl_simps [OF sameControl_trans [OF c]]
      unfolding eq by simp
  qed simp_all
  then have "within env (stallBytes env d) d ?r" by (rule within_mono) (simp add: stall_bytes [OF sz])
  from withinE [OF this ok] obtain d' where d': "?r = Inr d'" "sameControl d d'" "ringOk env d'" "room d \<le> room d' + stallBytes env d" .
  let ?p = "patchBlock env (ringPosition d) (programConditionalDataRegBatchBufferStart (ringPosition d') (csGpr 1) 0 compareEqual False False) d'"
  have "dispatchRelaxedOrderingQueueStall env d = Inr (?p\<lparr>relaxedOrderingSchedulerRequired := False\<rparr>)"
    using d'(1) by (auto simp: dispatchRelaxedOrderingQueueStall_def andThen_def split: sum.splits)
  then show thesis using that [of ?p] d'(2-4) patch_ok sameControl_trans by metis
qed

section \<open>Stopping the ring\<close>

text \<open>What the sizes depend on and no operation but the construction changes, and what only a switch of ring buffers changes.\<close>

definition setupOf where
  "setupOf d = (relaxedOrderingEnabled d, miMemFenceRequired d, isDisablePrefetcherRequired d, disableMonitorFence d,
     disableCacheFlush d, globalFenceAllocation d)"

definition buffersOf where
  "buffersOf d = (ringBuffers d, currentRingBuffer d, previousRingBuffer d, maxRingBufferCount d,
     maxAvailableSpace (ringCommandStream d), graphicsAllocation (ringCommandStream d), execCalls d, dispatchErrorCode d)"

definition flagsOf where
  "flagsOf d = (partitionConfigSet d, systemMemoryFenceAddressSet d, relaxedOrderingInitialized d)"

lemma control_setup: "sameControl d d' \<Longrightarrow> setupOf d' = setupOf d \<and> buffersOf d' = buffersOf d"
  by (simp add: setupOf_def buffersOf_def sameControl_simps)

lemma control_flags: "sameControl d d' \<Longrightarrow> flagsOf d' = flagsOf d"
  by (simp add: flagsOf_def sameControl_simps)

lemma setup_bytes:
  assumes "setupOf d' = setupOf d"
  shows "semaphoreBytes env r d' = semaphoreBytes env r d" "stallBytes env d' = stallBytes env d"
    "getSizeEnd env r d' = getSizeEnd env r d" "getSizeSwitchRingBufferSection env d' = getSizeSwitchRingBufferSection env d"
  using assms by (simp_all add: setupOf_def stallBytes_def getSizeSemaphoreSection_def getSizeEnd_def
    getSizeSwitchRingBufferSection_def getSizeDispatchRelaxedOrderingQueueStall_def)

definition endBytes :: "RingEnvironment \<Rightarrow> bool \<Rightarrow> DirectSubmission \<Rightarrow> nat" where
  "endBytes env r d = unat (getSizeEnd env r d)"

definition switchBytes :: "RingEnvironment \<Rightarrow> DirectSubmission \<Rightarrow> nat" where
  "switchBytes env d = unat (getSizeSwitchRingBufferSection env d)"

lemma end_bytes:
  assumes sz: "smallCommands (ringSizes env)"
  shows "endBytes env r d = unat (sizeBatchBufferStart (ringSizes env)) + unat (sizeCacheFlush (ringSizes env)) + 64 +
      (if disableMonitorFence d then unat (sizeMonitorFence (ringSizes env)) else 0) +
      (if relaxedOrderingEnabled d \<and> r then stallBytes env d else 0)" "endBytes env r d \<le> 16384"
proof -
  have "getSizeEnd env r d = sizeBatchBufferStart (ringSizes env) + sizeCacheFlush (ringSizes env) + cacheLineSize +
      (if disableMonitorFence d then sizeMonitorFence (ringSizes env) else 0) +
      (if relaxedOrderingEnabled d \<and> r then getSizeDispatchRelaxedOrderingQueueStall env d else 0)"
    by (simp add: getSizeEnd_def Let_def algebra_simps)
  then show "endBytes env r d = unat (sizeBatchBufferStart (ringSizes env)) + unat (sizeCacheFlush (ringSizes env)) + 64 +
      (if disableMonitorFence d then unat (sizeMonitorFence (ringSizes env)) else 0) +
      (if relaxedOrderingEnabled d \<and> r then stallBytes env d else 0)"
    using sz stall_bytes(2) [OF sz, of d]
    by (simp add: endBytes_def smallCommands_def stallBytes_def small_sum cacheLineSize_def)
  then show "endBytes env r d \<le> 16384" using sz stall_bytes(2) [OF sz, of d] by (simp add: smallCommands_def)
qed

lemma switch_bytes:
  assumes sz: "smallCommands (ringSizes env)"
  shows "switchBytes env d = unat (sizeBatchBufferStart (ringSizes env)) +
      (if disableMonitorFence d then unat (sizeMonitorFence (ringSizes env)) else 0)" "switchBytes env d \<le> 2048"
  using sz by (simp_all add: switchBytes_def getSizeSwitchRingBufferSection_def smallCommands_def small_sum)

lemma monitorFence_within: "within env (unat (sizeMonitorFence (ringSizes env))) d (putMonitorFence env d)"
  unfolding putMonitorFence_def by (rule put_within) simp

lemma align_within: "within env 64 d (ringAlignToCacheLine env d)"
proof -
  have "unat (cacheLineSize - (sizeUsed (ringCommandStream d) AND (cacheLineSize - 1))) \<le> 64"
  proof -
    have "unat (sizeUsed (ringCommandStream d) AND (cacheLineSize - 1)) \<le> 63"
      using word_and_le1 [of "sizeUsed (ringCommandStream d)" 63] by (simp add: cacheLineSize_def word_le_nat_alt)
    then show ?thesis by (simp add: cacheLineSize_def unat_sub_nowrap)
  qed
  then show ?thesis unfolding ringAlignToCacheLine_def Let_def by (intro putIf_within) simp
qed

definition stopTail :: "RingEnvironment \<Rightarrow> DirectSubmission \<Rightarrow> DirectSubmission result" where
  "stopTail env d = andThen (putBlock env [CacheFlush (gpuVaForMiFlush d)] d)
     (\<lambda>d. andThen (if disableMonitorFence d then putMonitorFence env d else Inr d)
     (\<lambda>d. andThen (putBlock env [MiBatchBufferEnd] d)
     (\<lambda>d. andThen (putBlock env [Noops (sizeBatchBufferStart (ringSizes env) - sizeBatchBufferEnd (ringSizes env))] d)
     (\<lambda>d. ringAlignToCacheLine env d))))"

lemma stopRingBuffer_tail:
  "ringStart d \<Longrightarrow> stopRingBuffer env d =
     andThen (if relaxedOrderingEnabled d \<and> relaxedOrderingSchedulerRequired d then dispatchRelaxedOrderingQueueStall env d else Inr d)
       (\<lambda>d. andThen (stopTail env d) (\<lambda>d. Inr ((handleStopRingBuffer (unblockGpu d))\<lparr>ringStart := False\<rparr>)))"
  by (simp only: stopRingBuffer_def stopTail_def andThen_assoc not_True_eq_False if_False)

lemma stopTail_within:
  assumes sz: "smallCommands (ringSizes env)"
  shows "within env (endBytes env False d) d (stopTail env d)"
proof -
  let ?sz = "ringSizes env" and ?fence = "if disableMonitorFence d then unat (sizeMonitorFence (ringSizes env)) else 0"
  have fence: "within env ?fence d' (if disableMonitorFence d' then putMonitorFence env d' else Inr d')" if "sameControl d d'" for d'
    using sameControl_simps(6) [OF that] by (simp add: monitorFence_within within_skip)
  have "within env (unat (sizeCacheFlush ?sz) + (?fence + (unat (sizeBatchBufferEnd ?sz) +
      (unat (sizeBatchBufferStart ?sz - sizeBatchBufferEnd ?sz) + 64)))) d (stopTail env d)"
    unfolding stopTail_def
    by (intro within_seq put_within align_within fence) (auto intro: sameControl_trans)
  moreover have "unat (sizeBatchBufferStart ?sz - sizeBatchBufferEnd ?sz) = unat (sizeBatchBufferStart ?sz) - unat (sizeBatchBufferEnd ?sz)"
    using sz by (simp add: smallCommands_def unat_sub_nowrap)
  ultimately show ?thesis
    by (rule_tac within_mono) (use sz in \<open>auto simp: end_bytes [OF sz] smallCommands_def\<close>)
qed

text \<open>Everything the steps of a ring rely on, except for the space that is kept while the ring runs.\<close>

definition ringShape :: "RingEnvironment \<Rightarrow> DirectSubmission \<Rightarrow> bool" where
  "ringShape env d \<longleftrightarrow> ringOk env d \<and> maxAvailableSpace (ringCommandStream d) = minimumRequiredSize \<and>
     (globalFenceAllocation d \<longrightarrow> miMemFenceRequired d \<or> systemMemoryFenceAddressSet d) \<and>
     (relaxedOrderingEnabled d \<and> relaxedOrderingSchedulerRequired d \<longrightarrow> relaxedOrderingInitialized d) \<and>
     currentRingBuffer d < length (ringBuffers d) \<and> 2 \<le> length (ringBuffers d) \<and>
     (\<forall>i < length (ringBuffers d). ringBuffer (ringBuffers d ! i) = allocateRingBuffer env i)"

definition ringInv :: "RingEnvironment \<Rightarrow> DirectSubmission \<Rightarrow> bool" where
  "ringInv env d \<longleftrightarrow> ringShape env d \<and>
     (ringStart d \<longrightarrow> switchBytes env d + endBytes env (relaxedOrderingSchedulerRequired d) d \<le> room d)"

lemma shape_control: "sameControl d d' \<Longrightarrow> ringOk env d' \<Longrightarrow> ringShape env d \<Longrightarrow> ringShape env d'"
  unfolding ringShape_def by (simp add: sameControl_simps)

lemma stop_returns:
  assumes sz: "smallCommands (ringSizes env)" and shape: "ringShape env d"
    and space: "ringStart d \<Longrightarrow> endBytes env (relaxedOrderingSchedulerRequired d) d \<le> room d"
  obtains d' where "stopRingBuffer env d = Inr d'" "ringShape env d'" "\<not> ringStart d'" "setupOf d' = setupOf d" "buffersOf d' = buffersOf d"
    "currentQueueWorkCount d' = currentQueueWorkCount d" "flagsOf d' = flagsOf d"
    "relaxedOrderingSchedulerRequired d' \<longrightarrow> relaxedOrderingSchedulerRequired d"
proof (cases "ringStart d")
  case True
  let ?stall = "relaxedOrderingEnabled d \<and> relaxedOrderingSchedulerRequired d"
  obtain d1 where 1: "(if ?stall then dispatchRelaxedOrderingQueueStall env d else Inr d) = Inr d1" "ringShape env d1"
    "endBytes env False d1 \<le> room d1" "setupOf d1 = setupOf d" "buffersOf d1 = buffersOf d"
    "currentQueueWorkCount d1 = currentQueueWorkCount d" "ringStart d1" "flagsOf d1 = flagsOf d"
    "relaxedOrderingSchedulerRequired d1 \<longrightarrow> relaxedOrderingSchedulerRequired d"
  proof (cases ?stall)
    case stall: True
    then have e: "endBytes env (relaxedOrderingSchedulerRequired d) d = endBytes env False d + stallBytes env d"
      by (simp add: end_bytes [OF sz])
    have ok: "ringOk env d" "relaxedOrderingInitialized d" "stallBytes env d \<le> room d"
      using shape stall space [OF True] e by (auto simp: ringShape_def)
    from stall_returns [OF sz ok(2,1,3)] obtain d' where
      d': "dispatchRelaxedOrderingQueueStall env d = Inr (d'\<lparr>relaxedOrderingSchedulerRequired := False\<rparr>)"
      "sameControl d d'" "ringOk env d'" "room d \<le> room d' + stallBytes env d" .
    show thesis
    proof (rule that [of "d'\<lparr>relaxedOrderingSchedulerRequired := False\<rparr>"])
      show "ringShape env (d'\<lparr>relaxedOrderingSchedulerRequired := False\<rparr>)"
        using shape_control [OF d'(2,3) shape] by (auto simp: ringShape_def ringOk_def templatesOk_def)
      have "endBytes env False (d'\<lparr>relaxedOrderingSchedulerRequired := False\<rparr>) = endBytes env False d"
        using control_setup [OF d'(2)] unfolding endBytes_def by (intro arg_cong [of _ _ unat] setup_bytes(3)) (simp add: setupOf_def)
      then show "endBytes env False (d'\<lparr>relaxedOrderingSchedulerRequired := False\<rparr>) \<le> room (d'\<lparr>relaxedOrderingSchedulerRequired := False\<rparr>)"
        using d'(4) e space [OF True] by (simp add: room_def)
    qed (use stall d'(1) control_setup [OF d'(2)] sameControl_simps [OF d'(2)] True in \<open>simp_all add: setupOf_def buffersOf_def flagsOf_def\<close>)
  next
    case False
    then have "endBytes env (relaxedOrderingSchedulerRequired d) d = endBytes env False d" by (auto simp: end_bytes [OF sz])
    then show thesis using that [of d] False shape space True by simp
  qed
  have ok1: "ringOk env d1" using 1(2) by (simp add: ringShape_def)
  from withinE [OF stopTail_within [OF sz] ok1 1(3)] obtain d2 where
    2: "stopTail env d1 = Inr d2" "sameControl d1 d2" "ringOk env d2" .
  let ?d = "(handleStopRingBuffer (unblockGpu d2))\<lparr>ringStart := False\<rparr>"
  have "ringShape env ?d"
    using shape_control [OF 2(2,3) 1(2)]
    by (auto simp: ringShape_def ringOk_def templatesOk_def handleStopRingBuffer_def unblockGpu_def advanceTag_def)
  moreover have "setupOf ?d = setupOf d" "buffersOf ?d = buffersOf d" "currentQueueWorkCount ?d = currentQueueWorkCount d"
    using 1(4-6) control_setup [OF 2(2)] sameControl_simps [OF 2(2)]
    by (simp_all add: setupOf_def buffersOf_def handleStopRingBuffer_def unblockGpu_def advanceTag_def)
  moreover have "flagsOf ?d = flagsOf d" "relaxedOrderingSchedulerRequired ?d \<longrightarrow> relaxedOrderingSchedulerRequired d"
    using 1(8,9) control_flags [OF 2(2)] sameControl_simps(3) [OF 2(2)]
    by (simp_all add: flagsOf_def handleStopRingBuffer_def unblockGpu_def advanceTag_def)
  moreover have "stopRingBuffer env d = Inr ?d" using stopRingBuffer_tail [OF True] 1(1) 2(1) by simp
  ultimately show thesis using that [of ?d] by simp
qed (use that [of d] shape in \<open>simp add: stopRingBuffer_def\<close>)

section \<open>Dispatching\<close>

definition keeps :: "RingEnvironment \<Rightarrow> nat \<Rightarrow> DirectSubmission \<Rightarrow> DirectSubmission \<Rightarrow> bool" where
  "keeps env n d d' \<longleftrightarrow> ringShape env d' \<and> setupOf d' = setupOf d \<and> buffersOf d' = buffersOf d \<and>
     currentQueueWorkCount d' = currentQueueWorkCount d \<and> ringStart d' = ringStart d \<and> room d \<le> room d' + n"

lemma keeps_refl: "ringShape env d \<Longrightarrow> keeps env n d d"
  by (simp add: keeps_def)

lemma keeps_trans: "keeps env m a b \<Longrightarrow> keeps env n b c \<Longrightarrow> keeps env (m + n) a c"
  by (auto simp: keeps_def)

lemma shape_flags:
  assumes "ringShape env d"
  shows "ringShape env (d\<lparr>systemMemoryFenceAddressSet := True\<rparr>)" "ringShape env (d\<lparr>partitionConfigSet := True\<rparr>)"
    "templatesOk env (d\<lparr>relaxedOrderingInitialized := True\<rparr>) \<Longrightarrow> ringShape env (d\<lparr>relaxedOrderingInitialized := True\<rparr>)"
  using assms by (auto simp: ringShape_def ringOk_def templatesOk_def)

lemma keeps_flags:
  assumes "keeps env n d d'"
  shows "keeps env n d (d'\<lparr>systemMemoryFenceAddressSet := True\<rparr>)" "keeps env n d (d'\<lparr>partitionConfigSet := True\<rparr>)"
    "templatesOk env (d'\<lparr>relaxedOrderingInitialized := True\<rparr>) \<Longrightarrow> keeps env n d (d'\<lparr>relaxedOrderingInitialized := True\<rparr>)"
proof -
  have "setupOf (d'\<lparr>systemMemoryFenceAddressSet := True\<rparr>) = setupOf d'" "setupOf (d'\<lparr>partitionConfigSet := True\<rparr>) = setupOf d'"
    "setupOf (d'\<lparr>relaxedOrderingInitialized := True\<rparr>) = setupOf d'" "buffersOf (d'\<lparr>systemMemoryFenceAddressSet := True\<rparr>) = buffersOf d'"
    "buffersOf (d'\<lparr>partitionConfigSet := True\<rparr>) = buffersOf d'" "buffersOf (d'\<lparr>relaxedOrderingInitialized := True\<rparr>) = buffersOf d'"
    by (simp_all add: setupOf_def buffersOf_def)
  then show "keeps env n d (d'\<lparr>systemMemoryFenceAddressSet := True\<rparr>)" "keeps env n d (d'\<lparr>partitionConfigSet := True\<rparr>)"
    "templatesOk env (d'\<lparr>relaxedOrderingInitialized := True\<rparr>) \<Longrightarrow> keeps env n d (d'\<lparr>relaxedOrderingInitialized := True\<rparr>)"
    using assms shape_flags [of env d'] by (simp_all add: keeps_def room_def)
qed

lemma keeps_from: "keeps env n e d' \<Longrightarrow> setupOf e = setupOf d \<Longrightarrow> buffersOf e = buffersOf d \<Longrightarrow> room e = room d \<Longrightarrow>
    currentQueueWorkCount e = currentQueueWorkCount d \<Longrightarrow> ringStart e = ringStart d \<Longrightarrow> keeps env n d d'"
  by (simp add: keeps_def)

lemma within_keeps:
  assumes "within env n d r" "ringShape env d" "n \<le> room d"
  obtains d' where "r = Inr d'" "sameControl d d'" "keeps env n d d'"
proof -
  have "ringOk env d" using assms(2) by (simp add: ringShape_def)
  from withinE [OF assms(1) this assms(3)] obtain d' where
    "r = Inr d'" "sameControl d d'" "ringOk env d'" "room d \<le> room d' + n" .
  moreover from this have "ringShape env d'" using shape_control assms(2) by blast
  ultimately show thesis using control_setup sameControl_simps(11,16) by (intro that [of d']) (simp_all add: keeps_def)
qed

lemma ulls_bytes:
  assumes sz: "smallCommands (ringSizes env)"
  shows "unat (getUllsStateSize env d) = (if \<not> partitionConfigSet d then unat (sizePartitionRegisters (ringSizes env)) else 0) +
     (if miMemFenceRequired d \<and> \<not> systemMemoryFenceAddressSet d then unat (sizeSystemMemoryFence (ringSizes env)) else 0) +
     (if relaxedOrderingEnabled d \<and> \<not> relaxedOrderingInitialized d then 4 * unat (sizeLoadRegisterImm (ringSizes env)) else 0)"
  using sz by (simp add: getUllsStateSize_def smallCommands_def getSizeRegistersInit_def small_sum small_mult)

lemma partition_step:
  assumes "ringShape env d" "(if \<not> partitionConfigSet d then unat (sizePartitionRegisters (ringSizes env)) else 0) \<le> room d" (is "?n \<le> _")
  obtains d' where "(if \<not> partitionConfigSet d
      then map_sum id (partitionConfigSet_update (\<lambda>_. True)) (dispatchPartitionRegisterConfiguration env d) else Inr d) = Inr d'"
    "keeps env ?n d d'" "relaxedOrderingSchedulerRequired d' = relaxedOrderingSchedulerRequired d"
    "systemMemoryFenceAddressSet d' = systemMemoryFenceAddressSet d" "relaxedOrderingInitialized d' = relaxedOrderingInitialized d"
proof (cases "partitionConfigSet d")
  case False
  have "within env ?n d (dispatchPartitionRegisterConfiguration env d)"
    unfolding dispatchPartitionRegisterConfiguration_def by (rule put_within) (simp add: False)
  from within_keeps [OF this assms] obtain d1 where 1: "dispatchPartitionRegisterConfiguration env d = Inr d1" "sameControl d d1" "keeps env ?n d d1" .
  show thesis
    by (rule that [of "d1\<lparr>partitionConfigSet := True\<rparr>"])
      (use 1(1) False sameControl_simps [OF 1(2)] keeps_flags(2) [OF 1(3)] in simp_all)
next
  case True
  then show thesis using that [of d] keeps_refl [OF assms(1)] by auto
qed

lemma fence_step:
  assumes "ringShape env d"
    "(if miMemFenceRequired d \<and> \<not> systemMemoryFenceAddressSet d then unat (sizeSystemMemoryFence (ringSizes env)) else 0) \<le> room d" (is "?n \<le> _")
  obtains d' where "(if globalFenceAllocation d \<and> \<not> systemMemoryFenceAddressSet d
      then map_sum id (systemMemoryFenceAddressSet_update (\<lambda>_. True)) (putBlock env [SystemMemoryFence] d) else Inr d) = Inr d'"
    "keeps env ?n d d'" "relaxedOrderingSchedulerRequired d' = relaxedOrderingSchedulerRequired d"
    "relaxedOrderingInitialized d' = relaxedOrderingInitialized d"
proof (cases "globalFenceAllocation d \<and> \<not> systemMemoryFenceAddressSet d")
  case True
  then have "within env ?n d (putBlock env [SystemMemoryFence] d)" using assms(1) by (intro put_within) (simp add: ringShape_def)
  from within_keeps [OF this assms] obtain d1 where 1: "putBlock env [SystemMemoryFence] d = Inr d1" "sameControl d d1" "keeps env ?n d d1" .
  show thesis
    by (rule that [of "d1\<lparr>systemMemoryFenceAddressSet := True\<rparr>"])
      (use 1(1) True sameControl_simps [OF 1(2)] keeps_flags(1) [OF 1(3)] in simp_all)
next
  case False
  show thesis by (rule that [of d]) (simp_all only: if_not_P [OF False] keeps_refl [OF assms(1)])
qed

lemma preinitialize_returns:
  "preinitializeRelaxedOrderingSections env d = Inr (d\<lparr>preinitializedTaskStoreSection := taskStoreTemplate (deferredTasksListGpuVa d),
     preinitializedRelaxedOrderingScheduler := dynamicSchedulerTemplate (relaxedOrderingSchedulerGpuVa d)\<rparr>)"
  by (simp add: preinitializeRelaxedOrderingSections_def Let_def)

lemma static_returns:
  assumes "smallCommands (ringSizes env)"
  obtains q cs a where "dispatchStaticRelaxedOrderingScheduler env d = Inr (d\<lparr>currentRelaxedOrderingQueueSize := q,
     relaxedOrderingScheduler := cs, relaxedOrderingQueueSizeLimitValueVa := a\<rparr>)"
proof (cases "flagRelaxedOrderingQueueSizeLimit env = -1")
  case True
  obtain cs where "staticScheduler (ringSizes env) (relaxedOrderingSchedulerGpuVa d) (deferredTasksListGpuVa d) (semaphoreGpuVa d)
      (currentRelaxedOrderingQueueSize d) = Inr cs" using staticScheduler_returns [OF assms] by blast
  then show thesis using that [where q = "currentRelaxedOrderingQueueSize d" and cs = cs] True
    by (simp add: dispatchStaticRelaxedOrderingScheduler_def Let_def)
next
  case False
  obtain cs where "staticScheduler (ringSizes env) (relaxedOrderingSchedulerGpuVa d) (deferredTasksListGpuVa d) (semaphoreGpuVa d)
      (of_int (flagRelaxedOrderingQueueSizeLimit env)) = Inr cs" using staticScheduler_returns [OF assms] by blast
  then show thesis using that [where q = "of_int (flagRelaxedOrderingQueueSizeLimit env)" and cs = cs] False
    by (simp add: dispatchStaticRelaxedOrderingScheduler_def Let_def)
qed

lemma relaxed_step:
  assumes sz: "smallCommands (ringSizes env)" and "ringShape env d"
    "(if relaxedOrderingEnabled d \<and> \<not> relaxedOrderingInitialized d then 4 * unat (sizeLoadRegisterImm (ringSizes env)) else 0) \<le> room d" (is "?n \<le> _")
  obtains d' where "(if relaxedOrderingEnabled d \<and> \<not> relaxedOrderingInitialized d
      then andThen (preinitializeRelaxedOrderingSections env d)
        (\<lambda>d. andThen (dispatchStaticRelaxedOrderingScheduler env d)
        (\<lambda>d. map_sum id (relaxedOrderingInitialized_update (\<lambda>_. True)) (initRelaxedOrderingRegisters env d))) else Inr d) = Inr d'"
    "keeps env ?n d d'" "relaxedOrderingSchedulerRequired d' = relaxedOrderingSchedulerRequired d"
    "relaxedOrderingEnabled d \<longrightarrow> relaxedOrderingInitialized d'"
proof (cases "relaxedOrderingEnabled d \<and> \<not> relaxedOrderingInitialized d")
  case True
  let ?d = "d\<lparr>preinitializedTaskStoreSection := taskStoreTemplate (deferredTasksListGpuVa d),
     preinitializedRelaxedOrderingScheduler := dynamicSchedulerTemplate (relaxedOrderingSchedulerGpuVa d)\<rparr>"
  obtain q cs a where s: "dispatchStaticRelaxedOrderingScheduler env ?d = Inr (?d\<lparr>currentRelaxedOrderingQueueSize := q,
     relaxedOrderingScheduler := cs, relaxedOrderingQueueSizeLimitValueVa := a\<rparr>)" (is "_ = Inr ?e") using static_returns [OF sz] .
  have e: "ringShape env ?e" "room ?e = room d" "setupOf ?e = setupOf d" "buffersOf ?e = buffersOf d"
    using assms(2) True by (auto simp: ringShape_def ringOk_def templatesOk_def room_def setupOf_def buffersOf_def)
  have "within env ?n ?e (initRelaxedOrderingRegisters env ?e)" unfolding initRelaxedOrderingRegisters_def
    using True sz by (intro put_within) (simp add: getSizeRegistersInit_def smallCommands_def small_mult)
  from within_keeps [OF this e(1)] assms(3) e(2) obtain d1 where
    1: "initRelaxedOrderingRegisters env ?e = Inr d1" "sameControl ?e d1" "keeps env ?n ?e d1" by auto
  have t: "preinitializedTaskStoreSection d1 = preinitializedTaskStoreSection ?e \<and>
      preinitializedRelaxedOrderingScheduler d1 = preinitializedRelaxedOrderingScheduler ?e"
    using 1(1) by (auto simp: initRelaxedOrderingRegisters_def putBlock_def reserveSpace_def patchBlock_def andThen_def split: sum.splits)
  show thesis
  proof (rule that [of "d1\<lparr>relaxedOrderingInitialized := True\<rparr>"])
    have "templatesOk env (d1\<lparr>relaxedOrderingInitialized := True\<rparr>)"
      using t template_bytes by (simp add: templatesOk_def)
    then show "keeps env ?n d (d1\<lparr>relaxedOrderingInitialized := True\<rparr>)"
      using keeps_flags(3) [OF keeps_from [OF 1(3) e(3,4,2)]] by simp
  qed (use 1(1) s True sameControl_simps [OF 1(2)] in \<open>simp_all add: preinitialize_returns\<close>)
next
  case False
  show thesis by (rule that [of d]) (use False in \<open>auto simp: keeps_refl [OF assms(2)]\<close>)
qed

lemma ulls_returns:
  assumes sz: "smallCommands (ringSizes env)" and shape: "ringShape env d" and space: "unat (getUllsStateSize env d) \<le> room d"
  obtains d' where "dispatchUllsState env d = Inr d'" "keeps env (unat (getUllsStateSize env d)) d d'"
    "relaxedOrderingSchedulerRequired d' = relaxedOrderingSchedulerRequired d" "relaxedOrderingEnabled d' \<longrightarrow> relaxedOrderingInitialized d'"
proof -
  note b = space [unfolded ulls_bytes [OF sz]]
  from partition_step [OF shape] b obtain d1 where 1: "(if \<not> partitionConfigSet d
      then map_sum id (partitionConfigSet_update (\<lambda>_. True)) (dispatchPartitionRegisterConfiguration env d) else Inr d) = Inr d1"
    "keeps env (if \<not> partitionConfigSet d then unat (sizePartitionRegisters (ringSizes env)) else 0) d d1"
    "relaxedOrderingSchedulerRequired d1 = relaxedOrderingSchedulerRequired d"
    "systemMemoryFenceAddressSet d1 = systemMemoryFenceAddressSet d" "relaxedOrderingInitialized d1 = relaxedOrderingInitialized d"
    by (metis (no_types, lifting) add_leD1)
  have s1: "miMemFenceRequired d1 = miMemFenceRequired d" "relaxedOrderingEnabled d1 = relaxedOrderingEnabled d" "ringShape env d1"
    using 1(2) by (simp_all add: keeps_def setupOf_def)
  have r1: "(if miMemFenceRequired d1 \<and> \<not> systemMemoryFenceAddressSet d1 then unat (sizeSystemMemoryFence (ringSizes env)) else 0) \<le> room d1"
    using 1(2,4) s1 b by (simp add: keeps_def)
  from fence_step [OF s1(3) r1] obtain d2 where 2: "(if globalFenceAllocation d1 \<and> \<not> systemMemoryFenceAddressSet d1
      then map_sum id (systemMemoryFenceAddressSet_update (\<lambda>_. True)) (putBlock env [SystemMemoryFence] d1) else Inr d1) = Inr d2"
    "keeps env (if miMemFenceRequired d1 \<and> \<not> systemMemoryFenceAddressSet d1 then unat (sizeSystemMemoryFence (ringSizes env)) else 0) d1 d2"
    "relaxedOrderingSchedulerRequired d2 = relaxedOrderingSchedulerRequired d1" "relaxedOrderingInitialized d2 = relaxedOrderingInitialized d1" .
  have s2: "relaxedOrderingEnabled d2 = relaxedOrderingEnabled d" "ringShape env d2"
    using 2(2) s1 by (simp_all add: keeps_def setupOf_def)
  have r2: "(if relaxedOrderingEnabled d2 \<and> \<not> relaxedOrderingInitialized d2 then 4 * unat (sizeLoadRegisterImm (ringSizes env)) else 0) \<le> room d2"
    using keeps_trans [OF 1(2) 2(2)] 1(4,5) 2(4) s1 s2 b by (simp add: keeps_def)
  from relaxed_step [OF sz s2(2) r2] obtain d3 where 3: "(if relaxedOrderingEnabled d2 \<and> \<not> relaxedOrderingInitialized d2
      then andThen (preinitializeRelaxedOrderingSections env d2)
        (\<lambda>d. andThen (dispatchStaticRelaxedOrderingScheduler env d)
        (\<lambda>d. map_sum id (relaxedOrderingInitialized_update (\<lambda>_. True)) (initRelaxedOrderingRegisters env d))) else Inr d2) = Inr d3"
    "keeps env (if relaxedOrderingEnabled d2 \<and> \<not> relaxedOrderingInitialized d2 then 4 * unat (sizeLoadRegisterImm (ringSizes env)) else 0) d2 d3"
    "relaxedOrderingSchedulerRequired d3 = relaxedOrderingSchedulerRequired d2" "relaxedOrderingEnabled d2 \<longrightarrow> relaxedOrderingInitialized d3" .
  show thesis
  proof (rule that [of d3])
    show "dispatchUllsState env d = Inr d3" unfolding dispatchUllsState_def by (simp only: 1(1) 2(1) 3(1) andThen_simps)
    show "keeps env (unat (getUllsStateSize env d)) d d3"
      using keeps_trans [OF keeps_trans [OF 1(2) 2(2)] 3(2)] s1 s2 1(4,5) 2(4) by (simp only: ulls_bytes [OF sz])
    show "relaxedOrderingEnabled d3 \<longrightarrow> relaxedOrderingInitialized d3" using 3(2,4) by (simp add: keeps_def setupOf_def)
  qed (simp add: 1 2 3)
qed

definition workBytes :: "RingEnvironment \<Rightarrow> RingBatch \<Rightarrow> bool \<Rightarrow> bool \<Rightarrow> DirectSubmission \<Rightarrow> nat" where
  "workBytes env b monitorFence r d =
     (let sz = ringSizes env; relaxed = relaxedOrderingEnabled d \<and> batchRelaxedOrderingDependencies b in
      (if requiresProgrammingSemaphore (pagingFenceSemInfo b) then unat (sizeSemaphoreWait sz) else 0) +
      ((if relaxed then unat (getSizeReturnPtrRegs sz) else 0) +
      ((if copyCommandBufferIntoRing env b then unat (sizeToCopy b) else unat (sizeBatchBufferStart sz)) +
      ((if relaxed then unat (getSizeTaskStoreSection sz) + unat (sizeStoreDataImm sz) else 0) +
      ((if \<not> disableCacheFlush d then unat (sizeCacheFlush sz) else 0) +
      ((if monitorFence then unat (sizeMonitorFence sz) else 0) +
       semaphoreBytes env r d))))))"

lemma workload_within:
  assumes sz: "smallCommands (ringSizes env)" and a: "batchAllocation b = Some a"
    and init: "relaxedOrderingEnabled d \<longrightarrow> relaxedOrderingInitialized d" and r: "relaxedOrderingSchedulerRequired d \<longrightarrow> r"
  shows "within env (workBytes env b mf r d) d (dispatchWorkloadSection env b mf d)"
proof -
  let ?sz = "ringSizes env" and ?relaxed = "relaxedOrderingEnabled d \<and> batchRelaxedOrderingDependencies b"
  have paging: "within env (if requiresProgrammingSemaphore (pagingFenceSemInfo b) then unat (sizeSemaphoreWait ?sz) else 0) d
      (putIf (requiresProgrammingSemaphore (pagingFenceSemInfo b)) env
        [MiSemaphoreWait (gpuVaForPagingFenceSemaphore d) (pagingFenceValue (pagingFenceSemInfo b))] d)"
    by (rule putIf_within) simp
  have regs: "within env (if ?relaxed then unat (getSizeReturnPtrRegs ?sz) else 0) d'
      (if ?relaxed then reserveSpace (getSizeReturnPtrRegs ?sz) d' else Inr d')" for d'
    by (simp add: reserve_within within_skip)
  have start: "within env (if copyCommandBufferIntoRing env b then unat (sizeToCopy b) else unat (sizeBatchBufferStart ?sz)) d'
      (putBlock env (if copyCommandBufferIntoRing env b then [ClientCommands x (sizeToCopy b)] else [MiBatchBufferStart x False False]) d')" for d' x
    by (rule put_within) simp
  have store: "within env (if ?relaxed then unat (getSizeTaskStoreSection ?sz) + unat (sizeStoreDataImm ?sz) else 0) d'
      (if ?relaxed
       then andThen (dispatchTaskStoreSection env (taskStartAddress b) d')
         (\<lambda>d. if currentRelaxedOrderingQueueSize d < min (numCsrClients b * queueSizeMultiplier) maxQueueSize \<and>
                flagRelaxedOrderingQueueSizeLimit env = -1
              then updateRelaxedOrderingQueueSize env (min (numCsrClients b * queueSizeMultiplier) maxQueueSize) d else Inr d)
       else Inr d')" if "sameControl d d'" for d'
  proof (cases ?relaxed)
    case True
    then have i: "relaxedOrderingInitialized d'" using init sameControl_simps(2) [OF that] by simp
    show ?thesis unfolding if_P [OF True]
      by (intro within_seq taskStore_within [OF i] within_if queueSize_within within_skip)
  qed (auto simp: within_skip)
  have flush: "within env (if \<not> disableCacheFlush d then unat (sizeCacheFlush ?sz) else 0) d'
      (putIf (\<not> disableCacheFlush d') env [CacheFlush (gpuVaForMiFlush d')] d')" if "sameControl d d'" for d'
    using sameControl_simps(7) [OF that] by (intro putIf_within) simp
  have fence: "within env (if mf then unat (sizeMonitorFence ?sz) else 0) d' (if mf then putMonitorFence env d' else Inr d')" for d'
    by (simp add: monitorFence_within within_skip)
  have sem: "within env (semaphoreBytes env r d) d' (dispatchSemaphoreSection env (currentQueueWorkCount d' + 1) d')" if "sameControl d d'" for d'
    using semaphore_within [OF sz, of d' r "currentQueueWorkCount d' + 1"] init r semaphoreBytes_control [OF that]
      sameControl_simps(1-3) [OF that] by simp
  have patched: "within env n d' (F (if ?relaxed then patchBlock env p cs d' else if \<not> copyCommandBufferIntoRing env b
       then d'\<lparr>clientReturns := (clientReturns d')(q \<mapsto> x)\<rparr> else d'))"
    if "sameControl d d'" "\<And>e. sameControl d e \<Longrightarrow> within env n e (F e)" for n d' F p cs q x
  proof -
    have c: "sameControl d' (patchBlock env p cs d')" "sameControl d' (d'\<lparr>clientReturns := (clientReturns d')(q \<mapsto> x)\<rparr>)"
      "ringOk env (d'\<lparr>clientReturns := (clientReturns d')(q \<mapsto> x)\<rparr>) = ringOk env d'"
      "room (d'\<lparr>clientReturns := (clientReturns d')(q \<mapsto> x)\<rparr>) = room d'"
      by (rule patch_ok(1)) (auto intro!: sameControlI simp: withMemory_def ringOk_def templatesOk_def room_def)
    have "within env n d' (F (patchBlock env p cs d'))"
      by (rule within_after [OF that(2) c(1)]) (auto simp: patch_ok intro: sameControl_trans [OF that(1)])
    moreover have "within env n d' (F (d'\<lparr>clientReturns := (clientReturns d')(q \<mapsto> x)\<rparr>))"
      by (rule within_after [OF that(2) c(2)]) (use c sameControl_trans [OF that(1)] in auto)
    ultimately show ?thesis using that by simp
  qed
  have rel: "(relaxedOrderingEnabled d' \<and> batchRelaxedOrderingDependencies b) = ?relaxed" if "sameControl d d'" for d'
    using sameControl_simps(1) [OF that] by simp
  note tr = sameControl_trans
  show ?thesis
    unfolding dispatchWorkloadSection_def a option.case Let_def workBytes_def
    apply (rule within_seq [OF paging])
    apply (rule within_seq [OF regs])
    apply (rule within_seq [OF start])
    apply (rule patched, blast intro: tr)
    apply (rule within_seq [OF store], assumption)
    apply (rule within_seq [OF flush], blast intro: tr)
    apply (rule within_seq [OF fence])
    apply (rule sem, blast intro: tr)
    done
qed

section \<open>Switching ring buffers\<close>

text \<open>The ring buffer that comes next, and that there is always one other than the current one.\<close>

lemma allocations_return:
  assumes "ringShape env d" and resident: "ringBufferResident os"
  obtains rs i where "switchRingBuffersAllocations env os d = Inr (allocateRingBuffer env i,
      d\<lparr>previousRingBuffer := currentRingBuffer d, currentRingBuffer := i, ringBuffers := rs\<rparr>)"
    "i < length rs" "i \<noteq> currentRingBuffer d" "length (ringBuffers d) \<le> length rs" "\<forall>j < length (ringBuffers d). rs ! j = ringBuffers d ! j"
    "\<forall>j < length rs. ringBuffer (rs ! j) = allocateRingBuffer env j"
    "(i < length (ringBuffers d) \<and> isCompleted i d \<and> rs = ringBuffers d) \<or>
     (i < length (ringBuffers d) \<and> length (ringBuffers d) = maxRingBufferCount d \<and> rs = ringBuffers d) \<or>
     (i = length (ringBuffers d) \<and> rs = ringBuffers d @ [\<lparr>completionFence = 0, completionFenceForSwitch = 0, ringBuffer = allocateRingBuffer env i\<rparr>])"
proof -
  let ?n = "length (ringBuffers d)" and ?d = "d\<lparr>previousRingBuffer := currentRingBuffer d\<rparr>"
  have shape: "currentRingBuffer d < ?n" "2 \<le> ?n" "\<forall>j < ?n. ringBuffer (ringBuffers d ! j) = allocateRingBuffer env j"
    using assms by (auto simp: ringShape_def)
  have c: "isCompleted i ?d = isCompleted i d" for i by (simp add: isCompleted_def)
  show thesis
  proof (cases "List.find (\<lambda>i. i \<noteq> currentRingBuffer ?d \<and> isCompleted i ?d) [0..<length (ringBuffers ?d)]")
    case (Some i)
    then have i: "i < ?n" "i \<noteq> currentRingBuffer d" "isCompleted i d" by (auto simp: find_Some_iff c)
    then show thesis using that [of i "ringBuffers d"] Some shape by (simp add: switchRingBuffersAllocations_def Let_def)
  next
    case None
    show thesis
    proof (cases "?n = maxRingBufferCount d")
      case True
      let ?i = "(currentRingBuffer d + 1) mod ?n"
      have i: "?i < ?n" "?i \<noteq> currentRingBuffer d"
        using shape by (auto simp: mod_Suc split: if_splits)
      then show thesis using that [of ?i "ringBuffers d"] None True shape by (simp add: switchRingBuffersAllocations_def Let_def)
    next
      case False
      let ?rs = "ringBuffers d @ [\<lparr>completionFence = 0, completionFenceForSwitch = 0, ringBuffer = allocateRingBuffer env ?n\<rparr>]"
      have "\<forall>j < length ?rs. ringBuffer (?rs ! j) = allocateRingBuffer env j"
        using shape(3) by (auto simp: less_Suc_eq nth_append)
      moreover have "\<forall>j < ?n. ?rs ! j = ringBuffers d ! j" by (simp add: nth_append)
      moreover have "?rs ! ?n = \<lparr>completionFence = 0, completionFenceForSwitch = 0, ringBuffer = allocateRingBuffer env ?n\<rparr>" by simp
      ultimately show thesis
        using that [of ?n ?rs] None False shape(1) resident by (simp add: switchRingBuffersAllocations_def Let_def del: nth_append_length)
    qed
  qed
qed

definition goodBuffers :: "RingEnvironment \<Rightarrow> bool" where
  "goodBuffers env \<longleftrightarrow> (\<forall>i. underlyingBuffer (allocateRingBuffer env i) \<noteq> 0)"

lemma switchSection_within:
  assumes "smallCommands (ringSizes env)"
  shows "within env (switchBytes env d) d (dispatchSwitchRingBufferSection env a d)"
proof -
  let ?fence = "if disableMonitorFence d then unat (sizeMonitorFence (ringSizes env)) else 0"
  have "within env (?fence + unat (sizeBatchBufferStart (ringSizes env))) d (dispatchSwitchRingBufferSection env a d)"
    unfolding dispatchSwitchRingBufferSection_def
    by (intro within_seq put_within) (simp_all add: monitorFence_within within_skip)
  then show ?thesis by (rule within_mono) (simp add: switch_bytes [OF assms])
qed

lemma completionFence_buffers:
  "i < length rs \<Longrightarrow> ringBuffer (rs[j := (rs ! j)\<lparr>completionFence := v\<rparr>] ! i) = ringBuffer (rs ! i)"
  by (cases "i = j") (auto simp: nth_list_update)

lemma switch_returns:
  assumes sz: "smallCommands (ringSizes env)" and bufs: "goodBuffers env" and inv: "ringInv env d" and resident: "ringBufferResident os"
  obtains d' where "switchRingBuffers env hasAllocations os d = Inr d'" "ringShape env d'" "room d' = unat minimumRequiredSize"
    "setupOf d' = setupOf d" "currentQueueWorkCount d' = currentQueueWorkCount d"
    "ringStart d' = (ringStart d \<and> \<not> (hasAllocations \<and> restartAtSwitch os))"
    "flagsOf d' = flagsOf d" "relaxedOrderingSchedulerRequired d' \<longrightarrow> relaxedOrderingSchedulerRequired d"
    "execCalls d' = execCalls d" "dispatchErrorCode d' = dispatchErrorCode d"
proof -
  have shape: "ringShape env d" using inv by (simp add: ringInv_def)
  obtain rs i where n: "switchRingBuffersAllocations env os d = Inr (allocateRingBuffer env i,
      d\<lparr>previousRingBuffer := currentRingBuffer d, currentRingBuffer := i, ringBuffers := rs\<rparr>)" (is "_ = Inr (_, ?d1)")
    "i < length rs" "length (ringBuffers d) \<le> length rs" "\<forall>j < length rs. ringBuffer (rs ! j) = allocateRingBuffer env j"
    using allocations_return [OF shape resident] by metis
  have s1: "ringShape env ?d1" "setupOf ?d1 = setupOf d" "room ?d1 = room d" "flagsOf ?d1 = flagsOf d"
    using shape n(2-4) by (auto simp: ringShape_def ringOk_def templatesOk_def setupOf_def room_def flagsOf_def)
  have e1: "endBytes env r ?d1 = endBytes env r d" "switchBytes env ?d1 = switchBytes env d" for r
    using setup_bytes(3,4) [OF s1(2)] by (simp_all add: endBytes_def switchBytes_def)
  obtain d2 where 2: "handleRingRestartForUllsLightResidency env hasAllocations (restartAtSwitch os) ?d1 = Inr d2" "ringShape env d2"
    "setupOf d2 = setupOf d" "buffersOf d2 = buffersOf ?d1" "currentQueueWorkCount d2 = currentQueueWorkCount d"
    "ringStart d2 = (ringStart d \<and> \<not> (hasAllocations \<and> restartAtSwitch os))"
    "ringStart d2 \<Longrightarrow> d2 = ?d1" "flagsOf d2 = flagsOf d" "relaxedOrderingSchedulerRequired d2 \<longrightarrow> relaxedOrderingSchedulerRequired d"
  proof (cases "hasAllocations \<and> restartAtSwitch os")
    case True
    have "ringStart ?d1 \<Longrightarrow> endBytes env (relaxedOrderingSchedulerRequired ?d1) ?d1 \<le> room ?d1"
      using inv e1 s1(3) by (simp add: ringInv_def)
    from stop_returns [OF sz s1(1) this] obtain d2 where "stopRingBuffer env ?d1 = Inr d2" "ringShape env d2" "\<not> ringStart d2"
      "setupOf d2 = setupOf ?d1" "buffersOf d2 = buffersOf ?d1" "currentQueueWorkCount d2 = currentQueueWorkCount ?d1"
      "flagsOf d2 = flagsOf ?d1" "relaxedOrderingSchedulerRequired d2 \<longrightarrow> relaxedOrderingSchedulerRequired ?d1" .
    then show thesis using that [of d2] True s1(2,4) by (simp add: handleRingRestartForUllsLightResidency_def)
  next
    case False
    show thesis by (rule that [of ?d1]) (use False s1 in \<open>auto simp: handleRingRestartForUllsLightResidency_def\<close>)
  qed
  let ?a = "gpuAddress (allocateRingBuffer env i)"
  obtain d3 where 3: "(if ringStart d2 then dispatchSwitchRingBufferSection env ?a d2 else Inr d2) = Inr d3" "sameControl d2 d3" "ringShape env d3"
  proof (cases "ringStart d2")
    case True
    then have "d2 = ?d1" "ringStart d" using 2(6,7) by simp_all
    then have "switchBytes env d2 \<le> room d2" using inv e1 s1(3) by (simp add: ringInv_def)
    from within_keeps [OF switchSection_within [OF sz] 2(2) this] obtain d3 where
      "dispatchSwitchRingBufferSection env ?a d2 = Inr d3" "sameControl d2 d3" "keeps env (switchBytes env d2) d2 d3" .
    then show thesis using that [of d3] True by (simp add: keeps_def)
  qed (use that [of d2] 2(2) in simp)
  let ?st = "replaceGraphicsAllocation (Some (allocateRingBuffer env i))
    (replaceBuffer (underlyingBuffer (allocateRingBuffer env i)) (maxAvailableSpace (ringCommandStream d3)) (ringCommandStream d3))"
  let ?d4 = "d3\<lparr>ringCommandStream := ?st\<rparr>" and ?d5 = "handleSwitchRingBuffers env (d3\<lparr>ringCommandStream := ?st\<rparr>)"
  have max3: "maxAvailableSpace (ringCommandStream d3) = minimumRequiredSize" using 3(3) by (simp add: ringShape_def)
  have "ringShape env ?d4" using 3(3) bufs
    by (auto simp: ringShape_def ringOk_def templatesOk_def replaceBuffer_def replaceGraphicsAllocation_def goodBuffers_def)
  then have "ringShape env ?d5"
    by (auto simp: handleSwitchRingBuffers_def Let_def advanceTag_def setCompletionFence_def ringShape_def ringOk_def templatesOk_def
      completionFence_buffers)
  moreover have "room ?d5 = unat minimumRequiredSize" using max3
    by (simp add: handleSwitchRingBuffers_def Let_def advanceTag_def setCompletionFence_def room_def replaceBuffer_def replaceGraphicsAllocation_def)
  moreover have "setupOf ?d5 = setupOf d3" "ringStart ?d5 = ringStart d3" "currentQueueWorkCount ?d5 = currentQueueWorkCount d3"
    "flagsOf ?d5 = flagsOf d3" "relaxedOrderingSchedulerRequired ?d5 = relaxedOrderingSchedulerRequired d3"
    by (simp_all add: handleSwitchRingBuffers_def Let_def advanceTag_def setCompletionFence_def setupOf_def flagsOf_def)
  moreover have "execCalls ?d5 = execCalls d" "dispatchErrorCode ?d5 = dispatchErrorCode d"
    using sameControl_simps(19,20) [OF 3(2)] 2(4)
    by (simp_all add: handleSwitchRingBuffers_def Let_def advanceTag_def setCompletionFence_def buffersOf_def)
  moreover have "switchRingBuffers env hasAllocations os d = Inr ?d5"
    unfolding switchRingBuffers_def n(1) andThen_simps split 2(1) 3(1) Let_def ..
  ultimately show thesis
    using that [of ?d5] control_setup [OF 3(2)] control_flags [OF 3(2)] sameControl_simps(3,11,16) [OF 3(2)] 2(3,5,6,8,9) by simp
qed

section \<open>The reserved size is enough\<close>

text \<open>
  A command buffer that is copied leaves out its last jump, for which the client has reserved space, and takes at most half
  of a ring buffer.
\<close>

definition batchFits :: "RingEnvironment \<Rightarrow> RingBatch \<Rightarrow> bool" where
  "batchFits env b \<longleftrightarrow> batchAllocation b \<noteq> None \<and>
     (copyCommandBufferIntoRing env b \<longrightarrow>
        unat (sizeToCopy b) + unat (sizeBatchBufferStart (ringSizes env)) \<le> unat (streamUsed b - batchStartOffset b) \<and>
        unat (streamUsed b - batchStartOffset b) \<le> 0x20000)"

lemma workload_part_bytes:
  assumes sz: "smallCommands (ringSizes env)" and fits: "batchFits env b"
  shows "unat (sizeBatchBufferStart (ringSizes env) + (if copyCommandBufferIntoRing env b
      then streamUsed b - batchStartOffset b - 2 * sizeBatchBufferStart (ringSizes env) else 0)) \<ge>
      (if copyCommandBufferIntoRing env b then unat (sizeToCopy b) else unat (sizeBatchBufferStart (ringSizes env)))" (is "?a \<le> unat ?w")
    and "unat (sizeBatchBufferStart (ringSizes env) + (if copyCommandBufferIntoRing env b
      then streamUsed b - batchStartOffset b - 2 * sizeBatchBufferStart (ringSizes env) else 0)) \<le> 0x20000"
proof -
  let ?x = "streamUsed b - batchStartOffset b" and ?s = "sizeBatchBufferStart (ringSizes env)"
  have "?w = (if copyCommandBufferIntoRing env b then ?x - ?s else ?s)" by simp
  moreover have "unat (?x - ?s) = unat ?x - unat ?s" if "copyCommandBufferIntoRing env b"
    using fits that by (intro unat_sub_nowrap) (auto simp: batchFits_def)
  ultimately show "?a \<le> unat ?w" "unat ?w \<le> 0x20000" using fits sz by (auto simp: batchFits_def smallCommands_def)
qed

lemma required_bytes:
  assumes sz: "smallCommands (ringSizes env)" and fits: "batchFits env b"
  shows "unat (getUllsStateSize env d) +
      (if relaxedOrderingEnabled d \<and> batchHasStallingCmds b \<and> relaxedOrderingSchedulerRequired d then stallBytes env d else 0) +
      unat (sizeTlbFlush (ringSizes env)) + workBytes env b mf r d + switchBytes env d + endBytes env r d
      \<le> unat (requiredMinimalSize env b r mf d)" (is "?sum \<le> _")
    and "unat (requiredMinimalSize env b r mf d) \<le> unat minimumRequiredSize"
proof -
  let ?sz = "ringSizes env" and ?u = "getUllsStateSize env d" and ?sem = "getSizeSemaphoreSection env r d"
  let ?w = "sizeBatchBufferStart ?sz + (if copyCommandBufferIntoRing env b
      then streamUsed b - batchStartOffset b - 2 * sizeBatchBufferStart ?sz else 0)"
  let ?close = "getSizeEnd env r d" and ?sw = "getSizeSwitchRingBufferSection env d" and ?stall = "getSizeDispatchRelaxedOrderingQueueStall env d"
  let ?ret = "getSizeReturnPtrRegs ?sz" and ?store = "getSizeTaskStoreSection ?sz"
  let ?deps = "batchRelaxedOrderingDependencies b" and ?on = "relaxedOrderingEnabled d"
  let ?flush = "if \<not> disableCacheFlush d then sizeCacheFlush ?sz else 0" and ?fence = "if mf then sizeMonitorFence ?sz else 0"
  let ?paging = "if requiresProgrammingSemaphore (pagingFenceSemInfo b) then sizeSemaphoreWait ?sz else 0"
  let ?regs = "if ?on \<and> ?deps then ?ret else 0"
  let ?extra = "if ?on then ?ret + (if batchHasStallingCmds b \<and> relaxedOrderingSchedulerRequired d then ?stall else 0) +
      (if ?deps then ?store + sizeStoreDataImm ?sz else 0) else 0"
  let ?parts = "[?u, ?sem, ?w, ?regs, ?flush, ?fence, sizeTlbFlush ?sz, ?paging, ?sw, ?close, ?extra]"
  have R: "requiredMinimalSize env b r mf d = sum_list ?parts"
    unfolding requiredMinimalSize_def dispatchSize_def getSizeDispatch_def Let_def by (simp add: ac_simps)
  have b: "unat ?u \<le> 4096" using sz by (simp add: ulls_bytes [OF sz] smallCommands_def)
  have ret: "unat ?ret \<le> 256" "unat ?store \<le> 2048"
    using sz by (simp_all add: smallCommands_def getSizeReturnPtrRegs_def getSizeTaskStoreSection_def size_defs small_sum small_mult)
  have stall: "unat ?stall \<le> 8192" "unat ?stall = stallBytes env d" using stall_bytes(2) [OF sz, of d] by (simp_all add: stallBytes_def)
  have flush: "unat ?flush \<le> 1024" "unat ?fence \<le> 1024" "unat (sizeTlbFlush ?sz) \<le> 1024" "unat ?paging \<le> 64" "unat ?regs \<le> 256"
    "unat (sizeStoreDataImm ?sz) \<le> 64"
    using sz ret by (simp_all add: smallCommands_def)
  have extra: "unat ?extra = (if ?on then unat ?ret + (if batchHasStallingCmds b \<and> relaxedOrderingSchedulerRequired d then unat ?stall else 0) +
      (if ?deps then unat ?store + unat (sizeStoreDataImm ?sz) else 0) else 0)"
    using ret stall(1) flush(6) by (simp add: small_sum)
  have extra_le: "unat ?extra \<le> 16384" unfolding extra using ret stall(1) flush(6) by simp
  note w = workload_part_bytes [OF sz fits]
  have s: "unat ?sem \<le> 4096" "unat ?close \<le> 16384" "unat ?sw \<le> 2048" "unat ?sw = switchBytes env d" "unat ?close = endBytes env r d"
    using semaphore_bytes(2) [OF sz, of r d] end_bytes(2) [OF sz, of r d] switch_bytes(2) [OF sz, of d]
    by (simp_all add: endBytes_def switchBytes_def)
  note bounds = b w(2) flush(1-5) s(1-3) extra_le
  have parts: "sum_list (map unat ?parts) = unat ?u + (unat ?sem + (unat ?w + (unat ?regs + (unat ?flush + (unat ?fence +
      (unat (sizeTlbFlush ?sz) + (unat ?paging + (unat ?sw + (unat ?close + unat ?extra)))))))))"
    by (simp only: list.map sum_list.Cons sum_list.Nil add_0_right)
  have "sum_list (map unat ?parts) \<le> unat minimumRequiredSize"
    unfolding parts using bounds by (simp only: minimumRequiredSize_def) simp
  moreover from this have "sum_list (map unat ?parts) \<le> 2 ^ 32" by (simp add: minimumRequiredSize_def)
  ultimately have N: "unat (requiredMinimalSize env b r mf d) = sum_list (map unat ?parts)"
    "unat (requiredMinimalSize env b r mf d) \<le> unat minimumRequiredSize"
    unfolding R by (simp_all only: small_sum_list)
  show "unat (requiredMinimalSize env b r mf d) \<le> unat minimumRequiredSize"
    by (rule N(2))
  have work: "workBytes env b mf r d = unat ?paging + ((if ?on \<and> ?deps then unat ?ret else 0) +
      ((if copyCommandBufferIntoRing env b then unat (sizeToCopy b) else unat (sizeBatchBufferStart ?sz)) +
      ((if ?on \<and> ?deps then unat ?store + unat (sizeStoreDataImm ?sz) else 0) + (unat ?flush + (unat ?fence + unat ?sem)))))"
    by (simp add: workBytes_def Let_def)
  show "?sum \<le> unat (requiredMinimalSize env b r mf d)"
    unfolding N(1) parts work extra using w(1) s(4,5) stall(2) by simp
qed


section \<open>A dispatch never runs out of space\<close>

lemma setup_ends:
  "setupOf d' = setupOf d \<Longrightarrow> endBytes env r d' = endBytes env r d"
  "setupOf d' = setupOf d \<Longrightarrow> switchBytes env d' = switchBytes env d"
  unfolding endBytes_def switchBytes_def by (drule setup_bytes(3,4), erule arg_cong)+

lemma setup_work:
  assumes "setupOf d' = setupOf d"
  shows "workBytes env b mf r d' = workBytes env b mf r d"
proof -
  have "relaxedOrderingEnabled d' = relaxedOrderingEnabled d" "disableCacheFlush d' = disableCacheFlush d"
    using assms by (simp_all add: setupOf_def)
  then show ?thesis by (simp only: workBytes_def Let_def setup_bytes(1) [OF assms])
qed

lemma setup_ulls:
  assumes "setupOf d' = setupOf d" "flagsOf d' = flagsOf d"
  shows "getUllsStateSize env d' = getUllsStateSize env d"
proof -
  have "relaxedOrderingEnabled d' = relaxedOrderingEnabled d" "miMemFenceRequired d' = miMemFenceRequired d"
    "partitionConfigSet d' = partitionConfigSet d" "systemMemoryFenceAddressSet d' = systemMemoryFenceAddressSet d"
    "relaxedOrderingInitialized d' = relaxedOrderingInitialized d"
    using assms by (simp_all add: setupOf_def flagsOf_def)
  then show ?thesis by (simp only: getUllsStateSize_def)
qed

lemma end_mono:
  assumes "smallCommands (ringSizes env)" "r \<longrightarrow> r'"
  shows "endBytes env r d \<le> endBytes env r' d"
  using assms(2) by (simp add: end_bytes [OF assms(1)])

lemma available_room: "unat (getAvailableSpace st) = unat (maxAvailableSpace st) - unat (sizeUsed st)"
  if "unat (sizeUsed st) \<le> unat (maxAvailableSpace st)"
  using that by (simp add: getAvailableSpace_def unat_sub_nowrap)

lemma needed_returns:
  assumes sz: "smallCommands (ringSizes env)" and bufs: "goodBuffers env" and inv: "ringInv env d"
    and n: "unat n \<le> unat minimumRequiredSize" and resident: "ringBufferResident os"
  obtains d' where "switchRingBuffersNeeded env n hasAllocations os d = Inr d'" "ringShape env d'" "unat n \<le> room d'"
    "setupOf d' = setupOf d" "flagsOf d' = flagsOf d" "relaxedOrderingSchedulerRequired d' \<longrightarrow> relaxedOrderingSchedulerRequired d"
    "execCalls d' = execCalls d" "dispatchErrorCode d' = dispatchErrorCode d" "currentQueueWorkCount d' = currentQueueWorkCount d"
    "getAvailableSpace (ringCommandStream d) < n \<longrightarrow> ringStart d' = (ringStart d \<and> \<not> (hasAllocations \<and> restartAtSwitch os))"
proof (cases "getAvailableSpace (ringCommandStream d) < n")
  case True
  from switch_returns [OF sz bufs inv resident] obtain d' where "switchRingBuffers env hasAllocations os d = Inr d'" "ringShape env d'"
    "room d' = unat minimumRequiredSize" "setupOf d' = setupOf d" "flagsOf d' = flagsOf d"
    "relaxedOrderingSchedulerRequired d' \<longrightarrow> relaxedOrderingSchedulerRequired d" "execCalls d' = execCalls d"
    "dispatchErrorCode d' = dispatchErrorCode d" "currentQueueWorkCount d' = currentQueueWorkCount d"
    "ringStart d' = (ringStart d \<and> \<not> (hasAllocations \<and> restartAtSwitch os))" by metis
  then show thesis using that [of d'] True n by (simp add: switchRingBuffersNeeded_def)
next
  case False
  have "ringShape env d" using inv by (simp add: ringInv_def)
  moreover have "unat (sizeUsed (ringCommandStream d)) \<le> unat (maxAvailableSpace (ringCommandStream d))"
    using calculation unfolding ringShape_def ringOk_def by blast
  ultimately show thesis using that [of d] False available_room
    by (simp add: switchRingBuffersNeeded_def room_def word_less_nat_alt)
qed

lemma restart_returns:
  assumes sz: "smallCommands (ringSizes env)" and inv: "ringInv env d"
  obtains d' where "handleRingRestartForUllsLightResidency env hasAllocations restart d = Inr d'" "ringInv env d'"
    "setupOf d' = setupOf d" "\<not> restart \<Longrightarrow> d' = d"
proof (cases "hasAllocations \<and> restart")
  case True
  have "ringShape env d" "ringStart d \<Longrightarrow> endBytes env (relaxedOrderingSchedulerRequired d) d \<le> room d" using inv by (simp_all add: ringInv_def)
  from stop_returns [OF sz this] obtain d' where "stopRingBuffer env d = Inr d'" "ringShape env d'" "\<not> ringStart d'"
    "setupOf d' = setupOf d" by metis
  then show thesis using that [of d'] True by (simp add: handleRingRestartForUllsLightResidency_def ringInv_def)
next
  case False
  show thesis by (rule that [of d]) (simp_all only: handleRingRestartForUllsLightResidency_def if_not_P [OF False] inv)
qed

lemma stall_step:
  assumes sz: "smallCommands (ringSizes env)" and shape: "ringShape env d" and init: "relaxedOrderingEnabled d \<longrightarrow> relaxedOrderingInitialized d"
    and space: "(if relaxedOrderingEnabled d \<and> stalling \<and> relaxedOrderingSchedulerRequired d then stallBytes env d else 0) \<le> room d" (is "?n \<le> _")
  obtains d' where "(if relaxedOrderingEnabled d \<and> stalling \<and> relaxedOrderingSchedulerRequired d
      then dispatchRelaxedOrderingQueueStall env d else Inr d) = Inr d'" "ringShape env d'" "setupOf d' = setupOf d"
    "buffersOf d' = buffersOf d" "ringStart d' = ringStart d" "currentQueueWorkCount d' = currentQueueWorkCount d" "room d \<le> room d' + ?n" "relaxedOrderingEnabled d' \<longrightarrow> relaxedOrderingInitialized d'"
    "relaxedOrderingSchedulerRequired d' \<longrightarrow> relaxedOrderingSchedulerRequired d"
proof (cases "relaxedOrderingEnabled d \<and> stalling \<and> relaxedOrderingSchedulerRequired d")
  case True
  then have ok: "relaxedOrderingInitialized d" "ringOk env d" "stallBytes env d \<le> room d"
    using init shape space by (auto simp: ringShape_def)
  from stall_returns [OF sz ok] obtain d' where
    d': "dispatchRelaxedOrderingQueueStall env d = Inr (d'\<lparr>relaxedOrderingSchedulerRequired := False\<rparr>)"
    "sameControl d d'" "ringOk env d'" "room d \<le> room d' + stallBytes env d" .
  show thesis
  proof (rule that [of "d'\<lparr>relaxedOrderingSchedulerRequired := False\<rparr>"])
    show "ringShape env (d'\<lparr>relaxedOrderingSchedulerRequired := False\<rparr>)"
      using shape_control [OF d'(2,3) shape] by (auto simp: ringShape_def ringOk_def templatesOk_def)
  qed (use True d'(1,4) ok control_setup [OF d'(2)] sameControl_simps(2,11,16) [OF d'(2)] in \<open>simp_all add: setupOf_def buffersOf_def room_def\<close>)
next
  case False
  show thesis by (rule that [of d]) (use False shape init in auto)
qed

text \<open>The submission and the tags leave the space alone.\<close>

definition spaceKept :: "RingEnvironment \<Rightarrow> DirectSubmission \<Rightarrow> DirectSubmission \<Rightarrow> bool" where
  "spaceKept env d d' \<longleftrightarrow> (ringShape env d \<longrightarrow> ringShape env d' \<and> room d' = room d \<and> setupOf d' = setupOf d \<and>
     relaxedOrderingSchedulerRequired d' = relaxedOrderingSchedulerRequired d)"

lemma spaceKept_trans: "spaceKept env a b \<Longrightarrow> spaceKept env b c \<Longrightarrow> spaceKept env a c"
  by (auto simp: spaceKept_def)

lemma spaceKept_updates [simp]:
  "spaceKept env d d" "spaceKept env d (d\<lparr>dispatchErrorCode := e\<rparr>)" "spaceKept env d (d\<lparr>execCalls := cs\<rparr>)"
  "spaceKept env d (d\<lparr>boHandleForExec := h\<rparr>)" "spaceKept env d (d\<lparr>completionFenceValue := v\<rparr>)"
  "spaceKept env d (d\<lparr>ringStart := s\<rparr>)" "spaceKept env d (d\<lparr>queueWorkCount := q\<rparr>)"
  "spaceKept env d (d\<lparr>currentQueueWorkCount := q\<rparr>)" "spaceKept env d (d\<lparr>lastSubmittedThrottle := t\<rparr>)"
  "spaceKept env d (d\<lparr>currentTagData := td\<rparr>)" "spaceKept env d (setCompletionFence i d)"
  by (auto simp: spaceKept_def ringShape_def ringOk_def templatesOk_def room_def setupOf_def setCompletionFence_def completionFence_buffers)

lemma exec_space: "spaceKept env d (snd (execOnTiles a errors d))"
proof (induction errors arbitrary: d)
  case (Cons x errors)
  show ?case using spaceKept_trans [OF spaceKept_updates(3) Cons [of "d\<lparr>execCalls := execCalls d @ [a]\<rparr>"]] by simp
qed simp

lemma submitRing_space: "spaceKept env d (snd (submitRing env a hasAllocations os d))"
proof -
  let ?e = "if hasAllocations
      then (case graphicsAllocation (ringCommandStream d) of Some a \<Rightarrow> d\<lparr>boHandleForExec := bufferHandle env a\<rparr> | None \<Rightarrow> d) else d"
  obtain ret d' where e: "execOnTiles a (execErrors os) ?e = (ret, d')" by fastforce
  have "spaceKept env d ?e" by (simp split: option.split)
  then have k: "spaceKept env d d'"
    using exec_space [of env ?e a "execErrors os"] unfolding e snd_conv by (rule spaceKept_trans)
  have s: "submitRing env a hasAllocations os d = (ret, if completionFenceSupported d' \<and> ret
      then d'\<lparr>completionFenceValue := completionFenceValue d' + 1\<rparr> else d')"
    unfolding submitRing_def Let_def e by simp
  show ?thesis unfolding s using k spaceKept_trans [OF k spaceKept_updates(5)] by simp
qed

lemma submit_space: "spaceKept env d (snd (submitCommandBufferToGpu env needStart a hasAllocations os d))"
proof (cases needStart)
  case True
  obtain ret d' where s: "submitRing env a hasAllocations os d = (ret, d')" by fastforce
  then have "spaceKept env d d'" using submitRing_space [of env d a hasAllocations os] by simp
  then have "spaceKept env d (d'\<lparr>ringStart := ret\<rparr>)" using spaceKept_trans spaceKept_updates(6) by blast
  then show ?thesis using True s by (simp add: submitCommandBufferToGpu_def)
qed (simp add: submitCommandBufferToGpu_def unblockGpu_def)

lemma updateTag_space: "spaceKept env d (snd (updateTagValue mf d))"
proof -
  have "spaceKept env d (setCompletionFence (currentRingBuffer d) (advanceTag d))"
    using spaceKept_trans [OF spaceKept_updates(10) spaceKept_updates(11)] by (simp add: advanceTag_def)
  then show ?thesis by (simp add: updateTagValue_def Let_def)
qed

lemma spaceKept_inv:
  assumes "spaceKept env d d'" "ringShape env d" "switchBytes env d + endBytes env (relaxedOrderingSchedulerRequired d) d \<le> room d"
  shows "ringInv env d'"
proof -
  have k: "ringShape env d'" "room d' = room d" "setupOf d' = setupOf d"
    "relaxedOrderingSchedulerRequired d' = relaxedOrderingSchedulerRequired d"
    using assms(1) [unfolded spaceKept_def, rule_format, OF assms(2)] by blast+
  then show ?thesis unfolding ringInv_def setup_ends [OF k(3)] k(4) k(2) using assms(3) by simp
qed

text \<open>From the workload section to the end of the dispatch.\<close>

definition dispatchTail ::
  "RingEnvironment \<Rightarrow> RingBatch \<Rightarrow> OsAnswers \<Rightarrow> bool \<Rightarrow> bool \<Rightarrow> u64 \<Rightarrow> DirectSubmission \<Rightarrow> (bool \<times> u64 option \<times> DirectSubmission) result" where
  "dispatchTail env b os monitorFence needStart startVA d =
     andThen (handleNewResourcesSubmission env os d)
       (\<lambda>d. andThen (dispatchWorkloadSection env b monitorFence d)
       (\<lambda>d. case submitCommandBufferToGpu env needStart startVA (allocationsForResidency b) os d of
              (submitted, d) \<Rightarrow>
                if \<not> submitted then Inr (False, None, d)
                else case updateTagValue monitorFence (d\<lparr>currentQueueWorkCount := currentQueueWorkCount d + 1\<rparr>) of
                       (flushValue, d) \<Rightarrow>
                         if flushValue = - 1 then Inr (False, None, d) else Inr (ringStart d, Some flushValue, d)))"

lemma tail_returns:
  assumes sz: "smallCommands (ringSizes env)" and a: "batchAllocation b = Some a" and shape: "ringShape env d"
    and init: "relaxedOrderingEnabled d \<longrightarrow> relaxedOrderingInitialized d"
    and r: "relaxedOrderingSchedulerRequired d \<longrightarrow> r"
    and space: "unat (sizeTlbFlush (ringSizes env)) + (workBytes env b mf r d + (switchBytes env d + endBytes env r d)) \<le> room d"
  obtains x y d' where "dispatchTail env b os mf needStart startVA d = Inr (x, y, d')" "ringInv env d'"
    "\<not> needStart \<longrightarrow> (x \<longrightarrow> ringStart d) \<and> ringStart d' = ringStart d \<and> execCalls d' = execCalls d \<and>
       dispatchErrorCode d' = dispatchErrorCode d \<and> currentQueueWorkCount d' = currentQueueWorkCount d + 1"
proof -
  let ?sz = "ringSizes env"
  have flush: "within env (unat (sizeTlbFlush ?sz)) d (handleNewResourcesSubmission env os d)"
    unfolding handleNewResourcesSubmission_def by (rule putIf_within) simp
  have work: "within env (workBytes env b mf r d) d' (dispatchWorkloadSection env b mf d')" if c: "sameControl d d'" for d'
  proof -
    have "setupOf d' = setupOf d" using control_setup [OF c] by simp
    moreover have "relaxedOrderingEnabled d' \<longrightarrow> relaxedOrderingInitialized d'" "relaxedOrderingSchedulerRequired d' \<longrightarrow> r"
      using init r unfolding sameControl_simps(1-3) [OF c] by simp_all
    ultimately show ?thesis using workload_within [OF sz a, of d' r mf] setup_work [of d' d env b mf r] by metis
  qed
  have "unat (sizeTlbFlush ?sz) + workBytes env b mf r d \<le> room d" using space by simp
  from within_keeps [OF within_seq [OF flush work] shape this] obtain d1 where
    1: "andThen (handleNewResourcesSubmission env os d) (dispatchWorkloadSection env b mf) = Inr d1"
    "sameControl d d1" "keeps env (unat (sizeTlbFlush ?sz) + workBytes env b mf r d) d d1" by blast
  have s1: "setupOf d1 = setupOf d" using 1(3) by (simp add: keeps_def)
  have req: "relaxedOrderingSchedulerRequired d1 = relaxedOrderingSchedulerRequired d" using sameControl_simps(3) [OF 1(2)] .
  have "switchBytes env d + endBytes env r d \<le> room d1" using 1(3) space by (simp add: keeps_def)
  then have room1: "switchBytes env d1 + endBytes env (relaxedOrderingSchedulerRequired d1) d1 \<le> room d1"
    using end_mono [OF sz r, of d] unfolding setup_ends [OF s1] req by simp
  have shape1: "ringShape env d1" using 1(3) by (simp add: keeps_def)
  obtain submitted d2 where 2: "submitCommandBufferToGpu env needStart startVA (allocationsForResidency b) os d1 = (submitted, d2)" by fastforce
  have k2: "spaceKept env d1 d2" using submit_space [of env d1 needStart startVA "allocationsForResidency b" os] 2 by simp
  let ?d3 = "d2\<lparr>currentQueueWorkCount := currentQueueWorkCount d2 + 1\<rparr>"
  obtain flushValue d4 where 4: "updateTagValue mf ?d3 = (flushValue, d4)" by fastforce
  have k4: "spaceKept env d1 d4"
    using spaceKept_trans [OF spaceKept_trans [OF k2 spaceKept_updates(8)] updateTag_space] 4 by (metis snd_conv)
  have T: "dispatchTail env b os mf needStart startVA d =
      (if \<not> submitted then Inr (False, None, d2)
       else if flushValue = - 1 then Inr (False, None, d4) else Inr (ringStart d4, Some flushValue, d4))"
    unfolding dispatchTail_def andThen_assoc [symmetric] 1(1) andThen_simps 2 split 4 ..
  have "submitted" "ringStart d4 = ringStart d" "execCalls d4 = execCalls d" "dispatchErrorCode d4 = dispatchErrorCode d"
    "currentQueueWorkCount d4 = currentQueueWorkCount d + 1" if "\<not> needStart"
  proof -
    have 2: "submitted" "d2 = unblockGpu d1" using 2 that by (simp_all add: submitCommandBufferToGpu_def)
    have "d4 = (if mf then setCompletionFence (currentRingBuffer ?d3) (advanceTag ?d3) else ?d3)"
      using 4 by (simp add: updateTagValue_def Let_def)
    then have e: "ringStart d4 = ringStart d1" "execCalls d4 = execCalls d1" "dispatchErrorCode d4 = dispatchErrorCode d1"
      "currentQueueWorkCount d4 = currentQueueWorkCount d1 + 1"
      by (simp_all add: 2 unblockGpu_def setCompletionFence_def advanceTag_def)
    show "submitted" "ringStart d4 = ringStart d" "execCalls d4 = execCalls d" "dispatchErrorCode d4 = dispatchErrorCode d"
      "currentQueueWorkCount d4 = currentQueueWorkCount d + 1"
      by (rule 2(1)) (simp_all only: e sameControl_simps(11,16,19,20) [OF 1(2)])
  qed note counted = this
  consider "\<not> submitted" | "submitted" "flushValue = - 1" | "submitted" "flushValue \<noteq> - 1" by blast
  then show thesis
  proof cases
    case 1
    then have "needStart" using counted(1) by blast
    then show thesis using that [of False None d2] T 1 spaceKept_inv [OF k2 shape1 room1] by simp
  next
    case 2
    then show thesis using that [of False None d4] T counted spaceKept_inv [OF k4 shape1 room1] by simp
  next
    case 3
    then show thesis using that [of "ringStart d4" "Some flushValue" d4] T counted spaceKept_inv [OF k4 shape1 room1] by simp
  qed
qed

lemma inv_throttle: "ringInv env d \<Longrightarrow> ringInv env (d\<lparr>lastSubmittedThrottle := t\<rparr>)"
proof -
  assume inv: "ringInv env d"
  have "setupOf (d\<lparr>lastSubmittedThrottle := t\<rparr>) = setupOf d" by (simp add: setupOf_def)
  note e = setup_ends [OF this]
  have "ringShape env (d\<lparr>lastSubmittedThrottle := t\<rparr>)"
    using inv spaceKept_updates(9) unfolding ringInv_def spaceKept_def by blast
  then show ?thesis using inv unfolding ringInv_def e by (simp add: room_def)
qed

lemma dispatch_tail:
  "dispatchCommandBuffer env b os d =
     andThen (handleRingRestartForUllsLightResidency env (allocationsForResidency b) (restartAtDispatch os) d)
       (\<lambda>d. let d = d\<lparr>lastSubmittedThrottle := throttle b\<rparr>;
                monitorFence = dispatchMonitorFenceRequired
                  (if inputMonitorFenceDispatchRequirement d then dispatchMonitorFence b else batchHasStallingCmds b) d;
                needStart = (\<not> ringStart d) in
            andThen (switchRingBuffersNeeded env (requiredMinimalSize env b
                       (relaxedOrderingSchedulerRequired d \<or> batchRelaxedOrderingDependencies b) monitorFence d)
                       (allocationsForResidency b) os d)
       (\<lambda>d. let startVA = ringPosition d in
            andThen (dispatchUllsState env d)
       (\<lambda>d. andThen (if relaxedOrderingEnabled d \<and> batchHasStallingCmds b \<and> relaxedOrderingSchedulerRequired d
                     then dispatchRelaxedOrderingQueueStall env d else Inr d)
       (\<lambda>d. dispatchTail env b os monitorFence needStart startVA
              (d\<lparr>relaxedOrderingSchedulerRequired := relaxedOrderingSchedulerRequired d \<or> batchRelaxedOrderingDependencies b\<rparr>)))))"
  unfolding dispatchCommandBuffer_def dispatchTail_def Let_def ..

definition dispatchBytes :: "RingEnvironment \<Rightarrow> RingBatch \<Rightarrow> DirectSubmission \<Rightarrow> u64" where
  "dispatchBytes env b d = requiredMinimalSize env b (relaxedOrderingSchedulerRequired d \<or> batchRelaxedOrderingDependencies b)
     (dispatchMonitorFenceRequired (if inputMonitorFenceDispatchRequirement d then dispatchMonitorFence b else batchHasStallingCmds b) d) d"

lemma throttle_bytes: "dispatchBytes env b (d\<lparr>lastSubmittedThrottle := t\<rparr>) = dispatchBytes env b d"
  by (simp add: dispatchBytes_def requiredMinimalSize_def dispatchSize_def getUllsStateSize_def getSizeDispatch_def
    getSizeSemaphoreSection_def getSizeSwitchRingBufferSection_def getSizeEnd_def getSizeDispatchRelaxedOrderingQueueStall_def
    dispatchMonitorFenceRequired_def Let_def split del: if_split cong: if_cong)

text \<open>
  The invariant of the ring is kept by every dispatch, and no check of the code fires, whatever the operating system
  answers, except that it must keep a newly allocated ring buffer resident: the code gives up when it does not.
\<close>

lemma dispatch_returns:
  assumes sz: "smallCommands (ringSizes env)" and bufs: "goodBuffers env" and inv: "ringInv env d" and fits: "batchFits env b"
    and resident: "ringBufferResident os"
  obtains x y d' where "dispatchCommandBuffer env b os d = Inr (x, y, d')" "ringInv env d'"
    "\<lbrakk>ringStart d; allocationsForResidency b; \<not> restartAtDispatch os; restartAtSwitch os;
      getAvailableSpace (ringCommandStream d) < dispatchBytes env b d\<rbrakk> \<Longrightarrow>
      \<not> x \<and> \<not> ringStart d' \<and> execCalls d' = execCalls d \<and> dispatchErrorCode d' = dispatchErrorCode d \<and>
      currentQueueWorkCount d' = currentQueueWorkCount d + 1"
proof -
  let ?has = "allocationsForResidency b" and ?sz = "ringSizes env"
  from restart_returns [OF sz inv] obtain d1 where 1: "handleRingRestartForUllsLightResidency env ?has (restartAtDispatch os) d = Inr d1"
    "ringInv env d1" "\<not> restartAtDispatch os \<Longrightarrow> d1 = d" by metis
  let ?d2 = "d1\<lparr>lastSubmittedThrottle := throttle b\<rparr>"
  have inv2: "ringInv env ?d2" by (rule inv_throttle [OF 1(2)])
  define r where "r \<longleftrightarrow> relaxedOrderingSchedulerRequired ?d2 \<or> batchRelaxedOrderingDependencies b"
  define mf where "mf \<longleftrightarrow> dispatchMonitorFenceRequired
    (if inputMonitorFenceDispatchRequirement ?d2 then dispatchMonitorFence b else batchHasStallingCmds b) ?d2"
  let ?n = "requiredMinimalSize env b r mf ?d2"
  obtain d3 where
    3: "switchRingBuffersNeeded env ?n ?has os ?d2 = Inr d3" "ringShape env d3" "unat ?n \<le> room d3"
    "setupOf d3 = setupOf ?d2" "flagsOf d3 = flagsOf ?d2" "relaxedOrderingSchedulerRequired d3 \<longrightarrow> relaxedOrderingSchedulerRequired ?d2"
    "execCalls d3 = execCalls ?d2" "dispatchErrorCode d3 = dispatchErrorCode ?d2" "currentQueueWorkCount d3 = currentQueueWorkCount ?d2"
    "getAvailableSpace (ringCommandStream ?d2) < ?n \<longrightarrow> ringStart d3 = (ringStart ?d2 \<and> \<not> (?has \<and> restartAtSwitch os))"
    by (rule needed_returns [where n = ?n and hasAllocations = ?has and os = os, OF sz bufs inv2 required_bytes(2) [OF sz fits] resident])
  let ?stall = "\<lambda>d. if relaxedOrderingEnabled d \<and> batchHasStallingCmds b \<and> relaxedOrderingSchedulerRequired d then stallBytes env d else 0"
  have rel3: "relaxedOrderingEnabled d3 = relaxedOrderingEnabled ?d2" using 3(4) by (simp add: setupOf_def)
  have "?stall d3 \<le> ?stall ?d2" using 3(6) rel3 setup_bytes(2) [OF 3(4)] by simp
  then have space3: "unat (getUllsStateSize env d3) + (?stall d3 + (unat (sizeTlbFlush ?sz) +
      (workBytes env b mf r d3 + (switchBytes env d3 + endBytes env r d3)))) \<le> room d3"
    using required_bytes(1) [OF sz fits, of ?d2 mf r] 3(3)
    unfolding setup_ends [OF 3(4)] setup_work [OF 3(4)] setup_ulls [OF 3(4,5)] by linarith
  then have "unat (getUllsStateSize env d3) \<le> room d3" by simp
  from ulls_returns [OF sz 3(2) this] obtain d4 where 4: "dispatchUllsState env d3 = Inr d4"
    "keeps env (unat (getUllsStateSize env d3)) d3 d4" "relaxedOrderingSchedulerRequired d4 = relaxedOrderingSchedulerRequired d3"
    "relaxedOrderingEnabled d4 \<longrightarrow> relaxedOrderingInitialized d4" .
  have k4: "ringShape env d4" "setupOf d4 = setupOf d3" "room d3 \<le> room d4 + unat (getUllsStateSize env d3)"
    "buffersOf d4 = buffersOf d3" "ringStart d4 = ringStart d3" "currentQueueWorkCount d4 = currentQueueWorkCount d3"
    using 4(2) by (simp_all add: keeps_def)
  have rel4: "relaxedOrderingEnabled d4 = relaxedOrderingEnabled d3" using k4(2) by (simp add: setupOf_def)
  have stall4: "?stall d4 = ?stall d3" by (simp only: rel4 4(3) setup_bytes(2) [OF k4(2)])
  have "?stall d4 \<le> room d4" using space3 k4(3) unfolding stall4 by linarith
  from stall_step [OF sz k4(1) 4(4) this] obtain d5 where 5: "(if relaxedOrderingEnabled d4 \<and> batchHasStallingCmds b \<and>
      relaxedOrderingSchedulerRequired d4 then dispatchRelaxedOrderingQueueStall env d4 else Inr d4) = Inr d5" "ringShape env d5"
    "setupOf d5 = setupOf d4" "buffersOf d5 = buffersOf d4" "ringStart d5 = ringStart d4" "currentQueueWorkCount d5 = currentQueueWorkCount d4"
    "room d4 \<le> room d5 + ?stall d4" "relaxedOrderingEnabled d5 \<longrightarrow> relaxedOrderingInitialized d5"
    "relaxedOrderingSchedulerRequired d5 \<longrightarrow> relaxedOrderingSchedulerRequired d4" .
  let ?d6 = "d5\<lparr>relaxedOrderingSchedulerRequired := relaxedOrderingSchedulerRequired d5 \<or> batchRelaxedOrderingDependencies b\<rparr>"
  have s6: "setupOf ?d6 = setupOf d3" using 5(3) k4(2) by (simp add: setupOf_def)
  have shape6: "ringShape env ?d6" using 5(2,8) by (auto simp: ringShape_def ringOk_def templatesOk_def)
  have init6: "relaxedOrderingEnabled ?d6 \<longrightarrow> relaxedOrderingInitialized ?d6" using 5(8) by simp
  have r6: "relaxedOrderingSchedulerRequired ?d6 \<longrightarrow> r" using 5(9) 4(3) 3(6) by (auto simp: r_def)
  have "room ?d6 = room d5" by (simp add: room_def)
  then have space6: "unat (sizeTlbFlush ?sz) + (workBytes env b mf r ?d6 + (switchBytes env ?d6 + endBytes env r ?d6)) \<le> room ?d6"
    using space3 k4(3) 5(7) stall4 unfolding setup_ends [OF s6] setup_work [OF s6] by linarith
  obtain a where a: "batchAllocation b = Some a" using fits by (auto simp: batchFits_def)
  obtain x y d7 where 7: "dispatchTail env b os mf (\<not> ringStart ?d2) (ringPosition d3) ?d6 = Inr (x, y, d7)" "ringInv env d7"
    "\<not> \<not> ringStart ?d2 \<longrightarrow> (x \<longrightarrow> ringStart ?d6) \<and> ringStart d7 = ringStart ?d6 \<and> execCalls d7 = execCalls ?d6 \<and>
       dispatchErrorCode d7 = dispatchErrorCode ?d6 \<and> currentQueueWorkCount d7 = currentQueueWorkCount ?d6 + 1"
    by (rule tail_returns [OF sz a shape6 init6 r6 space6])
  have "dispatchCommandBuffer env b os d = Inr (x, y, d7)"
    unfolding dispatch_tail 1(1) andThen_simps Let_def mf_def [symmetric] r_def [symmetric] 3(1) 4(1) 5(1) 7(1) ..
  moreover have "\<not> x \<and> \<not> ringStart d7 \<and> execCalls d7 = execCalls d \<and> dispatchErrorCode d7 = dispatchErrorCode d \<and>
      currentQueueWorkCount d7 = currentQueueWorkCount d + 1"
    if lost: "ringStart d" "?has" "\<not> restartAtDispatch os" "restartAtSwitch os" "getAvailableSpace (ringCommandStream d) < dispatchBytes env b d"
  proof -
    have d1: "d1 = d" using 1(3) lost(3) .
    have "getAvailableSpace (ringCommandStream ?d2) < ?n"
      using lost(5) unfolding r_def mf_def dispatchBytes_def [symmetric] throttle_bytes d1 by simp
    from 3(10) [THEN mp, OF this] have s: "\<not> ringStart ?d6" using lost(2,4) k4(5) 5(5) by simp
    have e: "execCalls ?d6 = execCalls d" "dispatchErrorCode ?d6 = dispatchErrorCode d" "currentQueueWorkCount ?d6 = currentQueueWorkCount d"
      using 3(7-9) k4(4,6) 5(4,6) by (simp_all add: d1 buffersOf_def)
    show ?thesis using 7(3) s lost(1) unfolding e by (simp add: d1)
  qed
  ultimately show thesis using that 7(2) by blast
qed

section \<open>Initialisation\<close>

definition grown :: "RingEnvironment \<Rightarrow> nat \<Rightarrow> DirectSubmission \<Rightarrow> DirectSubmission \<Rightarrow> bool" where
  "grown env n d d' \<longleftrightarrow> ringOk env d' \<and> setupOf d' = setupOf d \<and> buffersOf d' = buffersOf d \<and> ringStart d' = ringStart d \<and>
     relaxedOrderingSchedulerRequired d' = relaxedOrderingSchedulerRequired d \<and> room d \<le> room d' + n"

lemma grown_trans: "grown env m a b \<Longrightarrow> grown env n b c \<Longrightarrow> grown env (m + n) a c"
  by (auto simp: grown_def)

lemma grown_mono: "grown env m a b \<Longrightarrow> m \<le> n \<Longrightarrow> grown env n a b"
  by (auto simp: grown_def)

lemma grown_refl: "ringOk env d \<Longrightarrow> grown env n d d"
  by (simp add: grown_def)

lemma within_grown:
  assumes "within env n d r" "ringOk env d" "n \<le> room d"
  obtains d' where "r = Inr d'" "sameControl d d'" "grown env n d d'"
proof -
  from withinE [OF assms] obtain d' where 1: "r = Inr d'" "sameControl d d'" "ringOk env d'" "room d \<le> room d' + n" .
  have "grown env n d d'"
    using 1(3,4) control_setup [OF 1(2)] sameControl_simps(3,11) [OF 1(2)] unfolding grown_def by blast
  then show thesis using that 1 by blast
qed

lemma grown_flag:
  assumes "grown env n d d'"
  shows "grown env n d (d'\<lparr>systemMemoryFenceAddressSet := True\<rparr>)" "grown env n d (d'\<lparr>partitionConfigSet := True\<rparr>)"
proof -
  have "setupOf (d'\<lparr>systemMemoryFenceAddressSet := True\<rparr>) = setupOf d'" "setupOf (d'\<lparr>partitionConfigSet := True\<rparr>) = setupOf d'"
    "buffersOf (d'\<lparr>systemMemoryFenceAddressSet := True\<rparr>) = buffersOf d'" "buffersOf (d'\<lparr>partitionConfigSet := True\<rparr>) = buffersOf d'"
    "ringOk env (d'\<lparr>systemMemoryFenceAddressSet := True\<rparr>) = ringOk env d'" "ringOk env (d'\<lparr>partitionConfigSet := True\<rparr>) = ringOk env d'"
    by (simp_all add: setupOf_def buffersOf_def ringOk_def templatesOk_def)
  then show "grown env n d (d'\<lparr>systemMemoryFenceAddressSet := True\<rparr>)" "grown env n d (d'\<lparr>partitionConfigSet := True\<rparr>)"
    using assms unfolding grown_def by (simp_all add: room_def)
qed

text \<open>An optional command with its mark, as the initialisation writes them.\<close>

lemma marked_step:
  assumes ok: "ringOk env d" "1024 \<le> room d" "unat (commandBytes (ringSizes env) c) \<le> 1024"
    and set_mark: "\<And>x. grown env 1024 d x \<Longrightarrow> grown env 1024 d (set_mark x)"
      "\<And>x. relaxedOrderingInitialized (set_mark x) = relaxedOrderingInitialized x"
  obtains d' where "(if b then map_sum id set_mark (putBlock env [c] d) else Inr d) = Inr d'" "grown env 1024 d d'"
    "relaxedOrderingInitialized d' = relaxedOrderingInitialized d" "b \<Longrightarrow> \<exists>x. d' = set_mark x" "\<not> b \<Longrightarrow> d' = d"
proof (cases b)
  case True
  have "within env 1024 d (putBlock env [c] d)" using ok(3) by (intro put_within) simp
  from within_grown [OF this ok(1,2)] obtain d1 where 1: "putBlock env [c] d = Inr d1" "sameControl d d1" "grown env 1024 d d1" .
  have i: "relaxedOrderingInitialized d1 = relaxedOrderingInitialized d" using sameControl_simps(2) [OF 1(2)] .
  show thesis
    by (rule that [of "set_mark d1"]) (use True 1(1) i set_mark(1) [OF 1(3)] set_mark(2) in auto)
qed (use that [of d] grown_refl [OF ok(1)] in simp)

lemma relaxed_init:
  assumes sz: "smallCommands (ringSizes env)" and ok: "ringOk env d" "1024 \<le> room d" and i: "\<not> relaxedOrderingInitialized d"
  obtains d' where "(if relaxedOrderingEnabled d
      then andThen (preinitializeRelaxedOrderingSections env d)
        (\<lambda>d. andThen (initRelaxedOrderingRegisters env d)
        (\<lambda>d. map_sum id (relaxedOrderingInitialized_update (\<lambda>_. True)) (dispatchStaticRelaxedOrderingScheduler env d)))
      else Inr d) = Inr d'" "grown env 1024 d d'" "relaxedOrderingEnabled d \<longrightarrow> relaxedOrderingInitialized d'"
    "systemMemoryFenceAddressSet d' = systemMemoryFenceAddressSet d"
proof (cases "relaxedOrderingEnabled d")
  case True
  let ?d = "d\<lparr>preinitializedTaskStoreSection := taskStoreTemplate (deferredTasksListGpuVa d),
     preinitializedRelaxedOrderingScheduler := dynamicSchedulerTemplate (relaxedOrderingSchedulerGpuVa d)\<rparr>"
  have "within env 1024 ?d (initRelaxedOrderingRegisters env ?d)" unfolding initRelaxedOrderingRegisters_def
    using sz by (intro put_within) (simp add: getSizeRegistersInit_def smallCommands_def small_mult)
  moreover have "ringOk env ?d" "room ?d = room d" using ok i by (auto simp: ringOk_def templatesOk_def room_def)
  ultimately obtain d1 where
    1: "initRelaxedOrderingRegisters env ?d = Inr d1" "sameControl ?d d1" "grown env 1024 ?d d1"
    using within_grown [of env 1024 ?d] ok(2) by metis
  have t: "preinitializedTaskStoreSection d1 = preinitializedTaskStoreSection ?d \<and>
      preinitializedRelaxedOrderingScheduler d1 = preinitializedRelaxedOrderingScheduler ?d"
    using 1(1) by (auto simp: initRelaxedOrderingRegisters_def putBlock_def reserveSpace_def patchBlock_def andThen_def split: sum.splits)
  obtain q cs a where s: "dispatchStaticRelaxedOrderingScheduler env d1 = Inr (d1\<lparr>currentRelaxedOrderingQueueSize := q,
     relaxedOrderingScheduler := cs, relaxedOrderingQueueSizeLimitValueVa := a\<rparr>)" (is "_ = Inr ?e") using static_returns [OF sz] .
  show thesis
  proof (rule that [of "?e\<lparr>relaxedOrderingInitialized := True\<rparr>"])
    have "templatesOk env (?e\<lparr>relaxedOrderingInitialized := True\<rparr>)" using t template_bytes by (simp add: templatesOk_def)
    moreover have "setupOf (?e\<lparr>relaxedOrderingInitialized := True\<rparr>) = setupOf d" "buffersOf (?e\<lparr>relaxedOrderingInitialized := True\<rparr>) = buffersOf d"
      using 1(3) by (simp_all add: grown_def setupOf_def buffersOf_def)
    moreover have "room (?e\<lparr>relaxedOrderingInitialized := True\<rparr>) = room d1" "room ?d = room d" by (simp_all add: room_def)
    ultimately show "grown env 1024 d (?e\<lparr>relaxedOrderingInitialized := True\<rparr>)"
      using 1(3) by (simp add: grown_def ringOk_def)
  qed (use 1(1) s True sameControl_simps(9) [OF 1(2)] in \<open>simp_all add: preinitialize_returns\<close>)
next
  case False
  show thesis by (rule that [of d]) (use False grown_refl [OF ok(1)] in simp_all)
qed

definition buffersReady :: "RingEnvironment \<Rightarrow> DirectSubmission \<Rightarrow> bool" where
  "buffersReady env d \<longleftrightarrow> maxAvailableSpace (ringCommandStream d) = minimumRequiredSize \<and> graphicsAllocation (ringCommandStream d) \<noteq> None \<and>
     currentRingBuffer d < length (ringBuffers d) \<and> 2 \<le> length (ringBuffers d) \<and>
     (\<forall>i < length (ringBuffers d). ringBuffer (ringBuffers d ! i) = allocateRingBuffer env i)"

definition justBuilt :: "DirectSubmission \<Rightarrow> bool" where
  "justBuilt d \<longleftrightarrow> \<not> hasCmdContainer (ringCommandStream d) \<and> \<not> relaxedOrderingInitialized d \<and>
     \<not> relaxedOrderingSchedulerRequired d \<and> currentRingBuffer d = 0 \<and> \<not> ringStart d"

lemma built_updates:
  "justBuilt (d\<lparr>completionFenceValue := v\<rparr>) = justBuilt d" "justBuilt (d\<lparr>activeTiles := n\<rparr>) = justBuilt d"
  "justBuilt (d\<lparr>partitionedMode := b\<rparr>) = justBuilt d" "justBuilt (d\<lparr>partitionConfigSet := b\<rparr>) = justBuilt d"
  "justBuilt (d\<lparr>miMemFenceRequired := b\<rparr>) = justBuilt d" "justBuilt (d\<lparr>workPartitionGpuVa := a\<rparr>) = justBuilt d"
  "justBuilt (d\<lparr>gpuVaForAdditionalSynchronizationWA := a\<rparr>) = justBuilt d" "justBuilt (d\<lparr>completionFenceSupported := b\<rparr>) = justBuilt d"
  "justBuilt (if b then d else d') = (if b then justBuilt d else justBuilt d')"
  by (auto simp: justBuilt_def)

lemma constructed_built: "newDrmDirectSubmission c = Inr d \<Longrightarrow> justBuilt d"
proof -
  have new: "justBuilt (newDirectSubmission c)" by (simp add: newDirectSubmission_def Let_def justBuilt_def newLinearStream_def)
  have "case newDrmDirectSubmission c of Inl e \<Rightarrow> True | Inr d \<Rightarrow> justBuilt d"
    by (cases "workPartitionAddress c"; cases "completionFenceAddress c")
      (simp_all add: newDrmDirectSubmission_def Let_def built_updates new if_distrib [of "case_sum _ _"] cong: if_cong split del: if_split)
  then show "newDrmDirectSubmission c = Inr d \<Longrightarrow> justBuilt d" by simp
qed

lemma allocate_ready:
  assumes "goodBuffers env" "justBuilt d"
  obtains ret d1 where "allocateResources env c residentOk d = (ret, d1)" "ringOk env d1" "room d1 = 262144" "buffersReady env d1" "justBuilt d1"
    "globalFenceAllocation d1 = globalFenceAllocation d" "miMemFenceRequired d1 = miMemFenceRequired d"
proof -
  have "\<forall>i < Suc (Suc 0). ringBuffer ([\<lparr>completionFence = 0, completionFenceForSwitch = 0, ringBuffer = allocateRingBuffer env 0\<rparr>,
      \<lparr>completionFence = 0, completionFenceForSwitch = 0, ringBuffer = allocateRingBuffer env (Suc 0)\<rparr>] ! i) = allocateRingBuffer env i"
    by (simp add: All_less_Suc)
  then show thesis using that assms
    by (cases residentOk) (auto simp: allocateResources_def Let_def replaceBuffer_def replaceGraphicsAllocation_def ringOk_def templatesOk_def
      room_def buffersReady_def justBuilt_def goodBuffers_def minimumRequiredSize_def less_2_cases_iff)
qed

lemma grown_ready: "grown env n d d' \<Longrightarrow> buffersReady env d' = buffersReady env d"
  by (simp add: grown_def buffersOf_def buffersReady_def)

lemma ready_shape:
  assumes "ringOk env d" "buffersReady env d" "globalFenceAllocation d \<longrightarrow> miMemFenceRequired d \<or> systemMemoryFenceAddressSet d"
    "relaxedOrderingEnabled d \<and> relaxedOrderingSchedulerRequired d \<longrightarrow> relaxedOrderingInitialized d"
  shows "ringShape env d"
  using assms unfolding ringShape_def buffersReady_def by blast

lemma ready_inv:
  assumes sz: "smallCommands (ringSizes env)" and "ringShape env d" "18432 \<le> room d"
  shows "ringInv env d"
  using assms(2,3) switch_bytes(2) [OF sz, of d] end_bytes(2) [OF sz, of "relaxedOrderingSchedulerRequired d" d]
  unfolding ringInv_def by linarith

text \<open>The part of the initialisation that writes to the ring.\<close>

definition initSections :: "RingEnvironment \<Rightarrow> DirectSubmission \<Rightarrow> DirectSubmission result" where
  "initSections env d =
     andThen (putBlock env [PreemptionCommands] d)
       (\<lambda>d. andThen (if partitionedMode d
               then map_sum id (partitionConfigSet_update (\<lambda>_. True)) (putBlock env [PartitionRegisters (workPartitionGpuVa d) (immWritePostSyncOffset d)] d) else Inr d)
       (\<lambda>d. andThen (if globalFenceAllocation d \<and> \<not> systemMemoryFenceAddressSet d
               then map_sum id (systemMemoryFenceAddressSet_update (\<lambda>_. True)) (putBlock env [SystemMemoryFence] d) else Inr d)
       (\<lambda>d. andThen (if relaxedOrderingEnabled d
               then andThen (preinitializeRelaxedOrderingSections env d)
                 (\<lambda>d. andThen (initRelaxedOrderingRegisters env d)
                 (\<lambda>d. map_sum id (relaxedOrderingInitialized_update (\<lambda>_. True)) (dispatchStaticRelaxedOrderingScheduler env d)))
               else Inr d)
       (\<lambda>d. dispatchSemaphoreSection env (currentQueueWorkCount d) d))))"

lemma grown_setup: "grown env n d d' \<Longrightarrow> globalFenceAllocation d' = globalFenceAllocation d \<and> relaxedOrderingEnabled d' = relaxedOrderingEnabled d \<and>
    miMemFenceRequired d' = miMemFenceRequired d"
  by (simp add: grown_def setupOf_def)

lemma sections_return:
  assumes sz: "smallCommands (ringSizes env)" and ok: "ringOk env d" "room d = 262144" and built: "justBuilt d"
  obtains d' where "initSections env d = Inr d'" "grown env 16384 d d'"
    "globalFenceAllocation d' \<longrightarrow> systemMemoryFenceAddressSet d'" "relaxedOrderingEnabled d' \<longrightarrow> relaxedOrderingInitialized d'"
proof -
  have "within env 1024 d (putBlock env [PreemptionCommands] d)" using sz by (intro put_within) (simp add: smallCommands_def)
  from within_grown [OF this ok(1)] ok(2) obtain d1 where
    1: "putBlock env [PreemptionCommands] d = Inr d1" "sameControl d d1" "grown env 1024 d d1" by auto
  have g1: "ringOk env d1" "1024 \<le> room d1" using 1(3) ok(2) by (simp_all add: grown_def)
  have "unat (commandBytes (ringSizes env) (PartitionRegisters (workPartitionGpuVa d1) (immWritePostSyncOffset d1))) \<le> 1024"
    using sz by (simp add: smallCommands_def)
  from marked_step [where b = "partitionedMode d1" and set_mark = "partitionConfigSet_update (\<lambda>_. True)", OF g1 this grown_flag(2)] obtain d2 where
    2: "(if partitionedMode d1 then map_sum id (partitionConfigSet_update (\<lambda>_. True))
          (putBlock env [PartitionRegisters (workPartitionGpuVa d1) (immWritePostSyncOffset d1)] d1) else Inr d1) = Inr d2"
    "grown env 1024 d1 d2" "relaxedOrderingInitialized d2 = relaxedOrderingInitialized d1" by auto
  have t2: "grown env 2048 d d2" using grown_trans [OF 1(3) 2(2)] by simp
  have g2: "ringOk env d2" "1024 \<le> room d2" using t2 ok(2) by (simp_all add: grown_def)
  have "unat (commandBytes (ringSizes env) SystemMemoryFence) \<le> 1024" using sz by (simp add: smallCommands_def)
  from marked_step [where b = "globalFenceAllocation d2 \<and> \<not> systemMemoryFenceAddressSet d2"
      and set_mark = "systemMemoryFenceAddressSet_update (\<lambda>_. True)", OF g2 this grown_flag(1)] obtain d3 where
    3: "(if globalFenceAllocation d2 \<and> \<not> systemMemoryFenceAddressSet d2
         then map_sum id (systemMemoryFenceAddressSet_update (\<lambda>_. True)) (putBlock env [SystemMemoryFence] d2) else Inr d2) = Inr d3"
    "grown env 1024 d2 d3" "relaxedOrderingInitialized d3 = relaxedOrderingInitialized d2"
    "globalFenceAllocation d2 \<and> \<not> systemMemoryFenceAddressSet d2 \<Longrightarrow>
       \<exists>x. d3 = x\<lparr>systemMemoryFenceAddressSet := True\<rparr>"
    "\<not> (globalFenceAllocation d2 \<and> \<not> systemMemoryFenceAddressSet d2) \<Longrightarrow> d3 = d2" by auto
  have fence3: "globalFenceAllocation d3 \<longrightarrow> systemMemoryFenceAddressSet d3"
    using 3(4,5) grown_setup [OF 3(2)] by (cases "globalFenceAllocation d2 \<and> \<not> systemMemoryFenceAddressSet d2") auto
  have t3: "grown env 3072 d d3" using grown_trans [OF t2 3(2)] by simp
  have g3: "ringOk env d3" "1024 \<le> room d3" using t3 ok(2) by (simp_all add: grown_def)
  have "\<not> relaxedOrderingInitialized d3" using 3(3) 2(3) sameControl_simps(2) [OF 1(2)] built by (simp add: justBuilt_def)
  from relaxed_init [OF sz g3 this] obtain d4 where 4: "(if relaxedOrderingEnabled d3
      then andThen (preinitializeRelaxedOrderingSections env d3)
        (\<lambda>d. andThen (initRelaxedOrderingRegisters env d)
        (\<lambda>d. map_sum id (relaxedOrderingInitialized_update (\<lambda>_. True)) (dispatchStaticRelaxedOrderingScheduler env d)))
      else Inr d3) = Inr d4" "grown env 1024 d3 d4" "relaxedOrderingEnabled d3 \<longrightarrow> relaxedOrderingInitialized d4"
    "systemMemoryFenceAddressSet d4 = systemMemoryFenceAddressSet d3" .
  have t4: "grown env 4096 d d4" using grown_trans [OF t3 4(2)] by simp
  have req4: "\<not> relaxedOrderingSchedulerRequired d4" using t4 built by (simp add: grown_def justBuilt_def)
  have "within env 4096 d4 (dispatchSemaphoreSection env (currentQueueWorkCount d4) d4)"
    by (rule within_mono [OF semaphore_within [OF sz, of d4 False] semaphore_bytes(2) [OF sz]]) (use req4 in auto)
  moreover have "ringOk env d4" "4096 \<le> room d4" using t4 ok(2) by (simp_all add: grown_def)
  ultimately obtain d5 where 5: "dispatchSemaphoreSection env (currentQueueWorkCount d4) d4 = Inr d5" "sameControl d4 d5" "grown env 4096 d4 d5"
    by (rule within_grown)
  have "initSections env d = Inr d5"
    unfolding initSections_def 1(1) andThen_simps 2(1) 3(1) 4(1) 5(1) ..
  moreover have "grown env 16384 d d5" using grown_mono [OF grown_trans [OF t4 5(3)]] by simp
  moreover have "globalFenceAllocation d5 \<longrightarrow> systemMemoryFenceAddressSet d5"
    using fence3 4(4) grown_setup [OF 4(2)] sameControl_simps(8,9) [OF 5(2)] by simp
  moreover have "relaxedOrderingEnabled d5 \<longrightarrow> relaxedOrderingInitialized d5"
    using 4(3) grown_setup [OF 4(2)] sameControl_simps(1,2) [OF 5(2)] by simp
  ultimately show thesis using that by blast
qed


lemma initializeRing_sections:
  "initializeRing env c submitOnInit residentOk os d =
     (case allocateResources env c residentOk d of
        (ret, d) \<Rightarrow>
          if \<not> (ret \<and> submitOnInit) then Inr (ret, d)
          else andThen (initSections env d)
            (\<lambda>d. case graphicsAllocation (ringCommandStream d) of
                None \<Rightarrow> Inl AbortExecution
              | Some a \<Rightarrow> (case submitRing env (gpuAddress a) False os d of (started, d) \<Rightarrow> Inr (started, d\<lparr>ringStart := started\<rparr>))))"
  unfolding initializeRing_def initSections_def dispatchPartitionRegisterConfiguration_def andThen_assoc ..

lemma initialize_returns:
  assumes sz: "smallCommands (ringSizes env)" and bufs: "goodBuffers env" and built: "justBuilt d"
    and fence: "globalFenceAllocation d \<longrightarrow> miMemFenceRequired d \<or> submitOnInit"
  obtains started d' where "initializeRing env c submitOnInit residentOk os d = Inr (started, d')" "started \<longrightarrow> ringInv env d'"
proof -
  obtain ret d1 where 1: "allocateResources env c residentOk d = (ret, d1)" "ringOk env d1" "room d1 = 262144" "buffersReady env d1" "justBuilt d1"
    "globalFenceAllocation d1 = globalFenceAllocation d" "miMemFenceRequired d1 = miMemFenceRequired d" using allocate_ready [OF bufs built] .
  show thesis
  proof (cases "ret \<and> submitOnInit")
    case True
    obtain d2 where 2: "initSections env d1 = Inr d2" "grown env 16384 d1 d2"
      "globalFenceAllocation d2 \<longrightarrow> systemMemoryFenceAddressSet d2" "relaxedOrderingEnabled d2 \<longrightarrow> relaxedOrderingInitialized d2"
      using sections_return [OF sz 1(2,3,5)] .
    have ready2: "ringOk env d2" "buffersReady env d2" "18432 \<le> room d2" using 2(2) 1(3,4) grown_ready [OF 2(2)] by (simp_all add: grown_def)
    have shape2: "ringShape env d2" using ready2 2(3,4) by (intro ready_shape) auto
    obtain a where a: "graphicsAllocation (ringCommandStream d2) = Some a" using ready2(2) by (auto simp: buffersReady_def)
    obtain started d3 where 3: "submitRing env (gpuAddress a) False os d2 = (started, d3)" by fastforce
    have k: "spaceKept env d2 (d3\<lparr>ringStart := started\<rparr>)"
      using spaceKept_trans [OF submitRing_space spaceKept_updates(6)] 3 by (metis snd_conv)
    have "switchBytes env d2 + endBytes env (relaxedOrderingSchedulerRequired d2) d2 \<le> room d2"
      using ready2(3) switch_bytes(2) [OF sz, of d2] end_bytes(2) [OF sz, of "relaxedOrderingSchedulerRequired d2" d2] by linarith
    note inv = spaceKept_inv [OF k shape2 this]
    have "initializeRing env c submitOnInit residentOk os d = Inr (started, d3\<lparr>ringStart := started\<rparr>)"
      unfolding initializeRing_sections 1(1) split using True 2(1) a 3 by simp
    then show thesis using that inv by blast
  next
    case False
    have "ringInv env d1" if ret
    proof (rule ready_inv [OF sz ready_shape [OF 1(2,4)]])
      show "globalFenceAllocation d1 \<longrightarrow> miMemFenceRequired d1 \<or> systemMemoryFenceAddressSet d1" using fence False that 1(6,7) by simp
      show "relaxedOrderingEnabled d1 \<and> relaxedOrderingSchedulerRequired d1 \<longrightarrow> relaxedOrderingInitialized d1" using 1(5) by (simp add: justBuilt_def)
      show "18432 \<le> room d1" using 1(3) by simp
    qed
    moreover have "initializeRing env c submitOnInit residentOk os d = Inr (ret, d1)"
      unfolding initializeRing_sections 1(1) split using False by simp
    ultimately show thesis using that by blast
  qed
qed

section \<open>Every history\<close>

text \<open>
  A client of the ring dispatches batch buffers and stops the ring, in any order. The operations the theorem covers: a
  buffer that is copied takes at most half of a ring buffer, and a ring buffer that is newly allocated becomes resident.
\<close>

datatype RingOperation = DispatchBatch RingBatch OsAnswers | StopRing

fun ringOperation :: "RingEnvironment \<Rightarrow> RingOperation \<Rightarrow> DirectSubmission \<Rightarrow> DirectSubmission result" where
  "ringOperation env (DispatchBatch b os) d = map_sum id (\<lambda>(ret, stamp, d). d) (dispatchCommandBuffer env b os d)"
| "ringOperation env StopRing d = stopRingBuffer env d"

fun ringHistory :: "RingEnvironment \<Rightarrow> RingOperation list \<Rightarrow> DirectSubmission \<Rightarrow> DirectSubmission result" where
  "ringHistory env [] d = Inr d"
| "ringHistory env (e # es) d = andThen (ringOperation env e d) (ringHistory env es)"

fun operationFits :: "RingEnvironment \<Rightarrow> RingOperation \<Rightarrow> bool" where
  "operationFits env (DispatchBatch b os) \<longleftrightarrow> batchFits env b \<and> ringBufferResident os"
| "operationFits env StopRing = True"

lemma operation_returns:
  assumes sz: "smallCommands (ringSizes env)" and bufs: "goodBuffers env" and inv: "ringInv env d" and fits: "operationFits env e"
  obtains d' where "ringOperation env e d = Inr d'" "ringInv env d'"
proof (cases e)
  case (DispatchBatch b os)
  then have "batchFits env b" "ringBufferResident os" using fits by simp_all
  from dispatch_returns [OF sz bufs inv this] obtain x y d' where "dispatchCommandBuffer env b os d = Inr (x, y, d')" "ringInv env d'"
    by metis
  then show thesis using that [of d'] DispatchBatch by simp
next
  case StopRing
  have "ringShape env d" "ringStart d \<Longrightarrow> endBytes env (relaxedOrderingSchedulerRequired d) d \<le> room d" using inv by (simp_all add: ringInv_def)
  from stop_returns [OF sz this] obtain d' where "stopRingBuffer env d = Inr d'" "ringShape env d'" "\<not> ringStart d'" by metis
  then show thesis using that [of d'] StopRing by (simp add: ringInv_def)
qed

lemma history_returns:
  assumes sz: "smallCommands (ringSizes env)" and bufs: "goodBuffers env"
  shows "ringInv env d \<Longrightarrow> list_all (operationFits env) es \<Longrightarrow> \<exists>d'. ringHistory env es d = Inr d' \<and> ringInv env d'"
proof (induction es arbitrary: d)
  case (Cons e es)
  then have "operationFits env e" by simp
  from operation_returns [OF sz bufs Cons.prems(1) this] obtain d1 where 1: "ringOperation env e d = Inr d1" "ringInv env d1" .
  show ?case using Cons.IH [OF 1(2)] Cons.prems(2) 1(1) by simp
qed simp

text \<open>
  C5: In every history of dispatches and stops no check of the code fires, and
  while the GPU runs over the ring there is room left for the jump to the next ring buffer and for the end of the ring. The
  hypotheses: a command buffer that is copied into the ring takes at most half of a ring buffer (the code has no such check)
  and a new ring buffer becomes resident (\<open>operationFits\<close>); the commands have sizes as in the code's command
  definitions or larger (\<open>smallCommands\<close>); ring buffers have an address; and when there is a global fence
  allocation, either memory fences are required, so that \<open>getUllsStateSize\<close> counts its command, or the ring is
  submitted at once, so that the initialisation writes it (\<open>fence_not_reserved\<close> shows what happens otherwise).
  The restarts, TLB flushes and execution errors the operating system answers are arbitrary.
\<close>

theorem ring_never_overflows:
  assumes "smallCommands (ringSizes env)" "goodBuffers env" "newDrmDirectSubmission c = Inr d0"
    and "globalFenceAllocation d0 \<longrightarrow> miMemFenceRequired d0 \<or> submitOnInit"
    and "list_all (operationFits env) es"
  shows "\<exists>started d1. initializeRing env c submitOnInit residentOk os d0 = Inr (started, d1) \<and>
    (started \<longrightarrow> (\<exists>d. ringHistory env es d1 = Inr d \<and>
       unat (sizeUsed (ringCommandStream d)) \<le> unat (maxAvailableSpace (ringCommandStream d)) \<and>
       (ringStart d \<longrightarrow> unat (getSizeSwitchRingBufferSection env d) + unat (getSizeEnd env (relaxedOrderingSchedulerRequired d) d) \<le>
          unat (getAvailableSpace (ringCommandStream d)))))"
proof -
  obtain started d1 where 1: "initializeRing env c submitOnInit residentOk os d0 = Inr (started, d1)" "started \<longrightarrow> ringInv env d1"
    using initialize_returns [OF assms(1,2) constructed_built [OF assms(3)] assms(4)] .
  have "\<exists>d. ringHistory env es d1 = Inr d \<and>
       unat (sizeUsed (ringCommandStream d)) \<le> unat (maxAvailableSpace (ringCommandStream d)) \<and>
       (ringStart d \<longrightarrow> unat (getSizeSwitchRingBufferSection env d) + unat (getSizeEnd env (relaxedOrderingSchedulerRequired d) d) \<le>
          unat (getAvailableSpace (ringCommandStream d)))" if started
  proof -
    have "ringInv env d1" using 1(2) that by simp
    from history_returns [OF assms(1,2) this assms(5)] obtain d where d: "ringHistory env es d1 = Inr d" "ringInv env d" by blast
    have "unat (sizeUsed (ringCommandStream d)) \<le> unat (maxAvailableSpace (ringCommandStream d))"
      using d(2) unfolding ringInv_def ringShape_def ringOk_def by blast
    then show ?thesis using d available_room
      by (auto simp: ringInv_def room_def switchBytes_def endBytes_def)
  qed
  then show ?thesis using 1(1) by blast
qed

definition exampleSizes :: RingSizes where
  "exampleSizes = \<lparr>sizeBatchBufferStart = 12, sizeBatchBufferEnd = 4, sizeSemaphoreWait = 20, sizeLoadRegisterImm = 12,
     sizeLoadRegisterReg = 12, sizeLoadRegisterMem = 16, sizeMath = 4, sizeAluInstruction = 4, sizeSetPredicate = 4,
     sizeStoreDataImm = 16, sizeArbCheck = 4, sizeMonitorFence = 48, sizeCacheFlush = 24, sizeTlbFlush = 24, sizePreemption = 8,
     sizePartitionRegisters = 24, sizeSystemMemoryFence = 12, sizeAcquireFence = 16\<rparr>"

definition exampleRing :: "nat \<Rightarrow> GraphicsAllocation" where
  "exampleRing i = \<lparr>gpuAddress = 0x1000000 + of_nat i * 0x100000, underlyingBuffer = 0x7000000, underlyingBufferSize = 262144\<rparr>"

definition exampleEnvironment :: RingEnvironment where
  "exampleEnvironment = \<lparr>ringSizes = exampleSizes, prefetchByJump = True, prefetcherControl = False, numSupportedDevices = 2,
     metricsEnabled = False, isSystemMemoryPool = (\<lambda>a. True), allocateRingBuffer = exampleRing, bufferHandle = (\<lambda>a. 7),
     flagFlatRingBuffer = -1, flagRelaxedOrderingQueueSizeLimit = -1, flagNewResourceTlbFlush = -1, flagRingSwitchTagUpdateWa = -1\<rparr>"

definition exampleConfiguration :: RingConfiguration where
  "exampleConfiguration = \<lparr>flagDisableMonitorFence = -1, flagMaxRingBuffers = -1, flagDisableCacheFlush = -1,
     flagInsertExtraMiMemFence = -1, flagMonitorFenceInputPolicy = -1, flagDisablePrefetcher = -1, flagRelaxedOrdering = -1,
     flagRelaxedOrderingForBcs = -1, flagOverrideUserFenceStartValue = -1, flagPciBarrier = -1, acquireGlobalFenceRequired = False,
     heaplessStateInitEnabled = False, prefetcherDisablingRequired = False, relaxedOrderingSupported = False, dispatcherIsCopy = False,
     hasGlobalFence = False, tileCount = 1, implicitScalingSupported = False, isIntegratedDevice = True, pciBarrierMapped = False,
     workPartitionAddress = None, completionFenceAddress = None, driverCompletionFenceSupport = False, initialCompletionFenceValue = 1,
     postSyncOffset = 64, semaphoreAddress = 0x500000, deferredTasksListAddress = 0, relaxedOrderingSchedulerAddress = 0\<rparr>"

definition exampleBatch :: RingBatch where
  "exampleBatch = \<lparr>batchAllocation = Some \<lparr>gpuAddress = 0x3000000, underlyingBuffer = 0x8000000, underlyingBufferSize = 0x1000\<rparr>,
     batchStartOffset = 0, chainedBatchBufferStartOffset = 0, taskStartAddress = 0, chainedBatchBuffer = None, batchUsedSize = 0x1000,
     batchHasStallingCmds = False, batchRelaxedOrderingDependencies = False, dispatchMonitorFence = False, disableFlatRingBuffer = False,
     throttle = throttleMedium, streamCpuBase = 0x8000000, streamUsed = 0x1000, endCmdPtr = 0x8000FF4, numCsrClients = 1,
     pagingFenceSemInfo = \<lparr>requiresBlockingResidencyHandling = False, pagingFenceValue = 0\<rparr>, allocationsForResidency = True\<rparr>"

definition exampleAnswers :: "bool \<Rightarrow> OsAnswers" where
  "exampleAnswers restart = \<lparr>restartAtDispatch = False, restartAtSwitch = restart, ringBufferResident = True, isTlbFlushRequired = False, execErrors = [0]\<rparr>"

lemma example_sizes: "smallCommands (ringSizes exampleEnvironment)" "goodBuffers exampleEnvironment" "batchFits exampleEnvironment exampleBatch"
  by (simp_all add: smallCommands_def goodBuffers_def batchFits_def exampleEnvironment_def exampleSizes_def exampleRing_def exampleBatch_def
    copyCommandBufferIntoRing_def)

theorem ring_never_overflows_witness:
  "\<exists>d0 d1 d. newDrmDirectSubmission exampleConfiguration = Inr d0 \<and>
    initializeRing exampleEnvironment exampleConfiguration False True (exampleAnswers False) d0 = Inr (True, d1) \<and>
    ringHistory exampleEnvironment [DispatchBatch exampleBatch (exampleAnswers False), StopRing,
      DispatchBatch exampleBatch (exampleAnswers True)] d1 = Inr d \<and>
    unat (sizeUsed (ringCommandStream d)) \<le> unat (maxAvailableSpace (ringCommandStream d))"
proof -
  let ?es = "[DispatchBatch exampleBatch (exampleAnswers False), StopRing, DispatchBatch exampleBatch (exampleAnswers True)]"
  obtain d0 where d0: "newDrmDirectSubmission exampleConfiguration = Inr d0" "\<not> globalFenceAllocation d0"
    by (simp add: newDrmDirectSubmission_def newDirectSubmission_def exampleConfiguration_def overrideFlag_def)
  have "list_all (operationFits exampleEnvironment) ?es" by (simp add: example_sizes exampleAnswers_def)
  with ring_never_overflows [OF example_sizes(1,2) d0(1), of False ?es True "exampleAnswers False"] d0(2)
  obtain started d1 where 1: "initializeRing exampleEnvironment exampleConfiguration False True (exampleAnswers False) d0 = Inr (started, d1)"
    "started \<Longrightarrow> \<exists>d. ringHistory exampleEnvironment ?es d1 = Inr d \<and>
       unat (sizeUsed (ringCommandStream d)) \<le> unat (maxAvailableSpace (ringCommandStream d))" by blast
  have "started" using 1(1) by (auto simp: initializeRing_def allocateResources_def Let_def)
  then show ?thesis using d0(1) 1 by auto
qed

section \<open>Work that is never submitted\<close>

text \<open>The answer about the residency of a new ring buffer matters only when it makes the code give up.\<close>

lemma andThen_gives_up: "r = Inl e \<or> r = r' \<Longrightarrow> andThen r f = Inl e \<or> andThen r f = andThen r' f"
  by auto

lemma andThen_either: "(\<And>x. f x = Inl e \<or> f x = g x) \<Longrightarrow> andThen r f = Inl e \<or> andThen r f = andThen r g"
  by (cases r) auto

lemma resident_fields:
  "restartAtSwitch (os\<lparr>ringBufferResident := True\<rparr>) = restartAtSwitch os"
  "restartAtDispatch (os\<lparr>ringBufferResident := True\<rparr>) = restartAtDispatch os"
  "handleNewResourcesSubmission env (os\<lparr>ringBufferResident := True\<rparr>) = handleNewResourcesSubmission env os"
  "submitCommandBufferToGpu env needStart a hasAllocations (os\<lparr>ringBufferResident := True\<rparr>) =
     submitCommandBufferToGpu env needStart a hasAllocations os"
  by (simp_all add: fun_eq_iff handleNewResourcesSubmission_def isNewResourceHandleNeeded_def submitCommandBufferToGpu_def submitRing_def)

lemma residency_needed:
  "switchRingBuffersNeeded env n hasAllocations os d = Inl Unrecoverable \<or>
   switchRingBuffersNeeded env n hasAllocations os d = switchRingBuffersNeeded env n hasAllocations (os\<lparr>ringBufferResident := True\<rparr>) d"
proof -
  have "switchRingBuffersAllocations env os d = Inl Unrecoverable \<or>
      switchRingBuffersAllocations env os d = switchRingBuffersAllocations env (os\<lparr>ringBufferResident := True\<rparr>) d"
    by (simp add: switchRingBuffersAllocations_def Let_def split: option.split)
  from andThen_gives_up [OF this] have "switchRingBuffers env hasAllocations os d = Inl Unrecoverable \<or>
      switchRingBuffers env hasAllocations os d = switchRingBuffers env hasAllocations (os\<lparr>ringBufferResident := True\<rparr>) d"
    unfolding switchRingBuffers_def resident_fields .
  then show ?thesis by (simp add: switchRingBuffersNeeded_def)
qed

lemma residency_only_aborts:
  "dispatchCommandBuffer env b os d = Inl Unrecoverable \<and> ringBufferResident os = False \<or>
   dispatchCommandBuffer env b os d = dispatchCommandBuffer env b (os\<lparr>ringBufferResident := True\<rparr>) d"
proof (cases "ringBufferResident os")
  case True
  then have "os\<lparr>ringBufferResident := True\<rparr> = os" by (cases os) simp
  then show ?thesis by simp
next
  case False
  have t: "dispatchTail env b (os\<lparr>ringBufferResident := True\<rparr>) = dispatchTail env b os"
    by (intro ext) (simp only: dispatchTail_def resident_fields)
  have "dispatchCommandBuffer env b os d = Inl Unrecoverable \<or>
      dispatchCommandBuffer env b os d = dispatchCommandBuffer env b (os\<lparr>ringBufferResident := True\<rparr>) d"
    unfolding dispatch_tail t Let_def resident_fields
    by (rule andThen_either, rule andThen_gives_up, rule residency_needed)
  then show ?thesis using False by simp
qed

text \<open>
  C33: When the ring has to be restarted for new resources while a dispatch switches ring buffers, the dispatch stops the
  ring after it has decided that the ring runs. The work is written behind the end of the ring, counted and
  never submitted: the call returns false, which the caller turns into success because no error code is set. The only
  other outcome is that the code gives up because a newly allocated ring buffer does not become resident.
\<close>

theorem restart_at_switch_loses_work:
  assumes "smallCommands (ringSizes env)" "goodBuffers env" "ringInv env d" "batchFits env b"
    and "ringStart d" "allocationsForResidency b" "\<not> restartAtDispatch os" "restartAtSwitch os"
    and "getAvailableSpace (ringCommandStream d) < dispatchBytes env b d"
  shows "(\<exists>stamp d'. dispatchCommandBuffer env b os d = Inr (False, stamp, d') \<and> \<not> ringStart d' \<and> execCalls d' = execCalls d \<and>
      dispatchErrorCode d' = dispatchErrorCode d \<and> currentQueueWorkCount d' = currentQueueWorkCount d + 1) \<or>
    (ringBufferResident os = False \<and> dispatchCommandBuffer env b os d = Inl Unrecoverable)"
proof -
  let ?os = "os\<lparr>ringBufferResident := True\<rparr>"
  have "ringBufferResident ?os" "restartAtDispatch ?os = restartAtDispatch os" "restartAtSwitch ?os = restartAtSwitch os" by simp_all
  note os = this
  obtain x y d' where 1: "dispatchCommandBuffer env b ?os d = Inr (x, y, d')"
    "ringStart d \<and> allocationsForResidency b \<and> \<not> restartAtDispatch ?os \<and> restartAtSwitch ?os \<and>
      getAvailableSpace (ringCommandStream d) < dispatchBytes env b d \<longrightarrow>
      \<not> x \<and> \<not> ringStart d' \<and> execCalls d' = execCalls d \<and> dispatchErrorCode d' = dispatchErrorCode d \<and>
      currentQueueWorkCount d' = currentQueueWorkCount d + 1"
    by (rule dispatch_returns [OF assms(1-4) os(1)]) blast
  have lost: "\<not> x \<and> \<not> ringStart d' \<and> execCalls d' = execCalls d \<and> dispatchErrorCode d' = dispatchErrorCode d \<and>
      currentQueueWorkCount d' = currentQueueWorkCount d + 1"
    using 1(2) assms(5-9) unfolding os by blast
  consider "dispatchCommandBuffer env b os d = Inl Unrecoverable" "ringBufferResident os = False"
    | "dispatchCommandBuffer env b os d = dispatchCommandBuffer env b ?os d"
    using residency_only_aborts by blast
  then show ?thesis using 1(1) lost by cases auto
qed

definition exampleRunning :: DirectSubmission where
  "exampleRunning = (newDirectSubmission exampleConfiguration)
     \<lparr>ringBuffers := [\<lparr>completionFence = 0, completionFenceForSwitch = 0, ringBuffer = exampleRing 0\<rparr>,
                       \<lparr>completionFence = 0, completionFenceForSwitch = 0, ringBuffer = exampleRing 1\<rparr>],
      ringCommandStream := replaceGraphicsAllocation (Some (exampleRing 0))
        ((newLinearStream None 0x7000000 minimumRequiredSize)\<lparr>sizeUsed := 261936\<rparr>),
      semaphoreGpuVa := 0x500000, tileTags := [0], ringStart := True, execCalls := [0x1000000]\<rparr>"

lemma example_running: "ringInv exampleEnvironment exampleRunning"
proof -
  note defs = exampleRunning_def newDirectSubmission_def exampleConfiguration_def overrideFlag_def newLinearStream_def
    replaceGraphicsAllocation_def minimumRequiredSize_def exampleEnvironment_def exampleSizes_def Let_def
  have "ringShape exampleEnvironment exampleRunning"
    by (simp add: ringShape_def ringOk_def templatesOk_def defs All_less_Suc)
  moreover have "room exampleRunning = 208" by (simp add: room_def defs)
  moreover have "switchBytes exampleEnvironment exampleRunning = 60" "endBytes exampleEnvironment r exampleRunning = 148" for r
    by (simp_all add: switchBytes_def endBytes_def getSizeSwitchRingBufferSection_def getSizeEnd_def cacheLineSize_def defs)
  ultimately show ?thesis by (simp add: ringInv_def)
qed

theorem restart_at_switch_loses_work_witness:
  "\<exists>stamp d'. dispatchCommandBuffer exampleEnvironment exampleBatch (exampleAnswers True) exampleRunning = Inr (False, stamp, d') \<and>
    \<not> ringStart d' \<and> execCalls d' = [0x1000000] \<and> dispatchErrorCode d' = 0 \<and> currentQueueWorkCount d' = 2"
proof -
  note defs = exampleRunning_def newDirectSubmission_def exampleConfiguration_def overrideFlag_def newLinearStream_def
    replaceGraphicsAllocation_def minimumRequiredSize_def exampleEnvironment_def exampleSizes_def Let_def
  have "getAvailableSpace (ringCommandStream exampleRunning) < dispatchBytes exampleEnvironment exampleBatch exampleRunning"
    by (simp add: getAvailableSpace_def dispatchBytes_def requiredMinimalSize_def dispatchSize_def getUllsStateSize_def getSizeDispatch_def
      getSizeSemaphoreSection_def getSizePrefetchMitigation_def getSizeDisablePrefetcher_def getSizeSwitchRingBufferSection_def getSizeEnd_def
      cacheLineSize_def dispatchMonitorFenceRequired_def copyCommandBufferIntoRing_def requiresProgrammingSemaphore_def exampleBatch_def defs)
  moreover have "ringStart exampleRunning" "allocationsForResidency exampleBatch" "execCalls exampleRunning = [0x1000000]"
    "dispatchErrorCode exampleRunning = 0" "currentQueueWorkCount exampleRunning = 1"
    by (simp_all add: exampleBatch_def defs)
  ultimately show ?thesis
    using restart_at_switch_loses_work [OF example_sizes(1,2) example_running example_sizes(3), of "exampleAnswers True"]
    by (simp add: exampleAnswers_def)
qed

section \<open>A fence without reserved space\<close>

text \<open>
  \<open>getUllsStateSize\<close> counts the system memory fence when a memory fence is required, \<open>dispatchUllsState\<close> writes it when there is a
  global fence allocation: with a PCI barrier the second holds without the first.
\<close>

lemma fence_not_reserved:
  assumes "globalFenceAllocation d" "\<not> miMemFenceRequired d" "\<not> systemMemoryFenceAddressSet d" "partitionConfigSet d"
    "\<not> relaxedOrderingEnabled d" "ringOk env d" "unat (sizeSystemMemoryFence (ringSizes env)) \<le> room d"
  shows "getUllsStateSize env d = 0"
    and "\<exists>d'. dispatchUllsState env d = Inr d' \<and> room d = room d' + unat (sizeSystemMemoryFence (ringSizes env))"
proof -
  show "getUllsStateSize env d = 0" using assms by (simp add: getUllsStateSize_def)
  have b: "blockBytes (ringSizes env) [SystemMemoryFence] = sizeSystemMemoryFence (ringSizes env)" by (simp add: blockBytes_def)
  note r = reserveSpace_returns [OF assms(6,7)]
  let ?d = "(patchBlock env (ringPosition d) [SystemMemoryFence] (advance (sizeSystemMemoryFence (ringSizes env)) d))
     \<lparr>systemMemoryFenceAddressSet := True\<rparr>"
  have e: "relaxedOrderingEnabled (patchBlock env (ringPosition d) [SystemMemoryFence] (advance (sizeSystemMemoryFence (ringSizes env)) d)) =
      relaxedOrderingEnabled d" by (simp add: patchBlock_def advance_def)
  have "dispatchUllsState env d = Inr ?d"
    using assms(1-5) by (simp add: dispatchUllsState_def putBlock_def b r(1) e)
  moreover have "room ?d = room (advance (sizeSystemMemoryFence (ringSizes env)) d)" by (simp add: room_def patchBlock_def)
  ultimately show "\<exists>d'. dispatchUllsState env d = Inr d' \<and> room d = room d' + unat (sizeSystemMemoryFence (ringSizes env))"
    using r(4) by auto
qed

end
