(* ===== verification/Batched_Submission.thy ===== *)
theory Batched_Submission
  imports Direct_Submission
begin

text \<open>
  \<open>command_stream/submissions_aggregator.{h,cpp}\<close> and \<open>flushBatchedSubmissions\<close>, \<open>handleFlushTaskSubmission\<close> and
  \<open>handleBatchedDispatchImplicitFlush\<close> of \<open>command_stream/command_stream_receiver_hw_base.inl\<close>: in the batched mode command
  buffers are recorded in a list; a flush merges as many as fit into the memory budget, chains them by jumps at their
  ends and submits the first.

  Allocations are identified by numbers; the list of command buffers is a HOL list, which \<open>Id_List\<close> justifies for the linked
  list of the code. Dumps for the simulator and log output are left out; the operating system is a parameter.
\<close>

section \<open>State\<close>

type_synonym AllocationId = nat

text \<open>The arguments of a barrier: the flag that the flush changes, and the others in the order of their declaration.\<close>

record PipeControlArgs =
  dcFlushEnable :: bool
  otherBarrierArgs :: "bool list"

record CommandBuffer =
  cbSurfaces :: "AllocationId list"
  cbAllocation :: "AllocationId option"
  cbStartOffset :: u64
  cbLowPriority :: bool
  cbThrottle :: QueueThrottle
  cbSliceCount :: u64
  cbEndCmdPtr :: u64
  cbEndLocation :: u64
  cbInspectionId :: u32
  cbTaskCount :: u64
  cbErasableBarrier :: u64
  cbEpilogueBarrier :: u64
  cbEpilogueArgs :: PipeControlArgs
  cbFlushStamp :: "nat option"
  cbGlobalMemSize :: u64

text \<open>What is written over the recorded commands: by CPU address.\<close>

datatype PatchedCommand = PatchedNoops u64 | PatchedStart u64 | PatchedBarrier u64 PipeControlArgs

record BatchSubmission =
  subBuffer :: CommandBuffer
  subSurfaces :: "AllocationId list"

record BatchedCsr =
  batchedDispatch :: bool
  cmdBuffers :: "CommandBuffer list"
  aggregatorInspectionId :: u32
  allocationInspectionId :: "AllocationId \<Rightarrow> u32"
  commandMemory :: "u64 \<Rightarrow> PatchedCommand option"
  csrResidency :: "AllocationId list"
  nonResident :: "AllocationId list"
  stampObjects :: "nat \<Rightarrow> u64 option"
  csrFlushStamp :: u64
  batchedTaskCount :: u64
  batchedTaskLevel :: u64
  batchedLatestFlushed :: u64
  totalMemoryUsed :: u64
  csrNewResources :: bool
  submissions :: "BatchSubmission list"

text \<open>
  The allocations, the hardware and what the operating system answers to the \<open>n\<close>-th submission: whether it succeeded, and
  the flush stamp it set.
\<close>

record BatchEnvironment =
  allocationSize :: "AllocationId \<Rightarrow> u64"
  allocationGpu :: "AllocationId \<Rightarrow> u64"
  allocationCpu :: "AllocationId \<Rightarrow> u64"
  sizeStartCommand :: u64
  sizeBarrier :: u64
  dcFlushSupported :: bool
  flagDisableDcFlushInEpilogue :: bool
  updateTagFromWaitEnabled :: bool
  memoryBudgetExhausted :: bool
  flagFlushEveryEnqueueCount :: int
  useGpuIdleImplicitFlush :: bool
  gpuTag :: u64
  flushAnswer :: "nat \<Rightarrow> bool \<times> u64"

section \<open>The aggregator\<close>

definition recordCommandBuffer :: "CommandBuffer \<Rightarrow> BatchedCsr \<Rightarrow> BatchedCsr" where
  "recordCommandBuffer cb csr = csr\<lparr>cmdBuffers := cmdBuffers csr @ [cb]\<rparr>"

text \<open>One round over surfaces: those not yet inspected, other than the one to skip, are added with their sizes.\<close>

fun inspectSurfaces ::
  "BatchEnvironment \<Rightarrow> AllocationId option \<Rightarrow> u32 \<Rightarrow> AllocationId list \<Rightarrow>
   AllocationId list \<times> u64 \<times> (AllocationId \<Rightarrow> u32) \<Rightarrow> AllocationId list \<times> u64 \<times> (AllocationId \<Rightarrow> u32)" where
  "inspectSurfaces env skip currentInspection [] st = st"
| "inspectSurfaces env skip currentInspection (a # as) (new, n, ids) =
     inspectSurfaces env skip currentInspection as
       (if skip = Some a then (new, n, ids)
        else if ids a < currentInspection then (new @ [a], n + allocationSize env a, ids(a := currentInspection))
        else (new, n, ids))"

definition inspectBuffer ::
  "BatchEnvironment \<Rightarrow> AllocationId option \<Rightarrow> u32 \<Rightarrow> CommandBuffer \<Rightarrow> (AllocationId \<Rightarrow> u32) \<Rightarrow>
   AllocationId list \<times> u64 \<times> (AllocationId \<Rightarrow> u32)" where
  "inspectBuffer env primaryAllocation currentInspection cb ids =
     (case inspectSurfaces env primaryAllocation currentInspection (cbSurfaces cb) ([], 0, ids) of
        (new, n, ids) \<Rightarrow>
          (case cbAllocation cb of
             None \<Rightarrow> (new, n, ids)
           | Some a \<Rightarrow>
               if Some a \<noteq> primaryAllocation \<and> ids a < currentInspection
               then (new @ [a], n + allocationSize env a, ids(a := currentInspection))
               else (new, n, ids)))"

fun mergeBuffers ::
  "BatchEnvironment \<Rightarrow> AllocationId option \<Rightarrow> u32 \<Rightarrow> u64 \<Rightarrow> CommandBuffer list \<Rightarrow>
   AllocationId list \<times> u64 \<times> (AllocationId \<Rightarrow> u32) \<Rightarrow>
   CommandBuffer list \<times> AllocationId list \<times> u64 \<times> (AllocationId \<Rightarrow> u32)" where
  "mergeBuffers env primaryAllocation currentInspection budget [] st = ([], st)"
| "mergeBuffers env primaryAllocation currentInspection budget (cb # rest) (package, used, ids) =
     (case inspectBuffer env primaryAllocation currentInspection cb ids of
        (new, n, ids) \<Rightarrow>
          if n + used \<le> budget
          then (case mergeBuffers env primaryAllocation currentInspection budget rest (package @ new, used + n, ids) of
                  (rest, st) \<Rightarrow> (cb\<lparr>cbInspectionId := currentInspection\<rparr> # rest, st))
          else (cb # rest, package, used, ids))"

definition aggregateCommandBuffers ::
  "BatchEnvironment \<Rightarrow> AllocationId list \<Rightarrow> u64 \<Rightarrow> u64 \<Rightarrow> BatchedCsr \<Rightarrow> AllocationId list \<times> u64 \<times> BatchedCsr" where
  "aggregateCommandBuffers env package used budget csr =
     (case cmdBuffers csr of
        [] \<Rightarrow> (package, used, csr)
      | primary # rest \<Rightarrow>
          let currentInspection = aggregatorInspectionId csr;
              primary = primary\<lparr>cbInspectionId := currentInspection\<rparr>
          in case inspectSurfaces env None currentInspection (cbSurfaces primary) (package, used, allocationInspectionId csr) of
               (package, used, ids) \<Rightarrow>
                 let csr = csr\<lparr>aggregatorInspectionId := currentInspection + 1, cmdBuffers := primary # rest, allocationInspectionId := ids\<rparr>
                 in case rest of
                      [] \<Rightarrow> (package, used, csr)
                    | next # _ \<Rightarrow>
                        if cbLowPriority next \<noteq> cbLowPriority primary \<or> cbThrottle next \<noteq> cbThrottle primary \<or>
                           cbSliceCount next \<noteq> cbSliceCount primary
                        then (package, used, csr)
                        else case mergeBuffers env (cbAllocation primary) currentInspection budget rest (package, used, ids) of
                               (rest, package, used, ids) \<Rightarrow>
                                 (package, used, csr\<lparr>cmdBuffers := primary # rest, allocationInspectionId := ids\<rparr>))"

section \<open>Chaining and submitting\<close>

text \<open>What the inner loop of \<open>flushBatchedSubmissions\<close> keeps.\<close>

record ChainState =
  chainEnd :: u64
  chainTaskCount :: u64
  chainArgs :: PipeControlArgs
  chainStamps :: "nat list"
  chainErasable :: u64
  chainEpilogue :: u64
  chainMemory :: "u64 \<Rightarrow> PatchedCommand option"

definition insertStamp :: "nat option \<Rightarrow> nat list \<Rightarrow> nat list" where
  "insertStamp stampObj stamps = (case stampObj of None \<Rightarrow> stamps | Some s \<Rightarrow> stamps @ [s])"

definition bufferGpuStart :: "BatchEnvironment \<Rightarrow> CommandBuffer \<Rightarrow> AllocationId \<Rightarrow> u64" where
  "bufferGpuStart env cb a = allocationGpu env a + cbStartOffset cb"

definition bufferCpuStart :: "BatchEnvironment \<Rightarrow> CommandBuffer \<Rightarrow> AllocationId \<Rightarrow> u64" where
  "bufferCpuStart env cb a = allocationCpu env a + cbStartOffset cb"

definition chainNext :: "BatchEnvironment \<Rightarrow> CommandBuffer \<Rightarrow> AllocationId \<Rightarrow> ChainState \<Rightarrow> ChainState" where
  "chainNext env next a c =
     (let m = (if chainErasable c \<noteq> 0 then (chainMemory c)(chainErasable c \<mapsto> PatchedNoops (sizeBarrier env)) else chainMemory c);
          ending = alignUp (chainEnd c + sizeStartCommand env) cacheLineSize;
          m = m(chainEnd c \<mapsto> (if ending = bufferCpuStart env next a then PatchedNoops (ending - chainEnd c)
                                  else PatchedStart (bufferGpuStart env next a)))
      in c\<lparr>chainMemory := m, chainErasable := cbErasableBarrier next, chainEpilogue := cbEpilogueBarrier next,
           chainStamps := insertStamp (cbFlushStamp next) (chainStamps c), chainEnd := cbEndLocation next,
           chainTaskCount := cbTaskCount next, chainArgs := cbEpilogueArgs next\<rparr>)"

text \<open>A command buffer without allocation follows a null pointer.\<close>

fun chainBuffers ::
  "BatchEnvironment \<Rightarrow> u32 \<Rightarrow> CommandBuffer list \<Rightarrow> ChainState \<Rightarrow> (CommandBuffer list \<times> ChainState) result" where
  "chainBuffers env inspection [] c = Inr ([], c)"
| "chainBuffers env inspection (next # rest) c =
     (if cbInspectionId next = inspection
      then (case cbAllocation next of None \<Rightarrow> Inl AbortExecution | Some a \<Rightarrow> chainBuffers env inspection rest (chainNext env next a c))
      else Inr (next # rest, c))"

text \<open>One round of the outer loop: the first command buffer with those merged into it.\<close>

definition flushPrimary :: "BatchEnvironment \<Rightarrow> u64 \<Rightarrow> BatchedCsr \<Rightarrow> (bool \<times> BatchedCsr) result" where
  "flushPrimary env budget csr =
     (case aggregateCommandBuffers env [] 0 budget csr of
        (package, used, csr) \<Rightarrow>
          (case cmdBuffers csr of
             [] \<Rightarrow> Inl AbortExecution
           | primary # rest \<Rightarrow>
               andThen (chainBuffers env (cbInspectionId primary) rest
                 \<lparr>chainEnd = cbEndLocation primary, chainTaskCount = cbTaskCount primary, chainArgs = cbEpilogueArgs primary,
                  chainStamps = insertStamp (cbFlushStamp primary) [], chainErasable = cbErasableBarrier primary,
                  chainEpilogue = cbEpilogueBarrier primary, chainMemory = commandMemory csr\<rparr>)
               (\<lambda>(rest, c).
                 let m = (if chainEpilogue c \<noteq> 0 \<and> dcFlushSupported env
                          then (chainMemory c)(chainEpilogue c \<mapsto>
                                 PatchedBarrier (chainTaskCount c) ((chainArgs c)\<lparr>dcFlushEnable := \<not> flagDisableDcFlushInEpilogue env\<rparr>))
                          else chainMemory c);
                     csr = csr\<lparr>cmdBuffers := rest, commandMemory := m,
                               submissions := submissions csr @ [\<lparr>subBuffer = primary\<lparr>cbEndCmdPtr := chainEnd c\<rparr>, subSurfaces = package\<rparr>]\<rparr>
                 in case flushAnswer env (length (submissions csr)) of
                      (success, stamp) \<Rightarrow>
                        if \<not> success then Inr (False, csr)
                        else Inr (True, csr\<lparr>batchedTaskLevel := batchedTaskLevel csr + 1, csrFlushStamp := stamp,
                               stampObjects := (\<lambda>s. if s \<in> set (chainStamps c) then Some stamp else stampObjects csr s),
                               batchedLatestFlushed := (if \<not> updateTagFromWaitEnabled env then chainTaskCount c else batchedLatestFlushed csr),
                               nonResident := nonResident csr @ package\<rparr>))))"

text \<open>The outer loop ends, since every round removes the first command buffer.\<close>

lemma mergeBuffers_length: "length (fst (mergeBuffers env p i budget bufs st)) = length bufs"
proof (induction bufs arbitrary: st)
  case (Cons cb bufs)
  obtain package used ids where st: "st = (package, used, ids)" by (cases st)
  obtain new n ids' where i: "inspectBuffer env p i cb ids = (new, n, ids')" by (cases "inspectBuffer env p i cb ids")
  obtain bufs' st' where m: "mergeBuffers env p i budget bufs (package @ new, used + n, ids') = (bufs', st')"
    by (cases "mergeBuffers env p i budget bufs (package @ new, used + n, ids')")
  show ?case using Cons.IH [of "(package @ new, used + n, ids')"] by (simp add: st i m)
qed simp

definition mergeable :: "CommandBuffer \<Rightarrow> CommandBuffer list \<Rightarrow> bool" where
  "mergeable primary rest \<longleftrightarrow> (case rest of [] \<Rightarrow> False
     | next # _ \<Rightarrow> cbLowPriority next = cbLowPriority primary \<and> cbThrottle next = cbThrottle primary \<and>
         cbSliceCount next = cbSliceCount primary)"

lemma aggregate_parts:
  assumes "cmdBuffers csr = primary # rest"
    and "inspectSurfaces env None (aggregatorInspectionId csr) (cbSurfaces primary) (package, used, allocationInspectionId csr) = (package1, used1, ids1)"
    and "(if mergeable primary rest
          then mergeBuffers env (cbAllocation primary) (aggregatorInspectionId csr) budget rest (package1, used1, ids1)
          else (rest, package1, used1, ids1)) = (rest2, package2, used2, ids2)"
  shows "aggregateCommandBuffers env package used budget csr = (package2, used2,
     csr\<lparr>aggregatorInspectionId := aggregatorInspectionId csr + 1,
         cmdBuffers := primary\<lparr>cbInspectionId := aggregatorInspectionId csr\<rparr> # rest2, allocationInspectionId := ids2\<rparr>)"
  using assms by (cases rest) (auto simp: aggregateCommandBuffers_def mergeable_def Let_def simp del: mergeBuffers.simps)

lemma aggregate_obtain:
  assumes "cmdBuffers csr = primary # rest"
  obtains package1 used1 ids1 rest2 package2 used2 ids2 where
    "inspectSurfaces env None (aggregatorInspectionId csr) (cbSurfaces primary) (package, used, allocationInspectionId csr) = (package1, used1, ids1)"
    "(if mergeable primary rest
      then mergeBuffers env (cbAllocation primary) (aggregatorInspectionId csr) budget rest (package1, used1, ids1)
      else (rest, package1, used1, ids1)) = (rest2, package2, used2, ids2)"
    "aggregateCommandBuffers env package used budget csr = (package2, used2,
       csr\<lparr>aggregatorInspectionId := aggregatorInspectionId csr + 1,
           cmdBuffers := primary\<lparr>cbInspectionId := aggregatorInspectionId csr\<rparr> # rest2, allocationInspectionId := ids2\<rparr>)"
    "length rest2 = length rest"
proof -
  obtain package1 used1 ids1 where i: "inspectSurfaces env None (aggregatorInspectionId csr) (cbSurfaces primary)
      (package, used, allocationInspectionId csr) = (package1, used1, ids1)" using prod_cases3 by blast
  obtain rest2 package2 used2 ids2 where m: "(if mergeable primary rest
      then mergeBuffers env (cbAllocation primary) (aggregatorInspectionId csr) budget rest (package1, used1, ids1)
      else (rest, package1, used1, ids1)) = (rest2, package2, used2, ids2)" using prod_cases4 by blast
  have "length rest2 = length rest"
    using mergeBuffers_length [of env "cbAllocation primary" "aggregatorInspectionId csr" budget rest "(package1, used1, ids1)"] m
    by (auto split: if_splits)
  then show thesis using that i m aggregate_parts [OF assms i m] by blast
qed

lemma chainBuffers_length: "chainBuffers env i bufs c = Inr (rest, c') \<Longrightarrow> length rest \<le> length bufs"
  by (induction bufs arbitrary: c) (fastforce split: if_splits option.splits)+

lemma flushPrimary_shorter:
  assumes "flushPrimary env budget csr = Inr (ok, csr')"
  shows "length (cmdBuffers csr') < length (cmdBuffers csr)"
proof (cases "cmdBuffers csr")
  case Nil
  then show ?thesis using assms by (simp add: flushPrimary_def aggregateCommandBuffers_def)
next
  case (Cons primary rest)
  from aggregate_obtain [OF Cons, of env "[]" 0 budget] obtain rest2 package ids used where
    a: "aggregateCommandBuffers env [] 0 budget csr = (package, used,
      csr\<lparr>aggregatorInspectionId := aggregatorInspectionId csr + 1,
        cmdBuffers := primary\<lparr>cbInspectionId := aggregatorInspectionId csr\<rparr> # rest2, allocationInspectionId := ids\<rparr>)"
    "length rest2 = length rest" by metis
  from assms obtain c where "chainBuffers env (aggregatorInspectionId csr) rest2
      \<lparr>chainEnd = cbEndLocation primary, chainTaskCount = cbTaskCount primary, chainArgs = cbEpilogueArgs primary,
       chainStamps = insertStamp (cbFlushStamp primary) [], chainErasable = cbErasableBarrier primary,
       chainEpilogue = cbEpilogueBarrier primary, chainMemory = commandMemory csr\<rparr> = Inr (cmdBuffers csr', c)"
    by (auto simp: flushPrimary_def a(1) andThen_def Let_def split: sum.splits prod.splits if_splits)
  from chainBuffers_length [OF this] show ?thesis using a(2) Cons by simp
qed

function flushLoop :: "BatchEnvironment \<Rightarrow> u64 \<Rightarrow> BatchedCsr \<Rightarrow> (bool \<times> BatchedCsr) result" where
  "flushLoop env budget csr =
     (if cmdBuffers csr = [] then Inr (True, csr)
      else case flushPrimary env budget csr of
             Inl e \<Rightarrow> Inl e
           | Inr (ok, csr') \<Rightarrow> if ok then flushLoop env budget csr' else Inr (False, csr'))"
  by pat_completeness auto

termination
  by (relation "measure (\<lambda>(env, budget, csr). length (cmdBuffers csr))") (auto dest: flushPrimary_shorter)

declare flushLoop.simps [simp del]

definition flushBatchedSubmissions :: "BatchEnvironment \<Rightarrow> BatchedCsr \<Rightarrow> (bool \<times> BatchedCsr) result" where
  "flushBatchedSubmissions env csr =
     (if \<not> batchedDispatch csr then Inr (True, csr)
      else case cmdBuffers csr of
             [] \<Rightarrow> Inr (True, csr)
           | first # _ \<Rightarrow> map_sum id (map_prod id (totalMemoryUsed_update (\<lambda>_. 0))) (flushLoop env (cbGlobalMemSize first div 2) csr))"

section \<open>Recording\<close>

definition checkImplicitFlushForGpuIdle :: "BatchEnvironment \<Rightarrow> BatchedCsr \<Rightarrow> bool" where
  "checkImplicitFlushForGpuIdle env csr \<longleftrightarrow> useGpuIdleImplicitFlush env \<and> batchedTaskCount csr = gpuTag env"

text \<open>The result of the flush is not looked at.\<close>

definition handleBatchedDispatchImplicitFlush :: "BatchEnvironment \<Rightarrow> u64 \<Rightarrow> bool \<Rightarrow> BatchedCsr \<Rightarrow> BatchedCsr result" where
  "handleBatchedDispatchImplicitFlush env globalMemorySize implicitFlush csr =
     (let implicitFlush = implicitFlush \<or> memoryBudgetExhausted env \<and> globalMemorySize div 4 \<le> totalMemoryUsed csr in
      if flagFlushEveryEnqueueCount env = 0 then Inl AbortExecution
      else
        let implicitFlush = implicitFlush \<or> flagFlushEveryEnqueueCount env \<noteq> -1 \<and>
              (batchedTaskCount csr + 1) mod of_int (flagFlushEveryEnqueueCount env) = 0;
            implicitFlush = implicitFlush \<or> csrNewResources csr;
            csr = (if csrNewResources csr then csr\<lparr>csrNewResources := False\<rparr> else csr);
            implicitFlush = implicitFlush \<or> checkImplicitFlushForGpuIdle env csr
        in if implicitFlush then map_sum id snd (flushBatchedSubmissions env csr) else Inr csr)"

definition makeSurfacePackNonResident :: "BatchedCsr \<Rightarrow> BatchedCsr" where
  "makeSurfacePackNonResident csr = csr\<lparr>nonResident := nonResident csr @ csrResidency csr, csrResidency := []\<rparr>"

definition updateTaskCountAndGetCompletionStamp :: "bool \<Rightarrow> BatchedCsr \<Rightarrow> (u64 \<times> u64 \<times> u64) \<times> BatchedCsr" where
  "updateTaskCountAndGetCompletionStamp levelClosed csr =
     (let csr = csr\<lparr>batchedTaskCount := batchedTaskCount csr + 1\<rparr> in
      ((batchedTaskCount csr, batchedTaskLevel csr, csrFlushStamp csr),
       if levelClosed then csr\<lparr>batchedTaskLevel := batchedTaskLevel csr + 1\<rparr> else csr))"

text \<open>The batched mode of \<open>handleFlushTaskSubmission\<close>: \<open>batch\<close> has the batch buffer and the barriers of the task.\<close>

definition handleFlushTaskSubmission ::
  "BatchEnvironment \<Rightarrow> CommandBuffer \<Rightarrow> bool \<Rightarrow> bool \<Rightarrow> bool \<Rightarrow> BatchedCsr \<Rightarrow> ((u64 \<times> u64 \<times> u64) \<times> BatchedCsr) result" where
  "handleFlushTaskSubmission env batch submit levelClosed implicitFlush csr =
     (let csr = (if submit
                 then recordCommandBuffer
                   (batch\<lparr>cbEndLocation := cbEndCmdPtr batch, cbSurfaces := csrResidency csr, cbInspectionId := 0,
                          cbTaskCount := batchedTaskCount csr + 1\<rparr>) (csr\<lparr>csrResidency := []\<rparr>)
                 else makeSurfacePackNonResident csr)
      in andThen (handleBatchedDispatchImplicitFlush env (cbGlobalMemSize batch) implicitFlush csr)
           (\<lambda>csr. Inr (updateTaskCountAndGetCompletionStamp levelClosed csr)))"

section \<open>What a round takes along\<close>

definition bufferNeeds :: "CommandBuffer \<Rightarrow> AllocationId set" where
  "bufferNeeds cb = set (cbSurfaces cb) \<union> set_option (cbAllocation cb)"

definition wordSizes :: "BatchEnvironment \<Rightarrow> AllocationId list \<Rightarrow> u64" where
  "wordSizes env as = sum_list (map (allocationSize env) as)"

lemma wordSizes_simps [simp]:
  "wordSizes env [] = 0" "wordSizes env (a # as) = allocationSize env a + wordSizes env as"
  "wordSizes env (as @ bs) = wordSizes env as + wordSizes env bs"
  by (simp_all add: wordSizes_def)

lemma inspectSurfaces_spec:
  "inspectSurfaces env skip i as (new, n, ids) = (new', n', ids') \<Longrightarrow>
   \<exists>added. new' = new @ added \<and> n' = n + wordSizes env added \<and> distinct added \<and>
     set added = {a \<in> set as. skip \<noteq> Some a \<and> ids a < i} \<and> ids' = (\<lambda>a. if a \<in> set added then i else ids a)"
proof (induction as arbitrary: new n ids)
  case (Cons a as)
  show ?case
  proof (cases "skip \<noteq> Some a \<and> ids a < i")
    case True
    then have "inspectSurfaces env skip i as (new @ [a], n + allocationSize env a, ids(a := i)) = (new', n', ids')" using Cons.prems by simp
    from Cons.IH [OF this] obtain added where added: "new' = (new @ [a]) @ added" "n' = n + allocationSize env a + wordSizes env added"
      "distinct added" "set added = {x \<in> set as. skip \<noteq> Some x \<and> (ids(a := i)) x < i}"
      "ids' = (\<lambda>x. if x \<in> set added then i else (ids(a := i)) x)" by blast
    have "a \<notin> set added" using added(4) by simp
    then show ?thesis using added True by (intro exI [of _ "a # added"]) (auto simp: add.assoc)
  next
    case False
    then have "inspectSurfaces env skip i as (new, n, ids) = (new', n', ids')" 
      using Cons.prems by (cases "skip = Some a") simp_all
    from Cons.IH [OF this] obtain added where "new' = new @ added" "n' = n + wordSizes env added" "distinct added"
      "set added = {x \<in> set as. skip \<noteq> Some x \<and> ids x < i}" "ids' = (\<lambda>x. if x \<in> set added then i else ids x)" by blast
    moreover have "{x \<in> set as. skip \<noteq> Some x \<and> ids x < i} = {x \<in> set (a # as). skip \<noteq> Some x \<and> ids x < i}" using False by auto
    ultimately show ?thesis by (intro exI [of _ added]) simp
  qed
qed simp

lemma inspectSurfaces_append:
  "inspectSurfaces env skip i (xs @ ys) st = inspectSurfaces env skip i ys (inspectSurfaces env skip i xs st)"
proof (induction xs arbitrary: st)
  case (Cons x xs)
  then show ?case by (cases st) simp
qed simp

lemma inspectBuffer_surfaces:
  "inspectBuffer env primary i cb ids =
     inspectSurfaces env primary i (cbSurfaces cb @ (case cbAllocation cb of None \<Rightarrow> [] | Some a \<Rightarrow> [a])) ([], 0, ids)"
proof -
  obtain new n ids1 where s: "inspectSurfaces env primary i (cbSurfaces cb) ([], 0, ids) = (new, n, ids1)" using prod_cases3 by blast
  show ?thesis by (cases "cbAllocation cb") (auto simp: inspectBuffer_def inspectSurfaces_append s)
qed

lemma inspectBuffer_spec:
  assumes "inspectBuffer env primary i cb ids = (new, n, ids')"
  shows "n = wordSizes env new \<and> distinct new \<and> set new = {a \<in> bufferNeeds cb. primary \<noteq> Some a \<and> ids a < i} \<and>
    ids' = (\<lambda>a. if a \<in> set new then i else ids a)"
proof -
  have "set (cbSurfaces cb @ (case cbAllocation cb of None \<Rightarrow> [] | Some a \<Rightarrow> [a])) = bufferNeeds cb"
    by (cases "cbAllocation cb") (auto simp: bufferNeeds_def)
  then show ?thesis using inspectSurfaces_spec [OF assms [unfolded inspectBuffer_surfaces]] by auto
qed

text \<open>An allocation is in the package when its inspection is the current one.\<close>

definition tracked :: "u32 \<Rightarrow> AllocationId list \<Rightarrow> (AllocationId \<Rightarrow> u32) \<Rightarrow> bool" where
  "tracked i package ids \<longleftrightarrow> distinct package \<and> (\<forall>a. ids a \<le> i \<and> (ids a < i \<longleftrightarrow> a \<notin> set package))"

definition markedBuffers :: "u32 \<Rightarrow> CommandBuffer list \<Rightarrow> CommandBuffer list" where
  "markedBuffers i bufs = map (\<lambda>cb. cb\<lparr>cbInspectionId := i\<rparr>) bufs"

lemma mergeBuffers_spec:
  assumes "tracked i package ids" "used = wordSizes env package"
    and "mergeBuffers env primary i budget bufs (package, used, ids) = (bufs', package', used', ids')"
  shows "\<exists>k \<le> length bufs. bufs' = markedBuffers i (take k bufs) @ drop k bufs \<and> distinct package' \<and>
    set package' = set package \<union> ((\<Union>cb \<in> set (take k bufs). bufferNeeds cb) - set_option primary) \<and>
    (if 0 < k then wordSizes env package' \<le> budget else package' = package) \<and> (\<forall>a. ids' a \<le> i)"
  using assms
proof (induction bufs arbitrary: package used ids bufs')
  case Nil
  then show ?case by (auto simp: markedBuffers_def tracked_def)
next
  case (Cons cb bufs)
  obtain new n ids1 where i: "inspectBuffer env primary i cb ids = (new, n, ids1)" using prod_cases3 by blast
  note I = inspectBuffer_spec [OF i]
  have new: "set new = bufferNeeds cb - set_option primary - set package"
    using I Cons.prems(1) by (auto simp: tracked_def)
  show ?case
  proof (cases "n + used \<le> budget")
    case True
    obtain bufs2 st where m: "mergeBuffers env primary i budget bufs (package @ new, used + n, ids1) = (bufs2, st)"
      by (cases "mergeBuffers env primary i budget bufs (package @ new, used + n, ids1)")
    then have r: "bufs' = cb\<lparr>cbInspectionId := i\<rparr> # bufs2" "st = (package', used', ids')" using Cons.prems(3) i True by simp_all
    have t: "tracked i (package @ new) ids1"
      using Cons.prems(1) I new by (auto simp: tracked_def)
    have u: "used + n = wordSizes env (package @ new)" using Cons.prems(2) I by simp
    from Cons.IH [OF t u m [unfolded r(2)]] obtain k where k: "k \<le> length bufs" "bufs2 = markedBuffers i (take k bufs) @ drop k bufs"
      "distinct package'" "set package' = set (package @ new) \<union> ((\<Union>cb \<in> set (take k bufs). bufferNeeds cb) - set_option primary)"
      "if 0 < k then wordSizes env package' \<le> budget else package' = package @ new" "\<forall>a. ids' a \<le> i" by blast
    have "wordSizes env package' \<le> budget"
      using k(5) True unfolding u by (cases "k = 0") (simp_all add: add.commute [of n] u)
    moreover have "set package' = set package \<union> ((\<Union>cb \<in> set (take (Suc k) (cb # bufs)). bufferNeeds cb) - set_option primary)"
      unfolding k(4) using new by auto
    ultimately show ?thesis using k r(1) by (intro exI [of _ "Suc k"]) (simp add: markedBuffers_def)
  next
    case False
    then have r: "bufs' = cb # bufs" "package' = package" "used' = used" "ids' = ids1" using Cons.prems(3) i by simp_all
    have "\<forall>a. ids1 a \<le> i" using I Cons.prems(1) by (auto simp: tracked_def)
    then show ?thesis using r Cons.prems(1) by (intro exI [of _ 0]) (auto simp: markedBuffers_def tracked_def)
  qed
qed

section \<open>Following the jumps\<close>

text \<open>
  The GPU reads the commands of a buffer up to its end: a jump written there leads to the start of the next one, and so do
  no-operations up to its start. Nothing written there leaves the end of the batch in place.
\<close>

definition linkedBuffers :: "BatchEnvironment \<Rightarrow> (u64 \<Rightarrow> PatchedCommand option) \<Rightarrow> CommandBuffer \<Rightarrow> CommandBuffer \<Rightarrow> bool" where
  "linkedBuffers env m cb next \<longleftrightarrow> (case cbAllocation next of None \<Rightarrow> False
     | Some a \<Rightarrow> (case m (cbEndLocation cb) of
         Some (PatchedStart g) \<Rightarrow> g = bufferGpuStart env next a
       | Some (PatchedNoops n) \<Rightarrow> cbEndLocation cb + n = bufferCpuStart env next a
       | _ \<Rightarrow> False))"

fun chainedBuffers :: "BatchEnvironment \<Rightarrow> (u64 \<Rightarrow> PatchedCommand option) \<Rightarrow> CommandBuffer list \<Rightarrow> bool" where
  "chainedBuffers env m [] \<longleftrightarrow> True"
| "chainedBuffers env m [cb] \<longleftrightarrow> m (cbEndLocation cb) = None"
| "chainedBuffers env m (cb # next # rest) \<longleftrightarrow> linkedBuffers env m cb next \<and> chainedBuffers env m (next # rest)"

lemma linked_cong:
  assumes "m' (cbEndLocation b) = m (cbEndLocation b)"
  shows "linkedBuffers env m' b next = linkedBuffers env m b next"
  unfolding linkedBuffers_def assms ..

lemma chained_cong:
  "(\<And>cb. cb \<in> set bufs \<Longrightarrow> m' (cbEndLocation cb) = m (cbEndLocation cb)) \<Longrightarrow> chainedBuffers env m' bufs = chainedBuffers env m bufs"
proof (induction bufs rule: induct_list012)
  case (3 cb nb rest)
  then have "linkedBuffers env m' cb nb = linkedBuffers env m cb nb" by (intro linked_cong) simp
  then show ?case using 3 by simp
qed simp_all

lemma linked_marked [simp]:
  "linkedBuffers env m (cb\<lparr>cbInspectionId := i\<rparr>) next = linkedBuffers env m cb next"
  "linkedBuffers env m cb (next\<lparr>cbInspectionId := i\<rparr>) = linkedBuffers env m cb next"
  by (simp_all add: linkedBuffers_def bufferGpuStart_def bufferCpuStart_def split: option.split PatchedCommand.split)

text \<open>The buffers end at different places, and no barrier that is patched lies at one of them.\<close>

definition apartBuffers :: "CommandBuffer list \<Rightarrow> bool" where
  "apartBuffers bufs \<longleftrightarrow> distinct (map cbEndLocation bufs) \<and>
     (\<forall>cb \<in> set bufs. \<forall>cb' \<in> set bufs. cbEndLocation cb \<noteq> cbErasableBarrier cb' \<and> cbEndLocation cb \<noteq> cbEpilogueBarrier cb')"

definition patchPlaces :: "CommandBuffer list \<Rightarrow> u64 set" where
  "patchPlaces bufs = cbEndLocation ` set bufs \<union> cbErasableBarrier ` set bufs \<union> cbEpilogueBarrier ` set bufs"

lemma patchPlaces_append: "patchPlaces (xs @ ys) = patchPlaces xs \<union> patchPlaces ys"
  by (auto simp: patchPlaces_def)

lemma chainNext_memory:
  assumes "chainEnd c = cbEndLocation b" "chainErasable c = cbErasableBarrier b" "cbEndLocation b \<noteq> cbErasableBarrier b"
    and "cbAllocation next = Some a"
  shows "linkedBuffers env (chainMemory (chainNext env next a c)) b next"
    and "x \<noteq> cbEndLocation b \<Longrightarrow> x \<noteq> cbErasableBarrier b \<Longrightarrow> chainMemory (chainNext env next a c) x = chainMemory c x"
    and "chainEnd (chainNext env next a c) = cbEndLocation next" "chainErasable (chainNext env next a c) = cbErasableBarrier next"
  using assms by (simp_all add: chainNext_def Let_def linkedBuffers_def)

lemma chainBuffers_spec:
  assumes "\<forall>cb \<in> set ms. cbAllocation cb \<noteq> None" "\<forall>cb \<in> set ds. cbInspectionId cb \<noteq> i" "chainEnd c = cbEndLocation b"
    "chainErasable c = cbErasableBarrier b" "chainEpilogue c = cbEpilogueBarrier b" "chainTaskCount c = cbTaskCount b"
    "apartBuffers (b # ms)" "\<forall>cb \<in> set (b # ms). chainMemory c (cbEndLocation cb) = None"
  shows "\<exists>c'. chainBuffers env i (markedBuffers i ms @ ds) c = Inr (ds, c') \<and> chainedBuffers env (chainMemory c') (b # ms) \<and>
    (\<forall>x. x \<notin> patchPlaces (b # ms) \<longrightarrow> chainMemory c' x = chainMemory c x) \<and> chainEnd c' = cbEndLocation (last (b # ms)) \<and>
    chainEpilogue c' = cbEpilogueBarrier (last (b # ms)) \<and> chainTaskCount c' = cbTaskCount (last (b # ms)) \<and>
    set (chainStamps c') = set (chainStamps c) \<union> (\<Union>cb \<in> set ms. set_option (cbFlushStamp cb))"
  using assms
proof (induction ms arbitrary: b c)
  case Nil
  then show ?case by (cases ds) (auto simp: markedBuffers_def)
next
  case (Cons nb ms)
  obtain a where a: "cbAllocation nb = Some a" using Cons.prems(1) by auto
  let ?nb = "nb\<lparr>cbInspectionId := i\<rparr>" and ?c = "chainNext env nb a c"
  have same: "chainNext env ?nb a c = ?c" unfolding chainNext_def bufferGpuStart_def bufferCpuStart_def Let_def by simp
  have apart: "apartBuffers (nb # ms)" "cbEndLocation b \<noteq> cbErasableBarrier b" "cbEndLocation b \<notin> patchPlaces (nb # ms)"
    using Cons.prems(7) by (auto simp: apartBuffers_def patchPlaces_def)
  note n = chainNext_memory [OF Cons.prems(3,4) apart(2) a]
  have "chainMemory ?c (cbEndLocation cb) = None" if "cb \<in> set (nb # ms)" for cb
  proof -
    have "cbEndLocation cb \<in> patchPlaces (nb # ms)" using that unfolding patchPlaces_def by blast
    then have "cbEndLocation cb \<noteq> cbEndLocation b" "cbEndLocation cb \<noteq> cbErasableBarrier b"
      using apart(3) Cons.prems(7) that by (auto simp: apartBuffers_def)
    moreover have "chainMemory c (cbEndLocation cb) = None" using Cons.prems(8) that by auto
    ultimately show ?thesis using n(2) by simp
  qed
  moreover have "chainEpilogue ?c = cbEpilogueBarrier nb" "chainTaskCount ?c = cbTaskCount nb"
    by (simp_all add: chainNext_def Let_def)
  ultimately obtain c' where c': "chainBuffers env i (markedBuffers i ms @ ds) ?c = Inr (ds, c')"
    "chainedBuffers env (chainMemory c') (nb # ms)"
    "\<forall>x. x \<notin> patchPlaces (nb # ms) \<longrightarrow> chainMemory c' x = chainMemory ?c x" "chainEnd c' = cbEndLocation (last (nb # ms))"
    "chainEpilogue c' = cbEpilogueBarrier (last (nb # ms))" "chainTaskCount c' = cbTaskCount (last (nb # ms))"
    "set (chainStamps c') = set (chainStamps ?c) \<union> (\<Union>cb \<in> set ms. set_option (cbFlushStamp cb))"
    using Cons.IH [of ?c nb] Cons.prems(1,2) apart(1) n(3,4) by auto
  have "chainMemory c' (cbEndLocation b) = chainMemory ?c (cbEndLocation b)" using c'(3) apart(3) by simp
  then have "linkedBuffers env (chainMemory c') b nb" using n(1) linked_cong by blast
  moreover have "chainMemory c' x = chainMemory c x" if "x \<notin> patchPlaces (b # nb # ms)" for x
    using that c'(3) n(2) [of x] by (auto simp: patchPlaces_def)
  moreover have "set (chainStamps ?c) = set (chainStamps c) \<union> set_option (cbFlushStamp nb)"
    by (cases "cbFlushStamp nb") (auto simp: chainNext_def Let_def insertStamp_def)
  moreover have "chainBuffers env i (markedBuffers i (nb # ms) @ ds) c = chainBuffers env i (markedBuffers i ms @ ds) ?c"
    using a same by (simp add: markedBuffers_def)
  ultimately show ?case using c' by auto
qed

section \<open>A flush serves every recorded buffer\<close>

definition packageSize :: "BatchEnvironment \<Rightarrow> AllocationId set \<Rightarrow> nat" where
  "packageSize env A = (\<Sum>a \<in> A. unat (allocationSize env a))"

lemma wordSizes_package:
  "distinct as \<Longrightarrow> packageSize env (set as) < 2 ^ 64 \<Longrightarrow> unat (wordSizes env as) = packageSize env (set as)"
proof (induction as)
  case (Cons a as)
  then have s: "packageSize env (set (a # as)) = unat (allocationSize env a) + packageSize env (set as)" by (simp add: packageSize_def)
  then have "unat (wordSizes env as) = packageSize env (set as)" using Cons by simp
  moreover from this have "unat (allocationSize env a + wordSizes env as) = unat (allocationSize env a) + unat (wordSizes env as)"
    using Cons.prems(2) s by (intro unat_add_nowrap) simp
  ultimately show ?case using s by simp
qed (simp add: packageSize_def)

lemma package_mono: "finite B \<Longrightarrow> A \<subseteq> B \<Longrightarrow> packageSize env A \<le> packageSize env B"
  unfolding packageSize_def by (rule sum_mono2) auto

definition batchReady :: "BatchEnvironment \<Rightarrow> BatchedCsr \<Rightarrow> bool" where
  "batchReady env csr \<longleftrightarrow>
     (\<forall>cb \<in> set (cmdBuffers csr). cbInspectionId cb < aggregatorInspectionId csr \<and> cbAllocation cb \<noteq> None \<and>
        commandMemory csr (cbEndLocation cb) = None) \<and>
     (\<forall>a. allocationInspectionId csr a < aggregatorInspectionId csr) \<and>
     unat (aggregatorInspectionId csr) + length (cmdBuffers csr) < 2 ^ 32 \<and> apartBuffers (cmdBuffers csr) \<and>
     packageSize env (\<Union>cb \<in> set (cmdBuffers csr). bufferNeeds cb) < 2 ^ 64"

text \<open>
  A submission serves a group of buffers: it starts with the first, the jumps lead through all of them in their order, and
  every allocation they need is made resident once. What is merged fits the budget.
\<close>

definition servedBy :: "BatchEnvironment \<Rightarrow> u64 \<Rightarrow> (u64 \<Rightarrow> PatchedCommand option) \<Rightarrow> CommandBuffer list \<Rightarrow> BatchSubmission \<Rightarrow> bool" where
  "servedBy env budget m grp sub \<longleftrightarrow> grp \<noteq> [] \<and>
     (\<exists>i. subBuffer sub = (hd grp)\<lparr>cbInspectionId := i, cbEndCmdPtr := cbEndLocation (last grp)\<rparr>) \<and>
     chainedBuffers env m grp \<and> distinct (subSurfaces sub) \<and>
     set (subSurfaces sub) = set (cbSurfaces (hd grp)) \<union> ((\<Union>cb \<in> set (tl grp). bufferNeeds cb) - set_option (cbAllocation (hd grp))) \<and>
     (tl grp \<noteq> [] \<longrightarrow> packageSize env (set (subSurfaces sub)) \<le> unat budget)"

lemma finite_needs [simp]: "finite (bufferNeeds cb)"
  by (cases "cbAllocation cb") (simp_all add: bufferNeeds_def)

lemma aggregate_spec:
  assumes ready: "batchReady env csr" and bufs: "cmdBuffers csr = primary # rest"
  obtains package used ids k where
    "aggregateCommandBuffers env [] 0 budget csr = (package, used, csr\<lparr>aggregatorInspectionId := aggregatorInspectionId csr + 1,
       cmdBuffers := primary\<lparr>cbInspectionId := aggregatorInspectionId csr\<rparr> #
         (markedBuffers (aggregatorInspectionId csr) (take k rest) @ drop k rest), allocationInspectionId := ids\<rparr>)"
    "k \<le> length rest" "distinct package"
    "set package = set (cbSurfaces primary) \<union> ((\<Union>cb \<in> set (take k rest). bufferNeeds cb) - set_option (cbAllocation primary))"
    "0 < k \<longrightarrow> packageSize env (set package) \<le> unat budget" "\<forall>a. ids a \<le> aggregatorInspectionId csr"
proof -
  let ?i = "aggregatorInspectionId csr"
  from aggregate_obtain [OF bufs, of env "[]" 0 budget] obtain package1 used1 ids1 rest2 package used ids where
    1: "inspectSurfaces env None ?i (cbSurfaces primary) ([], 0, allocationInspectionId csr) = (package1, used1, ids1)" and
    2: "(if mergeable primary rest then mergeBuffers env (cbAllocation primary) ?i budget rest (package1, used1, ids1)
      else (rest, package1, used1, ids1)) = (rest2, package, used, ids)" and
    3: "aggregateCommandBuffers env [] 0 budget csr = (package, used,
       csr\<lparr>aggregatorInspectionId := ?i + 1, cmdBuffers := primary\<lparr>cbInspectionId := ?i\<rparr> # rest2, allocationInspectionId := ids\<rparr>)" by metis
  have fresh: "allocationInspectionId csr a < ?i" for a using ready by (simp add: batchReady_def)
  from inspectSurfaces_spec [OF 1] have p: "distinct package1" "set package1 = set (cbSurfaces primary)" "used1 = wordSizes env package1"
    "ids1 = (\<lambda>a. if a \<in> set package1 then ?i else allocationInspectionId csr a)" using fresh by auto
  have t: "tracked ?i package1 ids1" using p fresh by (auto simp: tracked_def less_imp_le)
  have "\<exists>k \<le> length rest. rest2 = markedBuffers ?i (take k rest) @ drop k rest \<and> distinct package \<and>
    set package = set package1 \<union> ((\<Union>cb \<in> set (take k rest). bufferNeeds cb) - set_option (cbAllocation primary)) \<and>
    (if 0 < k then wordSizes env package \<le> budget else package = package1) \<and> (\<forall>a. ids a \<le> ?i)"
  proof (cases "mergeable primary rest")
    case True
    then show ?thesis using mergeBuffers_spec [OF t p(3)] 2 by simp
  next
    case False
    then show ?thesis using 2 p(1) t by (intro exI [of _ 0]) (auto simp: markedBuffers_def tracked_def)
  qed
  then obtain k where k: "k \<le> length rest" "rest2 = markedBuffers ?i (take k rest) @ drop k rest" "distinct package"
    "set package = set package1 \<union> ((\<Union>cb \<in> set (take k rest). bufferNeeds cb) - set_option (cbAllocation primary))"
    "if 0 < k then wordSizes env package \<le> budget else package = package1" "\<forall>a. ids a \<le> ?i" by blast
  have "set package \<subseteq> (\<Union>cb \<in> set (cmdBuffers csr). bufferNeeds cb)"
    unfolding k(4) p(2) bufs using set_take_subset [of k rest] by (auto simp: bufferNeeds_def)
  then have "packageSize env (set package) < 2 ^ 64"
    using package_mono [of "\<Union>cb \<in> set (cmdBuffers csr). bufferNeeds cb" "set package" env] ready by (simp add: batchReady_def)
  note w = wordSizes_package [OF k(3) this]
  have "packageSize env (set package) \<le> unat budget" if "0 < k"
    using k(5) that unfolding w [symmetric] by (simp add: word_le_nat_alt)
  then show thesis using that [OF 3 [unfolded k(2)] k(1,3)] k(4,6) p(2) by simp
qed

lemma apart_subset: "apartBuffers bufs \<Longrightarrow> distinct (map cbEndLocation ds) \<Longrightarrow> set ds \<subseteq> set bufs \<Longrightarrow> apartBuffers ds"
  by (auto simp: apartBuffers_def)

lemma patch_outside:
  assumes "apartBuffers (xs @ ys)" "cb \<in> set ys"
  shows "cbEndLocation cb \<notin> patchPlaces xs"
  using assms by (auto simp: apartBuffers_def patchPlaces_def)

lemma flushPrimary_spec:
  assumes ready: "batchReady env csr" and bufs: "cmdBuffers csr = primary # rest"
  obtains ms ds csr' sub where "rest = ms @ ds"
    "flushPrimary env budget csr = Inr (fst (flushAnswer env (length (submissions csr) + 1)), csr')"
    "cmdBuffers csr' = ds" "submissions csr' = submissions csr @ [sub]"
    "servedBy env budget (commandMemory csr') (primary # ms) sub"
    "\<forall>x. x \<notin> patchPlaces (primary # ms) \<longrightarrow> commandMemory csr' x = commandMemory csr x"
    "aggregatorInspectionId csr' = aggregatorInspectionId csr + 1" "\<forall>a. allocationInspectionId csr' a \<le> aggregatorInspectionId csr"
    "fst (flushAnswer env (length (submissions csr) + 1)) \<longrightarrow> batchedLatestFlushed csr' =
       (if updateTagFromWaitEnabled env then batchedLatestFlushed csr else cbTaskCount (last (primary # ms)))"
proof -
  let ?i = "aggregatorInspectionId csr"
  from aggregate_spec [OF ready bufs] obtain package used ids k where
    a: "aggregateCommandBuffers env [] 0 budget csr = (package, used, csr\<lparr>aggregatorInspectionId := ?i + 1,
       cmdBuffers := primary\<lparr>cbInspectionId := ?i\<rparr> # (markedBuffers ?i (take k rest) @ drop k rest), allocationInspectionId := ids\<rparr>)"
    "k \<le> length rest" "distinct package"
    "set package = set (cbSurfaces primary) \<union> ((\<Union>cb \<in> set (take k rest). bufferNeeds cb) - set_option (cbAllocation primary))"
    "0 < k \<longrightarrow> packageSize env (set package) \<le> unat budget" "\<forall>a. ids a \<le> ?i" .
  define ms where "ms = take k rest"
  define ds where "ds = drop k rest"
  note a = a [folded ms_def ds_def]
  have "ms \<noteq> [] \<longrightarrow> 0 < k" by (auto simp: ms_def)
  with a(5) have fits: "ms \<noteq> [] \<longrightarrow> packageSize env (set package) \<le> unat budget" by blast
  let ?c = "\<lparr>chainEnd = cbEndLocation primary, chainTaskCount = cbTaskCount primary, chainArgs = cbEpilogueArgs primary,
       chainStamps = insertStamp (cbFlushStamp primary) [], chainErasable = cbErasableBarrier primary,
       chainEpilogue = cbEpilogueBarrier primary, chainMemory = commandMemory csr\<rparr>"
  have rest: "rest = ms @ ds" by (simp add: ms_def ds_def)
  have in_rest: "set ms \<subseteq> set (cmdBuffers csr)" "set ds \<subseteq> set (cmdBuffers csr)" "set (primary # ms) \<subseteq> set (cmdBuffers csr)"
    unfolding bufs rest by auto
  have "apartBuffers (primary # rest)" using ready bufs by (simp add: batchReady_def)
  moreover from this have "distinct (map cbEndLocation (primary # ms))" unfolding apartBuffers_def rest by simp
  ultimately have apart: "apartBuffers (primary # ms)" using apart_subset in_rest(3) bufs by metis
  have m: "\<forall>cb \<in> set ms. cbAllocation cb \<noteq> None" "\<forall>cb \<in> set ds. cbInspectionId cb \<noteq> ?i"
    "\<forall>cb \<in> set (primary # ms). chainMemory ?c (cbEndLocation cb) = None"
    using ready in_rest unfolding batchReady_def by fastforce+
  from chainBuffers_spec [where c = ?c and env = env, OF m(1,2) _ _ _ _ apart m(3)] obtain c where
    c: "chainBuffers env ?i (markedBuffers ?i ms @ ds) ?c = Inr (ds, c)" "chainedBuffers env (chainMemory c) (primary # ms)"
    "\<forall>x. x \<notin> patchPlaces (primary # ms) \<longrightarrow> chainMemory c x = commandMemory csr x" "chainEnd c = cbEndLocation (last (primary # ms))"
    "chainEpilogue c = cbEpilogueBarrier (last (primary # ms))" "chainTaskCount c = cbTaskCount (last (primary # ms))" by auto
  let ?m = "if chainEpilogue c \<noteq> 0 \<and> dcFlushSupported env
      then (chainMemory c)(chainEpilogue c \<mapsto> PatchedBarrier (chainTaskCount c) ((chainArgs c)\<lparr>dcFlushEnable := \<not> flagDisableDcFlushInEpilogue env\<rparr>))
      else chainMemory c"
  let ?sub = "\<lparr>subBuffer = primary\<lparr>cbInspectionId := ?i, cbEndCmdPtr := chainEnd c\<rparr>, subSurfaces = package\<rparr>"
  let ?csr = "csr\<lparr>aggregatorInspectionId := ?i + 1, allocationInspectionId := ids, cmdBuffers := ds, commandMemory := ?m,
      submissions := submissions csr @ [?sub]\<rparr>"
  obtain success stamp where s: "flushAnswer env (length (submissions csr) + 1) = (success, stamp)" by fastforce
  let ?csr' = "if success then ?csr\<lparr>batchedTaskLevel := batchedTaskLevel csr + 1, csrFlushStamp := stamp,
       stampObjects := (\<lambda>s. if s \<in> set (chainStamps c) then Some stamp else stampObjects csr s),
       batchedLatestFlushed := (if \<not> updateTagFromWaitEnabled env then chainTaskCount c else batchedLatestFlushed csr),
       nonResident := nonResident csr @ package\<rparr> else ?csr"
  have f: "flushPrimary env budget csr = Inr (success, ?csr')"
    by (simp add: flushPrimary_def a(1) c(1) s [simplified] Let_def cong: if_cong)
  have last_in: "last (primary # ms) \<in> set (primary # ms)" by (rule last_in_set) simp
  have "\<forall>cb \<in> set (primary # ms). cbEndLocation cb \<noteq> chainEpilogue c"
    unfolding c(5) using apart last_in unfolding apartBuffers_def by blast
  then have "chainedBuffers env ?m (primary # ms) = chainedBuffers env (chainMemory c) (primary # ms)" by (intro chained_cong) auto
  then have chained: "chainedBuffers env ?m (primary # ms)" using c(2) by blast
  have first: "\<exists>i. subBuffer ?sub = (hd (primary # ms))\<lparr>cbInspectionId := i, cbEndCmdPtr := cbEndLocation (last (primary # ms))\<rparr>"
    by (rule exI [of _ ?i]) (simp only: c(4) BatchSubmission.simps list.sel)
  have served: "servedBy env budget ?m (primary # ms) ?sub"
    unfolding servedBy_def list.sel BatchSubmission.simps using chained first [unfolded list.sel BatchSubmission.simps] a(3,4) fits
    by blast
  have "chainEpilogue c \<in> patchPlaces (primary # ms)" unfolding c(5) patchPlaces_def using last_in by blast
  then have frame: "\<forall>x. x \<notin> patchPlaces (primary # ms) \<longrightarrow> ?m x = commandMemory csr x" using c(3) by auto
  show thesis
    by (rule that [of ms ds ?csr' ?sub]) (use rest a(6) f s served frame c(6) in \<open>simp_all\<close>)
qed

lemma ready_after:
  assumes ready: "batchReady env csr" and bufs: "cmdBuffers csr = primary # ms @ ds" and d: "cmdBuffers csr' = ds"
    and frame: "\<forall>x. x \<notin> patchPlaces (primary # ms) \<longrightarrow> commandMemory csr' x = commandMemory csr x"
    and i: "aggregatorInspectionId csr' = aggregatorInspectionId csr + 1" "\<forall>a. allocationInspectionId csr' a \<le> aggregatorInspectionId csr"
  shows "batchReady env csr'"
proof -
  let ?i = "aggregatorInspectionId csr"
  have apart: "apartBuffers ((primary # ms) @ ds)" and len: "unat ?i + length (cmdBuffers csr) < 2 ^ 32"
    using ready bufs by (simp_all add: batchReady_def)
  have "unat (?i + 1) = unat ?i + 1" using len unat_add_nowrap [of ?i 1] by (simp add: bufs)
  then have next_id: "unat (aggregatorInspectionId csr') = unat ?i + 1" using i(1) by simp
  have "cbInspectionId cb < aggregatorInspectionId csr' \<and> cbAllocation cb \<noteq> None \<and> commandMemory csr' (cbEndLocation cb) = None"
    if "cb \<in> set ds" for cb
  proof -
    have "cb \<in> set (cmdBuffers csr)" using that bufs by simp
    then have "cbInspectionId cb < ?i" "cbAllocation cb \<noteq> None" "commandMemory csr (cbEndLocation cb) = None"
      using ready by (simp_all add: batchReady_def)
    moreover have "commandMemory csr' (cbEndLocation cb) = commandMemory csr (cbEndLocation cb)"
      using frame patch_outside [OF apart that] by blast
    ultimately show ?thesis using next_id by (simp add: word_less_nat_alt)
  qed
  moreover have "allocationInspectionId csr' a < aggregatorInspectionId csr'" for a
    using i(2) next_id by (simp add: word_less_nat_alt word_le_nat_alt le_imp_less_Suc)
  moreover have "apartBuffers ds" using apart_subset [OF apart] apart by (auto simp: apartBuffers_def)
  moreover have "packageSize env (\<Union>cb \<in> set ds. bufferNeeds cb) < 2 ^ 64"
  proof -
    have "packageSize env (\<Union>cb \<in> set ds. bufferNeeds cb) \<le> packageSize env (\<Union>cb \<in> set (cmdBuffers csr). bufferNeeds cb)"
      by (rule package_mono) (auto simp: bufs)
    then show ?thesis using ready by (simp add: batchReady_def)
  qed
  ultimately show ?thesis unfolding batchReady_def d next_id using len by (simp add: bufs)
qed

lemma flushLoop_serves:
  assumes "batchReady env csr" "\<And>n. fst (flushAnswer env n)"
  shows "\<exists>csr' groups subs. flushLoop env budget csr = Inr (True, csr') \<and> cmdBuffers csr' = [] \<and>
    concat groups = cmdBuffers csr \<and> submissions csr' = submissions csr @ subs \<and>
    list_all2 (servedBy env budget (commandMemory csr')) groups subs \<and>
    (\<forall>x. x \<notin> patchPlaces (cmdBuffers csr) \<longrightarrow> commandMemory csr' x = commandMemory csr x) \<and>
    batchedLatestFlushed csr' = (if cmdBuffers csr = [] \<or> updateTagFromWaitEnabled env then batchedLatestFlushed csr
      else cbTaskCount (last (cmdBuffers csr)))"
  using assms(1)
proof (induction "length (cmdBuffers csr)" arbitrary: csr rule: less_induct)
  case less
  show ?case
  proof (cases "cmdBuffers csr")
    case Nil
    then show ?thesis by (intro exI [of _ csr] exI [of _ "[]"]) (simp add: flushLoop.simps)
  next
    case (Cons primary rest)
    obtain ms ds csr1 sub where 1: "rest = ms @ ds"
      "flushPrimary env budget csr = Inr (fst (flushAnswer env (length (submissions csr) + 1)), csr1)"
      "cmdBuffers csr1 = ds" "submissions csr1 = submissions csr @ [sub]"
      "servedBy env budget (commandMemory csr1) (primary # ms) sub"
      "\<forall>x. x \<notin> patchPlaces (primary # ms) \<longrightarrow> commandMemory csr1 x = commandMemory csr x"
      "aggregatorInspectionId csr1 = aggregatorInspectionId csr + 1" "\<forall>a. allocationInspectionId csr1 a \<le> aggregatorInspectionId csr"
      "fst (flushAnswer env (length (submissions csr) + 1)) \<longrightarrow> batchedLatestFlushed csr1 =
         (if updateTagFromWaitEnabled env then batchedLatestFlushed csr else cbTaskCount (last (primary # ms)))"
      using flushPrimary_spec [OF less.prems Cons] .
    have bufs: "cmdBuffers csr = primary # ms @ ds" using Cons 1(1) by simp
    have ready1: "batchReady env csr1" by (rule ready_after [OF less.prems bufs 1(3,6,7,8)])
    have "length (cmdBuffers csr1) < length (cmdBuffers csr)" using bufs 1(3) by simp
    from less.hyps [OF this ready1] obtain csr' groups subs where 2: "flushLoop env budget csr1 = Inr (True, csr')" "cmdBuffers csr' = []"
      "concat groups = ds" "submissions csr' = submissions csr1 @ subs" "list_all2 (servedBy env budget (commandMemory csr')) groups subs"
      "\<forall>x. x \<notin> patchPlaces ds \<longrightarrow> commandMemory csr' x = commandMemory csr1 x"
      "batchedLatestFlushed csr' = (if ds = [] \<or> updateTagFromWaitEnabled env then batchedLatestFlushed csr1 else cbTaskCount (last ds))"
      unfolding 1(3) by blast
    have apart: "apartBuffers (ds @ (primary # ms))"
      using less.prems by (auto simp: batchReady_def bufs apartBuffers_def)
    have "commandMemory csr' (cbEndLocation cb) = commandMemory csr1 (cbEndLocation cb)" if "cb \<in> set (primary # ms)" for cb
      using 2(6) patch_outside [OF apart that] by blast
    then have "chainedBuffers env (commandMemory csr') (primary # ms) = chainedBuffers env (commandMemory csr1) (primary # ms)"
      by (rule chained_cong)
    then have served: "servedBy env budget (commandMemory csr') (primary # ms) sub" using 1(5) unfolding servedBy_def by blast
    have "\<forall>x. x \<notin> patchPlaces (cmdBuffers csr) \<longrightarrow> commandMemory csr' x = commandMemory csr x"
      using 1(6) 2(6) patchPlaces_append [of "primary # ms" ds] unfolding bufs by simp
    moreover have "flushLoop env budget csr = Inr (True, csr')"
      by (subst flushLoop.simps) (simp add: Cons 1(2) assms(2) 2(1))
    moreover have "batchedLatestFlushed csr' = (if cmdBuffers csr = [] \<or> updateTagFromWaitEnabled env then batchedLatestFlushed csr
      else cbTaskCount (last (cmdBuffers csr)))" using 2(7) 1(9) assms(2) by (simp add: bufs)
    ultimately show ?thesis using 2(2-5) 1(4) served bufs
      by (intro exI [of _ csr'] exI [of _ "(primary # ms) # groups"] exI [of _ "sub # subs"]) simp
  qed
qed

section \<open>Properties\<close>

text \<open>
  C6: When the operating system accepts every submission, a flush empties the list: the recorded buffers are split into groups
  in their order, each group is one submission, whose jumps lead through its buffers in order, whose allocations are resident
  exactly once, and which fits the memory budget when more than one buffer was merged.
\<close>

theorem batched_flush_serves_all:
  assumes "batchedDispatch csr" "cmdBuffers csr = first # rest" "batchReady env csr" "\<forall>n. fst (flushAnswer env n)"
  shows "\<exists>csr' groups subs. flushBatchedSubmissions env csr = Inr (True, csr') \<and> cmdBuffers csr' = [] \<and>
    concat groups = first # rest \<and> submissions csr' = submissions csr @ subs \<and>
    list_all2 (servedBy env (cbGlobalMemSize first div 2) (commandMemory csr')) groups subs \<and>
    batchedLatestFlushed csr' = (if updateTagFromWaitEnabled env then batchedLatestFlushed csr else cbTaskCount (last (first # rest)))"
proof -
  from flushLoop_serves [OF assms(3), of "cbGlobalMemSize first div 2"] assms(4) obtain csr' groups subs where
    1: "flushLoop env (cbGlobalMemSize first div 2) csr = Inr (True, csr')" "cmdBuffers csr' = []" "concat groups = first # rest"
    "submissions csr' = submissions csr @ subs"
    "list_all2 (servedBy env (cbGlobalMemSize first div 2) (commandMemory csr')) groups subs"
    "batchedLatestFlushed csr' = (if updateTagFromWaitEnabled env then batchedLatestFlushed csr else cbTaskCount (last (first # rest)))"
    unfolding assms(2) by auto
  have "flushBatchedSubmissions env csr = Inr (True, csr'\<lparr>totalMemoryUsed := 0\<rparr>)"
    by (simp add: flushBatchedSubmissions_def assms(1,2) 1(1))
  then show ?thesis using 1(2-6)
    by (intro exI [of _ "csr'\<lparr>totalMemoryUsed := 0\<rparr>"] exI [of _ groups] exI [of _ subs]) simp
qed

definition sampleBuffer :: "nat \<Rightarrow> bool \<Rightarrow> CommandBuffer" where
  "sampleBuffer n low = \<lparr>cbSurfaces = [10 + n], cbAllocation = Some n, cbStartOffset = 0, cbLowPriority = low, cbThrottle = throttleMedium,
     cbSliceCount = 0, cbEndCmdPtr = 0x10F00 + of_nat n * 0x1000, cbEndLocation = 0x10F00 + of_nat n * 0x1000, cbInspectionId = 0,
     cbTaskCount = of_nat n + 1, cbErasableBarrier = 0, cbEpilogueBarrier = 0,
     cbEpilogueArgs = \<lparr>dcFlushEnable = False, otherBarrierArgs = []\<rparr>, cbFlushStamp = None, cbGlobalMemSize = 0x100000\<rparr>"

definition sampleEnvironment :: "bool \<Rightarrow> BatchEnvironment" where
  "sampleEnvironment ok = \<lparr>allocationSize = (\<lambda>a. 0x1000), allocationGpu = (\<lambda>a. 0x800000 + of_nat a * 0x1000),
     allocationCpu = (\<lambda>a. 0x10000 + of_nat a * 0x1000), sizeStartCommand = 12, sizeBarrier = 24, dcFlushSupported = True,
     flagDisableDcFlushInEpilogue = False, updateTagFromWaitEnabled = False, memoryBudgetExhausted = False,
     flagFlushEveryEnqueueCount = -1, useGpuIdleImplicitFlush = False, gpuTag = 0, flushAnswer = (\<lambda>n. (ok, 5))\<rparr>"

definition sampleCsr :: "CommandBuffer list \<Rightarrow> BatchedCsr" where
  "sampleCsr bufs = \<lparr>batchedDispatch = True, cmdBuffers = bufs, aggregatorInspectionId = 1, allocationInspectionId = (\<lambda>a. 0),
     commandMemory = (\<lambda>x. None), csrResidency = [], nonResident = [], stampObjects = (\<lambda>s. None), csrFlushStamp = 0,
     batchedTaskCount = 3, batchedTaskLevel = 0, batchedLatestFlushed = 0, totalMemoryUsed = 0, csrNewResources = False,
     submissions = []\<rparr>"

theorem batched_flush_serves_all_witness:
  "\<exists>csr'. flushBatchedSubmissions (sampleEnvironment True) (sampleCsr [sampleBuffer 0 False, sampleBuffer 1 False, sampleBuffer 2 False]) =
     Inr (True, csr') \<and> cmdBuffers csr' = [] \<and> batchedLatestFlushed csr' = 3"
proof -
  let ?bufs = "[sampleBuffer 0 False, sampleBuffer 1 False, sampleBuffer 2 False]"
  have "(\<Union>cb \<in> set ?bufs. bufferNeeds cb) = {0, 1, 2, 10, 11, 12}" by (auto simp: bufferNeeds_def sampleBuffer_def)
  then have "packageSize (sampleEnvironment True) (\<Union>cb \<in> set ?bufs. bufferNeeds cb) < 2 ^ 64"
    by (simp add: packageSize_def sampleEnvironment_def)
  then have "batchReady (sampleEnvironment True) (sampleCsr ?bufs)"
    by (simp add: batchReady_def sampleCsr_def apartBuffers_def sampleBuffer_def)
  then show ?thesis
    using batched_flush_serves_all [of "sampleCsr ?bufs" "sampleBuffer 0 False" "[sampleBuffer 1 False, sampleBuffer 2 False]" "sampleEnvironment True"]
    by (auto simp: sampleCsr_def sampleEnvironment_def sampleBuffer_def)
qed

lemma refused_single:
  assumes one: "cmdBuffers csr = [b]" and refused: "\<forall>n. \<not> fst (flushAnswer env n)"
  shows "\<exists>c. flushLoop env budget csr = Inr (False, c) \<and> cmdBuffers c = [] \<and> batchedTaskCount c = batchedTaskCount csr \<and>
    batchedTaskLevel c = batchedTaskLevel csr \<and> csrFlushStamp c = csrFlushStamp csr \<and> batchedLatestFlushed c = batchedLatestFlushed csr"
proof -
  have no: "flushAnswer env n = (False, snd (flushAnswer env n))" for n using refused by (cases "flushAnswer env n") (auto dest: spec [of _ n])
  from aggregate_obtain [OF one, of env "[]" 0 budget] obtain package used rest ids where
    a: "aggregateCommandBuffers env [] 0 budget csr = (package, used, csr\<lparr>aggregatorInspectionId := aggregatorInspectionId csr + 1,
         cmdBuffers := b\<lparr>cbInspectionId := aggregatorInspectionId csr\<rparr> # rest, allocationInspectionId := ids\<rparr>)"
    "rest = []" by (metis length_0_conv list.size(3))
  then have "\<exists>c. flushPrimary env budget csr = Inr (False, c) \<and> cmdBuffers c = [] \<and> batchedTaskCount c = batchedTaskCount csr \<and>
    batchedTaskLevel c = batchedTaskLevel csr \<and> csrFlushStamp c = csrFlushStamp csr \<and> batchedLatestFlushed c = batchedLatestFlushed csr"
    by (subst flushPrimary_def, subst a(1), subst split) (subst no, simp add: Let_def)
  then show ?thesis by (subst flushLoop.simps) (auto simp: one)
qed

text \<open>
  C34: A task that is recorded and flushed at once is reported with the next task count even when the operating system refuses
  the submission: the buffer is dropped from the list, and no later flush will submit it.
\<close>

theorem refused_batch_reported:
  assumes "batchedDispatch csr" "cmdBuffers csr = []" "flagFlushEveryEnqueueCount env = -1" "\<forall>n. \<not> fst (flushAnswer env n)"
  shows "\<exists>csr'. handleFlushTaskSubmission env batch True levelClosed True csr =
      Inr ((batchedTaskCount csr + 1, batchedTaskLevel csr, csrFlushStamp csr), csr') \<and>
    cmdBuffers csr' = [] \<and> batchedTaskCount csr' = batchedTaskCount csr + 1 \<and> batchedLatestFlushed csr' = batchedLatestFlushed csr"
proof -
  let ?b = "batch\<lparr>cbEndLocation := cbEndCmdPtr batch, cbSurfaces := csrResidency csr, cbInspectionId := 0,
            cbTaskCount := batchedTaskCount csr + 1\<rparr>"
  let ?csr = "recordCommandBuffer ?b (csr\<lparr>csrResidency := []\<rparr>)"
  let ?csr1 = "if csrNewResources ?csr then ?csr\<lparr>csrNewResources := False\<rparr> else ?csr"
  have same: "cmdBuffers ?csr1 = [?b]" "batchedDispatch ?csr1" "batchedTaskCount ?csr1 = batchedTaskCount csr"
    "batchedTaskLevel ?csr1 = batchedTaskLevel csr" "csrFlushStamp ?csr1 = csrFlushStamp csr"
    "batchedLatestFlushed ?csr1 = batchedLatestFlushed csr" "cbGlobalMemSize ?b = cbGlobalMemSize batch"
    using assms(1,2) by (simp_all add: recordCommandBuffer_def)
  from refused_single [OF same(1) assms(4), of "cbGlobalMemSize batch div 2"] obtain c where
    c: "flushLoop env (cbGlobalMemSize batch div 2) ?csr1 = Inr (False, c)" "cmdBuffers c = []" "batchedTaskCount c = batchedTaskCount csr"
    "batchedTaskLevel c = batchedTaskLevel csr" "csrFlushStamp c = csrFlushStamp csr" "batchedLatestFlushed c = batchedLatestFlushed csr"
    unfolding same by blast
  have "flushBatchedSubmissions env ?csr1 = Inr (False, c\<lparr>totalMemoryUsed := 0\<rparr>)"
    unfolding flushBatchedSubmissions_def same(1) using same(2) c(1) by simp
  then have "handleBatchedDispatchImplicitFlush env (cbGlobalMemSize batch) True ?csr = Inr (c\<lparr>totalMemoryUsed := 0\<rparr>)"
    using assms(3) by (simp only: handleBatchedDispatchImplicitFlush_def Let_def) simp
  then show ?thesis using c(2-)
    by (simp add: handleFlushTaskSubmission_def updateTaskCountAndGetCompletionStamp_def Let_def)
qed

theorem refused_batch_reported_witness:
  "\<exists>csr'. handleFlushTaskSubmission (sampleEnvironment False) (sampleBuffer 4 False) True False True (sampleCsr []) = Inr ((4, 0, 0), csr') \<and>
    cmdBuffers csr' = [] \<and> batchedTaskCount csr' = 4 \<and> batchedLatestFlushed csr' = 0"
  using refused_batch_reported [of "sampleCsr []" "sampleEnvironment False" "sampleBuffer 4 False" False]
  by (simp add: sampleCsr_def sampleEnvironment_def)

text \<open>
  Priority, throttle and slice count are compared for the second buffer only: a third buffer of low priority is
  merged into a batch of normal priority and runs with it.
\<close>

theorem later_priority_ignored:
  "case aggregateCommandBuffers (sampleEnvironment True) [] 0 0x80000
      (sampleCsr [sampleBuffer 0 False, sampleBuffer 1 False, sampleBuffer 2 True]) of
     (package, used, csr) \<Rightarrow>
       map (\<lambda>cb. (cbLowPriority cb, cbInspectionId cb)) (cmdBuffers csr) = [(False, 1), (False, 1), (True, 1)] \<and>
       package = [10, 11, 1, 12, 2] \<and> used = 0x5000"
  by (simp add: aggregateCommandBuffers_def sampleCsr_def sampleBuffer_def sampleEnvironment_def inspectBuffer_def Let_def)

end
