(* ===== verification/Spec2Isabelle.thy ===== *)
theory Spec2Isabelle
  imports Heap_Partition Host_Ptr Immediate_Flush Usm_Pool Fault_Handlers Local_Work_Size Deferred_Deleter
    Tag_Allocator Ring_Space Batched_Submission
begin

text \<open>
  A verification development for the Intel compute runtime (NEO), the user mode driver behind OpenCL and
  Level Zero.

  The program. The APIs (\<open>src/opencl\<close>, \<open>src/level_zero\<close>) create kernels, buffers and command lists and delegate
  to \<open>src/shared/source\<close>. There the memory manager gives buffers addresses of the GPU and, for memory of the
  user, maps pages; shared buffers migrate on page faults and small ones come from pools. Command stream receivers write
  commands and submit them to an engine; a task count per engine, which the GPU writes back as a tag, tells what has
  been completed, and decides when a buffer may be reused or freed. The development follows these paths:

  \<^item> \<open>Prelude\<close>: types for machine integers, the \<open>fault\<close> type of unrecoverable aborts and the lemmas on words,
    lists and ranges that the components share (collection \<open>word_nat\<close>).
  \<^item> \<open>Math_Helpers\<close>: \<open>helpers/{basic_math,bit_helpers,aligned_memory,ptr_math}.h\<close>.
  \<^item> \<open>Address_Ranges\<close>: the contract of an allocator of address ranges, the locale \<open>range_allocator\<close>; its
    histories are safe. It is interpreted on the heap allocator and on the memory pool.
  \<^item> \<open>Heap_Allocator\<close>: \<open>utilities/heap_allocator.{h,cpp}\<close>. The record \<open>HeapAllocator\<close> has the bounds that move
    towards each other and the two lists of freed chunks. The invariant counts for every address who covers it.
  \<^item> \<open>Heap_Partition\<close>: \<open>memory_manager/gfx_partition.{h,cpp}\<close>, \<open>helpers/heap_assigner.cpp\<close>,
    \<open>os_interface/os_memory.{h,cpp}\<close>: the layout of the heaps in the address space of the GPU; the heaps are apart.
  \<^item> \<open>Host_Ptr\<close>: \<open>memory_manager/host_ptr_manager.{h,cpp}\<close>: fragments of user memory with their counts.
  \<^item> \<open>Usm_Pool\<close>: \<open>memory_manager/unified_memory_pooling.{h,cpp}\<close> and \<open>utilities/sorted_vector.h\<close>.
  \<^item> \<open>Page_Fault\<close>: \<open>page_fault_manager/cpu_page_fault_manager.{h,cpp}\<close> with the two transfer back ends of OpenCL
    and Level Zero. The world holds the CPU and GPU copies of every allocation and the protection of the pages,
    so that coherence can be stated. The locale \<open>memory_sync\<close> is the contract of a back end.
  \<^item> \<open>Fault_Handlers\<close>: the fault manager of the TBX simulator and the chain of Linux signal handlers.
  \<^item> \<open>Stream_Properties\<close>: \<open>command_stream/stream_property.h\<close>, \<open>stream_properties.{h,cpp}\<close>: what has been
    programmed, with dirty marks. The locales \<open>state_tracker\<close> and \<open>partial_tracker\<close> state what every group keeps.
  \<^item> \<open>Immediate_Flush\<close>: \<open>flushImmediateTask\<close> of \<open>command_stream/command_stream_receiver_hw_base.inl\<close> with all its
    handlers and dispatchers, and the part of \<open>command_stream/linear_stream.h\<close> it uses.
  \<^item> \<open>Local_Work_Size\<close>: \<open>helpers/local_work_size.{h,cpp}\<close>, \<open>program/work_size_info.{h,cpp}\<close> and their callers in
    both APIs.
  \<^item> \<open>Id_List\<close>: \<open>utilities/idlist.h\<close>, lists linked through their nodes. The links are an explicit store; the
    locale \<open>framed_lists\<close> lifts what an operation does with one list to a family of lists over one store.
  \<^item> \<open>Allocation_Lists\<close>: the use of allocations by engines (\<open>memory_manager/graphics_allocation.{h,cpp}\<close>), the
    lists of temporary, reusable and deferred allocations (\<open>allocations_list.cpp\<close>, \<open>internal_allocation_storage.cpp\<close>)
    and destruction in \<open>memory_manager.cpp\<close> and \<open>deferrable_allocation_deletion.cpp\<close>.
  \<^item> \<open>Deferred_Deleter\<close>: \<open>memory_manager/deferred_deleter.{h,cpp}\<close>; the locale \<open>deletion_laws\<close> states what a deletion
    promises and is interpreted on the deletions of allocations.
  \<^item> \<open>Tag_Allocator\<close>: \<open>utilities/tag_allocator.{h,inl,cpp}\<close>, on the lists of \<open>Id_List\<close>.
  \<^item> \<open>Ring_Commands\<close>: the command sequences of relaxed ordering (\<open>direct_submission_relaxed_ordering.inl\<close>,
    \<open>relaxed_ordering_helper.h\<close>, conditional jumps of \<open>command_encoder.inl\<close>) and their sizes.
  \<^item> \<open>Direct_Submission\<close>: \<open>direct_submission/direct_submission_hw.{h,inl}\<close> and \<open>linux/drm_direct_submission.inl\<close>: ring
    buffers that the GPU polls. The record \<open>DirectSubmission\<close> has the ring buffers, the stream, the memory written, the
    semaphore and the tags; construction, initialisation, dispatch, stop and switch are one definition each.
  \<^item> \<open>Ring_Space\<close>: how much each step writes, and that a dispatch reserves enough: the predicate \<open>within\<close> bounds a step,
    \<open>ringInv\<close> keeps room for the end of the ring.
  \<^item> \<open>Batched_Submission\<close>: \<open>command_stream/submissions_aggregator.{h,cpp}\<close> and \<open>flushBatchedSubmissions\<close>: recorded command
    buffers are merged up to a memory budget, chained by jumps and submitted.

  Conventions. C++ classes are records, and a method takes the record and returns it updated. Integers of the sources are
  words of their width and wrap around. An abort (\<open>UNRECOVERABLE_IF\<close>) or an exception is a value of a sum type or
  \<open>None\<close>, and so is a null or stale pointer that the code follows. What the sources do not contain (the operating
  system, the memory library, the compiler) is an argument of the definitions, and what the code expects of it is a hypothesis
  of the theorem that needs it. Product dependent choices and debug variables are arguments too.

  Loops. Structural loops are recursions. The retry loop of \<open>allocateWithCustomAlignment\<close> has fuel, since it may run
  for ever: three rounds are enough for every valid request (\<open>allocLoop_returns\<close>), and \<open>allocate_retries_forever\<close> shows
  a request for which no fuel is. The loop of \<open>clearQueue\<close>, the loops along links and the factor loops of the work
  group sizes are partial functions, with the value \<open>None\<close> for not returning; the properties state when they return.

  Results. Each theory ends with the properties of its component: histories keep the invariants, operations refine their
  abstract counterpart, and results are characterised on each branch. Theorems that show a deviation from the intent of
  the code state when it happens; their witnesses compute a concrete case. Hypotheses that restrict a result, such as the
  valid requests of the heap allocator, the first tile of an engine or the root device with the lowest index, are named in the text of
  the theorem, beside the theorem that shows what happens without them.

  Not modelled. Mutexes and threads: the operations run one at a time, and concurrency appears as histories in which
  users, engines and workers alternate. The release of an allocation in the operating system
  (\<open>freeGraphicsMemory\<close>) is recorded, not modelled. Performance hints, log output and
  floating-point statistics are left out; the two single-precision logarithms of the work group sizes are parameters.
  The generated hardware commands, the API entry points and tracing, system management, the simulators, the offline
  compiler and the parts bound to one operating system are argument checks, field tables or input and output.
\<close>

end
